(* ===== verification/Prelude.thy ===== *)
theory Prelude
  imports
    Complex_Main
    "HOL-Library.Monad_Syntax"
    "HOL-Library.Char_ord"
    "HOL-Library.List_Lexorder"
    "HOL-Library.Product_Lexorder"
    "HOL-Library.Word"
begin

text \<open>
  Shared vocabulary of the development: the Rust scalar types, monotonic instants and
  durations, panics as \<^const>\<open>None\<close> with a weakest-precondition calculus over
  \<^typ>\<open>'a option\<close>, and the \<open>BTreeMap\<close> / \<open>BTreeSet\<close> containers the controller keeps
  its state in, together with the interface (a locale) its clients rely on.

  Conventions. \<open>f64\<close> values (temperatures, watts, transition times) come out of JSON, are
  finite, and are represented exactly by rationals. \<open>u8\<close>, \<open>u16\<close>, \<open>u32\<close> and \<open>usize\<close> values
  that the code only stores, compares or uses as indexes are natural numbers; the one counter
  that is incremented forever (\<open>heating_tick_gen\<close>) is a 64-bit word. An \<open>Instant\<close> is a number
  of nanoseconds since an arbitrary origin, and \<open>Instant::duration_since\<close> saturates at zero,
  which is exactly subtraction on natural numbers.
\<close>

named_theorems map_laws "lookup laws of the ordered maps"
named_theorems wp_rules "introduction rules of the panic calculus"

section \<open>Scalars, instants and durations\<close>

type_synonym f64 = rat
type_synonym u8 = nat
type_synonym u16 = nat
type_synonym u32 = nat
type_synonym u64 = nat
type_synonym i16 = int
type_synonym tick_gen = "64 word"
type_synonym instant = nat
type_synonym duration = nat

definition nanos_per_sec :: nat where
  "nanos_per_sec = 1000000000"

definition from_secs :: "nat \<Rightarrow> duration" where
  "from_secs s = s * nanos_per_sec"

definition from_millis :: "nat \<Rightarrow> duration" where
  "from_millis s = s * 1000000"

definition as_secs :: "duration \<Rightarrow> u64" where
  "as_secs d = d div nanos_per_sec"

definition as_millis :: "duration \<Rightarrow> nat" where
  "as_millis d = d div 1000000"

definition duration_since :: "instant \<Rightarrow> instant \<Rightarrow> duration" where
  "duration_since now earlier = now - earlier"

text \<open>
  \<open>Duration::from_secs_f64\<close> rounds to the nearest nanosecond, ties to even, and panics on a
  negative or overflowing argument.
\<close>

definition round_half_even :: "rat \<Rightarrow> int" where
  "round_half_even y =
     (let f = \<lfloor>y\<rfloor>; d = y - of_int f
      in if d < 1/2 then f else if 1/2 < d then f + 1 else if even f then f else f + 1)"

definition from_secs_f64 :: "f64 \<Rightarrow> duration option" where
  "from_secs_f64 x =
     (if x < 0 \<or> 2 ^ 64 \<le> x then None else Some (nat (round_half_even (x * 1000000000))))"

lemma duration_since_self [simp]: "duration_since t t = 0"
  by (simp add: duration_since_def)

lemma duration_since_mono: "t \<le> t' \<Longrightarrow> duration_since t s \<le> duration_since t' s"
  by (simp add: duration_since_def)

lemma from_secs_f64_total: "0 \<le> x \<Longrightarrow> x < 2 ^ 64 \<Longrightarrow> \<exists>d. from_secs_f64 x = Some d"
  by (simp add: from_secs_f64_def)

section \<open>Panics\<close>

text \<open>
  A function that may panic returns an option; \<^const>\<open>None\<close> is the panic. \<open>wp m Q\<close> says
  that \<open>m\<close> does not panic and that its result satisfies \<open>Q\<close>.
\<close>

definition wp :: "'a option \<Rightarrow> ('a \<Rightarrow> bool) \<Rightarrow> bool" where
  "wp m Q = (case m of None \<Rightarrow> False | Some x \<Rightarrow> Q x)"

definition assert_that :: "bool \<Rightarrow> unit option" where
  "assert_that b = (if b then Some () else None)"

text \<open>\<open>xs[i]\<close> on a slice: out of range panics.\<close>

definition index :: "'a list \<Rightarrow> nat \<Rightarrow> 'a option" where
  "index xs i = (if i < length xs then Some (xs ! i) else None)"

text \<open>A loop whose body may panic.\<close>

primrec foldM :: "('a \<Rightarrow> 's \<Rightarrow> 's option) \<Rightarrow> 'a list \<Rightarrow> 's \<Rightarrow> 's option" where
  "foldM f [] s = Some s"
| "foldM f (x # xs) s = do { s' \<leftarrow> f x s; foldM f xs s' }"

primrec mapM :: "('a \<Rightarrow> 'b option) \<Rightarrow> 'a list \<Rightarrow> 'b list option" where
  "mapM f [] = Some []"
| "mapM f (x # xs) = do { y \<leftarrow> f x; ys \<leftarrow> mapM f xs; Some (y # ys) }"

text \<open>\<open>filter\<close>, \<open>any\<close> and \<open>all\<close> with a closure that may panic, with Rust's short circuits.\<close>

primrec filterM :: "('a \<Rightarrow> bool option) \<Rightarrow> 'a list \<Rightarrow> 'a list option" where
  "filterM f [] = Some []"
| "filterM f (x # xs) =
     do { b \<leftarrow> f x; ys \<leftarrow> filterM f xs; Some (if b then x # ys else ys) }"

primrec anyM :: "('a \<Rightarrow> bool option) \<Rightarrow> 'a list \<Rightarrow> bool option" where
  "anyM f [] = Some False"
| "anyM f (x # xs) = do { b \<leftarrow> f x; if b then Some True else anyM f xs }"

primrec allM :: "('a \<Rightarrow> bool option) \<Rightarrow> 'a list \<Rightarrow> bool option" where
  "allM f [] = Some True"
| "allM f (x # xs) = do { b \<leftarrow> f x; if b then allM f xs else Some False }"

primrec findM :: "('a \<Rightarrow> bool option) \<Rightarrow> 'a list \<Rightarrow> 'a option option" where
  "findM f [] = Some None"
| "findM f (x # xs) = do { b \<leftarrow> f x; if b then Some (Some x) else findM f xs }"

lemma wp_Some [simp]: "wp (Some x) Q = Q x"
  by (simp add: wp_def)

lemma wp_None [simp]: "wp None Q = False"
  by (simp add: wp_def)

lemma wp_bind [simp]: "wp (Option.bind m f) Q = wp m (\<lambda>x. wp (f x) Q)"
  by (cases m) simp_all

lemma wp_if [simp]: "wp (if b then m else n) Q = (if b then wp m Q else wp n Q)"
  by simp

lemma wp_cond: "wp m Q \<Longrightarrow> wp n Q \<Longrightarrow> wp (if b then m else n) Q"
  by simp

lemma wp_assert_that [simp]: "wp (assert_that b) Q = (b \<and> Q ())"
  by (simp add: assert_that_def)

lemma wp_index [simp]: "wp (index xs i) Q = (i < length xs \<and> Q (xs ! i))"
  by (simp add: index_def)

lemma wp_iff: "wp m Q \<longleftrightarrow> (\<exists>x. m = Some x \<and> Q x)"
  by (cases m) simp_all

lemma wp_mono: "wp m P \<Longrightarrow> (\<And>x. P x \<Longrightarrow> Q x) \<Longrightarrow> wp m Q"
  by (cases m) simp_all

lemma wp_conj: "wp m (\<lambda>x. P x \<and> Q x) \<longleftrightarrow> wp m P \<and> wp m Q"
  by (cases m) simp_all

lemma wpI: "m = Some x \<Longrightarrow> Q x \<Longrightarrow> wp m Q"
  by simp

lemma wpD: "wp m Q \<Longrightarrow> m = Some x \<Longrightarrow> Q x"
  by simp

lemma wp_foldM:
  assumes "I s"
    and "\<And>x s. x \<in> set xs \<Longrightarrow> I s \<Longrightarrow> wp (f x s) I"
  shows "wp (foldM f xs s) I"
  using assms
proof (induction xs arbitrary: s)
  case Nil
  then show ?case by simp
next
  case (Cons x xs)
  have "wp (f x s) I" using Cons.prems by simp
  then show ?case by (simp, rule wp_mono) (use Cons in auto)
qed

lemma wp_mapM:
  assumes "\<And>x. x \<in> set xs \<Longrightarrow> wp (f x) (P x)"
  shows "wp (mapM f xs) (\<lambda>ys. length ys = length xs \<and> (\<forall>(x, y) \<in> set (zip xs ys). P x y))"
  using assms
proof (induction xs)
  case Nil
  then show ?case by simp
next
  case (Cons x xs)
  obtain y where y: "f x = Some y" "P x y" using Cons.prems [of x] by (auto simp: wp_iff)
  obtain ys where "mapM f xs = Some ys" "length ys = length xs"
    "\<forall>(x, y) \<in> set (zip xs ys). P x y"
    using Cons by (auto simp: wp_iff)
  with y show ?case by simp
qed

lemma wp_mapM_all:
  assumes "\<And>x. x \<in> set xs \<Longrightarrow> wp (f x) P"
  shows "wp (mapM f xs) (list_all P)"
  using assms
proof (induction xs)
  case (Cons x xs)
  obtain y where "f x = Some y" "P y" using Cons.prems [of x] by (auto simp: wp_iff)
  moreover obtain ys where "mapM f xs = Some ys" "list_all P ys" using Cons by (auto simp: wp_iff)
  ultimately show ?case by simp
qed simp

lemma mapM_Some_map: "(\<And>x. x \<in> set xs \<Longrightarrow> f x = Some (g x)) \<Longrightarrow> mapM f xs = Some (map g xs)"
  by (induction xs) simp_all

lemma filterM_Some_filter:
  "(\<And>x. x \<in> set xs \<Longrightarrow> f x = Some (g x)) \<Longrightarrow> filterM f xs = Some (filter g xs)"
  by (induction xs) simp_all

lemma anyM_Some: "(\<And>x. x \<in> set xs \<Longrightarrow> f x = Some (g x)) \<Longrightarrow> anyM f xs = Some (list_ex g xs)"
  by (induction xs) simp_all

lemma anyM_total:
  assumes "\<And>x. \<exists>b. f x = Some b"
  shows "\<exists>b. anyM f xs = Some b"
proof (induction xs)
  case (Cons x xs)
  obtain b where "f x = Some b" using assms by blast
  then show ?case using Cons by (cases b) auto
qed auto

lemma list_all_concat: "list_all P (concat xss) \<longleftrightarrow> (\<forall>xs \<in> set xss. list_all P xs)"
  by (induction xss) simp_all

lemma allM_Some: "(\<And>x. x \<in> set xs \<Longrightarrow> f x = Some (g x)) \<Longrightarrow> allM f xs = Some (list_all g xs)"
  by (induction xs) simp_all

lemma allM_total: "(\<And>x. x \<in> set xs \<Longrightarrow> \<exists>b. f x = Some b) \<Longrightarrow> \<exists>b. allM f xs = Some b"
  using allM_Some [of xs f "\<lambda>x. the (f x)"] by force

lemma anyM_total': "(\<And>x. x \<in> set xs \<Longrightarrow> \<exists>b. f x = Some b) \<Longrightarrow> \<exists>b. anyM f xs = Some b"
  using anyM_Some [of xs f "\<lambda>x. the (f x)"] by force

lemma filterM_total:
  "(\<And>x. x \<in> set xs \<Longrightarrow> \<exists>b. f x = Some b) \<Longrightarrow> \<exists>ys. filterM f xs = Some ys \<and> set ys = {x \<in> set xs. f x = Some True}"
  using filterM_Some_filter [of xs f "\<lambda>x. the (f x)"] by force

lemma findM_Some: "(\<And>x. x \<in> set xs \<Longrightarrow> f x = Some (g x)) \<Longrightarrow> findM f xs = Some (find g xs)"
  by (induction xs) simp_all

lemma find_filter: "find P xs = (case filter P xs of [] \<Rightarrow> None | x # _ \<Rightarrow> Some x)"
  by (induction xs) simp_all

lemma zip_map_same: "zip xs (map g xs) = map (\<lambda>x. (x, g x)) xs"
  by (induction xs) simp_all

lemma foldM_append: "foldM f (xs @ ys) s = do { s' \<leftarrow> foldM f xs s; foldM f ys s' }"
  by (induction xs arbitrary: s) simp_all

section \<open>Ordered maps (\<open>BTreeMap\<close>)\<close>

text \<open>
  A \<open>BTreeMap\<close> is the list of its entries in key order, the order its iterators visit them.
\<close>

type_synonym ('k, 'v) btree_map = "('k \<times> 'v) list"

definition bt_get :: "('k, 'v) btree_map \<Rightarrow> 'k \<Rightarrow> 'v option" where
  "bt_get m k = map_of m k"

fun bt_insert :: "'k::linorder \<Rightarrow> 'v \<Rightarrow> ('k, 'v) btree_map \<Rightarrow> ('k, 'v) btree_map" where
  "bt_insert k v [] = [(k, v)]"
| "bt_insert k v ((k', v') # m) =
     (if k = k' then (k, v) # m
      else if k < k' then (k, v) # (k', v') # m
      else (k', v') # bt_insert k v m)"

definition bt_remove :: "'k \<Rightarrow> ('k, 'v) btree_map \<Rightarrow> ('k, 'v) btree_map" where
  "bt_remove k m = filter (\<lambda>e. fst e \<noteq> k) m"

definition bt_contains_key :: "('k, 'v) btree_map \<Rightarrow> 'k \<Rightarrow> bool" where
  "bt_contains_key m k = (bt_get m k \<noteq> None)"

definition bt_keys :: "('k, 'v) btree_map \<Rightarrow> 'k list" where
  "bt_keys m = map fst m"

definition bt_values :: "('k, 'v) btree_map \<Rightarrow> 'v list" where
  "bt_values m = map snd m"

text \<open>A loop over \<open>values_mut()\<close> (or \<open>iter_mut()\<close>) that rewrites every value.\<close>

definition bt_map_values :: "('v \<Rightarrow> 'w) \<Rightarrow> ('k, 'v) btree_map \<Rightarrow> ('k, 'w) btree_map" where
  "bt_map_values f m = map (\<lambda>(k, v). (k, f v)) m"

text \<open>\<open>if let Some(v) = m.get_mut(k) { *v = f(v) }\<close>\<close>

definition bt_modify :: "'k::linorder \<Rightarrow> ('v \<Rightarrow> 'v) \<Rightarrow> ('k, 'v) btree_map \<Rightarrow> ('k, 'v) btree_map" where
  "bt_modify k f m = (case bt_get m k of None \<Rightarrow> m | Some v \<Rightarrow> bt_insert k (f v) m)"

text \<open>\<open>m.entry(k).or_insert(d)\<close>, read.\<close>

definition bt_get_or :: "'v \<Rightarrow> ('k, 'v) btree_map \<Rightarrow> 'k \<Rightarrow> 'v" where
  "bt_get_or d m k = (case bt_get m k of None \<Rightarrow> d | Some v \<Rightarrow> v)"

definition bt_retain :: "('k \<Rightarrow> 'v \<Rightarrow> bool) \<Rightarrow> ('k, 'v) btree_map \<Rightarrow> ('k, 'v) btree_map" where
  "bt_retain f m = filter (\<lambda>(k, v). f k v) m"

definition bt_all :: "('k \<Rightarrow> 'v \<Rightarrow> bool) \<Rightarrow> ('k, 'v) btree_map \<Rightarrow> bool" where
  "bt_all P m = list_all (\<lambda>(k, v). P k v) m"

definition bt_ok :: "('k::linorder, 'v) btree_map \<Rightarrow> bool" where
  "bt_ok m = sorted_wrt (<) (map fst m)"

lemma bt_get_empty [simp]: "bt_get [] k = None"
  by (simp add: bt_get_def)

lemma bt_get_Cons [simp]: "bt_get ((k', v) # m) k = (if k = k' then Some v else bt_get m k)"
  by (simp add: bt_get_def)

lemma bt_get_insert [simp, map_laws]:
  "bt_get (bt_insert k v m) k' = (if k' = k then Some v else bt_get m k')"
  by (induction k v m rule: bt_insert.induct) auto

lemma bt_get_remove [simp, map_laws]:
  "bt_get (bt_remove k m) k' = (if k' = k then None else bt_get m k')"
  by (induction m) (auto simp: bt_remove_def)

lemma bt_get_map_values [simp, map_laws]:
  "bt_get (bt_map_values f m) k = map_option f (bt_get m k)"
  by (induction m) (auto simp: bt_map_values_def)

lemma bt_get_modify [map_laws]:
  "bt_get (bt_modify k f m) k' = (if k' = k then map_option f (bt_get m k) else bt_get m k')"
  by (auto simp: bt_modify_def split: option.splits)

lemma bt_keys_map_values [simp]: "bt_keys (bt_map_values f m) = bt_keys m"
  by (induction m) (auto simp: bt_map_values_def bt_keys_def)

lemma set_bt_insert: "set (bt_insert k v m) \<subseteq> insert (k, v) (set m)"
  by (induction k v m rule: bt_insert.induct) auto

lemma bt_insert_keys [simp]: "set (map fst (bt_insert k v m)) = insert k (set (map fst m))"
  by (induction k v m rule: bt_insert.induct) auto

lemma bt_ok_empty [simp]: "bt_ok []"
  by (simp add: bt_ok_def)

lemma bt_ok_insert [simp]: "bt_ok m \<Longrightarrow> bt_ok (bt_insert k v m)"
proof (induction k v m rule: bt_insert.induct)
  case (2 k v k' v' m)
  then show ?case
    using bt_insert_keys [of k v m] by (auto simp: bt_ok_def)
qed (simp add: bt_ok_def)

lemma bt_ok_remove [simp]: "bt_ok m \<Longrightarrow> bt_ok (bt_remove k m)"
  by (induction m) (auto simp: bt_ok_def bt_remove_def)

lemma bt_ok_map_values [simp]: "bt_ok (bt_map_values f m) = bt_ok m"
  by (simp add: bt_ok_def bt_map_values_def comp_def case_prod_beta)

lemma bt_get_in_set: "bt_get m k = Some v \<Longrightarrow> (k, v) \<in> set m"
  by (simp add: bt_get_def map_of_SomeD)

lemma bt_ok_get: "bt_ok m \<Longrightarrow> (k, v) \<in> set m \<Longrightarrow> bt_get m k = Some v"
proof (induction m)
  case (Cons e m)
  then show ?case by (cases e) (auto simp: bt_ok_def)
qed simp

lemma set_bt_values:
  assumes "bt_ok m"
  shows "set (bt_values m) = ran (bt_get m)"
proof
  show "set (bt_values m) \<subseteq> ran (bt_get m)"
    using bt_ok_get [OF assms] by (fastforce simp: bt_values_def ran_def)
  show "ran (bt_get m) \<subseteq> set (bt_values m)"
    by (force simp: bt_values_def ran_def dest: bt_get_in_set)
qed

text \<open>Counting the values with a property is counting the keys that have one.\<close>

lemma length_filter_values:
  "bt_ok m \<Longrightarrow> length (filter P (bt_values m)) = card {k. \<exists>v. bt_get m k = Some v \<and> P v}"
proof (induction m)
  case (Cons e m)
  obtain k v where e: "e = (k, v)" by (cases e)
  have ok: "bt_ok m" and "k \<notin> set (map fst m)" using Cons.prems by (auto simp: bt_ok_def e)
  then have k: "bt_get m k = None" by (simp add: bt_get_def map_of_eq_None_iff)
  let ?S = "{k'. \<exists>v. bt_get m k' = Some v \<and> P v}"
  have fin: "finite ?S"
    by (rule finite_subset [of _ "dom (map_of m)"]) (auto simp: bt_get_def finite_dom_map_of)
  have "{k'. \<exists>v. bt_get (e # m) k' = Some v \<and> P v} = (if P v then insert k ?S else ?S)"
    using k by (auto simp: e)
  moreover have "k \<notin> ?S" using k by simp
  ultimately show ?case using Cons.IH [OF ok] fin by (simp add: bt_values_def e)
qed (simp add: bt_values_def)

lemma bt_all_empty [simp]: "bt_all P []"
  by (simp add: bt_all_def)

lemma bt_all_get: "bt_all P m \<Longrightarrow> bt_get m k = Some v \<Longrightarrow> P k v"
  by (auto simp: bt_all_def list_all_iff dest!: bt_get_in_set)

lemma bt_all_insert: "bt_all P m \<Longrightarrow> P k v \<Longrightarrow> bt_all P (bt_insert k v m)"
  using set_bt_insert [of k v m] by (auto simp: bt_all_def list_all_iff)

lemma bt_all_remove: "bt_all P m \<Longrightarrow> bt_all P (bt_remove k m)"
  by (auto simp: bt_all_def list_all_iff bt_remove_def)

lemma bt_all_map_values:
  "bt_all P m \<Longrightarrow> (\<And>k v. P k v \<Longrightarrow> Q k (f v)) \<Longrightarrow> bt_all Q (bt_map_values f m)"
  by (auto simp: bt_all_def list_all_iff bt_map_values_def)

lemma bt_all_modify:
  "bt_all P m \<Longrightarrow> (\<And>v. P k v \<Longrightarrow> P k (f v)) \<Longrightarrow> bt_all P (bt_modify k f m)"
  by (auto simp: bt_modify_def intro!: bt_all_insert dest: bt_all_get split: option.splits)

lemma bt_all_mono: "bt_all P m \<Longrightarrow> (\<And>k v. P k v \<Longrightarrow> Q k v) \<Longrightarrow> bt_all Q m"
  by (auto simp: bt_all_def list_all_iff)

lemma bt_all_values: "bt_all (\<lambda>k. P) m \<longleftrightarrow> (\<forall>v \<in> set (bt_values m). P v)"
  by (auto simp: bt_all_def list_all_iff bt_values_def)

lemmas bt_all_intros = bt_all_insert bt_all_remove bt_all_map_values bt_all_modify

section \<open>The ordered-map interface\<close>

text \<open>
  What the controller relies on: a store of entities with get-or-create access. \<open>fetch\<close> is
  the read half of \<open>entry(..).or_default()\<close> and \<open>store\<close> the write half. Everything the
  domain logic needs about the isolation of entities follows from three laws.
\<close>

locale entity_store =
  fixes fetch :: "'w \<Rightarrow> 'k \<Rightarrow> 'e"
    and store :: "'k \<Rightarrow> 'e \<Rightarrow> 'w \<Rightarrow> 'w"
  assumes fetch_store: "fetch (store k e w) k' = (if k' = k then e else fetch w k')"
begin

definition update :: "'k \<Rightarrow> ('e \<Rightarrow> 'e) \<Rightarrow> 'w \<Rightarrow> 'w" where
  "update k f w = store k (f (fetch w k)) w"

lemma fetch_update: "fetch (update k f w) k' = (if k' = k then f (fetch w k) else fetch w k')"
  by (simp add: update_def fetch_store)

lemma fetch_updates_other: "k \<notin> set ks \<Longrightarrow> fetch (fold (\<lambda>k. update k f) ks w) k = fetch w k"
  by (induction ks arbitrary: w) (simp_all add: fetch_update)

lemma fetch_updates:
  "distinct ks \<Longrightarrow>
   fetch (fold (\<lambda>k. update k f) ks w) k = (if k \<in> set ks then f (fetch w k) else fetch w k)"
proof (induction ks arbitrary: w)
  case (Cons k' ks)
  then show ?case by (auto simp: fetch_update fetch_updates_other)
qed simp

lemma updates_invariant:
  "(\<And>k. P (fetch w k)) \<Longrightarrow> (\<And>e. P e \<Longrightarrow> P (f e)) \<Longrightarrow> P (fetch (fold (\<lambda>k. update k f) ks w) k)"
proof (induction ks arbitrary: w)
  case (Cons k' ks)
  show ?case
    by (simp, rule Cons.IH) (use Cons.prems in \<open>auto simp: fetch_update\<close>)
qed simp

end

section \<open>Ordered sets (\<open>BTreeSet\<close>)\<close>

type_synonym 'a btree_set = "'a list"

definition bs_insert :: "'a::linorder \<Rightarrow> 'a btree_set \<Rightarrow> 'a btree_set" where
  "bs_insert x s = insort_insert x s"

definition bs_remove :: "'a \<Rightarrow> 'a btree_set \<Rightarrow> 'a btree_set" where
  "bs_remove x s = filter (\<lambda>y. y \<noteq> x) s"

definition bs_contains :: "'a btree_set \<Rightarrow> 'a \<Rightarrow> bool" where
  "bs_contains s x = (x \<in> set s)"

definition bs_of_list :: "'a::linorder list \<Rightarrow> 'a btree_set" where
  "bs_of_list xs = fold bs_insert xs []"

definition bs_ok :: "'a::linorder btree_set \<Rightarrow> bool" where
  "bs_ok s = (sorted s \<and> distinct s)"

lemma set_bs_insert [simp]: "set (bs_insert x s) = insert x (set s)"
  by (simp add: bs_insert_def set_insort_insert)

lemma set_bs_remove [simp]: "set (bs_remove x s) = set s - {x}"
  by (auto simp: bs_remove_def)

lemma bs_contains_iff [simp]: "bs_contains s x \<longleftrightarrow> x \<in> set s"
  by (simp add: bs_contains_def)

lemma bs_ok_insert [simp]: "bs_ok s \<Longrightarrow> bs_ok (bs_insert x s)"
  by (simp add: bs_ok_def bs_insert_def sorted_insort_insert distinct_insort_insert)

lemma bs_ok_remove [simp]: "bs_ok s \<Longrightarrow> bs_ok (bs_remove x s)"
  by (simp add: bs_ok_def bs_remove_def sorted_wrt_filter)

lemma set_fold_bs_insert: "set (fold bs_insert xs s) = set s \<union> set xs"
  by (induction xs arbitrary: s) auto

lemma set_bs_of_list [simp]: "set (bs_of_list xs) = set xs"
  by (simp add: bs_of_list_def set_fold_bs_insert)

lemma bs_ok_fold: "bs_ok s \<Longrightarrow> bs_ok (fold bs_insert xs s)"
  by (induction xs arbitrary: s) auto

lemma bs_ok_of_list [simp]: "bs_ok (bs_of_list xs)"
  unfolding bs_of_list_def by (rule bs_ok_fold) (simp add: bs_ok_def)

lemma bs_length_le: "bs_ok s \<Longrightarrow> set s \<subseteq> set xs \<Longrightarrow> length s \<le> length xs"
  by (metis bs_ok_def card_length card_mono distinct_card le_trans List.finite_set)

text \<open>\<open>Iterator::min\<close> and \<open>Iterator::max\<close>.\<close>

definition iter_min :: "'a::linorder list \<Rightarrow> 'a option" where
  "iter_min xs = (if xs = [] then None else Some (Min (set xs)))"

definition iter_max :: "'a::linorder list \<Rightarrow> 'a option" where
  "iter_max xs = (if xs = [] then None else Some (Max (set xs)))"

lemma iter_min_le: "iter_min xs = Some m \<Longrightarrow> x \<in> set xs \<Longrightarrow> m \<le> x"
  by (auto simp: iter_min_def split: if_splits)

lemma iter_min_in: "iter_min xs = Some m \<Longrightarrow> m \<in> set xs"
  by (auto simp: iter_min_def split: if_splits)

lemma iter_max_ge: "iter_max xs = Some m \<Longrightarrow> x \<in> set xs \<Longrightarrow> x \<le> m"
  by (auto simp: iter_max_def split: if_splits)

lemma iter_max_in: "iter_max xs = Some m \<Longrightarrow> m \<in> set xs"
  by (auto simp: iter_max_def split: if_splits)

section \<open>Iterators and fallible code\<close>

text \<open>\<open>Iterator::position\<close>.\<close>

primrec position :: "('a \<Rightarrow> bool) \<Rightarrow> 'a list \<Rightarrow> nat option" where
  "position P [] = None"
| "position P (x # xs) = (if P x then Some 0 else map_option Suc (position P xs))"

lemma position_less: "position P xs = Some i \<Longrightarrow> i < length xs"
  by (induction xs arbitrary: i) (auto split: if_splits)

text \<open>
  Code that returns a \<open>Result\<close> and may also panic: the outer option is the panic, \<^const>\<open>Inl\<close> the
  error. \<open>andthen\<close> is the operator \<open>?\<close>, \<open>mapE\<close> a \<open>collect\<close> into a \<open>Result\<close> that stops at the first
  error, \<open>wpr\<close> the weakest precondition of \<open>no panic, and a success satisfies Q\<close>.
\<close>

type_synonym ('e, 'a) result = "('e + 'a) option"

definition andthen :: "('e, 'a) result \<Rightarrow> ('a \<Rightarrow> ('e, 'b) result) \<Rightarrow> ('e, 'b) result" where
  "andthen m f = (case m of None \<Rightarrow> None | Some (Inl e) \<Rightarrow> Some (Inl e) | Some (Inr x) \<Rightarrow> f x)"

definition ensure :: "bool \<Rightarrow> 'e \<Rightarrow> ('e, unit) result" where
  "ensure b e = Some (if b then Inr () else Inl e)"

definition ok_or :: "'e \<Rightarrow> 'a option \<Rightarrow> ('e, 'a) result" where
  "ok_or e x = Some (case x of None \<Rightarrow> Inl e | Some v \<Rightarrow> Inr v)"

definition map_err :: "('e \<Rightarrow> 'f) \<Rightarrow> ('e, 'a) result \<Rightarrow> ('f, 'a) result" where
  "map_err g m = map_option (map_sum g id) m"

primrec mapE :: "('a \<Rightarrow> ('e, 'b) result) \<Rightarrow> 'a list \<Rightarrow> ('e, 'b list) result" where
  "mapE f [] = Some (Inr [])"
| "mapE f (x # xs) = andthen (f x) (\<lambda>y. andthen (mapE f xs) (\<lambda>ys. Some (Inr (y # ys))))"

primrec foldE :: "('a \<Rightarrow> 's \<Rightarrow> ('e, 's) result) \<Rightarrow> 'a list \<Rightarrow> 's \<Rightarrow> ('e, 's) result" where
  "foldE f [] s = Some (Inr s)"
| "foldE f (x # xs) s = andthen (f x s) (foldE f xs)"

definition wpr :: "('e, 'a) result \<Rightarrow> ('a \<Rightarrow> bool) \<Rightarrow> bool" where
  "wpr m Q = wp m (\<lambda>r. \<forall>x. r = Inr x \<longrightarrow> Q x)"

lemma andthen_simps [simp]:
  "andthen None f = None" "andthen (Some (Inl e)) f = Some (Inl e)" "andthen (Some (Inr x)) f = f x"
  by (simp_all add: andthen_def)

lemma andthen_Inr: "andthen m f = Some (Inr y) \<longleftrightarrow> (\<exists>x. m = Some (Inr x) \<and> f x = Some (Inr y))"
  by (auto simp: andthen_def split: option.splits sum.splits)

lemma ensure_simps [simp]:
  "ensure True e = Some (Inr ())" "ensure False e = Some (Inl e)" "ensure b e = Some (Inr u) \<longleftrightarrow> b"
  by (simp_all add: ensure_def)

lemma ok_or_simps [simp]:
  "ok_or e None = Some (Inl e)" "ok_or e (Some x) = Some (Inr x)" "ok_or e y = Some (Inr z) \<longleftrightarrow> y = Some z"
  by (auto simp: ok_or_def split: option.splits)

lemma map_err_simps [simp]:
  "map_err g None = None" "map_err g (Some (Inl e)) = Some (Inl (g e))" "map_err g (Some (Inr x)) = Some (Inr x)"
  "map_err g m = Some (Inr x) \<longleftrightarrow> m = Some (Inr x)"
  unfolding map_err_def by simp_all (cases m; auto simp: map_sum_def split: sum.splits)

lemma wpr_simps [simp]:
  "wpr None Q = False" "wpr (Some (Inl e)) Q = True" "wpr (Some (Inr x)) Q = Q x"
  "wpr (ok_or e y) Q = (\<forall>x. y = Some x \<longrightarrow> Q x)"
  by (auto simp: wpr_def ok_or_def split: option.splits)

lemma wpr_ensure [simp]: "wpr (ensure b e) Q = (b \<longrightarrow> Q ())"
  by (simp add: wpr_def ensure_def)

lemma wpr_map_err [simp]: "wpr (map_err g m) Q = wpr m Q"
  by (cases m) (auto simp: wpr_def map_err_def map_sum_def split: sum.splits)

lemma wpr_andthen [simp]: "wpr (andthen m f) Q = wpr m (\<lambda>x. wpr (f x) Q)"
  by (cases m) (auto simp: wpr_def andthen_def split: sum.splits)

lemma wpr_if [simp]: "wpr (if b then m else n) Q = (if b then wpr m Q else wpr n Q)"
  by simp

lemma wpr_bind [simp]: "wpr (Option.bind m f) Q = wp m (\<lambda>x. wpr (f x) Q)"
  by (simp add: wpr_def)

lemma wpr_mono: "wpr m P \<Longrightarrow> (\<And>x. P x \<Longrightarrow> Q x) \<Longrightarrow> wpr m Q"
  unfolding wpr_def by (erule wp_mono) blast

lemma wprD: "wpr m Q \<Longrightarrow> m = Some (Inr x) \<Longrightarrow> Q x"
  by (simp add: wpr_def)

lemma wpr_total: "wpr m Q \<Longrightarrow> \<exists>r. m = Some r"
  by (auto simp: wpr_def wp_iff)

lemma wpr_mapE: "(\<And>x. x \<in> set xs \<Longrightarrow> wpr (f x) P) \<Longrightarrow> wpr (mapE f xs) (list_all P)"
proof (induction xs)
  case (Cons x xs)
  have "wpr (f x) P" and "wpr (mapE f xs) (list_all P)" using Cons by simp_all
  then show ?case by (auto elim!: wpr_mono)
qed simp

lemma wpr_foldE: "I s \<Longrightarrow> (\<And>x s. x \<in> set xs \<Longrightarrow> I s \<Longrightarrow> wpr (f x s) I) \<Longrightarrow> wpr (foldE f xs s) I"
proof (induction xs arbitrary: s)
  case (Cons x xs)
  have "wpr (f x s) I" using Cons.prems by simp
  then show ?case by (auto elim!: wpr_mono intro!: Cons)
qed simp

lemma mapE_Inr: "mapE f xs = Some (Inr ys) \<longleftrightarrow> list_all2 (\<lambda>x y. f x = Some (Inr y)) xs ys"
  by (induction xs arbitrary: ys) (auto simp: andthen_Inr list_all2_Cons1)

end
