(* ===== verification/Tass.thy ===== *)
theory Tass
  imports Prelude
begin

text \<open>
  \<open>src/crates/mqtt-controller/src/tass.rs\<close>: target / actual state separation. Every entity
  the controller commands carries a \<open>TassTarget\<close> (what was asked for, by whom, and how far the
  command has got) and a \<open>TassActual\<close> (the last reading and its freshness). The theory holds
  both structures with every operation, the well-formedness invariant of each, the target
  lifecycle as a step relation, and the contract of the periodic staleness sweeps as a locale
  that both halves implement.
\<close>

section \<open>Data\<close>

datatype target_phase = Unset | Pending | Commanded | StaleTarget | Confirmed

datatype actual_freshness = Unknown | Fresh | StaleActual

datatype owner = User | Motion | Schedule | WebUI | System | Rule

record 'a tass_target =
  tgt_value :: "'a option"
  tgt_phase :: target_phase
  tgt_owner :: "owner option"
  tgt_since :: "instant option"

record 'a tass_actual =
  act_value :: "'a option"
  act_freshness :: actual_freshness
  act_since :: "instant option"

fun phase_str :: "target_phase \<Rightarrow> string" where
  "phase_str Unset = ''unset''"
| "phase_str Pending = ''pending''"
| "phase_str Commanded = ''commanded''"
| "phase_str StaleTarget = ''stale''"
| "phase_str Confirmed = ''confirmed''"

fun freshness_str :: "actual_freshness \<Rightarrow> string" where
  "freshness_str Unknown = ''unknown''"
| "freshness_str Fresh = ''fresh''"
| "freshness_str StaleActual = ''stale''"

fun owner_str :: "owner \<Rightarrow> string" where
  "owner_str User = ''user''"
| "owner_str Motion = ''motion''"
| "owner_str Schedule = ''schedule''"
| "owner_str WebUI = ''webui''"
| "owner_str System = ''system''"
| "owner_str Rule = ''rule''"

section \<open>Targets\<close>

definition target_new :: "'a tass_target" where
  "target_new = \<lparr>tgt_value = None, tgt_phase = Unset, tgt_owner = None, tgt_since = None\<rparr>"

definition target_set :: "'a \<Rightarrow> owner \<Rightarrow> instant \<Rightarrow> 'a tass_target \<Rightarrow> 'a tass_target" where
  "target_set v ow ts t =
     t\<lparr>tgt_value := Some v, tgt_phase := Pending, tgt_owner := Some ow, tgt_since := Some ts\<rparr>"

text \<open>\<open>assert_eq!\<close> on the phase: the command may only follow a pending target.\<close>

definition target_command :: "instant \<Rightarrow> 'a tass_target \<Rightarrow> 'a tass_target option" where
  "target_command ts t =
     do { assert_that (tgt_phase t = Pending);
          Some (t\<lparr>tgt_phase := Commanded, tgt_since := Some ts\<rparr>) }"

definition set_and_command :: "'a \<Rightarrow> owner \<Rightarrow> instant \<Rightarrow> 'a tass_target \<Rightarrow> 'a tass_target" where
  "set_and_command v ow ts t =
     t\<lparr>tgt_value := Some v, tgt_phase := Commanded, tgt_owner := Some ow, tgt_since := Some ts\<rparr>"

text \<open>
  The \<open>debug_assert!\<close> is modelled as active; that it never fires is part of what is proved,
  so that debug and release builds behave alike.
\<close>

definition adopt :: "'a \<Rightarrow> owner \<Rightarrow> instant \<Rightarrow> 'a tass_target \<Rightarrow> 'a tass_target option" where
  "adopt v ow ts t =
     do { assert_that (tgt_phase t \<in> {Unset, StaleTarget, Confirmed});
          Some (t\<lparr>tgt_value := Some v, tgt_phase := Confirmed,
                  tgt_owner := Some ow, tgt_since := Some ts\<rparr>) }"

definition reassign_owner :: "owner \<Rightarrow> instant \<Rightarrow> 'a tass_target \<Rightarrow> 'a tass_target" where
  "reassign_owner ow ts t =
     (if tgt_value t = None then t
      else case tgt_phase t of
        Commanded \<Rightarrow> t\<lparr>tgt_owner := Some ow\<rparr>
      | Pending \<Rightarrow> t\<lparr>tgt_owner := Some ow\<rparr>
      | Confirmed \<Rightarrow> t\<lparr>tgt_owner := Some ow, tgt_since := Some ts\<rparr>
      | StaleTarget \<Rightarrow> t\<lparr>tgt_owner := Some ow, tgt_since := Some ts\<rparr>
      | Unset \<Rightarrow> t\<lparr>tgt_owner := Some ow, tgt_since := Some ts\<rparr>)"

definition confirm :: "instant \<Rightarrow> 'a tass_target \<Rightarrow> 'a tass_target option" where
  "confirm ts t =
     do { assert_that (tgt_phase t \<in> {Commanded, StaleTarget, Confirmed});
          Some (t\<lparr>tgt_phase := Confirmed, tgt_since := Some ts\<rparr>) }"

definition target_mark_stale :: "'a tass_target \<Rightarrow> 'a tass_target" where
  "target_mark_stale t = (if tgt_phase t = Commanded then t\<lparr>tgt_phase := StaleTarget\<rparr> else t)"

definition target_mark_stale_if_old ::
  "instant \<Rightarrow> duration \<Rightarrow> 'a tass_target \<Rightarrow> bool \<times> 'a tass_target" where
  "target_mark_stale_if_old now threshold t =
     (if tgt_phase t = Commanded \<and>
         (case tgt_since t of None \<Rightarrow> False | Some s \<Rightarrow> duration_since now s \<ge> threshold)
      then (True, t\<lparr>tgt_phase := StaleTarget\<rparr>)
      else (False, t))"

definition is_actionable :: "'a tass_target \<Rightarrow> bool" where
  "is_actionable t = (tgt_phase t \<in> {Commanded, Pending})"

definition is_unset :: "'a tass_target \<Rightarrow> bool" where
  "is_unset t = (tgt_phase t = Unset)"

section \<open>Actual readings\<close>

definition actual_new :: "'a tass_actual" where
  "actual_new = \<lparr>act_value = None, act_freshness = Unknown, act_since = None\<rparr>"

definition actual_update :: "'a \<Rightarrow> instant \<Rightarrow> 'a tass_actual \<Rightarrow> 'a tass_actual" where
  "actual_update v ts a = a\<lparr>act_value := Some v, act_freshness := Fresh, act_since := Some ts\<rparr>"

definition actual_mark_stale :: "'a tass_actual \<Rightarrow> 'a tass_actual" where
  "actual_mark_stale a =
     (if act_freshness a = Fresh then a\<lparr>act_freshness := StaleActual\<rparr> else a)"

definition actual_mark_stale_if_old ::
  "instant \<Rightarrow> duration \<Rightarrow> 'a tass_actual \<Rightarrow> bool \<times> 'a tass_actual" where
  "actual_mark_stale_if_old now threshold a =
     (if act_freshness a = Fresh \<and>
         (case act_since a of None \<Rightarrow> False | Some s \<Rightarrow> duration_since now s \<ge> threshold)
      then (True, a\<lparr>act_freshness := StaleActual\<rparr>)
      else (False, a))"

definition is_known :: "'a tass_actual \<Rightarrow> bool" where
  "is_known a = (act_freshness a \<noteq> Unknown)"

section \<open>Well-formedness\<close>

definition target_ok :: "'a tass_target \<Rightarrow> bool" where
  "target_ok t \<longleftrightarrow>
     (tgt_phase t = Unset \<longleftrightarrow> tgt_value t = None) \<and>
     (tgt_phase t = Unset \<longleftrightarrow> tgt_owner t = None) \<and>
     (tgt_phase t = Unset \<longleftrightarrow> tgt_since t = None)"

definition actual_ok :: "'a tass_actual \<Rightarrow> bool" where
  "actual_ok a \<longleftrightarrow>
     (act_freshness a = Unknown \<longleftrightarrow> act_value a = None) \<and>
     (act_freshness a = Unknown \<longleftrightarrow> act_since a = None)"

named_theorems tass_simps "one-step effect of every TASS operation"

lemma target_new_simps [simp]:
  "tgt_value target_new = None" "tgt_phase target_new = Unset"
  "tgt_owner target_new = None" "tgt_since target_new = None"
  by (simp_all add: target_new_def)

lemma set_and_command_simps [simp]:
  "tgt_value (set_and_command v ow ts t) = Some v"
  "tgt_phase (set_and_command v ow ts t) = Commanded"
  "tgt_owner (set_and_command v ow ts t) = Some ow"
  "tgt_since (set_and_command v ow ts t) = Some ts"
  by (simp_all add: set_and_command_def)

lemma reassign_owner_simps [simp]:
  "tgt_value (reassign_owner ow ts t) = tgt_value t"
  "tgt_phase (reassign_owner ow ts t) = tgt_phase t"
  by (simp_all add: reassign_owner_def split: target_phase.splits)

lemma reassign_owner_owner:
  "tgt_owner (reassign_owner ow ts t) = (if tgt_value t = None then tgt_owner t else Some ow)"
  by (simp add: reassign_owner_def split: target_phase.splits)

lemma mark_stale_value [simp]:
  "tgt_value (snd (target_mark_stale_if_old now th t)) = tgt_value t"
  "tgt_owner (snd (target_mark_stale_if_old now th t)) = tgt_owner t"
  "tgt_since (snd (target_mark_stale_if_old now th t)) = tgt_since t"
  by (simp_all add: target_mark_stale_if_old_def)

lemma mark_stale_phase:
  "tgt_phase (snd (target_mark_stale_if_old now th t)) = tgt_phase t \<or>
   tgt_phase t = Commanded \<and> tgt_phase (snd (target_mark_stale_if_old now th t)) = StaleTarget"
  by (simp add: target_mark_stale_if_old_def)

lemma actual_new_simps [simp]:
  "act_value actual_new = None" "act_freshness actual_new = Unknown" "act_since actual_new = None"
  by (simp_all add: actual_new_def)

lemma actual_update_simps [simp]:
  "act_value (actual_update v ts a) = Some v"
  "act_freshness (actual_update v ts a) = Fresh"
  "act_since (actual_update v ts a) = Some ts"
  by (simp_all add: actual_update_def)

lemma actual_mark_stale_simps [simp]:
  "act_value (snd (actual_mark_stale_if_old now th a)) = act_value a"
  "act_since (snd (actual_mark_stale_if_old now th a)) = act_since a"
  by (simp_all add: actual_mark_stale_if_old_def)

lemma target_ok_new [simp, intro]: "target_ok target_new"
  by (simp add: target_ok_def)

lemma target_ok_set [simp, intro]: "target_ok (target_set v ow ts t)"
  by (simp add: target_ok_def target_set_def)

lemma target_ok_set_and_command [simp, intro]: "target_ok (set_and_command v ow ts t)"
  by (simp add: target_ok_def)

lemma target_ok_reassign [simp, intro]: "target_ok t \<Longrightarrow> target_ok (reassign_owner ow ts t)"
  by (auto simp: target_ok_def reassign_owner_def split: target_phase.splits)

lemma target_ok_stale [simp, intro]: "target_ok t \<Longrightarrow> target_ok (target_mark_stale t)"
  by (auto simp: target_ok_def target_mark_stale_def)

lemma target_ok_stale_if_old [simp, intro]:
  "target_ok t \<Longrightarrow> target_ok (snd (target_mark_stale_if_old now th t))"
  by (auto simp: target_ok_def target_mark_stale_if_old_def)

lemma wp_adopt [simp]:
  "wp (adopt v ow ts t) Q \<longleftrightarrow>
     tgt_phase t \<in> {Unset, StaleTarget, Confirmed} \<and>
     Q (t\<lparr>tgt_value := Some v, tgt_phase := Confirmed, tgt_owner := Some ow, tgt_since := Some ts\<rparr>)"
  by (simp add: adopt_def)

lemma wp_confirm [simp]:
  "wp (confirm ts t) Q \<longleftrightarrow>
     tgt_phase t \<in> {Commanded, StaleTarget, Confirmed} \<and>
     Q (t\<lparr>tgt_phase := Confirmed, tgt_since := Some ts\<rparr>)"
  by (simp add: confirm_def)

lemma wp_target_command [simp]:
  "wp (target_command ts t) Q \<longleftrightarrow>
     tgt_phase t = Pending \<and> Q (t\<lparr>tgt_phase := Commanded, tgt_since := Some ts\<rparr>)"
  by (simp add: target_command_def)

lemma target_ok_adopt [simp]:
  "target_ok (t\<lparr>tgt_value := Some v, tgt_phase := Confirmed, tgt_owner := Some ow, tgt_since := Some ts\<rparr>)"
  by (simp add: target_ok_def)

lemma target_ok_confirm [simp]:
  "target_ok t \<Longrightarrow> tgt_phase t \<noteq> Unset \<Longrightarrow> target_ok (t\<lparr>tgt_phase := Confirmed, tgt_since := Some ts\<rparr>)"
  by (auto simp: target_ok_def)

lemma confirm_of_command:
  "confirm ts (set_and_command v ow ts' t) =
     Some \<lparr>tgt_value = Some v, tgt_phase = Confirmed, tgt_owner = Some ow, tgt_since = Some ts,
           \<dots> = tass_target.more t\<rparr>"
  by (simp add: confirm_def set_and_command_def assert_that_def)

lemma target_ok_value_phase: "target_ok t \<Longrightarrow> tgt_value t = Some v \<Longrightarrow> tgt_phase t \<noteq> Unset"
  by (auto simp: target_ok_def)

lemma target_ok_owner: "target_ok t \<Longrightarrow> tgt_phase t \<noteq> Unset \<Longrightarrow> \<exists>ow. tgt_owner t = Some ow"
  by (auto simp: target_ok_def)

lemma target_ok_since: "target_ok t \<Longrightarrow> tgt_phase t \<noteq> Unset \<Longrightarrow> \<exists>s. tgt_since t = Some s"
  by (auto simp: target_ok_def)

lemma not_actionable_adoptable:
  "\<not> is_actionable t \<Longrightarrow> tgt_phase t \<in> {Unset, StaleTarget, Confirmed}"
  by (cases "tgt_phase t") (simp_all add: is_actionable_def)

lemma actual_ok_new [simp, intro]: "actual_ok actual_new"
  by (simp add: actual_ok_def)

lemma actual_ok_update [simp, intro]: "actual_ok (actual_update v ts a)"
  by (simp add: actual_ok_def)

lemma actual_ok_stale [simp, intro]: "actual_ok a \<Longrightarrow> actual_ok (actual_mark_stale a)"
  by (auto simp: actual_ok_def actual_mark_stale_def)

lemma actual_ok_stale_if_old [simp, intro]:
  "actual_ok a \<Longrightarrow> actual_ok (snd (actual_mark_stale_if_old now th a))"
  by (auto simp: actual_ok_def actual_mark_stale_if_old_def)

lemma actual_ok_since: "actual_ok a \<Longrightarrow> act_value a = Some v \<Longrightarrow> \<exists>s. act_since a = Some s"
  by (auto simp: actual_ok_def)

section \<open>The target lifecycle\<close>

text \<open>One rule per operation; a panicking call is no step.\<close>

inductive target_step :: "'a tass_target \<Rightarrow> 'a tass_target \<Rightarrow> bool" where
  set: "target_step t (target_set v ow ts t)"
| command: "target_command ts t = Some t' \<Longrightarrow> target_step t t'"
| set_command: "target_step t (set_and_command v ow ts t)"
| adoption: "adopt v ow ts t = Some t' \<Longrightarrow> target_step t t'"
| handover: "target_step t (reassign_owner ow ts t)"
| confirmation: "confirm ts t = Some t' \<Longrightarrow> target_step t t'"
| give_up: "target_step t (target_mark_stale t)"
| sweep: "target_step t (snd (target_mark_stale_if_old now th t))"

inductive target_reachable :: "'a tass_target \<Rightarrow> bool" where
  start: "target_reachable target_new"
| step: "target_reachable t \<Longrightarrow> target_step t t' \<Longrightarrow> target_reachable t'"

lemma target_step_ok: "target_step t t' \<Longrightarrow> target_ok t \<Longrightarrow> target_ok t'"
  by (induction rule: target_step.induct)
    (auto simp: target_command_def adopt_def confirm_def target_ok_def assert_that_def
      target_set_def set_and_command_def reassign_owner_def target_mark_stale_def
      target_mark_stale_if_old_def split: if_splits target_phase.splits)

lemma target_step_not_unset: "target_step t t' \<Longrightarrow> tgt_phase t \<noteq> Unset \<Longrightarrow> tgt_phase t' \<noteq> Unset"
  by (induction rule: target_step.induct)
    (auto simp: target_command_def adopt_def confirm_def assert_that_def target_set_def
      target_mark_stale_def target_mark_stale_if_old_def split: if_splits)

text \<open>Which phases an operation can lead to, and from where.\<close>

lemma target_step_stale:
  "target_step t t' \<Longrightarrow> tgt_phase t' = StaleTarget \<Longrightarrow> tgt_phase t \<in> {Commanded, StaleTarget}"
  by (induction rule: target_step.induct)
    (auto simp: target_command_def adopt_def confirm_def assert_that_def target_set_def
      target_mark_stale_def target_mark_stale_if_old_def split: if_splits)

lemma target_reachable_ok: "target_reachable t \<Longrightarrow> target_ok t"
proof (induction rule: target_reachable.induct)
  case start
  show ?case by simp
next
  case (step t t')
  from step.hyps(2) step.IH show ?case by (rule target_step_ok)
qed

section \<open>The staleness sweeps\<close>

text \<open>
  Both halves are aged by a periodic sweep that reports whether it changed anything. A sweep
  fires on a live item whose timestamp is at least the threshold old, takes it out of the live
  state, keeps everything else, and does nothing otherwise.
\<close>

locale staleness_sweep =
  fixes live :: "'a \<Rightarrow> bool"
    and since :: "'a \<Rightarrow> instant option"
    and payload :: "'a \<Rightarrow> 'p"
    and sweep :: "instant \<Rightarrow> duration \<Rightarrow> 'a \<Rightarrow> bool \<times> 'a"
  assumes fires_iff:
    "fst (sweep now th x) \<longleftrightarrow>
       live x \<and> (\<exists>s. since x = Some s \<and> th \<le> duration_since now s)"
    and quiet: "\<not> fst (sweep now th x) \<Longrightarrow> snd (sweep now th x) = x"
    and fired: "fst (sweep now th x) \<Longrightarrow> \<not> live (snd (sweep now th x))"
    and keeps: "payload (snd (sweep now th x)) = payload x \<and> since (snd (sweep now th x)) = since x"
begin

lemma sweep_twice: "sweep now' th' (snd (sweep now th x)) = (False, snd (sweep now th x))"
  if "fst (sweep now th x)"
proof -
  have "\<not> fst (sweep now' th' (snd (sweep now th x)))"
    using fired [OF that] by (simp add: fires_iff)
  then show ?thesis by (metis quiet surjective_pairing)
qed

lemma live_after: "live (snd (sweep now th x)) \<Longrightarrow>
  live x \<and> snd (sweep now th x) = x \<and> (\<forall>s. since x = Some s \<longrightarrow> duration_since now s < th)"
  using fired quiet fires_iff by (metis not_le)

lemma fires_later: "fst (sweep now th x) \<Longrightarrow> now \<le> now' \<Longrightarrow> fst (sweep now' th x)"
  unfolding fires_iff using duration_since_mono le_trans by blast

end

interpretation tgt_sweep: staleness_sweep
  "\<lambda>t. tgt_phase t = Commanded" tgt_since "\<lambda>t. (tgt_value t, tgt_owner t)" target_mark_stale_if_old
  by unfold_locales (auto simp: target_mark_stale_if_old_def split: option.splits)

interpretation act_sweep: staleness_sweep
  "\<lambda>a. act_freshness a = Fresh" act_since act_value actual_mark_stale_if_old
  by unfold_locales (auto simp: actual_mark_stale_if_old_def split: option.splits)

section \<open>Properties\<close>

text \<open>Along any run of target operations, starting from a well-formed target: the value, the owner
  and the timestamp stay present exactly while the phase is not \<open>Unset\<close>, a target that has been
  set never becomes \<open>Unset\<close> again, and it always has an owner to attribute the value to.\<close>

theorem target_run:
  assumes "target_step\<^sup>*\<^sup>* t t'" and "target_ok t"
  shows "target_ok t' \<and>
    (tgt_phase t \<noteq> Unset \<longrightarrow> tgt_phase t' \<noteq> Unset \<and>
       (\<exists>v ow s. tgt_value t' = Some v \<and> tgt_owner t' = Some ow \<and> tgt_since t' = Some s))"
proof -
  from assms have "target_ok t' \<and> (tgt_phase t \<noteq> Unset \<longrightarrow> tgt_phase t' \<noteq> Unset)"
    by (induction rule: rtranclp_induct) (auto dest: target_step_ok target_step_not_unset)
  then show ?thesis by (auto simp: target_ok_def)
qed

theorem target_run_witness:
  "tgt_phase (target_mark_stale (set_and_command (5 :: nat) Motion 7 target_new)) \<noteq> Unset"
proof -
  let ?t = "set_and_command (5 :: nat) Motion 7 target_new"
  have "target_step\<^sup>*\<^sup>* ?t (target_mark_stale ?t)" by (rule r_into_rtranclp) (rule give_up)
  from target_run [OF this] show ?thesis by simp
qed

end
