(* ===== verification/TimeExpr.thy ===== *)
theory TimeExpr
  imports Prelude
begin

text \<open>
  \<open>src/crates/mqtt-controller/src/config/time_expr.rs\<close> and the data of \<open>src/.../sun.rs\<close>: the
  time-of-day expressions of slot boundaries and \<open>At\<close> triggers, their evaluation, parser and
  printer. Strings are byte lists; the parser's error values carry the offending text in place
  of the formatted message.
\<close>

section \<open>String primitives of the standard library\<close>

text \<open>\<open>str::strip_prefix\<close>, \<open>str::strip_suffix\<close>, \<open>str::split_once\<close>, \<open>str::trim\<close> (ASCII).\<close>

definition strip_prefix :: "string \<Rightarrow> string \<Rightarrow> string option" where
  "strip_prefix pat s = (if take (length pat) s = pat then Some (drop (length pat) s) else None)"

definition strip_suffix :: "string \<Rightarrow> string \<Rightarrow> string option" where
  "strip_suffix pat s = map_option rev (strip_prefix (rev pat) (rev s))"

fun split_once :: "string \<Rightarrow> string \<Rightarrow> (string \<times> string) option" where
  "split_once pat s =
     (case strip_prefix pat s of
        Some rest \<Rightarrow> Some ([], rest)
      | None \<Rightarrow> (case s of [] \<Rightarrow> None
                | c # r \<Rightarrow> map_option (\<lambda>(a, b). (c # a, b)) (split_once pat r)))"

declare split_once.simps [simp del]

definition is_ws :: "char \<Rightarrow> bool" where
  "is_ws c = (c \<in> {CHR '' '', CHR 0x09, CHR 0x0A, CHR 0x0B, CHR 0x0C, CHR 0x0D})"

definition trim :: "string \<Rightarrow> string" where
  "trim s = rev (dropWhile is_ws (rev (dropWhile is_ws s)))"

text \<open>\<open>u8::from_str\<close> / \<open>u32::from_str\<close>: an optional \<open>+\<close>, at least one digit, no overflow.\<close>

definition digit_value :: "char \<Rightarrow> nat option" where
  "digit_value c =
     (if 48 \<le> (of_char c :: nat) \<and> (of_char c :: nat) \<le> 57 then Some (of_char c - 48) else None)"

fun digits_value :: "nat \<Rightarrow> string \<Rightarrow> nat option" where
  "digits_value acc [] = Some acc"
| "digits_value acc (c # cs) =
     (case digit_value c of None \<Rightarrow> None | Some d \<Rightarrow> digits_value (acc * 10 + d) cs)"

definition parse_unsigned :: "nat \<Rightarrow> string \<Rightarrow> nat option" where
  "parse_unsigned hi s =
     (let ds = (case s of c # r \<Rightarrow> if c = CHR ''+'' then r else s | [] \<Rightarrow> [])
      in if ds = [] then None
         else case digits_value 0 ds of
                None \<Rightarrow> None | Some n \<Rightarrow> if n \<le> hi then Some n else None)"

text \<open>Decimal output, and the \<open>{:02}\<close> format.\<close>

definition digit_char :: "nat \<Rightarrow> char" where
  "digit_char d = char_of (48 + d)"

fun show_nat :: "nat \<Rightarrow> string" where
  "show_nat n = (if n < 10 then [digit_char n] else show_nat (n div 10) @ [digit_char (n mod 10)])"

declare show_nat.simps [simp del]

definition pad2 :: "nat \<Rightarrow> string" where
  "pad2 n = (if n < 10 then CHR ''0'' # show_nat n else show_nat n)"

section \<open>Expressions\<close>

record sun_times =
  sunrise_minute_of_day :: u16
  sunset_minute_of_day :: u16

datatype sun_event = Sunrise | Sunset

datatype time_expr =
    Fixed u16
  | SunRelative sun_event i16
  | Max_expr time_expr time_expr
  | Min_expr time_expr time_expr

fun resolve :: "sun_times option \<Rightarrow> time_expr \<Rightarrow> u16 option" where
  "resolve sun (Fixed m) = Some m"
| "resolve sun (SunRelative ev off) =
     do { st \<leftarrow> sun;
          let base = (case ev of Sunrise \<Rightarrow> sunrise_minute_of_day st
                               | Sunset \<Rightarrow> sunset_minute_of_day st);
          Some (nat (max 0 (min 1440 (int base + off)))) }"
| "resolve sun (Max_expr a b) = do { x \<leftarrow> resolve sun a; y \<leftarrow> resolve sun b; Some (max x y) }"
| "resolve sun (Min_expr a b) = do { x \<leftarrow> resolve sun a; y \<leftarrow> resolve sun b; Some (min x y) }"

fun is_valid_trigger_time :: "time_expr \<Rightarrow> bool" where
  "is_valid_trigger_time (Fixed m) = (\<not> m \<ge> 1440)"
| "is_valid_trigger_time e = True"

fun uses_sun :: "time_expr \<Rightarrow> bool" where
  "uses_sun (Fixed m) = False"
| "uses_sun (SunRelative ev off) = True"
| "uses_sun (Max_expr a b) = (uses_sun a \<or> uses_sun b)"
| "uses_sun (Min_expr a b) = (uses_sun a \<or> uses_sun b)"

section \<open>Parser\<close>

datatype parse_time_expr_error =
    ExpectedHHMM string
  | InvalidHour string
  | InvalidMinute string
  | OutOfRange string
  | ExpectedSign string
  | MissingParenthesis string
  | ExpectedTwoArguments string

definition parse_hhmm :: "string \<Rightarrow> parse_time_expr_error + (u8 \<times> u8)" where
  "parse_hhmm s =
     (case split_once '':'' s of
        None \<Rightarrow> Inl (ExpectedHHMM s)
      | Some (hh, mm) \<Rightarrow>
          (case parse_unsigned 255 hh of
             None \<Rightarrow> Inl (InvalidHour s)
           | Some h \<Rightarrow>
               (case parse_unsigned 255 mm of
                  None \<Rightarrow> Inl (InvalidMinute s)
                | Some m \<Rightarrow>
                    if h > 24 \<or> (h = 24 \<and> m > 0) \<or> m > 59 then Inl (OutOfRange s)
                    else Inr (h, m))))"

text \<open>The part of \<open>parse_atom\<close> after a matched \<open>sunrise\<close> / \<open>sunset\<close> prefix.\<close>

definition parse_sun_offset ::
  "string \<Rightarrow> sun_event \<Rightarrow> string \<Rightarrow> parse_time_expr_error + time_expr" where
  "parse_sun_offset s ev rest =
     (if rest = [] then Inr (SunRelative ev 0)
      else case (case strip_prefix ''+'' rest of
                   Some hhmm \<Rightarrow> Some (1 :: int, hhmm)
                 | None \<Rightarrow> (case strip_prefix ''-'' rest of
                     Some hhmm \<Rightarrow> Some (-1, hhmm) | None \<Rightarrow> None)) of
        None \<Rightarrow> Inl (ExpectedSign s)
      | Some (sign, hhmm) \<Rightarrow>
          (case parse_hhmm hhmm of
             Inl e \<Rightarrow> Inl e
           | Inr (h, m) \<Rightarrow> Inr (SunRelative ev (sign * (int h * 60 + int m)))))"

definition parse_atom :: "string \<Rightarrow> parse_time_expr_error + time_expr" where
  "parse_atom s =
     (case strip_prefix ''sunrise'' s of
        Some rest \<Rightarrow> parse_sun_offset s Sunrise rest
      | None \<Rightarrow>
          (case strip_prefix ''sunset'' s of
             Some rest \<Rightarrow> parse_sun_offset s Sunset rest
           | None \<Rightarrow>
               (case parse_hhmm s of
                  Inl e \<Rightarrow> Inl e
                | Inr (h, m) \<Rightarrow> Inr (Fixed (h * 60 + m)))))"

text \<open>\<open>max(\<close> and \<open>min(\<close> heads, with the constructor they select.\<close>

definition minmax_head ::
  "string \<Rightarrow> ((time_expr \<Rightarrow> time_expr \<Rightarrow> time_expr) \<times> string) option" where
  "minmax_head s =
     (case strip_prefix ''max('' s of
        Some rest \<Rightarrow> Some (Max_expr, rest)
      | None \<Rightarrow> (case strip_prefix ''min('' s of
          Some rest \<Rightarrow> Some (Min_expr, rest) | None \<Rightarrow> None))"

lemma strip_prefix_length: "strip_prefix pat s = Some r \<Longrightarrow> length s = length pat + length r"
  unfolding strip_prefix_def
  by (metis (no_types, lifting) append_take_drop_id length_append option.distinct(1) option.inject)

lemma strip_prefix_append [simp]: "strip_prefix pat (pat @ s) = Some s"
  by (simp add: strip_prefix_def)

lemma strip_suffix_append [simp]: "strip_suffix pat (s @ pat) = Some s"
  by (simp add: strip_suffix_def)

lemma strip_suffix_length: "strip_suffix pat s = Some r \<Longrightarrow> length s = length r + length pat"
  by (auto simp: strip_suffix_def dest!: strip_prefix_length)

lemma split_once_length:
  "split_once pat s = Some (a, b) \<Longrightarrow> length s = length a + length pat + length b"
proof (induction s arbitrary: a)
  case Nil
  then show ?case by (auto simp: split_once.simps [of _ "[]"] dest: strip_prefix_length split: option.splits)
next
  case (Cons c s)
  then show ?case
    by (auto simp: split_once.simps [of _ "c # s"] dest: strip_prefix_length split: option.splits)
qed

lemma trim_length: "length (trim s) \<le> length s"
  using length_dropWhile_le [of is_ws s] length_dropWhile_le [of is_ws "rev (dropWhile is_ws s)"]
  by (simp add: trim_def)

lemma minmax_head_length: "minmax_head s = Some (f, rest) \<Longrightarrow> length rest < length s"
  by (auto simp: minmax_head_def dest!: strip_prefix_length split: option.splits)

lemma minmax_args_length:
  assumes "minmax_head s = Some (f, rest)" and "strip_suffix '')'' rest = Some inner"
    and "split_once '', '' inner = Some (l, r)"
  shows "length (trim l) < length s" and "length (trim r) < length s"
  using minmax_head_length [OF assms(1)] strip_suffix_length [OF assms(2)]
    split_once_length [OF assms(3)] trim_length [of l] trim_length [of r] by simp_all

function from_str :: "string \<Rightarrow> parse_time_expr_error + time_expr" where
  "from_str s =
     (case minmax_head s of
        None \<Rightarrow> parse_atom s
      | Some (f, rest) \<Rightarrow>
          (case strip_suffix '')'' rest of
             None \<Rightarrow> Inl (MissingParenthesis s)
           | Some inner \<Rightarrow>
               (case split_once '', '' inner of
                  None \<Rightarrow> Inl (ExpectedTwoArguments s)
                | Some (l, r) \<Rightarrow>
                    (case from_str (trim l) of
                       Inl e \<Rightarrow> Inl e
                     | Inr a \<Rightarrow>
                         (case from_str (trim r) of
                            Inl e \<Rightarrow> Inl e
                          | Inr b \<Rightarrow> Inr (f a b))))))"
  by pat_completeness auto
termination
  by (relation "measure length") (auto intro: minmax_args_length)

declare from_str.simps [simp del]

section \<open>Printer\<close>

fun sun_event_name :: "sun_event \<Rightarrow> string" where
  "sun_event_name Sunrise = ''sunrise''"
| "sun_event_name Sunset = ''sunset''"

definition fmt_hhmm :: "nat \<Rightarrow> string" where
  "fmt_hhmm m = pad2 (m div 60) @ '':'' @ pad2 (m mod 60)"

text \<open>\<open>fmt_atom\<close> falls back to the full printer on nested \<open>max\<close> / \<open>min\<close>, so one function prints all.\<close>

fun display :: "time_expr \<Rightarrow> string" where
  "display (Fixed m) = fmt_hhmm m"
| "display (SunRelative ev off) =
     (if off = 0 then sun_event_name ev
      else sun_event_name ev @ (if off > 0 then ''+'' else ''-'') @ fmt_hhmm (nat \<bar>off\<bar>))"
| "display (Max_expr a b) = ''max('' @ display a @ '', '' @ display b @ '')''"
| "display (Min_expr a b) = ''min('' @ display a @ '', '' @ display b @ '')''"

section \<open>Evaluation\<close>

text \<open>The expressions the parser produces.\<close>

fun is_atom :: "time_expr \<Rightarrow> bool" where
  "is_atom (Fixed m) = True"
| "is_atom (SunRelative ev off) = True"
| "is_atom e = False"

fun expr_wf :: "time_expr \<Rightarrow> bool" where
  "expr_wf (Fixed m) = (m \<le> 1440)"
| "expr_wf (SunRelative ev off) = (\<bar>off\<bar> \<le> 1440)"
| "expr_wf (Max_expr a b) = (expr_wf a \<and> expr_wf b)"
| "expr_wf (Min_expr a b) = (expr_wf a \<and> expr_wf b)"

text \<open>The expressions the grammar can write down: the left argument of \<open>max\<close> / \<open>min\<close> is an atom.\<close>

fun expr_printable :: "time_expr \<Rightarrow> bool" where
  "expr_printable (Max_expr a b) = (is_atom a \<and> expr_printable b)"
| "expr_printable (Min_expr a b) = (is_atom a \<and> expr_printable b)"
| "expr_printable e = True"

lemma resolve_le: "expr_wf e \<Longrightarrow> resolve sun e = Some m \<Longrightarrow> m \<le> 1440"
  by (induction e arbitrary: m) (auto simp: Let_def split: Option.bind_splits)

lemma resolve_total: "(uses_sun e \<Longrightarrow> sun \<noteq> None) \<Longrightarrow> \<exists>m. resolve sun e = Some m"
  by (induction e) (auto simp: Let_def)

lemma resolve_no_sun: "\<not> uses_sun e \<Longrightarrow> resolve sun e = resolve None e"
  by (induction e) auto

lemma resolve_None_iff: "resolve sun e = None \<longleftrightarrow> uses_sun e \<and> sun = None"
  by (induction e) (auto simp: Let_def split: Option.bind_splits)


section \<open>Parsing what was printed\<close>

lemma split_once_absent:
  "c \<notin> set a \<Longrightarrow> split_once (c # p) (a @ (c # p) @ b) = Some (a, b)"
proof (induction a)
  case Nil
  then show ?case
    by (subst split_once.simps) (simp add: strip_prefix_append [of "c # p", simplified])
next
  case (Cons x a)
  then have "strip_prefix (c # p) ((x # a) @ (c # p) @ b) = None"
    by (auto simp: strip_prefix_def)
  with Cons show ?case by (subst split_once.simps) simp
qed

text \<open>A two-digit field reads back and consists of digits.\<close>

lemma digit_value_char [simp]: "d < 10 \<Longrightarrow> digit_value (digit_char d) = Some d"
  by (simp add: digit_value_def digit_char_def)

lemma plus_no_digit: "digit_value CHR ''+'' = None"
  by (simp add: digit_value_def)

lemma char_of_48: "char_of (48 :: nat) = CHR ''0''"
  by code_simp

lemma pad2_digits: "n < 100 \<Longrightarrow> pad2 n = [digit_char (n div 10), digit_char (n mod 10)]"
  by (auto simp: pad2_def show_nat.simps digit_char_def char_of_48)

lemma pad2_facts:
  assumes "n < 100"
  shows "parse_unsigned 255 (pad2 n) = Some n" and "pad2 n \<noteq> []"
    and "list_all (\<lambda>c. digit_value c \<noteq> None) (pad2 n)"
proof -
  have d: "n div 10 < 10" "n mod 10 < 10" using assms by simp_all
  then have "digit_char (n div 10) \<noteq> CHR ''+''" using plus_no_digit digit_value_char by fastforce
  then show "parse_unsigned 255 (pad2 n) = Some n"
    using assms d by (simp add: pad2_digits parse_unsigned_def)
qed (use assms in \<open>simp_all add: pad2_digits\<close>)

lemma no_digit [simp]:
  "digit_value CHR '':'' = None" "digit_value CHR '','' = None" "digit_value CHR ''s'' = None"
  "digit_value CHR ''m'' = None" "digit_value CHR '' '' = None"
  by (simp_all add: digit_value_def)

lemma digit_not_ws: "digit_value c \<noteq> None \<Longrightarrow> \<not> is_ws c"
  by (auto simp: is_ws_def digit_value_def)

lemma fmt_hhmm_parse:
  assumes "m \<le> 1440"
  shows "parse_hhmm (fmt_hhmm m) = Inr (m div 60, m mod 60)"
proof -
  have h: "m div 60 < 100" and r: "m mod 60 < 100"
    using assms by (simp_all add: order_le_less_trans [of _ 60])
  have "CHR '':'' \<notin> set (pad2 (m div 60))"
    using pad2_facts(3) [OF h] by (auto simp: list_all_iff)
  then have "split_once '':'' (fmt_hhmm m) = Some (pad2 (m div 60), pad2 (m mod 60))"
    using split_once_absent [of "CHR '':''" "pad2 (m div 60)" "[]" "pad2 (m mod 60)"]
    by (simp add: fmt_hhmm_def)
  moreover have "m div 60 < 24 \<or> m = 1440" using assms by linarith
  moreover have "m mod 60 \<le> 59" by (simp add: Suc_leI less_Suc_eq_le [symmetric])
  ultimately show ?thesis
    using pad2_facts(1) [OF h] pad2_facts(1) [OF r] by (auto simp: parse_hhmm_def)
qed

text \<open>The characters of a printed time: a digit first, a digit last, only digits and \<open>:\<close> inside.\<close>

lemma fmt_hhmm_chars:
  assumes "m \<le> 1440"
  shows "fmt_hhmm m \<noteq> []" and "digit_value (hd (fmt_hhmm m)) \<noteq> None"
    and "digit_value (last (fmt_hhmm m)) \<noteq> None"
    and "\<And>c. c \<in> set (fmt_hhmm m) \<Longrightarrow> digit_value c \<noteq> None \<or> c = CHR '':''"
proof -
  have h: "m div 60 < 100" and r: "m mod 60 < 100"
    using assms by (simp_all add: order_le_less_trans [of _ 60])
  note f = pad2_facts(2,3) [OF h] pad2_facts(2,3) [OF r]
  show "fmt_hhmm m \<noteq> []" by (simp add: fmt_hhmm_def)
  show "digit_value (hd (fmt_hhmm m)) \<noteq> None"
    using f(1,2) by (cases "pad2 (m div 60)") (simp_all add: fmt_hhmm_def)
  have "last (pad2 (m mod 60)) \<in> set (pad2 (m mod 60))" using f(3) by simp
  then show "digit_value (last (fmt_hhmm m)) \<noteq> None"
    using f(3,4) by (simp add: fmt_hhmm_def list_all_iff)
  show "\<And>c. c \<in> set (fmt_hhmm m) \<Longrightarrow> digit_value c \<noteq> None \<or> c = CHR '':''"
    using f(2,4) by (auto simp: fmt_hhmm_def list_all_iff)
qed

lemma atom_chars:
  assumes "is_atom e" and "expr_wf e"
  shows "display e \<noteq> []" and "CHR '','' \<notin> set (display e)"
    and "digit_value (hd (display e)) \<noteq> None \<or> hd (display e) = CHR ''s''"
    and "\<not> is_ws (last (display e))"
proof -
  have "display e \<noteq> [] \<and> CHR '','' \<notin> set (display e) \<and>
    (digit_value (hd (display e)) \<noteq> None \<or> hd (display e) = CHR ''s'') \<and> \<not> is_ws (last (display e))"
  proof (cases e)
    case (Fixed m)
    with assms(2) have m: "m \<le> 1440" by simp
    show ?thesis
      using Fixed fmt_hhmm_chars(1-3) [OF m] fmt_hhmm_chars(4) [OF m, of "CHR '',''"] digit_not_ws
      by auto
  next
    case (SunRelative ev off)
    with assms(2) have m: "nat \<bar>off\<bar> \<le> 1440" by simp
    show ?thesis
      using SunRelative fmt_hhmm_chars(1-3) [OF m] fmt_hhmm_chars(4) [OF m, of "CHR '',''"]
        digit_not_ws by (cases ev) (auto simp: is_ws_def)
  qed (use assms in simp_all)
  then show "display e \<noteq> []" and "CHR '','' \<notin> set (display e)"
    and "digit_value (hd (display e)) \<noteq> None \<or> hd (display e) = CHR ''s''"
    and "\<not> is_ws (last (display e))" by blast+
qed

lemma strip_prefix_hd: "s \<noteq> [] \<Longrightarrow> hd s \<noteq> c \<Longrightarrow> strip_prefix (c # p) s = None"
  by (cases s) (auto simp: strip_prefix_def)

lemma atom_parse:
  assumes "is_atom e" and "expr_wf e"
  shows "from_str (display e) = Inr e"
proof -
  have "hd (display e) \<noteq> CHR ''m''" using atom_chars(3) [OF assms] by auto
  then have head: "minmax_head (display e) = None"
    using atom_chars(1) [OF assms] by (simp add: minmax_head_def strip_prefix_hd)
  have "parse_atom (display e) = Inr e"
  proof (cases e)
    case (Fixed m)
    with assms(2) have m: "m \<le> 1440" by simp
    have "hd (fmt_hhmm m) \<noteq> CHR ''s''" using fmt_hhmm_chars(2) [OF m] by auto
    then show ?thesis
      using Fixed fmt_hhmm_chars(1) [OF m]
      by (simp add: parse_atom_def strip_prefix_hd fmt_hhmm_parse [OF m])
  next
    case (SunRelative ev off)
    with assms(2) have m: "nat \<bar>off\<bar> \<le> 1440" by simp
    have hm: "int (nat \<bar>off\<bar> div 60) * 60 + int (nat \<bar>off\<bar> mod 60) = \<bar>off\<bar>"
      by (metis div_mult_mod_eq int_nat_eq abs_ge_zero of_nat_add of_nat_mult of_nat_numeral)
    have p: "parse_hhmm (fmt_hhmm (nat \<bar>off\<bar>)) = Inr (nat \<bar>off\<bar> div 60, nat \<bar>off\<bar> mod 60)"
      by (rule fmt_hhmm_parse [OF m])
    show ?thesis
      using SunRelative p hm
      by (cases ev; cases "off > 0"; cases "off = 0")
        (simp_all add: parse_atom_def parse_sun_offset_def strip_prefix_def)
  qed (use assms in simp_all)
  with head show ?thesis by (subst from_str.simps) simp
qed

lemma dropWhile_hd: "s \<noteq> [] \<Longrightarrow> \<not> P (hd s) \<Longrightarrow> dropWhile P s = s"
  by (cases s) simp_all

lemma trim_id: "s \<noteq> [] \<Longrightarrow> \<not> is_ws (hd s) \<Longrightarrow> \<not> is_ws (last s) \<Longrightarrow> trim s = s"
  by (simp add: trim_def dropWhile_hd hd_rev)

lemma display_ends:
  "expr_wf e \<Longrightarrow> trim (display e) = display e"
proof (cases "is_atom e")
  case True
  assume "expr_wf e"
  with True show ?thesis
    using atom_chars [of e] digit_not_ws by (intro trim_id) (auto simp: is_ws_def)
next
  case False
  then show ?thesis by (cases e) (auto intro!: trim_id simp: is_ws_def)
qed

lemma minmax_parse:
  assumes "minmax_head s = Some (f, display a @ '', '' @ display b @ '')'')"
    and "is_atom a" and "expr_wf a" and "expr_wf b" and "from_str (display b) = Inr b"
  shows "from_str s = Inr (f a b)"
proof -
  have "strip_suffix '')'' (display a @ '', '' @ display b @ '')'') =
      Some (display a @ '', '' @ display b)"
    using strip_suffix_append [of "'')''" "display a @ '', '' @ display b"] by simp
  moreover have "split_once '', '' (display a @ '', '' @ display b) = Some (display a, display b)"
    using split_once_absent [of "CHR '',''" "display a" "'' ''" "display b"]
      atom_chars(2) [OF assms(2,3)] by simp
  ultimately show ?thesis
    using assms by (subst from_str.simps) (simp add: display_ends atom_parse)
qed

text \<open>The range of what the parser returns.\<close>

lemma parse_hhmm_range: "parse_hhmm s = Inr (h, m) \<Longrightarrow> h * 60 + m \<le> 1440"
  by (auto simp: parse_hhmm_def split: option.splits if_splits prod.splits)

lemma parse_sun_offset_wf: "parse_sun_offset s ev rest = Inr e \<Longrightarrow> expr_wf e"
  by (auto simp: parse_sun_offset_def split: option.splits if_splits prod.splits sum.splits
      dest!: parse_hhmm_range)

lemma parse_atom_wf: "parse_atom s = Inr e \<Longrightarrow> expr_wf e"
  by (auto simp: parse_atom_def parse_sun_offset_wf dest: parse_hhmm_range
      split: option.splits prod.splits sum.splits)

lemma display_parses:
  assumes "expr_wf e" and "expr_printable e"
  shows "from_str (display e) = Inr e"
  using assms
proof (induction e)
  case (Max_expr a b)
  then have ab: "is_atom a" "expr_wf a" "expr_wf b" "expr_printable b" by simp_all
  have "minmax_head (display (Max_expr a b)) = Some (Max_expr, display a @ '', '' @ display b @ '')'')"
    by (simp add: minmax_head_def strip_prefix_def)
  from minmax_parse [OF this ab(1-3) Max_expr.IH(2) [OF ab(3,4)]] show ?case .
next
  case (Min_expr a b)
  then have ab: "is_atom a" "expr_wf a" "expr_wf b" "expr_printable b" by simp_all
  have "minmax_head (display (Min_expr a b)) = Some (Min_expr, display a @ '', '' @ display b @ '')'')"
    by (simp add: minmax_head_def strip_prefix_def)
  from minmax_parse [OF this ab(1-3) Min_expr.IH(2) [OF ab(3,4)]] show ?case .
qed (rule atom_parse, simp, simp)+

lemma from_str_in_range: "from_str s = Inr e \<Longrightarrow> expr_wf e"
proof (induction s arbitrary: e rule: from_str.induct)
  case (1 s)
  show ?case
  proof (cases "minmax_head s")
    case None
    with "1.prems" show ?thesis by (subst (asm) from_str.simps) (simp add: parse_atom_wf)
  next
    case (Some fr)
    obtain f rest inner l r a b where
      h: "minmax_head s = Some (f, rest)" "strip_suffix '')'' rest = Some inner"
        "split_once '', '' inner = Some (l, r)"
      and ab: "from_str (trim l) = Inr a" "from_str (trim r) = Inr b" "e = f a b"
      using "1.prems" Some by (subst (asm) from_str.simps)
        (auto split: option.splits sum.splits prod.splits)
    have "expr_wf a" using "1.IH"(1) [OF h(1) refl h(2,3) refl ab(1)] .
    moreover have "expr_wf b" using "1.IH"(2) [OF h(1) refl h(2,3) refl ab(1,2)] .
    ultimately show ?thesis
      using h(1) ab(3) by (auto simp: minmax_head_def split: option.splits)
  qed
qed

text \<open>The parser only builds printable expressions: the left argument of \<open>max\<close> / \<open>min\<close> ends at the first
  comma, so it has no argument list of its own.\<close>

lemma strip_prefix_sound: "strip_prefix pat s = Some r \<Longrightarrow> s = pat @ r"
  unfolding strip_prefix_def by (metis append_take_drop_id option.distinct(1) option.inject)

lemma strip_suffix_sound: "strip_suffix pat s = Some r \<Longrightarrow> s = r @ pat"
  unfolding strip_suffix_def by (auto dest!: strip_prefix_sound) (metis rev_append rev_rev_ident)

lemma split_once_sound: "split_once pat s = Some (l, r) \<Longrightarrow> s = l @ pat @ r"
proof (induction s arbitrary: l)
  case Nil
  then show ?case by (auto simp: split_once.simps [of _ "[]"] dest: strip_prefix_sound split: option.splits)
next
  case (Cons c s)
  then show ?case
    by (auto simp: split_once.simps [of _ "c # s"] dest: strip_prefix_sound split: option.splits)
qed

lemma split_once_occurs: "split_once pat (u @ pat @ v) \<noteq> None"
proof (induction u)
  case Nil
  have "split_once pat (pat @ v) \<noteq> None" by (subst split_once.simps) (simp only: strip_prefix_append, simp)
  then show ?case by simp
next
  case (Cons c u)
  then show ?case by (auto simp: split_once.simps [of _ "c # u @ pat @ v"] split: option.splits)
qed

lemma split_once_part: "split_once pat (u @ s @ v) = None \<Longrightarrow> split_once pat s = None"
proof (rule ccontr)
  assume n: "split_once pat (u @ s @ v) = None" and "split_once pat s \<noteq> None"
  then obtain l r where "s = l @ pat @ r" using split_once_sound by (metis not_None_eq surj_pair)
  then show False using n split_once_occurs [of pat "u @ l" "r @ v"] by simp
qed

lemma strip_prefix_extend: "strip_prefix pat s = Some r \<Longrightarrow> strip_prefix pat (s @ t) = Some (r @ t)"
  using strip_prefix_sound [of pat s r] by simp

lemma split_once_left:
  "pat \<noteq> [] \<Longrightarrow> split_once pat s = Some (l, r) \<Longrightarrow> split_once pat l = None"
proof (induction s arbitrary: l)
  case Nil
  then show ?case by (auto simp: split_once.simps [of _ "[]"] strip_prefix_def split: option.splits if_splits)
next
  case (Cons c s)
  show ?case
  proof (cases "strip_prefix pat (c # s)")
    case None
    then obtain l' where l: "l = c # l'" "split_once pat s = Some (l', r)"
      using Cons.prems by (auto simp: split_once.simps [of _ "c # s"] split: option.splits)
    have "c # s = (c # l') @ pat @ r" using split_once_sound [OF l(2)] by simp
    then have "strip_prefix pat (c # l') = None"
      using None strip_prefix_extend [of pat "c # l'" _ "pat @ r"] by (cases "strip_prefix pat (c # l')") auto
    then show ?thesis using Cons.IH [OF Cons.prems(1) l(2)] by (simp add: l split_once.simps [of _ "c # l'"])
  next
    case (Some x)
    then have "l = []" using Cons.prems by (simp add: split_once.simps [of _ "c # s"])
    then show ?thesis using Cons.prems(1) by (simp add: split_once.simps [of _ "[]"] strip_prefix_def)
  qed
qed

lemma trim_part: "\<exists>u v. s = u @ trim s @ v"
proof -
  have "s = takeWhile is_ws s @ dropWhile is_ws s" by simp
  moreover have "dropWhile is_ws s = rev (dropWhile is_ws (rev (dropWhile is_ws s))) @
      rev (takeWhile is_ws (rev (dropWhile is_ws s)))"
    by (metis rev_append rev_rev_ident takeWhile_dropWhile_id)
  ultimately show ?thesis unfolding trim_def by metis
qed

lemma parse_atom_atom: "parse_atom s = Inr e \<Longrightarrow> is_atom e"
  by (auto simp: parse_atom_def parse_sun_offset_def split: option.splits prod.splits sum.splits if_splits)

lemma no_comma_atom:
  assumes "split_once '', '' s = None" and "from_str s = Inr e"
  shows "is_atom e"
proof (cases "minmax_head s")
  case None
  with assms(2) show ?thesis by (subst (asm) from_str.simps) (simp add: parse_atom_atom)
next
  case (Some fr)
  obtain f rest where fr: "fr = (f, rest)" by (cases fr)
  have "strip_suffix '')'' rest \<noteq> None \<Longrightarrow> split_once '', '' (the (strip_suffix '')'' rest)) = None"
  proof -
    assume "strip_suffix '')'' rest \<noteq> None"
    then obtain inner where "strip_suffix '')'' rest = Some inner" by blast
    moreover obtain u where "s = u @ rest"
      using Some fr by (auto simp: minmax_head_def dest!: strip_prefix_sound split: option.splits)
    ultimately show ?thesis
      using assms(1) split_once_part [of "'', ''" u inner "'')''"] by (auto dest!: strip_suffix_sound)
  qed
  with assms(2) Some fr show ?thesis
    by (subst (asm) from_str.simps) (auto split: option.splits sum.splits prod.splits)
qed

lemma from_str_printable: "from_str s = Inr e \<Longrightarrow> expr_printable e"
proof (induction s arbitrary: e rule: from_str.induct)
  case (1 s)
  show ?case
  proof (cases "minmax_head s")
    case None
    with "1.prems" have "is_atom e" by (subst (asm) from_str.simps) (simp add: parse_atom_atom)
    then show ?thesis by (cases e) simp_all
  next
    case (Some fr)
    obtain f rest inner l r a b where
      h: "minmax_head s = Some (f, rest)" "strip_suffix '')'' rest = Some inner"
        "split_once '', '' inner = Some (l, r)"
      and ab: "from_str (trim l) = Inr a" "from_str (trim r) = Inr b" "e = f a b"
      using "1.prems" Some by (subst (asm) from_str.simps)
        (auto split: option.splits sum.splits prod.splits)
    obtain u v where "l = u @ trim l @ v" using trim_part [of l] by blast
    moreover have "split_once '', '' l = None" using split_once_left [OF _ h(3)] by simp
    ultimately have "split_once '', '' (trim l) = None" using split_once_part by metis
    then have "is_atom a" using ab(1) by (rule no_comma_atom)
    moreover have "expr_printable b" using "1.IH"(2) [OF h(1) refl h(2,3) refl ab(1,2)] .
    ultimately show ?thesis
      using h(1) ab(3) by (auto simp: minmax_head_def split: option.splits)
  qed
qed

text \<open>C37: Printing and parsing round-trip: every expression whose fields are in range and whose
  \<open>max\<close> / \<open>min\<close> nest only to the right prints to a string that parses back to it.\<close>

theorem display_from_str:
  assumes "expr_wf e" and "expr_printable e"
  shows "from_str (display e) = Inr e"
  using assms by (rule display_parses)

theorem display_from_str_witness:
  "from_str (display (Max_expr (SunRelative Sunset 60) (Min_expr (Fixed 1380) (SunRelative Sunrise (-90)))))
     = Inr (Max_expr (SunRelative Sunset 60) (Min_expr (Fixed 1380) (SunRelative Sunrise (-90))))"
  by (rule display_from_str) simp_all

text \<open>What the parser accepts is in range: every fixed time is at most 24:00 and every offset is
  at most a day, so the \<open>u8\<close>, \<open>u16\<close> and \<open>i16\<close> arithmetic of the parser and of evaluation never
  overflows.\<close>

theorem from_str_wf: "from_str s = Inr e \<Longrightarrow> expr_wf e"
  by (rule from_str_in_range)

theorem from_str_wf_witness: "expr_wf (Max_expr (SunRelative Sunset 60) (Fixed 1380))"
  by (rule from_str_wf [of "''max(sunset+01:00, 23:00)''"]) code_simp

end
