(* ===== verification/Scenes.thy ===== *)
theory Scenes
  imports TimeExpr
begin

text \<open>
  \<open>src/crates/mqtt-controller/src/config/scenes.rs\<close>: a room's scenes and the time-of-day slots
  that order them, the lookup of the slot for a local time and the validation run at load time
  and on every schedule override. Shown: validation accepts a schedule with fixed boundaries
  exactly when its references and boundaries are in range and every minute of the day lies in
  exactly one slot, and the lookup then finds that slot.
\<close>

section \<open>Data\<close>

record scene =
  scene_id :: u8
  scene_name :: string
  scene_state :: string
  scene_brightness :: "u8 option"
  scene_color_temp :: "u16 option"
  scene_transition :: f64

record slot =
  slot_from :: time_expr
  slot_to :: time_expr
  slot_scene_ids :: "u8 list"

type_synonym slots = "(string, slot) btree_map"

record scene_schedule =
  ss_scenes :: "scene list"
  ss_slots :: slots

datatype scene_schedule_error =
    FromOutOfRange string string
  | ToOutOfRange string string
  | UnknownSceneId string u8
  | IncompleteCoverage nat nat
  | OverlappingSlots u16 "string list"
  | SlotSetChanged "string list" "string list"

section \<open>Lookup\<close>

text \<open>\<open>Slot::contains_time\<close>; the panic is the one of \<^const>\<open>resolve\<close>.\<close>

definition contains_time :: "slot \<Rightarrow> u8 \<Rightarrow> u8 \<Rightarrow> sun_times option \<Rightarrow> bool option" where
  "contains_time s h m sun =
     do { start \<leftarrow> resolve sun (slot_from s);
          end \<leftarrow> resolve sun (slot_to s);
          let now = h * 60 + m;
          Some (if start \<le> end then now \<ge> start \<and> now < end
                else now \<ge> start \<or> now < end) }"

definition slot_uses_sun :: "slot \<Rightarrow> bool" where
  "slot_uses_sun s = (uses_sun (slot_from s) \<or> uses_sun (slot_to s))"

definition slot_for_time ::
  "slots \<Rightarrow> u8 \<Rightarrow> u8 \<Rightarrow> sun_times option \<Rightarrow> (string \<times> slot) option option" where
  "slot_for_time sl hour minute sun = findM (\<lambda>(_, s). contains_time s hour minute sun) sl"

definition uses_sun_expressions :: "scene_schedule \<Rightarrow> bool" where
  "uses_sun_expressions sc = list_ex slot_uses_sun (bt_values (ss_slots sc))"

section \<open>Validation\<close>

text \<open>The loop over the slots of \<open>validate\<close>: boundary ranges, then scene references.\<close>

definition fixed_above_day :: "time_expr \<Rightarrow> bool" where
  "fixed_above_day e = (case e of Fixed m \<Rightarrow> m > 1440 | _ \<Rightarrow> False)"

fun validate_slots :: "u8 list \<Rightarrow> slots \<Rightarrow> scene_schedule_error + unit" where
  "validate_slots known [] = Inr ()"
| "validate_slots known ((name, s) # rest) =
     (if fixed_above_day (slot_from s) then Inl (FromOutOfRange name (display (slot_from s)))
      else if fixed_above_day (slot_to s) then Inl (ToOutOfRange name (display (slot_to s)))
      else case find (\<lambda>i. \<not> bs_contains known i) (slot_scene_ids s) of
        Some i \<Rightarrow> Inl (UnknownSceneId name i)
      | None \<Rightarrow> validate_slots known rest)"

text \<open>\<open>owners\<close>: for every minute, the names of the slots that contain it.\<close>

definition coverage_owners :: "slots \<Rightarrow> sun_times option \<Rightarrow> string list list option" where
  "coverage_owners sl sun =
     foldM (\<lambda>(name, s) owners.
        mapM (\<lambda>m. do { b \<leftarrow> contains_time s (m div 60) (m mod 60) sun;
                       Some (if b then owners ! m @ [name] else owners ! m) }) [0..<1440])
       sl (replicate 1440 [])"

definition validate_coverage ::
  "scene_schedule \<Rightarrow> sun_times option \<Rightarrow> (scene_schedule_error + unit) option" where
  "validate_coverage sc sun =
     do { owners \<leftarrow> coverage_owners (ss_slots sc) sun;
          Some (case find (\<lambda>(m, os). length os > 1) (zip [0..<1440] owners) of
                  Some (m, os) \<Rightarrow> Inl (OverlappingSlots m os)
                | None \<Rightarrow>
                    (let uncovered = length (filter (\<lambda>os. os = []) owners)
                     in if uncovered > 0
                        then Inl (IncompleteCoverage (length (ss_slots sc)) uncovered)
                        else Inr ())) }"

definition scene_schedule_validate :: "scene_schedule \<Rightarrow> (scene_schedule_error + unit) option" where
  "scene_schedule_validate sc =
     (case validate_slots (bs_of_list (map scene_id (ss_scenes sc))) (ss_slots sc) of
        Inl e \<Rightarrow> Some (Inl e)
      | Inr _ \<Rightarrow>
          if \<not> uses_sun_expressions sc then validate_coverage sc None else Some (Inr ()))"

definition validate_replacement_slots ::
  "scene_schedule \<Rightarrow> slots \<Rightarrow> (scene_schedule_error + unit) option" where
  "validate_replacement_slots sc sl =
     (if bt_keys sl \<noteq> bt_keys (ss_slots sc)
      then Some (Inl (SlotSetChanged (bt_keys (ss_slots sc)) (bt_keys sl)))
      else scene_schedule_validate \<lparr>ss_scenes = ss_scenes sc, ss_slots = sl\<rparr>)"

section \<open>What validation decides\<close>

text \<open>The slot owns minute \<open>m\<close> of the day.\<close>

definition slot_has :: "sun_times option \<Rightarrow> u16 \<Rightarrow> string \<times> slot \<Rightarrow> bool" where
  "slot_has sun m e = (contains_time (snd e) (m div 60) (m mod 60) sun = Some True)"

definition covers_exactly_once :: "slots \<Rightarrow> sun_times option \<Rightarrow> bool" where
  "covers_exactly_once sl sun = (\<forall>m < 1440. length (filter (slot_has sun m) sl) = 1)"

definition slot_refs_ok :: "scene list \<Rightarrow> slot \<Rightarrow> bool" where
  "slot_refs_ok scenes s =
     (\<not> fixed_above_day (slot_from s) \<and> \<not> fixed_above_day (slot_to s) \<and>
      set (slot_scene_ids s) \<subseteq> scene_id ` set scenes)"

lemma contains_time_total:
  assumes "slot_uses_sun s \<Longrightarrow> sun \<noteq> None"
  shows "contains_time s h m sun = Some (contains_time s h m sun = Some True)"
  using assms resolve_total [of "slot_from s" sun] resolve_total [of "slot_to s" sun]
  by (auto simp: contains_time_def slot_uses_sun_def Let_def)

lemma coverage_owners_step:
  assumes "slot_uses_sun s \<Longrightarrow> sun \<noteq> None"
  shows "mapM (\<lambda>m. do { b \<leftarrow> contains_time s (m div 60) (m mod 60) sun;
            Some (if b then map f [0..<1440] ! m @ [name] else map f [0..<1440] ! m) }) [0..<1440]
       = Some (map (\<lambda>m. f m @ map fst (filter (slot_has sun m) [(name, s)])) [0..<1440])"
proof (rule mapM_Some_map)
  fix m :: nat assume "m \<in> set [0..<1440]"
  then show "do { b \<leftarrow> contains_time s (m div 60) (m mod 60) sun;
      Some (if b then map f [0..<1440] ! m @ [name] else map f [0..<1440] ! m) }
    = Some (f m @ map fst (filter (slot_has sun m) [(name, s)]))"
    by (subst contains_time_total [OF assms]) (simp_all add: slot_has_def)
qed

lemma coverage_owners_eq:
  assumes "\<And>s. s \<in> set (bt_values sl) \<Longrightarrow> slot_uses_sun s \<Longrightarrow> sun \<noteq> None"
  shows "coverage_owners sl sun
       = Some (map (\<lambda>m. map fst (filter (slot_has sun m) sl)) [0..<1440])"
proof -
  let ?body = "\<lambda>(name, s) owners.
        mapM (\<lambda>m. do { b \<leftarrow> contains_time s (m div 60) (m mod 60) sun;
                       Some (if b then owners ! m @ [name] else owners ! m) }) [0..<1440]"
  have "foldM ?body sl (map f [0..<1440])
      = Some (map (\<lambda>m. f m @ map fst (filter (slot_has sun m) sl)) [0..<1440])" for f
    using assms
  proof (induction sl arbitrary: f)
    case (Cons e sl)
    obtain name s where e: "e = (name, s)" by force
    have "slot_uses_sun s \<Longrightarrow> sun \<noteq> None" using Cons.prems [of s] e by (simp add: bt_values_def)
    note step = coverage_owners_step [OF this, where f = f and name = name]
    have IH: "foldM ?body sl (map g [0..<1440])
        = Some (map (\<lambda>m. g m @ map fst (filter (slot_has sun m) sl)) [0..<1440])" for g
      by (rule Cons.IH) (use Cons.prems in \<open>auto simp: bt_values_def\<close>)
    show ?case unfolding e by (simp only: foldM.simps prod.case step bind.bind_lunit IH) simp
  qed simp
  from this [of "\<lambda>m. []"] show ?thesis
    by (simp add: coverage_owners_def map_replicate_const)
qed

lemma validate_slots_iff:
  "validate_slots known sl = Inr () \<longleftrightarrow>
     (\<forall>e \<in> set sl. \<not> fixed_above_day (slot_from (snd e)) \<and> \<not> fixed_above_day (slot_to (snd e)) \<and>
        set (slot_scene_ids (snd e)) \<subseteq> set known)"
  by (induction known sl rule: validate_slots.induct)
    (auto simp: find_None_iff find_Some_iff split: option.splits, metis nth_mem subsetD)

lemma validate_coverage_iff:
  assumes "\<And>s. s \<in> set (bt_values (ss_slots sc)) \<Longrightarrow> slot_uses_sun s \<Longrightarrow> sun \<noteq> None"
  shows "validate_coverage sc sun = Some (Inr ()) \<longleftrightarrow> covers_exactly_once (ss_slots sc) sun"
proof -
  let ?n = "\<lambda>m. length (filter (slot_has sun m) (ss_slots sc))"
  let ?own = "map (\<lambda>m. map fst (filter (slot_has sun m) (ss_slots sc))) [0..<1440]"
  have over: "find (\<lambda>(m, os). length os > 1) (zip [0..<1440] ?own) = None \<longleftrightarrow> (\<forall>m < 1440. ?n m \<le> 1)"
    by (auto simp: zip_map_same find_None_iff not_less)
  have unc: "length (filter (\<lambda>os. os = []) ?own) = 0 \<longleftrightarrow> (\<forall>m < 1440. ?n m \<noteq> 0)"
    by (auto simp: filter_empty_conv filter_map comp_def)
  have "(\<forall>m < 1440. ?n m \<le> 1) \<and> (\<forall>m < 1440. ?n m \<noteq> 0) \<longleftrightarrow> (\<forall>m < 1440. ?n m = 1)"
    by (metis One_nat_def le_antisym less_one not_le le_refl one_neq_zero)
  with over unc show ?thesis
    by (auto simp: validate_coverage_def coverage_owners_eq [OF assms] covers_exactly_once_def Let_def
        simp del: filter_map split: option.splits)
qed

lemma uses_sun_expressions_values:
  "\<not> uses_sun_expressions sc \<Longrightarrow> s \<in> set (bt_values (ss_slots sc)) \<Longrightarrow> \<not> slot_uses_sun s"
  by (auto simp: uses_sun_expressions_def list_ex_iff)

lemma slot_for_time_unique:
  assumes "\<And>s. s \<in> set (bt_values sl) \<Longrightarrow> slot_uses_sun s \<Longrightarrow> sun \<noteq> None"
    and "covers_exactly_once sl sun" and "h < 24" and "m < 60"
  shows "\<exists>e. slot_for_time sl h m sun = Some (Some e) \<and> filter (slot_has sun (h * 60 + m)) sl = [e]"
proof -
  have hm: "(h * 60 + m) div 60 = h" "(h * 60 + m) mod 60 = m" using assms(4) by simp_all
  have "h * 60 + m < 1440" using assms(3,4) by linarith
  then have "length (filter (slot_has sun (h * 60 + m)) sl) = 1"
    using assms(2) by (simp add: covers_exactly_once_def)
  then obtain e where e: "filter (slot_has sun (h * 60 + m)) sl = [e]"
    by (metis One_nat_def length_0_conv length_Suc_conv)
  have "slot_for_time sl h m sun = Some (find (slot_has sun (h * 60 + m)) sl)"
    unfolding slot_for_time_def
  proof (rule findM_Some)
    fix x assume "x \<in> set sl"
    then have "snd x \<in> set (bt_values sl)" by (simp add: bt_values_def)
    then show "(case x of (_, s) \<Rightarrow> contains_time s h m sun) = Some (slot_has sun (h * 60 + m) x)"
      using contains_time_total [of "snd x" sun h m] assms(1) hm
      by (auto simp: slot_has_def split: prod.splits)
  qed
  moreover have "find (slot_has sun (h * 60 + m)) sl = Some e"
    using e by (simp add: find_filter)
  ultimately show ?thesis using e by simp
qed

section \<open>Properties\<close>

text \<open>C34: A schedule whose boundaries are all fixed passes validation exactly when every slot boundary is
  at most 24:00, every scene id a slot cycles through is defined, and every minute of the day
  lies in exactly one slot. In particular validation never panics on such a schedule.\<close>

theorem scene_schedule_validate_iff:
  assumes "\<not> uses_sun_expressions sc"
  shows "scene_schedule_validate sc \<noteq> None \<and>
         (scene_schedule_validate sc = Some (Inr ()) \<longleftrightarrow>
           (\<forall>s \<in> set (bt_values (ss_slots sc)). slot_refs_ok (ss_scenes sc) s) \<and>
           covers_exactly_once (ss_slots sc) None)"
proof (rule conjI)
  note ns = uses_sun_expressions_values [OF assms]
  have cov: "validate_coverage sc None = Some (Inr ()) \<longleftrightarrow> covers_exactly_once (ss_slots sc) None"
    by (rule validate_coverage_iff) (use ns in blast)
  show "scene_schedule_validate sc \<noteq> None"
    using coverage_owners_eq [of "ss_slots sc" None] ns
    by (simp add: scene_schedule_validate_def validate_coverage_def split: sum.splits)
  show "scene_schedule_validate sc = Some (Inr ()) \<longleftrightarrow>
      (\<forall>s \<in> set (bt_values (ss_slots sc)). slot_refs_ok (ss_scenes sc) s) \<and>
      covers_exactly_once (ss_slots sc) None"
    using assms cov validate_slots_iff [of "bs_of_list (map scene_id (ss_scenes sc))" "ss_slots sc"]
    by (auto simp: scene_schedule_validate_def bt_values_def slot_refs_ok_def split: sum.splits)
qed

definition day_night :: scene_schedule where
  "day_night =
     \<lparr>ss_scenes = map (\<lambda>i. \<lparr>scene_id = i, scene_name = ''s'', scene_state = ''ON'',
          scene_brightness = Some 100, scene_color_temp = None, scene_transition = 0\<rparr>) [1, 2, 3],
      ss_slots = [(''day'', \<lparr>slot_from = Fixed 360, slot_to = Fixed 1380, slot_scene_ids = [1, 2, 3]\<rparr>),
                  (''night'', \<lparr>slot_from = Fixed 1380, slot_to = Fixed 360, slot_scene_ids = [3, 2, 1]\<rparr>)]\<rparr>"

theorem scene_schedule_validate_iff_witness: "scene_schedule_validate day_night = Some (Inr ())"
proof -
  have ns: "\<not> uses_sun_expressions day_night"
    by (simp add: day_night_def uses_sun_expressions_def slot_uses_sun_def bt_values_def)
  have "covers_exactly_once (ss_slots day_night) None"
    by (auto simp: covers_exactly_once_def day_night_def slot_has_def contains_time_def Let_def)
  then show ?thesis
    using scene_schedule_validate_iff [OF ns]
    by (auto simp: day_night_def bt_values_def slot_refs_ok_def fixed_above_day_def)
qed

text \<open>For an accepted schedule with fixed boundaries the lookup succeeds at every local time and
  returns the one slot that contains it, and every scene the slot cycles through is defined.\<close>

theorem slot_for_time_valid:
  assumes "scene_schedule_validate sc = Some (Inr ())" and "\<not> uses_sun_expressions sc"
    and "h < 24" and "m < 60"
  shows "\<exists>e. slot_for_time (ss_slots sc) h m None = Some (Some e) \<and>
           filter (slot_has None (h * 60 + m)) (ss_slots sc) = [e] \<and>
           set (slot_scene_ids (snd e)) \<subseteq> scene_id ` set (ss_scenes sc)"
proof -
  note ns = uses_sun_expressions_values [OF assms(2)]
  have cov: "validate_coverage sc None = Some (Inr ()) \<longleftrightarrow> covers_exactly_once (ss_slots sc) None"
    by (rule validate_coverage_iff) (use ns in blast)
  have ok: "validate_slots (bs_of_list (map scene_id (ss_scenes sc))) (ss_slots sc) = Inr ()"
      "validate_coverage sc None = Some (Inr ())"
    using assms(1,2) by (auto simp: scene_schedule_validate_def split: sum.splits)
  obtain e where e: "slot_for_time (ss_slots sc) h m None = Some (Some e)"
      "filter (slot_has None (h * 60 + m)) (ss_slots sc) = [e]"
    using slot_for_time_unique [of "ss_slots sc" None h m] ns cov ok(2) assms(3,4) by blast
  then have "e \<in> set (ss_slots sc)" by (metis list.set_intros(1) filter_is_subset subsetD)
  with ok(1) e show ?thesis by (auto simp: validate_slots_iff)
qed

theorem slot_for_time_valid_witness:
  "\<exists>e. slot_for_time (ss_slots day_night) 23 30 None = Some (Some e)"
proof -
  have "\<not> uses_sun_expressions day_night"
    by (simp add: day_night_def uses_sun_expressions_def slot_uses_sun_def bt_values_def)
  moreover have "covers_exactly_once (ss_slots day_night) None"
    by (auto simp: covers_exactly_once_def day_night_def slot_has_def contains_time_def Let_def)
  ultimately have "scene_schedule_validate day_night = Some (Inr ())"
    using validate_coverage_iff [of day_night None] uses_sun_expressions_values [of day_night]
      validate_slots_iff [of "bs_of_list (map scene_id (ss_scenes day_night))" "ss_slots day_night"]
    by (auto simp: scene_schedule_validate_def day_night_def fixed_above_day_def)
  from slot_for_time_valid [OF this \<open>\<not> uses_sun_expressions day_night\<close>, of 23 30]
  show ?thesis by auto
qed

end
