(* ===== verification/HeatingConfig.thy ===== *)
theory HeatingConfig
  imports TimeExpr Json
begin

text \<open>
  \<open>src/crates/mqtt-controller/src/config/heating.rs\<close>: weekly temperature schedules, zones,
  pressure groups and the protection timers, with every validator of the file. Shown: the
  sweep-line check of a day accepts exactly the lists of ranges that cover every minute once,
  hence a validated schedule has one setpoint in 5..30 degrees for every minute of the week.
\<close>

section \<open>Data\<close>

datatype weekday = Monday | Tuesday | Wednesday | Thursday | Friday | Saturday | Sunday

fun weekday_index :: "weekday \<Rightarrow> nat" where
  "weekday_index Monday = 0"
| "weekday_index Tuesday = 1"
| "weekday_index Wednesday = 2"
| "weekday_index Thursday = 3"
| "weekday_index Friday = 4"
| "weekday_index Saturday = 5"
| "weekday_index Sunday = 6"

lemma weekday_index_inject: "weekday_index a = weekday_index b \<Longrightarrow> a = b"
  by (cases a; cases b) simp_all

text \<open>The derived \<open>Ord\<close>: declaration order.\<close>

instantiation weekday :: linorder
begin

definition less_eq_weekday :: "weekday \<Rightarrow> weekday \<Rightarrow> bool" where
  "less_eq_weekday a b = (weekday_index a \<le> weekday_index b)"

definition less_weekday :: "weekday \<Rightarrow> weekday \<Rightarrow> bool" where
  "less_weekday a b = (weekday_index a < weekday_index b)"

instance
  by standard (auto simp: less_eq_weekday_def less_weekday_def intro: weekday_index_inject)

end

definition all_weekdays :: "weekday list" where
  "all_weekdays = [Monday, Tuesday, Wednesday, Thursday, Friday, Saturday, Sunday]"

lemma all_weekdays_complete [simp]: "d \<in> set all_weekdays"
  by (cases d) (simp_all add: all_weekdays_def)

fun weekday_display :: "weekday \<Rightarrow> string" where
  "weekday_display Monday = ''monday''"
| "weekday_display Tuesday = ''tuesday''"
| "weekday_display Wednesday = ''wednesday''"
| "weekday_display Thursday = ''thursday''"
| "weekday_display Friday = ''friday''"
| "weekday_display Saturday = ''saturday''"
| "weekday_display Sunday = ''sunday''"

record day_time_range =
  start_hour :: u8
  start_minute :: u8
  end_hour :: u8
  end_minute :: u8
  temperature :: f64

record day_time_range_raw =
  raw_start :: string
  raw_end :: string
  raw_temperature :: f64

definition range_try_from :: "day_time_range_raw \<Rightarrow> parse_time_expr_error + day_time_range" where
  "range_try_from raw =
     (case parse_hhmm (raw_start raw) of
        Inl e \<Rightarrow> Inl e
      | Inr (sh, sm) \<Rightarrow>
          (case parse_hhmm (raw_end raw) of
             Inl e \<Rightarrow> Inl e
           | Inr (eh, em) \<Rightarrow>
               Inr \<lparr>start_hour = sh, start_minute = sm, end_hour = eh, end_minute = em,
                    temperature = raw_temperature raw\<rparr>))"

definition range_into :: "day_time_range \<Rightarrow> day_time_range_raw" where
  "range_into r =
     \<lparr>raw_start = pad2 (start_hour r) @ '':'' @ pad2 (start_minute r),
      raw_end = pad2 (end_hour r) @ '':'' @ pad2 (end_minute r),
      raw_temperature = temperature r\<rparr>"

definition start_minutes :: "day_time_range \<Rightarrow> u32" where
  "start_minutes r = start_hour r * 60 + start_minute r"

definition end_minutes :: "day_time_range \<Rightarrow> u32" where
  "end_minutes r = end_hour r * 60 + end_minute r"

definition range_contains :: "day_time_range \<Rightarrow> u8 \<Rightarrow> u8 \<Rightarrow> bool" where
  "range_contains r hour minute =
     (let t = hour * 60 + minute in t \<ge> start_minutes r \<and> t < end_minutes r)"

record temperature_schedule =
  days :: "(weekday, day_time_range list) btree_map"

record zone_trv =
  zt_device :: string
  zt_schedule :: string

record heating_zone_config =
  zone_name :: string
  zone_relay :: string
  zone_trvs :: "zone_trv list"

record pressure_group =
  pg_name :: string
  pg_trvs :: "string list"

record heat_pump_protection =
  min_cycle_seconds :: u64
  min_pause_seconds :: u64
  min_demand_percent :: u8
  min_demand_percent_fallback :: u8

definition default_min_demand_percent :: u8 where
  "default_min_demand_percent = 5"

definition default_min_demand_percent_fallback :: u8 where
  "default_min_demand_percent_fallback = 80"

record open_window_protection =
  detection_minutes :: u32
  inhibit_minutes :: u32

record heating_config =
  hc_energy_meter :: "string option"
  hc_zones :: "heating_zone_config list"
  hc_schedules :: "(string, temperature_schedule) btree_map"
  hc_pressure_groups :: "pressure_group list"
  hc_heat_pump :: heat_pump_protection
  hc_open_window :: open_window_protection

text \<open>What a device option has to satisfy; the code renders it as the error's \<open>reason\<close>.\<close>

datatype option_rule =
    MustBeOneOf "string list"
  | MustBeIntIn u64 u64
  | MustBeFloatIn f64 f64
  | MustBeTens
  | MustBeBoolean

datatype heating_config_error =
    InvalidEnergyMeter string
  | MissingWeekday string weekday
  | StartHourOutOfRange string weekday nat u8
  | EndHourOutOfRange string weekday nat u8
  | MinuteOutOfRange string weekday nat u8
  | EndMinuteWith24 string weekday nat u8
  | MidnightCrossing string weekday nat u8 u8 u8 u8
  | TemperatureOutOfRange string weekday nat f64
  | OverlappingRanges string weekday nat nat u32
  | GapInCoverage string weekday u32
  | DuplicateZoneName string
  | RelayNotWallThermostat string string
  | TrvNotInCatalog string string
  | UnknownSchedule string string string
  | TrvInMultipleZones string string string
  | PressureGroupTooSmall string
  | PressureGroupTrvNotInZone string string
  | PressureGroupMultipleZones string string string
  | TrvInMultiplePressureGroups string string string
  | ZoneEmpty string
  | DuplicateRelay string string string
  | RelayMissingManualControl string string
  | DeviceMissingRequiredMode string string string string
  | ZeroProtectionTimer string u64
  | ZeroOpenWindowTimer string u32
  | InvalidDemandThreshold string u8
  | InvalidDeviceOption string string json option_rule

section \<open>Device options\<close>

definition check_choice :: "string \<Rightarrow> string \<Rightarrow> json \<Rightarrow> string list \<Rightarrow> heating_config_error + unit" where
  "check_choice device key v valid =
     (if (case as_str v of None \<Rightarrow> False | Some x \<Rightarrow> x \<in> set valid) then Inr ()
      else Inl (InvalidDeviceOption device key v (MustBeOneOf valid)))"

definition check_u64_range :: "string \<Rightarrow> string \<Rightarrow> json \<Rightarrow> u64 \<Rightarrow> u64 \<Rightarrow> heating_config_error + unit" where
  "check_u64_range device key v lo hi =
     (if (case as_u64 v of None \<Rightarrow> False | Some x \<Rightarrow> lo \<le> x \<and> x \<le> hi) then Inr ()
      else Inl (InvalidDeviceOption device key v (MustBeIntIn lo hi)))"

definition check_f64_range :: "string \<Rightarrow> string \<Rightarrow> json \<Rightarrow> f64 \<Rightarrow> f64 \<Rightarrow> heating_config_error + unit" where
  "check_f64_range device key v lo hi =
     (if (case as_f64 v of None \<Rightarrow> False | Some x \<Rightarrow> lo \<le> x \<and> x \<le> hi) then Inr ()
      else Inl (InvalidDeviceOption device key v (MustBeFloatIn lo hi)))"

definition check_brightness :: "string \<Rightarrow> string \<Rightarrow> json \<Rightarrow> heating_config_error + unit" where
  "check_brightness device key v =
     (if (case as_u64 v of None \<Rightarrow> False | Some x \<Rightarrow> x \<le> 100 \<and> x mod 10 = 0) then Inr ()
      else Inl (InvalidDeviceOption device key v MustBeTens))"

text \<open>One arm of the \<open>match\<close> on the option key.\<close>

definition check_trv_option :: "string \<Rightarrow> string \<Rightarrow> json \<Rightarrow> heating_config_error + unit" where
  "check_trv_option device key v =
     (if key = ''operating_mode'' then check_choice device key v [''schedule'', ''manual'', ''pause'']
      else if key = ''display_brightness'' then check_brightness device key v
      else if key = ''display_switch_on_duration'' then check_u64_range device key v 5 30
      else if key = ''display_orientation''
        then check_choice device key v [''standard_arrangement'', ''rotated_by_180_degrees'']
      else if key = ''displayed_temperature''
        then check_choice device key v [''set_temperature'', ''measured_temperature'']
      else if key = ''local_temperature_calibration'' then check_f64_range device key v (-5) 5
      else if key = ''child_lock'' then check_choice device key v [''LOCK'', ''UNLOCK'']
      else if key = ''system_mode'' then check_choice device key v [''off'', ''auto'', ''heat'']
      else if key = ''open_window'' then check_choice device key v [''ON'', ''OFF'']
      else if key = ''frost_protection_temperature'' then check_f64_range device key v 4 35
      else if key = ''temperature_accuracy'' then check_f64_range device key v (-1) (-1/5)
      else if key = ''valve_opening_degree'' then check_u64_range device key v 0 100
      else if key = ''valve_closing_degree'' then check_u64_range device key v 0 100
      else if key = ''temperature_sensor_select''
        then check_choice device key v [''internal'', ''external'', ''external_2'', ''external_3'']
      else if key = ''smart_temperature_control''
        then (if \<not> is_boolean v then Inl (InvalidDeviceOption device key v MustBeBoolean) else Inr ())
      else Inr ())"

definition check_wall_option :: "string \<Rightarrow> string \<Rightarrow> json \<Rightarrow> heating_config_error + unit" where
  "check_wall_option device key v =
     (if key = ''heater_type''
        then check_choice device key v
          [''underfloor_heating'', ''central_heating'', ''radiator'', ''manual_control'']
      else if key = ''operating_mode'' then check_choice device key v [''schedule'', ''manual'', ''pause'']
      else if key = ''display_brightness'' then check_brightness device key v
      else if key = ''display_switch_on_duration'' then check_u64_range device key v 5 30
      else if key = ''valve_type'' then check_choice device key v [''normally_closed'', ''normally_open'']
      else if key = ''activity_led'' then check_choice device key v [''off'', ''auto'', ''on'']
      else if key = ''local_temperature_calibration'' then check_f64_range device key v (-5) 5
      else if key = ''child_lock'' then check_choice device key v [''LOCK'', ''UNLOCK'']
      else if key = ''occupied_heating_setpoint'' then check_f64_range device key v 5 30
      else Inr ())"

text \<open>A loop of checks that stops at the first error (the \<open>?\<close> operator).\<close>

primrec check_all :: "('a \<Rightarrow> 'e + unit) \<Rightarrow> 'a list \<Rightarrow> 'e + unit" where
  "check_all f [] = Inr ()"
| "check_all f (x # xs) = (case f x of Inl e \<Rightarrow> Inl e | Inr _ \<Rightarrow> check_all f xs)"

definition validate_trv_options :: "string \<Rightarrow> (string, json) btree_map \<Rightarrow> heating_config_error + unit" where
  "validate_trv_options device options = check_all (\<lambda>(k, v). check_trv_option device k v) options"

definition validate_wall_thermostat_options ::
  "string \<Rightarrow> (string, json) btree_map \<Rightarrow> heating_config_error + unit" where
  "validate_wall_thermostat_options device options =
     check_all (\<lambda>(k, v). check_wall_option device k v) options"

section \<open>Schedules\<close>

text \<open>The checks of one range, in the order of the code.\<close>

definition validate_range ::
  "string \<Rightarrow> weekday \<Rightarrow> nat \<times> day_time_range \<Rightarrow> heating_config_error + unit" where
  "validate_range name day ir =
     (let idx = fst ir; r = snd ir in
      if start_hour r > 23 then Inl (StartHourOutOfRange name day idx (start_hour r))
      else if end_hour r > 24 then Inl (EndHourOutOfRange name day idx (end_hour r))
      else if start_minute r > 59 then Inl (MinuteOutOfRange name day idx (start_minute r))
      else if end_hour r < 24 \<and> end_minute r > 59
        then Inl (MinuteOutOfRange name day idx (end_minute r))
      else if end_hour r = 24 \<and> end_minute r \<noteq> 0
        then Inl (EndMinuteWith24 name day idx (end_minute r))
      else if start_minutes r \<ge> end_minutes r
        then Inl (MidnightCrossing name day idx (start_hour r) (start_minute r) (end_hour r) (end_minute r))
      else if \<not> (5 \<le> temperature r \<and> temperature r \<le> 30)
        then Inl (TemperatureOutOfRange name day idx (temperature r))
      else Inr ())"

text \<open>The sweep over the sorted intervals; \<open>all\<close> is the whole sorted vector, which the overlap
  report searches.\<close>

fun sweep_day ::
  "string \<Rightarrow> weekday \<Rightarrow> (nat \<times> nat \<times> nat) list \<Rightarrow> nat \<Rightarrow> (nat \<times> nat \<times> nat) list
     \<Rightarrow> heating_config_error + nat" where
  "sweep_day name day all covered_until [] = Inr covered_until"
| "sweep_day name day all covered_until ((start, end, idx) # rest) =
     (if start < covered_until then
        (let prev_idx = (case find (\<lambda>(s, e, i). i \<noteq> idx \<and> s < end \<and> e > start) all of
                           None \<Rightarrow> 0 | Some (_, _, i) \<Rightarrow> i)
         in Inl (OverlappingRanges name day prev_idx idx start))
      else if start > covered_until then Inl (GapInCoverage name day covered_until)
      else sweep_day name day all end rest)"

definition day_intervals :: "day_time_range list \<Rightarrow> (nat \<times> nat \<times> nat) list" where
  "day_intervals ranges =
     sort_key fst (map (\<lambda>(i, r). (start_minutes r, end_minutes r, i)) (enumerate 0 ranges))"

definition validate_day_coverage ::
  "string \<Rightarrow> weekday \<Rightarrow> day_time_range list \<Rightarrow> heating_config_error + unit" where
  "validate_day_coverage name day ranges =
     (if ranges = [] then Inl (GapInCoverage name day 0)
      else
        let intervals = day_intervals ranges
        in if fst (intervals ! 0) \<noteq> 0 then Inl (GapInCoverage name day 0)
           else case sweep_day name day intervals 0 intervals of
                  Inl e \<Rightarrow> Inl e
                | Inr covered_until \<Rightarrow>
                    if covered_until \<noteq> 1440 then Inl (GapInCoverage name day covered_until)
                    else Inr ())"

definition validate_day :: "string \<Rightarrow> temperature_schedule \<Rightarrow> weekday \<Rightarrow> heating_config_error + unit" where
  "validate_day name sched day =
     (case bt_get (days sched) day of
        None \<Rightarrow> Inl (MissingWeekday name day)
      | Some ranges \<Rightarrow>
          (case check_all (validate_range name day) (enumerate 0 ranges) of
             Inl e \<Rightarrow> Inl e
           | Inr _ \<Rightarrow> validate_day_coverage name day ranges))"

definition temperature_schedule_validate ::
  "string \<Rightarrow> temperature_schedule \<Rightarrow> heating_config_error + unit" where
  "temperature_schedule_validate name sched = check_all (validate_day name sched) all_weekdays"

definition target_temperature :: "temperature_schedule \<Rightarrow> weekday \<Rightarrow> u8 \<Rightarrow> u8 \<Rightarrow> f64 option" where
  "target_temperature sched day hour minute =
     do { ranges \<leftarrow> bt_get (days sched) day;
          map_option temperature (find (\<lambda>r. range_contains r hour minute) ranges) }"

definition validate_schedules :: "heating_config \<Rightarrow> heating_config_error + unit" where
  "validate_schedules cfg =
     (case check_all (\<lambda>(name, sched). temperature_schedule_validate name sched) (hc_schedules cfg) of
        Inl e \<Rightarrow> Inl e
      | Inr _ \<Rightarrow>
          let hp = hc_heat_pump cfg; ow = hc_open_window cfg in
          if min_cycle_seconds hp = 0 then Inl (ZeroProtectionTimer ''min_cycle_seconds'' 0)
          else if min_pause_seconds hp = 0 then Inl (ZeroProtectionTimer ''min_pause_seconds'' 0)
          else if min_demand_percent hp > 100
            then Inl (InvalidDemandThreshold ''min_demand_percent'' (min_demand_percent hp))
          else if min_demand_percent_fallback hp > 100
            then Inl (InvalidDemandThreshold ''min_demand_percent_fallback''
                        (min_demand_percent_fallback hp))
          else if detection_minutes ow = 0 then Inl (ZeroOpenWindowTimer ''detection_minutes'' 0)
          else if inhibit_minutes ow = 0 then Inl (ZeroOpenWindowTimer ''inhibit_minutes'' 0)
          else Inr ())"

section \<open>The sweep line\<close>

lemma check_all_iff: "check_all f xs = Inr () \<longleftrightarrow> (\<forall>x \<in> set xs. f x = Inr ())"
  by (induction xs) (auto split: sum.splits)

text \<open>The intervals tile \<open>[c, d)\<close>: each starts where the previous one ended.\<close>

fun tiles :: "nat \<Rightarrow> (nat \<times> nat \<times> nat) list \<Rightarrow> nat \<Rightarrow> bool" where
  "tiles c [] d = (c = d)"
| "tiles c ((s, e, i) # rest) d = (s = c \<and> tiles e rest d)"

definition spans :: "nat \<Rightarrow> nat \<times> nat \<times> nat \<Rightarrow> bool" where
  "spans m iv = (fst iv \<le> m \<and> m < fst (snd iv))"

lemma sweep_day_iff: "sweep_day name day all c ivs = Inr d \<longleftrightarrow> tiles c ivs d"
  by (induction name day all c ivs rule: sweep_day.induct) auto

lemma tiles_count:
  assumes "tiles c ivs d" and "\<forall>iv \<in> set ivs. fst iv < fst (snd iv)"
  shows "c \<le> d \<and> (\<forall>m. length (filter (spans m) ivs) = (if c \<le> m \<and> m < d then 1 else 0))"
  using assms
proof (induction c ivs d rule: tiles.induct)
  case (2 c s e i rest d)
  then have "c < e" "e \<le> d" "s = c"
    and IH: "length (filter (spans m) rest) = (if e \<le> m \<and> m < d then 1 else 0)" for m by simp_all
  moreover have "spans m (s, e, i) \<longleftrightarrow> s \<le> m \<and> m < e" for m by (simp add: spans_def)
  ultimately show ?case by (simp add: IH del: length_0_conv)
qed simp

lemma count_tiles:
  assumes "sorted (map fst ivs)" and "\<forall>iv \<in> set ivs. c \<le> fst iv \<and> fst iv < fst (snd iv) \<and> fst (snd iv) \<le> d"
    and "c \<le> d" and "\<forall>m. c \<le> m \<and> m < d \<longrightarrow> length (filter (spans m) ivs) = 1"
  shows "tiles c ivs d"
  using assms
proof (induction ivs arbitrary: c)
  case Nil
  then show ?case by (auto dest: spec [of _ c])
next
  case (Cons iv rest)
  obtain s e i where iv: "iv = (s, e, i)" by (cases iv) auto
  have se: "c \<le> s" "s < e" "e \<le> d" using Cons.prems(2) iv by auto
  have later: "\<forall>v \<in> set rest. s \<le> fst v" using Cons.prems(1) iv by auto
  have "s = c"
  proof (rule ccontr)
    assume "s \<noteq> c"
    then have "\<forall>v \<in> set (iv # rest). \<not> spans c v" using later iv se(1) by (auto simp: spans_def)
    then have "filter (spans c) (iv # rest) = []" by (simp only: filter_empty_conv)
    then show False using Cons.prems(4) [rule_format, of c] \<open>s \<noteq> c\<close> se by simp
  qed
  have after: "e \<le> fst v" if "v \<in> set rest" for v
  proof (rule ccontr)
    assume "\<not> e \<le> fst v"
    moreover from that have "s \<le> fst v" "fst v < fst (snd v)" "fst (snd v) \<le> d"
      using later Cons.prems(2) by auto
    ultimately have "spans (fst v) iv" "v \<in> set (filter (spans (fst v)) rest)"
      using iv that by (auto simp: spans_def)
    then have "length (filter (spans (fst v)) (iv # rest)) \<ge> 2"
      using length_pos_if_in_set [of v "filter (spans (fst v)) rest"] by (simp add: Suc_le_eq)
    then show False
      using Cons.prems(4) [rule_format, of "fst v"] \<open>s \<le> fst v\<close> \<open>fst v < fst (snd v)\<close>
        \<open>fst (snd v) \<le> d\<close> se by simp
  qed
  have "tiles e rest d"
  proof (rule Cons.IH)
    show "\<forall>m. e \<le> m \<and> m < d \<longrightarrow> length (filter (spans m) rest) = 1"
    proof (intro allI impI)
      fix m assume m: "e \<le> m \<and> m < d"
      then have "\<not> spans m iv" by (simp add: iv spans_def)
      with Cons.prems(4) [rule_format, of m] m se show "length (filter (spans m) rest) = 1" by simp
    qed
  qed (use Cons.prems after se in auto)
  with \<open>s = c\<close> iv show ?case by simp
qed

definition range_spans :: "nat \<Rightarrow> day_time_range \<Rightarrow> bool" where
  "range_spans m r = (start_minutes r \<le> m \<and> m < end_minutes r)"

lemma day_intervals_count:
  "length (filter (spans m) (day_intervals ranges)) = length (filter (range_spans m) ranges)"
proof -
  have "length (filter (spans m) (map (\<lambda>(i, r). (start_minutes r, end_minutes r, i)) (enumerate n ranges)))
      = length (filter (range_spans m) ranges)" for n
    by (induction ranges arbitrary: n) (auto simp: spans_def range_spans_def)
  then show ?thesis by (simp add: day_intervals_def filter_sort)
qed

lemma day_intervals_set:
  "iv \<in> set (day_intervals ranges) \<Longrightarrow>
     \<exists>r \<in> set ranges. fst iv = start_minutes r \<and> fst (snd iv) = end_minutes r"
  by (auto simp: day_intervals_def in_set_enumerate_eq)

lemma day_intervals_empty: "day_intervals ranges = [] \<longleftrightarrow> ranges = []"
  unfolding length_0_conv [symmetric] by (simp add: day_intervals_def)

text \<open>The optimised check and its specification: every minute in exactly one range.\<close>

definition day_covered_once :: "day_time_range list \<Rightarrow> bool" where
  "day_covered_once ranges = (\<forall>m < 1440. length (filter (range_spans m) ranges) = 1)"

lemma validate_day_coverage_tiles:
  "validate_day_coverage name day ranges = Inr () \<longleftrightarrow>
     ranges \<noteq> [] \<and> tiles 0 (day_intervals ranges) 1440"
proof (cases "day_intervals ranges")
  case Nil
  then show ?thesis by (simp add: day_intervals_empty validate_day_coverage_def)
next
  case (Cons iv rest)
  then have "ranges \<noteq> []" using day_intervals_empty [of ranges] by simp
  moreover have "tiles 0 (day_intervals ranges) 1440 \<Longrightarrow> fst (day_intervals ranges ! 0) = 0"
    using Cons by (cases iv) simp
  moreover have "(case sweep_day name day all 0 ivs of Inl e \<Rightarrow> Inl e
      | Inr c \<Rightarrow> if c \<noteq> 1440 then Inl (GapInCoverage name day c) else Inr ()) = Inr ()
      \<longleftrightarrow> tiles 0 ivs 1440" for all ivs
    unfolding sweep_day_iff [of name day all 0 ivs, symmetric]
    by (cases "sweep_day name day all 0 ivs") auto
  ultimately show ?thesis unfolding validate_day_coverage_def Let_def by auto
qed

lemma validate_day_coverage_correct:
  assumes "\<forall>r \<in> set ranges. start_minutes r < end_minutes r \<and> end_minutes r \<le> 1440"
  shows "validate_day_coverage name day ranges = Inr () \<longleftrightarrow> day_covered_once ranges"
proof -
  have iv: "\<forall>iv \<in> set (day_intervals ranges). 0 \<le> fst iv \<and> fst iv < fst (snd iv) \<and> fst (snd iv) \<le> 1440"
    using assms day_intervals_set by fastforce
  have srt: "sorted (map fst (day_intervals ranges))" by (simp add: day_intervals_def)
  show ?thesis
  proof
    assume "validate_day_coverage name day ranges = Inr ()"
    then have "tiles 0 (day_intervals ranges) 1440" by (simp add: validate_day_coverage_tiles)
    from tiles_count [OF this] iv show "day_covered_once ranges"
      by (auto simp: day_covered_once_def day_intervals_count)
  next
    assume cov: "day_covered_once ranges"
    then have "ranges \<noteq> []" by (auto simp: day_covered_once_def dest: spec [of _ 0])
    moreover have "tiles 0 (day_intervals ranges) 1440"
      by (rule count_tiles [OF srt iv])
        (use cov in \<open>simp_all add: day_covered_once_def day_intervals_count\<close>)
    ultimately show "validate_day_coverage name day ranges = Inr ()"
      by (simp add: validate_day_coverage_tiles)
  qed
qed

definition range_ok :: "day_time_range \<Rightarrow> bool" where
  "range_ok r =
     (start_hour r \<le> 23 \<and> start_minute r \<le> 59 \<and> end_hour r \<le> 24 \<and>
      (end_hour r < 24 \<longrightarrow> end_minute r \<le> 59) \<and> (end_hour r = 24 \<longrightarrow> end_minute r = 0) \<and>
      start_minutes r < end_minutes r \<and> 5 \<le> temperature r \<and> temperature r \<le> 30)"

lemma validate_range_iff: "validate_range name day (i, r) = Inr () \<longleftrightarrow> range_ok r"
  by (auto simp: validate_range_def range_ok_def Let_def)

lemma range_ok_bounds: "range_ok r \<Longrightarrow> start_minutes r < end_minutes r \<and> end_minutes r \<le> 1440"
  by (cases "end_hour r = 24") (auto simp: range_ok_def end_minutes_def)

lemma validate_ranges_iff:
  "check_all (validate_range name day) (enumerate 0 ranges) = Inr () \<longleftrightarrow> (\<forall>r \<in> set ranges. range_ok r)"
proof -
  have "set ranges = snd ` set (enumerate 0 ranges)" by (metis list.set_map map_snd_enumerate)
  then show ?thesis by (auto simp: check_all_iff validate_range_iff)
qed

definition schedule_ok :: "temperature_schedule \<Rightarrow> bool" where
  "schedule_ok sched =
     (\<forall>day. \<exists>ranges. bt_get (days sched) day = Some ranges \<and>
        (\<forall>r \<in> set ranges. range_ok r) \<and> day_covered_once ranges)"

lemma validate_day_iff:
  "validate_day name sched day = Inr () \<longleftrightarrow>
     (\<exists>ranges. bt_get (days sched) day = Some ranges \<and>
        (\<forall>r \<in> set ranges. range_ok r) \<and> day_covered_once ranges)"
proof (cases "bt_get (days sched) day")
  case (Some ranges)
  show ?thesis
  proof (cases "\<forall>r \<in> set ranges. range_ok r")
    case True
    then have "\<forall>r \<in> set ranges. start_minutes r < end_minutes r \<and> end_minutes r \<le> 1440"
      using range_ok_bounds by blast
    from validate_day_coverage_correct [OF this, of name day] True Some show ?thesis
      using validate_ranges_iff [of name day ranges] by (simp add: validate_day_def)
  next
    case False
    then show ?thesis
      using Some validate_ranges_iff [of name day ranges]
      by (auto simp: validate_day_def split: sum.splits)
  qed
qed (simp add: validate_day_def)

lemma schedule_validate_ok: "temperature_schedule_validate name sched = Inr () \<longleftrightarrow> schedule_ok sched"
  by (auto simp: temperature_schedule_validate_def check_all_iff validate_day_iff schedule_ok_def)

lemma find_in_filter: "find P xs = Some x \<Longrightarrow> x \<in> set xs \<and> P x"
  by (auto simp: find_Some_iff)

lemma target_temperature_ok:
  assumes "schedule_ok sched" and "hour < 24" and "minute < 60"
  shows "\<exists>t. target_temperature sched day hour minute = Some t \<and> 5 \<le> t \<and> t \<le> 30"
proof -
  obtain ranges where r: "bt_get (days sched) day = Some ranges" "\<forall>r \<in> set ranges. range_ok r"
      "day_covered_once ranges"
    using assms(1) by (auto simp: schedule_ok_def)
  have "hour * 60 + minute < 1440" using assms(2,3) by linarith
  then have "length (filter (range_spans (hour * 60 + minute)) ranges) = 1"
    using r(3) by (simp add: day_covered_once_def)
  moreover have "(\<lambda>r. range_contains r hour minute) = range_spans (hour * 60 + minute)"
    by (auto simp: range_contains_def range_spans_def Let_def)
  ultimately obtain x where "find (\<lambda>r. range_contains r hour minute) ranges = Some x"
    by (cases "filter (range_spans (hour * 60 + minute)) ranges") (simp_all add: find_filter)
  moreover from this have "range_ok x" using r(2) find_in_filter by metis
  ultimately show ?thesis using r(1) by (simp add: target_temperature_def range_ok_def)
qed

section \<open>Properties\<close>

text \<open>C36: The sweep-line check of a day (sort by start, demand adjacency) accepts a list of in-range
  intervals exactly when every minute of the day lies in exactly one of them.\<close>

theorem validate_day_coverage_iff:
  assumes "\<forall>r \<in> set ranges. start_minutes r < end_minutes r \<and> end_minutes r \<le> 1440"
  shows "validate_day_coverage name day ranges = Inr () \<longleftrightarrow>
           (\<forall>m < 1440. length (filter (\<lambda>r. start_minutes r \<le> m \<and> m < end_minutes r) ranges) = 1)"
  using validate_day_coverage_correct [OF assms]
  by (simp add: day_covered_once_def range_spans_def [abs_def])

theorem validate_day_coverage_iff_witness:
  "validate_day_coverage ''s'' Monday
     [\<lparr>start_hour = 6, start_minute = 30, end_hour = 24, end_minute = 0, temperature = 21\<rparr>,
      \<lparr>start_hour = 0, start_minute = 0, end_hour = 6, end_minute = 30, temperature = 17\<rparr>] = Inr ()"
  by (subst validate_day_coverage_iff) (auto simp: start_minutes_def end_minutes_def)

text \<open>A schedule that passes validation has a setpoint for every minute of every weekday, and it is
  within 5 to 30 degrees.\<close>

theorem validated_setpoint:
  assumes "temperature_schedule_validate name sched = Inr ()" and "hour < 24" and "minute < 60"
  shows "\<exists>t. target_temperature sched day hour minute = Some t \<and> 5 \<le> t \<and> t \<le> 30"
  using assms by (auto simp: schedule_validate_ok intro: target_temperature_ok)

definition flat_schedule :: "f64 \<Rightarrow> temperature_schedule" where
  "flat_schedule t =
     \<lparr>days = map (\<lambda>d. (d, [\<lparr>start_hour = 0, start_minute = 0, end_hour = 24, end_minute = 0,
                            temperature = t\<rparr>])) all_weekdays\<rparr>"

theorem validated_setpoint_witness:
  "\<exists>t. target_temperature (flat_schedule 21) Friday 13 45 = Some t \<and> 5 \<le> t \<and> t \<le> 30"
  by (rule validated_setpoint [of "''s''"])
    (simp_all add: temperature_schedule_validate_def all_weekdays_def validate_day_def flat_schedule_def
      validate_range_def Let_def start_minutes_def end_minutes_def validate_day_coverage_def
      day_intervals_def)

end
