(* ===== verification/Topology.thy ===== *)
theory Topology
  imports Scenes HeatingConfig
begin

text \<open>
  \<open>src/crates/mqtt-controller/src/topology.rs\<close>, \<open>topology/resolved.rs\<close>, \<open>topology/index.rs\<close> and
  the configuration data they embed (\<open>config/switch_model.rs\<close>, \<open>config/motion.rs\<close>,
  \<open>config/catalog.rs\<close>, \<open>config/defaults.rs\<close>): the validated, index-based view of the house the
  runtime works on, with its accessors, and the well-formedness that building it establishes
  (\<open>topology_ok\<close>: every stored index is in range). The typed indexes \<open>RoomIdx\<close>, \<open>DeviceIdx\<close>,
  \<open>PlugIdx\<close>, \<open>BindingIdx\<close>, \<open>MotionRuleIdx\<close> and \<open>ZoneIdx\<close> are natural numbers; positional access
  out of range panics.
\<close>

section \<open>Switch models\<close>

datatype gesture = Press | Hold | HoldRelease | DoubleTap | SoftDoubleTap

fun gesture_rank :: "gesture \<Rightarrow> nat" where
  "gesture_rank Press = 0"
| "gesture_rank Hold = 1"
| "gesture_rank HoldRelease = 2"
| "gesture_rank DoubleTap = 3"
| "gesture_rank SoftDoubleTap = 4"

lemma gesture_rank_inject: "gesture_rank a = gesture_rank b \<Longrightarrow> a = b"
  by (cases a; cases b) simp_all

instantiation gesture :: linorder
begin

definition less_eq_gesture :: "gesture \<Rightarrow> gesture \<Rightarrow> bool" where
  "less_eq_gesture a b = (gesture_rank a \<le> gesture_rank b)"

definition less_gesture :: "gesture \<Rightarrow> gesture \<Rightarrow> bool" where
  "less_gesture a b = (gesture_rank a < gesture_rank b)"

instance
  by standard (auto simp: less_eq_gesture_def less_gesture_def intro: gesture_rank_inject)

end

record action_mapping =
  am_button :: string
  am_gesture :: gesture

record switch_model =
  sm_buttons :: "string list"
  sm_z2m_action_map :: "(string, action_mapping) btree_map"

definition switch_model_resolve :: "switch_model \<Rightarrow> string \<Rightarrow> action_mapping option" where
  "switch_model_resolve m z2m_action = bt_get (sm_z2m_action_map m) z2m_action"

definition has_hardware_double_tap :: "switch_model \<Rightarrow> bool" where
  "has_hardware_double_tap m =
     list_ex (\<lambda>button.
        list_ex (\<lambda>a. am_button a = button \<and> am_gesture a = Press) (bt_values (sm_z2m_action_map m)) \<and>
        list_ex (\<lambda>a. am_button a = button \<and> am_gesture a = DoubleTap) (bt_values (sm_z2m_action_map m)))
       (sm_buttons m)"

section \<open>Indexes and resolved data\<close>

type_synonym room_idx = nat
type_synonym device_idx = nat
type_synonym plug_idx = nat
type_synonym binding_idx = nat
type_synonym motion_rule_idx = nat
type_synonym zone_idx = nat

datatype light_endpoint = LightEndpoint (le_device: device_idx) (le_endpoint: u8)

instantiation light_endpoint :: linorder
begin

definition less_eq_light_endpoint :: "light_endpoint \<Rightarrow> light_endpoint \<Rightarrow> bool" where
  "less_eq_light_endpoint a b = ((le_device a, le_endpoint a) \<le> (le_device b, le_endpoint b))"

definition less_light_endpoint :: "light_endpoint \<Rightarrow> light_endpoint \<Rightarrow> bool" where
  "less_light_endpoint a b = ((le_device a, le_endpoint a) < (le_device b, le_endpoint b))"

instance
  by standard (auto simp: less_eq_light_endpoint_def less_light_endpoint_def intro: light_endpoint.expand)

end

datatype motion_mode = OnOff | OnOnly | OffOnly

record defaults =
  cycle_window_seconds :: f64
  double_tap_suppression_seconds :: f64
  soft_double_tap_window_seconds :: f64

definition defaults_default :: defaults where
  "defaults_default =
     \<lparr>cycle_window_seconds = 1, double_tap_suppression_seconds = 2,
      soft_double_tap_window_seconds = 4/5\<rparr>"

record motion_binding =
  mb_sensor :: string
  mb_occupancy_timeout_seconds :: u32

record resolved_switch_step =
  st_scene :: scene
  st_lights :: "light_endpoint list"

record resolved_room =
  room_name :: string
  room_group_name :: string
  room_room :: string
  room_id :: u8
  room_members :: "string list"
  room_light_members :: "light_endpoint list"
  room_parent :: "string option"
  room_scenes :: scene_schedule
  room_switch_steps :: "(string, resolved_switch_step list) btree_map"
  room_off_transition_seconds :: f64
  room_bound_motion :: "motion_binding list"

definition has_motion_sensor :: "resolved_room \<Rightarrow> bool" where
  "has_motion_sensor r = (room_bound_motion r \<noteq> [])"

record resolved_motion_target =
  mt_group :: "room_idx option"
  mt_lights :: "light_endpoint list"

record resolved_motion_rule =
  mr_name :: string
  mr_sensors :: "motion_binding list"
  mr_mode :: motion_mode
  mr_scenes :: scene_schedule
  mr_targets_by_slot :: "(string, resolved_motion_target) btree_map"
  mr_off_transition_seconds :: f64
  mr_off_cooldown_seconds :: u32
  mr_max_illuminance :: "u32 option"
  mr_lights :: "light_endpoint list"
  mr_rooms :: "room_idx list"

datatype resolved_trigger =
    Button device_idx string gesture
  | PowerBelow plug_idx f64 duration
  | At time_expr

fun trigger_device :: "resolved_trigger \<Rightarrow> device_idx option" where
  "trigger_device (Button d b g) = Some d"
| "trigger_device (PowerBelow p w h) = Some p"
| "trigger_device (At t) = None"

datatype resolved_effect =
    SceneCycle room_idx
  | GroupSceneCycle room_idx
  | SceneStepDown room_idx
  | SceneToggle room_idx
  | SceneToggleCycle room_idx
  | TurnOffRoom room_idx
  | BrightnessStep room_idx i16 f64
  | BrightnessMove room_idx i16
  | BrightnessStop room_idx
  | Toggle plug_idx "f64 option"
  | TurnOn plug_idx
  | TurnOff plug_idx
  | TurnOffAllZones

fun effect_room :: "resolved_effect \<Rightarrow> room_idx option" where
  "effect_room (SceneCycle r) = Some r"
| "effect_room (GroupSceneCycle r) = Some r"
| "effect_room (SceneStepDown r) = Some r"
| "effect_room (SceneToggle r) = Some r"
| "effect_room (SceneToggleCycle r) = Some r"
| "effect_room (TurnOffRoom r) = Some r"
| "effect_room (BrightnessStep r s t) = Some r"
| "effect_room (BrightnessMove r s) = Some r"
| "effect_room (BrightnessStop r) = Some r"
| "effect_room _ = None"

fun effect_target_plug :: "resolved_effect \<Rightarrow> plug_idx option" where
  "effect_target_plug (Toggle p c) = Some p"
| "effect_target_plug (TurnOn p) = Some p"
| "effect_target_plug (TurnOff p) = Some p"
| "effect_target_plug _ = None"

fun effect_confirm_off_seconds :: "resolved_effect \<Rightarrow> f64 option" where
  "effect_confirm_off_seconds (Toggle p c) = c"
| "effect_confirm_off_seconds _ = None"

record resolved_binding =
  rb_name :: string
  rb_trigger :: resolved_trigger
  rb_effect :: resolved_effect

datatype device_kind = KLight | KSwitch | KMotionSensor | KPlug | KTrv | KWallThermostat | KPowerMeter

datatype plug_protocol = Zigbee | Zwave

record device_info =
  di_name :: string
  di_kind :: device_kind
  di_display_name :: "string option"
  di_room :: "string option"
  di_exclude_from_totals :: bool
  di_power_metered :: bool
  di_plug_protocol :: "plug_protocol option"
  di_switch_model :: "string option"
  di_trv_variant :: "string option"

definition TRV_VARIANT_BOSCH_BTH_RA :: string where
  "TRV_VARIANT_BOSCH_BTH_RA = ''bosch-bth-ra''"

definition TRV_VARIANT_SONOFF_TRVZB :: string where
  "TRV_VARIANT_SONOFF_TRVZB = ''sonoff-trvzb''"

record topology =
  t_rooms :: "resolved_room list"
  t_room_by_name :: "(string, room_idx) btree_map"
  t_room_by_group_name :: "(string, room_idx) btree_map"
  t_descendants_by_room :: "room_idx list list"
  t_room_has_bindings :: "bool list"
  t_devices :: "device_info list"
  t_device_by_name :: "(string, device_idx) btree_map"
  t_switch_devices :: "device_idx list"
  t_motion_sensor_devices :: "device_idx list"
  t_plug_devices :: "device_idx list"
  t_zigbee_plug_devices :: "device_idx list"
  t_zwave_plug_devices :: "device_idx list"
  t_trv_devices :: "device_idx list"
  t_wall_thermostat_devices :: "device_idx list"
  t_zwave_node_id_to_device :: "(u16, device_idx) btree_map"
  t_switch_models :: "(string, switch_model) btree_map"
  t_soft_double_tap_buttons :: "(device_idx \<times> string) btree_set"
  t_hw_double_tap_buttons :: "(device_idx \<times> string) btree_set"
  t_bindings :: "resolved_binding list"
  t_button_binding_index :: "(device_idx \<times> string \<times> gesture, binding_idx list) btree_map"
  t_power_below_index :: "(device_idx, binding_idx list) btree_map"
  t_motion_index :: "(device_idx, room_idx list) btree_map"
  t_motion_rules :: "resolved_motion_rule list"
  t_motion_rule_index :: "(device_idx, motion_rule_idx list) btree_map"
  t_heating_config :: "heating_config option"

section \<open>Accessors\<close>

definition rooms_with_idx :: "topology \<Rightarrow> (room_idx \<times> resolved_room) list" where
  "rooms_with_idx t = enumerate 0 (t_rooms t)"

definition room :: "topology \<Rightarrow> room_idx \<Rightarrow> resolved_room option" where
  "room t i = index (t_rooms t) i"

definition room_idx_of :: "topology \<Rightarrow> string \<Rightarrow> room_idx option" where
  "room_idx_of t name = bt_get (t_room_by_name t) name"

definition room_idx_by_group :: "topology \<Rightarrow> string \<Rightarrow> room_idx option" where
  "room_idx_by_group t g = bt_get (t_room_by_group_name t) g"

definition motion_rule :: "topology \<Rightarrow> motion_rule_idx \<Rightarrow> resolved_motion_rule option" where
  "motion_rule t i = index (t_motion_rules t) i"

definition device_idx_of :: "topology \<Rightarrow> string \<Rightarrow> device_idx option" where
  "device_idx_of t name = bt_get (t_device_by_name t) name"

definition motion_rules_for_sensor :: "topology \<Rightarrow> string \<Rightarrow> motion_rule_idx list" where
  "motion_rules_for_sensor t sensor =
     (case device_idx_of t sensor of None \<Rightarrow> []
      | Some i \<Rightarrow> (case bt_get (t_motion_rule_index t) i of None \<Rightarrow> [] | Some v \<Rightarrow> v))"

definition light_rooms :: "topology \<Rightarrow> device_idx \<Rightarrow> room_idx list" where
  "light_rooms t d =
     map fst (filter (\<lambda>(i, r). list_ex (\<lambda>l. le_device l = d) (room_light_members r)) (rooms_with_idx t))"

definition rooms_for_motion_idx :: "topology \<Rightarrow> device_idx \<Rightarrow> room_idx list" where
  "rooms_for_motion_idx t i = (case bt_get (t_motion_index t) i of None \<Rightarrow> [] | Some v \<Rightarrow> v)"

definition rooms_for_motion :: "topology \<Rightarrow> string \<Rightarrow> room_idx list" where
  "rooms_for_motion t sensor =
     (case bt_get (t_device_by_name t) sensor of None \<Rightarrow> [] | Some i \<Rightarrow> rooms_for_motion_idx t i)"

definition descendants_of :: "topology \<Rightarrow> room_idx \<Rightarrow> room_idx list" where
  "descendants_of t i =
     (if i < length (t_descendants_by_room t) then t_descendants_by_room t ! i else [])"

definition room_has_rules :: "topology \<Rightarrow> room_idx \<Rightarrow> bool option" where
  "room_has_rules t i =
     do { r \<leftarrow> index (t_rooms t) i;
          if room_bound_motion r \<noteq> [] then Some True else index (t_room_has_bindings t) i }"

definition device_name :: "topology \<Rightarrow> device_idx \<Rightarrow> string option" where
  "device_name t i = map_option di_name (index (t_devices t) i)"

definition device_kind_of :: "topology \<Rightarrow> device_idx \<Rightarrow> device_kind option" where
  "device_kind_of t i = map_option di_kind (index (t_devices t) i)"

definition is_plug_idx :: "topology \<Rightarrow> device_idx \<Rightarrow> bool option" where
  "is_plug_idx t i = map_option (\<lambda>k. k = KPlug) (device_kind_of t i)"

definition plug_idx_of :: "topology \<Rightarrow> device_idx \<Rightarrow> plug_idx option option" where
  "plug_idx_of t i = map_option (\<lambda>b. if b then Some i else None) (is_plug_idx t i)"

definition plug_idx_by_name :: "topology \<Rightarrow> string \<Rightarrow> plug_idx option option" where
  "plug_idx_by_name t name =
     (case device_idx_of t name of None \<Rightarrow> Some None | Some d \<Rightarrow> plug_idx_of t d)"

definition binding :: "topology \<Rightarrow> binding_idx \<Rightarrow> resolved_binding option" where
  "binding t i = index (t_bindings t) i"

definition bindings_for_button :: "topology \<Rightarrow> device_idx \<Rightarrow> string \<Rightarrow> gesture \<Rightarrow> binding_idx list" where
  "bindings_for_button t d b g =
     (case bt_get (t_button_binding_index t) (d, b, g) of None \<Rightarrow> [] | Some v \<Rightarrow> v)"

definition bindings_for_power_below :: "topology \<Rightarrow> device_idx \<Rightarrow> binding_idx list" where
  "bindings_for_power_below t d =
     (case bt_get (t_power_below_index t) d of None \<Rightarrow> [] | Some v \<Rightarrow> v)"

definition is_soft_double_tap_button :: "topology \<Rightarrow> device_idx \<Rightarrow> string \<Rightarrow> bool" where
  "is_soft_double_tap_button t d b = bs_contains (t_soft_double_tap_buttons t) (d, b)"

definition is_hw_double_tap_button :: "topology \<Rightarrow> device_idx \<Rightarrow> string \<Rightarrow> bool" where
  "is_hw_double_tap_button t d b = bs_contains (t_hw_double_tap_buttons t) (d, b)"

text \<open>The outer option is the panic of \<open>devices[..]\<close>, the inner one the function's own result.\<close>

definition resolve_button_event ::
  "topology \<Rightarrow> string \<Rightarrow> string \<Rightarrow> (device_idx \<times> string \<times> gesture) option option" where
  "resolve_button_event t device z2m_action =
     (case device_idx_of t device of
        None \<Rightarrow> Some None
      | Some d \<Rightarrow>
          do { info \<leftarrow> index (t_devices t) d;
               Some (do { model_name \<leftarrow> di_switch_model info;
                          model \<leftarrow> bt_get (t_switch_models t) model_name;
                          mapping \<leftarrow> switch_model_resolve model z2m_action;
                          Some (d, am_button mapping, am_gesture mapping) }) })"

definition is_zwave_plug_idx :: "topology \<Rightarrow> device_idx \<Rightarrow> bool option" where
  "is_zwave_plug_idx t i = map_option (\<lambda>d. di_plug_protocol d = Some Zwave) (index (t_devices t) i)"

text \<open>\<open>is_plug\<close>, \<open>is_trv\<close>, \<open>is_light\<close>, \<open>is_wall_thermostat\<close>: the kind of a device given by name.\<close>

definition is_kind :: "topology \<Rightarrow> device_kind \<Rightarrow> string \<Rightarrow> bool option" where
  "is_kind t k name =
     (case device_idx_of t name of None \<Rightarrow> Some False
      | Some i \<Rightarrow> map_option (\<lambda>k'. k' = k) (device_kind_of t i))"

definition trv_variant :: "topology \<Rightarrow> string \<Rightarrow> string option option" where
  "trv_variant t name =
     (case device_idx_of t name of None \<Rightarrow> Some None
      | Some i \<Rightarrow> map_option di_trv_variant (index (t_devices t) i))"

definition heating_config_of :: "topology \<Rightarrow> heating_config option" where
  "heating_config_of t = t_heating_config t"

section \<open>Well-formedness\<close>

text \<open>What building a topology guarantees about the indexes it hands out.\<close>

definition endpoint_ok :: "topology \<Rightarrow> light_endpoint \<Rightarrow> bool" where
  "endpoint_ok t l = (le_device l < length (t_devices t))"

definition motion_target_ok :: "topology \<Rightarrow> resolved_motion_target \<Rightarrow> bool" where
  "motion_target_ok t mt =
     ((\<forall>g. mt_group mt = Some g \<longrightarrow> g < length (t_rooms t)) \<and> list_all (endpoint_ok t) (mt_lights mt))"

definition motion_rule_ok :: "topology \<Rightarrow> resolved_motion_rule \<Rightarrow> bool" where
  "motion_rule_ok t r =
     (list_all (endpoint_ok t) (mr_lights r) \<and> list_all (\<lambda>i. i < length (t_rooms t)) (mr_rooms r) \<and>
      bt_all (\<lambda>_. motion_target_ok t) (mr_targets_by_slot r))"

definition room_ok :: "topology \<Rightarrow> resolved_room \<Rightarrow> bool" where
  "room_ok t r =
     (list_all (endpoint_ok t) (room_light_members r) \<and>
      length (room_light_members r) = length (room_members r) \<and>
      bt_all (\<lambda>_ steps. steps \<noteq> [] \<and> list_all (\<lambda>s. list_all (endpoint_ok t) (st_lights s)) steps) (room_switch_steps r))"

definition binding_ok :: "topology \<Rightarrow> resolved_binding \<Rightarrow> bool" where
  "binding_ok t b =
     ((\<forall>d. trigger_device (rb_trigger b) = Some d \<longrightarrow> d < length (t_devices t)) \<and>
      (\<forall>r. effect_room (rb_effect b) = Some r \<longrightarrow> r < length (t_rooms t)) \<and>
      (\<forall>p. effect_target_plug (rb_effect b) = Some p \<longrightarrow> p < length (t_devices t)) \<and>
      (\<forall>c. effect_confirm_off_seconds (rb_effect b) = Some c \<longrightarrow> 0 \<le> c \<and> c < 2 ^ 64))"

text \<open>Rooms and motion rules are identified by name.\<close>

definition names_ok :: "topology \<Rightarrow> bool" where
  "names_ok t =
     (bt_all (\<lambda>n i. room_name (t_rooms t ! i) = n) (t_room_by_name t) \<and>
      distinct (map room_name (t_rooms t)) \<and> distinct (map mr_name (t_motion_rules t)))"

definition topology_ok :: "topology \<Rightarrow> bool" where
  "topology_ok t =
     (names_ok t \<and> list_all (room_ok t) (t_rooms t) \<and>
      bt_all (\<lambda>_ i. i < length (t_rooms t)) (t_room_by_name t) \<and>
      bt_all (\<lambda>_ i. i < length (t_rooms t)) (t_room_by_group_name t) \<and>
      list_all (list_all (\<lambda>i. i < length (t_rooms t))) (t_descendants_by_room t) \<and>
      length (t_room_has_bindings t) = length (t_rooms t) \<and>
      bt_all (\<lambda>_ i. i < length (t_devices t)) (t_device_by_name t) \<and>
      list_all (binding_ok t) (t_bindings t) \<and>
      bt_all (\<lambda>_. list_all (\<lambda>i. i < length (t_bindings t))) (t_button_binding_index t) \<and>
      bt_all (\<lambda>_. list_all (\<lambda>i. i < length (t_bindings t))) (t_power_below_index t) \<and>
      bt_all (\<lambda>_. list_all (\<lambda>i. i < length (t_rooms t))) (t_motion_index t) \<and>
      list_all (motion_rule_ok t) (t_motion_rules t) \<and>
      bt_all (\<lambda>_. list_all (\<lambda>i. i < length (t_motion_rules t))) (t_motion_rule_index t))"

lemma wp_room [simp]: "wp (room t i) Q \<longleftrightarrow> i < length (t_rooms t) \<and> Q (t_rooms t ! i)"
  by (simp add: room_def)

lemma wp_motion_rule [simp]:
  "wp (motion_rule t i) Q \<longleftrightarrow> i < length (t_motion_rules t) \<and> Q (t_motion_rules t ! i)"
  by (simp add: motion_rule_def)

lemma wp_binding [simp]: "wp (binding t i) Q \<longleftrightarrow> i < length (t_bindings t) \<and> Q (t_bindings t ! i)"
  by (simp add: binding_def)

lemma wp_device_name [simp]:
  "wp (device_name t i) Q \<longleftrightarrow> i < length (t_devices t) \<and> Q (di_name (t_devices t ! i))"
  by (simp add: device_name_def index_def)

lemma topology_ok_room: "topology_ok t \<Longrightarrow> i < length (t_rooms t) \<Longrightarrow> room_ok t (t_rooms t ! i)"
  by (simp add: topology_ok_def list_all_length)

lemma topology_ok_binding:
  "topology_ok t \<Longrightarrow> i < length (t_bindings t) \<Longrightarrow> binding_ok t (t_bindings t ! i)"
  by (simp add: topology_ok_def list_all_length)

lemma topology_ok_motion_rule:
  "topology_ok t \<Longrightarrow> i < length (t_motion_rules t) \<Longrightarrow> motion_rule_ok t (t_motion_rules t ! i)"
  by (simp add: topology_ok_def list_all_length)

lemma room_idx_of_bound: "topology_ok t \<Longrightarrow> room_idx_of t n = Some i \<Longrightarrow> i < length (t_rooms t)"
  unfolding topology_ok_def room_idx_of_def by (blast dest: bt_all_get)

lemma room_idx_of_name: "topology_ok t \<Longrightarrow> room_idx_of t n = Some i \<Longrightarrow> room_name (t_rooms t ! i) = n"
  unfolding topology_ok_def names_ok_def room_idx_of_def by (blast dest: bt_all_get)

lemma room_name_unique:
  "topology_ok t \<Longrightarrow> r \<in> set (t_rooms t) \<Longrightarrow> r' \<in> set (t_rooms t) \<Longrightarrow> room_name r = room_name r' \<Longrightarrow> r = r'"
  by (auto simp: topology_ok_def names_ok_def distinct_map inj_on_def)

lemma motion_rule_name_unique:
  "topology_ok t \<Longrightarrow> r \<in> set (t_motion_rules t) \<Longrightarrow> r' \<in> set (t_motion_rules t) \<Longrightarrow> mr_name r = mr_name r' \<Longrightarrow> r = r'"
  by (auto simp: topology_ok_def names_ok_def distinct_map inj_on_def)

lemma room_idx_by_group_bound:
  "topology_ok t \<Longrightarrow> room_idx_by_group t n = Some i \<Longrightarrow> i < length (t_rooms t)"
  unfolding topology_ok_def room_idx_by_group_def by (blast dest: bt_all_get)

lemma device_idx_of_bound:
  "topology_ok t \<Longrightarrow> device_idx_of t n = Some i \<Longrightarrow> i < length (t_devices t)"
  unfolding topology_ok_def device_idx_of_def by (blast dest: bt_all_get)

lemma descendants_bound:
  "topology_ok t \<Longrightarrow> j \<in> set (descendants_of t i) \<Longrightarrow> j < length (t_rooms t)"
  by (auto simp: topology_ok_def descendants_of_def list_all_iff split: if_splits)

lemma motion_rules_for_sensor_bound:
  assumes "topology_ok t" and "i \<in> set (motion_rules_for_sensor t s)"
  shows "i < length (t_motion_rules t)"
proof -
  obtain d v where "bt_get (t_motion_rule_index t) d = Some v" "i \<in> set v"
    using assms(2) by (auto simp: motion_rules_for_sensor_def split: option.splits dest: sym)
  then show ?thesis using assms(1) unfolding topology_ok_def list_all_iff by (blast dest: bt_all_get)
qed

lemma bindings_for_button_bound:
  assumes "topology_ok t" and "i \<in> set (bindings_for_button t d b g)"
  shows "i < length (t_bindings t)"
proof -
  obtain v where "bt_get (t_button_binding_index t) (d, b, g) = Some v" "i \<in> set v"
    using assms(2) by (auto simp: bindings_for_button_def split: option.splits dest: sym)
  then show ?thesis using assms(1) unfolding topology_ok_def list_all_iff by (blast dest: bt_all_get)
qed

lemma bindings_for_power_below_bound:
  assumes "topology_ok t" and "i \<in> set (bindings_for_power_below t d)"
  shows "i < length (t_bindings t)"
proof -
  obtain v where "bt_get (t_power_below_index t) d = Some v" "i \<in> set v"
    using assms(2) by (auto simp: bindings_for_power_below_def split: option.splits dest: sym)
  then show ?thesis using assms(1) unfolding topology_ok_def list_all_iff by (blast dest: bt_all_get)
qed

lemma light_rooms_bound: "j \<in> set (light_rooms t d) \<Longrightarrow> j < length (t_rooms t)"
  by (auto simp: light_rooms_def rooms_with_idx_def in_set_enumerate_eq)

end
