(* ===== verification/Entities.thy ===== *)
theory Entities
  imports Tass Topology
begin

text \<open>
  \<open>src/crates/mqtt-controller/src/entities/\<close>: one record per TASS entity with its queries and
  updates, and \<open>WorldState\<close>, the collection of all of them plus the transient event-processing
  state. The get-or-create accessors of the world are interpretations of \<open>entity_store\<close>: what
  a handler does to one entity leaves every other entity alone. \<open>world_ok\<close> is the invariant of
  the whole collection.
\<close>

section \<open>Lights\<close>

datatype light_target = LTOff | LTOn "u8 option" "u16 option"

record light_actual =
  la_on :: bool
  la_brightness :: "u8 option"
  la_color_temp :: "u16 option"
  la_color_xy :: "(f64 \<times> f64) option"

fun light_target_matches :: "light_target \<Rightarrow> light_actual \<Rightarrow> bool" where
  "light_target_matches LTOff a = (\<not> la_on a)"
| "light_target_matches (LTOn b c) a =
     (la_on a \<and> (b = None \<or> la_brightness a = b) \<and> (c = None \<or> la_color_temp a = c))"

record light_entity =
  light_target :: "light_target tass_target"
  light_actual :: "light_actual tass_actual"

definition light_default :: light_entity where
  "light_default = \<lparr>light_target = target_new, light_actual = actual_new\<rparr>"

fun is_LTOn :: "light_target \<Rightarrow> bool" where
  "is_LTOn LTOff = False"
| "is_LTOn (LTOn b c) = True"

definition light_is_on :: "light_entity \<Rightarrow> bool" where
  "light_is_on l =
     ((case act_value (light_actual l) of None \<Rightarrow> False | Some a \<Rightarrow> la_on a) \<or>
      (case tgt_value (light_target l) of None \<Rightarrow> False | Some v \<Rightarrow> is_LTOn v))"

section \<open>Light zones\<close>

datatype light_zone_target = LZOff | LZOn (lz_scene_id: u8) (lz_cycle_idx: nat)

datatype light_zone_actual = ZoneOn | ZoneOff

record switch_cycle =
  cyc_slot :: string
  cyc_step :: nat

record light_zone_entity =
  lz_target :: "light_zone_target tass_target"
  lz_actual :: "light_zone_actual tass_actual"
  lz_switch_cycle :: "switch_cycle option"
  lz_last_press_at :: "instant option"
  lz_last_off_at :: "instant option"
  lz_last_motion_off_at :: "instant option"

definition light_zone_default :: light_zone_entity where
  "light_zone_default =
     \<lparr>lz_target = target_new, lz_actual = actual_new, lz_switch_cycle = None,
      lz_last_press_at = None, lz_last_off_at = None, lz_last_motion_off_at = None\<rparr>"

definition target_is_on :: "light_zone_entity \<Rightarrow> bool" where
  "target_is_on z = (case tgt_value (lz_target z) of Some (LZOn s c) \<Rightarrow> True | _ \<Rightarrow> False)"

definition actual_is_on :: "light_zone_entity \<Rightarrow> bool" where
  "actual_is_on z = (act_value (lz_actual z) = Some ZoneOn)"

definition zone_is_on :: "light_zone_entity \<Rightarrow> bool" where
  "zone_is_on z = (target_is_on z \<or> actual_is_on z)"

definition zone_cycle_idx :: "light_zone_entity \<Rightarrow> nat" where
  "zone_cycle_idx z = (case tgt_value (lz_target z) of Some (LZOn s c) \<Rightarrow> c | _ \<Rightarrow> 0)"

definition is_motion_owned :: "light_zone_entity \<Rightarrow> bool" where
  "is_motion_owned z = (tgt_owner (lz_target z) = Some Motion)"

section \<open>Plugs\<close>

datatype plug_target = PlugOn | PlugOff

record plug_actual =
  pa_on :: bool

datatype kill_switch_rule_state = Inactive | Armed | KsIdle instant | Suppressed

record plug_entity =
  plug_target :: "plug_target tass_target"
  plug_actual :: "plug_actual tass_actual"
  plug_power :: "f64 tass_actual"
  kill_switch_rules :: "(string, kill_switch_rule_state) btree_map"

definition plug_default :: plug_entity where
  "plug_default =
     \<lparr>plug_target = target_new, plug_actual = actual_new, plug_power = actual_new,
      kill_switch_rules = []\<rparr>"

definition plug_observe :: "bool option \<Rightarrow> f64 option \<Rightarrow> instant \<Rightarrow> plug_entity \<Rightarrow> plug_entity" where
  "plug_observe on watts ts p =
     (let p1 = (case on of None \<Rightarrow> p
                | Some o' \<Rightarrow> p\<lparr>plug_actual := actual_update \<lparr>pa_on = o'\<rparr> ts (plug_actual p)\<rparr>)
      in case watts of None \<Rightarrow> p1
         | Some w \<Rightarrow> p1\<lparr>plug_power := actual_update (max w 0) ts (plug_power p1)\<rparr>)"

definition plug_is_on :: "plug_entity \<Rightarrow> bool" where
  "plug_is_on p =
     (tgt_value (plug_target p) = Some PlugOn \<or>
      (case act_value (plug_actual p) of None \<Rightarrow> False | Some a \<Rightarrow> pa_on a))"

definition plug_power_reading :: "plug_entity \<Rightarrow> f64 option" where
  "plug_power_reading p = act_value (plug_power p)"

fun clear_rule_state :: "kill_switch_rule_state \<Rightarrow> kill_switch_rule_state" where
  "clear_rule_state Suppressed = Suppressed"
| "clear_rule_state _ = Inactive"

definition on_off_clear_kill_switches :: "plug_entity \<Rightarrow> plug_entity" where
  "on_off_clear_kill_switches p =
     p\<lparr>kill_switch_rules := bt_map_values clear_rule_state (kill_switch_rules p)\<rparr>"

definition suppress_all_kill_switches :: "plug_entity \<Rightarrow> plug_entity" where
  "suppress_all_kill_switches p =
     p\<lparr>kill_switch_rules := bt_map_values (\<lambda>_. Suppressed) (kill_switch_rules p)\<rparr>"

section \<open>Power meters and motion\<close>

record power_meter_entity =
  pm_power :: "f64 tass_actual"
  pm_energy :: "f64 tass_actual"

definition power_meter_default :: power_meter_entity where
  "power_meter_default = \<lparr>pm_power = actual_new, pm_energy = actual_new\<rparr>"

record motion_actual =
  ma_occupied :: bool
  ma_illuminance :: "u32 option"

record motion_event =
  me_occupied :: bool
  me_timestamp_epoch_ms :: u64

record motion_sensor_entity =
  ms_actual :: "motion_actual tass_actual"
  ms_last_event :: "motion_event option"

definition motion_sensor_default :: motion_sensor_entity where
  "motion_sensor_default = \<lparr>ms_actual = actual_new, ms_last_event = None\<rparr>"

definition is_occupied :: "motion_sensor_entity \<Rightarrow> bool" where
  "is_occupied s =
     (act_freshness (ms_actual s) = Fresh \<and>
      (case act_value (ms_actual s) of None \<Rightarrow> False | Some a \<Rightarrow> ma_occupied a))"

definition sensor_illuminance :: "motion_sensor_entity \<Rightarrow> u32 option" where
  "sensor_illuminance s = Option.bind (act_value (ms_actual s)) ma_illuminance"

record motion_session =
  mse_slot :: string
  mse_target :: resolved_motion_target
  mse_claimed :: "device_idx btree_set"

record motion_rule_state =
  mrs_session :: "motion_session option"
  mrs_last_motion_off_at :: "instant option"

definition motion_rule_default :: motion_rule_state where
  "motion_rule_default = \<lparr>mrs_session = None, mrs_last_motion_off_at = None\<rparr>"

section \<open>Heating zones\<close>

datatype heating_zone_target = Heating | HeatOff

record heating_zone_actual =
  hza_relay_on :: bool
  hza_temperature :: "f64 option"

definition WT_STALE_THRESHOLD :: duration where
  "WT_STALE_THRESHOLD = from_secs (10 * 60)"

record heating_zone_entity =
  hz_target :: "heating_zone_target tass_target"
  hz_actual :: "heating_zone_actual tass_actual"
  hz_relay_on_since :: "instant option"
  hz_wt_operating_mode :: "string option"
  hz_wt_last_seen :: "instant option"
  hz_wt_last_stale_probe :: "instant option"
  hz_relay_state_known :: bool
  hz_desired_relay_gen :: tick_gen

definition heating_zone_default :: heating_zone_entity where
  "heating_zone_default =
     \<lparr>hz_target = target_new, hz_actual = actual_new, hz_relay_on_since = None,
      hz_wt_operating_mode = None, hz_wt_last_seen = None, hz_wt_last_stale_probe = None,
      hz_relay_state_known = False, hz_desired_relay_gen = 0\<rparr>"

definition is_relay_on :: "heating_zone_entity \<Rightarrow> bool" where
  "is_relay_on z = (case act_value (hz_actual z) of None \<Rightarrow> False | Some a \<Rightarrow> hza_relay_on a)"

definition is_wt_stale :: "instant \<Rightarrow> heating_zone_entity \<Rightarrow> bool" where
  "is_wt_stale now z =
     (case hz_wt_last_seen z of None \<Rightarrow> False
      | Some seen \<Rightarrow> duration_since now seen \<ge> WT_STALE_THRESHOLD)"

section \<open>Thermostatic radiator valves\<close>

datatype heating_running_state = HrsIdle | HrsHeat

definition running_state_parse :: "string \<Rightarrow> heating_running_state option" where
  "running_state_parse s =
     (if s = ''idle'' then Some HrsIdle else if s = ''heat'' then Some HrsHeat else None)"

datatype force_open_reason = PressureGroup | MinCycle

datatype trv_target = Setpoint f64 | Inhibited instant | ForcedOpen force_open_reason

record trv_actual =
  ta_local_temperature :: "f64 option"
  ta_pi_heating_demand :: "u8 option"
  ta_running_state :: heating_running_state
  ta_running_state_seen :: bool
  ta_setpoint :: "f64 option"
  ta_operating_mode :: "string option"
  ta_system_mode :: "string option"
  ta_battery :: "u8 option"

definition trv_actual_default :: trv_actual where
  "trv_actual_default =
     \<lparr>ta_local_temperature = None, ta_pi_heating_demand = None, ta_running_state = HrsIdle,
      ta_running_state_seen = False, ta_setpoint = None, ta_operating_mode = None,
      ta_system_mode = None, ta_battery = None\<rparr>"

record open_window_state =
  ow_temp_at_relay_on :: "f64 option"
  ow_temp_high_water :: "f64 option"
  ow_checked :: bool
  ow_baseline_established_at :: "instant option"

definition open_window_default :: open_window_state where
  "open_window_default =
     \<lparr>ow_temp_at_relay_on = None, ow_temp_high_water = None, ow_checked = False,
      ow_baseline_established_at = None\<rparr>"

definition open_window_reset :: "open_window_state \<Rightarrow> open_window_state" where
  "open_window_reset w = open_window_default"

definition start_detection :: "instant \<Rightarrow> f64 option \<Rightarrow> open_window_state \<Rightarrow> open_window_state" where
  "start_detection now baseline_temp w =
     w\<lparr>ow_temp_at_relay_on := baseline_temp, ow_temp_high_water := baseline_temp,
       ow_baseline_established_at := Some now, ow_checked := False\<rparr>"

definition STALE_THRESHOLD :: duration where
  "STALE_THRESHOLD = from_secs (30 * 60)"

record trv_entity =
  trv_target :: "trv_target tass_target"
  trv_actual :: "trv_actual tass_actual"
  trv_open_window :: open_window_state
  trv_last_seen :: "instant option"
  trv_last_temp_at :: "instant option"
  trv_setpoint_dirty_gen :: tick_gen
  trv_last_force_reason :: "force_open_reason option"

definition trv_default :: trv_entity where
  "trv_default =
     \<lparr>trv_target = target_new, trv_actual = actual_new, trv_open_window = open_window_default,
      trv_last_seen = None, trv_last_temp_at = None, trv_setpoint_dirty_gen = 0,
      trv_last_force_reason = None\<rparr>"

definition is_stale :: "instant \<Rightarrow> trv_entity \<Rightarrow> bool" where
  "is_stale now t =
     (case trv_last_seen t of None \<Rightarrow> False | Some seen \<Rightarrow> duration_since now seen \<ge> STALE_THRESHOLD)"

definition has_fresh_temp :: "instant \<Rightarrow> trv_entity \<Rightarrow> bool" where
  "has_fresh_temp now t =
     (case trv_last_temp_at t of None \<Rightarrow> False | Some s \<Rightarrow> duration_since now s < STALE_THRESHOLD)"

definition is_inhibited :: "instant \<Rightarrow> trv_entity \<Rightarrow> bool" where
  "is_inhibited now t =
     (case tgt_value (trv_target t) of Some (Inhibited until) \<Rightarrow> now < until | _ \<Rightarrow> False)"

definition is_forced_open :: "trv_entity \<Rightarrow> bool" where
  "is_forced_open t = (case tgt_value (trv_target t) of Some (ForcedOpen r) \<Rightarrow> True | _ \<Rightarrow> False)"

definition is_setpoint_confirmed :: "trv_entity \<Rightarrow> bool" where
  "is_setpoint_confirmed t = (tgt_phase (trv_target t) = Confirmed)"

definition needs_setpoint_retry :: "trv_entity \<Rightarrow> bool" where
  "needs_setpoint_retry t = (tgt_phase (trv_target t) = Commanded)"

definition target_setpoint :: "trv_entity \<Rightarrow> f64 option" where
  "target_setpoint t = (case tgt_value (trv_target t) of Some (Setpoint x) \<Rightarrow> Some x | _ \<Rightarrow> None)"

definition has_raw_demand :: "u8 \<Rightarrow> u8 \<Rightarrow> trv_entity \<Rightarrow> bool" where
  "has_raw_demand min_demand min_demand_fallback t =
     (case act_value (trv_actual t) of
        None \<Rightarrow> False
      | Some a \<Rightarrow>
          if ta_running_state_seen a then
            (if ta_running_state a \<noteq> HrsHeat then False
             else case ta_pi_heating_demand a of Some d \<Rightarrow> d \<ge> min_demand | None \<Rightarrow> True)
          else (case ta_pi_heating_demand a of Some d \<Rightarrow> d | None \<Rightarrow> 0) \<ge> min_demand_fallback)"

definition has_effective_demand :: "instant \<Rightarrow> u8 \<Rightarrow> u8 \<Rightarrow> trv_entity \<Rightarrow> bool" where
  "has_effective_demand now min_demand min_demand_fallback t =
     (if is_inhibited now t then False
      else if is_forced_open t then False
      else if needs_setpoint_retry t then False
      else if is_stale now t then False
      else has_raw_demand min_demand min_demand_fallback t)"

section \<open>The world\<close>

record pending_press =
  pp_device :: string
  pp_button :: string
  pp_ts :: instant
  pp_deadline :: instant
  pp_already_fired :: bool

record world_state =
  w_light_zones :: "(string, light_zone_entity) btree_map"
  w_lights :: "(string, light_entity) btree_map"
  w_plugs :: "(string, plug_entity) btree_map"
  w_power_meters :: "(string, power_meter_entity) btree_map"
  w_motion_sensors :: "(string, motion_sensor_entity) btree_map"
  w_motion_rules :: "(string, motion_rule_state) btree_map"
  w_heating_zones :: "(string, heating_zone_entity) btree_map"
  w_trvs :: "(string, trv_entity) btree_map"
  w_pending_presses :: "(string \<times> string, pending_press) btree_map"
  w_last_double_tap :: "(string \<times> string, instant) btree_map"
  w_at_last_fired :: "(string, u8 \<times> u8) btree_map"
  w_confirm_off_pending :: "(string, instant) btree_map"

definition world_new :: world_state where
  "world_new =
     \<lparr>w_light_zones = [], w_lights = [], w_plugs = [], w_power_meters = [], w_motion_sensors = [],
      w_motion_rules = [], w_heating_zones = [], w_trvs = [], w_pending_presses = [],
      w_last_double_tap = [], w_at_last_fired = [], w_confirm_off_pending = []\<rparr>"

text \<open>
  The get-or-create accessors \<open>light_zone\<close>, \<open>light\<close>, \<open>plug\<close>, \<open>motion_sensor\<close>, \<open>heating_zone\<close> and
  \<open>trv\<close>: the read half, and the write half through the returned \<open>&mut\<close> reference, which also
  creates the entry.
\<close>

definition light_zone :: "world_state \<Rightarrow> string \<Rightarrow> light_zone_entity" where
  "light_zone w name = bt_get_or light_zone_default (w_light_zones w) name"

definition put_light_zone :: "string \<Rightarrow> light_zone_entity \<Rightarrow> world_state \<Rightarrow> world_state" where
  "put_light_zone name z w = w\<lparr>w_light_zones := bt_insert name z (w_light_zones w)\<rparr>"

definition light :: "world_state \<Rightarrow> string \<Rightarrow> light_entity" where
  "light w name = bt_get_or light_default (w_lights w) name"

definition put_light :: "string \<Rightarrow> light_entity \<Rightarrow> world_state \<Rightarrow> world_state" where
  "put_light name l w = w\<lparr>w_lights := bt_insert name l (w_lights w)\<rparr>"

definition plug :: "world_state \<Rightarrow> string \<Rightarrow> plug_entity" where
  "plug w name = bt_get_or plug_default (w_plugs w) name"

definition put_plug :: "string \<Rightarrow> plug_entity \<Rightarrow> world_state \<Rightarrow> world_state" where
  "put_plug name p w = w\<lparr>w_plugs := bt_insert name p (w_plugs w)\<rparr>"

definition motion_sensor :: "world_state \<Rightarrow> string \<Rightarrow> motion_sensor_entity" where
  "motion_sensor w name = bt_get_or motion_sensor_default (w_motion_sensors w) name"

definition put_motion_sensor :: "string \<Rightarrow> motion_sensor_entity \<Rightarrow> world_state \<Rightarrow> world_state" where
  "put_motion_sensor name s w = w\<lparr>w_motion_sensors := bt_insert name s (w_motion_sensors w)\<rparr>"

definition heating_zone :: "world_state \<Rightarrow> string \<Rightarrow> heating_zone_entity" where
  "heating_zone w name = bt_get_or heating_zone_default (w_heating_zones w) name"

definition put_heating_zone :: "string \<Rightarrow> heating_zone_entity \<Rightarrow> world_state \<Rightarrow> world_state" where
  "put_heating_zone name z w = w\<lparr>w_heating_zones := bt_insert name z (w_heating_zones w)\<rparr>"

definition trv :: "world_state \<Rightarrow> string \<Rightarrow> trv_entity" where
  "trv w name = bt_get_or trv_default (w_trvs w) name"

definition put_trv :: "string \<Rightarrow> trv_entity \<Rightarrow> world_state \<Rightarrow> world_state" where
  "put_trv name t w = w\<lparr>w_trvs := bt_insert name t (w_trvs w)\<rparr>"

text \<open>\<open>motion_rules.entry(name).or_default()\<close>.\<close>

definition motion_rule_of :: "world_state \<Rightarrow> string \<Rightarrow> motion_rule_state" where
  "motion_rule_of w name = bt_get_or motion_rule_default (w_motion_rules w) name"

definition put_motion_rule :: "string \<Rightarrow> motion_rule_state \<Rightarrow> world_state \<Rightarrow> world_state" where
  "put_motion_rule name r w = w\<lparr>w_motion_rules := bt_insert name r (w_motion_rules w)\<rparr>"

definition next_press_deadline :: "world_state \<Rightarrow> instant option" where
  "next_press_deadline w = iter_min (map pp_deadline (bt_values (w_pending_presses w)))"

section \<open>The accessors isolate entities\<close>

lemma bt_get_or_insert [simp]:
  "bt_get_or d (bt_insert k v m) k' = (if k' = k then v else bt_get_or d m k')"
  by (simp add: bt_get_or_def)

interpretation zones: entity_store light_zone put_light_zone
  by unfold_locales (simp add: light_zone_def put_light_zone_def)

interpretation lights: entity_store light put_light
  by unfold_locales (simp add: light_def put_light_def)

interpretation plugs: entity_store plug put_plug
  by unfold_locales (simp add: plug_def put_plug_def)

interpretation sensors: entity_store motion_sensor put_motion_sensor
  by unfold_locales (simp add: motion_sensor_def put_motion_sensor_def)

interpretation hzones: entity_store heating_zone put_heating_zone
  by unfold_locales (simp add: heating_zone_def put_heating_zone_def)

interpretation trvs: entity_store trv put_trv
  by unfold_locales (simp add: trv_def put_trv_def)

interpretation motion_rules: entity_store motion_rule_of put_motion_rule
  by unfold_locales (simp add: motion_rule_of_def put_motion_rule_def)

lemmas world_fetch_store [simp] =
  zones.fetch_store lights.fetch_store plugs.fetch_store sensors.fetch_store
  hzones.fetch_store trvs.fetch_store motion_rules.fetch_store

section \<open>The world invariant\<close>

definition light_zone_ok :: "light_zone_entity \<Rightarrow> bool" where
  "light_zone_ok z = (target_ok (lz_target z) \<and> actual_ok (lz_actual z) \<and> tgt_phase (lz_target z) \<noteq> Pending)"

definition light_ok :: "light_entity \<Rightarrow> bool" where
  "light_ok l = (target_ok (light_target l) \<and> actual_ok (light_actual l) \<and>
     tgt_phase (light_target l) \<noteq> Pending)"

definition plug_ok :: "plug_entity \<Rightarrow> bool" where
  "plug_ok p =
     (target_ok (plug_target p) \<and> actual_ok (plug_actual p) \<and> actual_ok (plug_power p) \<and>
      tgt_phase (plug_target p) \<noteq> Pending \<and>
      (\<forall>w. act_value (plug_power p) = Some w \<longrightarrow> 0 \<le> w))"

definition motion_sensor_ok :: "motion_sensor_entity \<Rightarrow> bool" where
  "motion_sensor_ok s = actual_ok (ms_actual s)"

definition heating_zone_ok :: "heating_zone_entity \<Rightarrow> bool" where
  "heating_zone_ok z =
     (target_ok (hz_target z) \<and> actual_ok (hz_actual z) \<and> tgt_phase (hz_target z) \<noteq> Pending)"

definition trv_ok :: "trv_entity \<Rightarrow> bool" where
  "trv_ok t =
     (target_ok (trv_target t) \<and> actual_ok (trv_actual t) \<and> tgt_phase (trv_target t) \<noteq> Pending)"

definition world_ok :: "world_state \<Rightarrow> bool" where
  "world_ok w =
     (bt_all (\<lambda>_. light_zone_ok) (w_light_zones w) \<and> bt_all (\<lambda>_. light_ok) (w_lights w) \<and>
      bt_all (\<lambda>_. plug_ok) (w_plugs w) \<and> bt_all (\<lambda>_. motion_sensor_ok) (w_motion_sensors w) \<and>
      bt_all (\<lambda>_. heating_zone_ok) (w_heating_zones w) \<and> bt_all (\<lambda>_. trv_ok) (w_trvs w) \<and>
      bt_ok (w_heating_zones w))"

lemma entity_defaults_ok [simp]:
  "light_zone_ok light_zone_default" "light_ok light_default" "plug_ok plug_default"
  "motion_sensor_ok motion_sensor_default" "heating_zone_ok heating_zone_default" "trv_ok trv_default"
  by (simp_all add: light_zone_ok_def light_zone_default_def light_ok_def light_default_def
      plug_ok_def plug_default_def motion_sensor_ok_def motion_sensor_default_def heating_zone_ok_def
      heating_zone_default_def trv_ok_def trv_default_def)

lemma world_ok_new [simp]: "world_ok world_new"
  by (simp add: world_ok_def world_new_def)

lemma bt_get_or_ok: "bt_all (\<lambda>_. P) m \<Longrightarrow> P d \<Longrightarrow> P (bt_get_or d m k)"
  by (auto simp: bt_get_or_def split: option.splits dest: bt_all_get)

lemma world_ok_fetch:
  assumes "world_ok w"
  shows "light_zone_ok (light_zone w n)" and "light_ok (light w n)" and "plug_ok (plug w n)"
    and "motion_sensor_ok (motion_sensor w n)" and "heating_zone_ok (heating_zone w n)"
    and "trv_ok (trv w n)"
  using assms
  by (simp_all add: world_ok_def light_zone_def light_def plug_def motion_sensor_def
      heating_zone_def trv_def bt_get_or_ok)

lemma world_ok_store [simp]:
  "world_ok w \<Longrightarrow> light_zone_ok z \<Longrightarrow> world_ok (put_light_zone n z w)"
  "world_ok w \<Longrightarrow> light_ok l \<Longrightarrow> world_ok (put_light n l w)"
  "world_ok w \<Longrightarrow> plug_ok p \<Longrightarrow> world_ok (put_plug n p w)"
  "world_ok w \<Longrightarrow> motion_sensor_ok s \<Longrightarrow> world_ok (put_motion_sensor n s w)"
  "world_ok w \<Longrightarrow> heating_zone_ok h \<Longrightarrow> world_ok (put_heating_zone n h w)"
  "world_ok w \<Longrightarrow> trv_ok t \<Longrightarrow> world_ok (put_trv n t w)"
  "world_ok w \<Longrightarrow> world_ok (put_motion_rule n r w)"
  by (simp_all add: world_ok_def put_light_zone_def put_light_def put_plug_def put_motion_sensor_def
      put_heating_zone_def put_trv_def put_motion_rule_def bt_all_insert)

lemma plug_observe_ok: "plug_ok p \<Longrightarrow> plug_ok (plug_observe on watts ts p)"
  by (auto simp: plug_observe_def plug_ok_def Let_def split: option.splits)

lemma kill_switch_resets_ok [simp]:
  "plug_ok (on_off_clear_kill_switches p) = plug_ok p"
  "plug_ok (suppress_all_kill_switches p) = plug_ok p"
  by (simp_all add: plug_ok_def on_off_clear_kill_switches_def suppress_all_kill_switches_def)

end
