(* ===== verification/Domain.thy ===== *)
theory Domain
  imports Entities
begin

text \<open>
  \<open>src/crates/mqtt-controller/src/domain/\<close>: the events that enter the controller, the payloads
  and effects that leave it, and \<open>mqtt/topics.rs\<close>, the topics effects are published to.
\<close>

section \<open>Events\<close>

datatype event =
    ButtonPress (ev_device: string) (ev_button: string) (ev_gesture: gesture) (ev_ts: instant)
  | Occupancy string bool "u32 option" "u64 option" instant
  | GroupState string bool instant
  | LightState string bool "u8 option" "u16 option" "(f64 \<times> f64) option" instant
  | PlugState string bool "f64 option" instant
  | PlugPowerUpdate string f64 instant
  | PowerMeterState string "f64 option" "f64 option" instant
  | TrvState string "f64 option" "u8 option" "string option" "f64 option" "string option"
      "string option" "u8 option" instant
  | WallThermostatState string "bool option" "f64 option" "string option" instant
  | Tick instant

section \<open>Payloads\<close>

datatype payload =
    PSceneRecall u8
  | PLightOn string "u8 option" "u16 option" f64
  | PStateOff string f64
  | PBrightnessStep i16 f64
  | PBrightnessMove i16
  | PDeviceStateSet string
  | PTrvSetpoint f64
  | POperatingMode string
  | PSystemMode string
  | PWindowDetection string
  | PGetState string
  | PRawString string

definition light_on :: "scene \<Rightarrow> payload" where
  "light_on s = PLightOn ''ON'' (scene_brightness s) (scene_color_temp s) (scene_transition s)"

definition scene_recall :: "u8 \<Rightarrow> payload" where
  "scene_recall i = PSceneRecall i"

definition state_off :: "f64 \<Rightarrow> payload" where
  "state_off transition = PStateOff ''OFF'' transition"

definition brightness_step :: "i16 \<Rightarrow> f64 \<Rightarrow> payload" where
  "brightness_step step transition = PBrightnessStep step transition"

definition brightness_move :: "i16 \<Rightarrow> payload" where
  "brightness_move rate = PBrightnessMove rate"

definition device_on :: payload where
  "device_on = PDeviceStateSet ''ON''"

definition device_off :: payload where
  "device_off = PDeviceStateSet ''OFF''"

definition trv_setpoint :: "f64 \<Rightarrow> payload" where
  "trv_setpoint temp = PTrvSetpoint temp"

definition window_detection_on :: payload where
  "window_detection_on = PWindowDetection ''ON''"

definition window_detection_off :: payload where
  "window_detection_off = PWindowDetection ''OFF''"

text \<open>The JSON shapes the derived \<open>Serialize\<close> produces (untagged, absent options skipped).\<close>

definition json_opt :: "string \<Rightarrow> ('a \<Rightarrow> json) \<Rightarrow> 'a option \<Rightarrow> (string \<times> json) list" where
  "json_opt k f v = (case v of None \<Rightarrow> [] | Some x \<Rightarrow> [(k, f x)])"

fun payload_json :: "payload \<Rightarrow> json" where
  "payload_json (PSceneRecall i) = JObject [(''scene_recall'', JInt (int i))]"
| "payload_json (PLightOn s b c t) =
     JObject ([(''state'', JString s)] @ json_opt ''brightness'' (\<lambda>x. JInt (int x)) b @
       json_opt ''color_temp'' (\<lambda>x. JInt (int x)) c @ [(''transition'', JFloat t)])"
| "payload_json (PStateOff s t) = JObject [(''state'', JString s), (''transition'', JFloat t)]"
| "payload_json (PBrightnessStep s t) =
     JObject [(''brightness_step'', JInt s), (''transition'', JFloat t)]"
| "payload_json (PBrightnessMove r) = JObject [(''brightness_move'', JInt r)]"
| "payload_json (PDeviceStateSet s) = JObject [(''state'', JString s)]"
| "payload_json (PTrvSetpoint t) = JObject [(''occupied_heating_setpoint'', JFloat t)]"
| "payload_json (POperatingMode m) = JObject [(''operating_mode'', JString m)]"
| "payload_json (PSystemMode m) = JObject [(''system_mode'', JString m)]"
| "payload_json (PWindowDetection m) = JObject [(''window_detection'', JString m)]"
| "payload_json (PGetState s) = JObject [(''state'', JString s)]"
| "payload_json (PRawString s) = JString s"

section \<open>Effects\<close>

datatype eff =
    PublishGroupSet room_idx payload
  | PublishDeviceSet device_idx payload
  | PublishLightSet light_endpoint payload
  | PublishDeviceGet device_idx
  | PublishHaDiscoveryZone zone_idx
  | PublishHaDiscoveryTrv device_idx
  | PublishHaStateZone zone_idx string
  | PublishHaStateTrv device_idx string
  | PublishRaw string string bool

fun eff_payload :: "eff \<Rightarrow> payload option" where
  "eff_payload (PublishGroupSet r p) = Some p"
| "eff_payload (PublishDeviceSet d p) = Some p"
| "eff_payload (PublishLightSet l p) = Some p"
| "eff_payload _ = None"

fun eff_target_device :: "eff \<Rightarrow> device_idx option" where
  "eff_target_device (PublishLightSet l p) = Some (le_device l)"
| "eff_target_device (PublishDeviceSet d p) = Some d"
| "eff_target_device (PublishDeviceGet d) = Some d"
| "eff_target_device (PublishHaDiscoveryTrv d) = Some d"
| "eff_target_device (PublishHaStateTrv d s) = Some d"
| "eff_target_device _ = None"

fun eff_target_room :: "eff \<Rightarrow> room_idx option" where
  "eff_target_room (PublishGroupSet r p) = Some r"
| "eff_target_room _ = None"

section \<open>Topics\<close>

definition device_action_topic :: "string \<Rightarrow> string" where
  "device_action_topic n = ''zigbee2mqtt/'' @ n @ ''/action''"

definition state_topic :: "string \<Rightarrow> string" where
  "state_topic n = ''zigbee2mqtt/'' @ n"

definition set_topic :: "string \<Rightarrow> string" where
  "set_topic n = ''zigbee2mqtt/'' @ n @ ''/set''"

definition get_topic :: "string \<Rightarrow> string" where
  "get_topic n = ''zigbee2mqtt/'' @ n @ ''/get''"

definition zwave_switch_state_topic :: "string \<Rightarrow> string" where
  "zwave_switch_state_topic n = ''zwave/'' @ n @ ''/switch_binary/endpoint_0/currentValue''"

definition POWER_W :: u32 where
  "POWER_W = 66049"

definition zwave_meter_power_topic :: "string \<Rightarrow> string" where
  "zwave_meter_power_topic n = ''zwave/'' @ n @ ''/meter/endpoint_0/value/'' @ show_nat POWER_W"

definition zwave_switch_set_topic :: "string \<Rightarrow> string" where
  "zwave_switch_set_topic n = ''zwave/'' @ n @ ''/switch_binary/endpoint_0/targetValue/set''"

definition sanitize_name :: "string \<Rightarrow> string" where
  "sanitize_name n = map (\<lambda>c. if c = CHR ''-'' then CHR ''_'' else c) n"

definition unique_id :: "string \<Rightarrow> string \<Rightarrow> string" where
  "unique_id entity_type n = ''mqtt_ctrl_'' @ entity_type @ ''_'' @ sanitize_name n @ ''_state''"

definition ha_state_topic :: "string \<Rightarrow> string \<Rightarrow> string" where
  "ha_state_topic entity_type n = ''mqtt-controller/heating/'' @ entity_type @ ''/'' @ n @ ''/state''"

definition discovery_topic :: "string \<Rightarrow> string \<Rightarrow> string" where
  "discovery_topic entity_type n = ''homeassistant/sensor/'' @ unique_id entity_type n @ ''/config''"

definition zone_name_of :: "topology \<Rightarrow> zone_idx \<Rightarrow> string option" where
  "zone_name_of t z =
     (case heating_config_of t of None \<Rightarrow> Some []
      | Some cfg \<Rightarrow> map_option zone_name (index (hc_zones cfg) z))"

fun eff_topic :: "topology \<Rightarrow> eff \<Rightarrow> string option" where
  "eff_topic t (PublishLightSet l p) =
     do { n \<leftarrow> device_name t (le_device l); Some (set_topic (n @ ''/'' @ show_nat (le_endpoint l))) }"
| "eff_topic t (PublishGroupSet r p) = do { ro \<leftarrow> room t r; Some (set_topic (room_group_name ro)) }"
| "eff_topic t (PublishDeviceSet d p) =
     do { z \<leftarrow> is_zwave_plug_idx t d;
          n \<leftarrow> device_name t d;
          Some (if z then zwave_switch_set_topic n else set_topic n) }"
| "eff_topic t (PublishDeviceGet d) = do { n \<leftarrow> device_name t d; Some (get_topic n) }"
| "eff_topic t (PublishHaDiscoveryZone z) =
     do { n \<leftarrow> zone_name_of t z; Some (discovery_topic ''zone'' n) }"
| "eff_topic t (PublishHaDiscoveryTrv d) =
     do { n \<leftarrow> device_name t d; Some (discovery_topic ''trv'' n) }"
| "eff_topic t (PublishHaStateZone z s) = do { n \<leftarrow> zone_name_of t z; Some (ha_state_topic ''zone'' n) }"
| "eff_topic t (PublishHaStateTrv d s) = do { n \<leftarrow> device_name t d; Some (ha_state_topic ''trv'' n) }"
| "eff_topic t (PublishRaw topic p r) = Some topic"

end
