(* ===== verification/Processor.thy ===== *)
theory Processor
  imports Domain
begin

text \<open>
  The state of \<open>EventProcessor\<close> (\<open>src/crates/mqtt-controller/src/logic/mod.rs\<close>), the user settings
  it carries (\<open>settings.rs\<close>, \<open>settings/*.rs\<close>), the clock (\<open>time.rs\<close>), the sun times (\<open>sun.rs\<close>) and
  the effective configuration: deployed values with dashboard overrides applied
  (\<open>logic/automation_overrides.rs\<close>).

  The \<open>Clock\<close> trait object is the snapshot of readings one handler call observes. The \<open>sunrise\<close>
  crate is a parameter: the record \<open>sunrise_crate\<close> of the two functions the code calls.
\<close>

section \<open>Clock and sun\<close>

record clock =
  ck_now :: instant
  ck_local_hour :: u8
  ck_local_minute :: u8
  ck_local_weekday :: weekday
  ck_epoch_millis :: u64
  ck_date :: int
  ck_utc_offset_hours :: f64

record location =
  loc_latitude :: f64
  loc_longitude :: f64

text \<open>\<open>Coordinates::new(..).is_some()\<close>, and \<open>SolarDay::event_time\<close> as UTC hour and minute.\<close>

record sunrise_crate =
  sc_coordinates_valid :: "f64 \<Rightarrow> f64 \<Rightarrow> bool"
  sc_event_time :: "f64 \<Rightarrow> f64 \<Rightarrow> int \<Rightarrow> sun_event \<Rightarrow> (nat \<times> nat) option"

text \<open>\<open>f64::round\<close>: half away from zero.\<close>

definition round_half_away :: "rat \<Rightarrow> int" where
  "round_half_away x = (if 0 \<le> x then \<lfloor>x + 1/2\<rfloor> else - \<lfloor>1/2 - x\<rfloor>)"

definition to_local_minutes :: "f64 \<Rightarrow> nat \<times> nat \<Rightarrow> u16" where
  "to_local_minutes utc_offset_hours hm =
     (let total_utc_min = of_nat (fst hm) * 60 + of_nat (snd hm);
          local_min = total_utc_min + utc_offset_hours * 60
      in nat (round_half_away local_min mod 1440))"

definition compute_sun_times :: "sunrise_crate \<Rightarrow> location \<Rightarrow> int \<Rightarrow> f64 \<Rightarrow> sun_times option" where
  "compute_sun_times sc loc date offset =
     do { assert_that (sc_coordinates_valid sc (loc_latitude loc) (loc_longitude loc));
          rise \<leftarrow> sc_event_time sc (loc_latitude loc) (loc_longitude loc) date Sunrise;
          set' \<leftarrow> sc_event_time sc (loc_latitude loc) (loc_longitude loc) date Sunset;
          Some \<lparr>sunrise_minute_of_day = to_local_minutes offset rise,
                sunset_minute_of_day = to_local_minutes offset set'\<rparr> }"

lemma to_local_minutes_lt: "to_local_minutes offset hm < 1440"
  by (simp add: to_local_minutes_def Let_def nat_less_iff)

section \<open>Settings\<close>

record valve_boost =
  vb_temperature :: f64
  vb_ends_at_epoch_ms :: u64

record switch_step =
  ss_scene_id :: u8
  ss_lights :: "string list"

record room_schedule_override =
  rso_slots :: slots
  rso_switch_steps :: "(string, switch_step list) btree_map"

record kill_switch_override =
  kso_threshold_watts :: f64
  kso_holdoff_secs :: u64

datatype plug_action = PaOn | PaOff | PaToggle

record plug_timed_action =
  pta_time :: time_expr
  pta_action :: plug_action

record plug_schedule_override =
  pso_timed_actions :: "plug_timed_action list"
  pso_kill_switch :: "kill_switch_override option"

record control_settings =
  disabled_zones :: "string btree_set"
  disabled_heat_demand :: "string btree_set"
  boosts :: "(string, valve_boost) btree_map"
  schedule_overrides :: "(string, temperature_schedule) btree_map"
  room_schedule_overrides :: "(string, room_schedule_override) btree_map"
  motion_schedule_overrides :: "(string, slots) btree_map"
  timed_action_overrides :: "(string, time_expr) btree_map"
  plug_schedule_overrides :: "(string, plug_schedule_override) btree_map"

definition settings_default :: control_settings where
  "settings_default =
     \<lparr>disabled_zones = [], disabled_heat_demand = [], boosts = [], schedule_overrides = [],
      room_schedule_overrides = [], motion_schedule_overrides = [], timed_action_overrides = [],
      plug_schedule_overrides = []\<rparr>"

section \<open>The processor\<close>

type_synonym resolved_switch_steps = "(string, resolved_switch_step list) btree_map"

record processor =
  p_settings :: control_settings
  p_resolved_switch_steps :: "(string, resolved_switch_steps) btree_map"
  p_resolved_plug_bindings :: "(string, resolved_binding list) btree_map"
  p_boost_deadlines :: "(string, instant) btree_map"
  p_world :: world_state
  p_topology :: topology
  p_clock :: clock
  p_defaults :: defaults
  p_location :: "location option"
  p_heating_config :: "heating_config option"
  p_pump_on_since :: "instant option"
  p_pump_off_since :: "instant option"
  p_heating_tick_gen :: tick_gen
  p_startup_complete :: bool
  p_last_wt_refresh :: "instant option"
  p_ha_last_published :: "(string, string) btree_map"
  p_ha_discovery_published :: bool
  p_cached_sun :: "(int \<times> int \<times> sun_times) option"
  p_sunrise :: sunrise_crate

definition processor_new ::
  "topology \<Rightarrow> clock \<Rightarrow> defaults \<Rightarrow> location option \<Rightarrow> sunrise_crate \<Rightarrow> processor" where
  "processor_new t c d loc sc =
     \<lparr>p_settings = settings_default, p_resolved_switch_steps = [], p_resolved_plug_bindings = [],
      p_boost_deadlines = [], p_world = world_new, p_topology = t, p_clock = c, p_defaults = d,
      p_location = loc, p_heating_config = heating_config_of t, p_pump_on_since = None,
      p_pump_off_since = None, p_heating_tick_gen = 0, p_startup_complete = False,
      p_last_wt_refresh = None, p_ha_last_published = [], p_ha_discovery_published = False,
      p_cached_sun = None, p_sunrise = sc\<rparr>"

text \<open>Handlers return their effects and the new state; \<^const>\<open>None\<close> is a panic.\<close>

type_synonym handler = "processor \<Rightarrow> (eff list \<times> processor) option"

definition upd_world :: "(world_state \<Rightarrow> world_state) \<Rightarrow> processor \<Rightarrow> processor" where
  "upd_world f p = p\<lparr>p_world := f (p_world p)\<rparr>"

lemma upd_world_simps [simp]:
  "p_world (upd_world f p) = f (p_world p)"
  "p_settings (upd_world f p) = p_settings p"
  "p_resolved_switch_steps (upd_world f p) = p_resolved_switch_steps p"
  "p_resolved_plug_bindings (upd_world f p) = p_resolved_plug_bindings p"
  "p_boost_deadlines (upd_world f p) = p_boost_deadlines p"
  "p_topology (upd_world f p) = p_topology p"
  "p_clock (upd_world f p) = p_clock p"
  "p_defaults (upd_world f p) = p_defaults p"
  "p_location (upd_world f p) = p_location p"
  "p_heating_config (upd_world f p) = p_heating_config p"
  "p_pump_on_since (upd_world f p) = p_pump_on_since p"
  "p_pump_off_since (upd_world f p) = p_pump_off_since p"
  "p_heating_tick_gen (upd_world f p) = p_heating_tick_gen p"
  "p_startup_complete (upd_world f p) = p_startup_complete p"
  "p_last_wt_refresh (upd_world f p) = p_last_wt_refresh p"
  "p_ha_last_published (upd_world f p) = p_ha_last_published p"
  "p_ha_discovery_published (upd_world f p) = p_ha_discovery_published p"
  "p_cached_sun (upd_world f p) = p_cached_sun p"
  "p_sunrise (upd_world f p) = p_sunrise p"
  by (simp_all add: upd_world_def)

text \<open>A loop over items that collects effects.\<close>

primrec for_each :: "('a \<Rightarrow> handler) \<Rightarrow> 'a list \<Rightarrow> handler" where
  "for_each f [] p = Some ([], p)"
| "for_each f (x # xs) p =
     do { (e1, p1) \<leftarrow> f x p; (e2, p2) \<leftarrow> for_each f xs p1; Some (e1 @ e2, p2) }"

definition seq :: "handler \<Rightarrow> handler \<Rightarrow> handler" where
  "seq f g p = do { (e1, p1) \<leftarrow> f p; (e2, p2) \<leftarrow> g p1; Some (e1 @ e2, p2) }"

lemma wp_for_each:
  assumes "I p" and "\<And>x p. x \<in> set xs \<Longrightarrow> I p \<Longrightarrow> wp (f x p) (\<lambda>(e, p'). list_all E e \<and> I p')"
  shows "wp (for_each f xs p) (\<lambda>(e, p'). list_all E e \<and> I p')"
  using assms
proof (induction xs arbitrary: p)
  case (Cons x xs)
  obtain e1 p1 where 1: "f x p = Some (e1, p1)" "list_all E e1" "I p1"
    using Cons.prems(2) [of x p] Cons.prems(1) by (auto simp: wp_iff)
  obtain e2 p2 where 2: "for_each f xs p1 = Some (e2, p2)" "list_all E e2" "I p2"
    using Cons.IH [OF 1(3)] Cons.prems(2) by (auto simp: wp_iff)
  show ?case using 1 2 by simp
qed simp

lemma wp_seq:
  assumes "wp (f p) (\<lambda>(e, p'). list_all E e \<and> J p')"
    and "\<And>p'. J p' \<Longrightarrow> wp (g p') (\<lambda>(e, p''). list_all E e \<and> I p'')"
  shows "wp (seq f g p) (\<lambda>(e, p'). list_all E e \<and> I p')"
  using assms by (fastforce simp: seq_def wp_iff)

section \<open>Loops\<close>

lemma for_each_invariant:
  assumes "for_each f xs p = Some (e, p')" and "I p"
    and "\<And>x q e q'. x \<in> set xs \<Longrightarrow> I q \<Longrightarrow> f x q = Some (e, q') \<Longrightarrow> I q'"
  shows "I p'"
  using assms
proof (induction xs arbitrary: p e)
  case (Cons x xs)
  then obtain e1 p1 e2 where "f x p = Some (e1, p1)" "for_each f xs p1 = Some (e2, p')"
    by (auto split: Option.bind_splits)
  then show ?case using Cons by (metis list.set_intros)
qed simp

lemma foldM_invariant:
  assumes "foldM f xs p = Some p'" and "I p"
    and "\<And>x q q'. x \<in> set xs \<Longrightarrow> I q \<Longrightarrow> f x q = Some q' \<Longrightarrow> I q'"
  shows "I p'"
  using assms
proof (induction xs arbitrary: p)
  case (Cons x xs)
  then obtain p1 where "f x p = Some p1" "foldM f xs p1 = Some p'"
    by (auto split: Option.bind_splits)
  then show ?case using Cons by (metis list.set_intros)
qed simp

lemma for_each_effects:
  assumes "for_each f xs p = Some (e, p')" and "\<And>x q e q'. x \<in> set xs \<Longrightarrow> f x q = Some (e, q') \<Longrightarrow> set e \<subseteq> E"
  shows "set e \<subseteq> E"
  using assms
proof (induction xs arbitrary: p e)
  case (Cons x xs)
  then obtain e1 p1 e2 where *: "f x p = Some (e1, p1)" "for_each f xs p1 = Some (e2, p')" "e = e1 @ e2"
    by (auto split: Option.bind_splits prod.splits)
  then show ?case using Cons.IH [OF *(2)] Cons.prems(2) by fastforce
qed simp

lemma for_each_idle: "(\<And>x. x \<in> set xs \<Longrightarrow> f x p = Some ([], p)) \<Longrightarrow> for_each f xs p = Some ([], p)"
  by (induction xs) simp_all

lemma seq_Some:
  "seq f g p = Some (e, p') \<longleftrightarrow> (\<exists>e1 p1 e2. f p = Some (e1, p1) \<and> g p1 = Some (e2, p') \<and> e = e1 @ e2)"
  by (auto simp: seq_def split: Option.bind_splits prod.splits)

lemma mapM_in: "mapM f xs = Some ys \<Longrightarrow> y \<in> set ys \<Longrightarrow> \<exists>x \<in> set xs. f x = Some y"
  by (induction xs arbitrary: ys) (auto split: Option.bind_splits)

lemma mapM_out: "mapM f xs = Some ys \<Longrightarrow> x \<in> set xs \<Longrightarrow> \<exists>y \<in> set ys. f x = Some y"
  by (induction xs arbitrary: ys) (auto split: Option.bind_splits)

lemma for_each_establish:
  assumes "for_each f xs p = Some (e, p')" and "I p"
    and "\<And>x q e q'. x \<in> set xs \<Longrightarrow> I q \<Longrightarrow> f x q = Some (e, q') \<Longrightarrow> I q' \<and> P x q' \<and> (\<forall>y. P y q \<longrightarrow> P y q')"
  shows "I p' \<and> (\<forall>x \<in> set xs. P x p')"
  using assms
proof (induction xs arbitrary: p e)
  case (Cons x xs)
  obtain e1 p1 e2 where s: "f x p = Some (e1, p1)" "for_each f xs p1 = Some (e2, p')"
    using Cons.prems(1) by (auto split: Option.bind_splits)
  have 1: "I p1 \<and> P x p1" using Cons.prems s(1) by auto
  have "I p' \<and> P x p'"
    using s(2)
  proof (rule for_each_invariant)
    fix y q e q' assume "y \<in> set xs" "I q \<and> P x q" "f y q = Some (e, q')"
    then show "I q' \<and> P x q'" using Cons.prems(3) [of y q e q'] by auto
  qed (use 1 in simp)
  moreover have "I p' \<and> (\<forall>x \<in> set xs. P x p')"
  proof (rule Cons.IH [OF s(2)])
    show "I p1" using 1 by simp
    fix y q e q' assume "y \<in> set xs" "I q" "f y q = Some (e, q')"
    then show "I q' \<and> P y q' \<and> (\<forall>y. P y q \<longrightarrow> P y q')" using Cons.prems(3) [of y q e q'] by simp
  qed
  ultimately show ?case by simp
qed simp

section \<open>Sun times and effective configuration\<close>

definition sun_times_of :: "processor \<Rightarrow> (sun_times option \<times> processor) option" where
  "sun_times_of p =
     (case p_location p of
        None \<Rightarrow> Some (None, p)
      | Some loc \<Rightarrow>
          let date = ck_date (p_clock p); off = ck_utc_offset_hours (p_clock p);
              offset_secs = (if 0 \<le> off then \<lfloor>off * 3600\<rfloor> else \<lceil>off * 3600\<rceil>);
              needs_refresh = (case p_cached_sun p of None \<Rightarrow> True
                               | Some (d, s, _) \<Rightarrow> d \<noteq> date \<or> s \<noteq> offset_secs)
          in do { p' \<leftarrow> (if needs_refresh
                         then do { times \<leftarrow> compute_sun_times (p_sunrise p) loc date off;
                                   Some (p\<lparr>p_cached_sun := Some (date, offset_secs, times)\<rparr>) }
                         else Some p);
                  Some (map_option (\<lambda>(_, _, t). t) (p_cached_sun p'), p') })"

definition room_slots :: "processor \<Rightarrow> resolved_room \<Rightarrow> slots" where
  "room_slots p r =
     (case bt_get (room_schedule_overrides (p_settings p)) (room_name r) of
        None \<Rightarrow> ss_slots (room_scenes r) | Some v \<Rightarrow> rso_slots v)"

definition room_switch_steps_of :: "processor \<Rightarrow> resolved_room \<Rightarrow> resolved_switch_steps" where
  "room_switch_steps_of p r =
     (case bt_get (p_resolved_switch_steps p) (room_name r) of
        None \<Rightarrow> room_switch_steps r | Some v \<Rightarrow> v)"

definition motion_slots :: "processor \<Rightarrow> resolved_motion_rule \<Rightarrow> slots" where
  "motion_slots p r =
     (case bt_get (motion_schedule_overrides (p_settings p)) (mr_name r) of
        None \<Rightarrow> ss_slots (mr_scenes r) | Some v \<Rightarrow> v)"

datatype schedule_owner = OwnerRoom string | OwnerMotionRule string

fun schedule_overridden :: "processor \<Rightarrow> schedule_owner \<Rightarrow> bool" where
  "schedule_overridden p (OwnerRoom n) = bt_contains_key (room_schedule_overrides (p_settings p)) n"
| "schedule_overridden p (OwnerMotionRule n) =
     bt_contains_key (motion_schedule_overrides (p_settings p)) n"

definition timed_action_overridden :: "processor \<Rightarrow> string \<Rightarrow> bool" where
  "timed_action_overridden p b = bt_contains_key (timed_action_overrides (p_settings p)) b"

definition plug_schedule_overridden :: "processor \<Rightarrow> string \<Rightarrow> bool" where
  "plug_schedule_overridden p d = bt_contains_key (plug_schedule_overrides (p_settings p)) d"

definition timed_action_time :: "processor \<Rightarrow> resolved_binding \<Rightarrow> time_expr option" where
  "timed_action_time p b =
     (case rb_trigger b of
        At time \<Rightarrow> Some (case bt_get (timed_action_overrides (p_settings p)) (rb_name b) of
                           None \<Rightarrow> time | Some t \<Rightarrow> t)
      | _ \<Rightarrow> None)"

definition kill_switch_params :: "resolved_binding \<Rightarrow> (f64 \<times> duration) option" where
  "kill_switch_params b =
     (case rb_trigger b of PowerBelow pl watts holdoff \<Rightarrow> Some (watts, holdoff) | _ \<Rightarrow> None)"

definition binding_superseded :: "processor \<Rightarrow> resolved_binding \<Rightarrow> bool option" where
  "binding_superseded p b =
     (case (case rb_trigger b of
              PowerBelow pl w h \<Rightarrow> Some pl
            | At t \<Rightarrow> effect_target_plug (rb_effect b)
            | Button d bt g \<Rightarrow> None) of
        None \<Rightarrow> Some False
      | Some pl \<Rightarrow> map_option (plug_schedule_overridden p) (device_name (p_topology p) pl))"

definition effective_bindings :: "processor \<Rightarrow> resolved_binding list option" where
  "effective_bindings p =
     do { deployed \<leftarrow> filterM (\<lambda>b. map_option Not (binding_superseded p b)) (t_bindings (p_topology p));
          Some (deployed @ concat (bt_values (p_resolved_plug_bindings p))) }"

definition is_power_below :: "resolved_binding \<Rightarrow> bool" where
  "is_power_below b = (case rb_trigger b of PowerBelow d w h \<Rightarrow> True | _ \<Rightarrow> False)"

definition power_below_bindings :: "processor \<Rightarrow> device_idx \<Rightarrow> resolved_binding list option" where
  "power_below_bindings p d =
     do { name \<leftarrow> device_name (p_topology p) d;
          case bt_get (p_resolved_plug_bindings p) name of
            Some bs \<Rightarrow> Some (filter is_power_below bs)
          | None \<Rightarrow> mapM (binding (p_topology p)) (bindings_for_power_below (p_topology p) d) }"

definition scenes_for_room :: "string \<Rightarrow> processor \<Rightarrow> (u8 list \<times> processor) option" where
  "scenes_for_room name p =
     do { (sun, p1) \<leftarrow> sun_times_of p;
          case room_idx_of (p_topology p1) name of
            None \<Rightarrow> Some ([], p1)
          | Some i \<Rightarrow>
              do { r \<leftarrow> room (p_topology p1) i;
                   found \<leftarrow> slot_for_time (room_slots p1 r) (ck_local_hour (p_clock p1))
                              (ck_local_minute (p_clock p1)) sun;
                   Some (case found of None \<Rightarrow> [] | Some (_, s) \<Rightarrow> slot_scene_ids s, p1) } }"

section \<open>The processor invariant\<close>

text \<open>
  What handlers never change: everything but the world and the caches and timers of the heating
  loop.
\<close>

definition cfg :: "processor \<Rightarrow> control_settings \<times> (string, resolved_switch_steps) btree_map \<times>
    (string, resolved_binding list) btree_map \<times> (string, instant) btree_map \<times> topology \<times> clock \<times>
    defaults \<times> location option \<times> heating_config option \<times> sunrise_crate" where
  "cfg p = (p_settings p, p_resolved_switch_steps p, p_resolved_plug_bindings p, p_boost_deadlines p,
     p_topology p, p_clock p, p_defaults p, p_location p, p_heating_config p, p_sunrise p)"

text \<open>
  The configuration the handlers rely on. Building a topology, validating an override and the
  \<open>Clock\<close> contract establish it: indexes are in range, windows are non-negative, nothing refers to
  the sun without a location, and the solar events of the configured place exist.
\<close>

definition slots_sun_ok :: "processor \<Rightarrow> slots \<Rightarrow> bool" where
  "slots_sun_ok p sl = (p_location p = None \<longrightarrow> (\<forall>s \<in> set (bt_values sl). \<not> slot_uses_sun s))"

definition steps_ok :: "topology \<Rightarrow> resolved_switch_steps \<Rightarrow> bool" where
  "steps_ok t m = bt_all (\<lambda>_ steps. steps \<noteq> [] \<and> list_all (\<lambda>s. list_all (endpoint_ok t) (st_lights s)) steps) m"

text \<open>A schedule only names scenes that exist; a motion slot has a scene and a target.\<close>

definition scene_known :: "scene_schedule \<Rightarrow> u8 \<Rightarrow> bool" where
  "scene_known sc i = list_ex (\<lambda>s. scene_id s = i) (ss_scenes sc)"

definition room_schedule_ok :: "processor \<Rightarrow> resolved_room \<Rightarrow> slots \<Rightarrow> bool" where
  "room_schedule_ok p r sl =
     (slots_sun_ok p sl \<and> bt_all (\<lambda>_ s. list_all (scene_known (room_scenes r)) (slot_scene_ids s)) sl)"

definition motion_schedule_ok :: "processor \<Rightarrow> resolved_motion_rule \<Rightarrow> slots \<Rightarrow> bool" where
  "motion_schedule_ok p r sl =
     (slots_sun_ok p sl \<and>
      bt_all (\<lambda>n s. slot_scene_ids s \<noteq> [] \<and> scene_known (mr_scenes r) (hd (slot_scene_ids s)) \<and>
                bt_contains_key (mr_targets_by_slot r) n) sl)"

text \<open>Both the deployed slots and the ones in force, so that an override can be taken back.\<close>

definition room_slots_ok :: "processor \<Rightarrow> resolved_room \<Rightarrow> bool" where
  "room_slots_ok p r = (room_schedule_ok p r (ss_slots (room_scenes r)) \<and> room_schedule_ok p r (room_slots p r))"

definition motion_slots_ok :: "processor \<Rightarrow> resolved_motion_rule \<Rightarrow> bool" where
  "motion_slots_ok p r = (motion_schedule_ok p r (ss_slots (mr_scenes r)) \<and> motion_schedule_ok p r (motion_slots p r))"

lemmas schedule_ok_defs = room_slots_ok_def motion_slots_ok_def room_schedule_ok_def motion_schedule_ok_def

definition times_sun_ok :: "processor \<Rightarrow> bool" where
  "times_sun_ok p =
     (p_location p = None \<longrightarrow>
        bt_all (\<lambda>_ t. \<not> uses_sun t) (timed_action_overrides (p_settings p)) \<and>
        (\<forall>b \<in> set (t_bindings (p_topology p)) \<union> set (concat (bt_values (p_resolved_plug_bindings p))).
           \<forall>t. rb_trigger b = At t \<longrightarrow> \<not> uses_sun t))"

definition sunrise_ok :: "processor \<Rightarrow> bool" where
  "sunrise_ok p =
     (\<forall>loc date off. p_location p = Some loc \<longrightarrow> compute_sun_times (p_sunrise p) loc date off \<noteq> None)"

definition window_ok :: "f64 \<Rightarrow> bool" where
  "window_ok x = (0 \<le> x \<and> x < 2 ^ 64)"

text \<open>Every boost has a monotonic deadline.\<close>

definition boosts_ok :: "processor \<Rightarrow> bool" where
  "boosts_ok p = (\<forall>d. bt_contains_key (boosts (p_settings p)) d \<longrightarrow> bt_contains_key (p_boost_deadlines p) d)"

definition config_ok :: "processor \<Rightarrow> bool" where
  "config_ok p =
     (topology_ok (p_topology p) \<and> sunrise_ok p \<and> boosts_ok p \<and>
      p_heating_config p = t_heating_config (p_topology p) \<and>
      window_ok (cycle_window_seconds (p_defaults p)) \<and>
      window_ok (double_tap_suppression_seconds (p_defaults p)) \<and>
      window_ok (soft_double_tap_window_seconds (p_defaults p)) \<and>
      (\<forall>r \<in> set (t_rooms (p_topology p)). room_slots_ok p r) \<and>
      (\<forall>r \<in> set (t_motion_rules (p_topology p)). motion_slots_ok p r) \<and>
      bt_all (\<lambda>_. steps_ok (p_topology p)) (p_resolved_switch_steps p) \<and>
      bt_all (\<lambda>_. list_all (binding_ok (p_topology p))) (p_resolved_plug_bindings p) \<and>
      (\<forall>i d b. i \<in> set (bindings_for_power_below (p_topology p) d) \<longrightarrow>
         b = t_bindings (p_topology p) ! i \<longrightarrow> is_power_below b) \<and>
      times_sun_ok p)"

lemma timed_action_sun:
  assumes "times_sun_ok p" and "p_location p = None" and "timed_action_time p b = Some t"
    and "b \<in> set (t_bindings (p_topology p)) \<union> set (concat (bt_values (p_resolved_plug_bindings p)))"
  shows "\<not> uses_sun t"
  using assms by (auto simp: times_sun_ok_def timed_action_time_def dest: bt_all_get
      split: resolved_trigger.splits option.splits)

definition session_ok :: "topology \<Rightarrow> motion_rule_state \<Rightarrow> bool" where
  "session_ok t r =
     (\<forall>s. mrs_session r = Some s \<longrightarrow> motion_target_ok t (mse_target s) \<and>
        (\<forall>d \<in> set (mse_claimed s). d < length (t_devices t)))"

text \<open>A zone's switch cycle points into the steps its room has now, and its target is set.\<close>

definition switch_cycle_ok :: "processor \<Rightarrow> string \<Rightarrow> light_zone_entity \<Rightarrow> bool" where
  "switch_cycle_ok p n z =
     (\<forall>c. lz_switch_cycle z = Some c \<longrightarrow> tgt_since (lz_target z) \<noteq> None \<and>
        (\<exists>i steps. room_idx_of (p_topology p) n = Some i \<and>
           bt_get (room_switch_steps_of p (t_rooms (p_topology p) ! i)) (cyc_slot c) = Some steps \<and>
           cyc_step c < length steps))"

definition cycles_ok :: "processor \<Rightarrow> (string, light_zone_entity) btree_map \<Rightarrow> bool" where
  "cycles_ok p m = (\<forall>n z. bt_get m n = Some z \<longrightarrow> switch_cycle_ok p n z)"

definition state_ok :: "processor \<Rightarrow> world_state \<Rightarrow> bool" where
  "state_ok p w = (world_ok w \<and> bt_all (\<lambda>_. session_ok (p_topology p)) (w_motion_rules w) \<and>
     cycles_ok p (w_light_zones w))"

lemma cycles_ok_insert: "cycles_ok p m \<Longrightarrow> switch_cycle_ok p n z \<Longrightarrow> cycles_ok p (bt_insert n z m)"
  by (simp add: cycles_ok_def)

definition proc_ok :: "processor \<Rightarrow> bool" where
  "proc_ok p = (config_ok p \<and> state_ok p (p_world p))"

text \<open>An effect the dispatcher can publish: its indexes are in range.\<close>

fun eff_ok :: "topology \<Rightarrow> eff \<Rightarrow> bool" where
  "eff_ok t (PublishGroupSet r p) = (r < length (t_rooms t))"
| "eff_ok t (PublishDeviceSet d p) = (d < length (t_devices t))"
| "eff_ok t (PublishLightSet l p) = endpoint_ok t l"
| "eff_ok t (PublishDeviceGet d) = (d < length (t_devices t))"
| "eff_ok t (PublishHaDiscoveryTrv d) = (d < length (t_devices t))"
| "eff_ok t (PublishHaStateTrv d s) = (d < length (t_devices t))"
| "eff_ok t (PublishHaDiscoveryZone z) =
     (\<exists>c. t_heating_config t = Some c \<and> z < length (hc_zones c))"
| "eff_ok t (PublishHaStateZone z s) =
     (\<exists>c. t_heating_config t = Some c \<and> z < length (hc_zones c))"
| "eff_ok t (PublishRaw topic p r) = True"

lemma eff_ok_topic: "eff_ok t e \<Longrightarrow> \<exists>s. eff_topic t e = Some s"
  by (cases e)
    (auto simp: endpoint_ok_def device_name_def index_def room_def is_zwave_plug_idx_def
      zone_name_of_def heating_config_of_def split: option.splits)

text \<open>What a well-behaved piece of the controller does from \<open>p\<close>: no panic, configuration kept,
  invariant kept, publishable effects.\<close>

definition stays :: "processor \<Rightarrow> processor \<Rightarrow> bool" where
  "stays p p' = (cfg p' = cfg p \<and> state_ok p (p_world p'))"

definition safe_at :: "processor \<Rightarrow> (eff list \<times> processor) option \<Rightarrow> bool" where
  "safe_at p m = wp m (\<lambda>(e, p'). list_all (eff_ok (p_topology p)) e \<and> stays p p')"

definition safe :: "handler \<Rightarrow> bool" where
  "safe h = (\<forall>p. proc_ok p \<longrightarrow> safe_at p (h p))"

lemma cfg_fields:
  assumes "cfg p' = cfg p"
  shows "p_topology p' = p_topology p" and "p_clock p' = p_clock p" and "p_defaults p' = p_defaults p"
    and "p_location p' = p_location p" and "p_heating_config p' = p_heating_config p"
    and "p_sunrise p' = p_sunrise p" and "p_resolved_plug_bindings p' = p_resolved_plug_bindings p"
    and "p_resolved_switch_steps p' = p_resolved_switch_steps p"
    and "p_settings p' = p_settings p" and "p_boost_deadlines p' = p_boost_deadlines p"
  using assms by (simp_all add: cfg_def)

lemma cfg_config_ok:
  assumes "cfg p' = cfg p"
  shows "config_ok p' = config_ok p"
proof -
  note f = cfg_fields [OF assms]
  have "room_slots p' = room_slots p" by (rule ext) (simp only: room_slots_def f)
  moreover have "motion_slots p' = motion_slots p" by (rule ext) (simp only: motion_slots_def f)
  moreover from calculation have "room_slots_ok p' = room_slots_ok p" "motion_slots_ok p' = motion_slots_ok p"
    by (simp_all only: schedule_ok_defs [abs_def] slots_sun_ok_def [abs_def] f)
  moreover have "times_sun_ok p' = times_sun_ok p" by (simp only: times_sun_ok_def f)
  moreover have "sunrise_ok p' = sunrise_ok p" by (simp only: sunrise_ok_def f)
  moreover have "boosts_ok p' = boosts_ok p" by (simp only: boosts_ok_def f)
  ultimately show ?thesis by (simp only: config_ok_def f)
qed

lemma state_ok_cfg:
  assumes "cfg p' = cfg p"
  shows "state_ok p' = state_ok p"
proof -
  note f = cfg_fields [OF assms]
  have "switch_cycle_ok p' = switch_cycle_ok p"
    by (intro ext) (simp only: switch_cycle_ok_def room_switch_steps_of_def f)
  then have "cycles_ok p' = cycles_ok p" by (intro ext) (simp only: cycles_ok_def)
  then show ?thesis by (intro ext) (simp only: state_ok_def f)
qed

lemma cfg_upd_world [simp]: "cfg (upd_world f p) = cfg p"
  by (simp add: cfg_def upd_world_def)

lemma cfg_cached_sun [simp]: "cfg (p\<lparr>p_cached_sun := c\<rparr>) = cfg p"
  by (simp add: cfg_def)

lemma stays_refl: "proc_ok p \<Longrightarrow> stays p p"
  by (simp add: stays_def proc_ok_def)

lemma stays_proc_ok: "proc_ok p \<Longrightarrow> stays p p' \<Longrightarrow> proc_ok p'"
  using cfg_config_ok [of p' p] state_ok_cfg [of p' p] by (simp add: stays_def proc_ok_def)

lemma stays_trans: "stays p p' \<Longrightarrow> stays p' p'' \<Longrightarrow> stays p p''"
  using state_ok_cfg [of p' p] by (simp add: stays_def)

lemma stays_topology: "stays p p' \<Longrightarrow> p_topology p' = p_topology p"
  by (simp add: stays_def cfg_fields(1) [of p' p])

lemma stays_upd_world:
  "state_ok p (f (p_world p)) \<Longrightarrow> stays p (upd_world f p)"
  by (simp add: stays_def)

lemma proc_ok_upd_world:
  "proc_ok p \<Longrightarrow> state_ok p (f (p_world p)) \<Longrightarrow> proc_ok (upd_world f p)"
  by (rule stays_proc_ok [OF _ stays_upd_world])

lemma safe_atI:
  "m = Some (e, p') \<Longrightarrow> list_all (eff_ok (p_topology p)) e \<Longrightarrow> stays p p' \<Longrightarrow> safe_at p m"
  by (simp add: safe_at_def)

lemma safe_at_trans:
  assumes "stays p p1" and "safe_at p1 m"
  shows "safe_at p m"
  using assms stays_topology [OF assms(1)] by (auto simp: safe_at_def wp_iff dest: stays_trans)

lemma safe_at_nil [simp]: "safe_at p (Some ([], p')) = stays p p'"
  by (simp add: safe_at_def)

lemma safe_at_one [simp]:
  "safe_at p (Some ([e], p')) \<longleftrightarrow> eff_ok (p_topology p) e \<and> stays p p'"
  by (simp add: safe_at_def)

lemma safe_for_each:
  assumes "proc_ok p" and "\<And>x p'. x \<in> set xs \<Longrightarrow> stays p p' \<Longrightarrow> safe_at p' (f x p')"
  shows "safe_at p (for_each f xs p)"
  unfolding safe_at_def
proof (rule wp_for_each)
  show "stays p p" using assms(1) by (rule stays_refl)
  fix x p' assume "x \<in> set xs" and s: "stays p p'"
  from assms(2) [OF this] s
  show "wp (f x p') (\<lambda>(e, p''). list_all (eff_ok (p_topology p)) e \<and> stays p p'')"
    by (auto simp: safe_at_def wp_iff stays_topology [OF s] dest: stays_trans [OF s])
qed

lemma safe_at_seq:
  assumes "safe_at p (f p)" and "\<And>p'. stays p p' \<Longrightarrow> safe_at p' (g p')"
  shows "safe_at p (seq f g p)"
  unfolding safe_at_def
proof (rule wp_seq)
  show "wp (f p) (\<lambda>(e, p'). list_all (eff_ok (p_topology p)) e \<and> stays p p')"
    using assms(1) by (simp add: safe_at_def)
  fix p' assume s: "stays p p'"
  from assms(2) [OF this] s
  show "wp (g p') (\<lambda>(e, p''). list_all (eff_ok (p_topology p)) e \<and> stays p p'')"
    by (auto simp: safe_at_def wp_iff stays_topology [OF s] dest: stays_trans [OF s])
qed

lemma safeD: "safe h \<Longrightarrow> proc_ok p \<Longrightarrow> safe_at p (h p)"
  by (simp add: safe_def)

lemma safe_run: "safe h \<Longrightarrow> proc_ok p \<Longrightarrow> h p = Some (e, p') \<Longrightarrow> list_all (eff_ok (p_topology p)) e \<and> stays p p'"
  using safeD [of h p] by (simp add: safe_at_def)

lemma safe_seq: "safe f \<Longrightarrow> safe g \<Longrightarrow> safe (seq f g)"
  unfolding safe_def by (metis safe_at_seq stays_proc_ok)

lemma safe_for_each_all: "(\<And>x. safe (f x)) \<Longrightarrow> safe (for_each f xs)"
  unfolding safe_def by (blast intro: safe_for_each stays_proc_ok)

lemma seq_assoc: "seq (seq f g) h = seq f (seq g h)"
  by (rule ext) (simp add: seq_def split: Option.bind_split)

text \<open>Safety from every state that extends \<open>p\<close>: the form in which pipelines compose.\<close>

definition safe_on :: "processor \<Rightarrow> handler \<Rightarrow> bool" where
  "safe_on p h = (\<forall>q. stays p q \<longrightarrow> safe_at q (h q))"

lemma safe_onI: "(\<And>q. stays p q \<Longrightarrow> safe_at q (h q)) \<Longrightarrow> safe_on p h"
  by (simp add: safe_on_def)

lemma safe_onD: "proc_ok p \<Longrightarrow> safe_on p h \<Longrightarrow> safe_at p (h p)"
  by (simp add: safe_on_def stays_refl)

lemma safe_on_safe: "proc_ok p \<Longrightarrow> safe h \<Longrightarrow> safe_on p h"
  by (simp add: safe_on_def safe_def stays_proc_ok)

lemma safe_on_seq: "safe_on p f \<Longrightarrow> safe_on p g \<Longrightarrow> safe_on p (seq f g)"
  unfolding safe_on_def by (metis safe_at_seq stays_trans)

lemma safe_on_for_each:
  "proc_ok p \<Longrightarrow> (\<And>x. x \<in> set xs \<Longrightarrow> safe_on p (f x)) \<Longrightarrow> safe_on p (for_each f xs)"
  unfolding safe_on_def by (metis safe_for_each stays_trans stays_proc_ok)

text \<open>Entity updates.\<close>

lemma state_ok_store:
  "state_ok t w \<Longrightarrow> light_zone_ok z \<Longrightarrow> switch_cycle_ok t n z \<Longrightarrow> state_ok t (put_light_zone n z w)"
  "state_ok t w \<Longrightarrow> light_ok l \<Longrightarrow> state_ok t (put_light n l w)"
  "state_ok t w \<Longrightarrow> plug_ok pl \<Longrightarrow> state_ok t (put_plug n pl w)"
  "state_ok t w \<Longrightarrow> motion_sensor_ok s \<Longrightarrow> state_ok t (put_motion_sensor n s w)"
  "state_ok t w \<Longrightarrow> heating_zone_ok h \<Longrightarrow> state_ok t (put_heating_zone n h w)"
  "state_ok t w \<Longrightarrow> trv_ok tr \<Longrightarrow> state_ok t (put_trv n tr w)"
  "state_ok t w \<Longrightarrow> session_ok (p_topology t) r \<Longrightarrow> state_ok t (put_motion_rule n r w)"
  unfolding state_ok_def
  by (simp_all add: put_light_zone_def put_light_def put_plug_def put_motion_sensor_def
      put_heating_zone_def put_trv_def put_motion_rule_def world_ok_def bt_all_insert cycles_ok_insert)

lemma session_ok_default [simp]: "session_ok t motion_rule_default"
  by (simp add: session_ok_def motion_rule_default_def)

lemma switch_cycle_ok_None [simp]: "lz_switch_cycle z = None \<Longrightarrow> switch_cycle_ok p n z"
  by (simp add: switch_cycle_ok_def)

lemma state_ok_fetch:
  assumes "state_ok t w"
  shows "light_zone_ok (light_zone w n)" and "light_ok (light w n)" and "plug_ok (plug w n)"
    and "motion_sensor_ok (motion_sensor w n)" and "heating_zone_ok (heating_zone w n)"
    and "trv_ok (trv w n)" and "session_ok (p_topology t) (motion_rule_of w n)"
    and "switch_cycle_ok t n (light_zone w n)"
proof -
  show "switch_cycle_ok t n (light_zone w n)"
    using assms by (auto simp: state_ok_def cycles_ok_def light_zone_def bt_get_or_def light_zone_default_def
        split: option.splits)
qed (use assms world_ok_fetch [of w n] in \<open>simp_all add: state_ok_def motion_rule_of_def bt_get_or_ok\<close>)

lemma state_ok_transient [simp]:
  "state_ok t (w\<lparr>w_pending_presses := a\<rparr>) = state_ok t w"
  "state_ok t (w\<lparr>w_last_double_tap := b\<rparr>) = state_ok t w"
  "state_ok t (w\<lparr>w_at_last_fired := c\<rparr>) = state_ok t w"
  "state_ok t (w\<lparr>w_confirm_off_pending := d\<rparr>) = state_ok t w"
  "state_ok t (w\<lparr>w_power_meters := e\<rparr>) = state_ok t w"
  by (simp_all add: state_ok_def world_ok_def)

lemma proc_ok_state: "proc_ok p \<Longrightarrow> state_ok p (p_world p)"
  by (simp add: proc_ok_def)

lemma proc_ok_topology: "proc_ok p \<Longrightarrow> topology_ok (p_topology p)"
  by (simp add: proc_ok_def config_ok_def)

section \<open>Sun times and lookups do not panic\<close>

lemma sun_times_of_safe:
  assumes "proc_ok p"
  shows "wp (sun_times_of p) (\<lambda>(sun, p'). (\<exists>c. p' = p\<lparr>p_cached_sun := c\<rparr>) \<and>
           (sun = None \<longleftrightarrow> p_location p = None))"
proof (cases "p_location p")
  case None
  then show ?thesis by (auto simp: sun_times_of_def intro: exI [of _ "p_cached_sun p"])
next
  case (Some loc)
  let ?date = "ck_date (p_clock p)" and ?off = "ck_utc_offset_hours (p_clock p)"
  obtain st where st: "compute_sun_times (p_sunrise p) loc ?date ?off = Some st"
    using assms Some unfolding proc_ok_def config_ok_def sunrise_ok_def by blast
  show ?thesis
    using Some st
    by (cases "p_cached_sun p")
      (auto simp: sun_times_of_def Let_def wp_iff split: prod.splits
        intro: exI [of _ "p_cached_sun p"])
qed

lemma sun_times_ofE:
  assumes "proc_ok p"
  obtains sun c where "sun_times_of p = Some (sun, p\<lparr>p_cached_sun := c\<rparr>)"
    and "sun = None \<longleftrightarrow> p_location p = None"
proof -
  obtain x where x: "sun_times_of p = Some x"
    and w: "case x of (sun, p') \<Rightarrow> (\<exists>c. p' = p\<lparr>p_cached_sun := c\<rparr>) \<and> (sun = None \<longleftrightarrow> p_location p = None)"
    using sun_times_of_safe [OF assms] unfolding wp_iff by (elim exE conjE)
  obtain sun p' where xp: "x = (sun, p')" by (cases x)
  from w obtain c where pc: "p' = p\<lparr>p_cached_sun := c\<rparr>" and sun: "sun = None \<longleftrightarrow> p_location p = None"
    unfolding xp prod.case by (elim conjE exE)
  from x have "sun_times_of p = Some (sun, p\<lparr>p_cached_sun := c\<rparr>)" unfolding xp pc .
  from this sun show thesis by (rule that)
qed

lemma stays_cached_sun: "proc_ok p \<Longrightarrow> stays p (p\<lparr>p_cached_sun := c\<rparr>)"
  by (simp add: stays_def proc_ok_def)

lemma slot_for_time_total:
  assumes "\<And>s. s \<in> set (bt_values sl) \<Longrightarrow> slot_uses_sun s \<Longrightarrow> sun \<noteq> None"
  shows "\<exists>r. slot_for_time sl h m sun = Some r"
proof -
  have "slot_for_time sl h m sun =
      Some (find (\<lambda>e. contains_time (snd e) h m sun = Some True) sl)"
    unfolding slot_for_time_def
  proof (rule findM_Some)
    fix e assume "e \<in> set sl"
    then have "snd e \<in> set (bt_values sl)" by (simp add: bt_values_def)
    then show "(case e of (_, s) \<Rightarrow> contains_time s h m sun) =
        Some (contains_time (snd e) h m sun = Some True)"
      using contains_time_total [of "snd e" sun h m] assms by (simp split: prod.splits)
  qed
  then show ?thesis by blast
qed

lemma wp_slot_for_time:
  assumes "slots_sun_ok p sl" and "sun = None \<longleftrightarrow> p_location p = None"
    and "\<And>r. (\<forall>e. r = Some e \<longrightarrow> e \<in> set sl) \<Longrightarrow> Q r"
  shows "wp (slot_for_time sl h m sun) Q"
proof -
  obtain r where r: "slot_for_time sl h m sun = Some r"
    using slot_for_time_total [of sl sun h m] assms(1,2) by (auto simp: slots_sun_ok_def)
  have "findM f xs = Some (Some e) \<Longrightarrow> e \<in> set xs" for f and e :: "string \<times> slot" and xs
    by (induction xs) (auto split: Option.bind_splits if_splits)
  with r have "Q r" by (intro assms(3)) (auto simp: slot_for_time_def simp del: split_paired_All)
  with r show ?thesis by simp
qed

lemma scenes_for_room_safe:
  assumes "proc_ok p"
  shows "wp (scenes_for_room n p) (\<lambda>(ids, p'). \<exists>c. p' = p\<lparr>p_cached_sun := c\<rparr>)"
proof -
  obtain sun c where sc: "sun_times_of p = Some (sun, p\<lparr>p_cached_sun := c\<rparr>)"
    and sun: "sun = None \<longleftrightarrow> p_location p = None"
    using sun_times_ofE [OF assms] by metis
  show ?thesis
  proof (cases "room_idx_of (p_topology p) n")
    case None
    with sc show ?thesis by (auto simp: scenes_for_room_def)
  next
    case (Some i)
    have i: "i < length (t_rooms (p_topology p))"
      using room_idx_of_bound [OF proc_ok_topology [OF assms] Some] .
    then have "slots_sun_ok p (room_slots p (t_rooms (p_topology p) ! i))"
      using assms by (simp add: proc_ok_def config_ok_def schedule_ok_defs)
    moreover have "room_slots (p\<lparr>p_cached_sun := c\<rparr>) = room_slots p"
      by (rule ext) (simp add: room_slots_def)
    ultimately show ?thesis
      using sc Some i
      by (auto simp: scenes_for_room_def split_def intro!: wp_slot_for_time [OF _ sun])
  qed
qed

lemma power_below_bindings_safe:
  assumes "proc_ok p" and "d < length (t_devices (p_topology p))"
  shows "wp (power_below_bindings p d) (list_all (\<lambda>b. binding_ok (p_topology p) b \<and> is_power_below b))"
proof -
  have t: "topology_ok (p_topology p)" using assms(1) by (rule proc_ok_topology)
  have dep: "mapM (binding (p_topology p)) (bindings_for_power_below (p_topology p) d) =
      Some (map (\<lambda>i. t_bindings (p_topology p) ! i) (bindings_for_power_below (p_topology p) d))"
    by (rule mapM_Some_map) (use bindings_for_power_below_bound [OF t] in \<open>simp add: binding_def index_def\<close>)
  have "list_all (\<lambda>b. binding_ok (p_topology p) b \<and> is_power_below b)
      (map (\<lambda>i. t_bindings (p_topology p) ! i) (bindings_for_power_below (p_topology p) d))"
    using bindings_for_power_below_bound [OF t] topology_ok_binding [OF t] assms(1)
    unfolding proc_ok_def config_ok_def list_all_iff by auto
  moreover have "list_all (binding_ok (p_topology p)) bs"
    if "bt_get (p_resolved_plug_bindings p) n = Some bs" for n bs
    using assms(1) that unfolding proc_ok_def config_ok_def by (blast dest: bt_all_get)
  ultimately show ?thesis
    using assms(2) dep
    by (auto simp: power_below_bindings_def list_all_iff split: option.splits)
qed

end
