(* ===== verification/House.thy ===== *)
theory House
  imports Processor "HOL-Library.Code_Target_Nat"
begin

text \<open>
  A small house used to exercise the theorems on concrete input: a hall with one lamp, a motion
  sensor, a wall switch, a metered kettle plug, and one heating zone with two radiator valves.
\<close>

definition house_device :: "string \<Rightarrow> device_kind \<Rightarrow> device_info" where
  "house_device n k =
     \<lparr>di_name = n, di_kind = k, di_display_name = None, di_room = None, di_exclude_from_totals = False,
      di_power_metered = (k = KPlug), di_plug_protocol = (if k = KPlug then Some Zigbee else None),
      di_switch_model = (if k = KSwitch then Some ''dimmer'' else None),
      di_trv_variant = (if k = KTrv then Some TRV_VARIANT_BOSCH_BTH_RA else None)\<rparr>"

definition house_scene :: "u8 \<Rightarrow> scene" where
  "house_scene i =
     \<lparr>scene_id = i, scene_name = ''s'', scene_state = ''ON'', scene_brightness = Some 100,
      scene_color_temp = None, scene_transition = 1\<rparr>"

definition house_scenes :: scene_schedule where
  "house_scenes =
     \<lparr>ss_scenes = [house_scene 1, house_scene 2],
      ss_slots = [(''day'', \<lparr>slot_from = Fixed 360, slot_to = Fixed 1380, slot_scene_ids = [1, 2]\<rparr>),
                  (''night'', \<lparr>slot_from = Fixed 1380, slot_to = Fixed 360, slot_scene_ids = [2]\<rparr>)]\<rparr>"

definition house_room :: resolved_room where
  "house_room =
     \<lparr>room_name = ''hall'', room_group_name = ''hall-group'', room_room = ''hall'', room_id = 1,
      room_members = [''lamp/11''], room_light_members = [LightEndpoint 0 11], room_parent = None,
      room_scenes = house_scenes, room_switch_steps = [], room_off_transition_seconds = 1,
      room_bound_motion = [\<lparr>mb_sensor = ''pir'', mb_occupancy_timeout_seconds = 60\<rparr>]\<rparr>"

definition house_target :: resolved_motion_target where
  "house_target = \<lparr>mt_group = Some 0, mt_lights = [LightEndpoint 0 11]\<rparr>"

definition house_rule :: resolved_motion_rule where
  "house_rule =
     \<lparr>mr_name = ''hall-motion'', mr_sensors = [\<lparr>mb_sensor = ''pir'', mb_occupancy_timeout_seconds = 60\<rparr>],
      mr_mode = OnOff, mr_scenes = house_scenes,
      mr_targets_by_slot = [(''day'', house_target), (''night'', house_target)],
      mr_off_transition_seconds = 1, mr_off_cooldown_seconds = 30, mr_max_illuminance = Some 100,
      mr_lights = [LightEndpoint 0 11], mr_rooms = [0]\<rparr>"

definition house_bindings :: "resolved_binding list" where
  "house_bindings =
     [\<lparr>rb_name = ''kettle-idle'', rb_trigger = PowerBelow 2 5 (from_secs 60), rb_effect = TurnOff 2\<rparr>,
      \<lparr>rb_name = ''hall-on'', rb_trigger = Button 3 ''on'' Press, rb_effect = SceneToggleCycle 0\<rparr>,
      \<lparr>rb_name = ''hall-late'', rb_trigger = At (Fixed 1410), rb_effect = TurnOffRoom 0\<rparr>,
      \<lparr>rb_name = ''kettle-tap'', rb_trigger = Button 3 ''off'' Press, rb_effect = Toggle 2 (Some 1)\<rparr>]"

definition house_heating :: heating_config where
  "house_heating =
     \<lparr>hc_energy_meter = None,
      hc_zones = [\<lparr>zone_name = ''ground'', zone_relay = ''wt'',
                   zone_trvs = [\<lparr>zt_device = ''trv-a'', zt_schedule = ''flat''\<rparr>,
                                \<lparr>zt_device = ''trv-b'', zt_schedule = ''flat''\<rparr>]\<rparr>],
      hc_schedules = [(''flat'', flat_schedule 21)],
      hc_pressure_groups = [\<lparr>pg_name = ''loop'', pg_trvs = [''trv-a'', ''trv-b'']\<rparr>],
      hc_heat_pump = \<lparr>min_cycle_seconds = 300, min_pause_seconds = 600, min_demand_percent = 5,
                      min_demand_percent_fallback = 80\<rparr>,
      hc_open_window = \<lparr>detection_minutes = 20, inhibit_minutes = 60\<rparr>\<rparr>"

definition house :: topology where
  "house =
     \<lparr>t_rooms = [house_room], t_room_by_name = [(''hall'', 0)], t_room_by_group_name = [(''hall-group'', 0)],
      t_descendants_by_room = [[]], t_room_has_bindings = [True],
      t_devices = [house_device ''lamp'' KLight, house_device ''pir'' KMotionSensor,
                   house_device ''kettle'' KPlug, house_device ''switch'' KSwitch,
                   house_device ''trv-a'' KTrv, house_device ''trv-b'' KTrv,
                   house_device ''wt'' KWallThermostat],
      t_device_by_name = [(''kettle'', 2), (''lamp'', 0), (''pir'', 1), (''switch'', 3), (''trv-a'', 4),
                          (''trv-b'', 5), (''wt'', 6)],
      t_switch_devices = [3], t_motion_sensor_devices = [1], t_plug_devices = [2],
      t_zigbee_plug_devices = [2], t_zwave_plug_devices = [], t_trv_devices = [4, 5],
      t_wall_thermostat_devices = [6], t_zwave_node_id_to_device = [],
      t_switch_models = [(''dimmer'', \<lparr>sm_buttons = [''on'', ''off''], sm_z2m_action_map = []\<rparr>)],
      t_soft_double_tap_buttons = [], t_hw_double_tap_buttons = [], t_bindings = house_bindings,
      t_button_binding_index = [((3, ''off'', Press), [3]), ((3, ''on'', Press), [1])],
      t_power_below_index = [(2, [0])], t_motion_index = [(1, [0])], t_motion_rules = [house_rule],
      t_motion_rule_index = [(1, [0])], t_heating_config = Some house_heating\<rparr>"

definition noon :: clock where
  "noon = \<lparr>ck_now = from_secs 1000, ck_local_hour = 12, ck_local_minute = 0, ck_local_weekday = Monday,
     ck_epoch_millis = 0, ck_date = 0, ck_utc_offset_hours = 0\<rparr>"

definition no_sun :: sunrise_crate where
  "no_sun = \<lparr>sc_coordinates_valid = (\<lambda>_ _. True), sc_event_time = (\<lambda>_ _ _ _. None)\<rparr>"

definition home :: processor where
  "home = processor_new house noon defaults_default None no_sun"

lemmas house_defs = house_def house_device_def house_room_def house_rule_def house_bindings_def
  house_target_def house_scenes_def house_scene_def

lemma house_ok: "topology_ok house"
  by (simp add: topology_ok_def names_ok_def house_defs room_ok_def endpoint_ok_def binding_ok_def motion_rule_ok_def
      motion_target_ok_def bt_all_def)

lemma home_ok: "proc_ok home"
proof -
  have "bindings_for_power_below house d = (if d = 2 then [0] else [])" for d
    by (simp add: bindings_for_power_below_def house_def)
  then show ?thesis
    using house_ok
    by (auto simp: proc_ok_def config_ok_def boosts_ok_def bt_contains_key_def heating_config_of_def home_def processor_new_def state_ok_def sunrise_ok_def
        window_ok_def defaults_default_def slots_sun_ok_def room_slots_def motion_slots_def schedule_ok_defs times_sun_ok_def scene_known_def bt_all_def
        settings_default_def house_defs is_power_below_def timed_action_time_def slot_uses_sun_def
        bt_values_def steps_ok_def cycles_ok_def world_new_def [symmetric])
      (simp_all add: world_new_def)
qed

end
