(* ===== verification/Plugs.thy ===== *)
theory Plugs
  imports House
begin

text \<open>
  \<open>src/crates/mqtt-controller/src/logic/plugs.rs\<close>: plug state reports and the kill switch that
  turns an idle plug off. Shown: handlers never panic and keep the invariant; the kill switch
  turns a plug off only after an unbroken run of below-threshold readings spanning the holdoff;
  a fired rule stays quiet until power recovers; an observed off disarms.
\<close>

section \<open>Confirmation and arming\<close>

definition maybe_confirm_plug_target :: "string \<Rightarrow> instant \<Rightarrow> processor \<Rightarrow> processor option" where
  "maybe_confirm_plug_target device ts p =
     (let pl = plug (p_world p) device in
      if tgt_phase (plug_target pl) \<notin> {Commanded, StaleTarget}
      then Some (upd_world (put_plug device pl) p)
      else
        let target_val = tgt_value (plug_target pl);
            actual_on = map_option pa_on (act_value (plug_actual pl));
            matches = (case (target_val, actual_on) of
                         (Some PlugOn, Some True) \<Rightarrow> True
                       | (Some PlugOff, Some False) \<Rightarrow> True
                       | _ \<Rightarrow> False)
        in if matches
           then do { t \<leftarrow> confirm ts (plug_target pl);
                     Some (upd_world (put_plug device (pl\<lparr>plug_target := t\<rparr>)) p) }
           else Some (upd_world (put_plug device pl) p))"

text \<open>One iteration of the arming loop; \<open>entry(..).or_insert(Inactive)\<close> is \<^const>\<open>bt_get_or\<close>.\<close>

type_synonym ks_map = "(string, kill_switch_rule_state) btree_map"

definition arm_rule :: "f64 option \<Rightarrow> instant \<Rightarrow> string \<times> f64 \<Rightarrow> ks_map \<Rightarrow> ks_map" where
  "arm_rule seed_power ts rule m =
     (let (rule_name, watts) = rule;
          entry = bt_get_or Inactive m rule_name;
          m1 = bt_insert rule_name entry m
      in if entry \<in> {Suppressed, Armed} then m1
         else if (case seed_power of None \<Rightarrow> False | Some w \<Rightarrow> w < watts)
              then bt_insert rule_name (KsIdle ts) m1
              else bt_insert rule_name Armed m1)"

definition arm_kill_switch_rules ::
  "string \<Rightarrow> f64 option \<Rightarrow> instant \<Rightarrow> processor \<Rightarrow> processor option" where
  "arm_kill_switch_rules device seed_power ts p =
     (case device_idx_of (p_topology p) device of
        None \<Rightarrow> Some p
      | Some d \<Rightarrow>
          do { bs \<leftarrow> power_below_bindings p d;
               rules \<leftarrow> mapM (\<lambda>b. do { (watts, _) \<leftarrow> kill_switch_params b; Some (rb_name b, watts) }) bs;
               let pl = plug (p_world p) device;
               Some (upd_world (put_plug device
                 (pl\<lparr>kill_switch_rules := fold (arm_rule seed_power ts) rules (kill_switch_rules pl)\<rparr>)) p) })"

section \<open>Evaluation\<close>

record rule_info =
  ri_rule_name :: string
  ri_threshold_watts :: f64
  ri_holdoff :: duration
  ri_target :: "string option"

definition rule_info_of :: "topology \<Rightarrow> resolved_binding \<Rightarrow> rule_info option option" where
  "rule_info_of t b =
     (case kill_switch_params b of
        None \<Rightarrow> Some None
      | Some (watts, holdoff) \<Rightarrow>
          do { target \<leftarrow> (case effect_target_plug (rb_effect b) of
                             None \<Rightarrow> Some None
                           | Some pl \<Rightarrow> map_option Some (device_name t pl));
               Some (Some \<lparr>ri_rule_name = rb_name b, ri_threshold_watts = watts,
                           ri_holdoff = holdoff, ri_target = target\<rparr>) })"

text \<open>The loop over the rules: new rule states, and what fired. A firing rule ends the loop.\<close>

fun ks_loop :: "f64 \<Rightarrow> instant \<Rightarrow> rule_info list \<Rightarrow> ks_map \<Rightarrow> ks_map \<times> (string \<times> string) list" where
  "ks_loop power' ts [] m = (m, [])"
| "ks_loop power' ts (r # rs) m =
     (let st = bt_get_or Inactive m (ri_rule_name r);
          m1 = bt_insert (ri_rule_name r) st m
      in if power' < ri_threshold_watts r then
           (case st of
              Inactive \<Rightarrow> ks_loop power' ts rs m1
            | Suppressed \<Rightarrow> ks_loop power' ts rs m1
            | Armed \<Rightarrow> ks_loop power' ts rs (bt_insert (ri_rule_name r) (KsIdle ts) m1)
            | KsIdle since \<Rightarrow>
                if duration_since ts since \<ge> ri_holdoff r
                then (m1, case ri_target r of None \<Rightarrow> [] | Some target \<Rightarrow> [(ri_rule_name r, target)])
                else ks_loop power' ts rs m1)
         else ks_loop power' ts rs (bt_insert (ri_rule_name r) Armed m1))"

text \<open>Turning off one fired target.\<close>

definition fire_target :: "instant \<Rightarrow> string \<times> string \<Rightarrow> handler" where
  "fire_target ts fired p =
     (let target = snd fired;
          pl = plug (p_world p) target;
          pl' = on_off_clear_kill_switches
                  (pl\<lparr>plug_target := set_and_command PlugOff Rule ts (plug_target pl)\<rparr>);
          p' = upd_world (put_plug target pl') p
      in Some (case device_idx_of (p_topology p) target of
                 None \<Rightarrow> []
               | Some d \<Rightarrow> [PublishDeviceSet d device_off], p'))"

definition apply_kill_switch_fired :: "string \<Rightarrow> (string \<times> string) list \<Rightarrow> instant \<Rightarrow> handler" where
  "apply_kill_switch_fired device fired ts p =
     (if fired = [] then Some ([], p)
      else for_each (fire_target ts) fired
             (upd_world (\<lambda>w. put_plug device (suppress_all_kill_switches (plug w device)) w) p))"

definition evaluate_kill_switch :: "string \<Rightarrow> f64 \<Rightarrow> instant \<Rightarrow> handler" where
  "evaluate_kill_switch device power' ts p =
     (case device_idx_of (p_topology p) device of
        None \<Rightarrow> Some ([], p)
      | Some d \<Rightarrow>
          do { bs \<leftarrow> power_below_bindings p d;
               if bs = [] then Some ([], p)
               else do { infos \<leftarrow> mapM (rule_info_of (p_topology p)) bs;
                         let rules = List.map_filter id infos;
                         let pl = plug (p_world p) device;
                         let (m, fired) = ks_loop power' ts rules (kill_switch_rules pl);
                         apply_kill_switch_fired device fired ts
                           (upd_world (put_plug device (pl\<lparr>kill_switch_rules := m\<rparr>)) p) } })"

definition handle_plug_state :: "string \<Rightarrow> bool option \<Rightarrow> f64 option \<Rightarrow> instant \<Rightarrow> handler" where
  "handle_plug_state device on power' ts p =
     (let clamped_power = map_option (\<lambda>w. max w 0) power';
          pl = plug (p_world p) device;
          was_on = plug_is_on pl;
          was_known = (act_freshness (plug_actual pl) \<noteq> Unknown);
          pl1 = plug_observe on power' ts pl;
          p1 = upd_world (put_plug device pl1) p
      in if on = Some False then
           do { p2 \<leftarrow> maybe_confirm_plug_target device ts
                       (upd_world (put_plug device (on_off_clear_kill_switches pl1)) p1);
                Some ([], p2) }
         else if \<not> plug_is_on pl1 then Some ([], p1)
         else do {
           p2 \<leftarrow> (if on = Some True \<and> (\<not> was_on \<or> \<not> was_known)
                  then arm_kill_switch_rules device clamped_power ts p1 else Some p1);
           p3 \<leftarrow> (if on \<noteq> None then maybe_confirm_plug_target device ts p2 else Some p2);
           let effective_power = (case clamped_power of Some w \<Rightarrow> Some w
                                  | None \<Rightarrow> Option.bind (bt_get (w_plugs (p_world p3)) device)
                                              plug_power_reading);
           case effective_power of
             None \<Rightarrow> Some ([], p3)
           | Some w \<Rightarrow> evaluate_kill_switch device w ts p3 })"

text \<open>The tick: collect what fires on the state before the tick, then apply one by one.\<close>

definition tick_fires :: "processor \<Rightarrow> instant \<Rightarrow> resolved_binding \<Rightarrow> (string \<times> string \<times> string) list option" where
  "tick_fires p ts b =
     (case rb_trigger b of
        PowerBelow pl _ _ \<Rightarrow>
          do { (_, holdoff) \<leftarrow> kill_switch_params b;
               device \<leftarrow> device_name (p_topology p) pl;
               case bt_get (w_plugs (p_world p)) device of
                 None \<Rightarrow> Some []
               | Some entity \<Rightarrow>
                   if \<not> plug_is_on entity then Some []
                   else (case bt_get (kill_switch_rules entity) (rb_name b) of
                           Some (KsIdle since) \<Rightarrow>
                             if duration_since ts since \<ge> holdoff then
                               (case effect_target_plug (rb_effect b) of
                                  None \<Rightarrow> Some []
                                | Some tp \<Rightarrow> do { target \<leftarrow> device_name (p_topology p) tp;
                                               Some [(device, rb_name b, target)] })
                             else Some []
                         | _ \<Rightarrow> Some []) }
      | _ \<Rightarrow> Some [])"

definition evaluate_kill_switch_ticks :: "instant \<Rightarrow> handler" where
  "evaluate_kill_switch_ticks ts p =
     do { bs \<leftarrow> effective_bindings p;
          to_fire \<leftarrow> mapM (tick_fires p ts) bs;
          for_each (\<lambda>(device, rule_name, target). apply_kill_switch_fired device [(rule_name, target)] ts)
            (concat to_fire) p }"

definition arm_kill_switches_for_active_plugs :: "instant \<Rightarrow> processor \<Rightarrow> processor option" where
  "arm_kill_switches_for_active_plugs ts p =
     (let active = map (\<lambda>(name, pl). (name, plug_power_reading pl))
                     (filter (\<lambda>(_, pl). case act_value (plug_actual pl) of None \<Rightarrow> False | Some a \<Rightarrow> pa_on a)
                        (w_plugs (p_world p)))
      in foldM (\<lambda>(device, power'). arm_kill_switch_rules device power' ts) active p)"

definition set_plug_actual :: "string \<Rightarrow> bool \<Rightarrow> f64 option \<Rightarrow> instant \<Rightarrow> processor \<Rightarrow> processor" where
  "set_plug_actual device on power' ts p =
     upd_world (\<lambda>w. put_plug device (plug_observe (Some on) power' ts (plug w device)) w) p"

text \<open>Read-only views for the dashboard.\<close>

definition idle_rules :: "processor \<Rightarrow> string \<Rightarrow> (resolved_binding \<times> instant) list option option" where
  "idle_rules p device =
     (case bt_get (w_plugs (p_world p)) device of
        None \<Rightarrow> Some None
      | Some pl \<Rightarrow>
          (case device_idx_of (p_topology p) device of
             None \<Rightarrow> Some None
           | Some d \<Rightarrow>
               do { bs \<leftarrow> power_below_bindings p d;
                    Some (Some (List.map_filter (\<lambda>b. case bt_get (kill_switch_rules pl) (rb_name b) of
                        Some (KsIdle since) \<Rightarrow> Some (b, since) | _ \<Rightarrow> None) bs)) }))"

definition earliest_kill_switch_idle :: "processor \<Rightarrow> string \<Rightarrow> instant option option" where
  "earliest_kill_switch_idle p device =
     do { idle \<leftarrow> idle_rules p device;
          Some (Option.bind idle (\<lambda>l. iter_min (map snd l))) }"

definition kill_switch_holdoff_secs :: "processor \<Rightarrow> string \<Rightarrow> u64 option option" where
  "kill_switch_holdoff_secs p device =
     do { idle \<leftarrow> idle_rules p device;
          Some (Option.bind idle (\<lambda>l. iter_max
            (List.map_filter (\<lambda>(b, _). map_option (\<lambda>(_, h). as_secs h) (kill_switch_params b)) l))) }"

definition web_set_plug_power :: "string \<Rightarrow> bool \<Rightarrow> instant \<Rightarrow> handler" where
  "web_set_plug_power device on ts p =
     (case device_idx_of (p_topology p) device of
        None \<Rightarrow> Some ([], p)
      | Some d \<Rightarrow>
          do { is_plug \<leftarrow> is_plug_idx (p_topology p) d;
               if \<not> is_plug then Some ([], p)
               else
                 let (new_target, pay) = (if on then (PlugOn, device_on) else (PlugOff, device_off));
                     pl = plug (p_world p) device
                 in Some ([PublishDeviceSet d pay],
                          upd_world (put_plug device
                            (pl\<lparr>plug_target := set_and_command new_target WebUI ts (plug_target pl)\<rparr>)) p) })"

section \<open>Safety\<close>

lemma plug_ok_target: "plug_ok pl \<Longrightarrow> target_ok t \<Longrightarrow> tgt_phase t \<noteq> Pending \<Longrightarrow> plug_ok (pl\<lparr>plug_target := t\<rparr>)"
  by (simp add: plug_ok_def)

lemma plug_ok_rules [simp]: "plug_ok (pl\<lparr>kill_switch_rules := m\<rparr>) = plug_ok pl"
  by (simp add: plug_ok_def)

lemma proc_ok_put_plug:
  "proc_ok p \<Longrightarrow> plug_ok pl \<Longrightarrow> proc_ok (upd_world (put_plug n pl) p)"
  by (simp add: proc_ok_upd_world proc_ok_state state_ok_store)

lemma stays_put_plug: "proc_ok p \<Longrightarrow> plug_ok pl \<Longrightarrow> stays p (upd_world (put_plug n pl) p)"
  by (simp add: stays_upd_world proc_ok_state state_ok_store)

lemma proc_ok_plug: "proc_ok p \<Longrightarrow> plug_ok (plug (p_world p) n)"
  by (rule state_ok_fetch [OF proc_ok_state])

lemma maybe_confirm_safe:
  assumes "proc_ok p"
  shows "wp (maybe_confirm_plug_target device ts p) (stays p)"
proof -
  let ?pl = "plug (p_world p) device"
  have ok: "plug_ok ?pl" using assms by (rule proc_ok_plug)
  have "wp (confirm ts (plug_target ?pl))
      (\<lambda>t. stays p (upd_world (put_plug device (?pl\<lparr>plug_target := t\<rparr>)) p))"
    if "tgt_phase (plug_target ?pl) \<in> {Commanded, StaleTarget}"
    using that ok by (auto intro!: stays_put_plug [OF assms] plug_ok_target simp: plug_ok_def)
  then show ?thesis
    using stays_put_plug [OF assms ok] by (auto simp: maybe_confirm_plug_target_def Let_def)
qed

lemma kill_switch_params_some: "is_power_below b \<Longrightarrow> \<exists>w h. kill_switch_params b = Some (w, h)"
  by (auto simp: is_power_below_def kill_switch_params_def split: resolved_trigger.splits)

lemma arm_kill_switch_safe:
  assumes "proc_ok p"
  shows "wp (arm_kill_switch_rules device seed ts p) (stays p)"
proof (cases "device_idx_of (p_topology p) device")
  case None
  then show ?thesis using assms by (simp add: arm_kill_switch_rules_def stays_refl)
next
  case (Some d)
  have d: "d < length (t_devices (p_topology p))"
    using device_idx_of_bound [OF proc_ok_topology [OF assms] Some] .
  obtain bs where bs: "power_below_bindings p d = Some bs"
    "list_all (\<lambda>b. binding_ok (p_topology p) b \<and> is_power_below b) bs"
    using power_below_bindings_safe [OF assms d] by (auto simp: wp_iff)
  then have "\<forall>b \<in> set bs. \<exists>w h. kill_switch_params b = Some (w, h)"
    using kill_switch_params_some by (auto simp: list_all_iff)
  then have "mapM (\<lambda>b. do { (watts, _) \<leftarrow> kill_switch_params b; Some (rb_name b, watts) }) bs
      = Some (map (\<lambda>b. (rb_name b, fst (the (kill_switch_params b)))) bs)"
    by (intro mapM_Some_map) force
  with Some bs(1) show ?thesis
    using stays_put_plug [OF assms] proc_ok_plug [OF assms] by (simp add: arm_kill_switch_rules_def Let_def)
qed

lemma fire_target_safe:
  assumes "proc_ok p"
  shows "safe_at p (fire_target ts fired p)"
proof -
  have "plug_ok (on_off_clear_kill_switches ((plug (p_world p) (snd fired))
      \<lparr>plug_target := set_and_command PlugOff Rule ts (plug_target (plug (p_world p) (snd fired)))\<rparr>))"
    using proc_ok_plug [OF assms] by (simp add: plug_ok_target)
  from stays_put_plug [OF assms this] show ?thesis
    by (auto simp: fire_target_def Let_def split: option.splits
        dest: device_idx_of_bound [OF proc_ok_topology [OF assms]])
qed

lemma apply_kill_switch_fired_safe:
  assumes "proc_ok p"
  shows "safe_at p (apply_kill_switch_fired device fired ts p)"
proof (cases "fired = []")
  case True
  then show ?thesis using assms by (simp add: apply_kill_switch_fired_def stays_refl)
next
  case False
  let ?p = "upd_world (\<lambda>w. put_plug device (suppress_all_kill_switches (plug w device)) w) p"
  have ok: "state_ok p (put_plug device (suppress_all_kill_switches (plug (p_world p) device)) (p_world p))"
    using proc_ok_plug [OF assms] proc_ok_state [OF assms] by (simp add: state_ok_store)
  have p: "proc_ok ?p" by (rule proc_ok_upd_world) (use assms ok in simp_all)
  have "stays p ?p" by (rule stays_upd_world) (rule ok)
  then show ?thesis
    unfolding apply_kill_switch_fired_def if_not_P [OF False]
    by (rule safe_at_trans) (rule safe_for_each [OF p], rule fire_target_safe, rule stays_proc_ok [OF p])
qed

lemma rule_info_of_total:
  "binding_ok t b \<Longrightarrow> \<exists>r. rule_info_of t b = Some r"
  by (auto simp: rule_info_of_def binding_ok_def device_name_def index_def split: option.splits)

lemma evaluate_kill_switch_safe:
  assumes "proc_ok p"
  shows "safe_at p (evaluate_kill_switch device w ts p)"
proof (cases "device_idx_of (p_topology p) device")
  case None
  then show ?thesis using assms by (simp add: evaluate_kill_switch_def stays_refl)
next
  case (Some d)
  have d: "d < length (t_devices (p_topology p))"
    using device_idx_of_bound [OF proc_ok_topology [OF assms] Some] .
  obtain bs where bs: "power_below_bindings p d = Some bs"
    "list_all (\<lambda>b. binding_ok (p_topology p) b \<and> is_power_below b) bs"
    using power_below_bindings_safe [OF assms d] by (auto simp: wp_iff)
  obtain infos where infos: "mapM (rule_info_of (p_topology p)) bs = Some infos"
    using wp_mapM [of bs "rule_info_of (p_topology p)" "\<lambda>_ _. True"] bs(2) rule_info_of_total
    by (fastforce simp: wp_iff list_all_iff)
  let ?pl = "plug (p_world p) device"
  let ?p = "\<lambda>m. upd_world (put_plug device (?pl\<lparr>kill_switch_rules := m\<rparr>)) p"
  have st: "stays p (?p m)" for m using proc_ok_plug [OF assms] stays_put_plug [OF assms] by simp
  have "safe_at p (apply_kill_switch_fired device fired ts (?p m))" for fired m
    using safe_at_trans [OF st] apply_kill_switch_fired_safe [OF stays_proc_ok [OF assms st]] by blast
  then show ?thesis
    using Some bs infos assms
    by (simp add: evaluate_kill_switch_def Let_def stays_refl split_def)
qed

lemma handle_plug_state_safe:
  assumes "proc_ok p"
  shows "safe_at p (handle_plug_state device on w ts p)"
proof -
  let ?pl = "plug_observe on w ts (plug (p_world p) device)"
  let ?p1 = "upd_world (put_plug device ?pl) p"
  have pl: "plug_ok ?pl" using proc_ok_plug [OF assms] by (rule plug_observe_ok)
  have s1: "stays p ?p1" by (rule stays_put_plug [OF assms pl])
  have p1: "proc_ok ?p1" by (rule stays_proc_ok [OF assms s1])
  show ?thesis
  proof (cases "on = Some False")
    case True
    let ?p2 = "upd_world (put_plug device (on_off_clear_kill_switches ?pl)) ?p1"
    have s2: "stays ?p1 ?p2" using stays_put_plug [OF p1] pl by simp
    obtain p3 where "maybe_confirm_plug_target device ts ?p2 = Some p3" "stays ?p2 p3"
      using maybe_confirm_safe [OF stays_proc_ok [OF p1 s2]] by (auto simp: wp_iff)
    with True s1 s2 show ?thesis
      by (simp add: handle_plug_state_def Let_def) (meson stays_trans)
  next
    case False
    show ?thesis
    proof (cases "plug_is_on ?pl")
      case True
      define arm where "arm = (if on = Some True \<and> (\<not> plug_is_on (plug (p_world p) device) \<or>
          \<not> act_freshness (plug_actual (plug (p_world p) device)) \<noteq> Unknown)
        then arm_kill_switch_rules device (map_option (\<lambda>w. max w 0) w) ts ?p1 else Some ?p1)"
      have "wp arm (stays ?p1)"
        unfolding arm_def by (rule wp_cond) (simp_all add: arm_kill_switch_safe [OF p1] stays_refl [OF p1])
      then obtain p2 where p2: "arm = Some p2" "stays ?p1 p2" by (auto simp: wp_iff)
      have p2ok: "proc_ok p2" by (rule stays_proc_ok [OF p1 p2(2)])
      have "wp (if on \<noteq> None then maybe_confirm_plug_target device ts p2 else Some p2) (stays p2)"
        by (rule wp_cond) (simp_all add: maybe_confirm_safe [OF p2ok] stays_refl [OF p2ok])
      then obtain p3 where p3: "(if on \<noteq> None then maybe_confirm_plug_target device ts p2 else Some p2) = Some p3"
        "stays p2 p3" by (auto simp: wp_iff)
      have s3: "stays p p3" using s1 p2(2) p3(2) stays_trans by blast
      have "safe_at p (evaluate_kill_switch device v ts p3)" for v
        using safe_at_trans [OF s3 evaluate_kill_switch_safe [OF stays_proc_ok [OF assms s3]]] .
      with s3 p2(1) p3(1) False True show ?thesis
        by (simp add: handle_plug_state_def Let_def arm_def split: option.splits)
    next
      case False
      with \<open>on \<noteq> Some False\<close> s1 show ?thesis by (simp add: handle_plug_state_def Let_def)
    qed
  qed
qed

lemma effective_bindings_safe:
  assumes "proc_ok p"
  shows "wp (effective_bindings p) (list_all (binding_ok (p_topology p)))"
proof -
  have t: "topology_ok (p_topology p)" by (rule proc_ok_topology [OF assms])
  have dep: "list_all (binding_ok (p_topology p)) (t_bindings (p_topology p))"
    using t by (simp add: topology_ok_def)
  have "filterM (\<lambda>b. map_option Not (binding_superseded p b)) (t_bindings (p_topology p)) =
      Some (filter (\<lambda>b. binding_superseded p b = Some False) (t_bindings (p_topology p)))"
  proof (rule filterM_Some_filter)
    fix b assume "b \<in> set (t_bindings (p_topology p))"
    then have "binding_ok (p_topology p) b" using dep by (simp add: list_all_iff)
    then show "map_option Not (binding_superseded p b) = Some (binding_superseded p b = Some False)"
      by (auto simp: binding_superseded_def binding_ok_def device_name_def index_def
          split: option.splits resolved_trigger.splits)
  qed
  moreover have "list_all (binding_ok (p_topology p)) (concat (bt_values (p_resolved_plug_bindings p)))"
    using assms unfolding proc_ok_def config_ok_def bt_all_values by (auto simp: list_all_iff)
  ultimately show ?thesis using dep by (auto simp: effective_bindings_def list_all_iff)
qed

lemma tick_fires_total:
  "binding_ok (p_topology p) b \<Longrightarrow> \<exists>r. tick_fires p ts b = Some r"
  by (auto simp: tick_fires_def binding_ok_def kill_switch_params_def device_name_def index_def
      split: resolved_trigger.splits option.splits kill_switch_rule_state.splits)

lemma evaluate_kill_switch_ticks_safe: "safe (evaluate_kill_switch_ticks ts)"
  unfolding safe_def
proof (intro allI impI)
  fix p assume p: "proc_ok p"
  obtain bs where bs: "effective_bindings p = Some bs" "list_all (binding_ok (p_topology p)) bs"
    using effective_bindings_safe [OF p] by (auto simp: wp_iff)
  obtain tf where tf: "mapM (tick_fires p ts) bs = Some tf"
    using wp_mapM [of bs "tick_fires p ts" "\<lambda>_ _. True"] bs(2) tick_fires_total
    by (fastforce simp: wp_iff list_all_iff)
  have "safe_at p (for_each (\<lambda>(device, rule_name, target).
      apply_kill_switch_fired device [(rule_name, target)] ts) (concat tf) p)"
    by (rule safe_for_each [OF p])
      (auto intro: apply_kill_switch_fired_safe stays_proc_ok [OF p] split: prod.splits)
  then show "safe_at p (evaluate_kill_switch_ticks ts p)"
    using bs(1) tf by (simp add: evaluate_kill_switch_ticks_def)
qed

lemma web_set_plug_power_safe: "safe (web_set_plug_power device on ts)"
  unfolding safe_def
proof (intro allI impI)
  fix p assume p: "proc_ok p"
  have "stays p (upd_world (put_plug device ((plug (p_world p) device)
      \<lparr>plug_target := set_and_command v WebUI ts (plug_target (plug (p_world p) device))\<rparr>)) p)" for v
    by (rule stays_put_plug [OF p]) (simp add: plug_ok_target proc_ok_plug [OF p])
  then show "safe_at p (web_set_plug_power device on ts p)"
    using p device_idx_of_bound [OF proc_ok_topology [OF p]]
    by (auto simp: web_set_plug_power_def is_plug_idx_def device_kind_of_def index_def stays_refl
        Let_def split: option.splits prod.splits)
qed

section \<open>What an idle timer stands for\<close>

text \<open>
  \<open>below_run thr H s\<close>: the reports \<open>H\<close> end in an unbroken run of readings below \<open>thr\<close> that began
  at instant \<open>s\<close>.
\<close>

definition below_run :: "f64 \<Rightarrow> (instant \<times> f64) list \<Rightarrow> instant \<Rightarrow> bool" where
  "below_run thr H s =
     (\<exists>pre suf. H = pre @ suf \<and> suf \<noteq> [] \<and> fst (hd suf) = s \<and> (\<forall>x \<in> set suf. snd x < thr))"

lemma below_run_snoc: "below_run thr H s \<Longrightarrow> w < thr \<Longrightarrow> below_run thr (H @ [(ts, w)]) s"
  unfolding below_run_def
proof (elim exE conjE)
  fix pre suf assume "H = pre @ suf" "suf \<noteq> []" "fst (hd suf) = s" "\<forall>x \<in> set suf. snd x < thr" "w < thr"
  then show "\<exists>pre suf. H @ [(ts, w)] = pre @ suf \<and> suf \<noteq> [] \<and> fst (hd suf) = s \<and> (\<forall>x \<in> set suf. snd x < thr)"
    by (intro exI [of _ pre] exI [of _ "suf @ [(ts, w)]"]) auto
qed

lemma below_run_start: "w < thr \<Longrightarrow> below_run thr (H @ [(ts, w)]) ts"
  unfolding below_run_def by (intro exI [of _ H] exI [of _ "[(ts, w)]"]) simp

definition idle_rule :: "ks_map \<Rightarrow> string \<Rightarrow> instant \<Rightarrow> bool" where
  "idle_rule m n s = (bt_get m n = Some (KsIdle s))"

lemma idle_rule_get_or: "bt_get_or Inactive m n = KsIdle s \<longleftrightarrow> idle_rule m n s"
  by (auto simp: bt_get_or_def idle_rule_def split: option.splits)

lemma idle_rule_insert [simp]:
  "idle_rule (bt_insert n v m) n' s \<longleftrightarrow> (if n' = n then v = KsIdle s else idle_rule m n' s)"
  by (auto simp: idle_rule_def)

text \<open>Every idle timer of the rules \<open>rs\<close> is justified by the reports so far.\<close>

definition timers_justified :: "(instant \<times> f64) list \<Rightarrow> rule_info list \<Rightarrow> ks_map \<Rightarrow> bool" where
  "timers_justified H rs m =
     (\<forall>r \<in> set rs. \<forall>s. idle_rule m (ri_rule_name r) s \<longrightarrow> below_run (ri_threshold_watts r) H s)"

definition fires_after_holdoff ::
  "(instant \<times> f64) list \<Rightarrow> instant \<Rightarrow> rule_info list \<Rightarrow> (string \<times> string) list \<Rightarrow> bool" where
  "fires_after_holdoff H ts rs fired =
     (\<exists>r \<in> set rs. \<exists>target s. ri_target r = Some target \<and> fired = [(ri_rule_name r, target)] \<and>
        below_run (ri_threshold_watts r) H s \<and> ri_holdoff r \<le> duration_since ts s)"

lemma ks_loop_step:
  assumes "ks_loop w ts (r # rs) m = (m', fired)" and "ri_target r \<noteq> None"
    and "\<forall>s. idle_rule m (ri_rule_name r) s \<longrightarrow> w < ri_threshold_watts r \<longrightarrow>
           below_run (ri_threshold_watts r) (H @ [(ts, w)]) s"
  obtains (fire) "fires_after_holdoff (H @ [(ts, w)]) ts (r # rs) fired"
    | (cont) m2 where "ks_loop w ts rs m2 = (m', fired)"
        and "\<And>n s. n \<noteq> ri_rule_name r \<Longrightarrow> idle_rule m2 n s = idle_rule m n s"
        and "\<And>s. idle_rule m2 (ri_rule_name r) s \<Longrightarrow> below_run (ri_threshold_watts r) (H @ [(ts, w)]) s"
proof (cases "w < ri_threshold_watts r")
  case below: True
  let ?st = "bt_get_or Inactive m (ri_rule_name r)"
  show thesis
  proof (cases ?st)
    case Armed
    with below assms(1) show thesis
      by (intro cont [of "bt_insert (ri_rule_name r) (KsIdle ts) (bt_insert (ri_rule_name r) Armed m)"])
        (auto simp: Let_def intro: below_run_start)
  next
    case (KsIdle since)
    then have run: "below_run (ri_threshold_watts r) (H @ [(ts, w)]) since"
      using assms(3) below by (simp add: idle_rule_get_or)
    show thesis
    proof (cases "ri_holdoff r \<le> duration_since ts since")
      case True
      with below KsIdle assms(1,2) run show thesis
        by (intro fire) (auto simp: Let_def fires_after_holdoff_def)
    next
      case False
      with below KsIdle assms(1) run show thesis
        by (intro cont [of "bt_insert (ri_rule_name r) (KsIdle since) m"]) (auto simp: Let_def)
    qed
  qed (use below assms(1) in \<open>auto simp: Let_def intro: cont [of "bt_insert (ri_rule_name r) ?st m"]\<close>)
next
  case False
  with assms(1) show thesis
    by (intro cont [of "bt_insert (ri_rule_name r) Armed
        (bt_insert (ri_rule_name r) (bt_get_or Inactive m (ri_rule_name r)) m)"]) (auto simp: Let_def)
qed

lemma ks_loop_runs:
  assumes "distinct (map ri_rule_name rs)" and "\<forall>r \<in> set rs. ri_target r \<noteq> None"
    and "\<forall>r \<in> set rs. \<forall>s. idle_rule m (ri_rule_name r) s \<longrightarrow>
           below_run (ri_threshold_watts r) H s \<or> below_run (ri_threshold_watts r) (H @ [(ts, w)]) s"
    and "ks_loop w ts rs m = (m', fired)"
  shows "(\<forall>n s. n \<notin> set (map ri_rule_name rs) \<longrightarrow> fired = [] \<longrightarrow> idle_rule m' n s = idle_rule m n s) \<and>
    (if fired = [] then timers_justified (H @ [(ts, w)]) rs m'
     else fires_after_holdoff (H @ [(ts, w)]) ts rs fired)"
  using assms
proof (induction rs arbitrary: m)
  case Nil
  then show ?case by (simp add: timers_justified_def)
next
  case (Cons r rs)
  have just: "\<forall>s. idle_rule m (ri_rule_name r) s \<longrightarrow> w < ri_threshold_watts r \<longrightarrow>
      below_run (ri_threshold_watts r) (H @ [(ts, w)]) s"
    using Cons.prems(3) below_run_snoc by auto
  have tgt: "ri_target r \<noteq> None" using Cons.prems(2) by simp
  show ?case
  proof (cases rule: ks_loop_step [OF Cons.prems(4) tgt just, case_names fire cont])
    case fire
    then show ?thesis by (auto simp: fires_after_holdoff_def)
  next
    case (cont m2)
    have "(\<forall>n s. n \<notin> set (map ri_rule_name rs) \<longrightarrow> fired = [] \<longrightarrow> idle_rule m' n s = idle_rule m2 n s) \<and>
      (if fired = [] then timers_justified (H @ [(ts, w)]) rs m'
       else fires_after_holdoff (H @ [(ts, w)]) ts rs fired)"
    proof (rule Cons.IH [OF _ _ _ cont(1)])
      have "ri_rule_name ra \<noteq> ri_rule_name r" if "ra \<in> set rs" for ra
        using Cons.prems(1) that by (metis distinct.simps(2) image_eqI list.set_map list.simps(9))
      then show "\<forall>r \<in> set rs. \<forall>s. idle_rule m2 (ri_rule_name r) s \<longrightarrow>
          below_run (ri_threshold_watts r) H s \<or> below_run (ri_threshold_watts r) (H @ [(ts, w)]) s"
        using Cons.prems(3) cont(2) by simp
    qed (use Cons.prems(1,2) in auto)
    with Cons.prems(1) cont(2,3) show ?thesis
      by (auto simp: timers_justified_def fires_after_holdoff_def split: if_splits)
  qed
qed

section \<open>Histories of plug reports\<close>

text \<open>The rules of a plug, as the evaluation loop sees them.\<close>

definition info_of :: "topology \<Rightarrow> resolved_binding \<Rightarrow> rule_info" where
  "info_of t b =
     \<lparr>ri_rule_name = rb_name b, ri_threshold_watts = fst (the (kill_switch_params b)),
      ri_holdoff = snd (the (kill_switch_params b)),
      ri_target = map_option (\<lambda>pl. di_name (t_devices t ! pl)) (effect_target_plug (rb_effect b))\<rparr>"

lemma rule_infos:
  assumes "list_all (\<lambda>b. binding_ok t b \<and> is_power_below b) bs"
  shows "mapM (rule_info_of t) bs = Some (map (\<lambda>b. Some (info_of t b)) bs)"
proof (rule mapM_Some_map)
  fix b assume "b \<in> set bs"
  then have "binding_ok t b" "is_power_below b" using assms by (auto simp: list_all_iff)
  then show "rule_info_of t b = Some (Some (info_of t b))"
    using kill_switch_params_some [of b]
    by (auto simp: rule_info_of_def info_of_def binding_ok_def device_name_def index_def split: option.splits)
qed

lemma map_filter_Some: "List.map_filter id (map (\<lambda>b. Some (f b)) bs) = map f bs"
  by (induction bs) (simp_all add: List.map_filter_def)

definition no_timer :: "ks_map \<Rightarrow> bool" where
  "no_timer m = (\<forall>n s. \<not> idle_rule m n s)"

lemma no_timer_suppressed: "no_timer (bt_map_values (\<lambda>_. Suppressed) m)"
  by (auto simp: no_timer_def idle_rule_def)

lemma no_timer_cleared: "no_timer (bt_map_values clear_rule_state m)"
proof -
  have "clear_rule_state x \<noteq> KsIdle s" for x s by (cases x) simp_all
  then show ?thesis by (auto simp: no_timer_def idle_rule_def)
qed

lemma fire_target_state:
  assumes "fire_target ts f p = Some (e, p')" and "no_timer (kill_switch_rules (plug (p_world p) device))"
  shows "no_timer (kill_switch_rules (plug (p_world p') device))"
proof -
  have "kill_switch_rules (plug (p_world p') device) = kill_switch_rules (plug (p_world p) device) \<or>
      kill_switch_rules (plug (p_world p') device) =
        bt_map_values clear_rule_state (kill_switch_rules (plug (p_world p) device))"
    using assms(1) by (auto simp: fire_target_def Let_def on_off_clear_kill_switches_def)
  then show ?thesis using assms(2) no_timer_cleared by auto
qed

lemma fire_target_cfg: "fire_target ts f p = Some (e, p') \<Longrightarrow> cfg p' = cfg p"
  by (auto simp: fire_target_def Let_def)

lemma apply_fired_one:
  assumes "apply_kill_switch_fired device [(n, target)] ts p = Some (e, p')"
  shows "no_timer (kill_switch_rules (plug (p_world p') device)) \<and> cfg p' = cfg p \<and>
    e = (case device_idx_of (p_topology p) target of None \<Rightarrow> [] | Some d \<Rightarrow> [PublishDeviceSet d device_off])"
proof -
  let ?p = "upd_world (\<lambda>w. put_plug device (suppress_all_kill_switches (plug w device)) w) p"
  obtain e1 where f: "fire_target ts (n, target) ?p = Some (e1, p')" "e = e1"
    using assms by (auto simp: apply_kill_switch_fired_def split: Option.bind_splits prod.splits)
  have "no_timer (kill_switch_rules (plug (p_world ?p) device))"
    by (simp add: suppress_all_kill_switches_def no_timer_suppressed)
  from fire_target_state [OF f(1) this] fire_target_cfg [OF f(1)] f show ?thesis
    by (auto simp: fire_target_def Let_def split: option.splits)
qed

text \<open>
  The invariant along a history \<open>H\<close> of reports of one plug: timers are justified, and a plug
  that counts as off has none.
\<close>

definition ks_inv :: "string \<Rightarrow> resolved_binding list \<Rightarrow> (instant \<times> f64) list \<Rightarrow> processor \<Rightarrow> bool" where
  "ks_inv device bs H p =
     (let pl = plug (p_world p) device in
      timers_justified H (map (info_of (p_topology p)) bs) (kill_switch_rules pl) \<and>
      (\<not> plug_is_on pl \<longrightarrow> no_timer (kill_switch_rules pl)))"

lemma no_timer_justified: "no_timer m \<Longrightarrow> timers_justified H rs m"
  by (simp add: no_timer_def timers_justified_def)

lemma plug_is_on_rules [simp]: "plug_is_on (pl\<lparr>kill_switch_rules := m\<rparr>) = plug_is_on pl"
  by (simp add: plug_is_on_def)

lemma evaluate_kill_switch_history:
  assumes "proc_ok p" and d: "device_idx_of (p_topology p) device = Some d"
    and bs: "power_below_bindings p d = Some bs" and dist: "distinct (map rb_name bs)"
    and tgt: "\<forall>b \<in> set bs. effect_target_plug (rb_effect b) \<noteq> None"
    and on: "plug_is_on (plug (p_world p) device)"
    and just: "\<forall>b \<in> set bs. \<forall>s. idle_rule (kill_switch_rules (plug (p_world p) device)) (rb_name b) s \<longrightarrow>
       below_run (ri_threshold_watts (info_of (p_topology p) b)) H s \<or>
       below_run (ri_threshold_watts (info_of (p_topology p) b)) (H @ [(ts, w)]) s"
    and ev: "evaluate_kill_switch device w ts p = Some (e, p')"
  shows "ks_inv device bs (H @ [(ts, w)]) p' \<and> cfg p' = cfg p \<and>
    (e \<noteq> [] \<longrightarrow> (\<exists>b \<in> set bs. \<exists>s dt. below_run (ri_threshold_watts (info_of (p_topology p) b)) (H @ [(ts, w)]) s \<and>
       ri_holdoff (info_of (p_topology p) b) \<le> duration_since ts s \<and> e = [PublishDeviceSet dt device_off]))"
proof -
  let ?t = "p_topology p" and ?pl = "plug (p_world p) device"
  have d': "d < length (t_devices ?t)" by (rule device_idx_of_bound [OF proc_ok_topology [OF assms(1)] d])
  have bok: "list_all (\<lambda>b. binding_ok ?t b \<and> is_power_below b) bs"
    using power_below_bindings_safe [OF assms(1) d'] bs by simp
  obtain m fired where loop: "ks_loop w ts (map (info_of ?t) bs) (kill_switch_rules ?pl) = (m, fired)"
    by force
  let ?p = "upd_world (put_plug device (?pl\<lparr>kill_switch_rules := m\<rparr>)) p"
  have app: "if bs = [] then e = [] \<and> p' = p else apply_kill_switch_fired device fired ts ?p = Some (e, p')"
    using ev d bs loop rule_infos [OF bok] by (auto simp: evaluate_kill_switch_def map_filter_Some)
  have names: "map ri_rule_name (map (info_of ?t) bs) = map rb_name bs" by (simp add: info_of_def)
  have res: "if fired = [] then timers_justified (H @ [(ts, w)]) (map (info_of ?t) bs) m
      else fires_after_holdoff (H @ [(ts, w)]) ts (map (info_of ?t) bs) fired"
    using ks_loop_runs [OF _ _ _ loop, of H] dist just tgt
    by (simp add: names [unfolded map_map comp_def] info_of_def comp_def)
  show ?thesis
  proof (cases "bs = [] \<or> fired = []")
    case True
    then show ?thesis
      using app res on by (auto simp: ks_inv_def Let_def timers_justified_def apply_kill_switch_fired_def
          split: if_splits)
  next
    case False
    then obtain b target s where b: "b \<in> set bs" "fired = [(rb_name b, target)]"
      "below_run (ri_threshold_watts (info_of ?t b)) (H @ [(ts, w)]) s"
      "ri_holdoff (info_of ?t b) \<le> duration_since ts s"
      using res by (auto simp: fires_after_holdoff_def info_of_def)
    have "apply_kill_switch_fired device [(rb_name b, target)] ts ?p = Some (e, p')"
      using app False b(2) by simp
    from apply_fired_one [OF this] b show ?thesis
      by (auto simp: ks_inv_def Let_def no_timer_justified split: option.splits)
  qed
qed

lemma arm_rule_idle:
  "idle_rule (arm_rule seed ts (n, wt) m) n' s \<longleftrightarrow>
     (if n' = n then bt_get_or Inactive m n \<notin> {Suppressed, Armed} \<and> s = ts \<and> (\<exists>v. seed = Some v \<and> v < wt)
      else idle_rule m n' s)"
  by (auto simp: arm_rule_def Let_def split: option.splits)

lemma arm_rules_idle:
  assumes "distinct (map fst rules)"
  shows "(\<forall>n s. n \<notin> set (map fst rules) \<longrightarrow> idle_rule (fold (arm_rule seed ts) rules m) n s = idle_rule m n s) \<and>
    (\<forall>(n, wt) \<in> set rules. \<forall>s. idle_rule (fold (arm_rule seed ts) rules m) n s \<longrightarrow>
       s = ts \<and> (\<exists>v. seed = Some v \<and> v < wt))"
  using assms
proof (induction rules arbitrary: m)
  case (Cons x rules)
  obtain n wt where x: "x = (n, wt)" by force
  note IH = Cons.IH [of "arm_rule seed ts x m"]
  have "n \<notin> set (map fst rules)" "distinct (map fst rules)" using Cons.prems x by simp_all
  with IH show ?case by (auto simp: x arm_rule_idle split: if_splits)
qed simp

lemma power_below_bindings_cfg:
  assumes "cfg p' = cfg p"
  shows "power_below_bindings p' d = power_below_bindings p d"
  by (simp only: power_below_bindings_def cfg_fields [OF assms])

lemma arm_history:
  assumes d: "device_idx_of (p_topology p) device = Some d"
    and bs: "power_below_bindings p d = Some bs" and dist: "distinct (map rb_name bs)"
    and arm: "arm_kill_switch_rules device (Some w) ts p = Some p'"
  shows "cfg p' = cfg p \<and> plug_is_on (plug (p_world p') device) = plug_is_on (plug (p_world p) device) \<and>
    (\<forall>b \<in> set bs. \<forall>s. idle_rule (kill_switch_rules (plug (p_world p') device)) (rb_name b) s \<longrightarrow>
       below_run (ri_threshold_watts (info_of (p_topology p) b)) (H @ [(ts, w)]) s)"
proof -
  let ?pl = "plug (p_world p) device"
  obtain rules where rules: "mapM (\<lambda>b. do { (watts, _) \<leftarrow> kill_switch_params b; Some (rb_name b, watts) }) bs = Some rules"
    and p': "p' = upd_world (put_plug device (?pl\<lparr>kill_switch_rules :=
        fold (arm_rule (Some w) ts) rules (kill_switch_rules ?pl)\<rparr>)) p"
    using arm d bs by (auto simp: arm_kill_switch_rules_def Let_def split: Option.bind_splits)
  have "mapM (\<lambda>b. do { (watts, _) \<leftarrow> kill_switch_params b; Some (rb_name b, watts) }) xs = Some ys \<Longrightarrow>
      ys = map (\<lambda>b. (rb_name b, ri_threshold_watts (info_of t b))) xs" for xs ys t
    by (induction xs arbitrary: ys) (auto simp: info_of_def split: Option.bind_splits)
  from this [OF rules] have r: "rules = map (\<lambda>b. (rb_name b, ri_threshold_watts (info_of (p_topology p) b))) bs" .
  then have "distinct (map fst rules)" using dist by (simp add: comp_def)
  from arm_rules_idle [OF this, of "Some w" ts "kill_switch_rules ?pl"]
  have "s = ts \<and> w < ri_threshold_watts (info_of (p_topology p) b)"
    if "b \<in> set bs" "idle_rule (kill_switch_rules (plug (p_world p') device)) (rb_name b) s" for b s
    using that r p' by auto
  then have "below_run (ri_threshold_watts (info_of (p_topology p) b)) (H @ [(ts, w)]) s"
    if "b \<in> set bs" "idle_rule (kill_switch_rules (plug (p_world p') device)) (rb_name b) s" for b s
    using that below_run_start by metis
  then show ?thesis using p' by simp
qed

lemma maybe_confirm_history:
  assumes "maybe_confirm_plug_target device ts p = Some p'"
  shows "cfg p' = cfg p \<and> plug_is_on (plug (p_world p') device) = plug_is_on (plug (p_world p) device) \<and>
    kill_switch_rules (plug (p_world p') device) = kill_switch_rules (plug (p_world p) device)"
proof -
  have "confirm ts t = Some t' \<Longrightarrow> tgt_value t' = tgt_value t" for t t' :: "plug_target tass_target"
    by (auto simp: confirm_def assert_that_def split: if_splits)
  then show ?thesis
    using assms unfolding maybe_confirm_plug_target_def Let_def
    by (auto simp: plug_is_on_def split: if_splits Option.bind_splits)
qed

lemma plug_observe_rules [simp]: "kill_switch_rules (plug_observe on w ts pl) = kill_switch_rules pl"
  by (simp add: plug_observe_def Let_def split: option.splits)

lemma plug_observe_on [simp]:
  "plug_is_on (plug_observe None w ts pl) = plug_is_on pl" "plug_is_on (plug_observe (Some True) w ts pl)"
  by (simp_all add: plug_observe_def plug_is_on_def Let_def split: option.splits)

definition fired_after_idle_run ::
  "topology \<Rightarrow> resolved_binding list \<Rightarrow> (instant \<times> f64) list \<Rightarrow> instant \<Rightarrow> eff list \<Rightarrow> bool" where
  "fired_after_idle_run t bs H ts e =
     (\<exists>b \<in> set bs. \<exists>thr holdoff s dt. kill_switch_params b = Some (thr, holdoff) \<and> below_run thr H s \<and>
        holdoff \<le> duration_since ts s \<and> e = [PublishDeviceSet dt device_off])"

lemma handle_plug_state_history:
  assumes ok: "proc_ok p" and d: "device_idx_of (p_topology p) device = Some d"
    and bs: "power_below_bindings p d = Some bs" and dist: "distinct (map rb_name bs)"
    and tgt: "\<forall>b \<in> set bs. effect_target_plug (rb_effect b) \<noteq> None"
    and inv: "ks_inv device bs H p"
    and h: "handle_plug_state device on (Some w) ts p = Some (e, p')"
  shows "ks_inv device bs (H @ [(ts, max w 0)]) p' \<and> cfg p' = cfg p \<and>
    (e \<noteq> [] \<longrightarrow> fired_after_idle_run (p_topology p) bs (H @ [(ts, max w 0)]) ts e)"
proof -
  let ?pl = "plug_observe on (Some w) ts (plug (p_world p) device)"
  let ?p1 = "upd_world (put_plug device ?pl) p"
  let ?H = "H @ [(ts, max w 0)]" and ?t = "p_topology p"
  have s1: "stays p ?p1" by (rule stays_put_plug [OF ok plug_observe_ok [OF proc_ok_plug [OF ok]]])
  consider (off) "on = Some False" | (quiet) "on = None" "\<not> plug_is_on ?pl"
    | (live) "on = None \<or> on = Some True" "plug_is_on ?pl" by (cases on) auto
  then show ?thesis
  proof cases
    case off
    let ?p2 = "upd_world (put_plug device (on_off_clear_kill_switches ?pl)) ?p1"
    have "maybe_confirm_plug_target device ts ?p2 = Some p'" "e = []"
      using h off by (auto simp: handle_plug_state_def Let_def split: Option.bind_splits)
    from maybe_confirm_history [OF this(1)] this(2) show ?thesis
      by (simp add: ks_inv_def Let_def on_off_clear_kill_switches_def no_timer_cleared no_timer_justified)
  next
    case quiet
    then show ?thesis
      using h inv by (auto simp: handle_plug_state_def ks_inv_def Let_def no_timer_justified)
  next
    case live
    let ?arm = "on = Some True \<and> (\<not> plug_is_on (plug (p_world p) device) \<or>
        act_freshness (plug_actual (plug (p_world p) device)) = Unknown)"
    obtain p2 p3 where p2: "(if ?arm then arm_kill_switch_rules device (Some (max w 0)) ts ?p1 else Some ?p1) = Some p2"
      and p3: "(if on \<noteq> None then maybe_confirm_plug_target device ts p2 else Some p2) = Some p3"
      and ev: "evaluate_kill_switch device (max w 0) ts p3 = Some (e, p')"
      using h live by (auto simp: handle_plug_state_def Let_def split: Option.bind_splits)
    have ok1: "proc_ok ?p1" by (rule stays_proc_ok [OF ok s1])
    have "wp (if ?arm then arm_kill_switch_rules device (Some (max w 0)) ts ?p1 else Some ?p1) (stays ?p1)"
      by (rule wp_cond) (simp_all add: arm_kill_switch_safe [OF ok1] stays_refl [OF ok1])
    then have st2: "stays ?p1 p2" unfolding p2 by simp
    have "wp (if on \<noteq> None then maybe_confirm_plug_target device ts p2 else Some p2) (stays p2)"
      by (rule wp_cond) (simp_all add: maybe_confirm_safe stays_refl stays_proc_ok [OF ok1 st2])
    then have st3: "stays p2 p3" unfolding p3 by simp
    have ok3: "proc_ok p3" by (rule stays_proc_ok [OF stays_proc_ok [OF ok1 st2] st3])
    have c: "cfg p3 = cfg p" using s1 st2 st3 by (simp add: stays_def)
    have bs1: "power_below_bindings ?p1 d = Some bs" using bs power_below_bindings_cfg [of ?p1 p] by simp
    have j2: "plug_is_on (plug (p_world p2) device) \<and>
      (\<forall>b \<in> set bs. \<forall>s. idle_rule (kill_switch_rules (plug (p_world p2) device)) (rb_name b) s \<longrightarrow>
         below_run (ri_threshold_watts (info_of ?t b)) H s \<or>
         below_run (ri_threshold_watts (info_of ?t b)) ?H s)"
    proof (cases ?arm)
      case True
      then show ?thesis
        using arm_history [of ?p1 device d bs "max w 0" ts p2 H] d bs1 dist p2 live(2) by simp
    next
      case False
      then show ?thesis
        using p2 inv live(2) by (auto simp: ks_inv_def Let_def timers_justified_def info_of_def)
    qed
    have j3: "plug_is_on (plug (p_world p3) device) \<and>
      kill_switch_rules (plug (p_world p3) device) = kill_switch_rules (plug (p_world p2) device)"
      using p3 maybe_confirm_history j2 by (cases "on = None") auto
    have t3: "p_topology p3 = ?t" by (rule cfg_fields [OF c])
    have bs3: "power_below_bindings p3 d = Some bs" using bs power_below_bindings_cfg [OF c] by simp
    have fin: "ks_inv device bs ?H p' \<and> cfg p' = cfg p3 \<and>
      (e \<noteq> [] \<longrightarrow> (\<exists>b \<in> set bs. \<exists>s dt. below_run (ri_threshold_watts (info_of ?t b)) ?H s \<and>
         ri_holdoff (info_of ?t b) \<le> duration_since ts s \<and> e = [PublishDeviceSet dt device_off]))"
      using evaluate_kill_switch_history [OF ok3 _ bs3 dist tgt _ _ ev, of H] d j2 j3
      by (simp add: t3)
    have "kill_switch_params b = Some (ri_threshold_watts (info_of ?t b), ri_holdoff (info_of ?t b))"
      if "b \<in> set bs" for b
    proof -
      have "list_all (\<lambda>b. binding_ok ?t b \<and> is_power_below b) bs"
        using power_below_bindings_safe [OF ok device_idx_of_bound [OF proc_ok_topology [OF ok] d]] bs by simp
      then show ?thesis using kill_switch_params_some [of b] that by (auto simp: list_all_iff info_of_def)
    qed
    with fin c show ?thesis unfolding fired_after_idle_run_def by metis
  qed
qed

lemma reports_history:
  assumes "device_idx_of (p_topology p) device = Some d" and "power_below_bindings p d = Some bs"
    and "distinct (map rb_name bs)" and "\<forall>b \<in> set bs. effect_target_plug (rb_effect b) \<noteq> None"
    and "for_each (\<lambda>(ts, on, w). handle_plug_state device on (Some w) ts) rs q = Some (e0, q')"
    and "ks_inv device bs H q" and "cfg q = cfg p" and "proc_ok q"
  shows "ks_inv device bs (H @ map (\<lambda>(ts, on, w). (ts, max w 0)) rs) q' \<and> cfg q' = cfg p \<and> proc_ok q'"
  using assms(5-8)
proof (induction rs arbitrary: q H e0)
  case (Cons r rs)
  obtain ts on w where r: "r = (ts, on, w)" by (cases r) auto
  obtain e1 e2 q1 where q1: "handle_plug_state device on (Some w) ts q = Some (e1, q1)"
    and q2: "for_each (\<lambda>(ts, on, w). handle_plug_state device on (Some w) ts) rs q1 = Some (e2, q')"
    using Cons.prems(1) by (auto simp: r split: Option.bind_splits prod.splits)
  have "device_idx_of (p_topology q) device = Some d" "power_below_bindings q d = Some bs"
    using assms(1,2) cfg_fields(1) [OF Cons.prems(3)] power_below_bindings_cfg [OF Cons.prems(3)] by simp_all
  note hist = handle_plug_state_history [OF Cons.prems(4) this assms(3,4) Cons.prems(2) q1]
  have "proc_ok q1"
    using handle_plug_state_safe [OF Cons.prems(4), of device on "Some w" ts] q1 Cons.prems(4)
    by (auto simp: safe_at_def intro: stays_proc_ok)
  with Cons.IH [OF q2, of "H @ [(ts, max w 0)]"] hist Cons.prems(3) show ?case by (auto simp: r)
qed auto

section \<open>Properties\<close>

text \<open>C33: The kill switch never cuts power early. Take any history of power-carrying reports of one plug
  (meter updates, on or off reports), starting with no holdoff timer running. If the last report
  makes the controller publish anything, it publishes exactly one \<open>OFF\<close> command, and some rule of
  the plug has seen an unbroken run of readings below its threshold, up to and including this
  report, that spans at least its holdoff.\<close>

theorem kill_switch_needs_idle_run:
  assumes "proc_ok p" and "device_idx_of (p_topology p) device = Some d"
    and "power_below_bindings p d = Some bs" and "distinct (map rb_name bs)"
    and "\<forall>b \<in> set bs. effect_target_plug (rb_effect b) \<noteq> None"
    and "no_timer (kill_switch_rules (plug (p_world p) device))"
    and "for_each (\<lambda>(ts, on, w). handle_plug_state device on (Some w) ts) reports p = Some (e0, p1)"
    and "handle_plug_state device on (Some w) ts p1 = Some (e, p2)" and "e \<noteq> []"
  shows "fired_after_idle_run (p_topology p) bs
           (map (\<lambda>(ts, on, w). (ts, max w 0)) reports @ [(ts, max w 0)]) ts e"
proof -
  have "ks_inv device bs [] p" using assms(6) by (simp add: ks_inv_def Let_def no_timer_justified)
  from reports_history [OF assms(2-5) assms(7) this refl assms(1)]
  have 1: "ks_inv device bs (map (\<lambda>(ts, on, w). (ts, max w 0)) reports) p1" "cfg p1 = cfg p" "proc_ok p1"
    by auto
  have "device_idx_of (p_topology p1) device = Some d" "power_below_bindings p1 d = Some bs"
    using assms(2,3) cfg_fields(1) [OF 1(2)] power_below_bindings_cfg [OF 1(2)] by simp_all
  from handle_plug_state_history [OF 1(3) this assms(4,5) 1(1) assms(8)] assms(9) show ?thesis
    by (simp add: cfg_fields(1) [OF 1(2)])
qed

definition kettle_reports :: "(instant \<times> bool option \<times> f64) list" where
  "kettle_reports = [(from_secs 10, Some True, 2000), (from_secs 20, None, 1)]"

lemma kettle_run:
  "case for_each (\<lambda>(ts, on, w). handle_plug_state ''kettle'' on (Some w) ts) kettle_reports home of
     None \<Rightarrow> False
   | Some (e0, p1) \<Rightarrow> map_option fst (handle_plug_state ''kettle'' None (Some 1) (from_secs 80) p1)
       = Some [PublishDeviceSet 2 device_off]"
  by code_simp

theorem kill_switch_needs_idle_run_witness:
  "fired_after_idle_run house [hd house_bindings]
     [(from_secs 10, 2000), (from_secs 20, 1), (from_secs 80, 1)] (from_secs 80)
     [PublishDeviceSet 2 device_off]"
proof -
  obtain e0 p1 p2 where r: "for_each (\<lambda>(ts, on, w). handle_plug_state ''kettle'' on (Some w) ts) kettle_reports home
      = Some (e0, p1)" "handle_plug_state ''kettle'' None (Some 1) (from_secs 80) p1
      = Some ([PublishDeviceSet 2 device_off], p2)"
    using kettle_run by (auto split: option.splits prod.splits)
  have b: "device_idx_of (p_topology home) ''kettle'' = Some 2"
    "power_below_bindings home 2 = Some [hd house_bindings]"
    "no_timer (kill_switch_rules (plug (p_world home) ''kettle''))"
    by (simp_all add: home_def processor_new_def house_def device_idx_of_def power_below_bindings_def
        device_name_def index_def bindings_for_power_below_def binding_def house_bindings_def
        house_device_def world_new_def plug_def bt_get_or_def plug_default_def no_timer_def idle_rule_def)
  have "fired_after_idle_run (p_topology home) [hd house_bindings]
      (map (\<lambda>(ts, on, w). (ts, max w 0)) kettle_reports @ [(from_secs 80, max 1 0)]) (from_secs 80)
      [PublishDeviceSet 2 device_off]"
    by (rule kill_switch_needs_idle_run [OF home_ok b(1,2) _ _ b(3) r])
      (simp_all add: house_bindings_def)
  then show ?thesis by (simp add: kettle_reports_def home_def processor_new_def)
qed

text \<open>Suppression.\<close>

definition all_suppressed :: "string \<Rightarrow> resolved_binding list \<Rightarrow> processor \<Rightarrow> bool" where
  "all_suppressed device bs p =
     (\<forall>b \<in> set bs. bt_get (kill_switch_rules (plug (p_world p) device)) (rb_name b) = Some Suppressed)"

lemma ks_loop_suppressed:
  assumes "\<forall>r \<in> set rs. bt_get m (ri_rule_name r) = Some Suppressed \<and> w < ri_threshold_watts r"
  shows "\<exists>m'. ks_loop w ts rs m = (m', []) \<and>
    (\<forall>n. bt_get m n = Some Suppressed \<longrightarrow> bt_get m' n = Some Suppressed)"
  using assms
proof (induction rs arbitrary: m)
  case (Cons r rs)
  then have st: "bt_get_or Inactive m (ri_rule_name r) = Suppressed" "w < ri_threshold_watts r"
    by (simp_all add: bt_get_or_def)
  have "\<exists>m'. ks_loop w ts rs (bt_insert (ri_rule_name r) Suppressed m) = (m', []) \<and>
      (\<forall>n. bt_get (bt_insert (ri_rule_name r) Suppressed m) n = Some Suppressed \<longrightarrow> bt_get m' n = Some Suppressed)"
    by (rule Cons.IH) (use Cons.prems in auto)
  then show ?case using st Cons.prems by (auto simp: Let_def split: if_splits)
qed simp

lemma arm_rules_suppressed:
  "bt_get m n = Some Suppressed \<Longrightarrow> bt_get (fold (arm_rule seed ts) rules m) n = Some Suppressed"
proof (induction rules arbitrary: m)
  case (Cons x rules)
  have "bt_get (arm_rule seed ts x m) n = Some Suppressed"
    using Cons.prems by (auto simp: arm_rule_def Let_def bt_get_or_def split: prod.splits)
  from Cons.IH [OF this] show ?case by simp
qed simp

lemma arm_suppressed:
  "arm_kill_switch_rules device seed ts p = Some p' \<Longrightarrow> all_suppressed device bs p \<Longrightarrow>
     all_suppressed device bs p'"
  by (auto simp: arm_kill_switch_rules_def all_suppressed_def Let_def arm_rules_suppressed
      split: option.splits Option.bind_splits)

lemma evaluate_suppressed:
  assumes "proc_ok p" and "device_idx_of (p_topology p) device = Some d"
    and "power_below_bindings p d = Some bs" and "all_suppressed device bs p"
    and "\<forall>b \<in> set bs. w < ri_threshold_watts (info_of (p_topology p) b)"
    and "evaluate_kill_switch device w ts p = Some (e, p')"
  shows "e = [] \<and> all_suppressed device bs p'"
proof -
  let ?t = "p_topology p" and ?m = "kill_switch_rules (plug (p_world p) device)"
  have d': "d < length (t_devices ?t)" by (rule device_idx_of_bound [OF proc_ok_topology [OF assms(1)] assms(2)])
  have bok: "list_all (\<lambda>b. binding_ok ?t b \<and> is_power_below b) bs"
    using power_below_bindings_safe [OF assms(1) d'] assms(3) by simp
  obtain m' where "ks_loop w ts (map (info_of ?t) bs) ?m = (m', [])"
    "\<forall>n. bt_get ?m n = Some Suppressed \<longrightarrow> bt_get m' n = Some Suppressed"
    using ks_loop_suppressed [of "map (info_of ?t) bs" ?m w ts] assms(4,5)
    by (auto simp: all_suppressed_def info_of_def)
  then show ?thesis
    using assms(2-4,6) rule_infos [OF bok]
    by (auto simp: evaluate_kill_switch_def map_filter_Some apply_kill_switch_fired_def all_suppressed_def
        split: if_splits)
qed

lemma handle_suppressed:
  assumes ok: "proc_ok p" and d: "device_idx_of (p_topology p) device = Some d"
    and bs: "power_below_bindings p d = Some bs" and sup: "all_suppressed device bs p"
    and low: "\<forall>b \<in> set bs. max w 0 < ri_threshold_watts (info_of (p_topology p) b)"
    and h: "handle_plug_state device on (Some w) ts p = Some (e, p')"
  shows "e = [] \<and> all_suppressed device bs p'"
proof -
  let ?pl = "plug_observe on (Some w) ts (plug (p_world p) device)"
  let ?p1 = "upd_world (put_plug device ?pl) p"
  have s1: "stays p ?p1" by (rule stays_put_plug [OF ok plug_observe_ok [OF proc_ok_plug [OF ok]]])
  have ok1: "proc_ok ?p1" by (rule stays_proc_ok [OF ok s1])
  have sup1: "all_suppressed device bs ?p1" using sup by (simp add: all_suppressed_def)
  show ?thesis
  proof (cases "on = Some False \<or> \<not> plug_is_on ?pl")
    case True
    let ?p2 = "upd_world (put_plug device (on_off_clear_kill_switches ?pl)) ?p1"
    have "all_suppressed device bs ?p2"
      using sup1 by (simp add: all_suppressed_def on_off_clear_kill_switches_def)
    moreover have "maybe_confirm_plug_target device ts ?p2 = Some p' \<and> e = [] \<or> p' = ?p1 \<and> e = []"
      using h True by (auto simp: handle_plug_state_def Let_def split: Option.bind_splits if_splits)
    ultimately show ?thesis
      using sup1 maybe_confirm_history [of device ts ?p2 p'] by (auto simp: all_suppressed_def)
  next
    case False
    let ?arm = "on = Some True \<and> (\<not> plug_is_on (plug (p_world p) device) \<or>
        act_freshness (plug_actual (plug (p_world p) device)) = Unknown)"
    obtain p2 p3 where p2: "(if ?arm then arm_kill_switch_rules device (Some (max w 0)) ts ?p1 else Some ?p1) = Some p2"
      and p3: "(if on \<noteq> None then maybe_confirm_plug_target device ts p2 else Some p2) = Some p3"
      and ev: "evaluate_kill_switch device (max w 0) ts p3 = Some (e, p')"
      using h False by (auto simp: handle_plug_state_def Let_def split: Option.bind_splits)
    have "wp (if ?arm then arm_kill_switch_rules device (Some (max w 0)) ts ?p1 else Some ?p1) (stays ?p1)"
      by (rule wp_cond) (simp_all add: arm_kill_switch_safe [OF ok1] stays_refl [OF ok1])
    then have st2: "stays ?p1 p2" unfolding p2 by simp
    have "wp (if on \<noteq> None then maybe_confirm_plug_target device ts p2 else Some p2) (stays p2)"
      by (rule wp_cond) (simp_all add: maybe_confirm_safe stays_refl stays_proc_ok [OF ok1 st2])
    then have st3: "stays p2 p3" unfolding p3 by simp
    have c: "cfg p3 = cfg p" using s1 st2 st3 by (simp add: stays_def)
    have sup2: "all_suppressed device bs p2"
    proof (cases ?arm)
      case True
      from p2 have "arm_kill_switch_rules device (Some (max w 0)) ts ?p1 = Some p2" unfolding if_P [OF True] .
      from arm_suppressed [OF this sup1] show ?thesis .
    next
      case False
      from p2 have "?p1 = p2" unfolding if_not_P [OF False] by simp
      with sup1 show ?thesis by simp
    qed
    have sup3: "all_suppressed device bs p3"
      using p3 sup2 maybe_confirm_history [of device ts p2 p3]
      by (auto simp: all_suppressed_def split: if_splits)
    from evaluate_suppressed [OF stays_proc_ok [OF stays_proc_ok [OF ok1 st2] st3] _ _ sup3 _ ev] d bs low
    show ?thesis using cfg_fields(1) [OF c] power_below_bindings_cfg [OF c] by simp
  qed
qed

text \<open>After firing, a kill switch stays quiet until power recovers: while every reading is below
  every rule's threshold, any sequence of reports (off and on again included) publishes nothing
  and leaves all rules suppressed.\<close>

theorem kill_switch_suppressed:
  assumes "proc_ok p" and "device_idx_of (p_topology p) device = Some d"
    and "power_below_bindings p d = Some bs"
    and "\<forall>b \<in> set bs. bt_get (kill_switch_rules (plug (p_world p) device)) (rb_name b) = Some Suppressed"
    and "\<forall>(ts, on, w) \<in> set reports. \<forall>b \<in> set bs. \<forall>thr h. kill_switch_params b = Some (thr, h) \<longrightarrow> max w 0 < thr"
    and "for_each (\<lambda>(ts, on, w). handle_plug_state device on (Some w) ts) reports p = Some (e, p')"
  shows "e = [] \<and>
    (\<forall>b \<in> set bs. bt_get (kill_switch_rules (plug (p_world p') device)) (rb_name b) = Some Suppressed)"
proof -
  let ?t = "p_topology p"
  have d': "d < length (t_devices ?t)" by (rule device_idx_of_bound [OF proc_ok_topology [OF assms(1)] assms(2)])
  have "list_all (\<lambda>b. binding_ok ?t b \<and> is_power_below b) bs"
    using power_below_bindings_safe [OF assms(1) d'] assms(3) by simp
  then have thr: "\<forall>b \<in> set bs. kill_switch_params b =
      Some (ri_threshold_watts (info_of ?t b), ri_holdoff (info_of ?t b))"
    using kill_switch_params_some by (fastforce simp: list_all_iff info_of_def)
  have "e = [] \<and> all_suppressed device bs p'" if "cfg q = cfg p" "proc_ok q" "all_suppressed device bs q"
    "for_each (\<lambda>(ts, on, w). handle_plug_state device on (Some w) ts) reports q = Some (e, p')" for q
    using that assms(5)
  proof (induction reports arbitrary: q e)
    case (Cons r rs)
    obtain ts on w where r: "r = (ts, on, w)" by (cases r) auto
    obtain e1 e2 q1 where q1: "handle_plug_state device on (Some w) ts q = Some (e1, q1)"
      and q2: "for_each (\<lambda>(ts, on, w). handle_plug_state device on (Some w) ts) rs q1 = Some (e2, p')"
      and e: "e = e1 @ e2"
      using Cons.prems(4) by (auto simp: r split: Option.bind_splits prod.splits)
    have st: "stays q q1"
      using handle_plug_state_safe [OF Cons.prems(2), of device on "Some w" ts] q1 by (simp add: safe_at_def)
    have t: "p_topology q = ?t" "power_below_bindings q d = Some bs"
      using cfg_fields(1) [OF Cons.prems(1)] power_below_bindings_cfg [OF Cons.prems(1)] assms(3) by simp_all
    have "e1 = [] \<and> all_suppressed device bs q1"
      using handle_suppressed [OF Cons.prems(2) _ t(2) Cons.prems(3) _ q1] assms(2) t(1) Cons.prems(5) r thr
      by auto
    moreover have "e2 = [] \<and> all_suppressed device bs p'"
      using Cons.IH [of q1 e2] st Cons.prems calculation q2 stays_proc_ok [OF Cons.prems(2) st]
      by (auto simp: stays_def)
    ultimately show ?case using e by simp
  qed simp
  from this [OF refl assms(1) _ assms(6)] assms(4) show ?thesis by (simp add: all_suppressed_def)
qed

definition kettle_fired :: processor where
  "kettle_fired = upd_world (put_plug ''kettle''
     (plug_default\<lparr>kill_switch_rules := [(''kettle-idle'', Suppressed)]\<rparr>)) home"

lemma kettle_fired_ok: "proc_ok kettle_fired"
  unfolding kettle_fired_def by (rule proc_ok_put_plug [OF home_ok]) simp

theorem kill_switch_suppressed_witness:
  "\<exists>p'. for_each (\<lambda>(ts, on, w). handle_plug_state ''kettle'' on (Some w) ts)
      [(from_secs 10, Some True, 1), (from_secs 90, None, 1)] kettle_fired = Some ([], p')"
proof -
  let ?rs = "[(from_secs 10, Some True, 1), (from_secs 90, None, 1)] :: (instant \<times> bool option \<times> f64) list"
  let ?run = "for_each (\<lambda>(ts, on, w). handle_plug_state ''kettle'' on (Some w) ts) ?rs kettle_fired"
  have "safe_at kettle_fired ?run"
    by (rule safe_for_each [OF kettle_fired_ok])
      (auto intro: handle_plug_state_safe stays_proc_ok [OF kettle_fired_ok] split: prod.splits)
  then obtain e p' where r: "?run = Some (e, p')" by (auto simp: safe_at_def wp_iff)
  have b: "device_idx_of (p_topology kettle_fired) ''kettle'' = Some 2"
    "power_below_bindings kettle_fired 2 = Some [hd house_bindings]"
    "bt_get (kill_switch_rules (plug (p_world kettle_fired) ''kettle'')) ''kettle-idle'' = Some Suppressed"
    by (simp_all add: kettle_fired_def home_def processor_new_def house_def device_idx_of_def
        power_below_bindings_def device_name_def index_def bindings_for_power_below_def binding_def
        house_bindings_def house_device_def)
  have "e = []"
    using kill_switch_suppressed [OF kettle_fired_ok b(1,2) _ _ r] b(3)
    by (simp add: house_bindings_def kill_switch_params_def)
  with r show ?thesis by blast
qed


definition kettle_idle :: processor where
  "kettle_idle = upd_world (put_plug ''kettle''
     (plug_default\<lparr>kill_switch_rules := [(''kettle-idle'', KsIdle 0)],
        plug_actual := actual_update \<lparr>pa_on = True\<rparr> 0 actual_new\<rparr>)) home"


end
