(* ===== verification/HeatingBase.thy ===== *)
theory HeatingBase
  imports House
begin

text \<open>
  The shared part of the heating logic (\<open>src/crates/mqtt-controller/src/logic/heating.rs\<close>,
  \<open>logic/heating/boost.rs\<close>, \<open>logic/heating/telemetry.rs\<close>): valve boosts, heat-demand switches, pump
  tracking, and the ingestion of valve and wall-thermostat reports. Shown: reports never panic and
  keep the invariant; a boost lasts exactly until the earlier of its two deadlines; the pump
  timestamps follow the relay reports.
\<close>

section \<open>Constants and mode enforcement\<close>

definition MIN_SETPOINT :: f64 where
  "MIN_SETPOINT = 5"

definition MAX_SETPOINT :: f64 where
  "MAX_SETPOINT = 30"

definition WT_REFRESH_INTERVAL :: duration where
  "WT_REFRESH_INTERVAL = from_secs (5 * 60)"

definition WT_STALE_PROBE_INTERVAL :: duration where
  "WT_STALE_PROBE_INTERVAL = from_secs 60"

definition reassert_manual_mode_if_needed :: "device_idx \<Rightarrow> string option \<Rightarrow> eff list" where
  "reassert_manual_mode_if_needed d current_mode =
     (case current_mode of
        None \<Rightarrow> []
      | Some m \<Rightarrow> if m = ''manual'' then [] else [PublishDeviceSet d (POperatingMode ''manual'')])"

definition reassert_system_mode_heat_if_needed :: "device_idx \<Rightarrow> string option \<Rightarrow> eff list" where
  "reassert_system_mode_heat_if_needed d current_mode =
     (case current_mode of
        None \<Rightarrow> []
      | Some m \<Rightarrow> if m = ''heat'' then [] else [PublishDeviceSet d (PSystemMode ''heat'')])"

text \<open>\<open>if let Some(idx) = topology.device_idx(name) { actions.push(..) }\<close>\<close>

definition device_set_effect :: "topology \<Rightarrow> string \<Rightarrow> payload \<Rightarrow> eff list" where
  "device_set_effect t name pay =
     (case device_idx_of t name of None \<Rightarrow> [] | Some d \<Rightarrow> [PublishDeviceSet d pay])"

definition device_get_effect :: "topology \<Rightarrow> string \<Rightarrow> eff list" where
  "device_get_effect t name =
     (case device_idx_of t name of None \<Rightarrow> [] | Some d \<Rightarrow> [PublishDeviceGet d])"

section \<open>Schedules, demand switches and boosts\<close>

definition valve_schedule :: "processor \<Rightarrow> string \<Rightarrow> string \<Rightarrow> heating_config \<Rightarrow> temperature_schedule option" where
  "valve_schedule p device name hc =
     (case bt_get (schedule_overrides (p_settings p)) device of
        Some s \<Rightarrow> Some s | None \<Rightarrow> bt_get (hc_schedules hc) name)"

definition valve_schedule_overridden :: "processor \<Rightarrow> string \<Rightarrow> bool" where
  "valve_schedule_overridden p device = bt_contains_key (schedule_overrides (p_settings p)) device"

definition heat_demand_enabled :: "processor \<Rightarrow> string \<Rightarrow> bool" where
  "heat_demand_enabled p device = (\<not> bs_contains (disabled_heat_demand (p_settings p)) device)"

definition validate_heat_demand_device :: "processor \<Rightarrow> string \<Rightarrow> string + unit" where
  "validate_heat_demand_device p device =
     (if (case p_heating_config p of None \<Rightarrow> False
          | Some c \<Rightarrow> list_ex (\<lambda>z. list_ex (\<lambda>zt. zt_device zt = device) (zone_trvs z)) (hc_zones c))
      then Inr () else Inl (''Unknown heating valve: '' @ device))"

definition set_heat_demand_enabled :: "string \<Rightarrow> bool \<Rightarrow> processor \<Rightarrow> (string + unit) \<times> processor" where
  "set_heat_demand_enabled device enabled p =
     (case validate_heat_demand_device p device of
        Inl e \<Rightarrow> (Inl e, p)
      | Inr _ \<Rightarrow>
          (Inr (), p\<lparr>p_settings := (p_settings p)\<lparr>disabled_heat_demand :=
             (if enabled then bs_remove device else bs_insert device)
               (disabled_heat_demand (p_settings p))\<rparr>\<rparr>))"

text \<open>The \<open>expect\<close> on the deadline panics when a boost has none.\<close>

definition active_boost :: "processor \<Rightarrow> string \<Rightarrow> valve_boost option option" where
  "active_boost p device =
     (case bt_get (boosts (p_settings p)) device of
        None \<Rightarrow> Some None
      | Some b \<Rightarrow>
          do { deadline \<leftarrow> bt_get (p_boost_deadlines p) device;
               Some (if ck_now (p_clock p) < deadline \<and>
                        ck_epoch_millis (p_clock p) < vb_ends_at_epoch_ms b
                     then Some b else None) })"

definition effective_heat_demand_enabled :: "processor \<Rightarrow> string \<Rightarrow> bool option" where
  "effective_heat_demand_enabled p device =
     (if heat_demand_enabled p device then Some True
      else do { b \<leftarrow> active_boost p device; Some (b \<noteq> None) })"

definition boost_remaining_ms :: "processor \<Rightarrow> string \<Rightarrow> u64 option option" where
  "boost_remaining_ms p device =
     do { ab \<leftarrow> active_boost p device;
          case ab of
            None \<Rightarrow> Some None
          | Some b \<Rightarrow>
              do { deadline \<leftarrow> bt_get (p_boost_deadlines p) device;
                   Some (Some (min (as_millis (duration_since deadline (ck_now (p_clock p))))
                                   (vb_ends_at_epoch_ms b - ck_epoch_millis (p_clock p)))) } }"

definition apply_valve_boost :: "string \<Rightarrow> valve_boost option \<Rightarrow> processor \<Rightarrow> processor" where
  "apply_valve_boost device boost p =
     (case boost of
        Some b \<Rightarrow>
          let p1 = (if map_option vb_ends_at_epoch_ms (bt_get (boosts (p_settings p)) device)
                       \<noteq> Some (vb_ends_at_epoch_ms b)
                    then p\<lparr>p_boost_deadlines := bt_insert device
                           (ck_now (p_clock p) +
                              from_millis (vb_ends_at_epoch_ms b - ck_epoch_millis (p_clock p)))
                           (p_boost_deadlines p)\<rparr>
                    else p)
          in p1\<lparr>p_settings := (p_settings p1)\<lparr>boosts := bt_insert device b (boosts (p_settings p1))\<rparr>\<rparr>
      | None \<Rightarrow>
          p\<lparr>p_settings := (p_settings p)\<lparr>boosts := bt_remove device (boosts (p_settings p))\<rparr>,
            p_boost_deadlines := bt_remove device (p_boost_deadlines p)\<rparr>)"

definition restore_boost_deadlines :: "processor \<Rightarrow> processor" where
  "restore_boost_deadlines p =
     p\<lparr>p_boost_deadlines := bt_map_values
         (\<lambda>b. ck_now (p_clock p) + from_millis (vb_ends_at_epoch_ms b - ck_epoch_millis (p_clock p)))
         (boosts (p_settings p))\<rparr>"

section \<open>Pump tracking\<close>

definition min_demand :: "processor \<Rightarrow> u8 \<times> u8" where
  "min_demand p =
     (case p_heating_config p of
        None \<Rightarrow> (5, 80)
      | Some c \<Rightarrow> (min_demand_percent (hc_heat_pump c), min_demand_percent_fallback (hc_heat_pump c)))"

definition is_pump_running :: "processor \<Rightarrow> bool" where
  "is_pump_running p = list_ex is_relay_on (bt_values (w_heating_zones (p_world p)))"

definition active_relay_count :: "processor \<Rightarrow> nat" where
  "active_relay_count p = length (filter is_relay_on (bt_values (w_heating_zones (p_world p))))"

definition option_or :: "'a option \<Rightarrow> 'a option \<Rightarrow> 'a option" where
  "option_or a b = (case a of None \<Rightarrow> b | Some x \<Rightarrow> Some x)"

definition effective_pump_on_since :: "processor \<Rightarrow> instant option" where
  "effective_pump_on_since p =
     (let earliest_pending = iter_min (List.map_filter (\<lambda>hz. tgt_since (hz_target hz))
            (filter (\<lambda>hz. tgt_value (hz_target hz) = Some Heating) (bt_values (w_heating_zones (p_world p)))))
      in case (p_pump_on_since p, earliest_pending) of
           (Some a, Some b) \<Rightarrow> Some (min a b)
         | (a, b) \<Rightarrow> option_or a b)"

definition effective_pump_off_since :: "processor \<Rightarrow> instant option" where
  "effective_pump_off_since p =
     (let latest_pending = iter_max (List.map_filter (\<lambda>hz. tgt_since (hz_target hz))
            (filter (\<lambda>hz. tgt_value (hz_target hz) = Some HeatOff \<and> tgt_phase (hz_target hz) = Commanded)
               (bt_values (w_heating_zones (p_world p)))))
      in case (p_pump_off_since p, latest_pending) of
           (Some a, Some b) \<Rightarrow> Some (max a b)
         | (a, b) \<Rightarrow> option_or a b)"

section \<open>Valve reports\<close>

definition fresh_baseline :: "instant \<Rightarrow> trv_entity \<Rightarrow> f64 option" where
  "fresh_baseline now tv =
     (if has_fresh_temp now tv then Option.bind (act_value (trv_actual tv)) ta_local_temperature else None)"

definition is_known_trv :: "heating_config \<Rightarrow> string \<Rightarrow> bool" where
  "is_known_trv hc device = list_ex (\<lambda>z. list_ex (\<lambda>zt. zt_device zt = device) (zone_trvs z)) (hc_zones hc)"

record trv_report =
  tr_local_temperature :: "f64 option"
  tr_pi_heating_demand :: "u8 option"
  tr_running_state :: "string option"
  tr_occupied_heating_setpoint :: "f64 option"
  tr_operating_mode :: "string option"
  tr_system_mode :: "string option"
  tr_battery :: "u8 option"

definition merged_running_state :: "trv_report \<Rightarrow> trv_actual \<Rightarrow> heating_running_state \<times> bool" where
  "merged_running_state r prev =
     (let (rs, seen) = (case Option.bind (tr_running_state r) running_state_parse of
                          Some parsed \<Rightarrow> (parsed, True)
                        | None \<Rightarrow> (ta_running_state prev, ta_running_state_seen prev))
      in case tr_pi_heating_demand r of
           Some demand \<Rightarrow>
             if tr_running_state r = None \<and> seen
             then (if demand > 0 then HrsHeat else HrsIdle, seen) else (rs, seen)
         | None \<Rightarrow> (rs, seen))"

definition merged_actual :: "trv_report \<Rightarrow> trv_actual \<Rightarrow> trv_actual" where
  "merged_actual r prev =
     (let (rs, seen) = merged_running_state r prev in
      \<lparr>ta_local_temperature = option_or (tr_local_temperature r) (ta_local_temperature prev),
       ta_pi_heating_demand = option_or (tr_pi_heating_demand r) (ta_pi_heating_demand prev),
       ta_running_state = rs, ta_running_state_seen = seen,
       ta_setpoint = option_or (tr_occupied_heating_setpoint r) (ta_setpoint prev),
       ta_operating_mode = option_or (tr_operating_mode r) (ta_operating_mode prev),
       ta_system_mode = option_or (tr_system_mode r) (ta_system_mode prev),
       ta_battery = option_or (tr_battery r) (ta_battery prev)\<rparr>)"

definition track_temperature :: "f64 option \<Rightarrow> instant \<Rightarrow> trv_entity \<Rightarrow> trv_entity" where
  "track_temperature local_temperature now tv =
     (case local_temperature of
        None \<Rightarrow> tv
      | Some temp \<Rightarrow>
          let tv1 = tv\<lparr>trv_last_temp_at := Some now\<rparr>; ow = trv_open_window tv1 in
          if ow_baseline_established_at ow = None then tv1
          else
            let ow1 = (if ow_temp_at_relay_on ow = None then ow\<lparr>ow_temp_at_relay_on := Some temp\<rparr> else ow)
            in tv1\<lparr>trv_open_window := ow1\<lparr>ow_temp_high_water :=
                 Some (case ow_temp_high_water ow1 of None \<Rightarrow> temp | Some hw \<Rightarrow> max hw temp)\<rparr>\<rparr>)"

fun setpoint_of :: "trv_target \<Rightarrow> f64" where
  "setpoint_of (Setpoint t) = t"
| "setpoint_of (Inhibited until) = MIN_SETPOINT"
| "setpoint_of (ForcedOpen r) = MAX_SETPOINT"

fun is_setpoint :: "trv_target \<Rightarrow> bool" where
  "is_setpoint (Setpoint t) = True"
| "is_setpoint _ = False"

definition confirm_setpoint :: "f64 option \<Rightarrow> instant \<Rightarrow> tick_gen \<Rightarrow> trv_entity \<Rightarrow> trv_entity option" where
  "confirm_setpoint reported now gen tv =
     (case (reported, tgt_value (trv_target tv)) of
        (Some sp, Some target) \<Rightarrow>
          let target_val = setpoint_of target; phase = tgt_phase (trv_target tv) in
          if \<bar>target_val - sp\<bar> < 1/10 then
            (if phase = Commanded \<or> phase = StaleTarget then
               do { t \<leftarrow> confirm now (trv_target tv);
                    let tv1 = tv\<lparr>trv_target := t\<rparr>;
                    Some (if is_setpoint target then tv1\<lparr>trv_last_force_reason := None\<rparr> else tv1) }
             else Some tv)
          else if phase = Confirmed then
            Some (tv\<lparr>trv_target := set_and_command target
                       (case tgt_owner (trv_target tv) of None \<Rightarrow> Schedule | Some ow \<Rightarrow> ow) now (trv_target tv),
                     trv_setpoint_dirty_gen := gen\<rparr>)
          else Some tv
      | _ \<Rightarrow> Some tv)"

definition handle_trv_state :: "heating_config \<Rightarrow> string \<Rightarrow> trv_report \<Rightarrow> processor \<Rightarrow> processor option" where
  "handle_trv_state hc device r p =
     (let now = ck_now (p_clock p) in
      if \<not> is_known_trv hc device then Some p
      else
        let tv = (trv (p_world p) device)\<lparr>trv_last_seen := Some now\<rparr>;
            prev = (case act_value (trv_actual tv) of None \<Rightarrow> trv_actual_default | Some a \<Rightarrow> a);
            tv1 = tv\<lparr>trv_actual := actual_update (merged_actual r prev) now (trv_actual tv)\<rparr>;
            tv2 = track_temperature (tr_local_temperature r) now tv1
        in do { tv3 \<leftarrow> confirm_setpoint (tr_occupied_heating_setpoint r) now (p_heating_tick_gen p) tv2;
                Some (upd_world (put_trv device tv3) p) })"

section \<open>Wall-thermostat reports\<close>

definition RELAY_ACTUATION_GRACE :: duration where
  "RELAY_ACTUATION_GRACE = from_secs 15"

definition upd_zone :: "string \<Rightarrow> (heating_zone_entity \<Rightarrow> heating_zone_entity) \<Rightarrow> processor \<Rightarrow> processor" where
  "upd_zone n f p = upd_world (\<lambda>w. put_heating_zone n (f (heating_zone w n)) w) p"

definition confirm_zone :: "string \<Rightarrow> instant \<Rightarrow> processor \<Rightarrow> processor option" where
  "confirm_zone n now p =
     do { t \<leftarrow> confirm now (hz_target (heating_zone (p_world p) n));
          Some (upd_zone n (\<lambda>z. z\<lparr>hz_target := t\<rparr>) p) }"

text \<open>The report repeats the known relay state.\<close>

definition wt_repeat ::
  "string \<Rightarrow> bool \<Rightarrow> f64 option \<Rightarrow> bool \<Rightarrow> bool \<Rightarrow> nat \<Rightarrow> instant \<Rightarrow> processor \<Rightarrow> processor option" where
  "wt_repeat n on temp first_contact pump_running relays_on_before now p0 =
     (let p = (if first_contact \<and> \<not> on \<and> \<not> pump_running
               then p0\<lparr>p_pump_off_since := option_or (p_pump_off_since p0) (Some now)\<rparr> else p0);
          z = heating_zone (p_world p) n
      in if \<not> on \<and> tgt_phase (hz_target z) = Commanded then
           (case tgt_value (hz_target z) of
              Some Heating \<Rightarrow>
                if (case tgt_since (hz_target z) of None \<Rightarrow> False
                    | Some since \<Rightarrow> duration_since now since < RELAY_ACTUATION_GRACE)
                then Some p
                else do { t \<leftarrow> confirm now (set_and_command HeatOff Schedule now (hz_target z));
                          let p1 = upd_zone n (\<lambda>z. z\<lparr>
                            hz_actual := actual_update \<lparr>hza_relay_on = False, hza_temperature = temp\<rparr> now (hz_actual z),
                            hz_target := t, hz_relay_on_since := None\<rparr>) p;
                          Some (if relays_on_before = 0
                                then p1\<lparr>p_pump_off_since := Some now, p_pump_on_since := None\<rparr> else p1) }
            | Some HeatOff \<Rightarrow>
                do { p1 \<leftarrow> confirm_zone n now p; Some (p1\<lparr>p_pump_off_since := Some now\<rparr>) }
            | None \<Rightarrow> Some p)
         else Some p)"

definition confirm_if_actionable ::
  "string \<Rightarrow> heating_zone_target \<Rightarrow> instant \<Rightarrow> processor \<Rightarrow> processor option" where
  "confirm_if_actionable n v now p =
     (let z = heating_zone (p_world p) n in
      if tgt_value (hz_target z) = Some v \<and> is_actionable (hz_target z) then confirm_zone n now p else Some p)"

definition upd_trv :: "string \<Rightarrow> (trv_entity \<Rightarrow> trv_entity) \<Rightarrow> processor \<Rightarrow> processor" where
  "upd_trv d f p = upd_world (\<lambda>w. put_trv d (f (trv w d)) w) p"

definition wt_turned_on :: "string \<Rightarrow> string list \<Rightarrow> nat \<Rightarrow> instant \<Rightarrow> processor \<Rightarrow> processor option" where
  "wt_turned_on n trv_devices relays_on_before now p =
     (let p1 = upd_zone n (\<lambda>z. z\<lparr>hz_relay_on_since := Some now\<rparr>) p;
          p2 = (if p_startup_complete p1
                then fold (\<lambda>d. upd_trv d (\<lambda>tv. tv\<lparr>trv_open_window :=
                       start_detection now (fresh_baseline now tv) (trv_open_window tv)\<rparr>)) trv_devices p1
                else p1)
      in do { p3 \<leftarrow> confirm_if_actionable n Heating now p2;
              Some (if relays_on_before = 0
                    then p3\<lparr>p_pump_on_since := Some now, p_pump_off_since := None\<rparr> else p3) })"

definition release_trv :: "instant \<Rightarrow> trv_entity \<Rightarrow> trv_entity" where
  "release_trv now tv =
     (let tv1 = tv\<lparr>trv_open_window := open_window_reset (trv_open_window tv)\<rparr>
      in if tgt_value (trv_target tv1) = Some (ForcedOpen MinCycle)
         then tv1\<lparr>trv_target := set_and_command (Setpoint 0) Schedule now (trv_target tv1)\<rparr> else tv1)"

definition wt_turned_off :: "string \<Rightarrow> string list \<Rightarrow> nat \<Rightarrow> instant \<Rightarrow> processor \<Rightarrow> processor option" where
  "wt_turned_off n trv_devices relays_on_before now p =
     (let p1 = upd_zone n (\<lambda>z. z\<lparr>hz_relay_on_since := None\<rparr>) p;
          p2 = fold (\<lambda>d. upd_trv d (release_trv now)) trv_devices p1
      in do { p3 \<leftarrow> confirm_if_actionable n HeatOff now p2;
              Some (if relays_on_before = 1
                    then p3\<lparr>p_pump_off_since := Some now, p_pump_on_since := None\<rparr> else p3) })"

text \<open>A confirmed target that the relay contradicts becomes a command again.\<close>

definition wt_redirty :: "string \<Rightarrow> instant \<Rightarrow> processor \<Rightarrow> processor option" where
  "wt_redirty n now p =
     (let z = heating_zone (p_world p) n;
          mismatch = (case tgt_value (hz_target z) of
                        Some HeatOff \<Rightarrow> is_relay_on z | Some Heating \<Rightarrow> \<not> is_relay_on z | None \<Rightarrow> False)
      in if tgt_phase (hz_target z) = Confirmed \<and> mismatch then
           do { v \<leftarrow> tgt_value (hz_target z);
                ow \<leftarrow> tgt_owner (hz_target z);
                Some (upd_zone n (\<lambda>z. z\<lparr>hz_target := set_and_command v ow now (hz_target z)\<rparr>) p) }
         else Some p)"

definition handle_wall_thermostat_state ::
  "heating_config \<Rightarrow> string \<Rightarrow> bool option \<Rightarrow> f64 option \<Rightarrow> string option \<Rightarrow> processor \<Rightarrow> processor option" where
  "handle_wall_thermostat_state hc device relay_on temp mode p =
     (let now = ck_now (p_clock p) in
      case find (\<lambda>z. zone_relay z = device) (hc_zones hc) of
        None \<Rightarrow> Some p
      | Some zone_cfg \<Rightarrow>
          let n = zone_name zone_cfg;
              trv_devices = map zt_device (zone_trvs zone_cfg);
              p1 = upd_zone n (\<lambda>z. z\<lparr>hz_wt_last_seen := Some now,
                     hz_wt_operating_mode := option_or mode (hz_wt_operating_mode z)\<rparr>) p
          in case relay_on of
               None \<Rightarrow> Some p1
             | Some on \<Rightarrow>
                 let relays_on_before = active_relay_count p1;
                     pump_running = is_pump_running p1;
                     z = heating_zone (p_world p1) n;
                     first_contact = (\<not> hz_relay_state_known z);
                     was_on = is_relay_on z;
                     reading = \<lparr>hza_relay_on = on, hza_temperature = temp\<rparr>;
                     p2 = upd_zone n (\<lambda>z. let z' = z\<lparr>hz_relay_state_known := True\<rparr> in
                            if first_contact then z'\<lparr>hz_actual := actual_update reading now (hz_actual z')\<rparr> else z') p1
                 in if was_on = on
                    then wt_repeat n on temp first_contact pump_running relays_on_before now p2
                    else do {
                      let p3 = upd_zone n (\<lambda>z. z\<lparr>hz_actual := actual_update reading now (hz_actual z)\<rparr>) p2;
                      p4 \<leftarrow> (if on then wt_turned_on n trv_devices relays_on_before now p3
                             else wt_turned_off n trv_devices relays_on_before now p3);
                      wt_redirty n now p4 })"

section \<open>Events\<close>

definition check_trv_mode :: "processor \<Rightarrow> string \<Rightarrow> eff list option" where
  "check_trv_mode p device =
     (case device_idx_of (p_topology p) device of
        None \<Rightarrow> Some []
      | Some d \<Rightarrow>
          do { v \<leftarrow> trv_variant (p_topology p) device;
               let variant = (case v of None \<Rightarrow> TRV_VARIANT_BOSCH_BTH_RA | Some x \<Rightarrow> x);
               let actual = Option.bind (bt_get (w_trvs (p_world p)) device) (\<lambda>tv. act_value (trv_actual tv));
               Some (if variant = TRV_VARIANT_SONOFF_TRVZB
                     then reassert_system_mode_heat_if_needed d (Option.bind actual ta_system_mode)
                     else reassert_manual_mode_if_needed d (Option.bind actual ta_operating_mode)) })"

definition check_wt_mode :: "processor \<Rightarrow> string \<Rightarrow> eff list" where
  "check_wt_mode p device =
     (case (p_heating_config p, device_idx_of (p_topology p) device) of
        (Some hc, Some d) \<Rightarrow>
          reassert_manual_mode_if_needed d
            (Option.bind (find (\<lambda>z. zone_relay z = device) (hc_zones hc)) (\<lambda>z.
               Option.bind (bt_get (w_heating_zones (p_world p)) (zone_name z)) hz_wt_operating_mode))
      | _ \<Rightarrow> [])"

fun handle_heating_event :: "event \<Rightarrow> handler" where
  "handle_heating_event (TrvState device temp demand rs sp om sm batt ts) p =
     (case p_heating_config p of
        None \<Rightarrow> Some ([], p)
      | Some hc \<Rightarrow>
          do { p1 \<leftarrow> handle_trv_state hc device
                 \<lparr>tr_local_temperature = temp, tr_pi_heating_demand = demand, tr_running_state = rs,
                  tr_occupied_heating_setpoint = sp, tr_operating_mode = om, tr_system_mode = sm,
                  tr_battery = batt\<rparr> p;
               e \<leftarrow> check_trv_mode p1 device;
               Some (e, p1) })"
| "handle_heating_event (WallThermostatState device relay_on temp mode ts) p =
     (case p_heating_config p of
        None \<Rightarrow> Some ([], p)
      | Some hc \<Rightarrow>
          do { p1 \<leftarrow> handle_wall_thermostat_state hc device relay_on temp mode p;
               Some (check_wt_mode p1 device, p1) })"
| "handle_heating_event _ p = Some ([], p)"

section \<open>Safety\<close>

lemma cfg_volatile [simp]:
  "cfg (p\<lparr>p_pump_on_since := a\<rparr>) = cfg p" "cfg (p\<lparr>p_pump_off_since := b\<rparr>) = cfg p"
  "cfg (p\<lparr>p_heating_tick_gen := c\<rparr>) = cfg p" "cfg (p\<lparr>p_startup_complete := d\<rparr>) = cfg p"
  "cfg (p\<lparr>p_last_wt_refresh := e\<rparr>) = cfg p" "cfg (p\<lparr>p_ha_last_published := f\<rparr>) = cfg p"
  "cfg (p\<lparr>p_ha_discovery_published := g\<rparr>) = cfg p"
  by (simp_all add: cfg_def)

lemma stays_volatile [simp]:
  "stays q (p\<lparr>p_pump_on_since := a\<rparr>) = stays q p" "stays q (p\<lparr>p_pump_off_since := b\<rparr>) = stays q p"
  "stays q (p\<lparr>p_heating_tick_gen := c\<rparr>) = stays q p" "stays q (p\<lparr>p_startup_complete := d\<rparr>) = stays q p"
  "stays q (p\<lparr>p_last_wt_refresh := e\<rparr>) = stays q p" "stays q (p\<lparr>p_ha_last_published := f\<rparr>) = stays q p"
  "stays q (p\<lparr>p_ha_discovery_published := g\<rparr>) = stays q p"
  by (simp_all add: stays_def)

lemma stays_state: "stays p q \<Longrightarrow> state_ok p (p_world q)"
  by (simp add: stays_def)

lemma stays_upd_zone:
  "stays p q \<Longrightarrow> (\<And>z. heating_zone_ok z \<Longrightarrow> heating_zone_ok (f z)) \<Longrightarrow> stays p (upd_zone n f q)"
  using state_ok_fetch(5) [of p "p_world q" n]
  by (simp add: stays_def upd_zone_def state_ok_store)

lemma stays_upd_zone_at:
  "stays p q \<Longrightarrow> heating_zone_ok (f (heating_zone (p_world q) n)) \<Longrightarrow> stays p (upd_zone n f q)"
  by (simp add: stays_def upd_zone_def state_ok_store)

lemma stays_upd_trv:
  "stays p q \<Longrightarrow> (\<And>z. trv_ok z \<Longrightarrow> trv_ok (f z)) \<Longrightarrow> stays p (upd_trv n f q)"
  using state_ok_fetch(6) [of p "p_world q" n]
  by (simp add: stays_def upd_trv_def state_ok_store)

lemma stays_fold:
  "stays p q \<Longrightarrow> (\<And>x q. stays p q \<Longrightarrow> stays p (f x q)) \<Longrightarrow> stays p (fold f xs q)"
  by (induction xs arbitrary: q) simp_all

lemma zone_ok_simps [simp]:
  "heating_zone_ok (z\<lparr>hz_relay_on_since := a\<rparr>) = heating_zone_ok z"
  "heating_zone_ok (z\<lparr>hz_wt_operating_mode := b\<rparr>) = heating_zone_ok z"
  "heating_zone_ok (z\<lparr>hz_wt_last_seen := c\<rparr>) = heating_zone_ok z"
  "heating_zone_ok (z\<lparr>hz_wt_last_stale_probe := d\<rparr>) = heating_zone_ok z"
  "heating_zone_ok (z\<lparr>hz_relay_state_known := e\<rparr>) = heating_zone_ok z"
  "heating_zone_ok (z\<lparr>hz_desired_relay_gen := g\<rparr>) = heating_zone_ok z"
  by (simp_all add: heating_zone_ok_def)

lemma zone_ok_actual: "heating_zone_ok z \<Longrightarrow> heating_zone_ok (z\<lparr>hz_actual := actual_update v ts a\<rparr>)"
  by (simp add: heating_zone_ok_def)

lemma zone_ok_target:
  "heating_zone_ok z \<Longrightarrow> target_ok t \<Longrightarrow> tgt_phase t \<noteq> Pending \<Longrightarrow> heating_zone_ok (z\<lparr>hz_target := t\<rparr>)"
  by (simp add: heating_zone_ok_def)

lemma trv_ok_simps [simp]:
  "trv_ok (tv\<lparr>trv_open_window := a\<rparr>) = trv_ok tv" "trv_ok (tv\<lparr>trv_last_seen := b\<rparr>) = trv_ok tv"
  "trv_ok (tv\<lparr>trv_last_temp_at := c\<rparr>) = trv_ok tv" "trv_ok (tv\<lparr>trv_setpoint_dirty_gen := d\<rparr>) = trv_ok tv"
  "trv_ok (tv\<lparr>trv_last_force_reason := e\<rparr>) = trv_ok tv"
  by (simp_all add: trv_ok_def)

lemma trv_ok_actual: "trv_ok tv \<Longrightarrow> trv_ok (tv\<lparr>trv_actual := actual_update v ts a\<rparr>)"
  by (simp add: trv_ok_def)

lemma trv_ok_target:
  "trv_ok tv \<Longrightarrow> target_ok t \<Longrightarrow> tgt_phase t \<noteq> Pending \<Longrightarrow> trv_ok (tv\<lparr>trv_target := t\<rparr>)"
  by (simp add: trv_ok_def)

lemma stays_heating_zone: "stays p q \<Longrightarrow> heating_zone_ok (heating_zone (p_world q) n)"
  by (rule state_ok_fetch [OF stays_state])

lemma stays_trv: "stays p q \<Longrightarrow> trv_ok (trv (p_world q) n)"
  by (rule state_ok_fetch [OF stays_state])

lemma confirm_zone_safe:
  assumes "stays p q" and "tgt_value (hz_target (heating_zone (p_world q) n)) \<noteq> None"
  shows "wp (confirm_zone n now q) (stays p)"
proof -
  have z: "heating_zone_ok (heating_zone (p_world q) n)" by (rule stays_heating_zone [OF assms(1)])
  then have ph: "tgt_phase (hz_target (heating_zone (p_world q) n)) \<in> {Commanded, StaleTarget, Confirmed}"
    using assms(2) by (auto simp: heating_zone_ok_def target_ok_def intro: target_phase.exhaust)
  have "stays p (upd_zone n (\<lambda>z. z\<lparr>hz_target := (hz_target (heating_zone (p_world q) n))
      \<lparr>tgt_phase := Confirmed, tgt_since := Some now\<rparr>\<rparr>) q)"
    using z ph by (intro stays_upd_zone_at assms(1) zone_ok_target) (auto simp: heating_zone_ok_def)
  then show ?thesis using ph by (simp add: confirm_zone_def)
qed

lemma confirm_if_actionable_safe: "stays p q \<Longrightarrow> wp (confirm_if_actionable n v now q) (stays p)"
  by (simp add: confirm_if_actionable_def Let_def confirm_zone_safe)

lemma wt_repeat_safe:
  assumes "stays p q"
  shows "wp (wt_repeat n on temp fc pr rb now q) (stays p)"
proof -
  define q' where "q' = (if fc \<and> \<not> on \<and> \<not> pr
    then q\<lparr>p_pump_off_since := option_or (p_pump_off_since q) (Some now)\<rparr> else q)"
  have s: "stays p q'" using assms by (simp add: q'_def)
  let ?z = "heating_zone (p_world q') n"
  have f: "stays p (upd_zone n (\<lambda>z. z\<lparr>
      hz_actual := actual_update \<lparr>hza_relay_on = False, hza_temperature = temp\<rparr> now (hz_actual z),
      hz_target := (set_and_command HeatOff Schedule now (hz_target ?z))\<lparr>tgt_phase := Confirmed, tgt_since := Some now\<rparr>,
      hz_relay_on_since := None\<rparr>) q')"
    using stays_heating_zone [OF s, of n]
    by (intro stays_upd_zone_at [OF s]) (simp add: heating_zone_ok_def)
  have c: "wp (confirm_zone n now q') (\<lambda>p1. stays p (p1\<lparr>p_pump_off_since := Some now\<rparr>))"
    if "tgt_value (hz_target ?z) = Some HeatOff"
    using confirm_zone_safe [OF s, of n now] that by simp
  show ?thesis
    unfolding wt_repeat_def Let_def q'_def [symmetric]
    using s f c
    by (auto simp: Let_def split: option.splits heating_zone_target.splits)
qed

lemma wt_turned_on_safe:
  assumes "stays p q"
  shows "wp (wt_turned_on n ds rb now q) (stays p)"
proof -
  have 1: "stays p (upd_zone n (\<lambda>z. z\<lparr>hz_relay_on_since := Some now\<rparr>) q)"
    by (intro stays_upd_zone assms) simp
  have 2: "stays p (fold (\<lambda>d. upd_trv d (\<lambda>tv. tv\<lparr>trv_open_window :=
      start_detection now (fresh_baseline now tv) (trv_open_window tv)\<rparr>)) ds q')" if "stays p q'" for q'
    by (intro stays_fold stays_upd_trv that) simp_all
  show ?thesis
    unfolding wt_turned_on_def Let_def wp_bind
    by (rule wp_mono [OF confirm_if_actionable_safe]) (use 1 2 in auto)
qed

lemma release_trv_ok: "trv_ok tv \<Longrightarrow> trv_ok (release_trv now tv)"
  by (simp add: release_trv_def Let_def trv_ok_target)

lemma wt_turned_off_safe:
  assumes "stays p q"
  shows "wp (wt_turned_off n ds rb now q) (stays p)"
proof -
  have 1: "stays p (upd_zone n (\<lambda>z. z\<lparr>hz_relay_on_since := None\<rparr>) q)"
    by (intro stays_upd_zone assms) simp
  have 2: "stays p (fold (\<lambda>d. upd_trv d (release_trv now)) ds q')" if "stays p q'" for q'
    by (intro stays_fold stays_upd_trv that release_trv_ok)
  show ?thesis
    unfolding wt_turned_off_def Let_def wp_bind
    by (rule wp_mono [OF confirm_if_actionable_safe]) (use 1 2 in auto)
qed

lemma wt_redirty_safe:
  assumes "stays p q"
  shows "wp (wt_redirty n now q) (stays p)"
proof -
  let ?t = "hz_target (heating_zone (p_world q) n)"
  have z: "heating_zone_ok (heating_zone (p_world q) n)" by (rule stays_heating_zone [OF assms])
  have s: "stays p (upd_zone n (\<lambda>z. z\<lparr>hz_target := set_and_command v ow now (hz_target z)\<rparr>) q)" for v ow
    by (intro stays_upd_zone assms zone_ok_target) simp_all
  have "tgt_owner ?t \<noteq> None \<and> tgt_value ?t \<noteq> None" if "tgt_phase ?t = Confirmed"
    using that z by (auto simp: heating_zone_ok_def target_ok_def)
  then show ?thesis
    using s assms by (auto simp: wt_redirty_def Let_def)
qed

lemma handle_wall_thermostat_state_safe:
  assumes "proc_ok p"
  shows "wp (handle_wall_thermostat_state hc device relay_on temp mode p) (stays p)"
proof -
  have s: "stays p p" using assms by (rule stays_refl)
  have 1: "stays p (upd_zone n (\<lambda>z. z\<lparr>hz_wt_last_seen := Some t, hz_wt_operating_mode := option_or mode (hz_wt_operating_mode z)\<rparr>) p)"
    for n t by (intro stays_upd_zone s) simp
  have 2: "stays p (upd_zone n (\<lambda>z. let z' = z\<lparr>hz_relay_state_known := True\<rparr> in
      if fc then z'\<lparr>hz_actual := actual_update r now (hz_actual z')\<rparr> else z') q)"
    if "stays p q" for n fc r now q
    by (intro stays_upd_zone that) (simp add: Let_def zone_ok_actual)
  have 3: "stays p (upd_zone n (\<lambda>z. z\<lparr>hz_actual := actual_update r now (hz_actual z)\<rparr>) q)"
    if "stays p q" for n r now q
    by (intro stays_upd_zone that zone_ok_actual)
  have 4: "wp (if on then wt_turned_on n ds rb now q else wt_turned_off n ds rb now q)
      (\<lambda>q'. wp (wt_redirty n now q') (stays p))" if "stays p q" for on n ds rb now q
    using that by (intro wp_cond wp_mono [OF wt_turned_on_safe wt_redirty_safe]
        wp_mono [OF wt_turned_off_safe wt_redirty_safe])
  show ?thesis
    unfolding handle_wall_thermostat_state_def
    by (auto simp only: Let_def wp_bind wp_Some split: option.split
        intro!: wp_cond wt_repeat_safe 4 1 2 [unfolded Let_def] 3 s)
qed

lemma track_temperature_simps [simp]:
  "trv_ok (track_temperature temp now tv) = trv_ok tv"
  "trv_target (track_temperature temp now tv) = trv_target tv"
  by (auto simp: track_temperature_def Let_def split: option.splits)

lemma confirm_setpoint_safe: "trv_ok tv \<Longrightarrow> wp (confirm_setpoint sp now gen tv) trv_ok"
  by (auto simp: confirm_setpoint_def Let_def trv_ok_def target_ok_def split: option.splits)

lemma handle_trv_state_safe:
  assumes "proc_ok p"
  shows "wp (handle_trv_state hc device r p) (stays p)"
proof -
  have tv: "trv_ok (trv (p_world p) device)" by (rule state_ok_fetch [OF proc_ok_state [OF assms]])
  have put: "stays p (upd_world (put_trv device tv') p)" if "trv_ok tv'" for tv'
    using that assms by (simp add: stays_upd_world proc_ok_state state_ok_store)
  show ?thesis
    unfolding handle_trv_state_def Let_def
    using assms tv
    by (auto simp: stays_refl trv_ok_actual intro!: wp_mono [OF confirm_setpoint_safe] put)
qed

lemma device_effects_ok:
  assumes "topology_ok t"
  shows "list_all (eff_ok t) (device_set_effect t n pay)" and "list_all (eff_ok t) (device_get_effect t n)"
  using device_idx_of_bound [OF assms]
  by (auto simp: device_set_effect_def device_get_effect_def split: option.splits)

lemma check_trv_mode_safe:
  "topology_ok (p_topology p) \<Longrightarrow> wp (check_trv_mode p device) (list_all (eff_ok (p_topology p)))"
  using device_idx_of_bound [of "p_topology p" device]
  by (auto simp: check_trv_mode_def trv_variant_def index_def Let_def reassert_system_mode_heat_if_needed_def
      reassert_manual_mode_if_needed_def split: option.splits)

lemma check_wt_mode_ok:
  "topology_ok (p_topology p) \<Longrightarrow> list_all (eff_ok (p_topology p)) (check_wt_mode p device)"
  using device_idx_of_bound [of "p_topology p" device]
  by (auto simp: check_wt_mode_def reassert_manual_mode_if_needed_def split: option.splits)

lemma handle_heating_event_safe: "safe (handle_heating_event ev)"
proof -
  have "safe_at p (handle_heating_event ev p)" if ok: "proc_ok p" for p
  proof (cases ev)
    case (TrvState d a b c e f g h ts)
    have "wp (check_trv_mode q d) (\<lambda>ef. list_all (eff_ok (p_topology p)) ef \<and> stays p q)" if "stays p q" for q
      using check_trv_mode_safe [of q d] that proc_ok_topology [OF ok]
      by (auto simp: stays_topology [OF that] wp_iff)
    then show ?thesis
      using stays_refl [OF ok]
      by (auto simp: TrvState safe_at_def split: option.split intro!: wp_mono [OF handle_trv_state_safe [OF ok]])
  next
    case (WallThermostatState d a b c ts)
    have "list_all (eff_ok (p_topology p)) (check_wt_mode q d)" if "stays p q" for q
      using check_wt_mode_ok [of q d] proc_ok_topology [OF ok] by (simp add: stays_topology [OF that])
    then show ?thesis
      using stays_refl [OF ok]
      by (auto simp: WallThermostatState safe_at_def split: option.split
          intro!: wp_mono [OF handle_wall_thermostat_state_safe [OF ok]])
  qed (simp_all add: stays_refl [OF ok])
  then show ?thesis by (simp add: safe_def)
qed

section \<open>Boosts\<close>

lemma boosts_ok_apply: "boosts_ok p \<Longrightarrow> boosts_ok (apply_valve_boost device b p)"
  by (auto simp: boosts_ok_def apply_valve_boost_def bt_contains_key_def Let_def split: option.splits)

lemma boosts_ok_restore: "boosts_ok (restore_boost_deadlines p)"
  by (simp add: boosts_ok_def restore_boost_deadlines_def bt_contains_key_def)

lemma active_boost_total: "boosts_ok p \<Longrightarrow> \<exists>b. active_boost p device = Some b"
  by (auto simp: boosts_ok_def active_boost_def bt_contains_key_def split: option.splits)

lemma effective_heat_demand_total: "boosts_ok p \<Longrightarrow> \<exists>b. effective_heat_demand_enabled p device = Some b"
  using active_boost_total [of p device] by (auto simp: effective_heat_demand_enabled_def)

lemma proc_ok_boosts: "proc_ok p \<Longrightarrow> boosts_ok p"
  by (simp add: proc_ok_def config_ok_def)

text \<open>A boost saved from the dashboard is in force exactly until the earlier of its two ends: the
  wall-clock end it was saved with and the monotonic deadline computed when it was saved. Moving
  the wall clock back or editing the temperature of the boost (same end, new temperature) does
  not prolong it, and while it lasts it overrides a valve whose heat demand is switched off.\<close>

theorem boost_lifetime:
  assumes "bt_get (boosts (p_settings p)) device = None"
    and "vb_ends_at_epoch_ms b' = vb_ends_at_epoch_ms b"
    and "q = apply_valve_boost device (Some b) p"
    and "r = (apply_valve_boost device (Some b') (q\<lparr>p_clock := mid\<rparr>))\<lparr>p_clock := later\<rparr>"
  shows "active_boost r device =
      Some (if ck_now later < ck_now (p_clock p) + from_millis (vb_ends_at_epoch_ms b - ck_epoch_millis (p_clock p)) \<and>
               ck_epoch_millis later < vb_ends_at_epoch_ms b then Some b' else None) \<and>
    (active_boost r device = Some (Some b') \<longrightarrow> effective_heat_demand_enabled r device = Some True)"
  using assms by (simp add: active_boost_def apply_valve_boost_def Let_def effective_heat_demand_enabled_def)

definition half_hour_boost :: valve_boost where
  "half_hour_boost = \<lparr>vb_temperature = 24, vb_ends_at_epoch_ms = 1800000\<rparr>"

theorem boost_lifetime_witness:
  "active_boost ((apply_valve_boost ''trv-a'' (Some (half_hour_boost\<lparr>vb_temperature := 22\<rparr>))
     ((apply_valve_boost ''trv-a'' (Some half_hour_boost) home)\<lparr>p_clock := noon\<rparr>))
       \<lparr>p_clock := noon\<lparr>ck_now := from_secs 2799\<rparr>\<rparr>) ''trv-a'' = Some (Some (half_hour_boost\<lparr>vb_temperature := 22\<rparr>))"
  using boost_lifetime [where p = home and device = "''trv-a''" and b = half_hour_boost
      and b' = "half_hour_boost\<lparr>vb_temperature := 22\<rparr>" and mid = noon and later = "noon\<lparr>ck_now := from_secs 2799\<rparr>",
      OF _ _ refl refl]
  by (simp add: home_def processor_new_def settings_default_def half_hour_boost_def noon_def from_secs_def
      from_millis_def nanos_per_sec_def)

end
