(* ===== verification/HeatingLoop.thy ===== *)
theory HeatingLoop
  imports HeatingBase
begin

text \<open>
  The periodic heating loop: inhibition expiry and open-window detection
  (\<open>src/crates/mqtt-controller/src/logic/heating/open_window.rs\<close>), pressure groups
  (\<open>pressure.rs\<close>), schedules (\<open>schedule.rs\<close>), relay control with heat-pump protection (\<open>relay.rs\<close>),
  Home Assistant state (\<open>ha.rs\<close>, \<open>domain/ha_discovery.rs\<close>) and the tick that runs them in order
  (\<open>heating.rs\<close>).
\<close>

definition zone_valves :: "heating_config \<Rightarrow> (heating_zone_config \<times> zone_trv) list" where
  "zone_valves hc = concat (map (\<lambda>z. map (\<lambda>zt. (z, zt)) (zone_trvs z)) (hc_zones hc))"

section \<open>Open windows\<close>

definition zone_relay_on :: "world_state \<Rightarrow> string \<Rightarrow> bool" where
  "zone_relay_on w n = (case bt_get (w_heating_zones w) n of None \<Rightarrow> False | Some hz \<Rightarrow> is_relay_on hz)"

definition expire_inhibition :: "instant \<Rightarrow> heating_zone_config \<times> zone_trv \<Rightarrow> processor \<Rightarrow> processor option" where
  "expire_inhibition now zzt p =
     (let device = zt_device (snd zzt);
          p0 = upd_trv device id p;
          tv = trv (p_world p0) device
      in case tgt_value (trv_target tv) of
           Some (Inhibited until) \<Rightarrow>
             if now \<ge> until then
               do { t \<leftarrow> confirm now (set_and_command (Setpoint 0) Schedule now (trv_target tv));
                    Some (upd_trv device (\<lambda>tv. tv\<lparr>trv_target := t, trv_open_window :=
                       (if zone_relay_on (p_world p0) (zone_name (fst zzt))
                        then start_detection now (fresh_baseline now tv) (trv_open_window tv)
                        else open_window_reset (trv_open_window tv))\<rparr>) p0) }
             else Some p0
         | _ \<Rightarrow> Some p0)"

definition expire_inhibitions :: "heating_config \<Rightarrow> instant \<Rightarrow> processor \<Rightarrow> processor option" where
  "expire_inhibitions hc now = foldM (expire_inhibition now) (zone_valves hc)"

definition window_grace :: duration where
  "window_grace = from_secs (5 * 60)"

text \<open>What the detection concludes for one valve.\<close>

datatype window_verdict = KeepWatching | MarkChecked | Inhibit

definition window_verdict_of ::
  "u8 \<Rightarrow> u8 \<Rightarrow> duration \<Rightarrow> instant \<Rightarrow> instant \<Rightarrow> trv_entity \<Rightarrow> window_verdict" where
  "window_verdict_of md mdf detect_dur now relay_on_since tv =
     (let ow = trv_open_window tv in
      if ow_checked ow then KeepWatching
      else if is_inhibited now tv \<or> is_forced_open tv then KeepWatching
      else if \<not> has_effective_demand now md mdf tv then MarkChecked
      else case ow_temp_at_relay_on ow of
        None \<Rightarrow> if duration_since now relay_on_since \<ge> detect_dur + window_grace
                then MarkChecked else KeepWatching
      | Some temp_at_on \<Rightarrow>
          (case ow_baseline_established_at ow of
             None \<Rightarrow> KeepWatching
           | Some baseline_at \<Rightarrow>
               let min_observation = detect_dur div 2;
                   has_post_baseline_sample = (case trv_last_temp_at tv of None \<Rightarrow> False | Some t \<Rightarrow> t > baseline_at);
                   observation_elapsed = (duration_since now baseline_at \<ge> min_observation)
               in if \<not> has_post_baseline_sample \<or> \<not> observation_elapsed then
                    (if now \<ge> max (relay_on_since + detect_dur + window_grace)
                                  (baseline_at + min_observation + window_grace)
                     then MarkChecked else KeepWatching)
                  else if (case ow_temp_high_water ow of None \<Rightarrow> temp_at_on | Some hw \<Rightarrow> hw) \<le> temp_at_on + 1/10
                       then Inhibit else MarkChecked))"

definition mark_checked :: "trv_entity \<Rightarrow> trv_entity" where
  "mark_checked tv = tv\<lparr>trv_open_window := (trv_open_window tv)\<lparr>ow_checked := True\<rparr>\<rparr>"

definition detect_valve :: "heating_config \<Rightarrow> instant \<Rightarrow> instant \<Rightarrow> zone_trv \<Rightarrow> handler" where
  "detect_valve hc now relay_on_since zt p =
     (let device = zt_device zt;
          detect_dur = from_secs (detection_minutes (hc_open_window hc) * 60);
          inhibit_dur = from_secs (inhibit_minutes (hc_open_window hc) * 60)
      in case bt_get (w_trvs (p_world p)) device of
           None \<Rightarrow> Some ([], p)
         | Some tv \<Rightarrow>
             (case window_verdict_of (min_demand_percent (hc_heat_pump hc))
                     (min_demand_percent_fallback (hc_heat_pump hc)) detect_dur now relay_on_since tv of
                KeepWatching \<Rightarrow> Some ([], p)
              | MarkChecked \<Rightarrow> Some ([], upd_world (put_trv device (mark_checked tv)) p)
              | Inhibit \<Rightarrow>
                  Some (device_set_effect (p_topology p) device (trv_setpoint MIN_SETPOINT),
                    upd_world (put_trv device ((mark_checked tv)\<lparr>
                      trv_target := set_and_command (Inhibited (now + inhibit_dur)) Rule now (trv_target tv),
                      trv_setpoint_dirty_gen := p_heating_tick_gen p\<rparr>)) p)))"

definition detect_zone :: "heating_config \<Rightarrow> instant \<Rightarrow> heating_zone_config \<Rightarrow> handler" where
  "detect_zone hc now z p =
     (case bt_get (w_heating_zones (p_world p)) (zone_name z) of
        None \<Rightarrow> Some ([], p)
      | Some hz \<Rightarrow>
          if \<not> is_relay_on hz then Some ([], p)
          else (case hz_relay_on_since hz of
                  None \<Rightarrow> Some ([], p)
                | Some since \<Rightarrow>
                    if duration_since now since < from_secs (detection_minutes (hc_open_window hc) * 60)
                    then Some ([], p)
                    else for_each (detect_valve hc now since) (zone_trvs z) p))"

definition detect_open_windows :: "heating_config \<Rightarrow> instant \<Rightarrow> handler" where
  "detect_open_windows hc now = for_each (detect_zone hc now) (hc_zones hc)"

section \<open>Pressure groups\<close>

definition organic_demand :: "processor \<Rightarrow> instant \<Rightarrow> string \<Rightarrow> bool option" where
  "organic_demand p now n =
     do { enabled \<leftarrow> effective_heat_demand_enabled p n;
          Some (enabled \<and> (case bt_get (w_trvs (p_world p)) n of
                  None \<Rightarrow> False
                | Some tv \<Rightarrow> \<not> is_forced_open tv \<and> \<not> is_inhibited now tv \<and> \<not> needs_setpoint_retry tv \<and>
                    has_raw_demand (fst (min_demand p)) (snd (min_demand p)) tv)) }"

definition group_relay_off :: "heating_config \<Rightarrow> world_state \<Rightarrow> pressure_group \<Rightarrow> bool" where
  "group_relay_off hc w g =
     (case pg_trvs g of
        [] \<Rightarrow> False
      | n # _ \<Rightarrow>
          (case find (\<lambda>z. list_ex (\<lambda>zt. zt_device zt = n) (zone_trvs z)) (hc_zones hc) of
             None \<Rightarrow> False
           | Some z \<Rightarrow>
               (case bt_get (w_heating_zones w) (zone_name z) of
                  None \<Rightarrow> False
                | Some hz \<Rightarrow> \<not> is_relay_on hz \<and> hz_relay_state_known hz \<and>
                    tgt_value (hz_target hz) \<noteq> Some Heating)))"

definition pressure_member :: "bool \<Rightarrow> instant \<Rightarrow> string \<Rightarrow> handler" where
  "pressure_member active now n p =
     (case bt_get (w_trvs (p_world p)) n of
        None \<Rightarrow> Some ([], p)
      | Some tv \<Rightarrow>
          if active then
            (if is_inhibited now tv then Some ([], p)
             else if tgt_value (trv_target tv) = Some (ForcedOpen MinCycle) then Some ([], p)
             else if \<not> is_forced_open tv \<and> \<not> has_raw_demand (fst (min_demand p)) (snd (min_demand p)) tv then
               Some (device_set_effect (p_topology p) n (trv_setpoint MAX_SETPOINT),
                 upd_world (put_trv n (tv\<lparr>
                   trv_target := set_and_command (ForcedOpen PressureGroup) Rule now (trv_target tv),
                   trv_last_force_reason := Some PressureGroup,
                   trv_setpoint_dirty_gen := p_heating_tick_gen p\<rparr>)) p)
             else Some ([], p))
          else if tgt_value (trv_target tv) = Some (ForcedOpen PressureGroup) then
            (if is_inhibited now tv then Some ([], p)
             else Some ([], upd_world (put_trv n (tv\<lparr>
                    trv_target := set_and_command (Setpoint 0) Schedule now (trv_target tv)\<rparr>)) p))
          else Some ([], p))"

definition group_active :: "heating_config \<Rightarrow> instant \<Rightarrow> pressure_group \<Rightarrow> processor \<Rightarrow> bool option" where
  "group_active hc now g p =
     do { any_organic_demand \<leftarrow> anyM (organic_demand p now) (pg_trvs g);
          Some (any_organic_demand \<and> \<not> group_relay_off hc (p_world p) g) }"

definition enforce_pressure_group :: "heating_config \<Rightarrow> instant \<Rightarrow> pressure_group \<Rightarrow> handler" where
  "enforce_pressure_group hc now g p =
     do { active \<leftarrow> group_active hc now g p;
          for_each (pressure_member active now) (pg_trvs g) p }"

definition enforce_pressure_groups :: "heating_config \<Rightarrow> instant \<Rightarrow> handler" where
  "enforce_pressure_groups hc now = for_each (enforce_pressure_group hc now) (hc_pressure_groups hc)"

section \<open>Schedules\<close>

definition apply_setpoint :: "string \<Rightarrow> f64 \<Rightarrow> owner \<Rightarrow> instant \<Rightarrow> handler" where
  "apply_setpoint device target_temp ow now p =
     (let p0 = upd_trv device id p;
          tv = trv (p_world p0) device
      in if is_forced_open tv \<or> is_inhibited now tv then Some ([], p0)
         else if target_setpoint tv = Some target_temp \<and> tgt_owner (trv_target tv) = Some ow \<and>
                 tgt_phase (trv_target tv) = Confirmed then Some ([], p0)
         else Some (device_set_effect (p_topology p) device (trv_setpoint target_temp),
                upd_trv device (\<lambda>tv. tv\<lparr>
                  trv_target := set_and_command (Setpoint target_temp) ow now (trv_target tv),
                  trv_setpoint_dirty_gen := p_heating_tick_gen p\<rparr>) p0))"

definition evaluate_schedule ::
  "heating_config \<Rightarrow> weekday \<Rightarrow> u8 \<Rightarrow> u8 \<Rightarrow> instant \<Rightarrow> zone_trv \<Rightarrow> handler" where
  "evaluate_schedule hc weekday hour minute now zt p =
     (let device = zt_device zt in
      case valve_schedule p device (zt_schedule zt) hc of
        None \<Rightarrow> Some ([], p)
      | Some sched \<Rightarrow>
          (case target_temperature sched weekday hour minute of
             None \<Rightarrow> Some ([], p)
           | Some scheduled_temp \<Rightarrow>
               do { ab \<leftarrow> active_boost p device;
                    case ab of
                      None \<Rightarrow> apply_setpoint device scheduled_temp Schedule now p
                    | Some b \<Rightarrow> apply_setpoint device (vb_temperature b) WebUI now p }))"

definition evaluate_schedules :: "heating_config \<Rightarrow> weekday \<Rightarrow> u8 \<Rightarrow> u8 \<Rightarrow> instant \<Rightarrow> handler" where
  "evaluate_schedules hc weekday hour minute now =
     for_each (\<lambda>(z, zt). evaluate_schedule hc weekday hour minute now zt) (zone_valves hc)"

definition reconcile_setpoint :: "processor \<Rightarrow> zone_trv \<Rightarrow> eff list" where
  "reconcile_setpoint p zt =
     (case bt_get (w_trvs (p_world p)) (zt_device zt) of
        None \<Rightarrow> []
      | Some tv \<Rightarrow>
          if \<not> needs_setpoint_retry tv then []
          else if trv_setpoint_dirty_gen tv = p_heating_tick_gen p then []
          else (case tgt_value (trv_target tv) of
                  None \<Rightarrow> []
                | Some v \<Rightarrow> device_set_effect (p_topology p) (zt_device zt) (trv_setpoint (setpoint_of v))))"

definition reconcile_setpoints :: "heating_config \<Rightarrow> handler" where
  "reconcile_setpoints hc p = Some (concat (map (\<lambda>(z, zt). reconcile_setpoint p zt) (zone_valves hc)), p)"

section \<open>Relays\<close>

record zone_decision =
  zd_zone_name :: string
  zd_relay_idx :: device_idx
  zd_has_demand :: bool
  zd_relay_on :: bool
  zd_target :: "heating_zone_target option"

definition valve_demand :: "processor \<Rightarrow> instant \<Rightarrow> zone_trv \<Rightarrow> bool option" where
  "valve_demand p now zt =
     do { enabled \<leftarrow> effective_heat_demand_enabled p (zt_device zt);
          Some (enabled \<and> (case bt_get (w_trvs (p_world p)) (zt_device zt) of
                  None \<Rightarrow> False
                | Some tv \<Rightarrow> has_effective_demand now (fst (min_demand p)) (snd (min_demand p)) tv)) }"

definition zone_decision_of :: "processor \<Rightarrow> instant \<Rightarrow> heating_zone_config \<Rightarrow> zone_decision option option" where
  "zone_decision_of p now z =
     (case bt_get (w_heating_zones (p_world p)) (zone_name z) of
        None \<Rightarrow> Some None
      | Some hz \<Rightarrow>
          if \<not> hz_relay_state_known hz then Some None
          else (case device_idx_of (p_topology p) (zone_relay z) of
                  None \<Rightarrow> Some None
                | Some relay_idx \<Rightarrow>
                    do { has_demand \<leftarrow> anyM (valve_demand p now) (zone_trvs z);
                         Some (Some \<lparr>zd_zone_name = zone_name z, zd_relay_idx = relay_idx,
                                     zd_has_demand = has_demand, zd_relay_on = is_relay_on hz,
                                     zd_target = tgt_value (hz_target hz)\<rparr>) }))"

definition zone_decisions :: "heating_config \<Rightarrow> instant \<Rightarrow> processor \<Rightarrow> zone_decision list option" where
  "zone_decisions hc now p =
     do { ds \<leftarrow> mapM (zone_decision_of p now) (hc_zones hc); Some (List.map_filter id ds) }"

definition seed_target :: "instant \<Rightarrow> zone_decision \<Rightarrow> processor \<Rightarrow> processor option" where
  "seed_target now d p =
     (if zd_target d \<noteq> None then Some p
      else
        let seed = (if zd_has_demand d \<or> zd_relay_on d then Heating else HeatOff) in
        do { t \<leftarrow> confirm now (set_and_command seed Schedule now (hz_target (heating_zone (p_world p) (zd_zone_name d))));
             Some (upd_zone (zd_zone_name d)
               (\<lambda>hz. hz\<lparr>hz_target := t, hz_desired_relay_gen := p_heating_tick_gen p\<rparr>) p) })"

definition refresh_target :: "processor \<Rightarrow> zone_decision \<Rightarrow> zone_decision" where
  "refresh_target p d =
     d\<lparr>zd_target := Option.bind (bt_get (w_heating_zones (p_world p)) (zd_zone_name d))
                       (\<lambda>hz. tgt_value (hz_target hz))\<rparr>"

definition command_zone :: "heating_zone_target \<Rightarrow> instant \<Rightarrow> zone_decision \<Rightarrow> handler" where
  "command_zone v now d p =
     Some ([PublishDeviceSet (zd_relay_idx d) (if v = Heating then device_on else device_off)],
       upd_zone (zd_zone_name d)
         (\<lambda>hz. hz\<lparr>hz_target := set_and_command v Schedule now (hz_target hz),
                  hz_desired_relay_gen := p_heating_tick_gen p\<rparr>) p)"

definition pause_ok :: "duration \<Rightarrow> instant \<Rightarrow> processor \<Rightarrow> bool" where
  "pause_ok min_pause now p =
     (is_pump_running p \<or>
      (case effective_pump_off_since p of None \<Rightarrow> True | Some off_at \<Rightarrow> duration_since now off_at \<ge> min_pause))"

definition cycle_ok :: "duration \<Rightarrow> instant \<Rightarrow> processor \<Rightarrow> bool" where
  "cycle_ok min_cycle now p =
     (case effective_pump_on_since p of None \<Rightarrow> True | Some on_at \<Rightarrow> duration_since now on_at \<ge> min_cycle)"

definition relay_on_phase :: "duration \<Rightarrow> instant \<Rightarrow> zone_decision \<Rightarrow> handler" where
  "relay_on_phase min_pause now d p =
     (if zd_has_demand d \<and> zd_target d \<noteq> Some Heating \<and> pause_ok min_pause now p
      then command_zone Heating now d p else Some ([], p))"

definition cancel_phase :: "duration \<Rightarrow> instant \<Rightarrow> zone_decision \<Rightarrow> handler" where
  "cancel_phase min_cycle now d p =
     (if \<not> zd_has_demand d \<and> \<not> zd_relay_on d \<and> zd_target d = Some Heating \<and> cycle_ok min_cycle now p
      then command_zone HeatOff now d p else Some ([], p))"

definition wants_off :: "zone_decision \<Rightarrow> bool" where
  "wants_off d = (\<not> zd_has_demand d \<and> zd_target d \<noteq> Some HeatOff \<and> zd_relay_on d)"

definition zone_trv_exists ::
  "heating_config \<Rightarrow> processor \<Rightarrow> (trv_entity \<Rightarrow> bool) \<Rightarrow> zone_decision \<Rightarrow> bool" where
  "zone_trv_exists hc p P d =
     (case find (\<lambda>z. zone_name z = zd_zone_name d) (hc_zones hc) of
        None \<Rightarrow> False
      | Some z \<Rightarrow> list_ex (\<lambda>zt. case bt_get (w_trvs (p_world p)) (zt_device zt) of
            None \<Rightarrow> False | Some tv \<Rightarrow> P tv) (zone_trvs z))"

definition force_valve_open :: "instant \<Rightarrow> zone_trv \<Rightarrow> handler" where
  "force_valve_open now zt p =
     (case bt_get (w_trvs (p_world p)) (zt_device zt) of
        None \<Rightarrow> Some ([], p)
      | Some tv \<Rightarrow>
          if is_forced_open tv \<or> is_inhibited now tv then Some ([], p)
          else Some (device_set_effect (p_topology p) (zt_device zt) (trv_setpoint MAX_SETPOINT),
            upd_world (put_trv (zt_device zt) (tv\<lparr>
              trv_target := set_and_command (ForcedOpen MinCycle) Rule now (trv_target tv),
              trv_last_force_reason := Some MinCycle,
              trv_setpoint_dirty_gen := p_heating_tick_gen p\<rparr>)) p))"

definition force_zone_open :: "heating_config \<Rightarrow> instant \<Rightarrow> zone_decision \<Rightarrow> handler" where
  "force_zone_open hc now d p =
     (case find (\<lambda>z. zone_name z = zd_zone_name d) (hc_zones hc) of
        None \<Rightarrow> Some ([], p)
      | Some z \<Rightarrow> for_each (force_valve_open now) (zone_trvs z) p)"

text \<open>\<open>confirmed_on - pending_off_count - want_off.len()\<close>, saturating.\<close>

definition surviving_relays :: "processor \<Rightarrow> zone_decision list \<Rightarrow> nat" where
  "surviving_relays p want_off =
     active_relay_count p
       - length (filter (\<lambda>hz. is_relay_on hz \<and> tgt_value (hz_target hz) = Some HeatOff)
                   (bt_values (w_heating_zones (p_world p))))
       - length want_off"

definition has_pending_on :: "processor \<Rightarrow> zone_decision list \<Rightarrow> bool" where
  "has_pending_on p ds =
     list_ex (\<lambda>d. \<not> zd_relay_on d \<and>
       (case bt_get (w_heating_zones (p_world p)) (zd_zone_name d) of
          None \<Rightarrow> False
        | Some hz \<Rightarrow> tgt_value (hz_target hz) = Some Heating \<and> tgt_phase (hz_target hz) = Commanded)) ds"

definition relay_off_phase :: "heating_config \<Rightarrow> duration \<Rightarrow> instant \<Rightarrow> zone_decision list \<Rightarrow> handler" where
  "relay_off_phase hc min_cycle now ds p =
     (let want_off = filter wants_off ds in
      if want_off = [] then Some ([], p)
      else if surviving_relays p want_off > 0 then for_each (command_zone HeatOff now) want_off p
      else if has_pending_on p ds then Some ([], p)
      else if cycle_ok min_cycle now p then for_each (command_zone HeatOff now) want_off p
      else
        let any_forceable = list_ex (zone_trv_exists hc p (\<lambda>tv. \<not> is_forced_open tv \<and> \<not> is_inhibited now tv)) want_off;
            any_already_open = list_ex (zone_trv_exists hc p is_forced_open) want_off
        in if \<not> any_forceable \<and> \<not> any_already_open
           then for_each (command_zone HeatOff now) want_off p
           else for_each (force_zone_open hc now) want_off p)"

definition evaluate_relays :: "heating_config \<Rightarrow> instant \<Rightarrow> handler" where
  "evaluate_relays hc now p =
     (let min_cycle = from_secs (min_cycle_seconds (hc_heat_pump hc));
          min_pause = from_secs (min_pause_seconds (hc_heat_pump hc))
      in do { ds0 \<leftarrow> zone_decisions hc now p;
              p1 \<leftarrow> foldM (seed_target now) ds0 p;
              let ds = map (refresh_target p1) ds0;
              seq (for_each (relay_on_phase min_pause now) ds)
                (seq (for_each (cancel_phase min_cycle now) ds)
                     (relay_off_phase hc min_cycle now ds)) p1 })"

definition reconcile_relay :: "processor \<Rightarrow> heating_zone_config \<Rightarrow> eff list" where
  "reconcile_relay p z =
     (case bt_get (w_heating_zones (p_world p)) (zone_name z) of
        None \<Rightarrow> []
      | Some hz \<Rightarrow>
          (case tgt_value (hz_target hz) of
             None \<Rightarrow> []
           | Some desired \<Rightarrow>
               if hz_desired_relay_gen hz = p_heating_tick_gen p then []
               else
                 let desired_on = (desired = Heating);
                     actual_on = is_relay_on hz;
                     phase = tgt_phase (hz_target hz);
                     needs_retry = (if desired_on \<noteq> actual_on then phase = Commanded \<or> phase = StaleTarget
                                    else \<not> desired_on \<and> phase = Commanded)
                 in if \<not> needs_retry then []
                    else device_set_effect (p_topology p) (zone_relay z)
                           (if desired_on then device_on else device_off)))"

definition reconcile_relays :: "heating_config \<Rightarrow> handler" where
  "reconcile_relays hc p = Some (concat (map (reconcile_relay p) (hc_zones hc)), p)"

section \<open>Home Assistant state\<close>

datatype trv_derived_state = TdUnknown | TdOpenWindow | TdPressureGroupOpen | TdPressureGroupRelease
  | TdMinCycleOpen | TdMinCycleRelease | TdStale | TdHeatDemand | TdIdle

fun trv_derived_str :: "trv_derived_state \<Rightarrow> string" where
  "trv_derived_str TdUnknown = ''UNKNOWN''"
| "trv_derived_str TdOpenWindow = ''OPEN_WINDOW''"
| "trv_derived_str TdPressureGroupOpen = ''PRESSURE_GROUP_OPEN''"
| "trv_derived_str TdPressureGroupRelease = ''PRESSURE_GROUP_RELEASE''"
| "trv_derived_str TdMinCycleOpen = ''MIN_CYCLE_OPEN''"
| "trv_derived_str TdMinCycleRelease = ''MIN_CYCLE_RELEASE''"
| "trv_derived_str TdStale = ''STALE''"
| "trv_derived_str TdHeatDemand = ''HEAT_DEMAND''"
| "trv_derived_str TdIdle = ''IDLE''"

datatype zone_derived_state = ZdUnknown | ZdStale | ZdHeatDemand | ZdMinRuntime | ZdMinPause | ZdOff

fun zone_derived_str :: "zone_derived_state \<Rightarrow> string" where
  "zone_derived_str ZdUnknown = ''UNKNOWN''"
| "zone_derived_str ZdStale = ''STALE''"
| "zone_derived_str ZdHeatDemand = ''HEAT_DEMAND''"
| "zone_derived_str ZdMinRuntime = ''MIN_RUNTIME''"
| "zone_derived_str ZdMinPause = ''MIN_PAUSE''"
| "zone_derived_str ZdOff = ''OFF''"

definition derive_trv_state_from_tass :: "trv_entity \<Rightarrow> instant \<Rightarrow> u8 \<Rightarrow> u8 \<Rightarrow> trv_derived_state" where
  "derive_trv_state_from_tass tv now md mdf =
     (if trv_last_seen tv = None then TdUnknown
      else if is_inhibited now tv then TdOpenWindow
      else case tgt_value (trv_target tv) of
        Some (ForcedOpen PressureGroup) \<Rightarrow> TdPressureGroupOpen
      | Some (ForcedOpen MinCycle) \<Rightarrow> TdMinCycleOpen
      | _ \<Rightarrow>
          (case (tgt_phase (trv_target tv), trv_last_force_reason tv) of
             (Commanded, Some PressureGroup) \<Rightarrow> TdPressureGroupRelease
           | (Commanded, Some MinCycle) \<Rightarrow> TdMinCycleRelease
           | _ \<Rightarrow> if is_stale now tv then TdStale
                  else if has_raw_demand md mdf tv then TdHeatDemand else TdIdle))"

text \<open>
  \<open>std::ptr::eq\<close> finds the zone configuration whose entity this is: the first one of that name.
\<close>

definition derive_zone_state_from_tass ::
  "string \<Rightarrow> heating_zone_entity \<Rightarrow> processor \<Rightarrow> instant \<Rightarrow> u64 \<Rightarrow> zone_derived_state option" where
  "derive_zone_state_from_tass n hz p now min_pause_secs =
     (if \<not> hz_relay_state_known hz then Some ZdUnknown
      else if is_wt_stale now hz then Some ZdStale
      else if is_relay_on hz then
        do { has_demand \<leftarrow>
               (case p_heating_config p of
                  None \<Rightarrow> Some False
                | Some c \<Rightarrow>
                    (case find (\<lambda>z. zone_name z = n) (hc_zones c) of
                       None \<Rightarrow> Some False
                     | Some z \<Rightarrow> anyM (valve_demand p now) (zone_trvs z)));
             Some (if has_demand then ZdHeatDemand else ZdMinRuntime) }
      else Some (if \<not> is_pump_running p \<and>
                    (case effective_pump_off_since p of None \<Rightarrow> False
                     | Some off_since \<Rightarrow> duration_since now off_since < from_secs min_pause_secs)
                 then ZdMinPause else ZdOff))"

definition publish_if_changed :: "string \<Rightarrow> string \<Rightarrow> eff list \<Rightarrow> handler" where
  "publish_if_changed topic st effs p =
     (if bt_get (p_ha_last_published p) topic = Some st then Some ([], p)
      else Some (effs, p\<lparr>p_ha_last_published := bt_insert topic st (p_ha_last_published p)\<rparr>))"

definition emit_trv_state :: "instant \<Rightarrow> zone_trv \<Rightarrow> handler" where
  "emit_trv_state now zt p =
     (let derived = (case bt_get (w_trvs (p_world p)) (zt_device zt) of
                       None \<Rightarrow> TdUnknown
                     | Some tv \<Rightarrow> derive_trv_state_from_tass tv now (fst (min_demand p)) (snd (min_demand p)));
          st = trv_derived_str derived
      in publish_if_changed (ha_state_topic ''trv'' (zt_device zt)) st
           (case device_idx_of (p_topology p) (zt_device zt) of
              None \<Rightarrow> [] | Some d \<Rightarrow> [PublishHaStateTrv d st]) p)"

definition emit_zone_state :: "heating_config \<Rightarrow> instant \<Rightarrow> nat \<times> heating_zone_config \<Rightarrow> handler" where
  "emit_zone_state hc now iz p =
     do { derived \<leftarrow>
            (case bt_get (w_heating_zones (p_world p)) (zone_name (snd iz)) of
               None \<Rightarrow> Some ZdUnknown
             | Some hz \<Rightarrow> derive_zone_state_from_tass (zone_name (snd iz)) hz p now
                            (min_pause_seconds (hc_heat_pump hc)));
          let st = zone_derived_str derived;
          seq (publish_if_changed (ha_state_topic ''zone'' (zone_name (snd iz))) st
                 [PublishHaStateZone (fst iz) st])
              (for_each (emit_trv_state now) (zone_trvs (snd iz))) p }"

definition ha_discovery :: "topology \<Rightarrow> heating_config \<Rightarrow> eff list" where
  "ha_discovery t hc =
     concat (map (\<lambda>(i, z). PublishHaDiscoveryZone i #
       concat (map (\<lambda>zt. case device_idx_of t (zt_device zt) of
                        None \<Rightarrow> [] | Some d \<Rightarrow> [PublishHaDiscoveryTrv d]) (zone_trvs z)))
       (List.enumerate 0 (hc_zones hc)))"

definition emit_ha_updates :: "heating_config \<Rightarrow> instant \<Rightarrow> handler" where
  "emit_ha_updates hc now =
     seq (\<lambda>p. if p_ha_discovery_published p then Some ([], p)
              else Some (ha_discovery (p_topology p) hc, p\<lparr>p_ha_discovery_published := True\<rparr>))
         (for_each (emit_zone_state hc now) (List.enumerate 0 (hc_zones hc)))"

section \<open>The tick\<close>

definition startup_probe :: "heating_config \<Rightarrow> handler" where
  "startup_probe hc p =
     (if p_startup_complete p then Some ([], p)
      else Some (concat (map (\<lambda>z. device_get_effect (p_topology p) (zone_relay z)) (hc_zones hc)),
                 p\<lparr>p_startup_complete := True\<rparr>))"

definition wt_keepalive :: "instant \<Rightarrow> heating_zone_config \<Rightarrow> handler" where
  "wt_keepalive now z p =
     (let p0 = upd_zone (zone_name z) id p;
          hz = heating_zone (p_world p0) (zone_name z)
      in if \<not> is_wt_stale now hz then Some ([], p0)
         else if (case hz_wt_last_stale_probe hz of None \<Rightarrow> True
                  | Some t \<Rightarrow> duration_since now t \<ge> WT_STALE_PROBE_INTERVAL)
         then Some (device_get_effect (p_topology p0) (zone_relay z),
                    upd_zone (zone_name z) (\<lambda>hz. hz\<lparr>hz_wt_last_stale_probe := Some now\<rparr>) p0)
         else Some ([], p0))"

definition wt_refresh :: "heating_config \<Rightarrow> instant \<Rightarrow> handler" where
  "wt_refresh hc now p =
     (if (case p_last_wt_refresh p of None \<Rightarrow> True | Some t \<Rightarrow> duration_since now t \<ge> WT_REFRESH_INTERVAL)
      then Some (concat (map (\<lambda>z. device_get_effect (p_topology p) (zone_relay z)) (hc_zones hc)),
                 p\<lparr>p_last_wt_refresh := Some now\<rparr>)
      else Some ([], p))"

definition heating_control :: "heating_config \<Rightarrow> clock \<Rightarrow> handler" where
  "heating_control hc ck =
     (let now = ck_now ck in
      seq (enforce_pressure_groups hc now)
        (seq (evaluate_schedules hc (ck_local_weekday ck) (ck_local_hour ck) (ck_local_minute ck) now)
          (seq (reconcile_setpoints hc)
            (seq (detect_open_windows hc now)
              (seq (evaluate_relays hc now)
                (seq (reconcile_relays hc) (emit_ha_updates hc now)))))))"

text \<open>The stale-valve warning touches every configured valve through the get-or-create accessor.\<close>

definition expire_and_touch :: "heating_config \<Rightarrow> instant \<Rightarrow> handler" where
  "expire_and_touch hc now p =
     do { p1 \<leftarrow> expire_inhibitions hc now p;
          Some ([], fold (\<lambda>(z, zt). upd_trv (zt_device zt) id) (zone_valves hc) p1) }"

definition handle_heating_tick :: handler where
  "handle_heating_tick p0 =
     (let p = p0\<lparr>p_heating_tick_gen := p_heating_tick_gen p0 + 1\<rparr> in
      case p_heating_config p of
        None \<Rightarrow> Some ([], p)
      | Some hc \<Rightarrow>
          let now = ck_now (p_clock p) in
          seq (startup_probe hc)
            (seq (expire_and_touch hc now)
              (seq (for_each (wt_keepalive now) (hc_zones hc))
                (seq (wt_refresh hc now) (heating_control hc (p_clock p))))) p)"

section \<open>Safety\<close>

text \<open>Every stage is total and keeps the invariant, so the stages compose by \<open>safe_at_seq\<close>.\<close>

lemma stays_put_trv: "stays p q \<Longrightarrow> trv_ok tv \<Longrightarrow> stays p (upd_world (put_trv d tv) q)"
  by (simp add: stays_def state_ok_store)

lemma proc_ok_get_trv: "proc_ok p \<Longrightarrow> bt_get (w_trvs (p_world p)) d = Some tv \<Longrightarrow> trv_ok tv"
  unfolding proc_ok_def state_ok_def world_ok_def by (blast dest: bt_all_get)

lemma mark_checked_simps [simp]:
  "trv_ok (mark_checked tv) = trv_ok tv" "trv_target (mark_checked tv) = trv_target tv"
  by (simp_all add: mark_checked_def)

lemma trv_ok_commanded:
  "trv_ok tv \<Longrightarrow> trv_ok (tv\<lparr>trv_target := set_and_command v ow ts t\<rparr>)"
  by (simp add: trv_ok_target)

lemma zone_ok_commanded:
  "heating_zone_ok z \<Longrightarrow> heating_zone_ok (z\<lparr>hz_target := set_and_command v ow ts t\<rparr>)"
  by (simp add: zone_ok_target)

lemma expire_inhibition_safe:
  assumes "stays p q"
  shows "wp (expire_inhibition now zzt q) (stays p)"
proof -
  let ?d = "zt_device (snd zzt)"
  have s: "stays p (upd_trv ?d id q)" using assms by (rule stays_upd_trv) simp
  have "stays p (upd_trv ?d (\<lambda>tv. tv\<lparr>trv_target :=
      (set_and_command (Setpoint 0) Schedule now t)\<lparr>tgt_phase := Confirmed, tgt_since := Some now\<rparr>,
      trv_open_window := f tv\<rparr>) (upd_trv ?d id q))" for f t
    by (intro stays_upd_trv [OF s]) (simp add: trv_ok_target)
  then show ?thesis
    using s unfolding expire_inhibition_def Let_def
    by (auto simp: Let_def split: option.splits trv_target.splits)
qed

lemma expire_inhibitions_safe: "stays p q \<Longrightarrow> wp (expire_inhibitions hc now q) (stays p)"
  unfolding expire_inhibitions_def by (rule wp_foldM) (auto intro: expire_inhibition_safe)

lemma detect_valve_safe: "proc_ok p \<Longrightarrow> safe_at p (detect_valve hc now since zt p)"
  using proc_ok_topology [of p] proc_ok_get_trv [of p "zt_device zt"]
  by (auto simp: detect_valve_def Let_def safe_at_def stays_refl device_effects_ok trv_ok_commanded
      split: option.splits window_verdict.splits intro!: stays_put_trv)

lemma detect_zone_safe: "proc_ok p \<Longrightarrow> safe_at p (detect_zone hc now z p)"
  by (auto simp: detect_zone_def stays_refl split: option.splits
      intro!: safe_for_each detect_valve_safe dest: stays_proc_ok)

lemma detect_open_windows_safe: "safe (detect_open_windows hc now)"
  unfolding safe_def detect_open_windows_def
  by (blast intro: safe_for_each detect_zone_safe stays_proc_ok)

lemma pressure_member_safe: "proc_ok p \<Longrightarrow> safe_at p (pressure_member active now n p)"
  using proc_ok_topology [of p] proc_ok_get_trv [of p n]
  by (auto simp: pressure_member_def safe_at_def stays_refl device_effects_ok trv_ok_commanded
      split: option.splits intro!: stays_put_trv)

lemma organic_demand_total: "proc_ok p \<Longrightarrow> \<exists>b. organic_demand p now n = Some b"
  using effective_heat_demand_total [OF proc_ok_boosts, of p n] by (auto simp: organic_demand_def)

lemma group_active_total: "proc_ok p \<Longrightarrow> \<exists>b. group_active hc now g p = Some b"
  using anyM_total [of "organic_demand p now" "pg_trvs g"] organic_demand_total [of p now]
  by (auto simp: group_active_def)

lemma enforce_pressure_groups_safe: "safe (enforce_pressure_groups hc now)"
proof -
  have "safe_at p (enforce_pressure_group hc now g p)" if ok: "proc_ok p" for g p
    using group_active_total [OF ok, of hc now g] ok
    by (auto simp: enforce_pressure_group_def intro!: safe_for_each pressure_member_safe dest: stays_proc_ok)
  then show ?thesis
    unfolding safe_def enforce_pressure_groups_def by (blast intro: safe_for_each stays_proc_ok)
qed

lemma apply_setpoint_safe:
  assumes "proc_ok p"
  shows "safe_at p (apply_setpoint device tt ow now p)"
proof -
  have s: "stays p (upd_trv device id p)" by (intro stays_upd_trv stays_refl assms) simp
  have "stays p (upd_trv device (\<lambda>tv. tv\<lparr>trv_target := set_and_command v ow now (trv_target tv),
      trv_setpoint_dirty_gen := g\<rparr>) (upd_trv device id p))" for v g
    by (intro stays_upd_trv [OF s]) (simp add: trv_ok_commanded)
  then show ?thesis
    using s proc_ok_topology [OF assms] by (simp add: apply_setpoint_def Let_def safe_at_def device_effects_ok)
qed

lemma evaluate_schedule_safe:
  assumes "proc_ok p"
  shows "safe_at p (evaluate_schedule hc wd h m now zt p)"
proof -
  obtain ab where "active_boost p (zt_device zt) = Some ab"
    using active_boost_total [OF proc_ok_boosts [OF assms]] by blast
  then show ?thesis
    by (auto simp: evaluate_schedule_def Let_def stays_refl [OF assms] apply_setpoint_safe [OF assms]
        split: option.splits)
qed

lemma evaluate_schedules_safe: "safe (evaluate_schedules hc wd h m now)"
  unfolding safe_def evaluate_schedules_def
  by (auto intro!: safe_for_each evaluate_schedule_safe dest: stays_proc_ok)

lemma reconcile_setpoints_safe: "safe (reconcile_setpoints hc)"
  by (auto simp: safe_def reconcile_setpoints_def safe_at_def stays_refl list_all_concat reconcile_setpoint_def
      device_effects_ok proc_ok_topology split: option.splits)


lemma valve_demand_total: "proc_ok p \<Longrightarrow> \<exists>b. valve_demand p now zt = Some b"
  using effective_heat_demand_total [OF proc_ok_boosts, of p "zt_device zt"] by (auto simp: valve_demand_def)

definition decision_ok :: "topology \<Rightarrow> zone_decision \<Rightarrow> bool" where
  "decision_ok t d = (zd_relay_idx d < length (t_devices t))"

lemma zone_decisions_safe:
  assumes "proc_ok p"
  shows "wp (zone_decisions hc now p) (list_all (decision_ok (p_topology p)))"
proof -
  have "wp (zone_decision_of p now z) (\<lambda>d. \<forall>x. d = Some x \<longrightarrow> decision_ok (p_topology p) x)" for z
    using anyM_total [of "valve_demand p now" "zone_trvs z", OF valve_demand_total [OF assms]]
      device_idx_of_bound [OF proc_ok_topology [OF assms]]
    by (auto simp: zone_decision_of_def decision_ok_def split: option.splits)
  then have "wp (mapM (zone_decision_of p now) (hc_zones hc))
      (list_all (\<lambda>d. \<forall>x. d = Some x \<longrightarrow> decision_ok (p_topology p) x))"
    by (rule wp_mapM_all)
  then obtain ds where "mapM (zone_decision_of p now) (hc_zones hc) = Some ds"
    "list_all (\<lambda>d. \<forall>x. d = Some x \<longrightarrow> decision_ok (p_topology p) x) ds"
    by (auto simp: wp_iff)
  then show ?thesis by (auto simp: zone_decisions_def list_all_iff List.map_filter_def)
qed

lemma seed_target_safe:
  assumes "stays p q"
  shows "wp (seed_target now d q) (stays p)"
proof -
  have "stays p (upd_zone n (\<lambda>hz. hz\<lparr>hz_target := (set_and_command v ow now t)\<lparr>tgt_phase := Confirmed, tgt_since := Some now\<rparr>,
      hz_desired_relay_gen := g\<rparr>) q)" for n v ow t g
    by (intro stays_upd_zone assms) (simp add: zone_ok_target)
  then show ?thesis using assms by (simp add: seed_target_def Let_def)
qed

lemma command_zone_safe:
  "proc_ok p \<Longrightarrow> decision_ok (p_topology p) d \<Longrightarrow> safe_at p (command_zone v now d p)"
  by (simp add: command_zone_def decision_ok_def stays_upd_zone stays_refl zone_ok_commanded)

lemma for_each_decisions_safe:
  assumes "proc_ok p" and "list_all (decision_ok (p_topology p)) ds"
    and "\<And>d q. proc_ok q \<Longrightarrow> decision_ok (p_topology q) d \<Longrightarrow> safe_at q (f d q)"
  shows "safe_at p (for_each f ds p)"
proof (rule safe_for_each [OF assms(1)])
  fix d q assume "d \<in> set ds" and s: "stays p q"
  then have "decision_ok (p_topology q) d" using assms(2) by (simp add: list_all_iff stays_topology [OF s])
  then show "safe_at q (f d q)" by (rule assms(3) [OF stays_proc_ok [OF assms(1) s]])
qed

lemma force_zone_open_safe: "proc_ok p \<Longrightarrow> safe_at p (force_zone_open hc now d p)"
proof -
  have "safe_at p (force_valve_open now zt p)" if "proc_ok p" for p zt
    using that proc_ok_topology [of p] proc_ok_get_trv [of p "zt_device zt"]
    by (auto simp: force_valve_open_def safe_at_def stays_refl device_effects_ok trv_ok_commanded
        split: option.splits intro!: stays_put_trv)
  then show "proc_ok p \<Longrightarrow> safe_at p (force_zone_open hc now d p)"
    by (auto simp: force_zone_open_def stays_refl split: option.splits intro!: safe_for_each dest: stays_proc_ok)
qed

lemma relay_off_phase_safe:
  assumes "proc_ok p" and "list_all (decision_ok (p_topology p)) ds"
  shows "safe_at p (relay_off_phase hc mc now ds p)"
proof -
  have w: "list_all (decision_ok (p_topology p)) (filter wants_off ds)"
    using assms(2) by (auto simp: list_all_iff)
  show ?thesis
    using for_each_decisions_safe [OF assms(1) w command_zone_safe]
      for_each_decisions_safe [OF assms(1) w force_zone_open_safe] stays_refl [OF assms(1)]
    by (simp add: relay_off_phase_def Let_def)
qed

lemma evaluate_relays_safe: "safe (evaluate_relays hc now)"
proof -
  have "safe_at p (evaluate_relays hc now p)" if ok: "proc_ok p" for p
  proof -
    let ?mc = "from_secs (min_cycle_seconds (hc_heat_pump hc))"
    let ?mp = "from_secs (min_pause_seconds (hc_heat_pump hc))"
    obtain ds0 where ds0: "zone_decisions hc now p = Some ds0" "list_all (decision_ok (p_topology p)) ds0"
      using zone_decisions_safe [OF ok] by (auto simp: wp_iff)
    have "wp (foldM (seed_target now) ds0 p) (stays p)"
      by (rule wp_foldM) (auto intro: seed_target_safe stays_refl [OF ok])
    then obtain p1 where p1: "foldM (seed_target now) ds0 p = Some p1" "stays p p1" by (auto simp: wp_iff)
    define ds where "ds = map (refresh_target p1) ds0"
    have dsq: "list_all (decision_ok (p_topology q)) ds" if "stays p q" for q
      using ds0(2) by (simp add: ds_def refresh_target_def decision_ok_def list_all_iff stays_topology [OF that])
    have "safe_at p1 (seq (for_each (relay_on_phase ?mp now) ds)
        (seq (for_each (cancel_phase ?mc now) ds) (relay_off_phase hc ?mc now ds)) p1)"
    proof (intro safe_at_seq)
      show "safe_at p1 (for_each (relay_on_phase ?mp now) ds p1)"
        by (rule for_each_decisions_safe [OF stays_proc_ok [OF ok p1(2)] dsq [OF p1(2)]])
          (simp add: relay_on_phase_def command_zone_safe stays_refl)
      fix q assume "stays p1 q"
      then have q: "stays p q" using p1(2) stays_trans by blast
      show "safe_at q (for_each (cancel_phase ?mc now) ds q)"
        by (rule for_each_decisions_safe [OF stays_proc_ok [OF ok q] dsq [OF q]])
          (simp add: cancel_phase_def command_zone_safe stays_refl)
      fix r assume "stays q r"
      then have r: "stays p r" using q stays_trans by blast
      show "safe_at r (relay_off_phase hc ?mc now ds r)"
        by (rule relay_off_phase_safe [OF stays_proc_ok [OF ok r] dsq [OF r]])
    qed
    then show ?thesis
      using safe_at_trans [OF p1(2)] ds0(1) p1(1) by (simp add: evaluate_relays_def Let_def ds_def)
  qed
  then show ?thesis by (simp add: safe_def)
qed

lemma reconcile_relays_safe: "safe (reconcile_relays hc)"
  by (auto simp: safe_def reconcile_relays_def safe_at_def stays_refl list_all_concat reconcile_relay_def
      Let_def device_effects_ok proc_ok_topology split: option.splits)

lemma publish_if_changed_safe:
  "proc_ok p \<Longrightarrow> list_all (eff_ok (p_topology p)) es \<Longrightarrow> safe_at p (publish_if_changed topic st es p)"
  by (simp add: publish_if_changed_def safe_at_def stays_refl)

lemma emit_trv_state_safe: "proc_ok p \<Longrightarrow> safe_at p (emit_trv_state now zt p)"
  using device_idx_of_bound [OF proc_ok_topology, of p "zt_device zt"]
  by (auto simp: emit_trv_state_def Let_def split: option.split intro!: publish_if_changed_safe)

lemma emit_zone_state_safe:
  assumes "proc_ok p" and "t_heating_config (p_topology p) = Some hc" and "fst iz < length (hc_zones hc)"
  shows "safe_at p (emit_zone_state hc now iz p)"
proof -
  have "wp (derive_zone_state_from_tass n hz p now ms) (\<lambda>_. True)" for n hz ms
  proof -
    have "wp (anyM (valve_demand p now) zts) (\<lambda>_. True)" for zts
      using anyM_total [of "valve_demand p now" zts, OF valve_demand_total [OF assms(1)]] by (simp add: wp_iff)
    then show ?thesis by (auto simp: derive_zone_state_from_tass_def split: option.splits)
  qed
  then obtain ds where "(case bt_get (w_heating_zones (p_world p)) (zone_name (snd iz)) of
               None \<Rightarrow> Some ZdUnknown
             | Some hz \<Rightarrow> derive_zone_state_from_tass (zone_name (snd iz)) hz p now
                            (min_pause_seconds (hc_heat_pump hc))) = Some ds"
    by (cases "bt_get (w_heating_zones (p_world p)) (zone_name (snd iz))") (simp, fastforce simp: wp_iff)
  then show ?thesis
    using assms
    by (auto simp: emit_zone_state_def Let_def intro!: safe_at_seq publish_if_changed_safe safe_for_each
        emit_trv_state_safe dest: stays_proc_ok)
qed

lemma emit_ha_updates_safe:
  assumes "proc_ok p" and "t_heating_config (p_topology p) = Some hc"
  shows "safe_at p (emit_ha_updates hc now p)"
proof -
  have "list_all (eff_ok (p_topology p)) (ha_discovery (p_topology p) hc)"
    using device_idx_of_bound [OF proc_ok_topology [OF assms(1)]] assms(2)
    by (auto simp: ha_discovery_def list_all_concat in_set_enumerate_eq split: option.splits)
  moreover have "safe_at q (for_each (emit_zone_state hc now) (List.enumerate 0 (hc_zones hc)) q)" if "stays p q" for q
    using stays_proc_ok [OF assms(1) that] assms(2) stays_topology [OF that]
    by (intro safe_for_each emit_zone_state_safe)
      (auto simp: in_set_enumerate_eq stays_topology dest: stays_proc_ok)
  ultimately show ?thesis
    unfolding emit_ha_updates_def
    by (intro safe_at_seq) (auto simp: stays_refl [OF assms(1)] safe_at_def)
qed

lemma wt_keepalive_safe:
  assumes "proc_ok p"
  shows "safe_at p (wt_keepalive now z p)"
proof -
  have s: "stays p (upd_zone n id p)" for n by (intro stays_upd_zone stays_refl assms) simp
  have "stays p (upd_zone n (\<lambda>hz. hz\<lparr>hz_wt_last_stale_probe := t\<rparr>) (upd_zone n id p))" for n t
    by (intro stays_upd_zone [OF s]) simp
  then show ?thesis
    using s device_effects_ok [OF proc_ok_topology [OF assms]]
    by (simp add: wt_keepalive_def Let_def safe_at_def stays_topology [OF s])
qed

lemma heating_control_safe:
  assumes "proc_ok p" and "t_heating_config (p_topology p) = Some hc"
  shows "safe_at p (heating_control hc ck p)"
proof -
  have e: "safe_on p (emit_ha_updates hc now)" for now
    by (intro safe_onI emit_ha_updates_safe stays_proc_ok [OF assms(1)]) (simp_all add: assms(2) stays_topology)
  show ?thesis
    unfolding heating_control_def Let_def
    by (intro safe_onD [OF assms(1)] safe_on_seq e safe_on_safe [OF assms(1)] enforce_pressure_groups_safe
        evaluate_schedules_safe reconcile_setpoints_safe detect_open_windows_safe evaluate_relays_safe
        reconcile_relays_safe)
qed

lemma startup_probe_safe: "safe (startup_probe hc)"
  using device_effects_ok(2) [OF proc_ok_topology]
  by (simp add: safe_def startup_probe_def safe_at_def list_all_concat stays_refl)

lemma wt_refresh_safe: "safe (wt_refresh hc now)"
  using device_effects_ok(2) [OF proc_ok_topology]
  by (simp add: safe_def wt_refresh_def safe_at_def list_all_concat stays_refl)

lemma expire_and_touch_safe: "safe (expire_and_touch hc now)"
  unfolding safe_def safe_at_def expire_and_touch_def
  by (auto intro!: wp_mono [OF expire_inhibitions_safe [OF stays_refl]] stays_fold stays_upd_trv
      split: prod.splits)

lemma handle_heating_tick_safe: "safe handle_heating_tick"
proof -
  have "safe_at p (handle_heating_tick p)" if ok: "proc_ok p" for p
  proof -
    define q where "q = p\<lparr>p_heating_tick_gen := p_heating_tick_gen p + 1\<rparr>"
    have sq: "stays p q" unfolding q_def using stays_refl [OF ok] by simp
    have okq: "proc_ok q" by (rule stays_proc_ok [OF ok sq])
    show ?thesis
    proof (cases "p_heating_config q")
      case None
      then show ?thesis using sq by (simp add: handle_heating_tick_def q_def)
    next
      case (Some hc)
      have "t_heating_config (p_topology q) = Some hc" using okq Some by (simp add: proc_ok_def config_ok_def)
      then have hc: "safe_on q (heating_control hc ck)" for ck
        by (intro safe_onI heating_control_safe stays_proc_ok [OF okq]) (simp_all add: stays_topology)
      have "safe_at q (handle_heating_tick p)"
        unfolding handle_heating_tick_def Let_def q_def [symmetric] Some option.case
        by (rule safe_onD [OF okq], intro safe_on_seq)
          (simp_all add: hc safe_on_safe [OF okq] startup_probe_safe expire_and_touch_safe wt_refresh_safe
            safe_on_for_each [OF okq] safe_def [of "wt_keepalive _ _"] wt_keepalive_safe)
      then show ?thesis by (rule safe_at_trans [OF sq])
    qed
  qed
  then show ?thesis by (simp add: safe_def)
qed

end
