(* ===== verification/PumpProtection.thy ===== *)
theory PumpProtection
  imports HeatingLoop
begin

text \<open>
  What relay control guarantees the heat pump. The pump runs while some zone relay is on, so the
  guarantees span zones: no relay is switched on before the minimum pause has elapsed, and the last
  running relay is not switched off before the minimum cycle has elapsed unless every valve that
  could keep the water flowing is shut. The pump timestamps are characterised as sets, which turns
  the minima and maxima of the code into quantifiers.
\<close>

section \<open>Zones, starts and stops\<close>

definition zone_at :: "processor \<Rightarrow> string \<Rightarrow> heating_zone_entity option" where
  "zone_at p n = bt_get (w_heating_zones (p_world p)) n"

definition starts :: "processor \<Rightarrow> instant set" where
  "starts p = set_option (p_pump_on_since p) \<union>
     {s. \<exists>n hz. zone_at p n = Some hz \<and> tgt_value (hz_target hz) = Some Heating \<and> tgt_since (hz_target hz) = Some s}"

definition stops :: "processor \<Rightarrow> instant set" where
  "stops p = set_option (p_pump_off_since p) \<union>
     {s. \<exists>n hz. zone_at p n = Some hz \<and> tgt_value (hz_target hz) = Some HeatOff \<and>
        tgt_phase (hz_target hz) = Commanded \<and> tgt_since (hz_target hz) = Some s}"

definition zones_ok :: "processor \<Rightarrow> bool" where
  "zones_ok p = bt_ok (w_heating_zones (p_world p))"

lemma proc_ok_zones: "proc_ok p \<Longrightarrow> zones_ok p"
  by (simp add: proc_ok_def state_ok_def world_ok_def zones_ok_def)

lemma set_zone_values: "zones_ok p \<Longrightarrow> set (bt_values (w_heating_zones (p_world p))) = {hz. \<exists>n. zone_at p n = Some hz}"
  by (auto simp: zones_ok_def set_bt_values ran_def zone_at_def)

lemma map_filter_id: "List.map_filter id xs = map the (filter (\<lambda>x. x \<noteq> None) xs)"
  by (simp add: List.map_filter_def)

lemma set_map_filter: "set (List.map_filter f xs) = {y. \<exists>x \<in> set xs. f x = Some y}"
  by (force simp: List.map_filter_def)

lemma pump_running_iff: "zones_ok p \<Longrightarrow> is_pump_running p \<longleftrightarrow> (\<exists>n hz. zone_at p n = Some hz \<and> is_relay_on hz)"
  by (auto simp: is_pump_running_def list_ex_iff set_zone_values)

lemma iter_min_None [simp]: "iter_min xs = None \<longleftrightarrow> xs = []"
  by (simp add: iter_min_def)

lemma iter_max_None [simp]: "iter_max xs = None \<longleftrightarrow> xs = []"
  by (simp add: iter_max_def)

lemma cycle_ok_iff:
  assumes "zones_ok p"
  shows "cycle_ok mc now p \<longleftrightarrow> starts p = {} \<or> (\<exists>s \<in> starts p. mc \<le> duration_since now s)"
proof -
  define xs where "xs = List.map_filter (\<lambda>hz. tgt_since (hz_target hz))
    (filter (\<lambda>hz. tgt_value (hz_target hz) = Some Heating) (bt_values (w_heating_zones (p_world p))))"
  have st: "starts p = set_option (p_pump_on_since p) \<union> set xs"
    using assms by (auto simp: starts_def xs_def set_map_filter set_zone_values)
  have m: "mc \<le> duration_since now m \<longleftrightarrow> (\<exists>s \<in> set xs. mc \<le> duration_since now s)" if "iter_min xs = Some m" for m
    using iter_min_le [OF that] iter_min_in [OF that]
    unfolding duration_since_def by (meson diff_le_mono2 order_trans)
  have mm: "mc \<le> duration_since now (min a b) \<longleftrightarrow> mc \<le> duration_since now a \<or> mc \<le> duration_since now b" for a b
    by (simp add: duration_since_def min_def) linarith
  show ?thesis
  proof (cases "iter_min xs")
    case None
    then have "xs = []" by simp
    then show ?thesis unfolding cycle_ok_def effective_pump_on_since_def xs_def [symmetric] st
      by (cases "p_pump_on_since p") (simp_all add: option_or_def iter_min_def)
  next
    case (Some b)
    then have "xs \<noteq> []" by (auto simp: iter_min_def)
    then show ?thesis using Some unfolding cycle_ok_def effective_pump_on_since_def xs_def [symmetric] st
      by (cases "p_pump_on_since p") (simp_all add: option_or_def mm m [OF Some] bex_Un ball_Un)
  qed
qed

lemma pause_ok_iff:
  assumes "zones_ok p"
  shows "pause_ok mp now p \<longleftrightarrow> is_pump_running p \<or> (\<forall>s \<in> stops p. mp \<le> duration_since now s)"
proof -
  define xs where "xs = List.map_filter (\<lambda>hz. tgt_since (hz_target hz))
    (filter (\<lambda>hz. tgt_value (hz_target hz) = Some HeatOff \<and> tgt_phase (hz_target hz) = Commanded)
      (bt_values (w_heating_zones (p_world p))))"
  have st: "stops p = set_option (p_pump_off_since p) \<union> set xs"
    using assms by (auto simp: stops_def xs_def set_map_filter set_zone_values)
  have m: "mp \<le> duration_since now m \<longleftrightarrow> (\<forall>s \<in> set xs. mp \<le> duration_since now s)" if "iter_max xs = Some m" for m
    using iter_max_ge [OF that] iter_max_in [OF that]
    unfolding duration_since_def by (meson diff_le_mono2 order_trans)
  have mm: "mp \<le> duration_since now (max a b) \<longleftrightarrow> mp \<le> duration_since now a \<and> mp \<le> duration_since now b" for a b
    by (simp add: duration_since_def max_def) linarith
  show ?thesis
  proof (cases "iter_max xs")
    case None
    then have "xs = []" by simp
    then show ?thesis unfolding pause_ok_def effective_pump_off_since_def xs_def [symmetric] st
      by (cases "p_pump_off_since p") (simp_all add: option_or_def iter_max_def)
  next
    case (Some b)
    then have "xs \<noteq> []" by (auto simp: iter_max_def)
    then show ?thesis using Some unfolding pause_ok_def effective_pump_off_since_def xs_def [symmetric] st
      by (cases "p_pump_off_since p") (simp_all add: option_or_def mm m [OF Some] bex_Un ball_Un)
  qed
qed

section \<open>What the phases change\<close>

text \<open>
  \<open>retargeted C p q\<close>: \<open>q\<close> is \<open>p\<close> with the targets of some zones replaced by ones satisfying \<open>C\<close>;
  relay readings, pump timestamps and valves are untouched.
\<close>

definition retargeted ::
  "(string \<Rightarrow> heating_zone_target tass_target \<Rightarrow> bool) \<Rightarrow> processor \<Rightarrow> processor \<Rightarrow> bool" where
  "retargeted C p q \<longleftrightarrow>
     zones_ok q \<and> p_pump_on_since q = p_pump_on_since p \<and> p_pump_off_since q = p_pump_off_since p \<and>
     w_trvs (p_world q) = w_trvs (p_world p) \<and>
     (\<forall>n. zone_at q n = zone_at p n \<or>
        (\<exists>hz hz'. zone_at p n = Some hz \<and> zone_at q n = Some hz' \<and> hz_actual hz' = hz_actual hz \<and>
           hz_relay_state_known hz' = hz_relay_state_known hz \<and> C n (hz_target hz')))"

lemma retargeted_refl: "zones_ok p \<Longrightarrow> retargeted C p p"
  by (simp add: retargeted_def)

lemma zone_at_upd_zone:
  "zone_at (upd_zone n f q) m = (if m = n then Some (f (heating_zone (p_world q) n)) else zone_at q m)"
  by (simp add: zone_at_def upd_zone_def put_heating_zone_def)

lemma heating_zone_at: "zone_at q n = Some hz \<Longrightarrow> heating_zone (p_world q) n = hz"
  by (simp add: zone_at_def heating_zone_def bt_get_or_def)

lemma retargeted_upd:
  assumes "retargeted C p q" and "zone_at p n \<noteq> None" and "C n t"
  shows "retargeted C p (upd_zone n (\<lambda>hz. hz\<lparr>hz_target := t, hz_desired_relay_gen := g\<rparr>) q)"
proof -
  obtain hz where hz: "zone_at p n = Some hz" using assms(2) by blast
  then obtain hz' where hz': "zone_at q n = Some hz'" "hz_actual hz' = hz_actual hz"
    "hz_relay_state_known hz' = hz_relay_state_known hz"
    using assms(1) unfolding retargeted_def by (metis option.inject)
  have "zones_ok (upd_zone n f q)" for f
    using assms(1) by (simp add: retargeted_def zones_ok_def upd_zone_def put_heating_zone_def)
  moreover have "w_trvs (p_world (upd_zone n f q)) = w_trvs (p_world q)"
    "p_pump_on_since (upd_zone n f q) = p_pump_on_since q"
    "p_pump_off_since (upd_zone n f q) = p_pump_off_since q" for f
    by (simp_all add: upd_zone_def put_heating_zone_def)
  ultimately show ?thesis
    using assms(1,3) hz hz' heating_zone_at [OF hz'(1)]
    unfolding retargeted_def zone_at_upd_zone by simp
qed

lemma retargeted_relay:
  "retargeted C p q \<Longrightarrow> (\<exists>hz. zone_at q n = Some hz \<and> is_relay_on hz) \<longleftrightarrow> (\<exists>hz. zone_at p n = Some hz \<and> is_relay_on hz)"
  unfolding retargeted_def is_relay_on_def by (metis option.inject)

lemma set_and_command_eq:
  "set_and_command v ow ts (t :: 'a tass_target) =
     \<lparr>tgt_value = Some v, tgt_phase = Commanded, tgt_owner = Some ow, tgt_since = Some ts\<rparr>"
  by (simp add: set_and_command_def)

lemma command_zone_retargeted:
  assumes "retargeted C p q" and "zone_at p (zd_zone_name d) \<noteq> None"
    and "C (zd_zone_name d) \<lparr>tgt_value = Some v, tgt_phase = Commanded, tgt_owner = Some Schedule, tgt_since = Some now\<rparr>"
    and "command_zone v now d q = Some (e, q')"
  shows "retargeted C p q'"
  using retargeted_upd [OF assms(1-3)] assms(4)
  by (auto simp: command_zone_def set_and_command_eq)

section \<open>Decisions and seeding\<close>

lemma zone_decision_facts:
  assumes "zone_decisions hc now p = Some ds" and "d \<in> set ds"
  shows "\<exists>hz. zone_at p (zd_zone_name d) = Some hz \<and> zd_relay_on d = is_relay_on hz \<and>
           zd_target d = tgt_value (hz_target hz)"
proof -
  obtain ys where ys: "mapM (zone_decision_of p now) (hc_zones hc) = Some ys" "ds = List.map_filter id ys"
    using assms(1) by (auto simp: zone_decisions_def split: Option.bind_splits)
  then have "Some d \<in> set ys" using assms(2) by (simp add: set_map_filter)
  then obtain z where "zone_decision_of p now z = Some (Some d)" using mapM_in [OF ys(1)] by blast
  then show ?thesis
    by (auto simp: zone_decision_of_def zone_at_def split: option.splits if_splits Option.bind_splits)
qed

lemma zone_decision_name: "zone_decision_of p now z = Some (Some d) \<Longrightarrow> zd_zone_name d = zone_name z"
  by (auto simp: zone_decision_of_def split: option.splits if_splits Option.bind_splits)

lemma zone_decisions_distinct:
  assumes "zone_decisions hc now p = Some ds" and "distinct (map zone_name (hc_zones hc))"
  shows "distinct (map zd_zone_name ds)" and "set (map zd_zone_name ds) \<subseteq> set (map zone_name (hc_zones hc))"
proof -
  have "distinct (map zd_zone_name (map the (filter (\<lambda>x. x \<noteq> None) ys))) \<and>
      set (map zd_zone_name (map the (filter (\<lambda>x. x \<noteq> None) ys))) \<subseteq> set (map zone_name zs)"
    if "mapM (zone_decision_of p now) zs = Some ys" "distinct (map zone_name zs)" for zs ys
    using that
  proof (induction zs arbitrary: ys)
    case (Cons z zs)
    then obtain y ys' where y: "zone_decision_of p now z = Some y" "mapM (zone_decision_of p now) zs = Some ys'"
      "ys = y # ys'" by (auto split: Option.bind_splits)
    have "distinct (map zd_zone_name (map the (filter (\<lambda>x. x \<noteq> None) ys')))"
      "set (map zd_zone_name (map the (filter (\<lambda>x. x \<noteq> None) ys'))) \<subseteq> set (map zone_name zs)"
      using Cons.IH [OF y(2)] Cons.prems(2) by auto
    then show ?case
      using y Cons.prems(2) zone_decision_name [of p now z] by (cases y) auto
  qed simp
  note dist = this
  obtain ys where "mapM (zone_decision_of p now) (hc_zones hc) = Some ys" "ds = List.map_filter id ys"
    using assms(1) by (auto simp: zone_decisions_def split: Option.bind_splits)
  with dist [OF this(1) assms(2)]
  show "distinct (map zd_zone_name ds)" "set (map zd_zone_name ds) \<subseteq> set (map zone_name (hc_zones hc))"
    by (simp_all only: map_filter_id)
qed

definition seeds :: "instant \<Rightarrow> zone_decision list \<Rightarrow> string \<Rightarrow> heating_zone_target tass_target \<Rightarrow> bool" where
  "seeds now ds n t \<longleftrightarrow> (\<exists>d \<in> set ds. zd_zone_name d = n \<and> zd_target d = None \<and>
     t = \<lparr>tgt_value = Some (if zd_has_demand d \<or> zd_relay_on d then Heating else HeatOff),
          tgt_phase = Confirmed, tgt_owner = Some Schedule, tgt_since = Some now\<rparr>)"

lemma seeding_retargets:
  assumes "zones_ok p" and "zone_decisions hc now p = Some ds" and "foldM (seed_target now) ds p = Some p1"
  shows "retargeted (seeds now ds) p p1"
  using assms(3)
proof (rule foldM_invariant)
  show "retargeted (seeds now ds) p p" using assms(1) by (rule retargeted_refl)
  fix d q q' assume d: "d \<in> set ds" and q: "retargeted (seeds now ds) p q" and s: "seed_target now d q = Some q'"
  have n: "zone_at p (zd_zone_name d) \<noteq> None" using zone_decision_facts [OF assms(2) d] by auto
  show "retargeted (seeds now ds) p q'"
  proof (cases "zd_target d")
    case None
    have "seeds now ds (zd_zone_name d)
        \<lparr>tgt_value = Some (if zd_has_demand d \<or> zd_relay_on d then Heating else HeatOff),
          tgt_phase = Confirmed, tgt_owner = Some Schedule, tgt_since = Some now\<rparr>"
      using None d by (auto simp: seeds_def)
    from retargeted_upd [OF q n this] show ?thesis
      using s None by (auto simp: seed_target_def Let_def confirm_of_command)
  qed (use s q in \<open>simp add: seed_target_def\<close>)
qed

text \<open>Zones whose target did not change, or changed at \<open>now\<close>, contribute no other start.\<close>

lemma starts_bound:
  assumes "p_pump_on_since q = p_pump_on_since p"
    and "\<And>n. zone_at q n = zone_at p n \<or> (\<exists>hz. zone_at q n = Some hz \<and> tgt_since (hz_target hz) = Some now)"
  shows "starts q \<subseteq> insert now (starts p)"
proof
  fix s assume "s \<in> starts q"
  then consider "p_pump_on_since p = Some s" | n hz where "zone_at q n = Some hz"
    "tgt_value (hz_target hz) = Some Heating" "tgt_since (hz_target hz) = Some s"
    by (auto simp: starts_def assms(1))
  then show "s \<in> insert now (starts p)"
  proof cases
    case (2 n hz)
    then show ?thesis using assms(2) [of n] by (auto simp: starts_def)
  qed (simp add: starts_def)
qed

definition held :: "processor \<Rightarrow> string set" where
  "held p = {n. \<exists>hz. zone_at p n = Some hz \<and> is_relay_on hz \<and> tgt_value (hz_target hz) \<noteq> Some HeatOff}"

lemma relay_on_actual: "hz_actual hz' = hz_actual hz \<Longrightarrow> is_relay_on hz' = is_relay_on hz"
  by (simp add: is_relay_on_def)

text \<open>Seeding only fills in missing targets, and fills them to match a running relay.\<close>

lemma seeding_effect:
  assumes "zone_decisions hc now p = Some ds" and "retargeted (seeds now ds) p p1"
  shows "held p \<subseteq> held p1" and "stops p \<subseteq> stops p1" and "starts p \<subseteq> starts p1"
    and "starts p1 \<subseteq> insert now (starts p)"
proof -
  have z: "zone_at p1 n = zone_at p n \<or> (\<exists>hz hz'. zone_at p n = Some hz \<and> zone_at p1 n = Some hz' \<and>
      hz_actual hz' = hz_actual hz \<and> tgt_value (hz_target hz) = None \<and> tgt_phase (hz_target hz') = Confirmed \<and>
      tgt_since (hz_target hz') = Some now \<and> (is_relay_on hz \<longrightarrow> tgt_value (hz_target hz') = Some Heating))" for n
  proof (cases "zone_at p1 n = zone_at p n")
    case False
    then obtain hz hz' where h: "zone_at p n = Some hz" "zone_at p1 n = Some hz'" "hz_actual hz' = hz_actual hz"
      "seeds now ds n (hz_target hz')" using assms(2) unfolding retargeted_def by metis
    then obtain d where d: "d \<in> set ds" "zd_zone_name d = n" "zd_target d = None"
      "hz_target hz' = \<lparr>tgt_value = Some (if zd_has_demand d \<or> zd_relay_on d then Heating else HeatOff),
          tgt_phase = Confirmed, tgt_owner = Some Schedule, tgt_since = Some now\<rparr>"
      unfolding seeds_def by blast
    have "zd_relay_on d = is_relay_on hz" "tgt_value (hz_target hz) = None"
      using zone_decision_facts [OF assms(1) d(1)] d(2,3) h(1) by auto
    then show ?thesis using h d(4) by auto
  qed simp
  have pu: "p_pump_on_since p1 = p_pump_on_since p" "p_pump_off_since p1 = p_pump_off_since p"
    using assms(2) by (simp_all add: retargeted_def)
  show "held p \<subseteq> held p1"
  proof
    fix n assume "n \<in> held p"
    then obtain hz where hz: "zone_at p n = Some hz" "is_relay_on hz" "tgt_value (hz_target hz) \<noteq> Some HeatOff"
      by (auto simp: held_def)
    from z [of n] show "n \<in> held p1"
    proof
      assume "zone_at p1 n = zone_at p n"
      then show ?thesis using hz by (simp add: held_def)
    next
      assume "\<exists>hz hz'. zone_at p n = Some hz \<and> zone_at p1 n = Some hz' \<and>
        hz_actual hz' = hz_actual hz \<and> tgt_value (hz_target hz) = None \<and> tgt_phase (hz_target hz') = Confirmed \<and>
        tgt_since (hz_target hz') = Some now \<and> (is_relay_on hz \<longrightarrow> tgt_value (hz_target hz') = Some Heating)"
      then obtain hz' where "zone_at p1 n = Some hz'" "hz_actual hz' = hz_actual hz"
        "tgt_value (hz_target hz') = Some Heating"
        using hz by auto
      then show ?thesis using hz(2) relay_on_actual [of hz' hz] by (simp add: held_def)
    qed
  qed
  show "stops p \<subseteq> stops p1"
  proof
    fix s assume "s \<in> stops p"
    then consider "p_pump_off_since p = Some s" | n hz where "zone_at p n = Some hz"
      "tgt_value (hz_target hz) = Some HeatOff" "tgt_phase (hz_target hz) = Commanded" "tgt_since (hz_target hz) = Some s"
      by (auto simp: stops_def)
    then show "s \<in> stops p1"
    proof cases
      case (2 n hz)
      then have "zone_at p1 n = Some hz" using z [of n] by auto
      with 2 show ?thesis by (auto simp: stops_def)
    qed (simp add: stops_def pu)
  qed
  show "starts p \<subseteq> starts p1"
  proof
    fix s assume "s \<in> starts p"
    then consider "p_pump_on_since p = Some s" | n hz where "zone_at p n = Some hz"
      "tgt_value (hz_target hz) = Some Heating" "tgt_since (hz_target hz) = Some s"
      by (auto simp: starts_def)
    then show "s \<in> starts p1"
    proof cases
      case (2 n hz)
      then have "zone_at p1 n = Some hz" using z [of n] by auto
      with 2 show ?thesis by (auto simp: starts_def)
    qed (simp add: starts_def pu)
  qed
  show "starts p1 \<subseteq> insert now (starts p)"
    by (rule starts_bound [OF pu(1)]) (use z in blast)
qed

section \<open>The minimum pause\<close>

definition commanded_on :: "instant \<Rightarrow> string \<Rightarrow> heating_zone_target tass_target \<Rightarrow> bool" where
  "commanded_on now n t \<longleftrightarrow>
     t = \<lparr>tgt_value = Some Heating, tgt_phase = Commanded, tgt_owner = Some Schedule, tgt_since = Some now\<rparr>"

lemma on_phase_retargets:
  assumes "zones_ok p1" and "\<And>d. d \<in> set ds \<Longrightarrow> zone_at p1 (zd_zone_name d) \<noteq> None"
    and "for_each (relay_on_phase mp now) ds p1 = Some (e, p2)"
  shows "retargeted (commanded_on now) p1 p2"
  using assms(3)
proof (rule for_each_invariant)
  show "retargeted (commanded_on now) p1 p1" using assms(1) by (rule retargeted_refl)
  fix d q e q' assume "d \<in> set ds" and q: "retargeted (commanded_on now) p1 q" and s: "relay_on_phase mp now d q = Some (e, q')"
  then show "retargeted (commanded_on now) p1 q'"
    using command_zone_retargeted [OF q assms(2), of d Heating now e q']
    by (auto simp: relay_on_phase_def commanded_on_def split: if_splits)
qed

lemma relay_payloads [simp]: "device_on \<noteq> device_off" "device_on \<noteq> trv_setpoint t" "trv_setpoint t \<noteq> device_on" "trv_setpoint t \<noteq> device_off"
  by (simp_all add: device_on_def device_off_def trv_setpoint_def)

definition never_on :: "eff set" where
  "never_on = {e. \<forall>r. e \<noteq> PublishDeviceSet r device_on}"

lemma off_effects: "command_zone HeatOff now d q = Some (e, q') \<Longrightarrow> set e \<subseteq> never_on"
  by (auto simp: command_zone_def never_on_def)

lemma cancel_effects: "cancel_phase mc now d q = Some (e, q') \<Longrightarrow> set e \<subseteq> never_on"
  by (auto simp: cancel_phase_def split: if_splits dest: off_effects)

lemma force_effects:
  assumes "force_zone_open hc now d q = Some (e, q')"
  shows "set e \<subseteq> never_on"
proof -
  have "set e \<subseteq> never_on" if "force_valve_open now zt q = Some (e, q')" for zt q e q'
    using that
    by (auto simp: force_valve_open_def never_on_def device_set_effect_def split: option.splits if_splits)
  note valve = this
  show ?thesis
  proof (cases "find (\<lambda>z. zone_name z = zd_zone_name d) (hc_zones hc)")
    case (Some z)
    then have "for_each (force_valve_open now) (zone_trvs z) q = Some (e, q')"
      using assms by (simp add: force_zone_open_def)
    then show ?thesis by (rule for_each_effects) (rule valve)
  qed (use assms in \<open>simp add: force_zone_open_def\<close>)
qed

lemma off_phase_effects:
  assumes "relay_off_phase hc mc now ds q = Some (e, q')"
  shows "set e \<subseteq> never_on"
proof -
  have "set e \<subseteq> never_on" if "for_each (command_zone HeatOff now) xs q = Some (e, q')" for xs
    using that by (rule for_each_effects) (rule off_effects)
  moreover have "set e \<subseteq> never_on" if "for_each (force_zone_open hc now) xs q = Some (e, q')" for xs
    using that by (rule for_each_effects) (rule force_effects)
  ultimately show ?thesis
    using assms by (auto simp: relay_off_phase_def Let_def split: if_splits)
qed

text \<open>The stages of \<open>evaluate_relays\<close>, taken apart once for all the proofs below.\<close>

lemma evaluate_relays_stages:
  assumes "evaluate_relays hc now p = Some (e, p')"
  obtains ds0 p1 ds e1 p2 e2 p3 e3 where "zone_decisions hc now p = Some ds0"
    and "foldM (seed_target now) ds0 p = Some p1" and "ds = map (refresh_target p1) ds0"
    and "for_each (relay_on_phase (from_secs (min_pause_seconds (hc_heat_pump hc))) now) ds p1 = Some (e1, p2)"
    and "for_each (cancel_phase (from_secs (min_cycle_seconds (hc_heat_pump hc))) now) ds p2 = Some (e2, p3)"
    and "relay_off_phase hc (from_secs (min_cycle_seconds (hc_heat_pump hc))) now ds p3 = Some (e3, p')"
    and "e = e1 @ e2 @ e3"
  using assms by (auto simp: evaluate_relays_def Let_def seq_Some split: Option.bind_splits)


section \<open>The minimum cycle\<close>

lemma not_cycle_ok_mono:
  assumes "zones_ok p" and "zones_ok q" and "starts q \<subseteq> insert now (starts p)"
    and "starts p \<noteq> {} \<Longrightarrow> starts q \<noteq> {}" and "\<not> cycle_ok mc now p"
  shows "\<not> cycle_ok mc now q"
proof -
  have 1: "starts p \<noteq> {}" "\<forall>s \<in> starts p. duration_since now s < mc"
    using assms(5) by (auto simp: cycle_ok_iff [OF assms(1)] not_le)
  then have "0 < mc" by fastforce
  then show ?thesis
    using 1 assms(3,4) by (auto simp: cycle_ok_iff [OF assms(2)] not_le subset_iff)
qed

text \<open>Switching zones on keeps every held relay held, and adds no earlier start.\<close>

lemma on_phase_effect:
  assumes "retargeted (commanded_on now) p q"
  shows "held p \<subseteq> held q" and "starts q \<subseteq> insert now (starts p)" and "starts p \<noteq> {} \<Longrightarrow> starts q \<noteq> {}"
proof -
  have z: "zone_at q n = zone_at p n \<or> (\<exists>hz hz'. zone_at p n = Some hz \<and> zone_at q n = Some hz' \<and>
      is_relay_on hz' = is_relay_on hz \<and> tgt_value (hz_target hz') = Some Heating \<and> tgt_since (hz_target hz') = Some now)" for n
  proof (cases "zone_at q n = zone_at p n")
    case False
    then obtain hz hz' where "zone_at p n = Some hz" "zone_at q n = Some hz'" "hz_actual hz' = hz_actual hz"
      "commanded_on now n (hz_target hz')" using assms unfolding retargeted_def by metis
    then show ?thesis using relay_on_actual [of hz' hz] by (simp add: commanded_on_def)
  qed simp
  have pu: "p_pump_on_since q = p_pump_on_since p" using assms by (simp add: retargeted_def)
  show "held p \<subseteq> held q"
  proof
    fix n assume "n \<in> held p"
    then show "n \<in> held q" using z [of n] by (auto simp: held_def)
  qed
  show "starts q \<subseteq> insert now (starts p)"
    by (rule starts_bound [OF pu]) (use z in blast)
  show "starts q \<noteq> {}" if ne: "starts p \<noteq> {}"
  proof -
    obtain s where "s \<in> starts p" using ne by blast
    then consider "p_pump_on_since p = Some s" | n hz where "zone_at p n = Some hz"
      "tgt_value (hz_target hz) = Some Heating" "tgt_since (hz_target hz) = Some s"
      by (auto simp: starts_def)
    then have "\<exists>s'. s' \<in> starts q"
    proof cases
      case (2 n hz)
      with z [of n] obtain hz' s' where "zone_at q n = Some hz'" "tgt_value (hz_target hz') = Some Heating"
        "tgt_since (hz_target hz') = Some s'" by auto
      then show ?thesis by (auto simp: starts_def)
    qed (auto simp: starts_def pu)
    then show ?thesis by blast
  qed
qed

text \<open>\<open>surviving_relays\<close> counts the held relays that are not about to be switched off.\<close>

lemma held_finite: "finite (held p)"
  by (rule finite_subset [of _ "dom (map_of (w_heating_zones (p_world p)))"])
    (auto simp: held_def zone_at_def bt_get_def finite_dom_map_of)

lemma held_count:
  assumes "zones_ok p"
  shows "active_relay_count p - length (filter (\<lambda>hz. is_relay_on hz \<and> tgt_value (hz_target hz) = Some HeatOff)
      (bt_values (w_heating_zones (p_world p)))) = card (held p)"
proof -
  let ?m = "w_heating_zones (p_world p)"
  let ?on = "{n. \<exists>hz. bt_get ?m n = Some hz \<and> is_relay_on hz}"
  let ?off = "{n. \<exists>hz. bt_get ?m n = Some hz \<and> is_relay_on hz \<and> tgt_value (hz_target hz) = Some HeatOff}"
  have fin: "finite ?on"
    by (rule finite_subset [of _ "dom (map_of ?m)"]) (auto simp: bt_get_def finite_dom_map_of)
  have "held p = ?on - ?off" by (auto simp: held_def zone_at_def)
  moreover have "card (?on - ?off) = card ?on - card ?off"
    by (rule card_Diff_subset) (auto intro: finite_subset [OF _ fin])
  ultimately show ?thesis
    using assms by (simp add: active_relay_count_def zones_ok_def length_filter_values)
qed

lemma survivor:
  assumes "zones_ok p" and "surviving_relays p want_off > 0"
  shows "\<exists>n \<in> held p. n \<notin> set (map zd_zone_name want_off)"
proof (rule ccontr)
  assume "\<not> ?thesis"
  then have "held p \<subseteq> set (map zd_zone_name want_off)" by blast
  then have "card (held p) \<le> card (set (map zd_zone_name want_off))" by (intro card_mono) auto
  also have "\<dots> \<le> length want_off" using card_length [of "map zd_zone_name want_off"] by simp
  finally show False using assms held_count [OF assms(1)] by (simp add: surviving_relays_def)
qed

definition commanded_off :: "zone_decision list \<Rightarrow> string \<Rightarrow> heating_zone_target tass_target \<Rightarrow> bool" where
  "commanded_off ds n t \<longleftrightarrow> n \<in> set (map zd_zone_name ds)"

lemma off_loop_keeps_others:
  assumes "zones_ok p" and "\<And>d. d \<in> set ds \<Longrightarrow> zone_at p (zd_zone_name d) \<noteq> None"
    and "for_each (command_zone HeatOff now) ds p = Some (e, q)" and "n \<in> held p" and "n \<notin> set (map zd_zone_name ds)"
  shows "n \<in> held q"
proof -
  have "retargeted (commanded_off ds) p q"
    using assms(3)
  proof (rule for_each_invariant)
    show "retargeted (commanded_off ds) p p" using assms(1) by (rule retargeted_refl)
    fix d q e q' assume d: "d \<in> set ds" and q: "retargeted (commanded_off ds) p q"
      and c: "command_zone HeatOff now d q = Some (e, q')"
    show "retargeted (commanded_off ds) p q'"
      by (rule command_zone_retargeted [OF q assms(2) [OF d] _ c]) (use d in \<open>auto simp: commanded_off_def\<close>)
  qed
  then have "zone_at q n = zone_at p n"
    using assms(5) unfolding retargeted_def commanded_off_def by blast
  then show ?thesis using assms(4) by (simp add: held_def)
qed

lemma force_keeps_zones:
  assumes "for_each (force_zone_open hc now) ds p = Some (e, q)"
  shows "zone_at q = zone_at p"
  using assms
proof (rule for_each_invariant)
  have v: "zone_at q' = zone_at p" if "force_valve_open now zt q = Some (e, q')" "zone_at q = zone_at p" for zt e q q'
    using that by (auto simp: force_valve_open_def zone_at_def put_trv_def fun_eq_iff split: option.splits if_splits)
  fix d q e q' assume q: "zone_at q = zone_at p" and f: "force_zone_open hc now d q = Some (e, q')"
  show "zone_at q' = zone_at p"
  proof (cases "find (\<lambda>z. zone_name z = zd_zone_name d) (hc_zones hc)")
    case (Some z)
    then have "for_each (force_valve_open now) (zone_trvs z) q = Some (e, q')" using f by (simp add: force_zone_open_def)
    then show ?thesis by (rule for_each_invariant) (use q v in blast)+
  qed (use f q in \<open>simp add: force_zone_open_def\<close>)
qed simp

text \<open>A zone without a way out for the water: every valve known for it is shut by an inhibition.\<close>

definition no_flow :: "heating_config \<Rightarrow> instant \<Rightarrow> processor \<Rightarrow> string \<Rightarrow> bool" where
  "no_flow hc now p n \<longleftrightarrow> (\<forall>z \<in> set (hc_zones hc). zone_name z = n \<longrightarrow>
     (\<forall>zt \<in> set (zone_trvs z). \<forall>tv. bt_get (w_trvs (p_world p)) (zt_device zt) = Some tv \<longrightarrow> is_inhibited now tv))"

lemma find_distinct_name:
  assumes "distinct (map zone_name zs)" and "z \<in> set zs" and "zone_name z = n"
  shows "find (\<lambda>z. zone_name z = n) zs = Some z"
  using assms by (induction zs) auto

lemma no_flow_path:
  assumes "distinct (map zone_name (hc_zones hc))" and "d \<in> set ds"
    and "\<not> list_ex (zone_trv_exists hc p (\<lambda>tv. \<not> is_forced_open tv \<and> \<not> is_inhibited now tv)) ds"
    and "\<not> list_ex (zone_trv_exists hc p is_forced_open) ds"
  shows "no_flow hc now p (zd_zone_name d)"
  unfolding no_flow_def
proof (intro ballI impI allI)
  fix z zt tv assume z: "z \<in> set (hc_zones hc)" "zone_name z = zd_zone_name d" and zt: "zt \<in> set (zone_trvs z)"
    and tv: "bt_get (w_trvs (p_world p)) (zt_device zt) = Some tv"
  have f: "find (\<lambda>z. zone_name z = zd_zone_name d) (hc_zones hc) = Some z"
    by (rule find_distinct_name [OF assms(1) z])
  have "zone_trv_exists hc p P d" if "P tv" for P
    using that f zt tv by (auto simp: zone_trv_exists_def list_ex_iff intro!: bexI [of _ zt])
  note ex = this
  have "\<not> zone_trv_exists hc p is_forced_open d"
    "\<not> zone_trv_exists hc p (\<lambda>tv. \<not> is_forced_open tv \<and> \<not> is_inhibited now tv) d"
    using assms(2-4) by (auto simp: list_ex_iff)
  then show "is_inhibited now tv" using ex [of is_forced_open] ex [of "\<lambda>tv. \<not> is_forced_open tv \<and> \<not> is_inhibited now tv"] by blast
qed

text \<open>The last phase, once the cycle is known to be too short.\<close>

lemma off_phase_holds:
  assumes "distinct (map zone_name (hc_zones hc))" and "zones_ok q" and "\<not> cycle_ok mc now q"
    and "relay_off_phase hc mc now ds q = Some (e, p')"
    and "\<And>d. d \<in> set ds \<Longrightarrow> zone_at q (zd_zone_name d) \<noteq> None"
    and "distinct (map zd_zone_name ds)" and "\<And>d. d \<in> set ds \<Longrightarrow> wants_off d \<Longrightarrow> zd_zone_name d \<in> held q"
    and "H \<subseteq> held q" and "H \<noteq> {}"
  shows "held p' \<noteq> {} \<or> (\<forall>n \<in> H. no_flow hc now q n)"
proof -
  define want_off where "want_off = filter wants_off ds"
  have at: "zone_at q (zd_zone_name d) \<noteq> None" if "d \<in> set want_off" for d
    using that assms(5) by (simp add: want_off_def)
  show ?thesis
  proof (cases "surviving_relays q want_off > 0")
    case True
    obtain n where n: "n \<in> held q" "n \<notin> set (map zd_zone_name want_off)" using survivor [OF assms(2) True] by blast
    show ?thesis
    proof (cases "want_off = []")
      case False
      then have "for_each (command_zone HeatOff now) want_off q = Some (e, p')"
        using assms(4) True by (simp add: relay_off_phase_def want_off_def [symmetric] Let_def)
      from off_loop_keeps_others [OF assms(2) at this n] show ?thesis by blast
    qed (use assms(4,8,9) in \<open>auto simp: relay_off_phase_def want_off_def\<close>)
  next
    case False
    have "distinct (map zd_zone_name want_off)" using assms(6) by (simp add: want_off_def distinct_map_filter)
    then have "card (held q) \<le> card (set (map zd_zone_name want_off))"
      using False held_count [OF assms(2)] distinct_card [of "map zd_zone_name want_off"]
      by (simp add: surviving_relays_def)
    moreover have "set (map zd_zone_name want_off) \<subseteq> held q" using assms(7) by (auto simp: want_off_def)
    ultimately have all: "held q = set (map zd_zone_name want_off)" by (metis card_seteq held_finite)
    let ?forceable = "list_ex (zone_trv_exists hc q (\<lambda>tv. \<not> is_forced_open tv \<and> \<not> is_inhibited now tv)) want_off"
    let ?open = "list_ex (zone_trv_exists hc q is_forced_open) want_off"
    consider "p' = q" | "for_each (force_zone_open hc now) want_off q = Some (e, p')" | "\<not> ?forceable" "\<not> ?open"
      using assms(3,4) False
      by (auto simp: relay_off_phase_def want_off_def [symmetric] Let_def split: if_splits)
    then show ?thesis
    proof cases
      case 2
      then have "held p' = held q" using force_keeps_zones [OF 2] by (simp add: held_def)
      then show ?thesis using assms(8,9) by auto
    next
      case 3
      then have "\<forall>d \<in> set want_off. no_flow hc now q (zd_zone_name d)"
        using no_flow_path [OF assms(1)] by blast
      then show ?thesis using all assms(8) by auto
    qed (use assms(8,9) in auto)
  qed
qed

text \<open>C31: The heat pump is never stopped early. While the minimum cycle has not elapsed since the pump's
  effective start, relay control leaves at least one running relay running (switched on, not
  commanded off), however the demands of the zones change. The one exception is the overpressure
  override, and then every running zone has all its known valves shut by an open-window inhibition.\<close>

theorem pump_not_short_cycled:
  assumes "proc_ok p" and "distinct (map zone_name (hc_zones hc))"
    and "evaluate_relays hc now p = Some (e, p')"
    and "effective_pump_on_since p = Some on"
    and "duration_since now on < from_secs (min_cycle_seconds (hc_heat_pump hc))"
    and "held p \<noteq> {}"
  shows "held p' \<noteq> {} \<or> (\<forall>n \<in> held p. no_flow hc now p n)"
proof -
  let ?mc = "from_secs (min_cycle_seconds (hc_heat_pump hc))"
  have z: "zones_ok p" using assms(1) by (rule proc_ok_zones)
  obtain ds0 p1 ds e1 p2 e2 p3 e3 where ds0: "zone_decisions hc now p = Some ds0"
    and p1: "foldM (seed_target now) ds0 p = Some p1" and ds: "ds = map (refresh_target p1) ds0"
    and e1: "for_each (relay_on_phase (from_secs (min_pause_seconds (hc_heat_pump hc))) now) ds p1 = Some (e1, p2)"
    and e2: "for_each (cancel_phase ?mc now) ds p2 = Some (e2, p3)"
    and e3: "relay_off_phase hc ?mc now ds p3 = Some (e3, p')"
    using evaluate_relays_stages [OF assms(3)] by metis
  have r1: "retargeted (seeds now ds0) p p1" by (rule seeding_retargets [OF z ds0 p1])
  have z1: "zones_ok p1" using r1 by (simp add: retargeted_def)
  have name: "zd_zone_name (refresh_target p1 d) = zd_zone_name d"
    "zd_relay_on (refresh_target p1 d) = zd_relay_on d" for d by (simp_all add: refresh_target_def)
  have at: "zone_at p1 (zd_zone_name d) \<noteq> None" if "d \<in> set ds" for d
    using that zone_decision_facts [OF ds0] r1 unfolding ds retargeted_def by (force simp: name)
  have r2: "retargeted (commanded_on now) p1 p2" by (rule on_phase_retargets [OF z1 at e1])
  have z2: "zones_ok p2" using r2 by (simp add: retargeted_def)
  have "\<not> cycle_ok ?mc now p" using assms(4,5) by (simp add: cycle_ok_def)
  then have "\<not> cycle_ok ?mc now p1"
    by (rule not_cycle_ok_mono [OF z z1, rotated 2]) (use seeding_effect [OF ds0 r1] in auto)
  then have nc: "\<not> cycle_ok ?mc now p2"
    by (rule not_cycle_ok_mono [OF z1 z2, rotated 2]) (use on_phase_effect [OF r2] in auto)
  then have p3: "p3 = p2" using e2 for_each_idle [of ds "cancel_phase ?mc now" p2] by (simp add: cancel_phase_def)
  have h: "held p \<subseteq> held p2" using seeding_effect(1) [OF ds0 r1] on_phase_effect(1) [OF r2] by blast
  have at2: "zone_at p2 (zd_zone_name d) \<noteq> None" if "d \<in> set ds" for d
    using at [OF that] r2 unfolding retargeted_def by (metis option.distinct(1))
  have di: "distinct (map zd_zone_name ds)"
    using zone_decisions_distinct(1) [OF ds0 assms(2)] by (simp add: ds comp_def name)
  have wo: "zd_zone_name d \<in> held p2" if "d \<in> set ds" "wants_off d" for d
  proof -
    obtain d0 where d0: "d0 \<in> set ds0" "d = refresh_target p1 d0" using \<open>d \<in> set ds\<close> ds by auto
    then have "\<exists>hz. zone_at p (zd_zone_name d) = Some hz \<and> is_relay_on hz"
      using zone_decision_facts [OF ds0 d0(1)] \<open>wants_off d\<close> by (auto simp: name wants_off_def)
    then obtain hz where "zone_at p1 (zd_zone_name d) = Some hz" "is_relay_on hz"
      using retargeted_relay [OF r1] by blast
    moreover from this have "tgt_value (hz_target hz) \<noteq> Some HeatOff"
      using \<open>wants_off d\<close> d0(2) by (auto simp: wants_off_def refresh_target_def zone_at_def)
    ultimately have "zd_zone_name d \<in> held p1" by (simp add: held_def)
    then show ?thesis using on_phase_effect(1) [OF r2] by blast
  qed
  have "no_flow hc now p2 = no_flow hc now p"
    using r1 r2 by (simp add: retargeted_def no_flow_def fun_eq_iff)
  then show ?thesis
    using off_phase_holds [OF assms(2) z2 nc e3 [unfolded p3] at2 di wo h assms(6)] by simp
qed

section \<open>Concrete runs\<close>

text \<open>The house of \<open>House\<close> with its zone known, and one valve asking for heat.\<close>

definition heat_reading :: trv_actual where
  "heat_reading = trv_actual_default\<lparr>ta_running_state := HrsHeat, ta_running_state_seen := True\<rparr>"

definition with_zone :: "heating_zone_target tass_target \<Rightarrow> bool \<Rightarrow> processor \<Rightarrow> processor" where
  "with_zone t on = upd_world (put_heating_zone ''ground'' (heating_zone_default\<lparr>
     hz_relay_state_known := True, hz_target := t,
     hz_actual := actual_update \<lparr>hza_relay_on = on, hza_temperature = None\<rparr> 0 actual_new\<rparr>))"

definition with_demand :: "processor \<Rightarrow> processor" where
  "with_demand = upd_world (put_trv ''trv-a'' (trv_default\<lparr>trv_actual := actual_update heat_reading 0 actual_new\<rparr>))"

definition zone_off :: "heating_zone_target tass_target" where
  "zone_off = \<lparr>tgt_value = Some HeatOff, tgt_phase = Confirmed, tgt_owner = Some Schedule, tgt_since = Some 0\<rparr>"

definition zone_heating :: "heating_zone_target tass_target" where
  "zone_heating = \<lparr>tgt_value = Some Heating, tgt_phase = Confirmed, tgt_owner = Some Schedule, tgt_since = Some 0\<rparr>"

lemma with_zone_ok: "proc_ok p \<Longrightarrow> target_ok t \<Longrightarrow> tgt_phase t \<noteq> Pending \<Longrightarrow> proc_ok (with_zone t on p)"
  by (simp add: with_zone_def proc_ok_upd_world proc_ok_state state_ok_store heating_zone_ok_def)

lemma with_demand_ok: "proc_ok p \<Longrightarrow> proc_ok (with_demand p)"
  by (simp add: with_demand_def proc_ok_upd_world proc_ok_state state_ok_store trv_ok_def trv_default_def)

lemma zone_targets_ok [simp]:
  "target_ok zone_off" "tgt_phase zone_off \<noteq> Pending" "target_ok zone_heating" "tgt_phase zone_heating \<noteq> Pending"
  by (simp_all add: zone_off_def zone_heating_def target_ok_def)

definition chilly :: processor where
  "chilly = with_demand (with_zone zone_off False home)"

lemma chilly_run: "map_option fst (evaluate_relays house_heating (from_secs 1000) chilly) = Some [PublishDeviceSet 6 device_on]"
  by code_simp


definition warm :: processor where
  "warm = (upd_world (put_trv ''trv-a'' trv_default) (with_zone zone_heating True home))\<lparr>p_pump_on_since := Some 0\<rparr>"

lemma warm_ok: "proc_ok warm"
proof -
  have "proc_ok (upd_world (put_trv ''trv-a'' trv_default) (with_zone zone_heating True home))"
    by (simp add: proc_ok_upd_world proc_ok_state state_ok_store with_zone_ok home_ok)
  from stays_proc_ok [OF this] stays_refl [OF this] show ?thesis by (simp add: warm_def)
qed

lemma warm_start: "effective_pump_on_since warm = Some 0"
  by code_simp

lemma warm_zone: "zone_at warm ''ground'' =
    Some (heating_zone_default\<lparr>hz_relay_state_known := True, hz_target := zone_heating,
      hz_actual := actual_update \<lparr>hza_relay_on = True, hza_temperature = None\<rparr> 0 actual_new\<rparr>)"
  by (simp add: warm_def zone_at_def with_zone_def put_heating_zone_def put_trv_def)

theorem pump_not_short_cycled_witness:
  "\<exists>e p'. evaluate_relays house_heating (from_secs 100) warm = Some (e, p') \<and> held p' \<noteq> {}"
proof -
  obtain e p' where r: "evaluate_relays house_heating (from_secs 100) warm = Some (e, p')"
    using safeD [OF evaluate_relays_safe warm_ok, of house_heating "from_secs 100"]
    by (auto simp: safe_at_def wp_iff)
  have h: "''ground'' \<in> held warm"
    using warm_zone by (simp add: held_def is_relay_on_def zone_heating_def)
  have "\<not> no_flow house_heating (from_secs 100) warm ''ground''"
    by (auto simp: no_flow_def house_heating_def warm_def put_trv_def with_zone_def is_inhibited_def trv_default_def)
  then have "held p' \<noteq> {}"
    using pump_not_short_cycled [OF warm_ok _ r warm_start] h
    by (auto simp: house_heating_def duration_since_def from_secs_def nanos_per_sec_def)
  with r show ?thesis by blast
qed

section \<open>Demand at first contact\<close>

text \<open>
  A zone is seeded when its relay state becomes known. When a valve already asks for heat at that
  moment, the seed is a \<^emph>\<open>confirmed\<close> \<open>Heating\<close> target on a relay that is off: the on-phase skips
  the zone because its target is \<open>Heating\<close>, and reconciliation skips it because the target is
  confirmed.
\<close>

definition believed_heating :: "heating_zone_entity \<Rightarrow> bool" where
  "believed_heating hz \<longleftrightarrow> hz_relay_state_known hz \<and> \<not> is_relay_on hz \<and>
     (tgt_value (hz_target hz) = None \<or>
      tgt_value (hz_target hz) = Some Heating \<and> tgt_phase (hz_target hz) = Confirmed)"

lemma decision_for_zone:
  assumes "zone_decisions hc now p = Some ds" and "d \<in> set ds"
  shows "\<exists>z \<in> set (hc_zones hc). zone_decision_of p now z = Some (Some d)"
proof -
  obtain ys where ys: "mapM (zone_decision_of p now) (hc_zones hc) = Some ys" "ds = List.map_filter id ys"
    using assms(1) by (auto simp: zone_decisions_def split: Option.bind_splits)
  then have "Some d \<in> set ys" using assms(2) by (simp add: set_map_filter)
  then show ?thesis using mapM_in [OF ys(1)] by blast
qed

text \<open>No later phase addresses a zone that has demand and a \<open>Heating\<close> target.\<close>

lemma command_zone_other:
  assumes "command_zone v now d q = Some (e, q')" and "zd_zone_name d \<noteq> n"
  shows "zone_at q' n = zone_at q n"
  using assms by (auto simp: command_zone_def zone_at_upd_zone)

lemma served_zone_untouched:
  assumes "\<And>d. d \<in> set ds \<Longrightarrow> zd_zone_name d = n \<Longrightarrow> zd_has_demand d \<and> zd_target d = Some Heating"
    and "for_each (relay_on_phase mp now) ds p1 = Some (e1, p2)"
    and "for_each (cancel_phase mc now) ds p2 = Some (e2, p3)"
    and "relay_off_phase hc mc now ds p3 = Some (e3, p')"
  shows "zone_at p' n = zone_at p1 n"
proof -
  have "zone_at p2 n = zone_at p1 n"
    using assms(2)
    by (rule for_each_invariant) (use assms(1) command_zone_other in \<open>fastforce simp: relay_on_phase_def split: if_splits\<close>)+
  moreover have "zone_at p3 n = zone_at p2 n"
    using assms(3)
    by (rule for_each_invariant) (use assms(1) command_zone_other in \<open>fastforce simp: cancel_phase_def split: if_splits\<close>)+
  moreover have off: "zone_at q n = zone_at p3 n"
    if "for_each (command_zone HeatOff now) (filter wants_off ds) p3 = Some (e, q)" for e q
    using that
    by (rule for_each_invariant) (use assms(1) command_zone_other in \<open>fastforce simp: wants_off_def\<close>)+
  moreover have "zone_at p' n = zone_at p3 n"
    using assms(4) off force_keeps_zones [of hc now "filter wants_off ds" p3]
    by (auto simp: relay_off_phase_def Let_def split: if_splits)
  ultimately show ?thesis by simp
qed

lemma on_effects_relays:
  assumes "for_each (relay_on_phase mp now) ds p1 = Some (e, p2)" and "PublishDeviceSet r device_on \<in> set e"
  shows "\<exists>d \<in> set ds. zd_relay_idx d = r \<and> zd_has_demand d \<and> zd_target d \<noteq> Some Heating"
proof -
  have "set e \<subseteq> {PublishDeviceSet (zd_relay_idx d) device_on | d. d \<in> set ds \<and> zd_has_demand d \<and> zd_target d \<noteq> Some Heating}"
    using assms(1) by (rule for_each_effects) (auto simp: relay_on_phase_def command_zone_def split: if_splits)
  then show ?thesis using assms(2) by auto
qed

lemma seeding_seeds:
  assumes "foldM (seed_target now) ds p = Some p1" and "d \<in> set ds" and "zd_target d = None"
  shows "\<exists>hz. zone_at p1 (zd_zone_name d) = Some hz \<and> seeds now ds (zd_zone_name d) (hz_target hz)"
proof -
  let ?I = "\<lambda>q. \<exists>hz. zone_at q (zd_zone_name d) = Some hz \<and> seeds now ds (zd_zone_name d) (hz_target hz)"
  have step: "(?I q \<or> x = d) \<Longrightarrow> ?I q'" if "x \<in> set ds" "seed_target now x q = Some q'" for x q q'
    using that assms(3)
    by (cases "zd_zone_name x = zd_zone_name d")
      (auto simp: seed_target_def Let_def confirm_of_command zone_at_upd_zone seeds_def split: if_splits)
  obtain xs ys where ds: "ds = xs @ d # ys" using assms(2) by (meson split_list)
  obtain q q1 where q: "foldM (seed_target now) xs p = Some q" "seed_target now d q = Some q1"
    "foldM (seed_target now) ys q1 = Some p1"
    using assms(1) by (auto simp: ds foldM_append split: Option.bind_splits)
  show ?thesis
    using q(3)
  proof (rule foldM_invariant)
    show "?I q1" by (rule step [OF assms(2) q(2)]) simp
    fix x r r' assume "x \<in> set ys" "?I r" "seed_target now x r = Some r'"
    then show "?I r'" using step [of x r r'] ds by simp
  qed
qed

lemma believed_after_seeding:
  assumes "zone_decisions hc now p = Some ds" and "foldM (seed_target now) ds p = Some p1"
    and "retargeted (seeds now ds) p p1" and "z \<in> set (hc_zones hc)"
    and "zone_at p (zone_name z) = Some hz" and "believed_heating hz"
    and "zone_decision_of p now z = Some (Some d)" and "zd_has_demand d \<and> zd_target d = tgt_value (hz_target hz)"
    and "\<And>d'. d' \<in> set ds \<Longrightarrow> zd_zone_name d' = zone_name z \<Longrightarrow> d' = d"
  obtains hz1 where "zone_at p1 (zone_name z) = Some hz1" and "believed_heating hz1"
    and "tgt_value (hz_target hz1) = Some Heating"
proof -
  obtain ys where ys: "mapM (zone_decision_of p now) (hc_zones hc) = Some ys" "ds = List.map_filter id ys"
    using assms(1) by (auto simp: zone_decisions_def split: Option.bind_splits)
  have d: "d \<in> set ds" "zd_zone_name d = zone_name z"
    using mapM_out [OF ys(1) assms(4)] assms(7) ys(2) zone_decision_name [OF assms(7)] by (auto simp: set_map_filter)
  show thesis
  proof (cases "zd_target d")
    case None
    then obtain hz1 where h: "zone_at p1 (zone_name z) = Some hz1" "seeds now ds (zone_name z) (hz_target hz1)"
      using seeding_seeds [OF assms(2) d(1)] d(2) by auto
    then have t: "tgt_value (hz_target hz1) = Some Heating" "tgt_phase (hz_target hz1) = Confirmed"
      using assms(8,9) by (auto simp: seeds_def)
    have "is_relay_on hz1 = is_relay_on hz"
      using retargeted_relay [OF assms(3), of "zone_name z"] h(1) assms(5) by auto
    moreover have "hz_relay_state_known hz1 = hz_relay_state_known hz"
      using assms(3,5) h(1) unfolding retargeted_def by (metis option.inject)
    ultimately show thesis using that [OF h(1)] t assms(6) by (simp add: believed_heating_def)
  next
    case (Some v)
    then have "\<not> seeds now ds (zone_name z) t" for t using assms(9) by (auto simp: seeds_def)
    then have "zone_at p1 (zone_name z) = Some hz" using assms(3,5) unfolding retargeted_def by metis
    then show thesis using that assms(6,8) Some by (auto simp: believed_heating_def)
  qed
qed

text \<open>C40: A zone whose valve asks for heat at the moment its relay first becomes known is never switched
  on: relay control emits no \<open>ON\<close> for it, records it as confirmed heating, and reconciliation
  never retries, so the next tick starts from the same situation and the zone stays cold for as
  long as the demand lasts.\<close>

theorem first_contact_demand_ignored:
  assumes "proc_ok p" and "distinct (map zone_name (hc_zones hc))" and "z \<in> set (hc_zones hc)"
    and "zone_at p (zone_name z) = Some hz" and "believed_heating hz"
    and "device_idx_of (p_topology p) (zone_relay z) = Some r"
    and "\<forall>z' \<in> set (hc_zones hc). device_idx_of (p_topology p) (zone_relay z') = Some r \<longrightarrow> z' = z"
    and "anyM (valve_demand p now) (zone_trvs z) = Some True"
    and "evaluate_relays hc now p = Some (e, p')"
  shows "PublishDeviceSet r device_on \<notin> set e \<and> reconcile_relay p' z = [] \<and>
    (\<exists>hz'. zone_at p' (zone_name z) = Some hz' \<and> believed_heating hz' \<and> tgt_value (hz_target hz') = Some Heating)"
proof -
  let ?n = "zone_name z" and ?mc = "from_secs (min_cycle_seconds (hc_heat_pump hc))"
  have zo: "zones_ok p" using assms(1) by (rule proc_ok_zones)
  obtain ds0 p1 ds e1 p2 e2 p3 e3 where ds0: "zone_decisions hc now p = Some ds0"
    and p1: "foldM (seed_target now) ds0 p = Some p1" and ds: "ds = map (refresh_target p1) ds0"
    and e1: "for_each (relay_on_phase (from_secs (min_pause_seconds (hc_heat_pump hc))) now) ds p1 = Some (e1, p2)"
    and e2: "for_each (cancel_phase ?mc now) ds p2 = Some (e2, p3)"
    and e3: "relay_off_phase hc ?mc now ds p3 = Some (e3, p')" and e: "e = e1 @ e2 @ e3"
    using evaluate_relays_stages [OF assms(9)] by metis
  have r1: "retargeted (seeds now ds0) p p1" by (rule seeding_retargets [OF zo ds0 p1])
  define d0 where "d0 = \<lparr>zd_zone_name = ?n, zd_relay_idx = r, zd_has_demand = True,
    zd_relay_on = False, zd_target = tgt_value (hz_target hz)\<rparr>"
  have "zone_decision_of p now z = Some (Some d0)"
    using assms(4-6,8) by (simp add: zone_decision_of_def believed_heating_def zone_at_def d0_def)
  then have uniq: "d = d0" if "d \<in> set ds0" "zd_zone_name d = ?n" for d
    using decision_for_zone [OF ds0 that(1)] zone_decision_name that(2) assms(2,3)
    by (metis distinct_map inj_on_def option.inject)
  obtain hz1 where hz1: "zone_at p1 ?n = Some hz1" "believed_heating hz1" "tgt_value (hz_target hz1) = Some Heating"
    by (rule believed_after_seeding [OF ds0 p1 r1 assms(3-5) \<open>zone_decision_of p now z = Some (Some d0)\<close> _ uniq])
      (simp_all add: d0_def)
  have served: "zd_has_demand d \<and> zd_target d = Some Heating" if "d \<in> set ds" "zd_zone_name d = ?n" for d
  proof -
    obtain d1 where d1: "d1 \<in> set ds0" "d = refresh_target p1 d1" using \<open>d \<in> set ds\<close> ds by auto
    then have "d1 = d0" using uniq that(2) by (simp add: refresh_target_def)
    then show ?thesis using hz1 d1(2) by (simp add: refresh_target_def zone_at_def d0_def)
  qed
  have "zone_at p' ?n = Some hz1" using served_zone_untouched [OF served e1 e2 e3] hz1(1) by simp
  moreover from this have "reconcile_relay p' z = []"
    using hz1 by (auto simp: reconcile_relay_def zone_at_def believed_heating_def Let_def)
  moreover have "PublishDeviceSet r device_on \<notin> set e1"
  proof
    assume "PublishDeviceSet r device_on \<in> set e1"
    then obtain d where d: "d \<in> set ds0" "zd_relay_idx d = r" "zd_target (refresh_target p1 d) \<noteq> Some Heating"
      using on_effects_relays [OF e1] by (auto simp: ds refresh_target_def)
    then obtain z' where z': "z' \<in> set (hc_zones hc)" "zone_decision_of p now z' = Some (Some d)"
      using decision_for_zone [OF ds0] by blast
    then have "device_idx_of (p_topology p) (zone_relay z') = Some r"
      using d(2) by (auto simp: zone_decision_of_def split: option.splits if_splits Option.bind_splits)
    then have "z' = z" using assms(7) z'(1) by blast
    then have "zd_zone_name (refresh_target p1 d) = ?n"
      using zone_decision_name z'(2) by (simp add: refresh_target_def)
    moreover have "refresh_target p1 d \<in> set ds" using d(1) ds by simp
    ultimately show False using served d(3) by blast
  qed
  moreover have "set e2 \<subseteq> never_on" using e2 by (rule for_each_effects) (rule cancel_effects)
  moreover have "set e3 \<subseteq> never_on" using e3 by (rule off_phase_effects)
  ultimately show ?thesis using hz1 e by (auto simp: never_on_def)
qed

definition cold :: processor where
  "cold = with_demand (with_zone target_new False home)"

theorem first_contact_demand_ignored_witness:
  "\<exists>e p'. evaluate_relays house_heating (from_secs 1000) cold = Some (e, p') \<and>
     PublishDeviceSet 6 device_on \<notin> set e \<and> reconcile_relay p' (hd (hc_zones house_heating)) = []"
proof -
  have ok: "proc_ok cold" by (simp add: cold_def with_demand_ok with_zone_ok home_ok)
  obtain e p' where r: "evaluate_relays house_heating (from_secs 1000) cold = Some (e, p')"
    using safeD [OF evaluate_relays_safe ok, of house_heating "from_secs 1000"] by (auto simp: safe_at_def wp_iff)
  have z: "zone_at cold ''ground'' = Some (heating_zone_default\<lparr>hz_relay_state_known := True, hz_target := target_new,
      hz_actual := actual_update \<lparr>hza_relay_on = False, hza_temperature = None\<rparr> 0 actual_new\<rparr>)"
    by (simp add: cold_def with_demand_def with_zone_def zone_at_def put_heating_zone_def put_trv_def)
  have d: "anyM (valve_demand cold (from_secs 1000)) (zone_trvs (hd (hc_zones house_heating))) = Some True"
    "device_idx_of (p_topology cold) (zone_relay (hd (hc_zones house_heating))) = Some 6"
    by code_simp+
  show ?thesis
    using first_contact_demand_ignored [OF ok _ _ _ _ d(2) _ d(1) r] r z
    by (auto simp: house_heating_def believed_heating_def is_relay_on_def)
qed

end
