(* ===== verification/Valves.thy ===== *)
theory Valves
  imports PumpProtection
begin

text \<open>
  What the heating tick guarantees about radiator valves: the setpoints it publishes stay inside
  the device range whatever state the controller is in, pressure groups end balanced, expired
  open-window inhibitions are lifted, and a room that warmed up is never taken for an open window.
\<close>

section \<open>Setpoint range\<close>

definition in_range :: "f64 \<Rightarrow> bool" where
  "in_range t \<longleftrightarrow> MIN_SETPOINT \<le> t \<and> t \<le> MAX_SETPOINT"

definition sane_effects :: "eff set" where
  "sane_effects = {e. \<forall>d t. e = PublishDeviceSet d (PTrvSetpoint t) \<longrightarrow> in_range t}"

text \<open>The heating configuration passed its load-time checks, boosts passed theirs.\<close>

definition valves_scheduled :: "heating_config \<Rightarrow> processor \<Rightarrow> bool" where
  "valves_scheduled hc p \<longleftrightarrow>
     (\<forall>(z, zt) \<in> set (zone_valves hc). \<exists>s. valve_schedule p (zt_device zt) (zt_schedule zt) hc = Some s \<and> schedule_ok s) \<and>
     (\<forall>d b. bt_get (boosts (p_settings p)) d = Some b \<longrightarrow> in_range (vb_temperature b))"

definition target_in_range :: "string \<Rightarrow> processor \<Rightarrow> bool" where
  "target_in_range d p \<longleftrightarrow>
     (\<forall>tv v. bt_get (w_trvs (p_world p)) d = Some tv \<longrightarrow> tgt_value (trv_target tv) = Some v \<longrightarrow> in_range (setpoint_of v))"

lemma in_range_extremes [simp]: "in_range MIN_SETPOINT" "in_range MAX_SETPOINT"
  by (simp_all add: in_range_def MIN_SETPOINT_def MAX_SETPOINT_def)

lemma sane_set_effect: "in_range t \<Longrightarrow> set (device_set_effect tp n (trv_setpoint t)) \<subseteq> sane_effects"
  by (auto simp: device_set_effect_def sane_effects_def trv_setpoint_def split: option.splits)

lemma sane_get_effect: "set (device_get_effect tp n) \<subseteq> sane_effects"
  by (auto simp: device_get_effect_def sane_effects_def split: option.splits)

lemma sane_switch [simp]:
  "PublishDeviceSet d device_on \<in> sane_effects" "PublishDeviceSet d device_off \<in> sane_effects"
  by (simp_all add: sane_effects_def device_on_def device_off_def)

lemma trvs_upd_trv:
  "bt_get (w_trvs (p_world (upd_trv d f p))) d' = (if d' = d then Some (f (trv (p_world p) d)) else bt_get (w_trvs (p_world p)) d')"
  by (simp add: upd_trv_def put_trv_def)

lemma trv_upd_id: "trv (p_world (upd_trv d id p)) d = trv (p_world p) d"
  by (simp add: upd_trv_def)

lemma active_boost_in_range:
  assumes "valves_scheduled hc p" and "active_boost p d = Some (Some b)"
  shows "in_range (vb_temperature b)"
  using assms by (auto simp: valves_scheduled_def active_boost_def split: option.splits Option.bind_splits if_splits)

lemma apply_setpoint_range:
  assumes "in_range tt" and "apply_setpoint device tt ow now p = Some (e, p')"
  shows "set e \<subseteq> sane_effects \<and> target_in_range device p' \<and> (\<forall>d. target_in_range d p \<longrightarrow> target_in_range d p')"
proof -
  have "target_in_range device p'"
    using assms
    by (auto simp: apply_setpoint_def Let_def target_in_range_def trvs_upd_trv trv_upd_id is_forced_open_def
        target_setpoint_def is_inhibited_def split: if_splits option.splits trv_target.splits)
  moreover have "set e \<subseteq> sane_effects"
    using assms(2) sane_set_effect [OF assms(1)] by (auto simp: apply_setpoint_def Let_def split: if_splits)
  moreover have "target_in_range d p'" if "target_in_range d p" "d \<noteq> device" for d
    using assms(2) that by (auto simp: apply_setpoint_def Let_def target_in_range_def trvs_upd_trv split: if_splits)
  ultimately show ?thesis by blast
qed

lemma evaluate_schedule_range:
  assumes "valves_scheduled hc p" and "(z, zt) \<in> set (zone_valves hc)" and "hour < 24" and "minute < 60"
    and "evaluate_schedule hc wd hour minute now zt p = Some (e, p')"
  shows "set e \<subseteq> sane_effects \<and> target_in_range (zt_device zt) p' \<and>
    (\<forall>d. target_in_range d p \<longrightarrow> target_in_range d p')"
proof -
  obtain s where s: "valve_schedule p (zt_device zt) (zt_schedule zt) hc = Some s" "schedule_ok s"
    using assms(1,2) unfolding valves_scheduled_def by blast
  obtain t where t: "target_temperature s wd hour minute = Some t" "in_range t"
    using target_temperature_ok [OF s(2) assms(3,4), of wd]
    by (auto simp: in_range_def MIN_SETPOINT_def MAX_SETPOINT_def)
  obtain tt ow where "in_range tt" "apply_setpoint (zt_device zt) tt ow now p = Some (e, p')"
    using assms(5) s(1) t active_boost_in_range [OF assms(1), of "zt_device zt"]
    by (auto simp: evaluate_schedule_def Let_def split: Option.bind_splits option.splits)
  then show ?thesis by (rule apply_setpoint_range)
qed

lemma valves_scheduled_cfg: "cfg q = cfg p \<Longrightarrow> valves_scheduled hc q = valves_scheduled hc p"
  by (simp add: valves_scheduled_def valve_schedule_def cfg_fields(9) [of q p])

lemma evaluate_schedules_range:
  assumes "proc_ok p" and "valves_scheduled hc p" and "hour < 24" and "minute < 60"
    and "evaluate_schedules hc wd hour minute now p = Some (e, p')"
  shows "set e \<subseteq> sane_effects" and "\<forall>(z, zt) \<in> set (zone_valves hc). target_in_range (zt_device zt) p'"
proof -
  let ?f = "\<lambda>(z, zt). evaluate_schedule hc wd hour minute now zt"
  have step: "stays p q' \<and> target_in_range (zt_device (snd x)) q' \<and> set e \<subseteq> sane_effects \<and>
      (\<forall>d. target_in_range d q \<longrightarrow> target_in_range d q')"
    if x: "x \<in> set (zone_valves hc)" and s: "stays p q" and f: "?f x q = Some (e, q')" for x q e q'
  proof -
    obtain z zt where xz: "x = (z, zt)" by (cases x)
    have "valves_scheduled hc q" using valves_scheduled_cfg [of q p hc] s assms(2) unfolding stays_def by blast
    moreover have "stays q q'"
      using evaluate_schedule_safe [OF stays_proc_ok [OF assms(1) s], of hc wd hour minute now zt] f
      by (simp add: xz safe_at_def)
    ultimately show ?thesis
      using evaluate_schedule_range [of hc q z zt hour minute wd now e q'] x f assms(3,4) stays_trans [OF s]
      by (simp add: xz)
  qed
  have run: "for_each ?f (zone_valves hc) p = Some (e, p')" using assms(5) by (simp add: evaluate_schedules_def)
  have "stays p p' \<and> (\<forall>x \<in> set (zone_valves hc). target_in_range (zt_device (snd x)) p')"
    using run
  proof (rule for_each_establish)
    show "stays p p" using assms(1) by (rule stays_refl)
    fix x q e q' assume "x \<in> set (zone_valves hc)" "stays p q" "?f x q = Some (e, q')"
    from step [OF this] show "stays p q' \<and> target_in_range (zt_device (snd x)) q' \<and>
        (\<forall>y. target_in_range (zt_device (snd y)) q \<longrightarrow> target_in_range (zt_device (snd y)) q')" by simp
  qed
  then show "\<forall>(z, zt) \<in> set (zone_valves hc). target_in_range (zt_device zt) p'" by auto
  have "wp (for_each ?f (zone_valves hc) p) (\<lambda>(e, q). list_all (\<lambda>x. x \<in> sane_effects) e \<and> stays p q)"
  proof (rule wp_for_each)
    show "stays p p" using assms(1) by (rule stays_refl)
    fix x q assume x: "x \<in> set (zone_valves hc)" and s: "stays p q"
    have "safe_at q (?f x q)"
      using evaluate_schedule_safe [OF stays_proc_ok [OF assms(1) s]] by (simp split: prod.splits)
    then obtain e q' where "?f x q = Some (e, q')" unfolding safe_at_def wp_iff by (metis surj_pair)
    then show "wp (?f x q) (\<lambda>(e, q'). list_all (\<lambda>x. x \<in> sane_effects) e \<and> stays p q')"
      using step [OF x s] by (auto simp: list_all_iff)
  qed
  then show "set e \<subseteq> sane_effects" using run by (auto simp: list_all_iff)
qed

lemma reconcile_setpoints_range:
  assumes "\<forall>(z, zt) \<in> set (zone_valves hc). target_in_range (zt_device zt) p"
    and "reconcile_setpoints hc p = Some (e, p')"
  shows "set e \<subseteq> sane_effects"
proof -
  have "set (reconcile_setpoint p zt) \<subseteq> sane_effects" if "target_in_range (zt_device zt) p" for zt
  proof (cases "bt_get (w_trvs (p_world p)) (zt_device zt)")
    case (Some tv)
    then show ?thesis
      using that sane_set_effect
      by (cases "tgt_value (trv_target tv)") (auto simp: reconcile_setpoint_def target_in_range_def)
  qed (simp add: reconcile_setpoint_def)
  then show ?thesis using assms by (fastforce simp: reconcile_setpoints_def)
qed

text \<open>The other stages publish fixed setpoints or none.\<close>

definition sane :: "handler \<Rightarrow> bool" where
  "sane h \<longleftrightarrow> (\<forall>p e p'. h p = Some (e, p') \<longrightarrow> set e \<subseteq> sane_effects)"

lemma saneD: "sane h \<Longrightarrow> h p = Some (e, p') \<Longrightarrow> set e \<subseteq> sane_effects"
  unfolding sane_def by blast

lemma sane_seq: "sane f \<Longrightarrow> sane g \<Longrightarrow> sane (seq f g)"
  by (fastforce simp: sane_def seq_Some)

lemma sane_for_each: "(\<And>x. sane (f x)) \<Longrightarrow> sane (for_each f xs)"
  unfolding sane_def using for_each_effects [of f xs _ _ _ sane_effects] by blast

lemma sane_pressure: "sane (enforce_pressure_groups hc now)"
proof -
  have "sane (pressure_member a now n)" for a n
    using sane_set_effect [of MAX_SETPOINT]
    by (auto simp: sane_def pressure_member_def split: option.splits if_splits)
  then have "sane (for_each (pressure_member a now) xs)" for a xs by (rule sane_for_each)
  then have "sane (enforce_pressure_group hc now g)" for g
    by (fastforce simp: sane_def enforce_pressure_group_def split: Option.bind_splits)
  then show ?thesis unfolding enforce_pressure_groups_def by (rule sane_for_each)
qed

lemma sane_detect: "sane (detect_open_windows hc now)"
proof -
  have "sane (detect_valve hc now s zt)" for s zt
    using sane_set_effect [of MIN_SETPOINT]
    by (auto simp: sane_def detect_valve_def Let_def split: option.splits window_verdict.splits)
  then have "sane (for_each (detect_valve hc now s) xs)" for s xs by (rule sane_for_each)
  then have "sane (detect_zone hc now z)" for z
    by (fastforce simp: sane_def detect_zone_def split: option.splits if_splits)
  then show ?thesis unfolding detect_open_windows_def by (rule sane_for_each)
qed

lemma off_phase_cases:
  assumes "relay_off_phase hc mc now ds p = Some (e, p')"
  shows "e = [] \<or> for_each (command_zone HeatOff now) (filter wants_off ds) p = Some (e, p') \<or>
    for_each (force_zone_open hc now) (filter wants_off ds) p = Some (e, p')"
  using assms by (auto simp: relay_off_phase_def Let_def split: if_splits)

lemma sane_relays: "sane (evaluate_relays hc now)"
proof -
  have c: "sane (command_zone v now d)" for v d by (auto simp: sane_def command_zone_def)
  have f: "sane (force_zone_open hc now d)" for d
  proof -
    have "sane (force_valve_open now zt)" for zt
      using sane_set_effect [of MAX_SETPOINT]
      by (auto simp: sane_def force_valve_open_def split: option.splits if_splits)
    then have "sane (for_each (force_valve_open now) xs)" for xs by (rule sane_for_each)
    then show ?thesis by (fastforce simp: sane_def force_zone_open_def split: option.splits)
  qed
  have "sane (relay_on_phase mp now d)" "sane (cancel_phase mc now d)" for mp mc d
    using c by (fastforce simp: sane_def relay_on_phase_def cancel_phase_def split: if_splits)+
  note phases = sane_for_each [OF this(1)] sane_for_each [OF this(2)]
  have cs: "set e \<subseteq> sane_effects" if "for_each (command_zone HeatOff now) ds p = Some (e, p')" for ds p e p'
    using sane_for_each [of "command_zone HeatOff now" ds, OF c] that by (auto simp: sane_def)
  have fs: "set e \<subseteq> sane_effects" if "for_each (force_zone_open hc now) ds p = Some (e, p')" for ds p e p'
    using sane_for_each [of "force_zone_open hc now" ds, OF f] that by (auto simp: sane_def)
  have "sane (relay_off_phase hc mc now ds)" for mc ds
    unfolding sane_def using off_phase_cases [of hc mc now ds] cs fs by fastforce
  then have "sane (seq (for_each (relay_on_phase mp now) ds)
      (seq (for_each (cancel_phase mc now) ds) (relay_off_phase hc mc now ds)))" for mp mc ds
    by (intro sane_seq phases)
  then show ?thesis
    unfolding sane_def evaluate_relays_def Let_def by (fastforce split: Option.bind_splits)
qed

lemma sane_ha: "sane (emit_ha_updates hc now)"
proof -
  have p: "sane (publish_if_changed topic st es)" if "set es \<subseteq> sane_effects" for topic st es
    using that by (auto simp: sane_def publish_if_changed_def)
  have t: "sane (emit_trv_state now zt)" for zt
  proof -
    have "set (case device_idx_of tp n of None \<Rightarrow> [] | Some d \<Rightarrow> [PublishHaStateTrv d st]) \<subseteq> sane_effects" for tp n st
      by (auto simp: sane_effects_def split: option.splits)
    then show ?thesis using p unfolding emit_trv_state_def sane_def Let_def by meson
  qed
  have "sane (seq (publish_if_changed topic st [PublishHaStateZone i st]) (for_each (emit_trv_state now) zts))"
    for topic st i zts by (intro sane_seq p sane_for_each t) (simp add: sane_effects_def)
  then have "sane (emit_zone_state hc now iz)" for iz
    unfolding sane_def emit_zone_state_def Let_def by (fastforce split: Option.bind_splits)
  then have z: "sane (for_each (emit_zone_state hc now) xs)" for xs by (rule sane_for_each)
  have "set (ha_discovery tp hc) \<subseteq> sane_effects" for tp
    by (auto simp: ha_discovery_def sane_effects_def split: option.splits)
  then show ?thesis
    unfolding emit_ha_updates_def by (intro sane_seq z) (auto simp: sane_def)
qed

lemma heating_control_range:
  assumes "proc_ok p" and "valves_scheduled hc p" and "ck_local_hour ck < 24" and "ck_local_minute ck < 60"
    and "heating_control hc ck p = Some (e, p')"
  shows "set e \<subseteq> sane_effects"
proof -
  let ?rest = "seq (detect_open_windows hc (ck_now ck)) (seq (evaluate_relays hc (ck_now ck))
    (seq (reconcile_relays hc) (emit_ha_updates hc (ck_now ck))))"
  obtain e1 p1 e2 p2 e3 e4 where 1: "enforce_pressure_groups hc (ck_now ck) p = Some (e1, p1)"
    and 2: "evaluate_schedules hc (ck_local_weekday ck) (ck_local_hour ck) (ck_local_minute ck) (ck_now ck) p1 = Some (e2, p2)"
    and 3: "reconcile_setpoints hc p2 = Some (e3, p2)" and 4: "?rest p2 = Some (e4, p')" and e: "e = e1 @ e2 @ e3 @ e4"
    using assms(5) unfolding heating_control_def Let_def seq_Some [of "enforce_pressure_groups hc (ck_now ck)"]
      seq_Some [of "evaluate_schedules hc (ck_local_weekday ck) (ck_local_hour ck) (ck_local_minute ck) (ck_now ck)"]
      seq_Some [of "reconcile_setpoints hc"] by (auto simp: reconcile_setpoints_def)
  have s: "stays p p1" using safe_run [OF enforce_pressure_groups_safe assms(1) 1] by simp
  have v: "valves_scheduled hc p1" using valves_scheduled_cfg [of p1 p hc] s assms(2) unfolding stays_def by blast
  note sched = evaluate_schedules_range [OF stays_proc_ok [OF assms(1) s] v assms(3,4) 2]
  have "sane (reconcile_relays hc)"
    by (auto simp: sane_def reconcile_relays_def reconcile_relay_def device_set_effect_def Let_def split: option.splits if_splits)
  then have "sane ?rest" by (intro sane_seq sane_detect sane_relays sane_ha)
  then show ?thesis
    using e saneD [OF sane_pressure 1] saneD [OF \<open>sane ?rest\<close> 4] sched(1) reconcile_setpoints_range [OF sched(2) 3]
    by simp
qed


lemma home_scheduled: "valves_scheduled house_heating home"
proof -
  have "schedule_ok (flat_schedule 21)"
    unfolding schedule_validate_ok [of "''flat''", symmetric]
    by (simp add: temperature_schedule_validate_def all_weekdays_def validate_day_def flat_schedule_def
      validate_range_def Let_def start_minutes_def end_minutes_def validate_day_coverage_def day_intervals_def)
  then show ?thesis
    by (auto simp: valves_scheduled_def zone_valves_def house_heating_def valve_schedule_def home_def processor_new_def
        settings_default_def)
qed

lemma home_tick: "map_option (\<lambda>(e, p). PublishDeviceSet 4 (PTrvSetpoint 21) \<in> set e) (handle_heating_tick home) = Some True"
  by code_simp


section \<open>Pressure groups\<close>

definition pressure_done :: "bool \<Rightarrow> instant \<Rightarrow> u8 \<times> u8 \<Rightarrow> string \<Rightarrow> processor \<Rightarrow> bool" where
  "pressure_done active now md n p \<longleftrightarrow> (\<forall>tv. bt_get (w_trvs (p_world p)) n = Some tv \<longrightarrow>
     (if active then is_inhibited now tv \<or> is_forced_open tv \<or> has_raw_demand (fst md) (snd md) tv
      else tgt_value (trv_target tv) \<noteq> Some (ForcedOpen PressureGroup)))"

lemma pressure_member_done:
  assumes "pressure_member active now n p = Some (e, p')"
  shows "pressure_done active now (min_demand p) n p'" and "\<forall>m. m \<noteq> n \<longrightarrow> bt_get (w_trvs (p_world p')) m = bt_get (w_trvs (p_world p)) m"
    and "w_heating_zones (p_world p') = w_heating_zones (p_world p)" and "cfg p' = cfg p"
proof -
  show "pressure_done active now (min_demand p) n p'"
    using assms
    by (auto simp: pressure_member_def pressure_done_def put_trv_def is_forced_open_def is_inhibited_def
        split: option.splits if_splits trv_target.splits)
  show "\<forall>m. m \<noteq> n \<longrightarrow> bt_get (w_trvs (p_world p')) m = bt_get (w_trvs (p_world p)) m"
    "w_heating_zones (p_world p') = w_heating_zones (p_world p)" "cfg p' = cfg p"
    using assms by (auto simp: pressure_member_def put_trv_def split: option.splits if_splits)
qed

text \<open>Settling one valve leaves settled valves settled: only the last visit of a name matters.\<close>

lemma pressure_members_done:
  assumes "for_each (pressure_member active now) ns p = Some (e, p')"
  shows "(\<forall>n \<in> set ns. pressure_done active now (min_demand p) n p') \<and>
    (\<forall>m. m \<notin> set ns \<longrightarrow> bt_get (w_trvs (p_world p')) m = bt_get (w_trvs (p_world p)) m) \<and>
    w_heating_zones (p_world p') = w_heating_zones (p_world p) \<and> cfg p' = cfg p"
  using assms
proof (induction ns arbitrary: p e)
  case (Cons n ns)
  obtain e1 p1 e2 where s: "pressure_member active now n p = Some (e1, p1)"
    "for_each (pressure_member active now) ns p1 = Some (e2, p')"
    using Cons.prems by (auto split: Option.bind_splits)
  note m = pressure_member_done [OF s(1)] and ih = Cons.IH [OF s(2)]
  have md: "min_demand p1 = min_demand p" by (simp add: min_demand_def cfg_fields(5) [OF m(4)])
  have "pressure_done active now (min_demand p) n p'"
  proof (cases "n \<in> set ns")
    case False
    then have "bt_get (w_trvs (p_world p')) n = bt_get (w_trvs (p_world p1)) n" using ih by blast
    then show ?thesis using m(1) by (simp add: pressure_done_def)
  qed (use ih md in simp)
  then show ?case using m ih md by auto
qed simp

lemma anyM_cong: "(\<And>x. x \<in> set xs \<Longrightarrow> f x = g x) \<Longrightarrow> anyM f xs = anyM g xs"
proof (induction xs)
  case (Cons x xs)
  then have "anyM f xs = anyM g xs" "f x = g x" by simp_all
  then show ?case by (cases "g x") auto
qed simp

lemma group_active_frame:
  assumes "cfg q = cfg p" and "w_heating_zones (p_world q) = w_heating_zones (p_world p)"
    and "\<forall>n \<in> set (pg_trvs g). bt_get (w_trvs (p_world q)) n = bt_get (w_trvs (p_world p)) n"
  shows "group_active hc now g q = group_active hc now g p"
proof -
  note f = cfg_fields [OF assms(1)]
  have eff: "effective_heat_demand_enabled q = effective_heat_demand_enabled p"
    unfolding effective_heat_demand_enabled_def heat_demand_enabled_def active_boost_def fun_eq_iff f by simp
  have md: "min_demand q = min_demand p" by (simp add: min_demand_def f)
  have "organic_demand q now n = organic_demand p now n" if "n \<in> set (pg_trvs g)" for n
    unfolding organic_demand_def eff md using that assms(3) by simp
  then have "anyM (organic_demand q now) (pg_trvs g) = anyM (organic_demand p now) (pg_trvs g)"
    by (rule anyM_cong)
  moreover have "group_relay_off hc (p_world q) g = group_relay_off hc (p_world p) g"
    unfolding group_relay_off_def assms(2) ..
  ultimately show ?thesis by (simp add: group_active_def)
qed

lemma pressure_groups_step:
  assumes "enforce_pressure_group hc now g p = Some (e, p')" and "group_active hc now g p = Some active"
  shows "(\<forall>n \<in> set (pg_trvs g). pressure_done active now (min_demand p) n p') \<and>
    (\<forall>m. m \<notin> set (pg_trvs g) \<longrightarrow> bt_get (w_trvs (p_world p')) m = bt_get (w_trvs (p_world p)) m) \<and>
    w_heating_zones (p_world p') = w_heating_zones (p_world p) \<and> cfg p' = cfg p"
  using assms by (intro pressure_members_done) (simp add: enforce_pressure_group_def)

text \<open>C39: Pressure groups end every tick flow-balanced. When some valve of a group asks for heat on its own
  (its demand enabled, not forced, not inhibited, setpoint confirmed) and the group's relay is not
  known to be off, then after enforcement every known valve of the group is open or asking: it has
  demand, is forced open, or is shut on purpose by an open-window inhibition. Otherwise no valve
  of the group remains forced open by the group.\<close>

theorem pressure_groups_balanced:
  assumes "enforce_pressure_groups hc now p = Some (e, p')" and "g \<in> set (hc_pressure_groups hc)"
    and "distinct (hc_pressure_groups hc)"
    and "\<forall>g1 \<in> set (hc_pressure_groups hc). \<forall>g2 \<in> set (hc_pressure_groups hc).
           g1 \<noteq> g2 \<longrightarrow> set (pg_trvs g1) \<inter> set (pg_trvs g2) = {}"
    and "n \<in> set (pg_trvs g)" and "bt_get (w_trvs (p_world p')) n = Some tv"
  shows "(if group_active hc now g p = Some True
     then is_inhibited now tv \<or> is_forced_open tv \<or> has_raw_demand (fst (min_demand p)) (snd (min_demand p)) tv
     else tgt_value (trv_target tv) \<noteq> Some (ForcedOpen PressureGroup))"
proof -
  let ?act = "\<lambda>g p. group_active hc now g p = Some True"
  have "pressure_done (?act g p) now (min_demand p) n p'"
    if "for_each (enforce_pressure_group hc now) gs p = Some (e, p')" "g \<in> set gs" "distinct gs"
      "set gs \<subseteq> set (hc_pressure_groups hc)" for gs p e
    using that
  proof (induction gs arbitrary: p e)
    case (Cons g' gs)
    obtain e1 p1 e2 where s: "enforce_pressure_group hc now g' p = Some (e1, p1)"
      "for_each (enforce_pressure_group hc now) gs p1 = Some (e2, p')"
      using Cons.prems(1) by (auto split: Option.bind_splits)
    obtain a where a: "group_active hc now g' p = Some a"
      using s(1) by (auto simp: enforce_pressure_group_def split: Option.bind_splits)
    note st = pressure_groups_step [OF s(1) a]
    have md: "min_demand p1 = min_demand p" using st by (simp add: min_demand_def cfg_fields(5) [of p1 p])
    show ?case
    proof (cases "g = g'")
      case True
      have "bt_get (w_trvs (p_world p')) n = bt_get (w_trvs (p_world p1)) n"
        using s(2)
      proof (rule for_each_invariant)
        fix x q e q' assume x: "x \<in> set gs" and q: "bt_get (w_trvs (p_world q)) n = bt_get (w_trvs (p_world p1)) n"
          and r: "enforce_pressure_group hc now x q = Some (e, q')"
        have "n \<notin> set (pg_trvs x)" using Cons.prems(3,4) x True assms(4,5) by fastforce
        moreover obtain ax where "group_active hc now x q = Some ax"
          using r by (auto simp: enforce_pressure_group_def split: Option.bind_splits)
        ultimately show "bt_get (w_trvs (p_world q')) n = bt_get (w_trvs (p_world p1)) n"
          using pressure_groups_step [OF r] q by simp
      qed simp
      then show ?thesis using st assms(5) True a by (simp add: pressure_done_def)
    next
      case False
      have "\<forall>m \<in> set (pg_trvs g). m \<notin> set (pg_trvs g')" using False assms(2,4) Cons.prems(4) by fastforce
      then have "group_active hc now g p1 = group_active hc now g p"
        using st by (intro group_active_frame) auto
      moreover have "pressure_done (?act g p1) now (min_demand p1) n p'"
        by (rule Cons.IH [OF s(2)]) (use Cons.prems False in auto)
      ultimately show ?thesis by (simp add: md)
    qed
  qed simp
  from this [of "hc_pressure_groups hc" p e] assms show ?thesis
    by (simp add: enforce_pressure_groups_def pressure_done_def)
qed

definition loop_demand :: processor where
  "loop_demand = upd_world (put_trv ''trv-b'' trv_default) (with_demand (with_zone zone_heating True home))"

lemma loop_demand_run:
  "map_option (\<lambda>(e, p). bt_get (w_trvs (p_world p)) ''trv-b'' \<noteq> None) (enforce_pressure_groups house_heating 0 loop_demand) = Some True"
  "group_active house_heating 0 (hd (hc_pressure_groups house_heating)) loop_demand = Some True"
  by code_simp+

theorem pressure_groups_balanced_witness:
  "\<exists>e p' tv. enforce_pressure_groups house_heating 0 loop_demand = Some (e, p') \<and>
     bt_get (w_trvs (p_world p')) ''trv-b'' = Some tv \<and>
     (is_inhibited 0 tv \<or> is_forced_open tv \<or> has_raw_demand 5 80 tv)"
proof -
  obtain e p' tv where r: "enforce_pressure_groups house_heating 0 loop_demand = Some (e, p')"
    "bt_get (w_trvs (p_world p')) ''trv-b'' = Some tv" using loop_demand_run(1) by auto
  have "min_demand loop_demand = (5, 80)" by code_simp
  then show ?thesis
    using pressure_groups_balanced [OF r(1) _ _ _ _ r(2), of "hd (hc_pressure_groups house_heating)"]
      loop_demand_run(2) r by (auto simp: house_heating_def)
qed

section \<open>Open windows\<close>

text \<open>An open-window inhibition ends when its time is up. After the expiry stage of a tick no configured
  valve carries an inhibition whose end has passed, and one that has not expired is kept as it was.\<close>

theorem inhibitions_expire:
  assumes "expire_inhibitions hc now p = Some p'" and "(z, zt) \<in> set (zone_valves hc)"
    and "bt_get (w_trvs (p_world p')) (zt_device zt) = Some tv"
    and "tgt_value (trv_target tv) = Some (Inhibited until)"
  shows "now < until \<and> trv_target tv = trv_target (trv (p_world p) (zt_device zt))"
proof -
  let ?ok = "\<lambda>d q. trv_target (trv (p_world q) d) = trv_target (trv (p_world p) d) \<or>
     (\<forall>u. tgt_value (trv_target (trv (p_world q) d)) \<noteq> Some (Inhibited u))"
  let ?done = "\<lambda>d q. \<forall>u. tgt_value (trv_target (trv (p_world q) d)) = Some (Inhibited u) \<longrightarrow> now < u"
  have step: "(?ok d q \<longrightarrow> ?ok d q') \<and> (?done d q \<longrightarrow> ?done d q') \<and> ?done (zt_device (snd x)) q'"
    if "expire_inhibition now x q = Some q'" for x q q' d
    using that
    by (auto simp: expire_inhibition_def Let_def upd_trv_def confirm_of_command split: option.splits trv_target.splits if_splits)
  have "(\<forall>d. ?ok d p') \<and> (\<forall>x \<in> set xs. ?done (zt_device (snd x)) p')"
    if "foldM (expire_inhibition now) xs q = Some p'" "\<forall>d. ?ok d q" for xs q
    using that
  proof (induction xs arbitrary: q)
    case (Cons x xs)
    then obtain q1 where q1: "expire_inhibition now x q = Some q1" "foldM (expire_inhibition now) xs q1 = Some p'"
      by (auto split: Option.bind_splits)
    have "?done (zt_device (snd x)) p'"
      using q1(2) by (rule foldM_invariant) (use step q1(1) in blast)+
    moreover have "\<forall>d. ?ok d q1" using step [OF q1(1)] Cons.prems(2) by blast
    ultimately show ?case using Cons.IH [OF q1(2)] by simp
  qed simp
  from this [of "zone_valves hc" p] assms
  have "?ok (zt_device zt) p'" "?done (zt_device zt) p'" by (force simp: expire_inhibitions_def)+
  moreover have "trv (p_world p') (zt_device zt) = tv" using assms(3) by (simp add: trv_def bt_get_or_def)
  ultimately show ?thesis using assms(4) by simp
qed

definition shut_until :: "instant \<Rightarrow> processor" where
  "shut_until u = upd_world (put_trv ''trv-a'' (trv_default\<lparr>trv_target := set_and_command (Inhibited u) Rule 0 target_new\<rparr>)) home"

lemma shut_run: "map_option (\<lambda>p. map_option (\<lambda>tv. tgt_value (trv_target tv)) (bt_get (w_trvs (p_world p)) ''trv-a''))
    (expire_inhibitions house_heating 5 (shut_until 9)) = Some (Some (Some (Inhibited 9)))"
  by code_simp

theorem inhibitions_expire_witness:
  "\<exists>p' tv. expire_inhibitions house_heating 5 (shut_until 9) = Some p' \<and>
     bt_get (w_trvs (p_world p')) ''trv-a'' = Some tv \<and> trv_target tv = set_and_command (Inhibited 9) Rule 0 target_new"
proof -
  obtain p' tv where r: "expire_inhibitions house_heating 5 (shut_until 9) = Some p'"
    "bt_get (w_trvs (p_world p')) ''trv-a'' = Some tv" "tgt_value (trv_target tv) = Some (Inhibited 9)"
    using shut_run by auto
  have "trv_target tv = trv_target (trv (p_world (shut_until 9)) ''trv-a'')"
    using inhibitions_expire [OF r(1) _ _ r(3), of "hd (hc_zones house_heating)" "\<lparr>zt_device = ''trv-a'', zt_schedule = ''flat''\<rparr>"]
      r(2) by (simp add: zone_valves_def house_heating_def)
  with r show ?thesis by (auto simp: shut_until_def)
qed

text \<open>A detection cycle of a valve: it starts, and temperature reports come in.\<close>

definition observe_temps :: "(instant \<times> f64) list \<Rightarrow> trv_entity \<Rightarrow> trv_entity" where
  "observe_temps rs tv = fold (\<lambda>(ts, t). track_temperature (Some t) ts) rs tv"

lemma track_temperature_window:
  assumes "ow_baseline_established_at (trv_open_window tv) \<noteq> None"
  shows "trv_open_window (track_temperature (Some t) ts tv) = (trv_open_window tv)\<lparr>
     ow_temp_at_relay_on := Some (case ow_temp_at_relay_on (trv_open_window tv) of None \<Rightarrow> t | Some b \<Rightarrow> b),
     ow_temp_high_water := Some (case ow_temp_high_water (trv_open_window tv) of None \<Rightarrow> t | Some h \<Rightarrow> max h t)\<rparr>"
  using assms by (auto simp: track_temperature_def Let_def split: option.splits)

lemma observe_temps_window:
  assumes "ow_baseline_established_at (trv_open_window tv) \<noteq> None" and "ow_temp_at_relay_on (trv_open_window tv) = Some b"
    and "ow_temp_high_water (trv_open_window tv) = Some h"
  shows "ow_temp_at_relay_on (trv_open_window (observe_temps rs tv)) = Some b \<and>
    (\<exists>h'. ow_temp_high_water (trv_open_window (observe_temps rs tv)) = Some h' \<and> h \<le> h' \<and> (\<forall>(ts, t) \<in> set rs. t \<le> h'))"
  using assms
proof (induction rs arbitrary: tv h)
  case (Cons r rs)
  obtain ts t where r: "r = (ts, t)" by (cases r)
  let ?tv = "track_temperature (Some t) ts tv"
  have w: "ow_baseline_established_at (trv_open_window ?tv) \<noteq> None" "ow_temp_at_relay_on (trv_open_window ?tv) = Some b"
    "ow_temp_high_water (trv_open_window ?tv) = Some (max h t)"
    using track_temperature_window [OF Cons.prems(1), of t ts] Cons.prems by auto
  from Cons.IH [OF this] show ?case by (auto simp: observe_temps_def r)
qed (simp add: observe_temps_def)

text \<open>A room that warms up is never taken for an open window. If detection concludes that a window is open
  after a cycle that started with a known temperature, then no temperature reported since the relay
  switched on was more than 0.1 degrees above that temperature.\<close>

theorem open_window_needs_cold_room:
  assumes "tv = observe_temps rs (tv0\<lparr>trv_open_window := start_detection t0 (Some b) (trv_open_window tv0)\<rparr>)"
    and "window_verdict_of md mdf detect now since tv = Inhibit" and "(ts, t) \<in> set rs"
  shows "t \<le> b + 1/10"
proof -
  obtain h where h: "ow_temp_at_relay_on (trv_open_window tv) = Some b" "ow_temp_high_water (trv_open_window tv) = Some h"
    "\<forall>(ts, t) \<in> set rs. t \<le> h"
    using observe_temps_window [of "tv0\<lparr>trv_open_window := start_detection t0 (Some b) (trv_open_window tv0)\<rparr>" b b rs]
    by (auto simp: assms(1) start_detection_def)
  then have "h \<le> b + 1/10"
    using assms(2) by (auto simp: window_verdict_of_def Let_def split: if_splits option.splits)
  then show ?thesis using h(3) assms(3) by fastforce
qed

definition draughty :: trv_entity where
  "draughty = trv_default\<lparr>trv_actual := actual_update heat_reading 0 actual_new,
     trv_target := \<lparr>tgt_value = Some (Setpoint 21), tgt_phase = Confirmed, tgt_owner = Some Schedule, tgt_since = Some 0\<rparr>\<rparr>"

lemma draughty_inhibited: "window_verdict_of 5 80 (from_secs 60) (from_secs 90) 0
   (observe_temps [(from_secs 20, 18)] (draughty\<lparr>trv_open_window := start_detection 0 (Some 18) (trv_open_window draughty)\<rparr>)) = Inhibit"
  by (simp add: draughty_def observe_temps_def track_temperature_def start_detection_def window_verdict_of_def Let_def
      trv_default_def is_inhibited_def is_forced_open_def has_effective_demand_def needs_setpoint_retry_def is_stale_def
      has_raw_demand_def heat_reading_def trv_actual_default_def duration_since_def from_secs_def nanos_per_sec_def)

theorem open_window_needs_cold_room_witness:
  "window_verdict_of 5 80 (from_secs 60) (from_secs 90) 0
     (observe_temps [(from_secs 20, 18)] (draughty\<lparr>trv_open_window := start_detection 0 (Some 18) (trv_open_window draughty)\<rparr>)) = Inhibit \<and>
   (18 :: f64) \<le> 18 + 1/10"
  using open_window_needs_cold_room [OF refl draughty_inhibited, of "from_secs 20" 18] draughty_inhibited
  by simp

end
