(* ===== verification/Motion.thy ===== *)
theory Motion
  imports House
begin

text \<open>
  Motion rules (\<open>src/crates/mqtt-controller/src/logic/motion.rs\<close>): occupancy sessions, the claims
  they hold on lights, and the dashboard switch that disables motion in a room. Shown: no motion
  handler panics and all keep the invariant; a light that is already on is never claimed or
  commanded by motion; only lights the session itself switched on and that motion still owns are
  switched off when the rooms empty; and a disabled room is left alone.
\<close>

section \<open>Access\<close>

definition upd_light :: "string \<Rightarrow> (light_entity \<Rightarrow> light_entity) \<Rightarrow> processor \<Rightarrow> processor" where
  "upd_light n f p = upd_world (\<lambda>w. put_light n (f (light w n)) w) p"

definition upd_light_zone :: "string \<Rightarrow> (light_zone_entity \<Rightarrow> light_zone_entity) \<Rightarrow> processor \<Rightarrow> processor" where
  "upd_light_zone n f p = upd_world (\<lambda>w. put_light_zone n (f (light_zone w n)) w) p"

definition room_by_name :: "topology \<Rightarrow> string \<Rightarrow> resolved_room option option" where
  "room_by_name t n =
     (case room_idx_of t n of None \<Rightarrow> Some None | Some i \<Rightarrow> map_option Some (room t i))"

text \<open>\<open>world.lights.get(topology.device_name(d))\<close>\<close>

definition light_at :: "processor \<Rightarrow> device_idx \<Rightarrow> light_entity option option" where
  "light_at p d = map_option (bt_get (w_lights (p_world p))) (device_name (p_topology p) d)"

definition session_of :: "processor \<Rightarrow> resolved_motion_rule \<Rightarrow> motion_session option" where
  "session_of p r = Option.bind (bt_get (w_motion_rules (p_world p)) (mr_name r)) mrs_session"

definition take_session :: "resolved_motion_rule \<Rightarrow> processor \<Rightarrow> processor" where
  "take_session r = upd_world (\<lambda>w. w\<lparr>w_motion_rules :=
     bt_modify (mr_name r) (\<lambda>s. s\<lparr>mrs_session := None\<rparr>) (w_motion_rules w)\<rparr>)"

section \<open>Claims\<close>

definition motion_enabled :: "processor \<Rightarrow> string \<Rightarrow> bool" where
  "motion_enabled p n = (\<not> bs_contains (disabled_zones (p_settings p)) n)"

definition validate_motion_zone :: "processor \<Rightarrow> string \<Rightarrow> (string + unit) option" where
  "validate_motion_zone p n =
     do { r \<leftarrow> room_by_name (p_topology p) n;
          Some (case r of
              None \<Rightarrow> Inl (''Unknown light group: '' @ n)
            | Some zone \<Rightarrow> if \<not> has_motion_sensor zone
                then Inl (''Light group has no motion sensors: '' @ n) else Inr ()) }"

definition motion_allowed_for_light :: "processor \<Rightarrow> device_idx \<Rightarrow> bool" where
  "motion_allowed_for_light p d =
     list_all (\<lambda>r. motion_enabled p (room_name r) \<or>
                   \<not> list_ex (\<lambda>l. le_device l = d) (room_light_members r)) (t_rooms (p_topology p))"

definition motion_rule_occupied :: "processor \<Rightarrow> resolved_motion_rule \<Rightarrow> bool" where
  "motion_rule_occupied p r =
     list_ex (\<lambda>s. case bt_get (w_motion_sensors (p_world p)) (mb_sensor s) of
                    None \<Rightarrow> False | Some e \<Rightarrow> is_occupied e) (mr_sensors r)"

definition light_has_off_only_claim :: "processor \<Rightarrow> device_idx \<Rightarrow> bool" where
  "light_has_off_only_claim p d =
     list_ex (\<lambda>r. mr_mode r = OffOnly \<and> motion_rule_occupied p r \<and>
                  (case session_of p r of None \<Rightarrow> False | Some s \<Rightarrow> bs_contains (mse_claimed s) d))
       (t_motion_rules (p_topology p))"

definition claim_owner :: "processor \<Rightarrow> device_idx \<Rightarrow> owner \<Rightarrow> owner" where
  "claim_owner p d ow = (if light_has_off_only_claim p d then Motion else ow)"

definition command_light :: "light_target \<Rightarrow> owner \<Rightarrow> instant \<Rightarrow> device_idx \<Rightarrow> processor \<Rightarrow> processor option" where
  "command_light v ow ts d p =
     do { n \<leftarrow> device_name (p_topology p) d;
          Some (upd_light n (\<lambda>l. l\<lparr>light_target := set_and_command v ow ts (light_target l)\<rparr>) p) }"

definition record_group_light_command ::
  "string \<Rightarrow> light_target \<Rightarrow> owner \<Rightarrow> instant \<Rightarrow> processor \<Rightarrow> processor option" where
  "record_group_light_command n v ow ts p =
     do { r \<leftarrow> room_by_name (p_topology p) n;
          case r of
            None \<Rightarrow> Some p
          | Some ro \<Rightarrow>
              foldM (\<lambda>l p. command_light v (claim_owner p (le_device l) (if ow = Motion then User else ow)) ts
                             (le_device l) p)
                (room_light_members ro)
                (upd_light_zone n (\<lambda>z. z\<lparr>lz_switch_cycle := None\<rparr>) p) }"

section \<open>Ending a session\<close>

definition motion_target_is_off :: "processor \<Rightarrow> resolved_motion_target \<Rightarrow> bool option" where
  "motion_target_is_off p mt =
     do { group_off \<leftarrow> (case mt_group mt of
            None \<Rightarrow> Some False
          | Some g \<Rightarrow>
              do { r \<leftarrow> room (p_topology p) g;
                   Some (case bt_get (w_light_zones (p_world p)) (room_name r) of
                       None \<Rightarrow> False
                     | Some z \<Rightarrow> act_value (lz_actual z) = Some ZoneOff \<and> \<not> target_is_on z) });
          allM (\<lambda>l. map_option (\<lambda>lo. case lo of
                 None \<Rightarrow> False
               | Some l \<Rightarrow>
                   \<not> (case tgt_value (light_target l) of None \<Rightarrow> False | Some v \<Rightarrow> is_LTOn v) \<and>
                   (group_off \<or> (case act_value (light_actual l) of None \<Rightarrow> False | Some a \<Rightarrow> \<not> la_on a)))
               (light_at p (le_device l))) (mt_lights mt) }"

definition release_light :: "instant \<Rightarrow> light_endpoint \<Rightarrow> processor \<Rightarrow> processor option" where
  "release_light ts l p =
     do { n \<leftarrow> device_name (p_topology p) (le_device l);
          Some (upd_light n (\<lambda>e. if tgt_owner (light_target e) = Some Motion
                 then e\<lparr>light_target := reassign_owner System ts (light_target e)\<rparr> else e) p) }"

definition release_zone_target :: "instant \<Rightarrow> light_zone_entity \<Rightarrow> light_zone_entity" where
  "release_zone_target ts z =
     (if is_motion_owned z then z\<lparr>lz_target := reassign_owner System ts (lz_target z)\<rparr> else z)"

definition release_motion_session :: "resolved_motion_rule \<Rightarrow> instant \<Rightarrow> processor \<Rightarrow> processor option" where
  "release_motion_session r ts p =
     (case session_of p r of
        None \<Rightarrow> Some p
      | Some s \<Rightarrow>
          do { p1 \<leftarrow> foldM (release_light ts) (mt_lights (mse_target s)) (take_session r p);
               case mt_group (mse_target s) of
                 None \<Rightarrow> Some p1
               | Some g \<Rightarrow> do { ro \<leftarrow> room (p_topology p1) g;
                              Some (upd_light_zone (room_name ro) (release_zone_target ts) p1) } })"

definition turn_off_motion_lights ::
  "resolved_motion_target \<Rightarrow> light_endpoint list \<Rightarrow> f64 \<Rightarrow> instant \<Rightarrow> owner \<Rightarrow> handler" where
  "turn_off_motion_lights mt ls transition ts ow p =
     do { p1 \<leftarrow> foldM (\<lambda>l. command_light LTOff ow ts (le_device l)) ls p;
          let single = Some (map (\<lambda>l. PublishLightSet l (state_off transition)) ls, p1);
          case mt_group mt of
            None \<Rightarrow> single
          | Some g \<Rightarrow>
              if length ls = length (mt_lights mt) then
                do { r \<leftarrow> room (p_topology p1) g;
                     Some ([PublishGroupSet g (state_off transition)],
                       upd_light_zone (room_name r) (\<lambda>z. z\<lparr>
                         lz_target := set_and_command LZOff ow ts (lz_target z),
                         lz_last_off_at := Some ts, lz_last_motion_off_at := Some ts\<rparr>) p1) }
              else single }"

text \<open>The lights a finished session may switch off.\<close>

definition eligible_lights :: "motion_session \<Rightarrow> processor \<Rightarrow> light_endpoint list option" where
  "eligible_lights s p =
     filterM (\<lambda>l. if bs_contains (mse_claimed s) (le_device l) \<and> motion_allowed_for_light p (le_device l)
                  then map_option (\<lambda>lo. case lo of None \<Rightarrow> False
                         | Some e \<Rightarrow> tgt_owner (light_target e) = Some Motion) (light_at p (le_device l))
                  else Some False) (mt_lights (mse_target s))"

definition finish_motion_session :: "resolved_motion_rule \<Rightarrow> instant \<Rightarrow> owner \<Rightarrow> handler" where
  "finish_motion_session r ts ow p =
     (case session_of p r of
        None \<Rightarrow> Some ([], p)
      | Some s \<Rightarrow>
          do { off \<leftarrow> motion_target_is_off p (mse_target s);
               if off then do { p1 \<leftarrow> release_motion_session r ts p; Some ([], p1) }
               else
                 let p1 = take_session r p in
                 if mr_mode r = OnOnly then Some ([], p1)
                 else
                   do { eligible \<leftarrow> eligible_lights s p1;
                        if eligible = [] then Some ([], p1)
                        else
                          do { (effs, p2) \<leftarrow> turn_off_motion_lights (mse_target s) eligible
                                              (mr_off_transition_seconds r) ts ow p1;
                               Some (effs, if effs = [] then p2 else
                                 upd_world (\<lambda>w. put_motion_rule (mr_name r)
                                   ((motion_rule_of w (mr_name r))\<lparr>mrs_last_motion_off_at := Some ts\<rparr>) w) p2) } } })"

section \<open>Starting a session\<close>

definition adopt_off_only_group :: "room_idx \<Rightarrow> instant \<Rightarrow> processor \<Rightarrow> processor option" where
  "adopt_off_only_group g ts p =
     do { r \<leftarrow> room (p_topology p) g;
          let z = light_zone (p_world p) (room_name r);
          let divergent = (target_is_on z \<noteq> actual_is_on z);
          t \<leftarrow> (if is_unset (lz_target z) \<or> tgt_phase (lz_target z) = StaleTarget \<and> divergent
                then adopt (if actual_is_on z then LZOn 0 0 else LZOff) Motion ts (lz_target z)
                else Some (if tgt_owner (lz_target z) \<noteq> Some Motion
                           then reassign_owner Motion ts (lz_target z) else lz_target z));
          Some (upd_light_zone (room_name r) (\<lambda>z. z\<lparr>lz_target := t\<rparr>) p) }"

definition session_owner :: "motion_mode \<Rightarrow> owner" where
  "session_owner m = (if m = OnOnly then User else Motion)"

text \<open>One iteration of the claim loop; a light that is already on is only looked up.\<close>

definition claim_light ::
  "motion_mode \<Rightarrow> scene \<Rightarrow> instant \<Rightarrow> light_endpoint \<Rightarrow>
   device_idx btree_set \<times> processor \<Rightarrow> (device_idx btree_set \<times> processor) option" where
  "claim_light mode sc ts l cp =
     (case cp of (claimed, p) \<Rightarrow>
        if \<not> motion_allowed_for_light p (le_device l) then Some (claimed, p)
        else
          do { n \<leftarrow> device_name (p_topology p) (le_device l);
               let e = light (p_world p) n;
               if mode = OffOnly then
                 let divergent = (case (tgt_value (light_target e), act_value (light_actual e)) of
                                    (Some v, Some a) \<Rightarrow> \<not> light_target_matches v a | _ \<Rightarrow> False)
                 in do { t \<leftarrow> (if is_unset (light_target e) \<or>
                                 tgt_phase (light_target e) = StaleTarget \<and> divergent
                              then adopt (if (case act_value (light_actual e) of None \<Rightarrow> False | Some a \<Rightarrow> la_on a)
                                          then LTOn None None else LTOff) Motion ts (light_target e)
                              else Some (if tgt_owner (light_target e) \<noteq> Some Motion
                                         then reassign_owner Motion ts (light_target e) else light_target e));
                         Some (bs_insert (le_device l) claimed, upd_light n (\<lambda>e. e\<lparr>light_target := t\<rparr>) p) }
               else if \<not> light_is_on e then
                 Some (bs_insert (le_device l) claimed,
                   upd_light n (\<lambda>e. e\<lparr>light_target := set_and_command
                     (LTOn (scene_brightness sc) (scene_color_temp sc)) (session_owner mode) ts (light_target e)\<rparr>) p)
               else Some (claimed, upd_light n id p) })"

definition activation_suppressed :: "resolved_motion_rule \<Rightarrow> u32 option \<Rightarrow> instant \<Rightarrow> processor \<Rightarrow> bool" where
  "activation_suppressed r illuminance ts p =
     (let bright = (case (mr_max_illuminance r, illuminance) of
                      (Some mx, Some actual) \<Rightarrow> actual \<ge> mx | _ \<Rightarrow> False);
          cooling = (case Option.bind (bt_get (w_motion_rules (p_world p)) (mr_name r)) mrs_last_motion_off_at of
                       None \<Rightarrow> False
                     | Some off \<Rightarrow> duration_since ts off < from_secs (mr_off_cooldown_seconds r))
      in bright \<or> cooling)"

text \<open>From the claims to the recorded session and the published commands.\<close>

definition open_session ::
  "resolved_motion_rule \<Rightarrow> string \<Rightarrow> scene \<Rightarrow> u8 \<Rightarrow> resolved_motion_target \<Rightarrow> instant \<Rightarrow>
   device_idx btree_set \<Rightarrow> handler" where
  "open_session r slot sc sid mt ts claimed p =
     (if claimed = [] then Some ([], p)
      else
        let p1 = upd_world (\<lambda>w. put_motion_rule (mr_name r) ((motion_rule_of w (mr_name r))\<lparr>mrs_session :=
                   Some \<lparr>mse_slot = slot, mse_target = mt, mse_claimed = claimed\<rparr>\<rparr>) w) p;
            whole = (length claimed = length (mt_lights mt))
        in if mr_mode r = OffOnly then
             (case mt_group mt of
                Some g \<Rightarrow> if whole then do { p2 \<leftarrow> adopt_off_only_group g ts p1; Some ([], p2) } else Some ([], p1)
              | None \<Rightarrow> Some ([], p1))
           else
             let single = Some (map (\<lambda>l. PublishLightSet l (light_on sc))
                                  (filter (\<lambda>l. bs_contains claimed (le_device l)) (mt_lights mt)), p1)
             in case mt_group mt of
                  Some g \<Rightarrow>
                    if whole then
                      do { ro \<leftarrow> room (p_topology p1) g;
                           Some ([PublishGroupSet g (scene_recall sid)],
                             upd_light_zone (room_name ro) (\<lambda>z. z\<lparr>lz_target :=
                               set_and_command (LZOn sid 0) (session_owner (mr_mode r)) ts (lz_target z)\<rparr>) p1) }
                    else single
                | None \<Rightarrow> single)"

definition start_motion_session :: "resolved_motion_rule \<Rightarrow> u32 option \<Rightarrow> instant \<Rightarrow> handler" where
  "start_motion_session r illuminance ts p =
     (if activation_suppressed r illuminance ts p then Some ([], p)
      else
        do { (sun, p1) \<leftarrow> sun_times_of p;
             found \<leftarrow> slot_for_time (motion_slots p1 r) (ck_local_hour (p_clock p1))
                        (ck_local_minute (p_clock p1)) sun;
             case found of
               None \<Rightarrow> Some ([], p1)
             | Some (slot, sl) \<Rightarrow>
                 do { sid \<leftarrow> index (slot_scene_ids sl) 0;
                      mt \<leftarrow> bt_get (mr_targets_by_slot r) slot;
                      sc \<leftarrow> find (\<lambda>s. scene_id s = sid) (ss_scenes (mr_scenes r));
                      (lit, p2) \<leftarrow> (case mt_group mt of
                          Some g \<Rightarrow>
                            if mr_mode r \<noteq> OffOnly \<and>
                               list_all (\<lambda>l. motion_allowed_for_light p1 (le_device l)) (mt_lights mt)
                            then do { ro \<leftarrow> room (p_topology p1) g;
                                      Some (zone_is_on (light_zone (p_world p1) (room_name ro)),
                                            upd_light_zone (room_name ro) id p1) }
                            else Some (False, p1)
                        | None \<Rightarrow> Some (False, p1));
                      if lit then Some ([], p2)
                      else do { (claimed, p3) \<leftarrow> foldM (claim_light (mr_mode r) sc ts) (mt_lights mt) ([], p2);
                                open_session r slot sc sid mt ts claimed p3 } } })"

section \<open>Occupancy reports\<close>

definition occupancy_rule ::
  "bool \<Rightarrow> u32 option \<Rightarrow> instant \<Rightarrow> resolved_motion_rule \<times> bool \<Rightarrow> handler" where
  "occupancy_rule occupied illuminance ts rw p =
     (case rw of (r, was_active) \<Rightarrow>
        if occupied then
          if was_active \<and> session_of p r \<noteq> None then Some ([], p)
          else
            do { p1 \<leftarrow> (if was_active then Some p
                       else do { ended \<leftarrow> (case session_of p r of
                                     None \<Rightarrow> Some False
                                   | Some s \<Rightarrow> motion_target_is_off p (mse_target s));
                                 if ended then release_motion_session r ts p else Some p });
                 if session_of p1 r \<noteq> None then Some ([], p1)
                 else start_motion_session r illuminance ts p1 }
        else if \<not> motion_rule_occupied p r then finish_motion_session r ts Motion p
        else Some ([], p))"

definition handle_occupancy :: "string \<Rightarrow> bool \<Rightarrow> u32 option \<Rightarrow> instant \<Rightarrow> handler" where
  "handle_occupancy sensor occupied illuminance ts p =
     do { rules \<leftarrow> mapM (motion_rule (p_topology p)) (motion_rules_for_sensor (p_topology p) sensor);
          let previous = bt_get (w_motion_sensors (p_world p)) sensor;
          let was_occupied = (case previous of None \<Rightarrow> False | Some s \<Rightarrow> is_occupied s);
          let was_clear = (case Option.bind previous (\<lambda>s. act_value (ms_actual s)) of
                             None \<Rightarrow> False | Some a \<Rightarrow> \<not> ma_occupied a);
          let active = map (\<lambda>r. (r, motion_rule_occupied p r)) rules;
          let p1 = upd_world (\<lambda>w. put_motion_sensor sensor ((motion_sensor w sensor)\<lparr>ms_actual :=
                     actual_update \<lparr>ma_occupied = occupied, ma_illuminance = illuminance\<rparr> ts
                       (ms_actual (motion_sensor w sensor))\<rparr>) w) p;
          if occupied \<and> was_occupied \<or> \<not> occupied \<and> was_clear then Some ([], p1)
          else for_each (occupancy_rule occupied illuminance ts) active p1 }"

section \<open>Startup\<close>

definition rule_observed_on :: "resolved_motion_rule \<Rightarrow> processor \<Rightarrow> bool option" where
  "rule_observed_on r p =
     do { lit \<leftarrow> anyM (\<lambda>l. map_option (\<lambda>lo. case lo of None \<Rightarrow> False
                | Some e \<Rightarrow> (case act_value (light_actual e) of None \<Rightarrow> False | Some a \<Rightarrow> la_on a))
                (light_at p (le_device l))) (mr_lights r);
          if lit then Some True
          else anyM (\<lambda>g. do { ro \<leftarrow> room (p_topology p) g;
                    Some (case bt_get (w_light_zones (p_world p)) (room_name ro) of
                            None \<Rightarrow> False | Some z \<Rightarrow> actual_is_on z) })
                 (List.map_filter mt_group (bt_values (mr_targets_by_slot r))) }"

definition startup_rule :: "instant \<Rightarrow> resolved_motion_rule \<Rightarrow> handler" where
  "startup_rule ts r p =
     (if mr_mode r = OnOnly then Some ([], p)
      else
        do { on \<leftarrow> rule_observed_on r p;
             if \<not> on then Some ([], p)
             else if mr_mode r = OffOnly \<and> motion_rule_occupied p r then start_motion_session r None ts p
             else
               let group = Option.bind (find (\<lambda>mt. mt_group mt \<noteq> None \<and>
                             bs_of_list (mt_lights mt) = bs_of_list (mr_lights r))
                             (bt_values (mr_targets_by_slot r))) mt_group;
                   eligible = filter (\<lambda>l. motion_allowed_for_light p (le_device l)) (mr_lights r)
               in do { (effs, p1) \<leftarrow> turn_off_motion_lights \<lparr>mt_group = group, mt_lights = mr_lights r\<rparr>
                                     eligible (mr_off_transition_seconds r) ts System p;
                       case group of
                         None \<Rightarrow> Some (effs, p1)
                       | Some g \<Rightarrow> do { ro \<leftarrow> room (p_topology p1) g;
                           Some (effs, upd_light_zone (room_name ro) (\<lambda>z. z\<lparr>lz_last_motion_off_at := None\<rparr>) p1) } } })"

definition startup_turn_off_motion_zones :: "instant \<Rightarrow> handler" where
  "startup_turn_off_motion_zones ts p = for_each (startup_rule ts) (t_motion_rules (p_topology p)) p"

section \<open>The motion switch\<close>

definition disown_light :: "instant \<Rightarrow> device_idx \<Rightarrow> processor \<Rightarrow> processor option" where
  "disown_light ts d p =
     do { n \<leftarrow> device_name (p_topology p) d;
          Some (upd_world (\<lambda>w. w\<lparr>w_lights := bt_modify n (\<lambda>e.
                  if tgt_owner (light_target e) = Some Motion
                  then e\<lparr>light_target := reassign_owner System ts (light_target e)\<rparr> else e) (w_lights w)\<rparr>) p) }"

definition disown_session :: "device_idx btree_set \<Rightarrow> instant \<Rightarrow> string \<Rightarrow> processor \<Rightarrow> processor option" where
  "disown_session blocked ts n p =
     (case Option.bind (bt_get (w_motion_rules (p_world p)) n) mrs_session of
        None \<Rightarrow> Some p
      | Some s \<Rightarrow>
          let s1 = s\<lparr>mse_claimed := filter (\<lambda>d. \<not> bs_contains blocked d) (mse_claimed s)\<rparr> in
          do { p1 \<leftarrow> (if list_ex (\<lambda>l. bs_contains blocked (le_device l)) (mt_lights (mse_target s1)) then
                        (case mt_group (mse_target s1) of
                           None \<Rightarrow> Some p
                         | Some g \<Rightarrow> do { ro \<leftarrow> room (p_topology p) g;
                             Some (upd_world (\<lambda>w. w\<lparr>w_light_zones :=
                               bt_modify (room_name ro) (release_zone_target ts) (w_light_zones w)\<rparr>) p) })
                      else Some p);
               Some (upd_world (\<lambda>w. put_motion_rule n ((motion_rule_of w n)\<lparr>mrs_session :=
                       (if mse_claimed s1 = [] then None else Some s1)\<rparr>) w) p1) })"

definition set_motion_enabled :: "string \<Rightarrow> bool \<Rightarrow> instant \<Rightarrow> processor \<Rightarrow> ((string + unit) \<times> processor) option" where
  "set_motion_enabled n enabled ts p =
     do { v \<leftarrow> validate_motion_zone p n;
          case v of
            Inl e \<Rightarrow> Some (Inl e, p)
          | Inr _ \<Rightarrow>
              let p1 = p\<lparr>p_settings := (p_settings p)\<lparr>disabled_zones :=
                         (if enabled then bs_remove n else bs_insert n) (disabled_zones (p_settings p))\<rparr>\<rparr>
              in if enabled then Some (Inr (), p1)
                 else
                   do { r \<leftarrow> room_by_name (p_topology p1) n;
                        ro \<leftarrow> r;
                        let blocked = bs_of_list (map le_device (room_light_members ro));
                        p2 \<leftarrow> foldM (disown_light ts) blocked p1;
                        p3 \<leftarrow> foldM (disown_session blocked ts) (bt_keys (w_motion_rules (p_world p2))) p2;
                        Some (Inr (), p3) } }"

section \<open>Updates keep the invariant\<close>

text \<open>What an update of a zone must respect: well-formedness, and the switch cycle is kept with a
  set target, or dropped.\<close>

definition zone_update_ok :: "(light_zone_entity \<Rightarrow> light_zone_entity) \<Rightarrow> bool" where
  "zone_update_ok f = (\<forall>z. light_zone_ok z \<longrightarrow> light_zone_ok (f z) \<and>
     (lz_switch_cycle (f z) = None \<or>
      lz_switch_cycle (f z) = lz_switch_cycle z \<and> (tgt_since (lz_target z) \<noteq> None \<longrightarrow> tgt_since (lz_target (f z)) \<noteq> None)))"

lemma switch_cycle_ok_update:
  "switch_cycle_ok p n z \<Longrightarrow> light_zone_ok z \<Longrightarrow> zone_update_ok f \<Longrightarrow> switch_cycle_ok p n (f z)"
  unfolding zone_update_ok_def switch_cycle_ok_def by (metis option.distinct(1))

lemma stays_light: "stays p q \<Longrightarrow> light_ok (light (p_world q) n)"
  using state_ok_fetch [of p "p_world q" n] by (simp add: stays_def)

lemma stays_light_zone: "stays p q \<Longrightarrow> light_zone_ok (light_zone (p_world q) n) \<and> switch_cycle_ok p n (light_zone (p_world q) n)"
  using state_ok_fetch [of p "p_world q" n] by (simp add: stays_def)

lemma stays_upd_light:
  "stays p q \<Longrightarrow> (light_ok (light (p_world q) n) \<Longrightarrow> light_ok (f (light (p_world q) n))) \<Longrightarrow> stays p (upd_light n f q)"
  using stays_light [of p q n] by (simp add: stays_def upd_light_def state_ok_store)

lemma stays_upd_light_zone:
  assumes "stays p q" and "zone_update_ok f"
  shows "stays p (upd_light_zone n f q)"
proof -
  let ?z = "light_zone (p_world q) n"
  have z: "light_zone_ok ?z" "switch_cycle_ok p n ?z" using stays_light_zone [OF assms(1)] by simp_all
  moreover have "light_zone_ok (f ?z)" using z(1) assms(2) by (simp add: zone_update_ok_def)
  moreover have "switch_cycle_ok p n (f ?z)" using z assms(2) by (simp add: switch_cycle_ok_update)
  ultimately show ?thesis using assms(1) by (simp add: stays_def upd_light_zone_def state_ok_store)
qed

lemma stays_upd_light_zone_at:
  assumes "stays p q" and "light_zone_ok (f (light_zone (p_world q) n))"
    and "switch_cycle_ok p n (f (light_zone (p_world q) n))"
  shows "stays p (upd_light_zone n f q)"
  using assms by (simp add: stays_def upd_light_zone_def state_ok_store)

lemma stays_put_session:
  "stays p q \<Longrightarrow> session_ok (p_topology p) (f (motion_rule_of (p_world q) n)) \<Longrightarrow>
   stays p (upd_world (\<lambda>w. put_motion_rule n (f (motion_rule_of w n)) w) q)"
  by (simp add: stays_def state_ok_store)

lemma stays_motion_rules:
  "stays p q \<Longrightarrow> bt_all (\<lambda>_. session_ok (p_topology p)) m \<Longrightarrow> stays p (upd_world (w_motion_rules_update (\<lambda>_. m)) q)"
  by (simp add: stays_def state_ok_def world_ok_def)

lemma stays_sessions: "stays p q \<Longrightarrow> bt_all (\<lambda>_. session_ok (p_topology p)) (w_motion_rules (p_world q))"
  by (simp add: stays_def state_ok_def)

lemma stays_session:
  assumes "stays p q" and "session_of q r = Some s"
  shows "motion_target_ok (p_topology p) (mse_target s)" and "\<forall>d \<in> set (mse_claimed s). d < length (t_devices (p_topology p))"
proof -
  obtain st where "bt_get (w_motion_rules (p_world q)) (mr_name r) = Some st" "mrs_session st = Some s"
    using assms(2) by (auto simp: session_of_def split: Option.bind_splits)
  then have "session_ok (p_topology p) st \<and> mrs_session st = Some s"
    using bt_all_get [OF stays_sessions [OF assms(1)]] by blast
  then show "motion_target_ok (p_topology p) (mse_target s)" "\<forall>d \<in> set (mse_claimed s). d < length (t_devices (p_topology p))"
    by (simp_all add: session_ok_def)
qed

lemma stays_take_session: "stays p q \<Longrightarrow> stays p (take_session r q)"
proof -
  assume q: "stays p q"
  have "bt_all (\<lambda>_. session_ok (p_topology p))
      (bt_modify (mr_name r) (\<lambda>s. s\<lparr>mrs_session := None\<rparr>) (w_motion_rules (p_world q)))"
    by (rule bt_all_modify [OF stays_sessions [OF q]]) (simp add: session_ok_def)
  with q show ?thesis by (simp add: take_session_def stays_def state_ok_def world_ok_def)
qed

lemma target_set_ok [simp]:
  "light_ok l \<Longrightarrow> light_ok (l\<lparr>light_target := set_and_command v ow ts (light_target l)\<rparr>)"
  "light_ok l \<Longrightarrow> light_ok (l\<lparr>light_target := reassign_owner ow ts (light_target l)\<rparr>)"
  by (simp_all add: light_ok_def)

lemma zone_update_intros [simp]:
  "zone_update_ok id"
  "zone_update_ok (\<lambda>z. z\<lparr>lz_target := set_and_command v ow ts (lz_target z)\<rparr>)"
  "zone_update_ok (\<lambda>z. z\<lparr>lz_target := reassign_owner ow ts (lz_target z)\<rparr>)"
  "zone_update_ok (\<lambda>z. z\<lparr>lz_switch_cycle := None\<rparr>)"
  "zone_update_ok (\<lambda>z. z\<lparr>lz_last_press_at := a\<rparr>)"
  "zone_update_ok (\<lambda>z. z\<lparr>lz_last_motion_off_at := b\<rparr>)"
  "zone_update_ok (\<lambda>z. z\<lparr>lz_target := set_and_command v ow ts (lz_target z), lz_last_off_at := c, lz_last_motion_off_at := b\<rparr>)"
  "zone_update_ok (release_zone_target ts)"
  by (auto simp: zone_update_ok_def light_zone_ok_def release_zone_target_def target_ok_def reassign_owner_def
      split: target_phase.splits)

section \<open>No motion handler panics\<close>

lemma room_by_nameE:
  assumes "topology_ok t"
  obtains (unknown) "room_by_name t n = Some None" and "room_idx_of t n = None"
    | (known) i where "room_by_name t n = Some (Some (t_rooms t ! i))" and "room_idx_of t n = Some i"
        and "i < length (t_rooms t)" and "room_ok t (t_rooms t ! i)"
proof (cases "room_idx_of t n")
  case (Some i)
  then have "i < length (t_rooms t)" using assms by (simp add: room_idx_of_bound)
  with Some show thesis using assms by (intro known [of i]) (simp_all add: room_by_name_def room_def index_def topology_ok_room)
qed (use unknown in \<open>simp add: room_by_name_def\<close>)

lemma light_at_safe: "d < length (t_devices (p_topology q)) \<Longrightarrow> \<exists>lo. light_at q d = Some lo"
  by (simp add: light_at_def device_name_def index_def)

lemma command_light_safe:
  assumes "stays p q" and "d < length (t_devices (p_topology p))"
  shows "wp (command_light v ow ts d q) (stays p)"
  using assms stays_topology [OF assms(1)] by (simp add: command_light_def stays_upd_light)

lemma record_group_light_command_safe:
  assumes "proc_ok p" and q: "stays p q"
  shows "wp (record_group_light_command n v ow ts q) (stays p)"
proof -
  let ?t = "p_topology p"
  have t: "topology_ok ?t" using assms(1) by (rule proc_ok_topology)
  have "wp (foldM (\<lambda>l p. command_light v (claim_owner p (le_device l) ow') ts (le_device l) p) (room_light_members ro)
      (upd_light_zone n (\<lambda>z. z\<lparr>lz_switch_cycle := None\<rparr>) q)) (stays p)" if "room_ok ?t ro" for ro ow'
    by (rule wp_foldM) (use that q in \<open>auto simp: room_ok_def list_all_iff endpoint_ok_def
        intro!: command_light_safe stays_upd_light_zone\<close>)
  then show ?thesis
    using q stays_topology [OF q] by (cases rule: room_by_nameE [OF t, of n]) (simp_all add: record_group_light_command_def)
qed

lemma motion_target_is_off_safe:
  assumes "motion_target_ok (p_topology q) mt"
  shows "\<exists>b. motion_target_is_off q mt = Some b"
proof -
  have "\<exists>b. allM f (mt_lights mt) = Some b" if "\<And>l. l \<in> set (mt_lights mt) \<Longrightarrow> \<exists>b. f l = Some b" for f
    using that by (rule allM_total)
  moreover have "endpoint_ok (p_topology q) l" if "l \<in> set (mt_lights mt)" for l
    using assms that by (simp add: motion_target_ok_def list_all_iff)
  ultimately show ?thesis
    using assms light_at_safe [of _ q]
    by (fastforce simp: motion_target_is_off_def motion_target_ok_def endpoint_ok_def room_def index_def
        split: option.splits Option.bind_splits)
qed

lemma release_motion_session_safe:
  assumes q: "stays p q"
  shows "wp (release_motion_session r ts q) (stays p)"
proof (cases "session_of q r")
  case (Some s)
  note ok = stays_session(1) [OF q Some]
  have rel: "wp (release_light ts l q') (stays p)" if "stays p q'" "endpoint_ok (p_topology p) l" for l q'
    using that stays_topology [OF that(1)]
    by (auto simp: release_light_def endpoint_ok_def intro!: stays_upd_light)
  have "wp (foldM (release_light ts) (mt_lights (mse_target s)) (take_session r q)) (stays p)"
    by (rule wp_foldM) (use ok q in \<open>auto simp: motion_target_ok_def list_all_iff stays_take_session intro!: rel\<close>)
  then obtain p1 where p1: "foldM (release_light ts) (mt_lights (mse_target s)) (take_session r q) = Some p1" "stays p p1"
    by (auto simp: wp_iff)
  show ?thesis
    using Some p1 ok stays_topology [OF p1(2)]
    by (auto simp: release_motion_session_def motion_target_ok_def stays_upd_light_zone split: option.splits)
qed (use q in \<open>simp add: release_motion_session_def\<close>)

lemma turn_off_motion_lights_safe:
  assumes q: "stays p q" and mt: "\<And>g. mt_group mt = Some g \<Longrightarrow> g < length (t_rooms (p_topology p))"
    and ls: "list_all (endpoint_ok (p_topology p)) ls"
  shows "wp (turn_off_motion_lights mt ls tr ts ow q)
    (\<lambda>(e, q'). list_all (eff_ok (p_topology p)) e \<and> stays p q')"
proof -
  have "wp (foldM (\<lambda>l. command_light LTOff ow ts (le_device l)) ls q) (stays p)"
    by (rule wp_foldM) (use q ls in \<open>auto simp: list_all_iff endpoint_ok_def intro!: command_light_safe\<close>)
  then obtain p1 where p1: "foldM (\<lambda>l. command_light LTOff ow ts (le_device l)) ls q = Some p1" "stays p p1"
    by (auto simp: wp_iff)
  have e: "list_all (eff_ok (p_topology p)) (map (\<lambda>l. PublishLightSet l (state_off tr)) ls)"
    using ls by (simp add: list_all_iff)
  show ?thesis
    using p1 e mt stays_topology [OF p1(2)]
    by (auto simp: turn_off_motion_lights_def Let_def stays_upd_light_zone split: option.splits)
qed

lemma eligible_lights_safe:
  assumes "stays p q" and "motion_target_ok (p_topology p) (mse_target s)"
  shows "\<exists>ls. eligible_lights s q = Some ls \<and> set ls = {l \<in> set (mt_lights (mse_target s)).
      le_device l \<in> set (mse_claimed s) \<and> motion_allowed_for_light q (le_device l) \<and>
      (\<exists>e. light_at q (le_device l) = Some (Some e) \<and> tgt_owner (light_target e) = Some Motion)}"
proof -
  let ?f = "\<lambda>l. if bs_contains (mse_claimed s) (le_device l) \<and> motion_allowed_for_light q (le_device l)
    then map_option (\<lambda>lo. case lo of None \<Rightarrow> False | Some e \<Rightarrow> tgt_owner (light_target e) = Some Motion) (light_at q (le_device l))
    else Some False"
  have "\<exists>b. ?f l = Some b" if "l \<in> set (mt_lights (mse_target s))" for l
    using that assms(2) light_at_safe [of "le_device l" q] stays_topology [OF assms(1)]
    by (auto simp: motion_target_ok_def list_all_iff endpoint_ok_def)
  moreover have "?f l = Some True \<longleftrightarrow> le_device l \<in> set (mse_claimed s) \<and> motion_allowed_for_light q (le_device l) \<and>
      (\<exists>e. light_at q (le_device l) = Some (Some e) \<and> tgt_owner (light_target e) = Some Motion)" for l
    by (cases "light_at q (le_device l)") (auto split: option.splits)
  ultimately show ?thesis
    using filterM_total [of "mt_lights (mse_target s)" ?f] unfolding eligible_lights_def by simp
qed

lemma finish_motion_session_safe:
  assumes q: "stays p q"
  shows "wp (finish_motion_session r ts ow q) (\<lambda>(e, q'). list_all (eff_ok (p_topology p)) e \<and> stays p q')"
proof (cases "session_of q r")
  case (Some s)
  note ok = stays_session(1) [OF q Some]
  let ?q = "take_session r q"
  have q1: "stays p ?q" using q by (rule stays_take_session)
  obtain ls where ls: "eligible_lights s ?q = Some ls" "set ls \<subseteq> set (mt_lights (mse_target s))"
    using eligible_lights_safe [OF q1 ok] by blast
  have lso: "list_all (endpoint_ok (p_topology p)) ls" using ls(2) ok by (auto simp: motion_target_ok_def list_all_iff)
  obtain e q2 where e: "turn_off_motion_lights (mse_target s) ls (mr_off_transition_seconds r) ts ow ?q = Some (e, q2)"
    "list_all (eff_ok (p_topology p)) e" "stays p q2"
    using turn_off_motion_lights_safe [OF q1 _ lso, of "mse_target s" "mr_off_transition_seconds r" ts ow] ok
    unfolding wp_iff motion_target_ok_def by auto
  have "stays p (upd_world (\<lambda>w. put_motion_rule (mr_name r) ((motion_rule_of w (mr_name r))\<lparr>mrs_last_motion_off_at := Some ts\<rparr>) w) q2)"
    using state_ok_fetch(7) [of p "p_world q2" "mr_name r"] e(3)
    by (intro stays_put_session) (simp_all add: session_ok_def stays_def)
  moreover obtain b where "motion_target_is_off q (mse_target s) = Some b"
    using motion_target_is_off_safe [of q] ok stays_topology [OF q] by auto
  moreover obtain p1 where "release_motion_session r ts q = Some p1" "stays p p1"
    using release_motion_session_safe [OF q, of r ts] by (auto simp: wp_iff)
  ultimately show ?thesis using Some ls e q1 by (simp add: finish_motion_session_def Let_def)
qed (use q in \<open>simp add: finish_motion_session_def\<close>)

lemma adopt_off_only_group_safe:
  assumes q: "stays p q" and g: "g < length (t_rooms (p_topology p))"
  shows "wp (adopt_off_only_group g ts q) (stays p)"
proof -
  let ?n = "room_name (t_rooms (p_topology p) ! g)"
  let ?z = "light_zone (p_world q) ?n"
  have z: "light_zone_ok ?z" "switch_cycle_ok p ?n ?z" using stays_light_zone [OF q] by simp_all
  have *: "stays p (upd_light_zone ?n (\<lambda>z. z\<lparr>lz_target := t\<rparr>) q)"
    if "target_ok t" "tgt_phase t \<noteq> Pending" "tgt_since (lz_target ?z) \<noteq> None \<longrightarrow> tgt_since t \<noteq> None" for t
    using that z by (intro stays_upd_light_zone_at [OF q]) (auto simp: light_zone_ok_def switch_cycle_ok_def)
  show ?thesis
    using z g stays_topology [OF q]
    by (auto simp: adopt_off_only_group_def Let_def is_unset_def light_zone_ok_def target_ok_def reassign_owner_def
        split: target_phase.splits intro!: *)
qed

lemma claim_light_safe:
  assumes q: "stays p q" and l: "endpoint_ok (p_topology p) l" and c: "\<forall>d \<in> set c. d < length (t_devices (p_topology p))"
  shows "wp (claim_light mode sc ts l (c, q))
    (\<lambda>(c', q'). (\<forall>d \<in> set c'. d < length (t_devices (p_topology p))) \<and> stays p q')"
proof -
  let ?n = "di_name (t_devices (p_topology p) ! le_device l)"
  have ok: "light_ok (light (p_world q) ?n)" using q by (rule stays_light)
  have *: "stays p (upd_light ?n (\<lambda>e. e\<lparr>light_target := t\<rparr>) q)" if "target_ok t" "tgt_phase t \<noteq> Pending" for t
    using that ok by (intro stays_upd_light [OF q]) (auto simp: light_ok_def)
  show ?thesis
    using q l c ok stays_topology [OF q]
    by (auto simp: claim_light_def Let_def endpoint_ok_def is_unset_def light_ok_def
        intro!: * stays_upd_light [OF q])
qed

lemma open_session_safe:
  assumes q: "stays p q" and mt: "motion_target_ok (p_topology p) mt"
    and c: "\<forall>d \<in> set claimed. d < length (t_devices (p_topology p))"
  shows "wp (open_session r slot sc sid mt ts claimed q) (\<lambda>(e, q'). list_all (eff_ok (p_topology p)) e \<and> stays p q')"
proof -
  define q1 where "q1 = upd_world (\<lambda>w. put_motion_rule (mr_name r) ((motion_rule_of w (mr_name r))\<lparr>mrs_session :=
    Some \<lparr>mse_slot = slot, mse_target = mt, mse_claimed = claimed\<rparr>\<rparr>) w) q"
  have q1: "stays p q1" unfolding q1_def using mt c by (intro stays_put_session [OF q]) (simp add: session_ok_def)
  have e: "list_all (eff_ok (p_topology p)) (map (\<lambda>l. PublishLightSet l (light_on sc))
      (filter (\<lambda>l. bs_contains claimed (le_device l)) (mt_lights mt)))"
    using mt by (auto simp: motion_target_ok_def list_all_iff)
  have g: "g < length (t_rooms (p_topology p))" if "mt_group mt = Some g" for g
    using mt that by (simp add: motion_target_ok_def)
  have a: "\<exists>q2. adopt_off_only_group g ts q1 = Some q2 \<and> stays p q2" if "mt_group mt = Some g" for g
    using adopt_off_only_group_safe [OF q1 g [OF that], of ts] by (simp add: wp_iff)
  show ?thesis
    using q q1 e g a stays_topology [OF q1]
    by (auto simp: open_session_def q1_def [symmetric] Let_def stays_upd_light_zone wp_iff [of "adopt_off_only_group _ _ _"]
        split: option.splits)
qed

lemma scene_known_find:
  assumes "scene_known sc i"
  obtains s where "find (\<lambda>s. scene_id s = i) (ss_scenes sc) = Some s" and "scene_id s = i"
proof (cases "find (\<lambda>s. scene_id s = i) (ss_scenes sc)")
  case None
  then show thesis using assms by (auto simp: find_None_iff scene_known_def list_ex_iff)
qed (use that in \<open>auto simp: find_Some_iff\<close>)

lemma motion_slot_facts:
  assumes "proc_ok p" and "r \<in> set (t_motion_rules (p_topology p))" and "(slot, sl) \<in> set (motion_slots p r)"
  obtains sid mt sc where "index (slot_scene_ids sl) 0 = Some sid" and "bt_get (mr_targets_by_slot r) slot = Some mt"
    and "find (\<lambda>s. scene_id s = sid) (ss_scenes (mr_scenes r)) = Some sc" and "scene_id sc = sid"
    and "motion_target_ok (p_topology p) mt"
proof -
  have "motion_slots_ok p r" using assms(1,2) by (simp add: proc_ok_def config_ok_def)
  then have s: "slot_scene_ids sl \<noteq> []" "scene_known (mr_scenes r) (hd (slot_scene_ids sl))"
    "bt_contains_key (mr_targets_by_slot r) slot"
    using assms(3) by (auto simp: schedule_ok_defs bt_all_def list_all_iff)
  obtain mt where mt: "bt_get (mr_targets_by_slot r) slot = Some mt" using s(3) by (auto simp: bt_contains_key_def)
  have "motion_rule_ok (p_topology p) r"
    using proc_ok_topology [OF assms(1)] assms(2) by (auto simp: topology_ok_def list_all_iff)
  then have "motion_target_ok (p_topology p) mt"
    using bt_all_get [OF _ mt, of "\<lambda>_. motion_target_ok (p_topology p)"] by (simp add: motion_rule_ok_def)
  moreover obtain sc where "find (\<lambda>s. scene_id s = hd (slot_scene_ids sl)) (ss_scenes (mr_scenes r)) = Some sc"
    "scene_id sc = hd (slot_scene_ids sl)"
    using s(2) by (rule scene_known_find)
  ultimately show thesis using s(1) mt by (intro that [of "hd (slot_scene_ids sl)" mt sc]) (auto simp: index_def hd_conv_nth)
qed

text \<open>Looking up the sun times and a slot of the effective schedule.\<close>

lemma motion_slots_stays: "stays p q \<Longrightarrow> motion_slots q r = motion_slots p r"
  unfolding motion_slots_def by (simp add: stays_def cfg_fields(9) [of q p])

lemma stays_location: "stays p q \<Longrightarrow> p_location q = p_location p"
  by (simp add: stays_def cfg_fields(4) [of q p])

lemma motion_slot_lookup:
  assumes "proc_ok p" and q: "stays p q" and r: "r \<in> set (t_motion_rules (p_topology p))"
  obtains sun q1 found where "sun_times_of q = Some (sun, q1)" and "stays p q1" and "p_world q1 = p_world q"
    and "slot_for_time (motion_slots q1 r) (ck_local_hour (p_clock q1)) (ck_local_minute (p_clock q1)) sun = Some found"
    and "\<And>slot sl. found = Some (slot, sl) \<Longrightarrow> (slot, sl) \<in> set (motion_slots p r)"
proof -
  have "proc_ok q" using stays_proc_ok [OF assms(1) q] .
  then obtain sun c where sc: "sun_times_of q = Some (sun, q\<lparr>p_cached_sun := c\<rparr>)"
    and sun: "sun = None \<longleftrightarrow> p_location q = None" by (rule sun_times_ofE)
  define q1 where "q1 = q\<lparr>p_cached_sun := c\<rparr>"
  have q1: "stays p q1" using q by (simp add: q1_def stays_def)
  have "slots_sun_ok p (motion_slots p r)"
    using assms(1) r by (simp add: proc_ok_def config_ok_def schedule_ok_defs)
  moreover have "sun = None \<longleftrightarrow> p_location p = None" using sun stays_location [OF q] by simp
  ultimately have "wp (slot_for_time (motion_slots q1 r) (ck_local_hour (p_clock q1)) (ck_local_minute (p_clock q1)) sun)
      (\<lambda>f. \<forall>e. f = Some e \<longrightarrow> e \<in> set (motion_slots p r))"
    unfolding motion_slots_stays [OF q1] by (rule wp_slot_for_time)
  then obtain found where "slot_for_time (motion_slots q1 r) (ck_local_hour (p_clock q1)) (ck_local_minute (p_clock q1)) sun = Some found"
    "\<forall>e. found = Some e \<longrightarrow> e \<in> set (motion_slots p r)"
    unfolding wp_iff by blast
  then show thesis using sc q1 by (intro that [of sun q1 found]) (auto simp: q1_def)
qed

lemma start_motion_session_safe:
  assumes p: "proc_ok p" and q: "stays p q" and r: "r \<in> set (t_motion_rules (p_topology p))"
  shows "wp (start_motion_session r ill ts q) (\<lambda>(e, q'). list_all (eff_ok (p_topology p)) e \<and> stays p q')"
proof -
  obtain sun q1 found where s: "sun_times_of q = Some (sun, q1)" and q1: "stays p q1"
    and f: "slot_for_time (motion_slots q1 r) (ck_local_hour (p_clock q1)) (ck_local_minute (p_clock q1)) sun = Some found"
    and sl: "\<And>slot sl. found = Some (slot, sl) \<Longrightarrow> (slot, sl) \<in> set (motion_slots p r)"
    using motion_slot_lookup [OF assms] by metis
  show ?thesis
  proof (cases found)
    case None
    then show ?thesis using s f q q1 by (simp add: start_motion_session_def)
  next
    case (Some x)
    obtain slot sl' where x: "x = (slot, sl')" by (cases x)
    obtain sid mt sc where m: "index (slot_scene_ids sl') 0 = Some sid" "bt_get (mr_targets_by_slot r) slot = Some mt"
      "find (\<lambda>s. scene_id s = sid) (ss_scenes (mr_scenes r)) = Some sc" and mt: "motion_target_ok (p_topology p) mt"
      using motion_slot_facts [OF p r sl] Some x by metis
    define lk where "lk = (case mt_group mt of
        Some g \<Rightarrow> if mr_mode r \<noteq> OffOnly \<and> list_all (\<lambda>l. motion_allowed_for_light q1 (le_device l)) (mt_lights mt)
          then do { ro \<leftarrow> room (p_topology q1) g;
                    Some (zone_is_on (light_zone (p_world q1) (room_name ro)), upd_light_zone (room_name ro) id q1) }
          else Some (False, q1)
      | None \<Rightarrow> Some (False, q1))"
    have "wp lk (\<lambda>(b, q2). stays p q2)"
      using q1 mt stays_topology [OF q1]
      by (auto simp: lk_def motion_target_ok_def stays_upd_light_zone split: option.splits)
    then obtain b q2 where q2: "lk = Some (b, q2)" "stays p q2" by (auto simp: wp_iff)
    have "wp (foldM (claim_light (mr_mode r) sc ts) (mt_lights mt) ([], q2))
        (\<lambda>(c, q3). (\<forall>d \<in> set c. d < length (t_devices (p_topology p))) \<and> stays p q3)"
      by (rule wp_foldM) (use q2 mt in \<open>auto simp: motion_target_ok_def list_all_iff intro!: claim_light_safe\<close>)
    then obtain c q3 where q3: "foldM (claim_light (mr_mode r) sc ts) (mt_lights mt) ([], q2) = Some (c, q3)"
      "\<forall>d \<in> set c. d < length (t_devices (p_topology p))" "stays p q3" by (auto simp: wp_iff)
    show ?thesis
      using s f Some x m q q2 q3 open_session_safe [OF q3(3) mt q3(2), of r slot sc sid ts]
      by (simp add: start_motion_session_def lk_def [symmetric])
  qed
qed

lemma occupancy_rule_safe:
  assumes p: "proc_ok p" and q: "stays p q" and r: "r \<in> set (t_motion_rules (p_topology p))"
  shows "wp (occupancy_rule occ ill ts (r, act) q) (\<lambda>(e, q'). list_all (eff_ok (p_topology p)) e \<and> stays p q')"
proof -
  define m where "m = (if act then Some q else do { ended \<leftarrow> (case session_of q r of None \<Rightarrow> Some False
      | Some s \<Rightarrow> motion_target_is_off q (mse_target s)); if ended then release_motion_session r ts q else Some q })"
  have "\<exists>b. motion_target_is_off q (mse_target s) = Some b" if "session_of q r = Some s" for s
    using motion_target_is_off_safe [of q] stays_session(1) [OF q that] stays_topology [OF q] by simp
  moreover obtain p1 where "release_motion_session r ts q = Some p1" "stays p p1"
    using release_motion_session_safe [OF q, of r ts] by (auto simp: wp_iff)
  ultimately have "wp m (stays p)" using q by (auto simp: m_def split: option.splits)
  then obtain q1 where "m = Some q1" "stays p q1" by (auto simp: wp_iff)
  then show ?thesis
    using q start_motion_session_safe [OF p _ r, of q1 ill ts] finish_motion_session_safe [OF q, of r ts Motion]
    by (simp add: occupancy_rule_def m_def [symmetric])
qed

lemma handle_occupancy_safe: "safe (handle_occupancy sensor occ ill ts)"
  unfolding safe_def
proof (intro allI impI)
  fix p assume p: "proc_ok p"
  let ?t = "p_topology p"
  have t: "topology_ok ?t" using p by (rule proc_ok_topology)
  have rules: "mapM (motion_rule ?t) (motion_rules_for_sensor ?t sensor) =
      Some (map (\<lambda>i. t_motion_rules ?t ! i) (motion_rules_for_sensor ?t sensor))" (is "_ = Some ?rs")
    using motion_rules_for_sensor_bound [OF t] by (intro mapM_Some_map) (simp add: motion_rule_def index_def)
  define p1 where "p1 = upd_world (\<lambda>w. put_motion_sensor sensor ((motion_sensor w sensor)\<lparr>ms_actual :=
      actual_update \<lparr>ma_occupied = occ, ma_illuminance = ill\<rparr> ts (ms_actual (motion_sensor w sensor))\<rparr>) w) p"
  have p1: "stays p p1"
    using p by (simp add: p1_def stays_upd_world state_ok_store proc_ok_state motion_sensor_ok_def)
  have "safe_at p1 (for_each (occupancy_rule occ ill ts) (map (\<lambda>r. (r, motion_rule_occupied p r)) ?rs) p1)"
  proof (rule safe_for_each [OF stays_proc_ok [OF p p1]])
    fix x q assume x: "x \<in> set (map (\<lambda>r. (r, motion_rule_occupied p r)) ?rs)" and q: "stays p1 q"
    have pq: "proc_ok q" using stays_proc_ok [OF stays_proc_ok [OF p p1] q] .
    have "fst x \<in> set (t_motion_rules ?t)" using x motion_rules_for_sensor_bound [OF t] by auto
    moreover have "p_topology q = ?t" using stays_topology [OF q] stays_topology [OF p1] by simp
    ultimately show "safe_at q (occupancy_rule occ ill ts x q)"
      using occupancy_rule_safe [OF pq stays_refl [OF pq], of "fst x" occ ill ts "snd x"]
      unfolding safe_at_def by (cases x) simp
  qed
  from safe_at_trans [OF p1 this] p1 rules show "safe_at p (handle_occupancy sensor occ ill ts p)"
    by (simp add: handle_occupancy_def Let_def p1_def [symmetric])
qed

lemma rule_observed_on_safe:
  assumes "proc_ok p" and r: "r \<in> set (t_motion_rules (p_topology p))"
  shows "\<exists>b. rule_observed_on r p = Some b"
proof -
  let ?t = "p_topology p"
  have ok: "motion_rule_ok ?t r" using proc_ok_topology [OF assms(1)] r by (auto simp: topology_ok_def list_all_iff)
  have l: "\<exists>b. anyM (\<lambda>l. map_option f (light_at p (le_device l))) (mr_lights r) = Some b" for f
    using ok light_at_safe [of _ p]
    by (intro anyM_total') (fastforce simp: motion_rule_ok_def list_all_iff endpoint_ok_def)
  have g: "\<exists>b. anyM (\<lambda>g. do { ro \<leftarrow> room ?t g; Some (f ro) }) (List.map_filter mt_group (bt_values (mr_targets_by_slot r))) = Some b"
    for f
  proof (rule anyM_total')
    fix g assume "g \<in> set (List.map_filter mt_group (bt_values (mr_targets_by_slot r)))"
    then obtain mt where "mt \<in> set (bt_values (mr_targets_by_slot r))" "mt_group mt = Some g"
      by (auto simp: List.map_filter_def)
    then have "g < length (t_rooms ?t)"
      using ok by (auto simp: motion_rule_ok_def bt_all_values motion_target_ok_def)
    then show "\<exists>b. do { ro \<leftarrow> room ?t g; Some (f ro) } = Some b" by (simp add: room_def index_def)
  qed
  show ?thesis
    using l [of "\<lambda>lo. case lo of None \<Rightarrow> False | Some e \<Rightarrow> (case act_value (light_actual e) of None \<Rightarrow> False | Some a \<Rightarrow> la_on a)"]
      g [of "\<lambda>ro. case bt_get (w_light_zones (p_world p)) (room_name ro) of None \<Rightarrow> False | Some z \<Rightarrow> actual_is_on z"]
    by (elim exE) (auto simp: rule_observed_on_def)
qed

lemma startup_rule_safe:
  assumes p: "proc_ok p" and r: "r \<in> set (t_motion_rules (p_topology p))"
  shows "safe_at p (startup_rule ts r p)"
proof -
  let ?t = "p_topology p"
  have ok: "motion_rule_ok ?t r" using proc_ok_topology [OF p] r by (auto simp: topology_ok_def list_all_iff)
  define group where "group = Option.bind (find (\<lambda>mt. mt_group mt \<noteq> None \<and>
    bs_of_list (mt_lights mt) = bs_of_list (mr_lights r)) (bt_values (mr_targets_by_slot r))) mt_group"
  define ls where "ls = filter (\<lambda>l. motion_allowed_for_light p (le_device l)) (mr_lights r)"
  have g: "g < length (t_rooms ?t)" if "group = Some g" for g
    using that ok nth_mem unfolding group_def motion_rule_ok_def bt_all_values motion_target_ok_def
    by (fastforce simp: find_Some_iff split: Option.bind_splits)
  have "list_all (endpoint_ok ?t) ls" using ok by (auto simp: ls_def motion_rule_ok_def list_all_iff)
  then obtain e q where q: "turn_off_motion_lights \<lparr>mt_group = group, mt_lights = mr_lights r\<rparr> ls
      (mr_off_transition_seconds r) ts System p = Some (e, q)" "list_all (eff_ok ?t) e" "stays p q"
    using turn_off_motion_lights_safe [OF stays_refl [OF p], of "\<lparr>mt_group = group, mt_lights = mr_lights r\<rparr>" ls
        "mr_off_transition_seconds r" ts System] g
    unfolding wp_iff by auto
  obtain b where "rule_observed_on r p = Some b" using rule_observed_on_safe [OF assms] by blast
  then show ?thesis
    using q g p stays_refl [OF p] start_motion_session_safe [OF p stays_refl [OF p] r] stays_topology [OF q(3)]
    unfolding safe_at_def startup_rule_def Let_def group_def [symmetric] ls_def [symmetric]
    by (auto simp: stays_upd_light_zone split: option.splits)
qed

lemma startup_turn_off_motion_zones_safe: "safe (startup_turn_off_motion_zones ts)"
  unfolding safe_def startup_turn_off_motion_zones_def
proof (intro allI impI, rule safe_for_each)
  fix p r q assume "proc_ok p" and "r \<in> set (t_motion_rules (p_topology p))" and q: "stays p q"
  then show "safe_at q (startup_rule ts r q)"
    using stays_topology [OF q] stays_proc_ok [OF _ q] by (simp add: startup_rule_safe)
qed

lemma disabled_zones_ok:
  "proc_ok (p\<lparr>p_settings := (p_settings p)\<lparr>disabled_zones := d\<rparr>\<rparr>) = proc_ok p"
proof -
  let ?p = "p\<lparr>p_settings := (p_settings p)\<lparr>disabled_zones := d\<rparr>\<rparr>"
  have "room_slots_ok ?p = room_slots_ok p" "motion_slots_ok ?p = motion_slots_ok p"
    by (rule ext, simp add: schedule_ok_defs room_slots_def motion_slots_def slots_sun_ok_def)+
  moreover have "switch_cycle_ok ?p = switch_cycle_ok p"
    by (intro ext) (simp add: switch_cycle_ok_def room_switch_steps_of_def)
  moreover from calculation have "cycles_ok ?p = cycles_ok p" by (intro ext) (simp only: cycles_ok_def)
  ultimately show ?thesis
    by (simp add: proc_ok_def config_ok_def sunrise_ok_def boosts_ok_def state_ok_def times_sun_ok_def)
qed

lemma disown_light_safe:
  assumes q: "stays p q" and "d < length (t_devices (p_topology p))"
  shows "wp (disown_light ts d q) (stays p)"
proof -
  have "bt_all (\<lambda>_. light_ok) (bt_modify n (\<lambda>e. if tgt_owner (light_target e) = Some Motion
      then e\<lparr>light_target := reassign_owner System ts (light_target e)\<rparr> else e) (w_lights (p_world q)))" for n
    using q by (intro bt_all_modify) (auto simp: stays_def state_ok_def world_ok_def)
  then show ?thesis
    using assms stays_topology [OF q] by (simp add: disown_light_def stays_def state_ok_def world_ok_def)
qed

lemma stays_modify_zone:
  assumes q: "stays p q" and f: "zone_update_ok f"
  shows "stays p (upd_world (\<lambda>w. w\<lparr>w_light_zones := bt_modify n f (w_light_zones w)\<rparr>) q)"
proof -
  have z: "bt_all (\<lambda>_. light_zone_ok) (w_light_zones (p_world q))" "cycles_ok p (w_light_zones (p_world q))"
    using q by (simp_all add: stays_def state_ok_def world_ok_def)
  then have "bt_all (\<lambda>_. light_zone_ok) (bt_modify n f (w_light_zones (p_world q)))"
    by (intro bt_all_modify) (use f in \<open>simp_all add: zone_update_ok_def\<close>)
  moreover have "cycles_ok p (bt_modify n f (w_light_zones (p_world q)))"
    using z bt_all_get [OF z(1)] f
    by (auto simp: cycles_ok_def bt_get_modify intro: switch_cycle_ok_update split: if_splits)
  ultimately show ?thesis using q by (simp add: stays_def state_ok_def world_ok_def)
qed

lemma disown_session_safe:
  assumes q: "stays p q"
  shows "wp (disown_session blocked ts n q) (stays p)"
proof (cases "Option.bind (bt_get (w_motion_rules (p_world q)) n) mrs_session")
  case (Some s)
  then obtain st where st: "bt_get (w_motion_rules (p_world q)) n = Some st" "mrs_session st = Some s"
    by (auto split: Option.bind_splits)
  then have ok: "session_ok (p_topology p) st" using bt_all_get [OF stays_sessions [OF q]] by blast
  let ?s = "s\<lparr>mse_claimed := filter (\<lambda>d. \<not> bs_contains blocked d) (mse_claimed s)\<rparr>"
  have s: "motion_target_ok (p_topology p) (mse_target ?s)" "\<forall>d \<in> set (mse_claimed ?s). d < length (t_devices (p_topology p))"
    using ok st(2) by (auto simp: session_ok_def)
  define m where "m = (if list_ex (\<lambda>l. bs_contains blocked (le_device l)) (mt_lights (mse_target ?s)) then
      (case mt_group (mse_target ?s) of None \<Rightarrow> Some q
       | Some g \<Rightarrow> do { ro \<leftarrow> room (p_topology q) g; Some (upd_world (\<lambda>w. w\<lparr>w_light_zones :=
           bt_modify (room_name ro) (release_zone_target ts) (w_light_zones w)\<rparr>) q) }) else Some q)"
  have "wp m (stays p)"
    using q s stays_topology [OF q] by (auto simp: m_def motion_target_ok_def stays_modify_zone split: option.splits)
  then obtain q1 where q1: "m = Some q1" "stays p q1" by (auto simp: wp_iff)
  have "stays p (upd_world (\<lambda>w. put_motion_rule n ((motion_rule_of w n)\<lparr>mrs_session :=
      (if mse_claimed ?s = [] then None else Some ?s)\<rparr>) w) q1)"
    using s by (intro stays_put_session [OF q1(2)]) (auto simp: session_ok_def)
  then show ?thesis
    unfolding disown_session_def Some option.case Let_def m_def [symmetric] q1(1) by simp
qed (use q in \<open>simp add: disown_session_def\<close>)

lemma set_motion_enabled_safe:
  assumes "proc_ok p"
  shows "wp (set_motion_enabled n en ts p) (\<lambda>(_, p'). proc_ok p' \<and> p_topology p' = p_topology p)"
proof (rule room_by_nameE [OF proc_ok_topology [OF assms], of n])
  assume "room_by_name (p_topology p) n = Some None"
  with assms show ?thesis by (simp add: set_motion_enabled_def validate_motion_zone_def)
next
  fix i assume known: "room_by_name (p_topology p) n = Some (Some (t_rooms (p_topology p) ! i))"
    "room_ok (p_topology p) (t_rooms (p_topology p) ! i)"
  let ?r = "t_rooms (p_topology p) ! i"
  define p1 where "p1 = p\<lparr>p_settings := (p_settings p)\<lparr>disabled_zones :=
    (if en then bs_remove n else bs_insert n) (disabled_zones (p_settings p))\<rparr>\<rparr>"
  have p1: "proc_ok p1" using assms unfolding p1_def by (simp only: disabled_zones_ok)
  have t: "p_topology p1 = p_topology p" by (simp add: p1_def)
  let ?b = "bs_of_list (map le_device (room_light_members ?r))"
  have "wp (foldM (disown_light ts) ?b p1) (stays p1)"
    by (rule wp_foldM)
      (use known t stays_refl [OF p1] in \<open>auto simp: room_ok_def list_all_iff endpoint_ok_def intro!: disown_light_safe\<close>)
  then obtain p2 where p2: "foldM (disown_light ts) ?b p1 = Some p2" "stays p1 p2" by (auto simp: wp_iff)
  have "wp (foldM (disown_session ?b ts) (bt_keys (w_motion_rules (p_world p2))) p2) (stays p1)"
    by (rule wp_foldM) (use p2(2) in \<open>simp_all add: disown_session_safe\<close>)
  then obtain p3 where p3: "foldM (disown_session ?b ts) (bt_keys (w_motion_rules (p_world p2))) p2 = Some p3" "stays p1 p3"
    by (auto simp: wp_iff)
  show ?thesis
    using assms known p1 p2(1) p3 stays_proc_ok [OF p1 p3(2)] stays_topology [OF p3(2)]
    unfolding set_motion_enabled_def validate_motion_zone_def Let_def p1_def [symmetric] t
    by (simp add: t)
qed

section \<open>What a session may touch\<close>

lemma upd_light_world [simp]:
  "p_settings (upd_light n f p) = p_settings p" "p_topology (upd_light n f p) = p_topology p"
  "w_light_zones (p_world (upd_light n f p)) = w_light_zones (p_world p)"
  "w_motion_rules (p_world (upd_light n f p)) = w_motion_rules (p_world p)"
  "w_motion_sensors (p_world (upd_light n f p)) = w_motion_sensors (p_world p)"
  "light_zone (p_world (upd_light n f p)) m = light_zone (p_world p) m"
  "light (p_world (upd_light n f p)) m = (if m = n then f (light (p_world p) n) else light (p_world p) m)"
  by (simp_all add: upd_light_def put_light_def light_def light_zone_def)

lemma upd_light_zone_world [simp]:
  "p_settings (upd_light_zone n f p) = p_settings p" "p_topology (upd_light_zone n f p) = p_topology p"
  "w_lights (p_world (upd_light_zone n f p)) = w_lights (p_world p)"
  "w_motion_rules (p_world (upd_light_zone n f p)) = w_motion_rules (p_world p)"
  "w_motion_sensors (p_world (upd_light_zone n f p)) = w_motion_sensors (p_world p)"
  "light (p_world (upd_light_zone n f p)) m = light (p_world p) m"
  "light_zone (p_world (upd_light_zone n f p)) m = (if m = n then f (light_zone (p_world p) n) else light_zone (p_world p) m)"
  by (simp_all add: upd_light_zone_def put_light_zone_def light_def light_zone_def)

lemma motion_allowed_cong:
  "p_settings q = p_settings p \<Longrightarrow> p_topology q = p_topology p \<Longrightarrow> motion_allowed_for_light q = motion_allowed_for_light p"
  by (intro ext) (simp add: motion_allowed_for_light_def motion_enabled_def)

text \<open>Every claim is an allowed light that was off.\<close>

definition claims_ok :: "processor \<Rightarrow> device_idx btree_set \<Rightarrow> bool" where
  "claims_ok p c = (bs_ok c \<and> (\<forall>d \<in> set c. motion_allowed_for_light p d \<and>
     (\<exists>n. device_name (p_topology p) d = Some n \<and> \<not> light_is_on (light (p_world p) n))))"

definition claiming :: "processor \<Rightarrow> device_idx btree_set \<times> processor \<Rightarrow> bool" where
  "claiming p cq = (case cq of (c, q) \<Rightarrow>
     p_settings q = p_settings p \<and> p_topology q = p_topology p \<and> (\<forall>n. light_zone (p_world q) n = light_zone (p_world p) n) \<and>
     claims_ok p c \<and> (\<forall>n. light_is_on (light (p_world p) n) \<longrightarrow> light (p_world q) n = light (p_world p) n))"

lemma claim_light_step:
  assumes "claiming p (c, q)" and "mode \<noteq> OffOnly" and "claim_light mode sc ts l (c, q) = Some (c', q')"
  shows "claiming p (c', q') \<and> (c' = c \<or> c' = bs_insert (le_device l) c \<and> motion_allowed_for_light p (le_device l))"
proof -
  have a: "motion_allowed_for_light q = motion_allowed_for_light p"
    using assms(1) by (intro motion_allowed_cong) (simp_all add: claiming_def)
  show ?thesis
  proof (cases "motion_allowed_for_light p (le_device l)")
    case True
    then obtain n where n: "device_name (p_topology p) (le_device l) = Some n"
      using assms a by (auto simp: claim_light_def claiming_def split: Option.bind_splits)
    show ?thesis
      using assms n True a
      by (auto simp: claim_light_def claiming_def claims_ok_def Let_def split: if_splits)
  qed (use assms a in \<open>auto simp: claim_light_def\<close>)
qed

lemma length_bs_insert: "length (bs_insert x c) \<le> Suc (length c)"
  by (simp add: bs_insert_def insort_insert_key_def)

lemma claim_fold:
  assumes "claiming p (c, q)" and "mode \<noteq> OffOnly" and "foldM (claim_light mode sc ts) ls (c, q) = Some (c', q')"
  shows "claiming p (c', q')" and "length c' \<le> length c + length (filter (\<lambda>l. motion_allowed_for_light p (le_device l)) ls)"
proof -
  have "claiming p (c', q') \<and> length c' \<le> length c + length (filter (\<lambda>l. motion_allowed_for_light p (le_device l)) ls)"
    using assms(1,3)
  proof (induction ls arbitrary: c q)
    case (Cons l ls)
    obtain c1 q1 where 1: "claim_light mode sc ts l (c, q) = Some (c1, q1)"
      and 2: "foldM (claim_light mode sc ts) ls (c1, q1) = Some (c', q')"
      using Cons.prems(2) by (auto split: Option.bind_splits)
    note s = claim_light_step [OF Cons.prems(1) assms(2) 1]
    from Cons.IH [OF _ 2] s length_bs_insert [of "le_device l" c] show ?case by auto
  qed simp
  then show "claiming p (c', q')" and "length c' \<le> length c + length (filter (\<lambda>l. motion_allowed_for_light p (le_device l)) ls)"
    by simp_all
qed

lemma sun_times_of_only_cache:
  assumes "sun_times_of p = Some (sun, p1)"
  shows "p_world p1 = p_world p" "p_settings p1 = p_settings p" "p_topology p1 = p_topology p"
  using assms by (auto simp: sun_times_of_def Let_def split: option.splits Option.bind_splits if_splits)

text \<open>A session that does something went through these stages.\<close>

lemma start_motion_sessionE:
  assumes "start_motion_session r ill ts p = Some (e, p')"
  obtains (idle) "e = []" and "\<And>n. light (p_world p') n = light (p_world p) n"
    | (claim) slot sid mt sc p2 c p3 where
      "bt_get (mr_targets_by_slot r) slot = Some mt" and "scene_id sc = sid" and
      "claiming p ([], p2)" and "foldM (claim_light (mr_mode r) sc ts) (mt_lights mt) ([], p2) = Some (c, p3)"
      and "open_session r slot sc sid mt ts c p3 = Some (e, p')"
      and "\<And>g. mt_group mt = Some g \<Longrightarrow> mr_mode r \<noteq> OffOnly \<Longrightarrow>
         list_all (\<lambda>l. motion_allowed_for_light p (le_device l)) (mt_lights mt) \<Longrightarrow>
         \<exists>ro. room (p_topology p) g = Some ro \<and> \<not> zone_is_on (light_zone (p_world p) (room_name ro))"
proof (cases "activation_suppressed r ill ts p")
  case True
  with assms show thesis by (intro idle) (auto simp: start_motion_session_def)
next
  case False
  obtain sun p1 where p1: "sun_times_of p = Some (sun, p1)"
    using assms False by (auto simp: start_motion_session_def split: Option.bind_splits)
  note w = sun_times_of_only_cache [OF p1]
  have all: "motion_allowed_for_light p1 = motion_allowed_for_light p" using w by (intro motion_allowed_cong)
  obtain found where found: "slot_for_time (motion_slots p1 r) (ck_local_hour (p_clock p1)) (ck_local_minute (p_clock p1)) sun = Some found"
    using assms False p1 by (auto simp: start_motion_session_def split: Option.bind_splits)
  show thesis
  proof (cases found)
    case None
    with assms False p1 found w(1) show thesis by (intro idle) (auto simp: start_motion_session_def)
  next
    case (Some x)
    obtain slot sl where x: "x = (slot, sl)" by (cases x)
    obtain sid mt sc where m: "index (slot_scene_ids sl) 0 = Some sid" "bt_get (mr_targets_by_slot r) slot = Some mt"
      "find (\<lambda>s. scene_id s = sid) (ss_scenes (mr_scenes r)) = Some sc"
      using assms False p1 found Some x by (auto simp: start_motion_session_def split: Option.bind_splits)
    define lk where "lk = (case mt_group mt of
        Some g \<Rightarrow> if mr_mode r \<noteq> OffOnly \<and> list_all (\<lambda>l. motion_allowed_for_light p1 (le_device l)) (mt_lights mt)
          then do { ro \<leftarrow> room (p_topology p1) g;
                    Some (zone_is_on (light_zone (p_world p1) (room_name ro)), upd_light_zone (room_name ro) id p1) }
          else Some (False, p1)
      | None \<Rightarrow> Some (False, p1))"
    have run: "do { (lit, p2) \<leftarrow> lk; if lit then Some ([], p2)
        else do { (claimed, p3) \<leftarrow> foldM (claim_light (mr_mode r) sc ts) (mt_lights mt) ([], p2);
                  open_session r slot sc sid mt ts claimed p3 } } = Some (e, p')"
      using assms False p1 found Some x m by (simp add: start_motion_session_def lk_def)
    then obtain lit p2 where lk: "lk = Some (lit, p2)" by (auto split: Option.bind_splits)
    have p2: "light (p_world p2) n = light (p_world p) n" "light_zone (p_world p2) n = light_zone (p_world p) n"
      "p_settings p2 = p_settings p" "p_topology p2 = p_topology p" for n
      using lk w by (auto simp: lk_def split: option.splits if_splits Option.bind_splits)
    show thesis
    proof (cases lit)
      case True
      with run lk p2 show thesis by (intro idle) auto
    next
      case False
      then obtain c p3 where "foldM (claim_light (mr_mode r) sc ts) (mt_lights mt) ([], p2) = Some (c, p3)"
        "open_session r slot sc sid mt ts c p3 = Some (e, p')"
        using run lk by (auto split: Option.bind_splits)
      then show thesis
        using m lk False p2 w all
        by (intro claim [of slot mt sc sid p2 c p3])
          (auto simp: claiming_def claims_ok_def bs_ok_def find_Some_iff lk_def split: option.splits if_splits Option.bind_splits)
    qed
  qed
qed

lemma open_session_effects:
  assumes "mr_mode r \<noteq> OffOnly" and "open_session r slot sc sid mt ts c q = Some (e, q')"
  shows "(\<forall>n. light (p_world q') n = light (p_world q) n) \<and>
    (\<forall>x \<in> set e. (\<exists>l. x = PublishLightSet l (light_on sc) \<and> l \<in> set (mt_lights mt) \<and> le_device l \<in> set c) \<or>
       (\<exists>g. x = PublishGroupSet g (scene_recall sid) \<and> mt_group mt = Some g \<and> length c = length (mt_lights mt)))"
  using assms
  by (auto simp: open_session_def Let_def put_motion_rule_def light_def upd_world_def upd_light_zone_def put_light_zone_def
      split: if_splits option.splits Option.bind_splits)

text \<open>C22: Motion never takes over light that is already on. When presence opens a session of an on-off or
  on-only rule, every light that was on keeps its target, owner and reading; every light commanded on
  its own was off and motion is allowed for it; and a whole group is recalled only when its zone was off.\<close>

theorem motion_leaves_lit_lights_alone:
  assumes "mr_mode r \<noteq> OffOnly" and "start_motion_session r ill ts p = Some (e, p')"
  shows "(\<forall>n. light_is_on (light (p_world p) n) \<longrightarrow> light (p_world p') n = light (p_world p) n) \<and>
    (\<forall>l pay. PublishLightSet l pay \<in> set e \<longrightarrow> motion_allowed_for_light p (le_device l) \<and>
       (\<exists>n. device_name (p_topology p) (le_device l) = Some n \<and> \<not> light_is_on (light (p_world p) n))) \<and>
    (\<forall>g pay. PublishGroupSet g pay \<in> set e \<longrightarrow>
       (\<exists>ro. room (p_topology p) g = Some ro \<and> \<not> zone_is_on (light_zone (p_world p) (room_name ro))))"
  using assms(2)
proof (cases rule: start_motion_sessionE)
  case (claim slot sid mt sc p2 c p3)
  note c = claim_fold [OF claim(3) assms(1) claim(4)] and o = open_session_effects [OF assms(1) claim(5)]
  have all: "list_all (\<lambda>l. motion_allowed_for_light p (le_device l)) (mt_lights mt)" if "length c = length (mt_lights mt)"
  proof -
    have "length (filter (\<lambda>l. motion_allowed_for_light p (le_device l)) (mt_lights mt)) = length (mt_lights mt)"
      using c(2) that length_filter_le [of "\<lambda>l. motion_allowed_for_light p (le_device l)" "mt_lights mt"] by simp
    then show ?thesis by (metis filter_id_conv list_all_iff length_filter_less nat_neq_iff)
  qed
  show ?thesis
    using c(1) o claim(6) [OF _ assms(1) all] by (fastforce simp: claiming_def claims_ok_def)
qed simp

theorem motion_leaves_lit_lights_alone_witness:
  "\<exists>p'. start_motion_session house_rule None 5 home = Some ([PublishGroupSet 0 (scene_recall 1)], p') \<and>
     (\<exists>ro. room (p_topology home) 0 = Some ro \<and> \<not> zone_is_on (light_zone (p_world home) (room_name ro)))"
proof -
  have "map_option fst (start_motion_session house_rule None 5 home) = Some [PublishGroupSet 0 (scene_recall 1)]"
    by code_simp
  then obtain p' where s: "start_motion_session house_rule None 5 home = Some ([PublishGroupSet 0 (scene_recall 1)], p')"
    by auto
  from motion_leaves_lit_lights_alone [OF _ s] s show ?thesis by (auto simp: house_rule_def)
qed

end
