(* ===== verification/Lights.thy ===== *)
theory Lights
  imports Motion
begin

text \<open>
  Light zones (\<open>src/crates/mqtt-controller/src/logic/lights.rs\<close>, \<open>logic/switch_steps.rs\<close>): scene
  cycling and toggling, per-slot switch steps, brightness, the propagation of a room's state to its
  descendants, and the ingestion of group and light reports.
\<close>

definition TARGET_STALE_THRESHOLD :: duration where
  "TARGET_STALE_THRESHOLD = from_secs 10"

section \<open>Ownership and shared writes\<close>

definition off_only_session_live :: "processor \<Rightarrow> string \<Rightarrow> bool option" where
  "off_only_session_live p n =
     do { r \<leftarrow> room_by_name (p_topology p) n;
          Some (case r of None \<Rightarrow> False
            | Some ro \<Rightarrow> room_light_members ro \<noteq> [] \<and>
                list_all (\<lambda>l. light_has_off_only_claim p (le_device l)) (room_light_members ro)) }"

definition resolve_zone_owner :: "processor \<Rightarrow> string \<Rightarrow> owner \<Rightarrow> owner option" where
  "resolve_zone_owner p n default_owner =
     do { live \<leftarrow> off_only_session_live p n; Some (if live then Motion else default_owner) }"

definition propagate_zone :: "bool \<Rightarrow> instant \<Rightarrow> string \<Rightarrow> processor \<Rightarrow> processor option" where
  "propagate_zone on ts n p =
     do { ow \<leftarrow> resolve_zone_owner p n System;
          Some (upd_light_zone n (\<lambda>z.
            (if on
             then z\<lparr>lz_switch_cycle := None, lz_target := set_and_command (LZOn 0 0) ow ts (lz_target z),
                    lz_actual := actual_update ZoneOn ts (lz_actual z)\<rparr>
             else z\<lparr>lz_switch_cycle := None, lz_target := set_and_command LZOff ow ts (lz_target z),
                    lz_actual := actual_update ZoneOff ts (lz_actual z), lz_last_off_at := Some ts\<rparr>)
            \<lparr>lz_last_press_at := None\<rparr>) p) }"

definition propagate_to_descendants :: "string \<Rightarrow> bool \<Rightarrow> instant \<Rightarrow> processor \<Rightarrow> processor option" where
  "propagate_to_descendants ancestor on ts p =
     (case room_idx_of (p_topology p) ancestor of
        None \<Rightarrow> Some p
      | Some i \<Rightarrow>
          do { names \<leftarrow> mapM (\<lambda>j. map_option room_name (room (p_topology p) j)) (descendants_of (p_topology p) i);
               foldM (propagate_zone on ts) names p })"

definition write_after_on :: "string \<Rightarrow> instant \<Rightarrow> nat \<Rightarrow> u8 \<Rightarrow> owner \<Rightarrow> processor \<Rightarrow> processor option" where
  "write_after_on n ts cycle_idx sid ow p =
     do { r \<leftarrow> room_by_name (p_topology p) n;
          ro \<leftarrow> r;
          sc \<leftarrow> find (\<lambda>s. scene_id s = sid) (ss_scenes (room_scenes ro));
          p1 \<leftarrow> record_group_light_command n (LTOn (scene_brightness sc) (scene_color_temp sc)) ow ts p;
          Some (upd_light_zone n (\<lambda>z. z\<lparr>lz_target := set_and_command (LZOn sid cycle_idx) ow ts (lz_target z),
                                        lz_last_press_at := Some ts\<rparr>) p1) }"

definition write_after_off :: "string \<Rightarrow> instant \<Rightarrow> owner \<Rightarrow> processor \<Rightarrow> processor option" where
  "write_after_off n ts ow p =
     do { p1 \<leftarrow> record_group_light_command n LTOff ow ts p;
          Some (upd_light_zone n (\<lambda>z. z\<lparr>lz_target := set_and_command LZOff ow ts (lz_target z),
                                        lz_last_press_at := Some ts, lz_last_off_at := Some ts\<rparr>) p1) }"

definition publish_off :: "string \<Rightarrow> room_idx \<Rightarrow> f64 \<Rightarrow> instant \<Rightarrow> owner \<Rightarrow> handler" where
  "publish_off n i off_transition ts ow p =
     do { p1 \<leftarrow> write_after_off n ts ow p;
          p2 \<leftarrow> propagate_to_descendants n False ts p1;
          Some ([PublishGroupSet i (state_off off_transition)], p2) }"

definition execute_turn_off_room :: "string \<Rightarrow> instant \<Rightarrow> handler" where
  "execute_turn_off_room n ts p =
     (case room_idx_of (p_topology p) n of
        None \<Rightarrow> Some ([], p)
      | Some i \<Rightarrow>
          do { ro \<leftarrow> room (p_topology p) i;
               ow \<leftarrow> resolve_zone_owner p n User;
               publish_off n i (room_off_transition_seconds ro) ts ow p })"

text \<open>The common tail of the branches that switch a room on with a scene.\<close>

definition recall_scene :: "string \<Rightarrow> room_idx \<Rightarrow> nat \<Rightarrow> u8 \<Rightarrow> bool \<Rightarrow> instant \<Rightarrow> handler" where
  "recall_scene n i idx sid drop_cycle ts p =
     do { ow \<leftarrow> resolve_zone_owner p n User;
          p1 \<leftarrow> write_after_on n ts idx sid ow p;
          p2 \<leftarrow> propagate_to_descendants n True ts
                 (if drop_cycle then upd_light_zone n (\<lambda>z. z\<lparr>lz_switch_cycle := None\<rparr>) p1 else p1);
          Some ([PublishGroupSet i (scene_recall sid)], p2) }"

section \<open>Switch steps\<close>

datatype switch_action = Cycle | ToggleAction | ToggleCycle

definition active_switch_steps ::
  "string \<Rightarrow> processor \<Rightarrow> ((string \<times> resolved_switch_step list) option \<times> processor) option" where
  "active_switch_steps n p =
     do { r \<leftarrow> room_by_name (p_topology p) n;
          case r of
            None \<Rightarrow> Some (None, p)
          | Some ro \<Rightarrow>
              if room_switch_steps_of p ro = [] then Some (None, p)
              else
                do { (sun, p1) \<leftarrow> sun_times_of p;
                     found \<leftarrow> slot_for_time (room_slots p1 ro) (ck_local_hour (p_clock p1))
                                (ck_local_minute (p_clock p1)) sun;
                     Some (case found of
                             None \<Rightarrow> None
                           | Some (slot, _) \<Rightarrow> map_option (Pair slot) (bt_get (room_switch_steps_of p1 ro) slot), p1) } }"

definition step_member :: "resolved_switch_step \<Rightarrow> f64 \<Rightarrow> instant \<Rightarrow> light_endpoint \<Rightarrow> handler" where
  "step_member st off_transition ts l p =
     (let selected = (l \<in> set (st_lights st)) in
      do { p1 \<leftarrow> command_light
                   (if selected then LTOn (scene_brightness (st_scene st)) (scene_color_temp (st_scene st)) else LTOff)
                   (claim_owner p (le_device l) User) ts (le_device l) p;
           Some ([PublishLightSet l (if selected then light_on (st_scene st) else state_off off_transition)], p1) })"

definition switch_turns_off :: "switch_action \<Rightarrow> light_zone_entity \<Rightarrow> instant \<Rightarrow> processor \<Rightarrow> bool option" where
  "switch_turns_off action z ts p =
     (case action of
        Cycle \<Rightarrow> Some False
      | ToggleAction \<Rightarrow> Some True
      | ToggleCycle \<Rightarrow>
          (case lz_last_press_at z of
             None \<Rightarrow> Some True
           | Some prev \<Rightarrow> do { window \<leftarrow> from_secs_f64 (cycle_window_seconds (p_defaults p));
                             Some (\<not> duration_since ts prev < window) }))"

definition step_is_on :: "light_zone_entity \<Rightarrow> bool" where
  "step_is_on z = (zone_is_on z \<and> \<not> (is_actionable (lz_target z) \<and> tgt_value (lz_target z) = Some LZOff))"

definition next_step :: "light_zone_entity \<Rightarrow> string \<Rightarrow> nat \<Rightarrow> nat" where
  "next_step z slot len =
     (if step_is_on z \<and> target_is_on z
      then (case lz_switch_cycle z of
              None \<Rightarrow> 0
            | Some c \<Rightarrow> if cyc_slot c = slot then (cyc_step c + 1) mod len else 0)
      else 0)"

definition execute_switch_steps ::
  "string \<Rightarrow> switch_action \<Rightarrow> instant \<Rightarrow> processor \<Rightarrow> (eff list option \<times> processor) option" where
  "execute_switch_steps n action ts p =
     do { (active, p1) \<leftarrow> active_switch_steps n p;
          case active of
            None \<Rightarrow> Some (None, p1)
          | Some (slot, steps) \<Rightarrow>
              let z = light_zone (p_world p1) n in
              do { turn_off \<leftarrow> (if step_is_on z then switch_turns_off action z ts p1 else Some False);
                   if turn_off then do { (e, p2) \<leftarrow> execute_turn_off_room n ts p1; Some (Some e, p2) }
                   else
                     let idx = next_step z slot (length steps) in
                     do { st \<leftarrow> index steps idx;
                          r \<leftarrow> room_by_name (p_topology p1) n;
                          ro \<leftarrow> r;
                          (e, p2) \<leftarrow> for_each (step_member st (room_off_transition_seconds ro) ts)
                                      (room_light_members ro) p1;
                          ow \<leftarrow> resolve_zone_owner p2 n User;
                          Some (Some e, upd_light_zone n (\<lambda>z. z\<lparr>
                            lz_target := set_and_command (LZOn (scene_id (st_scene st)) idx) ow ts (lz_target z),
                            lz_switch_cycle := Some \<lparr>cyc_slot = slot, cyc_step = idx\<rparr>,
                            lz_last_press_at := Some ts\<rparr>) p2) } } }"

definition light_is_effectively_on :: "processor \<Rightarrow> light_endpoint \<Rightarrow> bool option" where
  "light_is_effectively_on p l =
     map_option (\<lambda>lo. case lo of
         None \<Rightarrow> False
       | Some e \<Rightarrow>
           if is_actionable (light_target e)
           then (case tgt_value (light_target e) of None \<Rightarrow> False | Some v \<Rightarrow> is_LTOn v)
           else (case act_value (light_actual e) of None \<Rightarrow> False | Some a \<Rightarrow> la_on a))
       (light_at p (le_device l))"

text \<open>The outer option is a panic, the inner one the function's own \<open>None\<close>.\<close>

definition switch_step_down_delta ::
  "processor \<Rightarrow> resolved_switch_step list \<Rightarrow> nat \<Rightarrow> light_endpoint list option option" where
  "switch_step_down_delta p steps i =
     (if i = 0 \<or> length steps \<le> i then Some None
      else
        let current = steps ! i; previous = steps ! (i - 1) in
        if scene_id (st_scene current) \<noteq> scene_id (st_scene previous) then Some None
        else if \<not> set (st_lights previous) \<subseteq> set (st_lights current) then Some None
        else
          do { all_on \<leftarrow> allM (light_is_effectively_on p) (st_lights previous);
               if \<not> all_on then Some None
               else
                 let removed = filter (\<lambda>l. l \<notin> set (st_lights previous)) (st_lights current) in
                 do { any_on \<leftarrow> anyM (light_is_effectively_on p) removed;
                      Some (if removed \<noteq> [] \<and> any_on then Some removed else None) } })"

definition step_down_candidate ::
  "processor \<Rightarrow> resolved_switch_step list \<Rightarrow> nat option \<Rightarrow> nat option option" where
  "step_down_candidate p steps current =
     do { here \<leftarrow> (case current of
              None \<Rightarrow> Some None
            | Some i \<Rightarrow> do { d \<leftarrow> switch_step_down_delta p steps i; Some (if d \<noteq> None then Some i else None) });
          case here of
            Some i \<Rightarrow> Some (Some i)
          | None \<Rightarrow> findM (\<lambda>i. map_option (\<lambda>d. d \<noteq> None) (switch_step_down_delta p steps i)) [1..<length steps] }"

definition remove_light :: "f64 \<Rightarrow> instant \<Rightarrow> light_endpoint \<Rightarrow> handler" where
  "remove_light off_transition ts l p =
     do { p1 \<leftarrow> command_light LTOff (claim_owner p (le_device l) User) ts (le_device l) p;
          Some ([PublishLightSet l (state_off off_transition)], p1) }"

definition step_down_zone ::
  "bool \<Rightarrow> string \<Rightarrow> nat \<Rightarrow> u8 \<Rightarrow> owner \<Rightarrow> instant \<Rightarrow> light_zone_entity \<Rightarrow> light_zone_entity option" where
  "step_down_zone follows_cursor slot prev_idx prev_scene ow ts z =
     (if follows_cursor then
        Some (z\<lparr>lz_target := set_and_command (LZOn prev_scene prev_idx) ow ts (lz_target z),
                lz_switch_cycle := Some \<lparr>cyc_slot = slot, cyc_step = prev_idx\<rparr>, lz_last_press_at := Some ts\<rparr>)
      else if target_is_on z then
        Some (z\<lparr>lz_target := reassign_owner ow ts (lz_target z), lz_switch_cycle := None,
                lz_last_press_at := Some ts\<rparr>)
      else
        do { t \<leftarrow> adopt (LZOn 0 0) ow ts (lz_target z);
             Some (z\<lparr>lz_target := t, lz_switch_cycle := None, lz_last_press_at := Some ts\<rparr>) })"

definition execute_scene_step_down :: "string \<Rightarrow> instant \<Rightarrow> handler" where
  "execute_scene_step_down n ts p =
     do { (active, p1) \<leftarrow> active_switch_steps n p;
          case active of
            None \<Rightarrow> execute_turn_off_room n ts p1
          | Some (slot, steps) \<Rightarrow>
              let zone = bt_get (w_light_zones (p_world p1)) n;
                  current = (case Option.bind zone lz_switch_cycle of
                               None \<Rightarrow> None | Some c \<Rightarrow> if cyc_slot c = slot then Some (cyc_step c) else None)
              in do { cand \<leftarrow> step_down_candidate p1 steps current;
                      case cand of
                        None \<Rightarrow> execute_turn_off_room n ts p1
                      | Some i \<Rightarrow>
                          do { previous \<leftarrow> index steps (i - 1);
                               d \<leftarrow> switch_step_down_delta p1 steps i;
                               removed \<leftarrow> d;
                               let follows_cursor = (current = Some i);
                               if \<not> follows_cursor \<and>
                                  (case zone of None \<Rightarrow> False
                                   | Some z \<Rightarrow> is_actionable (lz_target z) \<and> \<not> target_is_on z)
                               then execute_turn_off_room n ts p1
                               else
                                 do { r \<leftarrow> room_by_name (p_topology p1) n;
                                      ro \<leftarrow> r;
                                      (e, p2) \<leftarrow> for_each (remove_light (room_off_transition_seconds ro) ts) removed p1;
                                      ow \<leftarrow> resolve_zone_owner p2 n User;
                                      z \<leftarrow> step_down_zone follows_cursor slot (i - 1) (scene_id (st_scene previous)) ow ts
                                             (light_zone (p_world p2) n);
                                      Some (e, upd_light_zone n (\<lambda>_. z) p2) } } } }"

text \<open>\<open>self.room_switch_steps(room)[&cycle.slot][cycle.step]\<close> of a zone inside a switch cycle.\<close>

definition cycle_step :: "processor \<Rightarrow> string \<Rightarrow> switch_cycle \<Rightarrow> (resolved_room \<times> resolved_switch_step) option" where
  "cycle_step p n c =
     do { r \<leftarrow> room_by_name (p_topology p) n;
          ro \<leftarrow> r;
          steps \<leftarrow> bt_get (room_switch_steps_of p ro) (cyc_slot c);
          st \<leftarrow> index steps (cyc_step c);
          Some (ro, st) }"

definition member_confirmed :: "processor \<Rightarrow> resolved_switch_step \<Rightarrow> light_endpoint \<Rightarrow> bool option" where
  "member_confirmed p st l =
     do { lo \<leftarrow> light_at p (le_device l);
          case lo of
            None \<Rightarrow> Some False
          | Some e \<Rightarrow>
              (case tgt_value (light_target e) of
                 None \<Rightarrow> Some False
               | Some expected \<Rightarrow>
                   do { commanded \<leftarrow> tgt_since (light_target e);
                        Some (is_LTOn expected = (l \<in> set (st_lights st)) \<and>
                          (case act_value (light_actual e) of None \<Rightarrow> False
                           | Some a \<Rightarrow> light_target_matches expected a) \<and>
                          (case act_since (light_actual e) of None \<Rightarrow> False | Some s \<Rightarrow> s \<ge> commanded)) }) }"

definition switch_step_is_confirmed :: "processor \<Rightarrow> string \<Rightarrow> bool option" where
  "switch_step_is_confirmed p n =
     (case Option.bind (bt_get (w_light_zones (p_world p)) n) lz_switch_cycle of
        None \<Rightarrow> Some True
      | Some c \<Rightarrow> do { (ro, st) \<leftarrow> cycle_step p n c; allM (member_confirmed p st) (room_light_members ro) })"

definition member_is_off :: "processor \<Rightarrow> instant \<Rightarrow> light_endpoint \<Rightarrow> bool option" where
  "member_is_off p since l =
     map_option (\<lambda>lo. case lo of
         None \<Rightarrow> False
       | Some e \<Rightarrow> (case act_value (light_actual e) of None \<Rightarrow> False | Some a \<Rightarrow> \<not> la_on a) \<and>
                   (case act_since (light_actual e) of None \<Rightarrow> False | Some s \<Rightarrow> s \<ge> since))
       (light_at p (le_device l))"

definition switch_step_is_off :: "processor \<Rightarrow> string \<Rightarrow> bool option" where
  "switch_step_is_off p n =
     (case bt_get (w_light_zones (p_world p)) n of
        None \<Rightarrow> Some False
      | Some z \<Rightarrow>
          (case lz_switch_cycle z of
             None \<Rightarrow> Some False
           | Some c \<Rightarrow> do { (ro, st) \<leftarrow> cycle_step p n c;
                          since \<leftarrow> tgt_since (lz_target z);
                          allM (member_is_off p since) (st_lights st) }))"

definition brightness_member :: "payload \<Rightarrow> instant \<Rightarrow> light_endpoint \<Rightarrow> handler" where
  "brightness_member pay ts l p =
     do { p1 \<leftarrow> command_light (LTOn None None) (claim_owner p (le_device l) User) ts (le_device l) p;
          Some ([PublishLightSet l pay], p1) }"

definition execute_switch_brightness ::
  "string \<Rightarrow> payload \<Rightarrow> instant \<Rightarrow> processor \<Rightarrow> (eff list option \<times> processor) option" where
  "execute_switch_brightness n pay ts p =
     (case Option.bind (bt_get (w_light_zones (p_world p)) n) lz_switch_cycle of
        None \<Rightarrow> Some (None, p)
      | Some c \<Rightarrow>
          do { (ro, st) \<leftarrow> cycle_step p n c;
               (e, p1) \<leftarrow> for_each (brightness_member pay ts) (st_lights st) p;
               ow \<leftarrow> resolve_zone_owner p1 n User;
               Some (Some e, upd_light_zone n (\<lambda>z. z\<lparr>lz_target := reassign_owner ow ts (lz_target z)\<rparr>) p1) })"

section \<open>Scenes\<close>

definition next_scene_index :: "light_zone_entity \<Rightarrow> u8 list \<Rightarrow> nat" where
  "next_scene_index z ids =
     (if \<not> zone_is_on z then 0
      else if lz_switch_cycle z \<noteq> None then
        (case (case tgt_value (lz_target z) of Some (LZOn s c) \<Rightarrow> position (\<lambda>i. i = s) ids | _ \<Rightarrow> None) of
           None \<Rightarrow> 0 | Some i \<Rightarrow> (i + 1) mod length ids)
      else (zone_cycle_idx z + 1) mod length ids)"

definition execute_group_scene_cycle :: "string \<Rightarrow> instant \<Rightarrow> handler" where
  "execute_group_scene_cycle n ts p =
     do { (ids, p1) \<leftarrow> scenes_for_room n p;
          case room_idx_of (p_topology p1) n of
            None \<Rightarrow> Some ([], p1)
          | Some i \<Rightarrow>
              do { ro \<leftarrow> room (p_topology p1) i;
                   if ids = [] then Some ([], p1)
                   else
                     let idx = next_scene_index (light_zone (p_world p1) n) ids in
                     do { sid \<leftarrow> index ids idx; recall_scene n i idx sid True ts p1 } } }"

text \<open>Try the switch steps first; fall through to the whole-group behaviour.\<close>

definition or_else :: "(processor \<Rightarrow> (eff list option \<times> processor) option) \<Rightarrow> handler \<Rightarrow> handler" where
  "or_else f g p = do { (r, p1) \<leftarrow> f p; case r of Some e \<Rightarrow> Some (e, p1) | None \<Rightarrow> g p1 }"

definition execute_scene_cycle :: "string \<Rightarrow> instant \<Rightarrow> handler" where
  "execute_scene_cycle n ts = or_else (execute_switch_steps n Cycle ts) (execute_group_scene_cycle n ts)"

definition group_scene_toggle :: "string \<Rightarrow> instant \<Rightarrow> handler" where
  "group_scene_toggle n ts p =
     do { (ids, p1) \<leftarrow> scenes_for_room n p;
          case room_idx_of (p_topology p1) n of
            None \<Rightarrow> Some ([], p1)
          | Some i \<Rightarrow>
              do { ro \<leftarrow> room (p_topology p1) i;
                   case ids of
                     [] \<Rightarrow> Some ([], p1)
                   | sid # _ \<Rightarrow>
                       if \<not> zone_is_on (light_zone (p_world p1) n) then recall_scene n i 0 sid False ts p1
                       else do { ow \<leftarrow> resolve_zone_owner p1 n User;
                                 publish_off n i (room_off_transition_seconds ro) ts ow p1 } } }"

definition execute_scene_toggle :: "string \<Rightarrow> instant \<Rightarrow> handler" where
  "execute_scene_toggle n ts = or_else (execute_switch_steps n ToggleAction ts) (group_scene_toggle n ts)"

definition group_scene_toggle_cycle :: "string \<Rightarrow> instant \<Rightarrow> handler" where
  "group_scene_toggle_cycle n ts p =
     do { (ids, p1) \<leftarrow> scenes_for_room n p;
          case room_idx_of (p_topology p1) n of
            None \<Rightarrow> Some ([], p1)
          | Some i \<Rightarrow>
              do { ro \<leftarrow> room (p_topology p1) i;
                   case ids of
                     [] \<Rightarrow> Some ([], p1)
                   | first # _ \<Rightarrow>
                       do { cycle_window \<leftarrow> from_secs_f64 (cycle_window_seconds (p_defaults p1));
                            let z = light_zone (p_world p1) n;
                            let within_window = (case lz_last_press_at z of None \<Rightarrow> False
                                                 | Some prev \<Rightarrow> duration_since ts prev < cycle_window);
                            if \<not> zone_is_on z then recall_scene n i 0 first False ts p1
                            else if within_window then
                              let idx = (if lz_switch_cycle z \<noteq> None then 0
                                         else (zone_cycle_idx z + 1) mod length ids) in
                              do { sid \<leftarrow> index ids idx; recall_scene n i idx sid False ts p1 }
                            else do { ow \<leftarrow> resolve_zone_owner p1 n User;
                                      publish_off n i (room_off_transition_seconds ro) ts ow p1 } } } }"

definition execute_scene_toggle_cycle :: "string \<Rightarrow> instant \<Rightarrow> handler" where
  "execute_scene_toggle_cycle n ts =
     or_else (execute_switch_steps n ToggleCycle ts) (group_scene_toggle_cycle n ts)"

section \<open>Brightness\<close>

definition take_over_light :: "instant \<Rightarrow> light_endpoint \<Rightarrow> processor \<Rightarrow> processor option" where
  "take_over_light ts l p =
     (let ow = claim_owner p (le_device l) User in
      do { n \<leftarrow> device_name (p_topology p) (le_device l);
           Some (upd_light n (\<lambda>e. e\<lparr>light_target :=
             (if light_is_on e then set_and_command (LTOn None None) ow ts (light_target e)
              else reassign_owner ow ts (light_target e))\<rparr>) p) })"

definition take_over_group_brightness :: "string \<Rightarrow> instant \<Rightarrow> processor \<Rightarrow> processor option" where
  "take_over_group_brightness n ts p =
     do { r \<leftarrow> room_by_name (p_topology p) n;
          ro \<leftarrow> r;
          p1 \<leftarrow> foldM (take_over_light ts) (room_light_members ro) p;
          ow \<leftarrow> resolve_zone_owner p1 n User;
          Some (upd_light_zone n (\<lambda>z. z\<lparr>lz_target := reassign_owner ow ts (lz_target z)\<rparr>) p1) }"

definition group_brightness :: "string \<Rightarrow> payload \<Rightarrow> instant \<Rightarrow> handler" where
  "group_brightness n pay ts p =
     (case room_idx_of (p_topology p) n of
        None \<Rightarrow> Some ([], p)
      | Some i \<Rightarrow> do { p1 \<leftarrow> take_over_group_brightness n ts p; Some ([PublishGroupSet i pay], p1) })"

definition execute_brightness_step :: "string \<Rightarrow> i16 \<Rightarrow> f64 \<Rightarrow> instant \<Rightarrow> handler" where
  "execute_brightness_step n step transition ts =
     or_else (execute_switch_brightness n (brightness_step step transition) ts)
             (group_brightness n (brightness_step step transition) ts)"

definition execute_brightness_move :: "string \<Rightarrow> i16 \<Rightarrow> instant \<Rightarrow> handler" where
  "execute_brightness_move n rate ts =
     or_else (execute_switch_brightness n (brightness_move rate) ts) (group_brightness n (brightness_move rate) ts)"

definition execute_brightness_stop :: "string \<Rightarrow> instant \<Rightarrow> handler" where
  "execute_brightness_stop n ts =
     or_else (execute_switch_brightness n (brightness_move 0) ts) (group_brightness n (brightness_move 0) ts)"

section \<open>Reports\<close>

definition observed_light ::
  "bool \<Rightarrow> bool \<Rightarrow> u8 option \<Rightarrow> u16 option \<Rightarrow> (f64 \<times> f64) option \<Rightarrow> instant \<Rightarrow> light_entity \<Rightarrow> light_entity option" where
  "observed_light preserve_motion on b c xy ts e =
     (let t1 = snd (target_mark_stale_if_old ts TARGET_STALE_THRESHOLD (light_target e));
          a = \<lparr>la_on = on, la_brightness = b, la_color_temp = c, la_color_xy = xy\<rparr>
      in do { t2 \<leftarrow> (if \<not> on \<and> (case tgt_value t1 of None \<Rightarrow> False | Some v \<Rightarrow> is_LTOn v) \<and> \<not> is_actionable t1
                     then adopt LTOff (if preserve_motion then Motion else System) ts t1 else Some t1);
              t3 \<leftarrow> (if (case tgt_value t2 of None \<Rightarrow> False | Some v \<Rightarrow> light_target_matches v a) \<and>
                        (tgt_phase t2 = Commanded \<or> tgt_phase t2 = StaleTarget)
                     then confirm ts t2 else Some t2);
              Some (e\<lparr>light_target := t3, light_actual := actual_update a ts (light_actual e)\<rparr>) })"

definition record_light_state ::
  "string \<Rightarrow> bool \<Rightarrow> u8 option \<Rightarrow> u16 option \<Rightarrow> (f64 \<times> f64) option \<Rightarrow> instant \<Rightarrow> processor \<Rightarrow> processor option" where
  "record_light_state device on b c xy ts p =
     (let preserve_motion = (case device_idx_of (p_topology p) device of
                               None \<Rightarrow> False | Some i \<Rightarrow> light_has_off_only_claim p i)
      in do { e \<leftarrow> observed_light preserve_motion on b c xy ts (light (p_world p) device);
              Some (upd_light device (\<lambda>_. e) p) })"

text \<open>One room's evidence: the newest ON, the oldest OFF, and whether every member is known.\<close>

definition member_reading ::
  "processor \<Rightarrow> light_endpoint \<Rightarrow> instant option \<times> instant option \<times> bool \<Rightarrow>
   (instant option \<times> instant option \<times> bool) option" where
  "member_reading p l acc =
     (case acc of (newest_on, oldest_off, all_known) \<Rightarrow>
        do { lo \<leftarrow> light_at p (le_device l);
             case Option.bind lo (\<lambda>e. map_option (\<lambda>v. (v, light_actual e)) (act_value (light_actual e))) of
               None \<Rightarrow> Some (newest_on, oldest_off, False)
             | Some (v, a) \<Rightarrow>
                 do { since \<leftarrow> act_since a;
                      Some (if la_on v
                            then (Some (case newest_on of None \<Rightarrow> since | Some t \<Rightarrow> max t since), oldest_off, all_known)
                            else (newest_on, Some (case oldest_off of None \<Rightarrow> since | Some t \<Rightarrow> min t since), all_known)) } })"

definition zone_observation :: "processor \<Rightarrow> resolved_room \<Rightarrow> (light_zone_actual \<times> instant) option option" where
  "zone_observation p ro =
     do { (newest_on, oldest_off, all_known) \<leftarrow> foldM (member_reading p) (room_light_members ro) (None, None, True);
          Some (case newest_on of
              Some since \<Rightarrow> Some (ZoneOn, since)
            | None \<Rightarrow> (case oldest_off of
                  Some since \<Rightarrow> if all_known then Some (ZoneOff, since) else None
                | None \<Rightarrow> None)) }"

definition observed_zone ::
  "(light_zone_actual \<times> instant) option \<Rightarrow> bool \<Rightarrow> bool \<Rightarrow> owner \<Rightarrow> instant \<Rightarrow> light_zone_entity \<Rightarrow>
   light_zone_entity option" where
  "observed_zone observed step_confirmed step_is_off ow ts z =
     (case observed of
        None \<Rightarrow> Some (z\<lparr>lz_actual := actual_new\<rparr>)
      | Some (actual, since) \<Rightarrow>
          let was_on = actual_is_on z;
              z1 = z\<lparr>lz_actual := actual_update actual since (lz_actual z),
                     lz_target := snd (target_mark_stale_if_old ts TARGET_STALE_THRESHOLD (lz_target z))\<rparr>;
              follows_target = (case tgt_since (lz_target z1) of None \<Rightarrow> False | Some commanded \<Rightarrow> since \<ge> commanded)
          in do { z2 \<leftarrow> (if actual = ZoneOff then
                           let z1a = (if was_on then z1\<lparr>lz_last_off_at := Some ts\<rparr> else z1) in
                           (if target_is_on z1a \<and> \<not> is_actionable (lz_target z1a) \<and> (follows_target \<or> step_is_off)
                            then do { t \<leftarrow> adopt LZOff ow ts (lz_target z1a);
                                      Some (z1a\<lparr>lz_target := t, lz_switch_cycle := None\<rparr>) }
                            else Some z1a)
                         else Some z1);
                  let matches = (case tgt_value (lz_target z2) of
                                   None \<Rightarrow> False
                                 | Some LZOff \<Rightarrow> actual = ZoneOff
                                 | Some (LZOn s c) \<Rightarrow> actual = ZoneOn);
                  let current = (if lz_switch_cycle z2 \<noteq> None then step_confirmed else follows_target);
                  if matches \<and> current \<and> (tgt_phase (lz_target z2) = Commanded \<or> tgt_phase (lz_target z2) = StaleTarget)
                  then do { t \<leftarrow> confirm ts (lz_target z2); Some (z2\<lparr>lz_target := t\<rparr>) }
                  else Some z2 })"

definition light_room :: "instant \<Rightarrow> room_idx \<Rightarrow> processor \<Rightarrow> processor option" where
  "light_room ts i p =
     do { ro \<leftarrow> room (p_topology p) i;
          observed \<leftarrow> zone_observation p ro;
          step_confirmed \<leftarrow> switch_step_is_confirmed p (room_name ro);
          step_off \<leftarrow> switch_step_is_off p (room_name ro);
          ow \<leftarrow> resolve_zone_owner p (room_name ro) System;
          z \<leftarrow> observed_zone observed step_confirmed step_off ow ts (light_zone (p_world p) (room_name ro));
          Some (upd_light_zone (room_name ro) (\<lambda>_. z) p) }"

definition handle_light_state ::
  "string \<Rightarrow> bool \<Rightarrow> u8 option \<Rightarrow> u16 option \<Rightarrow> (f64 \<times> f64) option \<Rightarrow> instant \<Rightarrow> processor \<Rightarrow> processor option" where
  "handle_light_state device on b c xy ts p =
     do { p1 \<leftarrow> record_light_state device on b c xy ts p;
          case device_idx_of (p_topology p1) device of
            None \<Rightarrow> Some p1
          | Some d \<Rightarrow> foldM (light_room ts) (light_rooms (p_topology p1) d) p1 }"

definition group_off_descendant :: "instant \<Rightarrow> string \<Rightarrow> processor \<Rightarrow> processor option" where
  "group_off_descendant ts n p =
     do { ow \<leftarrow> resolve_zone_owner p n System;
          let z = (light_zone (p_world p) n);
          let z1 = z\<lparr>lz_actual := actual_update ZoneOff ts (lz_actual z), lz_switch_cycle := None\<rparr>;
          z2 \<leftarrow> (if target_is_on z1
                 then do { t \<leftarrow> confirm ts (set_and_command LZOff ow ts (lz_target z1));
                           Some (z1\<lparr>lz_target := t, lz_last_off_at := Some ts\<rparr>) }
                 else Some z1);
          Some (upd_light_zone n (\<lambda>_. z2) p) }"

definition group_off_member :: "instant \<Rightarrow> light_endpoint \<Rightarrow> processor \<Rightarrow> processor option" where
  "group_off_member ts l p =
     do { n \<leftarrow> device_name (p_topology p) (le_device l);
          let previous = Option.bind (bt_get (w_lights (p_world p)) n) (\<lambda>e. act_value (light_actual e));
          record_light_state n False (Option.bind previous la_brightness) (Option.bind previous la_color_temp)
            (Option.bind previous la_color_xy) ts p }"

text \<open>The zone after the echo, and whether the handler returns early (a step still being applied).\<close>

definition group_echo :: "bool \<Rightarrow> instant \<Rightarrow> light_zone_entity \<Rightarrow> (bool \<times> light_zone_entity) option" where
  "group_echo on ts z =
     (let z1 = z\<lparr>lz_actual := actual_update (if on then ZoneOn else ZoneOff) ts (lz_actual z)\<rparr>;
          z2 = (if lz_switch_cycle z1 \<noteq> None
                then z1\<lparr>lz_target := snd (target_mark_stale_if_old ts TARGET_STALE_THRESHOLD (lz_target z1))\<rparr>
                else z1)
      in if lz_switch_cycle z2 \<noteq> None \<and> \<not> on \<and> target_is_on z2 \<and> is_actionable (lz_target z2)
         then Some (True, z2)
         else if on \<and> lz_switch_cycle z2 = None \<and>
                 (tgt_phase (lz_target z2) = Commanded \<or> tgt_phase (lz_target z2) = StaleTarget) \<and> target_is_on z2
         then do { t \<leftarrow> confirm ts (lz_target z2); Some (False, z2\<lparr>lz_target := t\<rparr>) }
         else Some (False, z2))"

definition group_went_off :: "resolved_room \<Rightarrow> instant \<Rightarrow> processor \<Rightarrow> processor option" where
  "group_went_off ro ts p =
     do { p1 \<leftarrow> foldM (group_off_descendant ts)
                 (map room_name (filter (\<lambda>other. room_name other \<noteq> room_name ro \<and>
                    room_light_members other \<noteq> [] \<and>
                    list_all (\<lambda>l. l \<in> set (room_light_members ro)) (room_light_members other))
                    (t_rooms (p_topology p)))) p;
          p2 \<leftarrow> foldM (group_off_member ts) (room_light_members ro) p1;
          live \<leftarrow> off_only_session_live p2 (room_name ro);
          let z = light_zone (p_world p2) (room_name ro);
          t \<leftarrow> confirm ts (set_and_command LZOff (if live then Motion else System) ts (lz_target z));
          Some (upd_light_zone (room_name ro) (\<lambda>_. z\<lparr>lz_target := t, lz_switch_cycle := None,
                                                      lz_last_off_at := Some ts\<rparr>) p2) }"

definition handle_group_state :: "string \<Rightarrow> bool \<Rightarrow> instant \<Rightarrow> handler" where
  "handle_group_state grp on ts p =
     (case room_idx_by_group (p_topology p) grp of
        None \<Rightarrow> Some ([], p)
      | Some i \<Rightarrow>
          do { ro \<leftarrow> room (p_topology p) i;
               let z = light_zone (p_world p) (room_name ro);
               (early, z1) \<leftarrow> group_echo on ts z;
               let p1 = upd_light_zone (room_name ro) (\<lambda>_. z1) p;
               if early \<or> zone_is_on z = on \<or> on then Some ([], p1)
               else do { p2 \<leftarrow> group_went_off ro ts p1; Some ([], p2) } })"

section \<open>No light handler panics\<close>

lemma safeI: "(\<And>p. proc_ok p \<Longrightarrow> safe_at p (h p)) \<Longrightarrow> safe h"
  by (simp add: safe_def)

lemma stays_topology_ok: "proc_ok p \<Longrightarrow> stays p q \<Longrightarrow> topology_ok (p_topology p) \<and> p_topology q = p_topology p"
  by (simp add: proc_ok_topology stays_topology)

lemma live_total: "topology_ok (p_topology q) \<Longrightarrow> \<exists>b. off_only_session_live q n = Some b"
  by (rule room_by_nameE [of "p_topology q" n]) (auto simp: off_only_session_live_def)

lemma owner_total: "topology_ok (p_topology q) \<Longrightarrow> \<exists>ow'. resolve_zone_owner q n ow = Some ow'"
  using live_total [of q n] by (auto simp: resolve_zone_owner_def)

lemma zone_update_more [simp]:
  "zone_update_ok (\<lambda>z. z\<lparr>lz_target := set_and_command v ow ts (lz_target z), lz_last_press_at := a\<rparr>)"
  "zone_update_ok (\<lambda>z. z\<lparr>lz_target := set_and_command v ow ts (lz_target z), lz_last_press_at := a, lz_last_off_at := b\<rparr>)"
  "zone_update_ok (\<lambda>z. z\<lparr>lz_switch_cycle := None, lz_target := set_and_command v ow ts (lz_target z),
     lz_actual := actual_update x ts (lz_actual z), lz_last_press_at := a\<rparr>)"
  "zone_update_ok (\<lambda>z. z\<lparr>lz_switch_cycle := None, lz_target := set_and_command v ow ts (lz_target z),
     lz_actual := actual_update x ts (lz_actual z), lz_last_off_at := b, lz_last_press_at := a\<rparr>)"
  by (auto simp: zone_update_ok_def light_zone_ok_def)

lemma propagate_zone_safe:
  assumes "proc_ok p" and "stays p q"
  shows "wp (propagate_zone on ts n q) (stays p)"
proof -
  obtain ow where "resolve_zone_owner q n System = Some ow"
    using owner_total [of q n System] stays_topology_ok [OF assms] by auto
  then show ?thesis using assms(2) by (cases on) (simp_all add: propagate_zone_def stays_upd_light_zone)
qed

lemma propagate_to_descendants_safe:
  assumes "proc_ok p" and q: "stays p q"
  shows "wp (propagate_to_descendants n on ts q) (stays p)"
proof (cases "room_idx_of (p_topology q) n")
  case (Some i)
  have t: "topology_ok (p_topology q)" using stays_topology_ok [OF assms] by simp
  have "mapM (\<lambda>j. map_option room_name (room (p_topology q) j)) (descendants_of (p_topology q) i) =
      Some (map (\<lambda>j. room_name (t_rooms (p_topology q) ! j)) (descendants_of (p_topology q) i))"
    using descendants_bound [OF t] by (intro mapM_Some_map) (simp add: room_def index_def)
  moreover have "wp (foldM (propagate_zone on ts) ns q) (stays p)" for ns
    by (rule wp_foldM) (use assms in \<open>auto intro: propagate_zone_safe\<close>)
  ultimately show ?thesis using Some by (simp add: propagate_to_descendants_def)
qed (use q in \<open>simp add: propagate_to_descendants_def\<close>)

lemma write_after_off_safe:
  assumes "proc_ok p" and "stays p q"
  shows "wp (write_after_off n ts ow q) (stays p)"
  using record_group_light_command_safe [OF assms, of n LTOff ow ts]
  by (auto simp: write_after_off_def stays_upd_light_zone elim: wp_mono)

lemma write_after_on_safe:
  assumes "proc_ok p" and q: "stays p q" and i: "room_idx_of (p_topology p) n = Some i"
    and sid: "scene_known (room_scenes (t_rooms (p_topology p) ! i)) sid"
  shows "wp (write_after_on n ts idx sid ow q) (stays p)"
proof -
  obtain sc where "find (\<lambda>s. scene_id s = sid) (ss_scenes (room_scenes (t_rooms (p_topology p) ! i))) = Some sc"
    using sid by (rule scene_known_find)
  moreover have "room_by_name (p_topology q) n = Some (Some (t_rooms (p_topology p) ! i))"
    using i room_idx_of_bound [OF proc_ok_topology [OF assms(1)] i] stays_topology [OF q]
    by (simp add: room_by_name_def room_def index_def)
  ultimately show ?thesis
    using record_group_light_command_safe [OF assms(1) q, of n "LTOn (scene_brightness sc) (scene_color_temp sc)" ow ts]
    by (auto simp: write_after_on_def stays_upd_light_zone elim: wp_mono)
qed

lemma publish_off_safe:
  assumes "proc_ok p" and "stays p q" and "i < length (t_rooms (p_topology p))"
  shows "safe_at p (publish_off n i tr ts ow q)"
proof -
  obtain q1 where 1: "write_after_off n ts ow q = Some q1" "stays p q1"
    using write_after_off_safe [OF assms(1,2), of n ts ow] by (auto simp: wp_iff)
  show ?thesis
    using propagate_to_descendants_safe [OF assms(1) 1(2), of n False ts] 1(1) assms(3)
    by (auto simp: safe_at_def publish_off_def elim: wp_mono)
qed

lemma execute_turn_off_room_safe:
  assumes "proc_ok p" and q: "stays p q"
  shows "safe_at p (execute_turn_off_room n ts q)"
proof (cases "room_idx_of (p_topology q) n")
  case (Some i)
  have t: "topology_ok (p_topology q)" "p_topology q = p_topology p" using stays_topology_ok [OF assms] by simp_all
  have i: "i < length (t_rooms (p_topology p))" using room_idx_of_bound [OF t(1) Some] t(2) by simp
  obtain ow where "resolve_zone_owner q n User = Some ow" using owner_total [OF t(1)] by blast
  then show ?thesis
    using Some i t publish_off_safe [OF assms i]
    by (simp add: execute_turn_off_room_def room_def index_def)
qed (use q in \<open>simp add: execute_turn_off_room_def safe_at_def\<close>)

lemma recall_scene_safe:
  assumes "proc_ok p" and q: "stays p q" and i: "room_idx_of (p_topology p) n = Some i"
    and sid: "scene_known (room_scenes (t_rooms (p_topology p) ! i)) sid"
  shows "safe_at p (recall_scene n i idx sid dc ts q)"
proof -
  obtain ow where ow: "resolve_zone_owner q n User = Some ow"
    using owner_total [of q n User] stays_topology_ok [OF assms(1,2)] by auto
  obtain q1 where 1: "write_after_on n ts idx sid ow q = Some q1" "stays p q1"
    using write_after_on_safe [OF assms, of ts idx ow] by (auto simp: wp_iff)
  let ?q = "if dc then upd_light_zone n (\<lambda>z. z\<lparr>lz_switch_cycle := None\<rparr>) q1 else q1"
  have "stays p ?q" using 1(2) by (simp add: stays_upd_light_zone)
  then show ?thesis
    using propagate_to_descendants_safe [OF assms(1), of ?q n True ts] ow 1(1)
      room_idx_of_bound [OF proc_ok_topology [OF assms(1)] i]
    by (auto simp: safe_at_def recall_scene_def elim: wp_mono)
qed

text \<open>Switch steps.\<close>

lemma room_at:
  assumes "proc_ok p" and "room_idx_of (p_topology p) n = Some i"
  shows "i < length (t_rooms (p_topology p))" and "room_ok (p_topology p) (t_rooms (p_topology p) ! i)"
    and "room_slots_ok p (t_rooms (p_topology p) ! i)"
    and "room_by_name (p_topology p) n = Some (Some (t_rooms (p_topology p) ! i))"
    and "room (p_topology p) i = Some (t_rooms (p_topology p) ! i)"
proof -
  note t = proc_ok_topology [OF assms(1)]
  show i: "i < length (t_rooms (p_topology p))" using room_idx_of_bound [OF t assms(2)] .
  show "room_ok (p_topology p) (t_rooms (p_topology p) ! i)" using topology_ok_room [OF t i] .
  show "room_slots_ok p (t_rooms (p_topology p) ! i)" using assms(1) i by (simp add: proc_ok_def config_ok_def)
  show "room_by_name (p_topology p) n = Some (Some (t_rooms (p_topology p) ! i))" "room (p_topology p) i = Some (t_rooms (p_topology p) ! i)"
    using assms(2) i by (simp_all add: room_by_name_def room_def index_def)
qed

lemma effective_steps_ok:
  assumes "proc_ok p" and "ro \<in> set (t_rooms (p_topology p))" and "bt_get (room_switch_steps_of p ro) slot = Some steps"
  shows "steps \<noteq> []" and "\<And>st. st \<in> set steps \<Longrightarrow> list_all (endpoint_ok (p_topology p)) (st_lights st)"
proof -
  have "steps_ok (p_topology p) (room_switch_steps_of p ro)"
  proof (cases "bt_get (p_resolved_switch_steps p) (room_name ro)")
    case None
    have "room_ok (p_topology p) ro" using assms(2) proc_ok_topology [OF assms(1)] by (auto simp: topology_ok_def list_all_iff)
    with None show ?thesis by (simp add: room_switch_steps_of_def room_ok_def steps_ok_def)
  next
    case (Some m)
    have "bt_all (\<lambda>_. steps_ok (p_topology p)) (p_resolved_switch_steps p)" using assms(1) by (simp add: proc_ok_def config_ok_def)
    from bt_all_get [OF this Some] Some show ?thesis by (simp add: room_switch_steps_of_def)
  qed
  then have "steps \<noteq> [] \<and> list_all (\<lambda>s. list_all (endpoint_ok (p_topology p)) (st_lights s)) steps"
    using bt_all_get [OF _ assms(3), of "\<lambda>_ steps. steps \<noteq> [] \<and> list_all (\<lambda>s. list_all (endpoint_ok (p_topology p)) (st_lights s)) steps"]
    by (simp add: steps_ok_def)
  then show "steps \<noteq> []" and "\<And>st. st \<in> set steps \<Longrightarrow> list_all (endpoint_ok (p_topology p)) (st_lights st)"
    by (auto simp: list_all_iff)
qed

lemma stays_steps: "stays p q \<Longrightarrow> room_switch_steps_of q = room_switch_steps_of p"
  by (intro ext) (simp add: room_switch_steps_of_def stays_def cfg_fields(8) [of q p])

lemma stays_slots: "stays p q \<Longrightarrow> room_slots q = room_slots p"
  by (intro ext) (simp add: room_slots_def stays_def cfg_fields(9) [of q p])

lemma stays_defaults: "stays p q \<Longrightarrow> p_defaults q = p_defaults p"
  by (simp add: stays_def cfg_fields(3) [of q p])

text \<open>The outcome of looking for steps: none, or those of one slot of a known room.\<close>

lemma active_switch_steps_safe:
  assumes "proc_ok p" and q: "stays p q"
  shows "wp (active_switch_steps n q) (\<lambda>(a, q1). stays p q1 \<and> p_world q1 = p_world q \<and>
     (\<forall>slot steps. a = Some (slot, steps) \<longrightarrow> (\<exists>i. room_idx_of (p_topology p) n = Some i \<and>
        bt_get (room_switch_steps_of p (t_rooms (p_topology p) ! i)) slot = Some steps)))"
proof -
  have t: "topology_ok (p_topology q)" "p_topology q = p_topology p" using stays_topology_ok [OF assms] by simp_all
  show ?thesis
  proof (rule room_by_nameE [OF t(1), of n])
    assume "room_by_name (p_topology q) n = Some None"
    with q show ?thesis by (simp add: active_switch_steps_def)
  next
    fix i assume r: "room_by_name (p_topology q) n = Some (Some (t_rooms (p_topology q) ! i))" "room_idx_of (p_topology q) n = Some i"
    have "proc_ok q" using stays_proc_ok [OF assms] .
    then obtain sun c where sc: "sun_times_of q = Some (sun, q\<lparr>p_cached_sun := c\<rparr>)"
      and sun: "sun = None \<longleftrightarrow> p_location q = None" by (rule sun_times_ofE)
    define q1 where "q1 = q\<lparr>p_cached_sun := c\<rparr>"
    have q1: "stays p q1" "p_world q1 = p_world q" using q by (simp_all add: q1_def stays_def)
    have "slots_sun_ok q (room_slots q1 (t_rooms (p_topology q) ! i))"
      using room_at(3) [OF \<open>proc_ok q\<close> r(2)] stays_slots [OF q1(1)] stays_slots [OF q] by (simp add: schedule_ok_defs)
    then obtain found where "slot_for_time (room_slots q1 (t_rooms (p_topology q) ! i)) (ck_local_hour (p_clock q1)) (ck_local_minute (p_clock q1)) sun = Some found"
      using wp_slot_for_time [OF _ sun, of _ "\<lambda>_. True"] unfolding wp_iff by blast
    then show ?thesis
      using sc r q q1 t stays_steps [OF q] stays_steps [OF q1(1)]
      by (auto simp: active_switch_steps_def q1_def [symmetric] split: option.splits)
  qed
qed

lemma safe_at_for_each:
  assumes "proc_ok p" and "stays p q" and "\<And>x q. x \<in> set xs \<Longrightarrow> stays p q \<Longrightarrow> safe_at p (f x q)"
  shows "safe_at p (for_each f xs q)"
  unfolding safe_at_def by (rule wp_for_each [where I = "stays p"]) (use assms in \<open>simp_all add: safe_at_def\<close>)

lemma light_commands_safe:
  assumes "stays p q" and "endpoint_ok (p_topology p) l"
  shows "safe_at p (step_member st tr ts l q)" and "safe_at p (remove_light tr ts l q)"
    and "safe_at p (brightness_member pay ts l q)"
  using command_light_safe [OF assms(1), of "le_device l"] assms(2)
  by (auto simp: safe_at_def step_member_def remove_light_def brightness_member_def Let_def endpoint_ok_def elim: wp_mono)

definition tries :: "processor \<Rightarrow> (eff list option \<times> processor) option \<Rightarrow> bool" where
  "tries p m = wp m (\<lambda>(r, q). stays p q \<and> (\<forall>e. r = Some e \<longrightarrow> list_all (eff_ok (p_topology p)) e))"

lemma or_else_safe:
  assumes "tries p (f q)" and "\<And>q. stays p q \<Longrightarrow> safe_at p (g q)"
  shows "safe_at p (or_else f g q)"
  using assms by (auto simp: tries_def safe_at_def or_else_def wp_iff split: option.splits)

lemma next_step_bound: "0 < len \<Longrightarrow> next_step z slot len < len"
  by (simp add: next_step_def split: option.split)

lemma switch_turns_off_total:
  assumes "proc_ok p" and "stays p q"
  shows "\<exists>b. switch_turns_off action z ts q = Some b"
  using assms(1) stays_defaults [OF assms(2)]
  by (auto simp: switch_turns_off_def proc_ok_def config_ok_def window_ok_def from_secs_f64_def Let_def
      split: switch_action.split option.split)

lemma stays_set_cycle:
  assumes "stays p q" and "room_idx_of (p_topology p) n = Some i"
    and "bt_get (room_switch_steps_of p (t_rooms (p_topology p) ! i)) slot = Some steps" and "idx < length steps"
  shows "stays p (upd_light_zone n (\<lambda>z. z\<lparr>lz_target := set_and_command v ow ts (lz_target z),
     lz_switch_cycle := Some \<lparr>cyc_slot = slot, cyc_step = idx\<rparr>, lz_last_press_at := a\<rparr>) q)"
  using assms stays_light_zone [OF assms(1), of n]
  by (intro stays_upd_light_zone_at) (auto simp: light_zone_ok_def switch_cycle_ok_def)

lemma execute_switch_steps_safe:
  assumes "proc_ok p" and q: "stays p q"
  shows "tries p (execute_switch_steps n action ts q)"
proof -
  obtain a q1 where a: "active_switch_steps n q = Some (a, q1)" and q1: "stays p q1"
    and st: "\<And>slot steps. a = Some (slot, steps) \<Longrightarrow> \<exists>i. room_idx_of (p_topology p) n = Some i \<and>
        bt_get (room_switch_steps_of p (t_rooms (p_topology p) ! i)) slot = Some steps"
    using active_switch_steps_safe [OF assms, of n] unfolding wp_iff by auto
  show ?thesis
  proof (cases a)
    case None
    with a q1 show ?thesis by (simp add: execute_switch_steps_def tries_def)
  next
    case (Some x)
    obtain slot steps where x: "x = (slot, steps)" by (cases x)
    then obtain i where i: "room_idx_of (p_topology p) n = Some i"
      "bt_get (room_switch_steps_of p (t_rooms (p_topology p) ! i)) slot = Some steps" using st Some by blast
    note r = room_at [OF assms(1) i(1)]
    let ?r = "t_rooms (p_topology p) ! i"
    have ri: "?r \<in> set (t_rooms (p_topology p))" using r(1) by simp
    let ?z = "light_zone (p_world q1) n"
    define idx where "idx = next_step ?z slot (length steps)"
    have idx: "idx < length steps" using effective_steps_ok(1) [OF assms(1) ri i(2)] by (simp add: idx_def next_step_bound)
    obtain e q2 where e: "for_each (step_member (steps ! idx) (room_off_transition_seconds ?r) ts) (room_light_members ?r) q1 = Some (e, q2)"
      "list_all (eff_ok (p_topology p)) e" "stays p q2"
      using safe_at_for_each [OF assms(1) q1, of "room_light_members ?r" "step_member (steps ! idx) (room_off_transition_seconds ?r) ts"]
        r(2) light_commands_safe(1) unfolding safe_at_def wp_iff room_ok_def list_all_iff by (auto simp: safe_at_def)
    obtain ow where ow: "resolve_zone_owner q2 n User = Some ow"
      using owner_total [of q2 n User] stays_topology_ok [OF assms(1) e(3)] by auto
    obtain b where b: "(if step_is_on ?z then switch_turns_off action ?z ts q1 else Some False) = Some b"
      using switch_turns_off_total [OF assms(1) q1, of action ?z ts] by (cases "step_is_on ?z") auto
    obtain e' q3 where off: "execute_turn_off_room n ts q1 = Some (e', q3)" "list_all (eff_ok (p_topology p)) e'" "stays p q3"
      using execute_turn_off_room_safe [OF assms(1) q1, of n ts] unfolding safe_at_def wp_iff by auto
    have "room_by_name (p_topology q1) n = Some (Some ?r)" using r(4) stays_topology [OF q1] by simp
    then show ?thesis
      using a Some x b off e ow idx stays_set_cycle [OF e(3) i idx]
      unfolding tries_def execute_switch_steps_def Let_def
      by (simp add: idx_def [symmetric] index_def b)
  qed
qed

lemma effectively_on_total:
  "endpoint_ok (p_topology q) l \<Longrightarrow> \<exists>b. light_is_effectively_on q l = Some b"
  using light_at_safe [of "le_device l" q] by (auto simp: light_is_effectively_on_def endpoint_ok_def)

lemma step_down_delta_total:
  assumes "\<And>st. st \<in> set steps \<Longrightarrow> list_all (endpoint_ok (p_topology q)) (st_lights st)"
  shows "\<exists>d. switch_step_down_delta q steps i = Some d \<and>
    (\<forall>ls. d = Some ls \<longrightarrow> 0 < i \<and> i < length steps \<and> set ls \<subseteq> set (st_lights (steps ! i)))"
proof (cases "i = 0 \<or> length steps \<le> i")
  case False
  then have i: "steps ! i \<in> set steps" "steps ! (i - 1) \<in> set steps" by auto
  have "\<exists>b. allM (light_is_effectively_on q) (st_lights (steps ! (i - 1))) = Some b"
    by (rule allM_total) (use assms [OF i(2)] effectively_on_total in \<open>auto simp: list_all_iff\<close>)
  moreover have "\<exists>b. anyM (light_is_effectively_on q) (filter P (st_lights (steps ! i))) = Some b" for P
    by (rule anyM_total') (use assms [OF i(1)] effectively_on_total in \<open>auto simp: list_all_iff\<close>)
  moreover obtain a b where "allM (light_is_effectively_on q) (st_lights (steps ! (i - 1))) = Some a"
    "anyM (light_is_effectively_on q) (filter (\<lambda>l. l \<notin> set (st_lights (steps ! (i - 1)))) (st_lights (steps ! i))) = Some b"
    using calculation by metis
  ultimately show ?thesis using False by (auto simp: switch_step_down_delta_def Let_def)
qed (simp add: switch_step_down_delta_def)

lemma step_down_candidate_total:
  assumes "\<And>st. st \<in> set steps \<Longrightarrow> list_all (endpoint_ok (p_topology q)) (st_lights st)"
  shows "\<exists>c. step_down_candidate q steps current = Some c \<and>
    (\<forall>i. c = Some i \<longrightarrow> (\<exists>ls. switch_step_down_delta q steps i = Some (Some ls)))"
proof -
  have d: "\<exists>d. switch_step_down_delta q steps i = Some d" for i using step_down_delta_total [of steps q i] assms by blast
  let ?f = "\<lambda>i. map_option (\<lambda>d. d \<noteq> None) (switch_step_down_delta q steps i)"
  have f: "?f i = Some (the (switch_step_down_delta q steps i) \<noteq> None)" for i using d [of i] by auto
  have find: "findM ?f xs = Some (find (\<lambda>i. the (switch_step_down_delta q steps i) \<noteq> None) xs)" for xs
    by (rule findM_Some) (rule f)
  have ok: "\<exists>ls. switch_step_down_delta q steps i = Some (Some ls)" if "the (switch_step_down_delta q steps i) \<noteq> None" for i
    using d [of i] that by auto
  show ?thesis
  proof (cases current)
    case None
    then show ?thesis unfolding step_down_candidate_def using find ok by (auto simp: find_Some_iff)
  next
    case (Some i)
    obtain d' where "switch_step_down_delta q steps i = Some d'" using d [of i] by auto
    then show ?thesis
      unfolding step_down_candidate_def Some using find ok by (cases d') (auto simp: find_Some_iff)
  qed
qed

lemma step_down_zone_safe:
  assumes "light_zone_ok z" and "fc \<or> target_is_on z \<or> \<not> is_actionable (lz_target z)"
  shows "wp (step_down_zone fc slot i sid ow ts z) (\<lambda>z'. light_zone_ok z' \<and>
    (lz_switch_cycle z' = None \<or> fc \<and> lz_switch_cycle z' = Some \<lparr>cyc_slot = slot, cyc_step = i\<rparr> \<and> tgt_since (lz_target z') \<noteq> None))"
  using assms
  by (cases "tgt_phase (lz_target z)") (auto simp: step_down_zone_def light_zone_ok_def is_actionable_def target_ok_def reassign_owner_def)

lemma remove_light_zones: "remove_light tr ts l q = Some (e, q') \<Longrightarrow> light_zone (p_world q') n = light_zone (p_world q) n"
  by (auto simp: remove_light_def command_light_def split: Option.bind_splits)

lemma execute_scene_step_down_safe:
  assumes "proc_ok p" and q: "stays p q"
  shows "safe_at p (execute_scene_step_down n ts q)"
proof -
  obtain a q1 where a: "active_switch_steps n q = Some (a, q1)" and q1: "stays p q1"
    and st: "\<And>slot steps. a = Some (slot, steps) \<Longrightarrow> \<exists>i. room_idx_of (p_topology p) n = Some i \<and>
        bt_get (room_switch_steps_of p (t_rooms (p_topology p) ! i)) slot = Some steps"
    using active_switch_steps_safe [OF assms, of n] unfolding wp_iff by auto
  note off = execute_turn_off_room_safe [OF assms(1) q1, of n ts]
  show ?thesis
  proof (cases a)
    case None
    with a off show ?thesis by (simp add: execute_scene_step_down_def)
  next
    case (Some x)
    obtain slot steps where x: "x = (slot, steps)" by (cases x)
    then obtain i where i: "room_idx_of (p_topology p) n = Some i"
      "bt_get (room_switch_steps_of p (t_rooms (p_topology p) ! i)) slot = Some steps" using st Some by blast
    note r = room_at [OF assms(1) i(1)]
    let ?r = "t_rooms (p_topology p) ! i" and ?zone = "bt_get (w_light_zones (p_world q1)) n"
    have rn: "room_by_name (p_topology q1) n = Some (Some ?r)" using r(4) stays_topology [OF q1] by simp
    have ls: "list_all (endpoint_ok (p_topology q1)) (st_lights st)" if "st \<in> set steps" for st
      using effective_steps_ok(2) [OF assms(1) _ i(2) that] r(1) stays_topology [OF q1] by simp
    define current where "current = (case Option.bind ?zone lz_switch_cycle of
      None \<Rightarrow> None | Some c \<Rightarrow> if cyc_slot c = slot then Some (cyc_step c) else None)"
    obtain cand where c: "step_down_candidate q1 steps current = Some cand"
      and cd: "\<And>j. cand = Some j \<Longrightarrow> \<exists>ls. switch_step_down_delta q1 steps j = Some (Some ls)"
      using step_down_candidate_total [of steps q1 current, OF ls] by blast
    show ?thesis
    proof (cases cand)
      case None
      with a Some x off c show ?thesis
        unfolding execute_scene_step_down_def Let_def by (simp add: current_def)
    next
      case (Some j)
      obtain removed where d: "switch_step_down_delta q1 steps j = Some (Some removed)" using cd [OF Some] by blast
      then have j: "0 < j" "j < length steps" "set removed \<subseteq> set (st_lights (steps ! j))"
        using step_down_delta_total [of steps q1 j, OF ls] by auto
      have rm: "endpoint_ok (p_topology p) l" if "l \<in> set removed" for l
        using ls [of "steps ! j"] j that stays_topology [OF q1] by (auto simp: list_all_iff)
      obtain e q2 where e: "for_each (remove_light (room_off_transition_seconds ?r) ts) removed q1 = Some (e, q2)"
        "list_all (eff_ok (p_topology p)) e" "stays p q2"
        using safe_at_for_each [OF assms(1) q1, of removed "remove_light (room_off_transition_seconds ?r) ts"]
          rm light_commands_safe(2) unfolding safe_at_def wp_iff by (auto simp: safe_at_def)
      have z2: "light_zone (p_world q2) n = light_zone (p_world q1) n"
        using e(1) by (rule for_each_invariant) (auto dest: remove_light_zones [where n = n])
      obtain ow where ow: "resolve_zone_owner q2 n User = Some ow"
        using owner_total [of q2 n User] stays_topology_ok [OF assms(1) e(3)] by auto
      have ix: "index steps (j - 1) = Some (steps ! (j - 1))" using j by (auto simp: index_def)
      define early where "early = (current \<noteq> Some j \<and> (case ?zone of None \<Rightarrow> False
         | Some z \<Rightarrow> is_actionable (lz_target z) \<and> \<not> target_is_on z))"
      have run: "execute_scene_step_down n ts q = (if early then execute_turn_off_room n ts q1 else
         do { z \<leftarrow> step_down_zone (current = Some j) slot (j - 1) (scene_id (st_scene (steps ! (j - 1)))) ow ts (light_zone (p_world q2) n);
              Some (e, upd_light_zone n (\<lambda>_. z) q2) })"
        using a \<open>a = Some x\<close> x c Some d rn e(1) ow ix unfolding execute_scene_step_down_def Let_def
        by (simp add: current_def [symmetric] early_def)
      show ?thesis
      proof (cases early)
        case True
        with run off show ?thesis by simp
      next
        case False
        have "current = Some j \<or> target_is_on (light_zone (p_world q2) n) \<or> \<not> is_actionable (lz_target (light_zone (p_world q2) n))"
          using False z2 by (auto simp: early_def light_zone_def bt_get_or_def light_zone_default_def is_actionable_def split: option.splits)
        then obtain z where z: "step_down_zone (current = Some j) slot (j - 1) (scene_id (st_scene (steps ! (j - 1)))) ow ts
            (light_zone (p_world q2) n) = Some z" "light_zone_ok z"
          "lz_switch_cycle z = None \<or> lz_switch_cycle z = Some \<lparr>cyc_slot = slot, cyc_step = j - 1\<rparr> \<and> tgt_since (lz_target z) \<noteq> None"
          using step_down_zone_safe [of "light_zone (p_world q2) n" "current = Some j" slot "j - 1"] stays_light_zone [OF e(3), of n]
          unfolding wp_iff by metis
        have "switch_cycle_ok p n z" using z(3) i j by (auto simp: switch_cycle_ok_def)
        then have "stays p (upd_light_zone n (\<lambda>_. z) q2)" using e(3) z(2) by (intro stays_upd_light_zone_at)
        with run False z(1) e(2) show ?thesis by (simp add: safe_at_def)
      qed
    qed
  qed
qed

lemma scenes_for_room_known:
  assumes "proc_ok p" and q: "stays p q"
  obtains ids q1 where "scenes_for_room n q = Some (ids, q1)" and "stays p q1" and "p_world q1 = p_world q"
    and "\<And>i sid. room_idx_of (p_topology p) n = Some i \<Longrightarrow> sid \<in> set ids \<Longrightarrow>
           scene_known (room_scenes (t_rooms (p_topology p) ! i)) sid"
proof -
  have pq: "proc_ok q" using stays_proc_ok [OF assms] .
  obtain sun c where sc: "sun_times_of q = Some (sun, q\<lparr>p_cached_sun := c\<rparr>)"
    and sun: "sun = None \<longleftrightarrow> p_location q = None" using pq by (rule sun_times_ofE)
  define q1 where "q1 = q\<lparr>p_cached_sun := c\<rparr>"
  have q1: "stays p q1" "p_world q1 = p_world q" "p_topology q1 = p_topology p"
    using q stays_topology [OF q] by (simp_all add: q1_def stays_def)
  show thesis
  proof (cases "room_idx_of (p_topology p) n")
    case None
    then show thesis using sc q1 by (intro that [of "[]" q1]) (simp_all add: scenes_for_room_def q1_def [symmetric])
  next
    case (Some i)
    note r = room_at [OF assms(1) Some]
    let ?r = "t_rooms (p_topology p) ! i"
    have sl: "slots_sun_ok q (room_slots q1 ?r)" "bt_all (\<lambda>_ s. list_all (scene_known (room_scenes ?r)) (slot_scene_ids s)) (room_slots q1 ?r)"
      using r(3) stays_slots [OF q1(1)] stays_location [OF q] by (simp_all add: schedule_ok_defs slots_sun_ok_def)
    obtain found where f: "slot_for_time (room_slots q1 ?r) (ck_local_hour (p_clock q1)) (ck_local_minute (p_clock q1)) sun = Some found"
      "\<forall>e. found = Some e \<longrightarrow> e \<in> set (room_slots q1 ?r)"
      using wp_slot_for_time [OF sl(1) sun, of "\<lambda>f. \<forall>e. f = Some e \<longrightarrow> e \<in> set (room_slots q1 ?r)"] unfolding wp_iff by blast
    let ?ids = "case found of None \<Rightarrow> [] | Some (_, s) \<Rightarrow> slot_scene_ids s"
    have "scenes_for_room n q = Some (?ids, q1)"
      using sc q1 Some r(5) f(1) by (simp add: scenes_for_room_def q1_def [symmetric])
    moreover have "scene_known (room_scenes ?r) sid" if "sid \<in> set ?ids" for sid
      using f(2) that sl(2) by (auto simp: bt_all_def list_all_iff split: option.splits prod.splits)
    ultimately show thesis using q1 Some by (intro that [of ?ids q1]) auto
  qed
qed

text \<open>The shape of the three whole-group handlers: look up the scenes, then a choice that only uses
  known scenes.\<close>

lemma scene_handler_safe:
  assumes "proc_ok p" and q: "stays p q"
    and h: "\<And>ids q1. scenes_for_room n q = Some (ids, q1) \<Longrightarrow>
      h q = (case room_idx_of (p_topology q1) n of None \<Rightarrow> Some ([], q1)
             | Some i \<Rightarrow> do { ro \<leftarrow> room (p_topology q1) i; if ids = [] then Some ([], q1) else body i ro ids q1 })"
    and body: "\<And>i ids q1. room_idx_of (p_topology p) n = Some i \<Longrightarrow> stays p q1 \<Longrightarrow> ids \<noteq> [] \<Longrightarrow>
      list_all (scene_known (room_scenes (t_rooms (p_topology p) ! i))) ids \<Longrightarrow>
      safe_at p (body i (t_rooms (p_topology p) ! i) ids q1)"
  shows "safe_at p (h q)"
proof -
  obtain ids q1 where s: "scenes_for_room n q = Some (ids, q1)" "stays p q1"
    and k: "\<And>i sid. room_idx_of (p_topology p) n = Some i \<Longrightarrow> sid \<in> set ids \<Longrightarrow>
           scene_known (room_scenes (t_rooms (p_topology p) ! i)) sid"
    using scenes_for_room_known [OF assms(1,2)] by metis
  have t: "p_topology q1 = p_topology p" using stays_topology [OF s(2)] .
  show ?thesis
  proof (cases "room_idx_of (p_topology p) n")
    case (Some i)
    show ?thesis
      using h [OF s(1)] Some t room_at(5) [OF assms(1) Some] s(2) body [OF Some s(2), of ids] k [OF Some]
      by (auto simp: list_all_iff safe_at_def)
  qed (use h [OF s(1)] t s(2) in \<open>simp add: safe_at_def\<close>)
qed

lemma owner_obtain:
  assumes "proc_ok p" and "stays p q"
  obtains ow where "resolve_zone_owner q n d = Some ow"
  using owner_total [of q n d] stays_topology_ok [OF assms] that by auto

lemma execute_group_scene_cycle_safe:
  assumes "proc_ok p" and "stays p q"
  shows "safe_at p (execute_group_scene_cycle n ts q)"
proof (rule scene_handler_safe [OF assms, where body = "\<lambda>i ro ids q1. do { sid \<leftarrow> index ids (next_scene_index (light_zone (p_world q1) n) ids);
    recall_scene n i (next_scene_index (light_zone (p_world q1) n) ids) sid True ts q1 }"])
  fix i ids q1 assume i: "room_idx_of (p_topology p) n = Some i" and q1: "stays p q1" and ids: "ids \<noteq> []"
    and k: "list_all (scene_known (room_scenes (t_rooms (p_topology p) ! i))) ids"
  have "next_scene_index z ids < length ids" for z
    using ids by (auto simp: next_scene_index_def split: option.split light_zone_target.split)
  then show "safe_at p (do { sid \<leftarrow> index ids (next_scene_index (light_zone (p_world q1) n) ids);
    recall_scene n i (next_scene_index (light_zone (p_world q1) n) ids) sid True ts q1 })"
    using k by (simp add: index_def recall_scene_safe [OF assms(1) q1 i] list_all_length)
qed (unfold execute_group_scene_cycle_def Let_def, simp)

lemma group_off_branch_safe:
  assumes "proc_ok p" and "stays p q" and "room_idx_of (p_topology p) n = Some i"
  shows "safe_at p (do { ow \<leftarrow> resolve_zone_owner q n User; publish_off n i tr ts ow q })"
proof -
  obtain ow where "resolve_zone_owner q n User = Some ow" using assms(1,2) by (rule owner_obtain)
  then show ?thesis using publish_off_safe [OF assms(1,2) room_at(1) [OF assms(1,3)]] by simp
qed

lemma group_scene_toggle_safe:
  assumes "proc_ok p" and "stays p q"
  shows "safe_at p (group_scene_toggle n ts q)"
proof (rule scene_handler_safe [OF assms, where body = "\<lambda>i ro ids q1. if \<not> zone_is_on (light_zone (p_world q1) n)
    then recall_scene n i 0 (hd ids) False ts q1
    else do { ow \<leftarrow> resolve_zone_owner q1 n User; publish_off n i (room_off_transition_seconds ro) ts ow q1 }"])
  fix i ids q1 assume i: "room_idx_of (p_topology p) n = Some i" and q1: "stays p q1" and ids: "ids \<noteq> []"
    and k: "list_all (scene_known (room_scenes (t_rooms (p_topology p) ! i))) ids"
  from k ids have "scene_known (room_scenes (t_rooms (p_topology p) ! i)) (hd ids)" by (cases ids) auto
  then show "safe_at p (if \<not> zone_is_on (light_zone (p_world q1) n) then recall_scene n i 0 (hd ids) False ts q1
    else do { ow \<leftarrow> resolve_zone_owner q1 n User; publish_off n i (room_off_transition_seconds (t_rooms (p_topology p) ! i)) ts ow q1 })"
    using recall_scene_safe [OF assms(1) q1 i] group_off_branch_safe [OF assms(1) q1 i] by simp
next
  fix ids q1 assume "scenes_for_room n q = Some (ids, q1)"
  then show "group_scene_toggle n ts q = (case room_idx_of (p_topology q1) n of None \<Rightarrow> Some ([], q1)
     | Some i \<Rightarrow> do { ro \<leftarrow> room (p_topology q1) i; if ids = [] then Some ([], q1)
         else if \<not> zone_is_on (light_zone (p_world q1) n) then recall_scene n i 0 (hd ids) False ts q1
         else do { ow \<leftarrow> resolve_zone_owner q1 n User; publish_off n i (room_off_transition_seconds ro) ts ow q1 } })"
    by (cases ids; cases "room_idx_of (p_topology q1) n") (simp_all add: group_scene_toggle_def cong: if_cong)
qed

definition toggle_cycle_body :: "string \<Rightarrow> instant \<Rightarrow> room_idx \<Rightarrow> resolved_room \<Rightarrow> u8 list \<Rightarrow> handler" where
  "toggle_cycle_body n ts i ro ids q1 =
     do { cycle_window \<leftarrow> from_secs_f64 (cycle_window_seconds (p_defaults q1));
          let z = light_zone (p_world q1) n;
          let within_window = (case lz_last_press_at z of None \<Rightarrow> False | Some prev \<Rightarrow> duration_since ts prev < cycle_window);
          if \<not> zone_is_on z then recall_scene n i 0 (hd ids) False ts q1
          else if within_window then
            let idx = (if lz_switch_cycle z \<noteq> None then 0 else (zone_cycle_idx z + 1) mod length ids) in
            do { sid \<leftarrow> index ids idx; recall_scene n i idx sid False ts q1 }
          else do { ow \<leftarrow> resolve_zone_owner q1 n User; publish_off n i (room_off_transition_seconds ro) ts ow q1 } }"

lemma group_scene_toggle_cycle_safe:
  assumes "proc_ok p" and "stays p q"
  shows "safe_at p (group_scene_toggle_cycle n ts q)"
proof (rule scene_handler_safe [OF assms, where body = "toggle_cycle_body n ts"])
  fix i ids q1 assume i: "room_idx_of (p_topology p) n = Some i" and q1: "stays p q1" and ids: "ids \<noteq> []"
    and k: "list_all (scene_known (room_scenes (t_rooms (p_topology p) ! i))) ids"
  let ?idx = "if lz_switch_cycle (light_zone (p_world q1) n) \<noteq> None then 0
    else (zone_cycle_idx (light_zone (p_world q1) n) + 1) mod length ids"
  obtain d where d: "from_secs_f64 (cycle_window_seconds (p_defaults q1)) = Some d"
    using assms(1) stays_defaults [OF q1] from_secs_f64_total unfolding proc_ok_def config_ok_def window_ok_def by metis
  from ids have x: "?idx < length ids" by simp
  then have "index ids ?idx = Some (ids ! ?idx)" "scene_known (room_scenes (t_rooms (p_topology p) ! i)) (ids ! ?idx)"
    using k by (simp_all add: index_def list_all_length)
  moreover have "scene_known (room_scenes (t_rooms (p_topology p) ! i)) (hd ids)" using k ids by (cases ids) auto
  ultimately show "safe_at p (toggle_cycle_body n ts i (t_rooms (p_topology p) ! i) ids q1)"
    unfolding toggle_cycle_body_def Let_def d
    using recall_scene_safe [OF assms(1) q1 i] group_off_branch_safe [OF assms(1) q1 i] by simp
next
  fix ids q1 assume "scenes_for_room n q = Some (ids, q1)"
  then show "group_scene_toggle_cycle n ts q = (case room_idx_of (p_topology q1) n of None \<Rightarrow> Some ([], q1)
     | Some i \<Rightarrow> do { ro \<leftarrow> room (p_topology q1) i; if ids = [] then Some ([], q1) else toggle_cycle_body n ts i ro ids q1 })"
    by (cases ids; cases "room_idx_of (p_topology q1) n") (simp_all add: group_scene_toggle_cycle_def toggle_cycle_body_def Let_def cong: if_cong)
qed

text \<open>Brightness.\<close>

lemma cycle_step_safe:
  assumes "proc_ok p" and q: "stays p q" and c: "Option.bind (bt_get (w_light_zones (p_world q)) n) lz_switch_cycle = Some c"
  obtains ro st where "cycle_step q n c = Some (ro, st)" and "room_ok (p_topology p) ro"
    and "list_all (endpoint_ok (p_topology p)) (st_lights st)"
    and "\<And>z. bt_get (w_light_zones (p_world q)) n = Some z \<Longrightarrow> tgt_since (lz_target z) \<noteq> None"
proof -
  obtain z where z: "bt_get (w_light_zones (p_world q)) n = Some z" "lz_switch_cycle z = Some c"
    using c by (auto split: Option.bind_splits)
  have "switch_cycle_ok p n z" using q z(1) by (simp add: stays_def state_ok_def cycles_ok_def)
  then obtain i steps where i: "tgt_since (lz_target z) \<noteq> None" "room_idx_of (p_topology p) n = Some i"
    "bt_get (room_switch_steps_of p (t_rooms (p_topology p) ! i)) (cyc_slot c) = Some steps" "cyc_step c < length steps"
    using z(2) unfolding switch_cycle_ok_def by blast
  note r = room_at [OF assms(1) i(2)]
  have "cycle_step q n c = Some (t_rooms (p_topology p) ! i, steps ! cyc_step c)"
    using i r(4) stays_topology [OF q] stays_steps [OF q] by (simp add: cycle_step_def index_def)
  moreover have "list_all (endpoint_ok (p_topology p)) (st_lights (steps ! cyc_step c))"
    using effective_steps_ok(2) [OF assms(1) _ i(3)] r(1) i(4) by simp
  ultimately show thesis using r(2) i(1) z(1) by (intro that) auto
qed

lemma execute_switch_brightness_safe:
  assumes "proc_ok p" and q: "stays p q"
  shows "tries p (execute_switch_brightness n pay ts q)"
proof (cases "Option.bind (bt_get (w_light_zones (p_world q)) n) lz_switch_cycle")
  case (Some c)
  then obtain ro st where s: "cycle_step q n c = Some (ro, st)" "list_all (endpoint_ok (p_topology p)) (st_lights st)"
    using cycle_step_safe [OF assms] by metis
  obtain e q1 where e: "for_each (brightness_member pay ts) (st_lights st) q = Some (e, q1)"
    "list_all (eff_ok (p_topology p)) e" "stays p q1"
    using safe_at_for_each [OF assms, of "st_lights st" "brightness_member pay ts"] s(2) light_commands_safe(3)
    unfolding safe_at_def wp_iff list_all_iff by (auto simp: safe_at_def)
  obtain ow where "resolve_zone_owner q1 n User = Some ow" using assms(1) e(3) by (rule owner_obtain)
  then show ?thesis
    using Some s(1) e by (simp add: execute_switch_brightness_def tries_def stays_upd_light_zone)
qed (use q in \<open>simp add: execute_switch_brightness_def tries_def\<close>)

lemma group_brightness_safe:
  assumes "proc_ok p" and q: "stays p q"
  shows "safe_at p (group_brightness n pay ts q)"
proof (cases "room_idx_of (p_topology p) n")
  case (Some i)
  note r = room_at [OF assms(1) Some]
  have t: "p_topology q = p_topology p" using stays_topology [OF q] .
  have l: "wp (take_over_light ts l q') (stays p)" if "stays p q'" "endpoint_ok (p_topology p) l" for l q'
    using that stays_topology [OF that(1)]
    by (auto simp: take_over_light_def Let_def endpoint_ok_def light_ok_def intro!: stays_upd_light)
  have "wp (foldM (take_over_light ts) (room_light_members (t_rooms (p_topology p) ! i)) q) (stays p)"
    by (rule wp_foldM) (use q r(2) in \<open>auto simp: room_ok_def list_all_iff intro!: l\<close>)
  then obtain q1 where q1: "foldM (take_over_light ts) (room_light_members (t_rooms (p_topology p) ! i)) q = Some q1" "stays p q1"
    by (auto simp: wp_iff)
  obtain ow where "resolve_zone_owner q1 n User = Some ow" using assms(1) q1(2) by (rule owner_obtain)
  then show ?thesis
    using Some r q1 t by (simp add: group_brightness_def take_over_group_brightness_def safe_at_def stays_upd_light_zone)
qed (use q stays_topology [OF q] in \<open>simp add: group_brightness_def safe_at_def\<close>)

lemmas light_actions_safe =
  or_else_safe [OF execute_switch_steps_safe execute_group_scene_cycle_safe]
  or_else_safe [OF execute_switch_steps_safe group_scene_toggle_safe]
  or_else_safe [OF execute_switch_steps_safe group_scene_toggle_cycle_safe]
  or_else_safe [OF execute_switch_brightness_safe group_brightness_safe]

lemma execute_light_actions_safe:
  "safe (execute_scene_cycle n ts)" "safe (execute_group_scene_cycle n ts)" "safe (execute_scene_step_down n ts)"
  "safe (execute_scene_toggle n ts)" "safe (execute_scene_toggle_cycle n ts)" "safe (execute_turn_off_room n ts)"
  "safe (execute_brightness_step n step tr ts)" "safe (execute_brightness_move n rate ts)"
  "safe (execute_brightness_stop n ts)"
  by (rule safeI, use stays_refl light_actions_safe execute_group_scene_cycle_safe execute_scene_step_down_safe
      execute_turn_off_room_safe in \<open>auto simp: execute_scene_cycle_def execute_scene_toggle_def execute_scene_toggle_cycle_def
      execute_brightness_step_def execute_brightness_move_def execute_brightness_stop_def\<close>)+

text \<open>Reports.\<close>

lemma mark_stale_ok:
  "target_ok t \<Longrightarrow> tgt_phase t \<noteq> Pending \<Longrightarrow> target_ok (snd (target_mark_stale_if_old ts th t)) \<and>
     tgt_phase (snd (target_mark_stale_if_old ts th t)) \<noteq> Pending"
  by (auto simp: target_mark_stale_if_old_def target_ok_def split: option.splits)

lemma observed_light_safe:
  assumes "light_ok e"
  shows "wp (observed_light pm on b c xy ts e) light_ok"
proof -
  let ?t = "snd (target_mark_stale_if_old ts TARGET_STALE_THRESHOLD (light_target e))"
  have "target_ok ?t" "tgt_phase ?t \<noteq> Pending" "actual_ok (light_actual e)"
    using assms mark_stale_ok [of "light_target e"] by (simp_all add: light_ok_def)
  then show ?thesis
    by (cases "tgt_phase ?t") (auto simp: observed_light_def Let_def light_ok_def is_actionable_def target_ok_def
        actual_ok_def split: option.splits)
qed

lemma record_light_state_safe:
  assumes "stays p q"
  shows "wp (record_light_state d on b c xy ts q) (stays p)"
proof -
  obtain e where "observed_light (case device_idx_of (p_topology q) d of None \<Rightarrow> False | Some i \<Rightarrow> light_has_off_only_claim q i)
      on b c xy ts (light (p_world q) d) = Some e" "light_ok e"
    using observed_light_safe [OF stays_light [OF assms, of d]] unfolding wp_iff by metis
  then show ?thesis using assms by (simp add: record_light_state_def stays_upd_light)
qed

text \<open>A zone rewritten in place: well-formed, and its switch cycle kept with a set target, or dropped.\<close>

definition zone_follows :: "light_zone_entity \<Rightarrow> light_zone_entity \<Rightarrow> bool" where
  "zone_follows z z' = (light_zone_ok z' \<and> (lz_switch_cycle z' = None \<or>
     lz_switch_cycle z' = lz_switch_cycle z \<and> (tgt_since (lz_target z) \<noteq> None \<longrightarrow> tgt_since (lz_target z') \<noteq> None)))"

lemma stays_replace_zone:
  assumes "stays p q" and "zone_follows (light_zone (p_world q) n) z"
  shows "stays p (upd_light_zone n (\<lambda>_. z) q)"
  using assms stays_light_zone [OF assms(1), of n]
  by (intro stays_upd_light_zone_at) (auto simp: zone_follows_def switch_cycle_ok_def)

lemma observed_zone_safe:
  assumes "light_zone_ok z"
  shows "wp (observed_zone obs sc so ow ts z) (zone_follows z)"
proof (cases obs)
  case None
  then show ?thesis using assms by (simp add: observed_zone_def zone_follows_def light_zone_ok_def)
next
  case (Some x)
  obtain a since where x: "x = (a, since)" by (cases x)
  define z1 where "z1 = z\<lparr>lz_actual := actual_update a since (lz_actual z),
    lz_target := snd (target_mark_stale_if_old ts TARGET_STALE_THRESHOLD (lz_target z))\<rparr>"
  have z1: "zone_follows z z1"
    using assms mark_stale_ok [of "lz_target z"] by (simp add: zone_follows_def light_zone_ok_def z1_def)
  define fol where "fol = (case tgt_since (lz_target z1) of None \<Rightarrow> False | Some commanded \<Rightarrow> since \<ge> commanded)"
  define z1a where "z1a = (if actual_is_on z then z1\<lparr>lz_last_off_at := Some ts\<rparr> else z1)"
  have z1a: "zone_follows z z1a" using z1 by (simp add: z1a_def zone_follows_def light_zone_ok_def)
  have adopt: "wp (do { t \<leftarrow> adopt LZOff ow ts (lz_target z1a); Some (z1a\<lparr>lz_target := t, lz_switch_cycle := None\<rparr>) }) (zone_follows z)"
    if "target_is_on z1a" "\<not> is_actionable (lz_target z1a)"
    using z1a that by (cases "tgt_phase (lz_target z1a)")
      (auto simp: zone_follows_def light_zone_ok_def is_actionable_def target_ok_def)
  obtain z2 where z2: "(if a = ZoneOff then (if target_is_on z1a \<and> \<not> is_actionable (lz_target z1a) \<and> (fol \<or> so)
        then do { t \<leftarrow> adopt LZOff ow ts (lz_target z1a); Some (z1a\<lparr>lz_target := t, lz_switch_cycle := None\<rparr>) }
        else Some z1a) else Some z1) = Some z2" and f: "zone_follows z z2"
  proof -
    have "wp (if a = ZoneOff then (if target_is_on z1a \<and> \<not> is_actionable (lz_target z1a) \<and> (fol \<or> so)
        then do { t \<leftarrow> adopt LZOff ow ts (lz_target z1a); Some (z1a\<lparr>lz_target := t, lz_switch_cycle := None\<rparr>) }
        else Some z1a) else Some z1) (zone_follows z)"
      using z1 z1a adopt by (simp del: wp_bind)
    then show thesis using that by (auto simp: wp_iff)
  qed
  have "zone_follows z (z2\<lparr>lz_target := (lz_target z2)\<lparr>tgt_phase := Confirmed, tgt_since := Some ts\<rparr>\<rparr>)"
    if "tgt_phase (lz_target z2) = Commanded \<or> tgt_phase (lz_target z2) = StaleTarget"
    using f that by (auto simp: zone_follows_def light_zone_ok_def target_ok_def)
  then show ?thesis
    using f unfolding observed_zone_def Some x option.case prod.case Let_def z1_def [symmetric] fol_def [symmetric]
      z1a_def [symmetric] z2 by auto
qed

lemma light_entry_ok:
  assumes "stays p q" and "light_at q d = Some (Some e)"
  shows "light_ok e"
proof -
  obtain n where "bt_get (w_lights (p_world q)) n = Some e" using assms(2) by (auto simp: light_at_def)
  moreover have "bt_all (\<lambda>_. light_ok) (w_lights (p_world q))" using assms(1) by (simp add: stays_def state_ok_def world_ok_def)
  ultimately show ?thesis using bt_all_get by fastforce
qed

lemma member_reading_safe:
  assumes "stays p q" and "endpoint_ok (p_topology p) l"
  shows "wp (member_reading q l acc) (\<lambda>_. True)"
proof -
  obtain lo where lo: "light_at q (le_device l) = Some lo"
    using light_at_safe [of "le_device l" q] assms stays_topology [OF assms(1)] by (auto simp: endpoint_ok_def)
  have "actual_ok (light_actual e)" if "lo = Some e" for e
    using light_entry_ok [OF assms(1)] lo that by (auto simp: light_ok_def)
  then show ?thesis
    using lo by (cases acc; cases lo) (auto simp: member_reading_def actual_ok_def split: option.splits)
qed

lemma zone_observation_safe:
  assumes "stays p q" and "room_ok (p_topology p) ro"
  shows "\<exists>ob. zone_observation q ro = Some ob"
proof -
  have "wp (foldM (member_reading q) (room_light_members ro) (None, None, True)) (\<lambda>_. True)"
    by (rule wp_foldM) (use assms member_reading_safe in \<open>auto simp: room_ok_def list_all_iff\<close>)
  then show ?thesis by (auto simp: wp_iff zone_observation_def)
qed

lemma member_checks_total:
  assumes "stays p q" and "endpoint_ok (p_topology p) l"
  shows "\<exists>b. member_confirmed q st l = Some b" and "\<exists>b. member_is_off q since l = Some b"
proof -
  obtain lo where lo: "light_at q (le_device l) = Some lo"
    using light_at_safe [of "le_device l" q] assms stays_topology [OF assms(1)] by (auto simp: endpoint_ok_def)
  have "target_ok (light_target e)" if "lo = Some e" for e
    using light_entry_ok [OF assms(1)] lo that by (auto simp: light_ok_def)
  then show "\<exists>b. member_confirmed q st l = Some b"
    using lo by (cases lo) (auto simp: member_confirmed_def target_ok_def split: option.splits)
  show "\<exists>b. member_is_off q since l = Some b" using lo by (simp add: member_is_off_def)
qed

lemma step_checks_total:
  assumes "proc_ok p" and q: "stays p q"
  shows "\<exists>b. switch_step_is_confirmed q n = Some b" and "\<exists>b. switch_step_is_off q n = Some b"
proof -
  have "(\<exists>b. switch_step_is_confirmed q n = Some b) \<and> (\<exists>b. switch_step_is_off q n = Some b)"
  proof (cases "Option.bind (bt_get (w_light_zones (p_world q)) n) lz_switch_cycle")
    case None
    then show ?thesis by (auto simp: switch_step_is_confirmed_def switch_step_is_off_def split: option.splits Option.bind_splits)
  next
    case (Some c)
    obtain ro st where s: "cycle_step q n c = Some (ro, st)" "room_ok (p_topology p) ro"
      "list_all (endpoint_ok (p_topology p)) (st_lights st)"
      "\<And>z. bt_get (w_light_zones (p_world q)) n = Some z \<Longrightarrow> tgt_since (lz_target z) \<noteq> None"
      using cycle_step_safe [OF assms Some] by metis
    obtain z where z: "bt_get (w_light_zones (p_world q)) n = Some z" "lz_switch_cycle z = Some c"
      using Some by (auto split: Option.bind_splits)
    obtain since where since: "tgt_since (lz_target z) = Some since" using s(4) [OF z(1)] by auto
    have "\<exists>b. allM (member_confirmed q st) (room_light_members ro) = Some b"
      by (rule allM_total) (use member_checks_total(1) [OF q] s(2) in \<open>auto simp: room_ok_def list_all_iff\<close>)
    moreover have "\<exists>b. allM (member_is_off q since) (st_lights st) = Some b"
      by (rule allM_total) (use member_checks_total(2) [OF q] s(3) in \<open>auto simp: list_all_iff\<close>)
    ultimately show ?thesis
      using s(1) z since by (simp add: switch_step_is_confirmed_def switch_step_is_off_def)
  qed
  then show "\<exists>b. switch_step_is_confirmed q n = Some b" and "\<exists>b. switch_step_is_off q n = Some b" by simp_all
qed

lemma light_room_safe:
  assumes "proc_ok p" and q: "stays p q" and i: "i < length (t_rooms (p_topology p))"
  shows "wp (light_room ts i q) (stays p)"
proof -
  let ?ro = "t_rooms (p_topology p) ! i"
  have ro: "room_ok (p_topology p) ?ro" using topology_ok_room [OF proc_ok_topology [OF assms(1)] i] .
  obtain ob where ob: "zone_observation q ?ro = Some ob" using zone_observation_safe [OF q ro] by blast
  obtain b c where bc: "switch_step_is_confirmed q (room_name ?ro) = Some b" "switch_step_is_off q (room_name ?ro) = Some c"
    using step_checks_total [OF assms(1,2)] by metis
  obtain ow where ow: "resolve_zone_owner q (room_name ?ro) System = Some ow" using assms(1) q by (rule owner_obtain)
  obtain z where "observed_zone ob b c ow ts (light_zone (p_world q) (room_name ?ro)) = Some z"
    "zone_follows (light_zone (p_world q) (room_name ?ro)) z"
    using observed_zone_safe stays_light_zone [OF q, of "room_name ?ro"] unfolding wp_iff by metis
  then show ?thesis
    using i ob bc ow stays_topology [OF q] stays_replace_zone [OF q] by (simp add: light_room_def)
qed

lemma handle_light_state_safe:
  assumes "proc_ok p"
  shows "wp (handle_light_state d on b c xy ts p) (stays p)"
proof -
  obtain p1 where p1: "record_light_state d on b c xy ts p = Some p1" "stays p p1"
    using record_light_state_safe [OF stays_refl [OF assms], of d on b c xy ts] by (auto simp: wp_iff)
  have "wp (foldM (light_room ts) (light_rooms (p_topology p1) i) p1) (stays p)" for i
    by (rule wp_foldM) (use p1 assms light_rooms_bound stays_topology [OF p1(2)] in \<open>auto intro: light_room_safe\<close>)
  then show ?thesis using p1 by (auto simp: handle_light_state_def split: option.split)
qed

lemma confirm_command [simp]:
  "confirm ts (set_and_command v ow ts' t) = Some ((set_and_command v ow ts' t)\<lparr>tgt_phase := Confirmed, tgt_since := Some ts\<rparr>)"
  by (simp add: confirm_def assert_that_def)

lemma group_off_descendant_safe:
  assumes "proc_ok p" and q: "stays p q"
  shows "wp (group_off_descendant ts n q) (stays p)"
proof -
  obtain ow where ow: "resolve_zone_owner q n System = Some ow" using assms by (rule owner_obtain)
  have z: "light_zone_ok (light_zone (p_world q) n)" using stays_light_zone [OF q] by simp
  show ?thesis
    using ow z by (auto simp: group_off_descendant_def Let_def intro!: stays_replace_zone [OF q])
      (auto simp: zone_follows_def light_zone_ok_def target_ok_def)
qed

lemma group_off_member_safe:
  assumes "stays p q" and "endpoint_ok (p_topology p) l"
  shows "wp (group_off_member ts l q) (stays p)"
  using assms stays_topology [OF assms(1)] record_light_state_safe [OF assms(1)]
  by (simp add: group_off_member_def endpoint_ok_def Let_def)

lemma group_echo_safe:
  assumes "light_zone_ok z"
  shows "wp (group_echo on ts z) (\<lambda>(_, z'). zone_follows z z')"
  using assms mark_stale_ok [of "lz_target z"]
  by (auto simp: group_echo_def Let_def zone_follows_def light_zone_ok_def target_ok_def actual_ok_def)

lemma group_went_off_safe:
  assumes "proc_ok p" and q: "stays p q" and ro: "room_ok (p_topology p) ro"
  shows "wp (group_went_off ro ts q) (stays p)"
proof -
  have "wp (foldM (group_off_descendant ts) ns q) (stays p)" for ns
    by (rule wp_foldM) (use q in \<open>auto intro: group_off_descendant_safe [OF assms(1)]\<close>)
  then obtain q1 where q1: "foldM (group_off_descendant ts) (map room_name (filter (\<lambda>other. room_name other \<noteq> room_name ro \<and>
      room_light_members other \<noteq> [] \<and> list_all (\<lambda>l. l \<in> set (room_light_members ro)) (room_light_members other))
      (t_rooms (p_topology q)))) q = Some q1" "stays p q1"
    unfolding wp_iff by blast
  have "wp (foldM (group_off_member ts) (room_light_members ro) q1) (stays p)"
    by (rule wp_foldM) (use q1 ro in \<open>auto simp: room_ok_def list_all_iff intro: group_off_member_safe\<close>)
  then obtain q2 where q2: "foldM (group_off_member ts) (room_light_members ro) q1 = Some q2" "stays p q2"
    by (auto simp: wp_iff)
  obtain b where b: "off_only_session_live q2 (room_name ro) = Some b"
    using live_total [of q2] stays_topology_ok [OF assms(1) q2(2)] by auto
  have z: "light_zone_ok (light_zone (p_world q2) (room_name ro))" using stays_light_zone [OF q2(2)] by simp
  show ?thesis
    using q1(1) q2(1) b z unfolding group_went_off_def Let_def
    by (auto intro!: stays_replace_zone [OF q2(2)]) (auto simp: zone_follows_def light_zone_ok_def target_ok_def)
qed

lemma handle_group_state_safe: "safe (handle_group_state grp on ts)"
proof (rule safeI)
  fix p assume p: "proc_ok p"
  show "safe_at p (handle_group_state grp on ts p)"
  proof (cases "room_idx_by_group (p_topology p) grp")
    case (Some i)
    have i: "i < length (t_rooms (p_topology p))" using room_idx_by_group_bound [OF proc_ok_topology [OF p] Some] .
    let ?ro = "t_rooms (p_topology p) ! i"
    have ro: "room_ok (p_topology p) ?ro" using topology_ok_room [OF proc_ok_topology [OF p] i] .
    let ?z = "light_zone (p_world p) (room_name ?ro)"
    obtain early z1 where z1: "group_echo on ts ?z = Some (early, z1)" "zone_follows ?z z1"
      using group_echo_safe [of ?z on ts] stays_light_zone [OF stays_refl [OF p], of "room_name ?ro"] unfolding wp_iff by auto
    have p1: "stays p (upd_light_zone (room_name ?ro) (\<lambda>_. z1) p)" using stays_replace_zone [OF stays_refl [OF p] z1(2)] .
    obtain p2 where p2: "group_went_off ?ro ts (upd_light_zone (room_name ?ro) (\<lambda>_. z1) p) = Some p2" "stays p p2"
      using group_went_off_safe [OF p p1 ro, of ts] by (auto simp: wp_iff)
    show ?thesis using Some i z1(1) p1 p2 by (simp add: handle_group_state_def safe_at_def Let_def)
  qed (simp add: handle_group_state_def safe_at_def stays_refl p)
qed

end
