(* ===== verification/Buttons.thy ===== *)
theory Buttons
  imports Lights Plugs
begin

text \<open>
  Buttons and timed actions (\<open>src/crates/mqtt-controller/src/logic/buttons.rs\<close>,
  \<open>logic/schedule.rs\<close>): gestures are resolved to bindings through hardware double-tap suppression,
  deferral and early firing, or soft double-tap detection; bindings are executed; \<open>At\<close> triggers fire
  once per matching minute.
\<close>

section \<open>Executing a binding\<close>

definition upd_plug :: "string \<Rightarrow> (plug_entity \<Rightarrow> plug_entity) \<Rightarrow> processor \<Rightarrow> processor" where
  "upd_plug n f p = upd_world (\<lambda>w. put_plug n (f (plug w n)) w) p"

definition command_plug :: "plug_target \<Rightarrow> owner \<Rightarrow> instant \<Rightarrow> plug_entity \<Rightarrow> plug_entity" where
  "command_plug v ow ts pl = pl\<lparr>plug_target := set_and_command v ow ts (plug_target pl)\<rparr>"

text \<open>\<open>let room_name = self.topology.room(*room).name.clone()\<close> and the call on it.\<close>

definition on_room :: "(string \<Rightarrow> handler) \<Rightarrow> room_idx \<Rightarrow> handler" where
  "on_room f r p = do { ro \<leftarrow> room (p_topology p) r; f (room_name ro) p }"

definition execute_toggle :: "string \<Rightarrow> plug_idx \<Rightarrow> f64 option \<Rightarrow> instant \<Rightarrow> handler" where
  "execute_toggle rule_name d confirm_off ts p =
     do { target \<leftarrow> device_name (p_topology p) d;
          let is_on = (case bt_get (w_plugs (p_world p)) target of None \<Rightarrow> False | Some pl \<Rightarrow> plug_is_on pl);
          case (if is_on then confirm_off else None) of
            Some window \<Rightarrow>
              do { window_dur \<leftarrow> from_secs_f64 window;
                   let pending = bt_get (w_confirm_off_pending (p_world p)) rule_name;
                   let p1 = upd_world (\<lambda>w. w\<lparr>w_confirm_off_pending := bt_remove rule_name (w_confirm_off_pending w)\<rparr>) p;
                   if (case pending of None \<Rightarrow> False | Some prev \<Rightarrow> duration_since ts prev \<le> window_dur)
                   then Some ([PublishDeviceSet d device_off],
                          upd_plug target (\<lambda>pl. on_off_clear_kill_switches (command_plug PlugOff User ts pl)) p1)
                   else Some ([], upd_world (\<lambda>w. w\<lparr>w_confirm_off_pending :=
                                    bt_insert rule_name ts (w_confirm_off_pending w)\<rparr>) p1) }
          | None \<Rightarrow>
              let p1 = upd_world (\<lambda>w. w\<lparr>w_confirm_off_pending := bt_remove rule_name (w_confirm_off_pending w)\<rparr>) p
              in Some ([PublishDeviceSet d (if is_on then device_off else device_on)],
                   upd_plug target (\<lambda>pl.
                     let pl1 = command_plug (if is_on then PlugOff else PlugOn) User ts pl
                     in if is_on then on_off_clear_kill_switches pl1 else pl1) p1) }"

definition turn_off_zone :: "instant \<Rightarrow> room_idx \<times> string \<times> f64 \<times> owner \<Rightarrow> handler" where
  "turn_off_zone ts ro p =
     (case ro of (i, n, off_transition, ow) \<Rightarrow>
        if zone_is_on (light_zone (p_world p) n)
        then Some ([PublishGroupSet i (state_off off_transition)],
               upd_light_zone n (\<lambda>z. z\<lparr>lz_target := set_and_command LZOff ow ts (lz_target z),
                                       lz_last_press_at := None, lz_last_off_at := Some ts\<rparr>) p)
        else Some ([], upd_light_zone n id p))"

definition turn_off_all_zones :: "instant \<Rightarrow> handler" where
  "turn_off_all_zones ts p =
     do { rooms \<leftarrow> mapM (\<lambda>(i, r). do { ow \<leftarrow> resolve_zone_owner p (room_name r) Schedule;
                                      Some (i, room_name r, room_off_transition_seconds r, ow) })
                   (rooms_with_idx (p_topology p));
          for_each (turn_off_zone ts) rooms p }"

fun execute_effect :: "string \<Rightarrow> resolved_effect \<Rightarrow> instant \<Rightarrow> handler" where
  "execute_effect rn (SceneCycle r) ts = on_room (\<lambda>n. execute_scene_cycle n ts) r"
| "execute_effect rn (GroupSceneCycle r) ts = on_room (\<lambda>n. execute_group_scene_cycle n ts) r"
| "execute_effect rn (SceneStepDown r) ts = on_room (\<lambda>n. execute_scene_step_down n ts) r"
| "execute_effect rn (SceneToggle r) ts = on_room (\<lambda>n. execute_scene_toggle n ts) r"
| "execute_effect rn (SceneToggleCycle r) ts = on_room (\<lambda>n. execute_scene_toggle_cycle n ts) r"
| "execute_effect rn (TurnOffRoom r) ts = on_room (\<lambda>n. execute_turn_off_room n ts) r"
| "execute_effect rn (BrightnessStep r step transition) ts =
     on_room (\<lambda>n. execute_brightness_step n step transition ts) r"
| "execute_effect rn (BrightnessMove r rate) ts = on_room (\<lambda>n. execute_brightness_move n rate ts) r"
| "execute_effect rn (BrightnessStop r) ts = on_room (\<lambda>n. execute_brightness_stop n ts) r"
| "execute_effect rn (Toggle d confirm_off) ts = execute_toggle rn d confirm_off ts"
| "execute_effect rn (TurnOn d) ts = (\<lambda>p. do { n \<leftarrow> device_name (p_topology p) d;
     Some ([PublishDeviceSet d device_on], upd_plug n (command_plug PlugOn User ts) p) })"
| "execute_effect rn (TurnOff d) ts = (\<lambda>p. do { n \<leftarrow> device_name (p_topology p) d;
     Some ([PublishDeviceSet d device_off],
       upd_plug n (\<lambda>pl. on_off_clear_kill_switches (command_plug PlugOff User ts pl)) p) })"
| "execute_effect rn TurnOffAllZones ts = turn_off_all_zones ts"

definition dispatch_bindings :: "device_idx \<Rightarrow> string \<Rightarrow> gesture \<Rightarrow> instant \<Rightarrow> handler" where
  "dispatch_bindings d button g ts p =
     do { bs \<leftarrow> mapM (\<lambda>i. map_option (\<lambda>b. (rb_name b, rb_effect b)) (binding (p_topology p) i))
                  (bindings_for_button (p_topology p) d button g);
          for_each (\<lambda>(rn, e). execute_effect rn e ts) bs p }"

section \<open>Presses\<close>

definition insert_pending :: "string \<Rightarrow> string \<Rightarrow> instant \<Rightarrow> duration \<Rightarrow> bool \<Rightarrow> processor \<Rightarrow> processor" where
  "insert_pending device button ts window fired =
     upd_world (\<lambda>w. w\<lparr>w_pending_presses := bt_insert (device, button)
       \<lparr>pp_device = device, pp_button = button, pp_ts = ts, pp_deadline = ts + window, pp_already_fired = fired\<rparr>
       (w_pending_presses w)\<rparr>)"

definition remove_pending :: "string \<times> string \<Rightarrow> processor \<Rightarrow> processor" where
  "remove_pending key = upd_world (\<lambda>w. w\<lparr>w_pending_presses := bt_remove key (w_pending_presses w)\<rparr>)"

definition early_fire_room :: "resolved_effect \<Rightarrow> room_idx option" where
  "early_fire_room e = (case e of SceneToggle r \<Rightarrow> Some r | SceneCycle r \<Rightarrow> Some r
     | GroupSceneCycle r \<Rightarrow> Some r | SceneToggleCycle r \<Rightarrow> Some r | _ \<Rightarrow> None)"

definition can_early_fire_press :: "processor \<Rightarrow> device_idx \<Rightarrow> string \<Rightarrow> bool option" where
  "can_early_fire_press p d button =
     (let idxs = bindings_for_button (p_topology p) d button Press in
      if idxs = [] then Some False
      else allM (\<lambda>i. do { b \<leftarrow> binding (p_topology p) i;
               case early_fire_room (rb_effect b) of
                 None \<Rightarrow> Some False
               | Some r \<Rightarrow> do { ro \<leftarrow> room (p_topology p) r;
                   Some (case bt_get (w_light_zones (p_world p)) (room_name ro) of
                       None \<Rightarrow> False
                     | Some z \<Rightarrow> \<not> zone_is_on z \<and> is_known (lz_actual z)) } }) idxs)"

definition handle_hw_double_tap_deferred_press :: "string \<Rightarrow> string \<Rightarrow> device_idx \<Rightarrow> instant \<Rightarrow> handler" where
  "handle_hw_double_tap_deferred_press device button d ts p =
     do { window \<leftarrow> from_secs_f64 (soft_double_tap_window_seconds (p_defaults p));
          let stale = bt_get (w_pending_presses (p_world p)) (device, button);
          (e1, p1) \<leftarrow> (case stale of
                 None \<Rightarrow> Some ([], p)
               | Some s \<Rightarrow>
                   let p' = remove_pending (device, button) p in
                   if pp_already_fired s then Some ([], p')
                   else dispatch_bindings d (pp_button s) Press (pp_ts s) p');
          early \<leftarrow> can_early_fire_press p1 d button;
          (e2, p2) \<leftarrow> (if early then dispatch_bindings d button Press ts p1 else Some ([], p1));
          Some (e1 @ e2, insert_pending device button ts window early p2) }"

definition handle_soft_double_tap_press :: "string \<Rightarrow> string \<Rightarrow> device_idx \<Rightarrow> instant \<Rightarrow> handler" where
  "handle_soft_double_tap_press device button d ts p =
     do { window \<leftarrow> from_secs_f64 (soft_double_tap_window_seconds (p_defaults p));
          case bt_get (w_pending_presses (p_world p)) (device, button) of
            Some s \<Rightarrow>
              let p1 = remove_pending (device, button) p in
              if duration_since ts (pp_ts s) \<le> window then dispatch_bindings d button SoftDoubleTap ts p1
              else do { (e, p2) \<leftarrow> dispatch_bindings d (pp_button s) Press (pp_ts s) p1;
                        Some (e, insert_pending device button ts window False p2) }
          | None \<Rightarrow> Some ([], insert_pending device button ts window False p) }"

definition press_suppressed :: "string \<Rightarrow> string \<Rightarrow> instant \<Rightarrow> processor \<Rightarrow> bool option" where
  "press_suppressed device button ts p =
     (case bt_get (w_last_double_tap (p_world p)) (device, button) of
        None \<Rightarrow> Some False
      | Some last_dt \<Rightarrow>
          do { window \<leftarrow> from_secs_f64 (double_tap_suppression_seconds (p_defaults p));
               Some (duration_since ts last_dt < window) })"

definition handle_double_tap :: "string \<Rightarrow> string \<Rightarrow> device_idx \<Rightarrow> instant \<Rightarrow> handler" where
  "handle_double_tap device button d ts p =
     (let pending = bt_get (w_pending_presses (p_world p)) (device, button);
          p1 = remove_pending (device, button) p
      in if (case pending of None \<Rightarrow> False | Some s \<Rightarrow> pp_already_fired s) then Some ([], p1)
         else dispatch_bindings d button DoubleTap ts
                (upd_world (\<lambda>w. w\<lparr>w_last_double_tap := bt_insert (device, button) ts (w_last_double_tap w)\<rparr>) p1))"

definition handle_button_press :: "string \<Rightarrow> string \<Rightarrow> gesture \<Rightarrow> instant \<Rightarrow> handler" where
  "handle_button_press device button g ts p =
     (case device_idx_of (p_topology p) device of
        None \<Rightarrow> Some ([], p)
      | Some d \<Rightarrow>
          (case g of
             DoubleTap \<Rightarrow> handle_double_tap device button d ts p
           | Press \<Rightarrow>
               if is_hw_double_tap_button (p_topology p) d button then
                 do { suppressed \<leftarrow> press_suppressed device button ts p;
                      if suppressed then Some ([], p)
                      else handle_hw_double_tap_deferred_press device button d ts p }
               else if is_soft_double_tap_button (p_topology p) d button
               then handle_soft_double_tap_press device button d ts p
               else dispatch_bindings d button Press ts p
           | SoftDoubleTap \<Rightarrow> Some ([], p)
           | Hold \<Rightarrow> dispatch_bindings d button Hold ts p
           | HoldRelease \<Rightarrow> dispatch_bindings d button HoldRelease ts p))"

definition flush_press :: "(string \<times> string) \<times> pending_press \<Rightarrow> handler" where
  "flush_press kp p =
     (case kp of (key, pending) \<Rightarrow>
        let p1 = remove_pending key p in
        if pp_already_fired pending then Some ([], p1)
        else (case device_idx_of (p_topology p1) (pp_device pending) of
                None \<Rightarrow> Some ([], p1)
              | Some d \<Rightarrow> dispatch_bindings d (pp_button pending) Press (pp_ts pending) p1))"

definition flush_pending_presses :: "instant \<Rightarrow> handler" where
  "flush_pending_presses ts p =
     for_each flush_press (filter (\<lambda>(k, pending). ts \<ge> pp_deadline pending) (w_pending_presses (p_world p))) p"

section \<open>Timed actions\<close>

definition at_trigger :: "sun_times option \<Rightarrow> u8 \<Rightarrow> u8 \<Rightarrow> instant \<Rightarrow> resolved_binding \<Rightarrow> handler" where
  "at_trigger sun hour minute ts b p =
     (case timed_action_time p b of
        None \<Rightarrow> Some ([], p)
      | Some te \<Rightarrow>
          do { m \<leftarrow> resolve sun te;
               let target_hour = (m div 60) mod 256;
               let target_minute = (m mod 60) mod 256;
               if hour = target_hour \<and> minute = target_minute then
                 (if bt_get (w_at_last_fired (p_world p)) (rb_name b) = Some (target_hour, target_minute)
                  then Some ([], p)
                  else execute_effect (rb_name b) (rb_effect b) ts
                         (upd_world (\<lambda>w. w\<lparr>w_at_last_fired :=
                            bt_insert (rb_name b) (target_hour, target_minute) (w_at_last_fired w)\<rparr>) p))
               else Some ([], upd_world (\<lambda>w. w\<lparr>w_at_last_fired := bt_remove (rb_name b) (w_at_last_fired w)\<rparr>) p) })"

definition evaluate_at_triggers :: "instant \<Rightarrow> handler" where
  "evaluate_at_triggers ts p =
     do { (sun, p1) \<leftarrow> sun_times_of p;
          bs \<leftarrow> effective_bindings p1;
          for_each (at_trigger sun (ck_local_hour (p_clock p1)) (ck_local_minute (p_clock p1)) ts) bs p1 }"

section \<open>No button handler panics\<close>

definition effect_ok :: "topology \<Rightarrow> resolved_effect \<Rightarrow> bool" where
  "effect_ok t e =
     ((\<forall>r. effect_room e = Some r \<longrightarrow> r < length (t_rooms t)) \<and>
      (\<forall>d. effect_target_plug e = Some d \<longrightarrow> d < length (t_devices t)) \<and>
      (\<forall>c. effect_confirm_off_seconds e = Some c \<longrightarrow> window_ok c))"

lemma binding_effect_ok: "binding_ok t b \<Longrightarrow> effect_ok t (rb_effect b)"
  by (simp add: binding_ok_def effect_ok_def window_ok_def)

lemma on_room_safe:
  "proc_ok p \<Longrightarrow> r < length (t_rooms (p_topology p)) \<Longrightarrow> (\<And>n. safe (f n)) \<Longrightarrow> safe_at p (on_room f r p)"
  by (simp add: on_room_def room_def index_def safeD)

lemma stays_upd_plug:
  assumes "stays p q" and "\<And>pl. plug_ok pl \<Longrightarrow> plug_ok (f pl)"
  shows "stays p (upd_plug n f q)"
  using assms state_ok_fetch(3) [of p "p_world q" n] by (simp add: stays_def upd_plug_def state_ok_store)

lemma command_plug_ok [simp]: "plug_ok pl \<Longrightarrow> plug_ok (command_plug v ow ts pl)"
  by (simp add: command_plug_def plug_ok_target)

lemma stays_transient [simp]:
  "stays p (upd_world (\<lambda>w. w\<lparr>w_pending_presses := a w\<rparr>) q) = stays p q"
  "stays p (upd_world (\<lambda>w. w\<lparr>w_last_double_tap := b w\<rparr>) q) = stays p q"
  "stays p (upd_world (\<lambda>w. w\<lparr>w_at_last_fired := c w\<rparr>) q) = stays p q"
  "stays p (upd_world (\<lambda>w. w\<lparr>w_confirm_off_pending := d w\<rparr>) q) = stays p q"
  by (simp_all add: stays_def)

lemma execute_toggle_safe:
  assumes "proc_ok p" and "d < length (t_devices (p_topology p))" and "\<And>c. co = Some c \<Longrightarrow> window_ok c"
  shows "safe_at p (execute_toggle rn d co ts p)"
proof -
  have w: "\<exists>x. from_secs_f64 c = Some x" if "co = Some c" for c
    using assms(3) [OF that] by (intro from_secs_f64_total) (simp_all add: window_ok_def)
  show ?thesis
    using assms(1,2) w stays_refl [OF assms(1)]
    by (cases co) (auto simp: execute_toggle_def Let_def device_name_def index_def stays_upd_plug split: option.splits)
qed

lemma turn_off_zone_safe:
  assumes "proc_ok p" and "fst x < length (t_rooms (p_topology p))"
  shows "safe_at p (turn_off_zone ts x p)"
proof -
  have u: "zone_update_ok (\<lambda>z. z\<lparr>lz_target := set_and_command LZOff ow ts (lz_target z), lz_last_press_at := None,
      lz_last_off_at := Some ts\<rparr>)" for ow by simp
  show ?thesis
    using assms stays_upd_light_zone [OF stays_refl [OF assms(1)]] u
    by (cases x) (auto simp: turn_off_zone_def)
qed

lemma turn_off_all_zones_safe: "safe (turn_off_all_zones ts)"
proof (rule safeI)
  fix p assume p: "proc_ok p"
  let ?g = "\<lambda>(i, r). (i, room_name r, room_off_transition_seconds r, the (resolve_zone_owner p (room_name r) Schedule))"
  have "mapM (\<lambda>(i, r). do { ow \<leftarrow> resolve_zone_owner p (room_name r) Schedule;
      Some (i, room_name r, room_off_transition_seconds r, ow) }) (rooms_with_idx (p_topology p)) =
      Some (map ?g (rooms_with_idx (p_topology p)))"
  proof (rule mapM_Some_map)
    fix x :: "room_idx \<times> resolved_room"
    obtain ow where "resolve_zone_owner p (room_name (snd x)) Schedule = Some ow"
      using owner_total [OF proc_ok_topology [OF p]] by blast
    then show "(case x of (i, r) \<Rightarrow> do { ow \<leftarrow> resolve_zone_owner p (room_name r) Schedule;
        Some (i, room_name r, room_off_transition_seconds r, ow) }) = Some (?g x)" by (cases x) simp
  qed
  moreover have "safe_at p (for_each (turn_off_zone ts) (map ?g (rooms_with_idx (p_topology p))) p)"
  proof (rule safe_for_each [OF p])
    fix x q assume x: "x \<in> set (map ?g (rooms_with_idx (p_topology p)))" and q: "stays p q"
    have "fst x < length (t_rooms (p_topology p))" using x by (auto simp: rooms_with_idx_def in_set_enumerate_eq)
    then show "safe_at q (turn_off_zone ts x q)"
      using turn_off_zone_safe [OF stays_proc_ok [OF p q]] stays_topology [OF q] by simp
  qed
  ultimately show "safe_at p (turn_off_all_zones ts p)" by (simp add: turn_off_all_zones_def)
qed

lemma execute_effect_safe:
  assumes "proc_ok p" and "effect_ok (p_topology p) e"
  shows "safe_at p (execute_effect rn e ts p)"
  using assms execute_light_actions_safe stays_refl [OF assms(1)]
  by (cases e) (auto simp: effect_ok_def device_name_def index_def stays_upd_plug turn_off_all_zones_safe safeD
      intro!: on_room_safe execute_toggle_safe)

lemma dispatch_bindings_safe: "safe (dispatch_bindings d button g ts)"
proof (rule safeI)
  fix p assume p: "proc_ok p"
  let ?t = "p_topology p"
  have t: "topology_ok ?t" using p by (rule proc_ok_topology)
  let ?g = "\<lambda>i. (rb_name (t_bindings ?t ! i), rb_effect (t_bindings ?t ! i))"
  let ?is = "bindings_for_button ?t d button g"
  have "mapM (\<lambda>i. map_option (\<lambda>b. (rb_name b, rb_effect b)) (binding ?t i)) ?is = Some (map ?g ?is)"
    by (rule mapM_Some_map) (use bindings_for_button_bound [OF t] in \<open>simp add: binding_def index_def\<close>)
  moreover have "safe_at p (for_each (\<lambda>(rn, e). execute_effect rn e ts) (map ?g ?is) p)"
  proof (rule safe_for_each [OF p])
    fix x q assume x: "x \<in> set (map ?g ?is)" and q: "stays p q"
    obtain i where i: "x = ?g i" "i \<in> set ?is" using x unfolding set_map image_iff by blast
    from i(2) have b: "i < length (t_bindings ?t)" by (rule bindings_for_button_bound [OF t])
    have "effect_ok ?t (snd x)" using binding_effect_ok [OF topology_ok_binding [OF t b]] i(1) by simp
    then show "safe_at q ((case x of (rn, e) \<Rightarrow> execute_effect rn e ts) q)"
      using execute_effect_safe [OF stays_proc_ok [OF p q]] stays_topology [OF q] by (cases x) simp
  qed
  ultimately show "safe_at p (dispatch_bindings d button g ts p)" by (simp add: dispatch_bindings_def)
qed

lemma windows_total:
  assumes "proc_ok p"
  shows "\<exists>x. from_secs_f64 (soft_double_tap_window_seconds (p_defaults p)) = Some x"
    and "\<exists>x. from_secs_f64 (double_tap_suppression_seconds (p_defaults p)) = Some x"
  using assms from_secs_f64_total by (simp_all add: proc_ok_def config_ok_def window_ok_def)

lemma can_early_fire_total:
  assumes "proc_ok p"
  shows "\<exists>b. can_early_fire_press p d button = Some b"
proof -
  let ?t = "p_topology p"
  have t: "topology_ok ?t" using assms by (rule proc_ok_topology)
  have rb: "r < length (t_rooms ?t)" if "i < length (t_bindings ?t)" "early_fire_room (rb_effect (t_bindings ?t ! i)) = Some r" for i r
    using binding_effect_ok [OF topology_ok_binding [OF t that(1)]] that(2)
    by (auto simp: effect_ok_def early_fire_room_def split: resolved_effect.splits)
  have "\<exists>b. allM (\<lambda>i. do { b \<leftarrow> binding ?t i;
      case early_fire_room (rb_effect b) of None \<Rightarrow> Some False
      | Some r \<Rightarrow> do { ro \<leftarrow> room ?t r;
          Some (case bt_get (w_light_zones (p_world p)) (room_name ro) of None \<Rightarrow> False
                | Some z \<Rightarrow> \<not> zone_is_on z \<and> is_known (lz_actual z)) } }) (bindings_for_button ?t d button Press) = Some b"
  proof (rule allM_total)
    fix i assume "i \<in> set (bindings_for_button ?t d button Press)"
    then have "i < length (t_bindings ?t)" by (rule bindings_for_button_bound [OF t])
    then show "\<exists>b. do { b \<leftarrow> binding ?t i;
      case early_fire_room (rb_effect b) of None \<Rightarrow> Some False
      | Some r \<Rightarrow> do { ro \<leftarrow> room ?t r;
          Some (case bt_get (w_light_zones (p_world p)) (room_name ro) of None \<Rightarrow> False
                | Some z \<Rightarrow> \<not> zone_is_on z \<and> is_known (lz_actual z)) } } = Some b"
      using rb [of i] by (auto simp: binding_def index_def room_def split: option.split)
  qed
  then show ?thesis by (auto simp: can_early_fire_press_def Let_def)
qed

lemma pending_stays [simp]:
  "stays p (insert_pending dev b ts w f q) = stays p q" "stays p (remove_pending k q) = stays p q"
  by (simp_all add: insert_pending_def remove_pending_def)

lemma pending_topology [simp]:
  "p_topology (insert_pending dev b ts w f q) = p_topology q" "p_topology (remove_pending k q) = p_topology q"
  by (simp_all add: insert_pending_def remove_pending_def)

text \<open>Running a safe handler from a state that extends \<open>p\<close>.\<close>

lemma safe_from: "safe h \<Longrightarrow> proc_ok p \<Longrightarrow> stays p q \<Longrightarrow> safe_at p (h q)"
  by (metis safe_at_trans safeD stays_proc_ok)

lemma safe_fromE:
  assumes "safe_at p m"
  obtains e q where "m = Some (e, q)" and "list_all (eff_ok (p_topology p)) e" and "stays p q"
  using assms by (auto simp: safe_at_def wp_iff)

lemma hw_deferred_safe: "safe (handle_hw_double_tap_deferred_press device button d ts)"
proof (rule safeI)
  fix p assume p: "proc_ok p"
  note from_p = safe_from [OF dispatch_bindings_safe p]
  obtain window where w: "from_secs_f64 (soft_double_tap_window_seconds (p_defaults p)) = Some window"
    using windows_total(1) [OF p] by blast
  let ?first = "case bt_get (w_pending_presses (p_world p)) (device, button) of None \<Rightarrow> Some ([], p)
    | Some s \<Rightarrow> let p' = remove_pending (device, button) p in if pp_already_fired s then Some ([], p')
        else dispatch_bindings d (pp_button s) Press (pp_ts s) p'"
  have "safe_at p ?first" using stays_refl [OF p] from_p by (auto simp: Let_def split: option.split)
  then obtain e1 p1 where 1: "?first = Some (e1, p1)" "list_all (eff_ok (p_topology p)) e1" "stays p p1" by (rule safe_fromE)
  obtain early where e: "can_early_fire_press p1 d button = Some early"
    using can_early_fire_total [OF stays_proc_ok [OF p 1(3)]] by blast
  have "safe_at p (if early then dispatch_bindings d button Press ts p1 else Some ([], p1))" using 1(3) from_p by simp
  then obtain e2 p2 where "(if early then dispatch_bindings d button Press ts p1 else Some ([], p1)) = Some (e2, p2)"
    "list_all (eff_ok (p_topology p)) e2" "stays p p2" by (rule safe_fromE)
  then show "safe_at p (handle_hw_double_tap_deferred_press device button d ts p)"
    using w 1 e unfolding handle_hw_double_tap_deferred_press_def by (simp add: safe_at_def)
qed

lemma soft_double_tap_safe: "safe (handle_soft_double_tap_press device button d ts)"
proof (rule safeI)
  fix p assume p: "proc_ok p"
  note from_p = safe_from [OF dispatch_bindings_safe p]
  obtain window where w: "from_secs_f64 (soft_double_tap_window_seconds (p_defaults p)) = Some window"
    using windows_total(1) [OF p] by blast
  have "safe_at p (dispatch_bindings d b g t (remove_pending (device, button) p))" for b g t
    using from_p stays_refl [OF p] by simp
  then show "safe_at p (handle_soft_double_tap_press device button d ts p)"
    using w stays_refl [OF p] unfolding handle_soft_double_tap_press_def
    by (fastforce simp: Let_def safe_at_def elim: wp_mono split: option.split)
qed

lemma handle_button_press_safe: "safe (handle_button_press device button g ts)"
proof (rule safeI)
  fix p assume p: "proc_ok p"
  have "\<exists>b. press_suppressed device button ts p = Some b"
    using windows_total(2) [OF p] by (auto simp: press_suppressed_def split: option.split)
  moreover have "safe_at p (handle_double_tap device button d ts p)" for d
    using stays_refl [OF p] by (simp add: handle_double_tap_def Let_def safe_from [OF dispatch_bindings_safe p])
  ultimately show "safe_at p (handle_button_press device button g ts p)"
    using stays_refl [OF p] safeD [OF dispatch_bindings_safe p] safeD [OF hw_deferred_safe p] safeD [OF soft_double_tap_safe p]
    by (auto simp: handle_button_press_def split: option.split gesture.split)
qed

lemma flush_press_safe: "safe (flush_press x)"
  by (rule safeI) (auto simp: flush_press_def Let_def stays_refl safe_from [OF dispatch_bindings_safe] split: prod.split option.split)

lemma flush_pending_presses_safe: "safe (flush_pending_presses ts)"
  unfolding safe_def flush_pending_presses_def using safe_for_each_all [of flush_press] flush_press_safe by (simp add: safe_def)

lemma timed_action_time_stays: "stays p q \<Longrightarrow> timed_action_time q = timed_action_time p"
  by (intro ext) (simp add: timed_action_time_def stays_def cfg_fields(9) [of q p] split: resolved_trigger.split)

lemma at_trigger_safe:
  assumes "proc_ok p" and "effect_ok (p_topology p) (rb_effect b)"
    and "\<And>te. timed_action_time p b = Some te \<Longrightarrow> uses_sun te \<Longrightarrow> sun \<noteq> None"
  shows "safe_at p (at_trigger sun h m ts b p)"
proof -
  have r: "\<exists>x. resolve sun te = Some x" if "timed_action_time p b = Some te" for te
    using resolve_total assms(3) [OF that] by blast
  have "safe_at p (execute_effect (rb_name b) (rb_effect b) ts (upd_world (\<lambda>w. w\<lparr>w_at_last_fired := f w\<rparr>) p))" for f
  proof -
    let ?q = "upd_world (\<lambda>w. w\<lparr>w_at_last_fired := f w\<rparr>) p"
    have q: "stays p ?q" using stays_refl [OF assms(1)] by simp
    show ?thesis
      using safe_at_trans [OF q execute_effect_safe [OF stays_proc_ok [OF assms(1) q]]] assms(2) by simp
  qed
  then show ?thesis
    using r stays_refl [OF assms(1)] by (auto simp: at_trigger_def Let_def split: option.split)
qed

lemma effective_bindings_subset:
  assumes "effective_bindings p = Some bs" and "b \<in> set bs"
  shows "b \<in> set (t_bindings (p_topology p)) \<union> set (concat (bt_values (p_resolved_plug_bindings p)))"
proof -
  have "set ys \<subseteq> set xs" if "filterM f xs = Some ys" for f and xs ys :: "resolved_binding list"
    using that by (induction xs arbitrary: ys) (auto split: Option.bind_splits if_splits)
  then show ?thesis using assms by (fastforce simp: effective_bindings_def split: Option.bind_splits)
qed

lemma scheduled_binding_safe:
  assumes "proc_ok p" and "sun_times_of p = Some (sun, p1)" and "effective_bindings p1 = Some bs"
    and "b \<in> set bs" and "stays p1 q"
  shows "safe_at q (at_trigger sun h m ts b q)"
proof -
  obtain sun' c where sc: "sun_times_of p = Some (sun', p\<lparr>p_cached_sun := c\<rparr>)"
    and sun: "sun' = None \<longleftrightarrow> p_location p = None" using assms(1) by (rule sun_times_ofE)
  have eq: "sun' = sun" "p1 = p\<lparr>p_cached_sun := c\<rparr>" using sc assms(2) by simp_all
  have s1: "stays p p1" using stays_cached_sun [OF assms(1)] by (simp add: eq)
  have p1: "proc_ok p1" using stays_proc_ok [OF assms(1) s1] .
  have "list_all (binding_ok (p_topology p1)) bs"
    using effective_bindings_safe [OF p1] assms(3) by (auto simp: wp_iff)
  then have "effect_ok (p_topology q) (rb_effect b)"
    using assms(4) binding_effect_ok stays_topology [OF assms(5)] by (auto simp: list_all_iff)
  moreover have "sun \<noteq> None" if "timed_action_time q b = Some te" "uses_sun te" for te
    using that effective_bindings_subset [OF assms(3,4)] p1 sun timed_action_time_stays [OF assms(5)] stays_location [OF s1]
      timed_action_sun [of p1 b te] by (auto simp: proc_ok_def config_ok_def eq)
  ultimately show ?thesis by (rule at_trigger_safe [OF stays_proc_ok [OF p1 assms(5)]])
qed

lemma evaluate_at_triggers_safe: "safe (evaluate_at_triggers ts)"
proof (rule safeI)
  fix p assume p: "proc_ok p"
  obtain sun c where sc: "sun_times_of p = Some (sun, p\<lparr>p_cached_sun := c\<rparr>)" using p by (rule sun_times_ofE)
  define p1 where "p1 = p\<lparr>p_cached_sun := c\<rparr>"
  have s1: "stays p p1" using stays_cached_sun [OF p] by (simp add: p1_def)
  have p1: "proc_ok p1" using stays_proc_ok [OF p s1] .
  obtain bs where bs: "effective_bindings p1 = Some bs" using effective_bindings_safe [OF p1] by (auto simp: wp_iff)
  have "safe_at p1 (for_each (at_trigger sun (ck_local_hour (p_clock p1)) (ck_local_minute (p_clock p1)) ts) bs p1)"
    by (rule safe_for_each [OF p1]) (use scheduled_binding_safe [OF p sc] bs in \<open>simp add: p1_def\<close>)
  from safe_at_trans [OF s1 this] show "safe_at p (evaluate_at_triggers ts p)"
    using sc bs by (simp add: evaluate_at_triggers_def p1_def [symmetric])
qed

end
