(* ===== verification/Presses.thy ===== *)
theory Presses
  imports Buttons
begin

text \<open>
  Presses over time (\<open>src/crates/mqtt-controller/src/logic/buttons.rs\<close>, \<open>logic/schedule.rs\<close>): a
  deferred press takes effect exactly once, a plug that asks for confirmation is switched off by a
  second tap only, and a timed action fires once per matching minute.
\<close>

section \<open>Executing an effect leaves the press timers alone\<close>

definition timers :: "processor \<Rightarrow>
  (string \<times> string, pending_press) btree_map \<times> (string \<times> string, instant) btree_map \<times> (string, u8 \<times> u8) btree_map" where
  "timers p = (w_pending_presses (p_world p), w_last_double_tap (p_world p), w_at_last_fired (p_world p))"

lemma timers_simps [simp]:
  "timers (upd_light n f p) = timers p" "timers (upd_light_zone n g p) = timers p" "timers (upd_plug n h p) = timers p"
  "timers (upd_world (\<lambda>w. w\<lparr>w_confirm_off_pending := c w\<rparr>) p) = timers p"
  "timers (p\<lparr>p_cached_sun := s\<rparr>) = timers p"
  by (simp_all add: timers_def upd_light_def upd_light_zone_def upd_plug_def put_light_def put_light_zone_def put_plug_def)

lemma sun_times_of_timers: "sun_times_of p = Some (s, p') \<Longrightarrow> timers p' = timers p"
  by (auto simp: sun_times_of_def Let_def split: Option.bind_splits option.splits if_splits)

lemma foldM_timers:
  "foldM f xs p = Some p' \<Longrightarrow> (\<And>x q q'. f x q = Some q' \<Longrightarrow> timers q' = timers q) \<Longrightarrow> timers p' = timers p"
  by (erule foldM_invariant [where I = "\<lambda>q. timers q = timers p"]) simp_all

lemma for_each_timers:
  "for_each f xs p = Some (e, p') \<Longrightarrow> (\<And>x q e q'. f x q = Some (e, q') \<Longrightarrow> timers q' = timers q) \<Longrightarrow> timers p' = timers p"
  by (erule for_each_invariant [where I = "\<lambda>q. timers q = timers p"]) simp_all

lemma command_light_timers: "command_light v ow ts d p = Some p' \<Longrightarrow> timers p' = timers p"
  by (auto simp: command_light_def split: Option.bind_splits)

lemma record_group_timers: "record_group_light_command n v ow ts p = Some p' \<Longrightarrow> timers p' = timers p"
  by (auto simp: record_group_light_command_def dest!: foldM_timers split: Option.bind_splits option.splits intro: command_light_timers)

lemma propagate_timers: "propagate_to_descendants n on ts p = Some p' \<Longrightarrow> timers p' = timers p"
  by (auto simp: propagate_to_descendants_def propagate_zone_def dest!: foldM_timers split: Option.bind_splits option.splits)

lemma publish_off_timers: "publish_off n i tr ts ow p = Some (e, p') \<Longrightarrow> timers p' = timers p"
  by (auto simp: publish_off_def write_after_off_def split: Option.bind_splits dest!: propagate_timers record_group_timers)

lemma turn_off_room_timers: "execute_turn_off_room n ts p = Some (e, p') \<Longrightarrow> timers p' = timers p"
  by (auto simp: execute_turn_off_room_def dest!: publish_off_timers split: Option.bind_splits option.splits)

lemma recall_scene_timers: "recall_scene n i idx sid dc ts p = Some (e, p') \<Longrightarrow> timers p' = timers p"
  by (auto simp: recall_scene_def write_after_on_def dest!: propagate_timers record_group_timers split: Option.bind_splits if_splits)

lemma active_steps_timers: "active_switch_steps n p = Some (a, p') \<Longrightarrow> timers p' = timers p"
  by (auto simp: active_switch_steps_def dest!: sun_times_of_timers split: Option.bind_splits option.splits if_splits)

lemma step_member_timers: "step_member st tr ts l p = Some (e, p') \<Longrightarrow> timers p' = timers p"
  by (auto simp: step_member_def Let_def split: Option.bind_splits dest!: command_light_timers)

lemma switch_steps_timers: "execute_switch_steps n action ts p = Some (e, p') \<Longrightarrow> timers p' = timers p"
  by (auto simp: execute_switch_steps_def Let_def split: Option.bind_splits option.splits if_splits
      dest!: active_steps_timers turn_off_room_timers for_each_timers [OF _ step_member_timers])

lemma remove_light_timers: "remove_light tr ts l p = Some (e, p') \<Longrightarrow> timers p' = timers p"
  by (auto simp: remove_light_def split: Option.bind_splits dest!: command_light_timers)

lemma step_down_timers: "execute_scene_step_down n ts p = Some (e, p') \<Longrightarrow> timers p' = timers p"
  by (auto simp: execute_scene_step_down_def Let_def split: Option.bind_splits option.splits if_splits
      dest!: active_steps_timers turn_off_room_timers for_each_timers [OF _ remove_light_timers])

lemma scenes_for_room_timers: "scenes_for_room n p = Some (ids, p') \<Longrightarrow> timers p' = timers p"
  by (auto simp: scenes_for_room_def dest!: sun_times_of_timers split: Option.bind_splits option.splits)

lemma group_cycle_timers: "execute_group_scene_cycle n ts p = Some (e, p') \<Longrightarrow> timers p' = timers p"
  by (auto simp: execute_group_scene_cycle_def Let_def split: Option.bind_splits option.splits if_splits
      dest!: scenes_for_room_timers recall_scene_timers)

lemma group_toggle_timers: "group_scene_toggle n ts p = Some (e, p') \<Longrightarrow> timers p' = timers p"
  by (auto simp: group_scene_toggle_def Let_def split: Option.bind_splits option.splits if_splits list.splits
      dest!: scenes_for_room_timers recall_scene_timers publish_off_timers)

lemma group_toggle_cycle_timers: "group_scene_toggle_cycle n ts p = Some (e, p') \<Longrightarrow> timers p' = timers p"
  by (auto simp: group_scene_toggle_cycle_def Let_def split: Option.bind_splits option.splits if_splits list.splits
      dest!: scenes_for_room_timers recall_scene_timers publish_off_timers)

lemma or_else_timers:
  assumes "or_else f g p = Some (e, p')"
    and "\<And>p e p'. f p = Some (e, p') \<Longrightarrow> timers p' = timers p" and "\<And>p e p'. g p = Some (e, p') \<Longrightarrow> timers p' = timers p"
  shows "timers p' = timers p"
  using assms(1) by (auto simp: or_else_def dest!: assms(2,3) split: Option.bind_splits option.splits)

lemma switch_brightness_timers: "execute_switch_brightness n pay ts p = Some (e, p') \<Longrightarrow> timers p' = timers p"
  by (auto simp: execute_switch_brightness_def brightness_member_def split: Option.bind_splits option.splits
      dest!: for_each_timers command_light_timers)

lemma group_brightness_timers: "group_brightness n pay ts p = Some (e, p') \<Longrightarrow> timers p' = timers p"
  by (auto simp: group_brightness_def take_over_group_brightness_def take_over_light_def Let_def
      split: Option.bind_splits option.splits dest!: foldM_timers)

lemma toggle_timers: "execute_toggle rn d c ts p = Some (e, p') \<Longrightarrow> timers p' = timers p"
  by (auto simp: execute_toggle_def Let_def split: Option.bind_splits option.splits if_splits)

lemma all_zones_timers: "turn_off_all_zones ts p = Some (e, p') \<Longrightarrow> timers p' = timers p"
  by (auto simp: turn_off_all_zones_def turn_off_zone_def split: Option.bind_splits prod.splits if_splits dest!: for_each_timers)

lemma scene_timers:
  "execute_scene_cycle n ts p = Some (e, p') \<Longrightarrow> timers p' = timers p"
  "execute_scene_toggle n ts p = Some (e, p') \<Longrightarrow> timers p' = timers p"
  "execute_scene_toggle_cycle n ts p = Some (e, p') \<Longrightarrow> timers p' = timers p"
  unfolding execute_scene_cycle_def execute_scene_toggle_def execute_scene_toggle_cycle_def
  by (erule or_else_timers; blast intro: switch_steps_timers group_cycle_timers group_toggle_timers group_toggle_cycle_timers)+

lemma brightness_timers:
  "execute_brightness_step n st tr ts p = Some (e, p') \<Longrightarrow> timers p' = timers p"
  "execute_brightness_move n rate ts p = Some (e, p') \<Longrightarrow> timers p' = timers p"
  "execute_brightness_stop n ts p = Some (e, p') \<Longrightarrow> timers p' = timers p"
  unfolding execute_brightness_step_def execute_brightness_move_def execute_brightness_stop_def
  by (erule or_else_timers; blast intro: switch_brightness_timers group_brightness_timers)+

lemma execute_effect_timers: "execute_effect rn eff ts p = Some (e, p') \<Longrightarrow> timers p' = timers p"
  by (cases eff)
    (auto simp: on_room_def split: Option.bind_splits
      dest: scene_timers brightness_timers turn_off_room_timers step_down_timers group_cycle_timers toggle_timers all_zones_timers)

lemma dispatch_timers: "dispatch_bindings d button g ts p = Some (e, p') \<Longrightarrow> timers p' = timers p"
  by (auto simp: dispatch_bindings_def split: Option.bind_splits dest!: for_each_timers intro: execute_effect_timers)

section \<open>Deferred presses\<close>

lemma bt_remove_absent: "bt_get m k = None \<Longrightarrow> bt_remove k m = m"
  by (force simp: bt_remove_def bt_get_def map_of_eq_None_iff intro: filter_True)

text \<open>C26: A press whose meaning is still open is not lost and does not count twice. On a button with a hardware
  double tap a press is answered at once when this is harmless, and deferred otherwise; either way
  nothing more happens before its window has passed, and the first tick after that completes the
  effects of exactly one execution of the press's bindings and forgets it.\<close>

theorem deferred_press_fires_once:
  assumes "proc_ok p" and "device_idx_of (p_topology p) device = Some d" and "w_pending_presses (p_world p) = []"
    and "handle_hw_double_tap_deferred_press device button d ts p = Some (e1, p1)"
    and "from_secs_f64 (soft_double_tap_window_seconds (p_defaults p)) = Some window"
  shows "(\<forall>now < ts + window. flush_pending_presses now p1 = Some ([], p1)) \<and>
    (\<forall>now \<ge> ts + window. \<exists>e2 p2 q. flush_pending_presses now p1 = Some (e2, p2) \<and>
       dispatch_bindings d button Press ts p = Some (e1 @ e2, q) \<and> (e1 = [] \<or> e2 = []) \<and>
       w_pending_presses (p_world p2) = [])"
proof -
  obtain early where early: "can_early_fire_press p d button = Some early"
    using can_early_fire_total [OF assms(1)] by blast
  obtain e q where disp: "dispatch_bindings d button Press ts p = Some (e, q)" and q: "stays p q"
    using safeD [OF dispatch_bindings_safe assms(1), of d button Press ts] by (auto simp: safe_at_def wp_iff)
  have tq: "w_pending_presses (p_world q) = []" using dispatch_timers [OF disp] assms(3) by (simp add: timers_def)
  define r where "r = (if early then q else p)"
  have r: "w_pending_presses (p_world r) = []" "p_topology r = p_topology p" "early \<or> r = p"
    using tq assms(3) stays_topology [OF q] by (auto simp: r_def)
  have run: "p1 = insert_pending device button ts window early r" "e1 = (if early then e else [])"
    using assms(3-5) early disp by (auto simp: handle_hw_double_tap_deferred_press_def r_def split: if_splits)
  define pp where "pp = \<lparr>pp_device = device, pp_button = button, pp_ts = ts, pp_deadline = ts + window, pp_already_fired = early\<rparr>"
  have p1: "w_pending_presses (p_world p1) = [((device, button), pp)]" using r(1) by (simp add: run(1) insert_pending_def pp_def)
  have gone: "remove_pending (device, button) p1 = r"
    using r(1) by (simp add: run(1) insert_pending_def remove_pending_def bt_remove_def upd_world_def)
  have "flush_press ((device, button), pp) p1 = (if early then Some ([], q) else Some (e, q))"
    using gone assms(2) disp r(3) by (auto simp: flush_press_def Let_def pp_def r_def)
  then show ?thesis using p1 run(2) disp tq
    by (auto simp: flush_pending_presses_def pp_def)
qed

theorem deferred_press_fires_once_witness:
  "\<exists>p1 e2 p2. handle_hw_double_tap_deferred_press ''switch'' ''on'' 3 5 home = Some ([], p1) \<and>
     flush_pending_presses (5 + from_secs 1) p1 = Some (e2, p2) \<and> w_pending_presses (p_world p2) = [] \<and>
     (\<exists>q. dispatch_bindings 3 ''on'' Press 5 home = Some (e2, q))"
proof -
  have "map_option fst (handle_hw_double_tap_deferred_press ''switch'' ''on'' 3 5 home) = Some []" by code_simp
  then obtain p1 where h: "handle_hw_double_tap_deferred_press ''switch'' ''on'' 3 5 home = Some ([], p1)" by auto
  have d: "device_idx_of (p_topology home) ''switch'' = Some 3" "w_pending_presses (p_world home) = []"
    "from_secs_f64 (soft_double_tap_window_seconds (p_defaults home)) = Some 800000000" by code_simp+
  have "5 + 800000000 \<le> 5 + from_secs 1" by code_simp
  with deferred_press_fires_once [OF home_ok d(1,2) h d(3)] h show ?thesis by (metis append_Nil)
qed

section \<open>Timed actions\<close>

text \<open>Whether a binding is due at a minute, and what is recorded of it once it has been looked at.\<close>

definition due :: "sun_times option \<Rightarrow> u8 \<Rightarrow> u8 \<Rightarrow> processor \<Rightarrow> resolved_binding \<Rightarrow> bool" where
  "due sun h m p b = (\<exists>te x. timed_action_time p b = Some te \<and> resolve sun te = Some x \<and>
     h = (x div 60) mod 256 \<and> m = (x mod 60) mod 256)"

definition seen :: "sun_times option \<Rightarrow> u8 \<Rightarrow> u8 \<Rightarrow> processor \<Rightarrow> resolved_binding \<Rightarrow> processor \<Rightarrow> bool" where
  "seen sun h m p b q =
     (timed_action_time p b \<noteq> None \<longrightarrow>
        bt_get (w_at_last_fired (p_world q)) (rb_name b) = (if due sun h m p b then Some (h, m) else None))"

lemma at_trigger_step:
  assumes "at_trigger sun h m ts b q = Some (e, q')" and "timed_action_time q b = timed_action_time p b"
  shows "seen sun h m p b q' \<and>
    (\<forall>n. n \<noteq> rb_name b \<or> timed_action_time p b = None \<longrightarrow>
       bt_get (w_at_last_fired (p_world q')) n = bt_get (w_at_last_fired (p_world q)) n)"
proof -
  have fired: "w_at_last_fired (p_world q2) = w_at_last_fired (p_world q1)" if "execute_effect rn eff ts q1 = Some (e, q2)" for rn eff q1 q2
    using execute_effect_timers [OF that] by (simp add: timers_def)
  show ?thesis
    using assms by (auto simp: at_trigger_def seen_def due_def Let_def dest!: fired split: option.splits Option.bind_splits if_splits)
qed

lemma at_trigger_seen_idle:
  assumes "at_trigger sun h m ts b q = Some (e, q')" and "seen sun h m p b r"
    and "timed_action_time q b = timed_action_time p b" and "timed_action_time r b = timed_action_time p b"
  shows "at_trigger sun h m ts' b r = Some ([], r)"
proof (cases "timed_action_time p b")
  case None
  with assms(4) show ?thesis by (simp add: at_trigger_def)
next
  case (Some te)
  then obtain x where x: "resolve sun te = Some x" using assms(1,3) by (auto simp: at_trigger_def split: Option.bind_splits)
  have "upd_world (\<lambda>w. w\<lparr>w_at_last_fired := bt_remove (rb_name b) (w_at_last_fired w)\<rparr>) r = r"
    if "bt_get (w_at_last_fired (p_world r)) (rb_name b) = None"
    using bt_remove_absent [OF that] by (simp add: upd_world_def)
  then show ?thesis using Some x assms(2,4) by (auto simp: at_trigger_def seen_def due_def Let_def)
qed

text \<open>C27: A timed action happens once in its minute. After one pass over the bindings in force, a second pass
  within the same minute (a tick every few seconds makes several) publishes nothing and changes
  nothing, provided no two timed actions share a name.\<close>

theorem timed_actions_fire_once_per_minute:
  assumes "proc_ok p" and "sun_times_of p = Some (sun, p0)" and "effective_bindings p0 = Some bs"
    and "inj_on rb_name {b \<in> set bs. timed_action_time p0 b \<noteq> None}"
    and "for_each (at_trigger sun h m ts) bs p0 = Some (e, p1)"
  shows "for_each (at_trigger sun h m ts') bs p1 = Some ([], p1)"
proof -
  obtain c where "p0 = p\<lparr>p_cached_sun := c\<rparr>" using sun_times_ofE [OF assms(1)] assms(2) by (metis option.inject prod.inject)
  then have s0: "stays p p0" using stays_cached_sun [OF assms(1)] by simp
  have p0: "proc_ok p0" using stays_proc_ok [OF assms(1) s0] .
  have step: "stays p0 q' \<and> (\<exists>e. at_trigger sun h m ts b q = Some (e, q'))"
    if "b \<in> set bs" "stays p0 q" "at_trigger sun h m ts b q = Some (e, q')" for b q e q'
    using scheduled_binding_safe [OF assms(1-3) that(1,2), of h m ts] that(3) stays_trans [OF that(2)]
    by (auto simp: safe_at_def)
  have "stays p0 p1 \<and> (\<forall>b \<in> set bs. b \<in> set bs \<longrightarrow> seen sun h m p0 b p1 \<and> (\<exists>q e q'. stays p0 q \<and> at_trigger sun h m ts b q = Some (e, q')))"
    using assms(5)
  proof (rule for_each_establish)
    show "stays p0 p0" by (rule stays_refl [OF p0])
    fix b q e q' assume b: "b \<in> set bs" and q: "stays p0 q" and s: "at_trigger sun h m ts b q = Some (e, q')"
    note at = at_trigger_step [OF s, of p0] timed_action_time_stays [OF q]
    have "seen sun h m p0 y q'" if y: "y \<in> set bs" "seen sun h m p0 y q" for y
    proof (cases "timed_action_time p0 y = None \<or> y = b")
      case True
      then show ?thesis using at by (auto simp: seen_def)
    next
      case False
      then have "rb_name y \<noteq> rb_name b \<or> timed_action_time p0 b = None" using assms(4) b y(1) by (auto simp: inj_on_def)
      then show ?thesis using at y(2) by (simp add: seen_def)
    qed
    then show "stays p0 q' \<and> (b \<in> set bs \<longrightarrow> seen sun h m p0 b q' \<and> (\<exists>q e q'. stays p0 q \<and> at_trigger sun h m ts b q = Some (e, q'))) \<and>
       (\<forall>y. (y \<in> set bs \<longrightarrow> seen sun h m p0 y q \<and> (\<exists>q e q'. stays p0 q \<and> at_trigger sun h m ts y q = Some (e, q'))) \<longrightarrow>
          (y \<in> set bs \<longrightarrow> seen sun h m p0 y q' \<and> (\<exists>q e q'. stays p0 q \<and> at_trigger sun h m ts y q = Some (e, q'))))"
      using step [OF b q s] at q s by auto
  qed
  then have s1: "stays p0 p1" and seen: "\<forall>b \<in> set bs. seen sun h m p0 b p1 \<and> (\<exists>q e q'. stays p0 q \<and> at_trigger sun h m ts b q = Some (e, q'))"
    by simp_all
  show ?thesis
  proof (rule for_each_idle)
    fix b assume "b \<in> set bs"
    with seen obtain q e q' where "seen sun h m p0 b p1" "stays p0 q" "at_trigger sun h m ts b q = Some (e, q')" by blast
    with timed_action_time_stays [OF s1] show "at_trigger sun h m ts' b p1 = Some ([], p1)"
      by (intro at_trigger_seen_idle [of sun h m ts b q e q' p0 p1]) (simp_all add: timed_action_time_stays)
  qed
qed

theorem timed_actions_fire_once_per_minute_witness:
  "\<exists>p1. for_each (at_trigger None 23 30 5) (t_bindings house) home = Some ([PublishGroupSet 0 (state_off 1)], p1) \<and>
     for_each (at_trigger None 23 30 9) (t_bindings house) p1 = Some ([], p1)"
proof -
  have "map_option fst (for_each (at_trigger None 23 30 5) (t_bindings house) home) = Some [PublishGroupSet 0 (state_off 1)]" by code_simp
  then obtain p1 where f: "for_each (at_trigger None 23 30 5) (t_bindings house) home = Some ([PublishGroupSet 0 (state_off 1)], p1)" by auto
  have s: "sun_times_of home = Some (None, home)" by (simp add: sun_times_of_def home_def processor_new_def)
  have "effective_bindings home = Some (t_bindings house)" by code_simp
  moreover have "inj_on rb_name {b \<in> set (t_bindings house). timed_action_time home b \<noteq> None}"
    by (auto simp: inj_on_def house_def house_bindings_def)
  ultimately show ?thesis using timed_actions_fire_once_per_minute [OF home_ok s _ _ f] f by blast
qed

section \<open>Confirmed switch-off\<close>

text \<open>Taps on a toggle with a confirmation window, as a machine whose state is the tap that is waiting.\<close>

definition confirm_spec :: "duration \<Rightarrow> instant option \<Rightarrow> instant \<Rightarrow> bool \<times> instant option" where
  "confirm_spec window waiting ts =
     (case waiting of
        Some t \<Rightarrow> if duration_since ts t \<le> window then (True, None) else (False, Some ts)
      | None \<Rightarrow> (False, Some ts))"

text \<open>C25: Switching off a plug that asks for confirmation takes two taps. While the plug is on, a tap on its
  toggle follows the two-state machine: the first tap publishes nothing and leaves the plug as it
  is, a second one within the window switches it off and clears its kill switches, and one that
  comes too late counts as a first tap again.\<close>

theorem confirm_off_refines_spec:
  assumes "device_name (p_topology p) d = Some n" and "bt_get (w_plugs (p_world p)) n = Some pl" and "plug_is_on pl"
    and "from_secs_f64 w = Some window"
    and "confirm_spec window (bt_get (w_confirm_off_pending (p_world p)) rn) ts = (off, waiting)"
  shows "\<exists>p'. execute_toggle rn d (Some w) ts p = Some (if off then [PublishDeviceSet d device_off] else [], p') \<and>
    bt_get (w_confirm_off_pending (p_world p')) rn = waiting \<and>
    bt_get (w_plugs (p_world p')) n = Some (if off then on_off_clear_kill_switches (command_plug PlugOff User ts pl) else pl)"
  using assms
  by (auto simp: execute_toggle_def confirm_spec_def Let_def upd_plug_def put_plug_def plug_def bt_get_or_def split: option.splits if_splits)

definition kettle_on :: processor where
  "kettle_on = snd (the (execute_toggle ''kettle-tap'' 2 (Some 1) 1 home))"

theorem confirm_off_refines_spec_witness:
  "\<exists>p1 p2. execute_toggle ''kettle-tap'' 2 (Some 1) 5 kettle_on = Some ([], p1) \<and>
     execute_toggle ''kettle-tap'' 2 (Some 1) 7 p1 = Some ([PublishDeviceSet 2 device_off], p2)"
proof -
  have k: "device_name (p_topology kettle_on) 2 = Some ''kettle''"
    "map_option plug_is_on (bt_get (w_plugs (p_world kettle_on)) ''kettle'') = Some True"
    "from_secs_f64 1 = Some 1000000000" "bt_get (w_confirm_off_pending (p_world kettle_on)) ''kettle-tap'' = None"
    by code_simp+
  then obtain pl where pl: "bt_get (w_plugs (p_world kettle_on)) ''kettle'' = Some pl" "plug_is_on pl" by auto
  obtain p1 where 1: "execute_toggle ''kettle-tap'' 2 (Some 1) 5 kettle_on = Some ([], p1)"
    "bt_get (w_confirm_off_pending (p_world p1)) ''kettle-tap'' = Some 5" "bt_get (w_plugs (p_world p1)) ''kettle'' = Some pl"
    using confirm_off_refines_spec [OF k(1) pl k(3), of "''kettle-tap''" 5 False "Some 5"] k(4) by (auto simp: confirm_spec_def)
  have "device_name (p_topology p1) 2 = Some ''kettle''"
  proof -
    have "stays kettle_on p1 \<or> p_topology p1 = p_topology kettle_on"
      using 1(1) by (auto simp: execute_toggle_def Let_def upd_plug_def split: Option.bind_splits option.splits if_splits)
    then show ?thesis using k(1) stays_topology by metis
  qed
  from confirm_off_refines_spec [OF this 1(3) pl(2) k(3), of "''kettle-tap''" 7 True None] 1(1,2)
  show ?thesis by (auto simp: confirm_spec_def duration_since_def)
qed

end
