(* ===== verification/Vacancy.thy ===== *)
theory Vacancy
  imports Motion
begin

text \<open>
  The end of a motion session (\<open>src/crates/mqtt-controller/src/logic/motion.rs\<close>): which lights an
  empty room may switch off, that a room is empty only when every sensor says so, that the cooldown
  holds, and what the dashboard's motion switch takes away.
\<close>

section \<open>Frames\<close>

lemma take_session_fields [simp]:
  "p_settings (take_session r p) = p_settings p" "p_topology (take_session r p) = p_topology p"
  "light (p_world (take_session r p)) n = light (p_world p) n"
  "light_zone (p_world (take_session r p)) n = light_zone (p_world p) n"
  "light_at (take_session r p) d = light_at p d"
  "w_motion_sensors (p_world (take_session r p)) = w_motion_sensors (p_world p)"
  "bt_get (w_motion_rules (p_world (take_session r p))) m =
     (if m = mr_name r then map_option (\<lambda>s. s\<lparr>mrs_session := None\<rparr>) (bt_get (w_motion_rules (p_world p)) m)
      else bt_get (w_motion_rules (p_world p)) m)"
  by (simp_all add: take_session_def light_def light_zone_def light_at_def bt_get_modify)

lemma take_session_gone [simp]: "session_of (take_session r p) r = None"
  by (cases "bt_get (w_motion_rules (p_world p)) (mr_name r)") (simp_all add: session_of_def)

lemma take_session_allowed [simp]: "motion_allowed_for_light (take_session r p) = motion_allowed_for_light p"
  by (rule motion_allowed_cong) simp_all

lemma session_cong: "w_motion_rules (p_world q) = w_motion_rules (p_world p) \<Longrightarrow> session_of q r = session_of p r"
  by (simp add: session_of_def)

text \<open>Whether motion may switch a light off at the end of a session.\<close>

definition session_owns :: "processor \<Rightarrow> motion_session \<Rightarrow> light_endpoint \<Rightarrow> bool" where
  "session_owns p s l =
     (l \<in> set (mt_lights (mse_target s)) \<and> le_device l \<in> set (mse_claimed s) \<and>
      motion_allowed_for_light p (le_device l) \<and>
      (\<exists>n. device_name (p_topology p) (le_device l) = Some n \<and> tgt_owner (light_target (light (p_world p) n)) = Some Motion))"

lemma eligible_owned:
  assumes "eligible_lights s p = Some ls"
  shows "\<forall>l \<in> set ls. session_owns p s l" and "length ls \<le> length (mt_lights (mse_target s))"
    and "length ls = length (mt_lights (mse_target s)) \<Longrightarrow> ls = mt_lights (mse_target s)"
proof -
  define f where "f = (\<lambda>l. if bs_contains (mse_claimed s) (le_device l) \<and> motion_allowed_for_light p (le_device l)
     then map_option (\<lambda>lo. case lo of None \<Rightarrow> False | Some e \<Rightarrow> tgt_owner (light_target e) = Some Motion) (light_at p (le_device l))
     else Some False)"
  have ls: "filterM f (mt_lights (mse_target s)) = Some ls" using assms by (simp add: eligible_lights_def f_def)
  have all: "ys = filter (\<lambda>l. f l = Some True) xs" if "filterM f xs = Some ys" for xs ys
    using that by (induction xs arbitrary: ys) (auto split: Option.bind_splits if_splits)
  have "session_owns p s l" if l: "l \<in> set (mt_lights (mse_target s))" "f l = Some True" for l
  proof -
    obtain n e where "device_name (p_topology p) (le_device l) = Some n" "bt_get (w_lights (p_world p)) n = Some e"
        "tgt_owner (light_target e) = Some Motion"
      using l(2) by (auto simp: f_def light_at_def split: if_splits option.splits)
    then show ?thesis using l by (simp add: f_def session_owns_def light_def bt_get_or_def split: if_splits)
  qed
  then show "\<forall>l \<in> set ls. session_owns p s l" using all [OF ls] by auto
  show "length ls \<le> length (mt_lights (mse_target s))" using all [OF ls] by simp
  show "ls = mt_lights (mse_target s)" if "length ls = length (mt_lights (mse_target s))"
    using all [OF ls] that by (metis filter_id_conv length_filter_less less_irrefl)
qed

lemma command_lights_frame:
  assumes "foldM (\<lambda>l. command_light LTOff ow ts (le_device l)) ls p = Some p'"
  shows "w_motion_rules (p_world p') = w_motion_rules (p_world p) \<and> p_topology p' = p_topology p \<and>
    (\<forall>n. (\<forall>l \<in> set ls. device_name (p_topology p) (le_device l) \<noteq> Some n) \<longrightarrow> light (p_world p') n = light (p_world p) n)"
  using assms
proof (rule foldM_invariant)
  fix l q q'
  assume l: "l \<in> set ls" and q: "w_motion_rules (p_world q) = w_motion_rules (p_world p) \<and> p_topology q = p_topology p \<and>
      (\<forall>n. (\<forall>l \<in> set ls. device_name (p_topology p) (le_device l) \<noteq> Some n) \<longrightarrow> light (p_world q) n = light (p_world p) n)"
    and s: "command_light LTOff ow ts (le_device l) q = Some q'"
  then obtain m where "device_name (p_topology p) (le_device l) = Some m"
      "q' = upd_light m (\<lambda>e. e\<lparr>light_target := set_and_command LTOff ow ts (light_target e)\<rparr>) q"
    by (auto simp: command_light_def split: Option.bind_splits)
  with q l show "w_motion_rules (p_world q') = w_motion_rules (p_world p) \<and> p_topology q' = p_topology p \<and>
      (\<forall>n. (\<forall>l \<in> set ls. device_name (p_topology p) (le_device l) \<noteq> Some n) \<longrightarrow> light (p_world q') n = light (p_world p) n)"
    by auto
qed simp

lemma turn_off_frame:
  assumes "turn_off_motion_lights mt ls tr ts ow p = Some (e, p')"
  shows "w_motion_rules (p_world p') = w_motion_rules (p_world p) \<and>
    (\<forall>n. (\<forall>l \<in> set ls. device_name (p_topology p) (le_device l) \<noteq> Some n) \<longrightarrow> light (p_world p') n = light (p_world p) n)"
    and "x \<in> set e \<Longrightarrow> (\<exists>l \<in> set ls. x = PublishLightSet l (state_off tr)) \<or>
      (\<exists>g. mt_group mt = Some g \<and> length ls = length (mt_lights mt) \<and> x = PublishGroupSet g (state_off tr))"
proof -
  obtain p1 where p1: "foldM (\<lambda>l. command_light LTOff ow ts (le_device l)) ls p = Some p1"
    using assms by (auto simp: turn_off_motion_lights_def split: Option.bind_splits)
  note f = command_lights_frame [OF p1]
  show "w_motion_rules (p_world p') = w_motion_rules (p_world p) \<and>
    (\<forall>n. (\<forall>l \<in> set ls. device_name (p_topology p) (le_device l) \<noteq> Some n) \<longrightarrow> light (p_world p') n = light (p_world p) n)"
    using assms p1 f by (auto simp: turn_off_motion_lights_def Let_def split: option.splits if_splits Option.bind_splits)
  show "x \<in> set e \<Longrightarrow> (\<exists>l \<in> set ls. x = PublishLightSet l (state_off tr)) \<or>
      (\<exists>g. mt_group mt = Some g \<and> length ls = length (mt_lights mt) \<and> x = PublishGroupSet g (state_off tr))"
    using assms p1 by (auto simp: turn_off_motion_lights_def Let_def split: option.splits if_splits Option.bind_splits)
qed

text \<open>Releasing a session only passes ownership on.\<close>

lemma release_frame:
  assumes "release_motion_session r ts p = Some p'"
  shows "tgt_value (light_target (light (p_world p') n)) = tgt_value (light_target (light (p_world p) n)) \<and> session_of p' r = None"
proof (cases "session_of p r")
  case None
  with assms show ?thesis by (simp add: release_motion_session_def)
next
  case (Some s)
  then obtain p1 where p1: "foldM (release_light ts) (mt_lights (mse_target s)) (take_session r p) = Some p1"
    using assms by (auto simp: release_motion_session_def split: Option.bind_splits)
  have val: "tgt_value (reassign_owner ow t tg) = tgt_value tg" for ow t and tg :: "light_target tass_target"
    by (simp add: reassign_owner_def split: target_phase.split)
  have "tgt_value (light_target (light (p_world p1) n)) = tgt_value (light_target (light (p_world p) n)) \<and>
      w_motion_rules (p_world p1) = w_motion_rules (p_world (take_session r p))"
    using p1
  proof (rule foldM_invariant)
    fix l q q' assume "release_light ts l q = Some q'"
      and "tgt_value (light_target (light (p_world q) n)) = tgt_value (light_target (light (p_world p) n)) \<and>
        w_motion_rules (p_world q) = w_motion_rules (p_world (take_session r p))"
    then show "tgt_value (light_target (light (p_world q') n)) = tgt_value (light_target (light (p_world p) n)) \<and>
        w_motion_rules (p_world q') = w_motion_rules (p_world (take_session r p))"
      by (auto simp: release_light_def val split: Option.bind_splits)
  qed simp
  moreover have "p' = p1 \<or> (\<exists>m f. p' = upd_light_zone m f p1)"
    using assms Some p1 by (auto simp: release_motion_session_def split: option.splits Option.bind_splits)
  ultimately show ?thesis by (auto simp: session_cong [of _ "take_session r p"])
qed

section \<open>Vacancy\<close>

text \<open>C28: An empty room switches off only what motion switched on. When a session ends, every light that is
  commanded off was claimed by this session, still belongs to motion (nobody has taken it over
  since) and lies in no group whose motion is disabled; a whole group is commanded only when this
  holds of all its lights; an on-only rule switches nothing off; every other light keeps the state
  it was asked for; and the session is over.\<close>

theorem vacancy_switches_off_own_lights:
  assumes "finish_motion_session r ts ow p = Some (e, p')" and "session_of p r = Some s"
  shows "(\<forall>l pay. PublishLightSet l pay \<in> set e \<longrightarrow> session_owns p s l) \<and>
    (\<forall>g pay. PublishGroupSet g pay \<in> set e \<longrightarrow>
       mt_group (mse_target s) = Some g \<and> list_all (session_owns p s) (mt_lights (mse_target s))) \<and>
    (e \<noteq> [] \<longrightarrow> mr_mode r \<noteq> OnOnly) \<and> session_of p' r = None \<and>
    (\<forall>n. (\<forall>l. session_owns p s l \<longrightarrow> device_name (p_topology p) (le_device l) \<noteq> Some n) \<longrightarrow>
       tgt_value (light_target (light (p_world p') n)) = tgt_value (light_target (light (p_world p) n)))"
proof -
  obtain off where off: "motion_target_is_off p (mse_target s) = Some off"
    using assms by (auto simp: finish_motion_session_def split: Option.bind_splits)
  let ?p1 = "take_session r p"
  consider (released) "release_motion_session r ts p = Some p'" "e = []"
    | (kept) "p' = ?p1" "e = []"
    | (off) ls p2 where "mr_mode r \<noteq> OnOnly" "eligible_lights s ?p1 = Some ls"
        "turn_off_motion_lights (mse_target s) ls (mr_off_transition_seconds r) ts ow ?p1 = Some (e, p2)"
        "p' = (if e = [] then p2 else upd_world (\<lambda>w. put_motion_rule (mr_name r)
                 ((motion_rule_of w (mr_name r))\<lparr>mrs_last_motion_off_at := Some ts\<rparr>) w) p2)"
    using assms off
    by (auto simp: finish_motion_session_def Let_def split: Option.bind_splits if_splits)
  then show ?thesis
  proof cases
    case released
    with release_frame show ?thesis by simp
  next
    case kept
    then show ?thesis by simp
  next
    case (off ls p2)
    have owns: "session_owns ?p1 s = session_owns p s" by (rule ext) (simp add: session_owns_def)
    note el = eligible_owned [OF off(2), unfolded owns] and tf = turn_off_frame [OF off(3)]
    have "session_of p2 r = None" using tf(1) session_cong [of p2 ?p1 r] by simp
    then have over: "session_of p' r = None"
      unfolding off(4) by (auto simp: session_of_def put_motion_rule_def motion_rule_of_def bt_get_or_def motion_rule_default_def split: option.splits)
    have lights: "light (p_world p') n = light (p_world p2) n" for n
      unfolding off(4) by (simp add: put_motion_rule_def light_def)
    have "x = PublishLightSet l pay \<Longrightarrow> session_owns p s l" if "x \<in> set e" for x l pay
      using tf(2) [OF that] el(1) by auto
    moreover have "x = PublishGroupSet g pay \<Longrightarrow>
        mt_group (mse_target s) = Some g \<and> list_all (session_owns p s) (mt_lights (mse_target s))" if "x \<in> set e" for x g pay
      using tf(2) [OF that] el(1,3) by (auto simp: list_all_iff)
    moreover have "tgt_value (light_target (light (p_world p') n)) = tgt_value (light_target (light (p_world p) n))"
      if "\<forall>l. session_owns p s l \<longrightarrow> device_name (p_topology p) (le_device l) \<noteq> Some n" for n
      using tf(1) el(1) that by (auto simp: lights)
    ultimately show ?thesis using off(1) over by blast
  qed
qed

text \<open>The home in which motion has switched the hall on.\<close>

definition occupied_home :: processor where
  "occupied_home = snd (the (handle_occupancy ''pir'' True None 5 home))"

definition hall_session :: motion_session where
  "hall_session = \<lparr>mse_slot = ''day'', mse_target = house_target, mse_claimed = [0]\<rparr>"

lemma occupied_session: "session_of occupied_home house_rule = Some hall_session"
  by code_simp

theorem vacancy_switches_off_own_lights_witness:
  "\<exists>p'. finish_motion_session house_rule 99 Motion occupied_home = Some ([PublishGroupSet 0 (state_off 1)], p') \<and>
     list_all (session_owns occupied_home hall_session) (mt_lights house_target) \<and> session_of p' house_rule = None"
proof -
  have "map_option fst (finish_motion_session house_rule 99 Motion occupied_home) = Some [PublishGroupSet 0 (state_off 1)]"
    by code_simp
  then obtain p' where f: "finish_motion_session house_rule 99 Motion occupied_home = Some ([PublishGroupSet 0 (state_off 1)], p')"
    by auto
  from vacancy_switches_off_own_lights [OF f occupied_session] f show ?thesis by (simp add: hall_session_def)
qed

text \<open>C29: A room is empty only when all its sensors say so. When a sensor reports vacancy while each of the
  rules it serves has another sensor that still sees somebody, nothing is published, and lights,
  groups and sessions stay as they are.\<close>

theorem vacancy_waits_for_all_sensors:
  assumes "mapM (motion_rule (p_topology p)) (motion_rules_for_sensor (p_topology p) sensor) = Some rules"
    and "\<forall>r \<in> set rules. \<exists>b \<in> set (mr_sensors r). mb_sensor b \<noteq> sensor \<and>
           (\<exists>e. bt_get (w_motion_sensors (p_world p)) (mb_sensor b) = Some e \<and> is_occupied e)"
  shows "\<exists>p'. handle_occupancy sensor False ill ts p = Some ([], p') \<and>
    w_lights (p_world p') = w_lights (p_world p) \<and> w_light_zones (p_world p') = w_light_zones (p_world p) \<and>
    w_motion_rules (p_world p') = w_motion_rules (p_world p)"
proof -
  let ?p1 = "upd_world (\<lambda>w. put_motion_sensor sensor ((motion_sensor w sensor)\<lparr>ms_actual :=
     actual_update \<lparr>ma_occupied = False, ma_illuminance = ill\<rparr> ts (ms_actual (motion_sensor w sensor))\<rparr>) w) p"
  have "motion_rule_occupied ?p1 r" if r: "r \<in> set rules" for r
  proof -
    obtain b e where b: "b \<in> set (mr_sensors r)" "mb_sensor b \<noteq> sensor"
        "bt_get (w_motion_sensors (p_world p)) (mb_sensor b) = Some e" "is_occupied e"
      using assms(2) r by blast
    then show ?thesis unfolding motion_rule_occupied_def list_ex_iff
      by (intro bexI [OF _ b(1)]) (simp add: put_motion_sensor_def)
  qed
  then have "for_each (occupancy_rule False ill ts) (map (\<lambda>r. (r, motion_rule_occupied p r)) rules) ?p1 = Some ([], ?p1)"
    by (intro for_each_idle) (auto simp: occupancy_rule_def)
  then have "handle_occupancy sensor False ill ts p = Some ([], ?p1)"
    using assms(1) by (simp add: handle_occupancy_def Let_def)
  then show ?thesis by (simp add: put_motion_sensor_def)
qed

definition two_sensors :: processor where
  "two_sensors = snd (the (handle_occupancy ''pir-2'' True None 5
     (home\<lparr>p_topology := house\<lparr>t_motion_rules := [house_rule\<lparr>mr_sensors :=
        [\<lparr>mb_sensor = ''pir'', mb_occupancy_timeout_seconds = 60\<rparr>,
         \<lparr>mb_sensor = ''pir-2'', mb_occupancy_timeout_seconds = 60\<rparr>]\<rparr>]\<rparr>\<rparr>)))"

theorem vacancy_waits_for_all_sensors_witness:
  "\<exists>p'. handle_occupancy ''pir'' False None 9 two_sensors = Some ([], p') \<and>
     w_light_zones (p_world p') = w_light_zones (p_world two_sensors)"
proof -
  have m: "map_option (map mr_sensors) (mapM (motion_rule (p_topology two_sensors)) (motion_rules_for_sensor (p_topology two_sensors) ''pir'')) =
      Some [[\<lparr>mb_sensor = ''pir'', mb_occupancy_timeout_seconds = 60\<rparr>, \<lparr>mb_sensor = ''pir-2'', mb_occupancy_timeout_seconds = 60\<rparr>]]"
    by code_simp
  then obtain r where r: "mapM (motion_rule (p_topology two_sensors)) (motion_rules_for_sensor (p_topology two_sensors) ''pir'') = Some [r]"
      "\<lparr>mb_sensor = ''pir-2'', mb_occupancy_timeout_seconds = 60\<rparr> \<in> set (mr_sensors r)"
    by (auto simp: map_eq_Cons_conv)
  have "(case bt_get (w_motion_sensors (p_world two_sensors)) ''pir-2'' of None \<Rightarrow> False | Some e \<Rightarrow> is_occupied e)"
    by code_simp
  then have "\<forall>r' \<in> set [r]. \<exists>b \<in> set (mr_sensors r'). mb_sensor b \<noteq> ''pir'' \<and>
      (\<exists>e. bt_get (w_motion_sensors (p_world two_sensors)) (mb_sensor b) = Some e \<and> is_occupied e)"
    using r(2) by (auto intro!: bexI [OF _ r(2)] split: option.splits)
  from vacancy_waits_for_all_sensors [OF r(1) this] show ?thesis by blast
qed

section \<open>The motion switch\<close>

lemma foldM_establish:
  assumes "foldM f xs p = Some p'" and "I p"
    and "\<And>x q q'. x \<in> set xs \<Longrightarrow> I q \<Longrightarrow> f x q = Some q' \<Longrightarrow> I q' \<and> P x q' \<and> (\<forall>y. P y q \<longrightarrow> P y q')"
  shows "I p' \<and> (\<forall>x \<in> set xs. P x p')"
  using assms
proof (induction xs arbitrary: p)
  case (Cons x xs)
  obtain p1 where s: "f x p = Some p1" "foldM f xs p1 = Some p'"
    using Cons.prems(1) by (auto split: Option.bind_splits)
  have 1: "I p1 \<and> P x p1" using Cons.prems s(1) by auto
  have "I p' \<and> P x p'"
    using s(2)
  proof (rule foldM_invariant)
    fix y q q' assume "y \<in> set xs" "I q \<and> P x q" "f y q = Some q'"
    then show "I q' \<and> P x q'" using Cons.prems(3) [of y q q'] by auto
  qed (use 1 in simp)
  moreover have "I p' \<and> (\<forall>x \<in> set xs. P x p')" by (rule Cons.IH [OF s(2)]) (use 1 Cons.prems(3) in auto)
  ultimately show ?case by simp
qed simp

lemma light_modified:
  "light (w\<lparr>w_lights := bt_modify n f (w_lights w)\<rparr>) m = (if m = n \<and> bt_contains_key (w_lights w) n then f (light w n) else light w m)"
  by (auto simp: light_def bt_get_or_def bt_get_modify bt_contains_key_def split: option.splits)

lemma owned_exists: "tgt_owner (light_target (light w n)) = Some ow \<Longrightarrow> bt_contains_key (w_lights w) n"
  by (cases "bt_get (w_lights w) n") (simp_all add: light_def bt_get_or_def light_default_def bt_contains_key_def)

abbreviation owned_by_motion :: "string \<Rightarrow> processor \<Rightarrow> bool" where
  "owned_by_motion n q \<equiv> tgt_owner (light_target (light (p_world q) n)) = Some Motion"

lemma disown_lights_effect:
  assumes "foldM (disown_light ts) ds p = Some p'" and "\<forall>n. light_ok (light (p_world p) n)"
  shows "p_topology p' = p_topology p \<and> p_settings p' = p_settings p \<and> w_motion_rules (p_world p') = w_motion_rules (p_world p) \<and>
    (\<forall>d \<in> set ds. \<forall>n. device_name (p_topology p) d = Some n \<longrightarrow> \<not> owned_by_motion n p')"
proof -
  let ?I = "\<lambda>q. p_topology q = p_topology p \<and> p_settings q = p_settings p \<and> w_motion_rules (p_world q) = w_motion_rules (p_world p) \<and>
      (\<forall>n. owned_by_motion n q \<longrightarrow> tgt_value (light_target (light (p_world q) n)) \<noteq> None)"
  have "?I p' \<and> (\<forall>d \<in> set ds. \<forall>n. device_name (p_topology p) d = Some n \<longrightarrow> \<not> owned_by_motion n p')"
    using assms(1)
  proof (rule foldM_establish)
    have "tgt_value (light_target (light (p_world p) n)) \<noteq> None" if "owned_by_motion n p" for n
      using spec [OF assms(2), of n] that unfolding light_ok_def target_ok_def by auto
    then show "?I p" by blast
    fix d q q' assume d: "d \<in> set ds" and I: "?I q" and s: "disown_light ts d q = Some q'"
    obtain n where n: "device_name (p_topology p) d = Some n"
      "q' = upd_world (\<lambda>w. w\<lparr>w_lights := bt_modify n (\<lambda>e. if tgt_owner (light_target e) = Some Motion
          then e\<lparr>light_target := reassign_owner System ts (light_target e)\<rparr> else e) (w_lights w)\<rparr>) q"
      using s I by (auto simp: disown_light_def split: Option.bind_splits)
    have m: "\<not> owned_by_motion m q \<longrightarrow> \<not> owned_by_motion m q'" "\<not> owned_by_motion n q'"
        "owned_by_motion m q' \<longrightarrow> owned_by_motion m q \<and> light (p_world q') m = light (p_world q) m" for m
      using I by (auto simp: n(2) light_modified reassign_owner_owner dest: owned_exists)
    show "?I q' \<and> (\<forall>n. device_name (p_topology p) d = Some n \<longrightarrow> \<not> owned_by_motion n q') \<and>
        (\<forall>y. (\<forall>n. device_name (p_topology p) y = Some n \<longrightarrow> \<not> owned_by_motion n q) \<longrightarrow>
           (\<forall>n. device_name (p_topology p) y = Some n \<longrightarrow> \<not> owned_by_motion n q'))"
    proof (intro conjI allI impI)
      show "p_topology q' = p_topology p" "p_settings q' = p_settings p" "w_motion_rules (p_world q') = w_motion_rules (p_world p)"
        using I by (simp_all add: n(2))
      show "owned_by_motion k q' \<Longrightarrow> tgt_value (light_target (light (p_world q') k)) \<noteq> None" for k using m(3) [of k] I by auto
      show "device_name (p_topology p) d = Some k \<Longrightarrow> \<not> owned_by_motion k q'" for k using m(2) n(1) by simp
      show "\<forall>n. device_name (p_topology p) y = Some n \<longrightarrow> \<not> owned_by_motion n q \<Longrightarrow>
          device_name (p_topology p) y = Some k \<Longrightarrow> \<not> owned_by_motion k q'" for y k using m(1) [of k] by blast
    qed
  qed
  then show ?thesis by blast
qed

abbreviation claims_in :: "processor \<Rightarrow> string \<Rightarrow> device_idx set" where
  "claims_in q n \<equiv> (case Option.bind (bt_get (w_motion_rules (p_world q)) n) mrs_session of None \<Rightarrow> {} | Some s \<Rightarrow> set (mse_claimed s))"

lemma disown_sessions_effect:
  assumes "foldM (disown_session blocked ts) ns p = Some p'"
    and "\<forall>n. n \<notin> set ns \<longrightarrow> bt_get (w_motion_rules (p_world p)) n = None"
  shows "p_topology p' = p_topology p \<and> p_settings p' = p_settings p \<and> w_lights (p_world p') = w_lights (p_world p) \<and>
    (\<forall>n. claims_in p' n \<inter> set blocked = {})"
proof -
  let ?I = "\<lambda>q. p_topology q = p_topology p \<and> p_settings q = p_settings p \<and> w_lights (p_world q) = w_lights (p_world p) \<and>
      (\<forall>n. n \<notin> set ns \<longrightarrow> bt_get (w_motion_rules (p_world q)) n = None)"
  have "?I p' \<and> (\<forall>n \<in> set ns. claims_in p' n \<inter> set blocked = {})"
    using assms(1)
  proof (rule foldM_establish)
    show "?I p" using assms(2) by simp
    fix n q q' assume n: "n \<in> set ns" and I: "?I q" and s: "disown_session blocked ts n q = Some q'"
    show "?I q' \<and> claims_in q' n \<inter> set blocked = {} \<and> (\<forall>m. claims_in q m \<inter> set blocked = {} \<longrightarrow> claims_in q' m \<inter> set blocked = {})"
    proof (cases "Option.bind (bt_get (w_motion_rules (p_world q)) n) mrs_session")
      case None
      with s I show ?thesis by (simp add: disown_session_def)
    next
      case (Some se)
      let ?s = "se\<lparr>mse_claimed := filter (\<lambda>d. \<not> bs_contains blocked d) (mse_claimed se)\<rparr>"
      let ?zones = "if list_ex (\<lambda>l. bs_contains blocked (le_device l)) (mt_lights (mse_target ?s)) then
          (case mt_group (mse_target ?s) of None \<Rightarrow> Some q
           | Some g \<Rightarrow> do { ro \<leftarrow> room (p_topology q) g; Some (upd_world (\<lambda>w. w\<lparr>w_light_zones :=
               bt_modify (room_name ro) (release_zone_target ts) (w_light_zones w)\<rparr>) q) }) else Some q"
      obtain q1 where z: "?zones = Some q1"
        and q': "q' = upd_world (\<lambda>w. put_motion_rule n ((motion_rule_of w n)\<lparr>mrs_session :=
             (if mse_claimed ?s = [] then None else Some ?s)\<rparr>) w) q1"
        using s Some unfolding disown_session_def Let_def by (cases ?zones) simp_all
      have q1: "p_topology q1 = p_topology q" "p_settings q1 = p_settings q" "w_lights (p_world q1) = w_lights (p_world q)"
          "w_motion_rules (p_world q1) = w_motion_rules (p_world q)"
        using z by (auto split: if_splits option.splits Option.bind_splits)
      have "bt_get (w_motion_rules (p_world q')) m =
          (if m = n then Some ((motion_rule_of (p_world q1) n)\<lparr>mrs_session := (if mse_claimed ?s = [] then None else Some ?s)\<rparr>)
           else bt_get (w_motion_rules (p_world q)) m)" for m
        by (simp add: q' put_motion_rule_def q1)
      then show ?thesis using I n q1 by (auto simp: q' put_motion_rule_def split: option.splits)
    qed
  qed
  moreover have "claims_in p' n \<inter> set blocked = {}" if "n \<notin> set ns" for n using that calculation by simp
  ultimately show ?thesis by blast
qed

text \<open>C30: Switching motion off in a room takes the room away from motion. Afterwards motion is not allowed for
  any light of the room, none of them belongs to motion, and no session of any rule claims one.\<close>

theorem disabling_motion_releases_room:
  assumes "proc_ok p" and "set_motion_enabled n False ts p = Some (Inr (), p')"
    and "room_by_name (p_topology p) n = Some (Some ro)" and "l \<in> set (room_light_members ro)"
    and "device_name (p_topology p) (le_device l) = Some dn"
  shows "\<not> motion_allowed_for_light p' (le_device l) \<and>
    tgt_owner (light_target (light (p_world p') dn)) \<noteq> Some Motion \<and>
    (\<forall>r s. session_of p' r = Some s \<longrightarrow> le_device l \<notin> set (mse_claimed s))"
proof -
  define p1 where "p1 = p\<lparr>p_settings := (p_settings p)\<lparr>disabled_zones := bs_insert n (disabled_zones (p_settings p))\<rparr>\<rparr>"
  let ?b = "bs_of_list (map le_device (room_light_members ro))"
  obtain p2 where p2: "foldM (disown_light ts) ?b p1 = Some p2"
      "foldM (disown_session ?b ts) (bt_keys (w_motion_rules (p_world p2))) p2 = Some p'"
    using assms(2,3) unfolding p1_def
    by (auto simp: set_motion_enabled_def validate_motion_zone_def Let_def bind_eq_Some_conv split: if_splits)
  have ok: "\<forall>m. light_ok (light (p_world p1) m)"
    using stays_light [OF stays_refl [OF assms(1)]] by (simp add: p1_def)
  note e2 = disown_lights_effect [OF p2(1) ok]
  have e3: "p_topology p' = p_topology p2 \<and> p_settings p' = p_settings p2 \<and> w_lights (p_world p') = w_lights (p_world p2) \<and>
      (\<forall>m. claims_in p' m \<inter> set ?b = {})"
    by (rule disown_sessions_effect [OF p2(2)]) (auto simp: bt_keys_def bt_get_def map_of_eq_None_iff)
  have l: "le_device l \<in> set ?b" using assms(4) by simp
  obtain i where i: "ro \<in> set (t_rooms (p_topology p))" "room_name ro = n"
    using assms(3) room_idx_of_name [OF proc_ok_topology [OF assms(1)]]
    by (auto simp: room_by_name_def room_def index_def split: option.splits if_splits)
  have "\<not> motion_enabled p' (room_name ro)" using e2 e3 i(2) by (simp add: motion_enabled_def p1_def)
  then have "\<not> motion_allowed_for_light p' (le_device l)"
    using i(1) assms(4) e2 e3 unfolding motion_allowed_for_light_def list_all_iff list_ex_iff
    by (auto simp: p1_def intro!: bexI [of _ ro])
  moreover have "\<not> owned_by_motion dn p2" using e2 l assms(5) by (auto simp: p1_def)
  then have "\<not> owned_by_motion dn p'" using e3 by (simp add: light_def)
  moreover have "le_device l \<notin> set (mse_claimed s)" if "session_of p' r = Some s" for r s
  proof -
    have "claims_in p' (mr_name r) = set (mse_claimed s)" using that by (simp add: session_of_def)
    then show ?thesis using e3 l by blast
  qed
  ultimately show ?thesis by blast
qed

lemma occupied_ok: "proc_ok occupied_home"
proof -
  have "safe_at home (handle_occupancy ''pir'' True None 5 home)" using handle_occupancy_safe home_ok by (rule safeD)
  then have "stays home (snd (the (handle_occupancy ''pir'' True None 5 home)))" by (auto simp: safe_at_def wp_iff)
  then show ?thesis using stays_proc_ok [OF home_ok] by (simp add: occupied_home_def)
qed

theorem disabling_motion_releases_room_witness:
  "tgt_owner (light_target (light (p_world occupied_home) ''lamp'')) = Some Motion \<and>
   (\<exists>p'. set_motion_enabled ''hall'' False 9 occupied_home = Some (Inr (), p') \<and>
     tgt_owner (light_target (light (p_world p') ''lamp'')) \<noteq> Some Motion)"
proof -
  have o: "tgt_owner (light_target (light (p_world occupied_home) ''lamp'')) = Some Motion" by code_simp
  have "map_option fst (set_motion_enabled ''hall'' False 9 occupied_home) = Some (Inr ())" by code_simp
  then obtain p' where s: "set_motion_enabled ''hall'' False 9 occupied_home = Some (Inr (), p')" by auto
  have "p_topology occupied_home = house" by code_simp
  then have "room_by_name (p_topology occupied_home) ''hall'' = Some (Some house_room)"
    "device_name (p_topology occupied_home) (le_device (LightEndpoint 0 11)) = Some ''lamp''"
    by (simp_all add: room_by_name_def room_idx_of_def room_def index_def device_name_def house_def house_device_def)
  from disabling_motion_releases_room [OF occupied_ok s this(1) _ this(2)] o s show ?thesis by (auto simp: house_room_def)
qed

end
