(* ===== verification/StepsConfig.thy ===== *)
theory StepsConfig
  imports Processor
begin

text \<open>
  The errors of building a topology (\<open>src/crates/mqtt-controller/src/topology/error.rs\<close>) and the
  resolution of switch steps against a room (\<open>topology/switch_steps.rs\<close>), which both the topology
  builder and the validation of a dashboard override run. The free-text reasons of
  \<open>InvalidSwitchSteps\<close> and \<open>InvalidMotionRule\<close> are constructors, one per message.
\<close>

section \<open>Errors\<close>

datatype switch_steps_reason =
    DuplicateDeviceMembers
  | SeveralEndpointsPerLight
  | StepsForUnknownSlot string
  | EmptyStepSequence string
  | StepsUnknownScene u8
  | StepSceneNotOn u8
  | EmptyLightSelection
  | DuplicateStepLights
  | NotARoomMember string

datatype motion_rule_reason =
    NameEmptyOrDuplicate
  | SensorsEmptyOrDuplicate
  | NegativeOffTransition
  | BadMotionSchedule scene_schedule_error
  | TargetsDifferFromSlots
  | SensorNotInCatalog string
  | MotionSlotWithoutScenes string
  | MotionSceneNotOn u8
  | UnknownMotionGroup string
  | SceneNotProvisioned u8 string
  | InvalidLightEndpoint string
  | UnknownMotionLight string
  | EndpointNotGroupMember string
  | TargetLightsEmptyOrDuplicate string
  | LightTargetedTwice string string
  | LightHasSeveralEndpoints string

datatype topology_error =
    InvalidSwitchSteps string switch_steps_reason
  | InvalidMotionRule string motion_rule_reason
  | DuplicateRoomName string
  | DuplicateGroupId u8 string string
  | DuplicateGroupName string string string
  | GroupNameDeviceCollision string string string
  | UnknownParent string string
  | SelfParent string
  | ParentChainCycle string
  | UnknownMemberLight string string string
  | MalformedMember string string
  | InvalidSceneSchedule string scene_schedule_error
  | MissingLocationForSunExpressions
  | DuplicateBindingName string
  | BindingTriggerUnknownDevice string string
  | BindingTriggerWrongDeviceKind string string string
  | BindingButtonNotInModel string string string string
  | BindingRoomNotFound string string
  | BindingEffectUnknownDevice string string
  | BindingEffectNotPlug string string string
  | BindingPowerBelowWithoutCapability string string string
  | PowerBelowCrossTarget string string string
  | NegativeTransition string f64
  | NegativeCycleWindow f64
  | NegativeDoubleTapSuppression f64
  | NegativeConfirmOffWindow string f64
  | InvalidAtTime string string
  | ZwavePlugMissingNodeId string
  | DuplicateZwaveNodeId u16 string string
  | UnknownSwitchModel string string
  | HeatingError heating_config_error

section \<open>Resolving switch steps\<close>

definition endpoints_observable :: "resolved_room \<Rightarrow> resolved_room list \<Rightarrow> (topology_error, unit) result" where
  "endpoints_observable r rooms =
     (let other_endpoints = concat (map room_light_members rooms) in
      ensure (\<not> list_ex (\<lambda>member. list_ex (\<lambda>other. le_device other = le_device member \<and> le_endpoint other \<noteq> le_endpoint member)
                            other_endpoints) (room_light_members r))
        (InvalidSwitchSteps (room_name r) SeveralEndpointsPerLight))"

definition validate_endpoints :: "resolved_room list \<Rightarrow> (topology_error, unit) result" where
  "validate_endpoints rooms =
     foldE (\<lambda>r _. endpoints_observable r rooms) (filter (\<lambda>r. room_switch_steps r \<noteq> []) rooms) ()"

text \<open>The indexing \<open>members[index]\<close> panics when the two member lists differ in length.\<close>

definition resolve_light ::
  "string \<Rightarrow> string list \<Rightarrow> light_endpoint list \<Rightarrow> string \<Rightarrow> (topology_error, light_endpoint) result" where
  "resolve_light n member_keys members l =
     andthen (ok_or (InvalidSwitchSteps n (NotARoomMember l)) (position (\<lambda>m. m = l) member_keys))
       (\<lambda>i. do { e \<leftarrow> index members i; Some (Inr e) })"

definition resolve_step ::
  "string \<Rightarrow> scene list \<Rightarrow> string list \<Rightarrow> light_endpoint list \<Rightarrow> switch_step \<Rightarrow> (topology_error, resolved_switch_step) result" where
  "resolve_step n scenes member_keys members st =
     andthen (ok_or (InvalidSwitchSteps n (StepsUnknownScene (ss_scene_id st)))
                (find (\<lambda>s. scene_id s = ss_scene_id st) scenes))
       (\<lambda>sc. andthen (ensure (scene_state sc = ''ON'' \<and> 0 \<le> scene_transition sc)
                        (InvalidSwitchSteps n (StepSceneNotOn (scene_id sc))))
       (\<lambda>_. andthen (ensure (ss_lights st \<noteq> []) (InvalidSwitchSteps n EmptyLightSelection))
       (\<lambda>_. andthen (ensure (length (bs_of_list (ss_lights st)) = length (ss_lights st))
                        (InvalidSwitchSteps n DuplicateStepLights))
       (\<lambda>_. andthen (mapE (resolve_light n member_keys members) (ss_lights st))
       (\<lambda>ls. Some (Inr \<lparr>st_scene = sc, st_lights = ls\<rparr>))))))"

definition resolve_slot_steps ::
  "string \<Rightarrow> scene_schedule \<Rightarrow> string list \<Rightarrow> light_endpoint list \<Rightarrow> string \<times> switch_step list \<Rightarrow>
   (topology_error, string \<times> resolved_switch_step list) result" where
  "resolve_slot_steps n sc member_keys members = (\<lambda>(slot_name, steps).
     andthen (ensure (bt_contains_key (ss_slots sc) slot_name) (InvalidSwitchSteps n (StepsForUnknownSlot slot_name)))
       (\<lambda>_. andthen (ensure (steps \<noteq> []) (InvalidSwitchSteps n (EmptyStepSequence slot_name)))
       (\<lambda>_. andthen (mapE (resolve_step n (ss_scenes sc) member_keys members) steps)
       (\<lambda>rs. Some (Inr (slot_name, rs))))))"

definition resolve_switch_steps ::
  "string \<Rightarrow> scene_schedule \<Rightarrow> (string, switch_step list) btree_map \<Rightarrow> string list \<Rightarrow> light_endpoint list \<Rightarrow>
   (topology_error, resolved_switch_steps) result" where
  "resolve_switch_steps n sc switch_steps member_keys members =
     andthen (ensure (switch_steps = [] \<or> length (bs_of_list (map le_device members)) = length members)
                (InvalidSwitchSteps n DuplicateDeviceMembers))
       (\<lambda>_. mapE (resolve_slot_steps n sc member_keys members) switch_steps)"

section \<open>What resolution guarantees\<close>

text \<open>A resolved step names a scene of the schedule that turns lights on, and members of the room.\<close>

definition step_resolved :: "scene list \<Rightarrow> light_endpoint list \<Rightarrow> resolved_switch_step \<Rightarrow> bool" where
  "step_resolved scenes members s =
     (st_scene s \<in> set scenes \<and> scene_state (st_scene s) = ''ON'' \<and> 0 \<le> scene_transition (st_scene s) \<and>
      st_lights s \<noteq> [] \<and> set (st_lights s) \<subseteq> set members)"

lemma bs_length_distinct: "length (bs_of_list xs) = length xs \<longleftrightarrow> distinct xs"
proof -
  have "length (bs_of_list xs) = card (set xs)"
    using bs_ok_of_list [of xs] distinct_card [of "bs_of_list xs"] by (simp add: bs_ok_def strict_sorted_iff)
  then show ?thesis using card_distinct [of xs] distinct_card [of xs] by auto
qed

lemma resolve_light_safe:
  assumes "length members = length member_keys"
  shows "wpr (resolve_light n member_keys members l) (\<lambda>e. e \<in> set members)"
  using assms by (auto simp: resolve_light_def dest: position_less)

lemma wpr_mapE_length:
  assumes "\<And>x. x \<in> set xs \<Longrightarrow> wpr (f x) P"
  shows "wpr (mapE f xs) (\<lambda>ys. length ys = length xs \<and> list_all P ys)"
proof -
  have "wpr (mapE f xs) (list_all P)" using assms by (rule wpr_mapE)
  then obtain r where r: "mapE f xs = Some r" and P: "\<And>ys. r = Inr ys \<Longrightarrow> list_all P ys"
    unfolding wpr_def wp_iff by blast
  moreover have "length ys = length xs" if "r = Inr ys" for ys
    using r that by (simp add: mapE_Inr list_all2_lengthD [symmetric])
  ultimately show ?thesis by (simp add: wpr_def)
qed

lemma resolve_step_safe:
  assumes "length members = length member_keys"
  shows "wpr (resolve_step n scenes member_keys members st) (step_resolved scenes members)"
proof -
  have "wpr (mapE (resolve_light n member_keys members) (ss_lights st))
      (\<lambda>ls'. length ls' = length (ss_lights st) \<and> list_all (\<lambda>e. e \<in> set members) ls')"
    using resolve_light_safe [OF assms] by (rule wpr_mapE_length)
  then have "wpr (mapE (resolve_light n member_keys members) (ss_lights st)) (\<lambda>ls'. ls' \<noteq> [] \<and> set ls' \<subseteq> set members)"
    if "ss_lights st \<noteq> []" using that by (elim wpr_mono) (auto simp: list_all_iff)
  moreover have "sc \<in> set scenes" if "find P scenes = Some sc" for P sc
    using that by (auto simp: find_Some_iff)
  ultimately show ?thesis
    unfolding resolve_step_def by (auto simp: step_resolved_def)
qed

lemma resolve_switch_steps_safe:
  assumes "length members = length member_keys"
  shows "wpr (resolve_switch_steps n sc steps member_keys members)
           (\<lambda>m. list_all (\<lambda>(slot_name, rs). bt_contains_key (ss_slots sc) slot_name \<and> rs \<noteq> [] \<and>
                 list_all (step_resolved (ss_scenes sc) members) rs) m)"
proof -
  have one: "wpr (mapE (resolve_step n (ss_scenes sc) member_keys members) sts)
      (\<lambda>rs. length rs = length sts \<and> list_all (step_resolved (ss_scenes sc) members) rs)" for sts
    using resolve_step_safe [OF assms] by (rule wpr_mapE_length)
  have "wpr (resolve_slot_steps n sc member_keys members x)
      (\<lambda>(slot_name, rs). bt_contains_key (ss_slots sc) slot_name \<and> rs \<noteq> [] \<and>
         list_all (step_resolved (ss_scenes sc) members) rs)" for x
    using one [of "snd x"] by (cases x) (auto simp: resolve_slot_steps_def elim!: wpr_mono)
  then show ?thesis
    unfolding resolve_switch_steps_def by (auto intro: wpr_mapE)
qed

end
