(* ===== verification/Catalog.thy ===== *)
theory Catalog
  imports StepsConfig
begin

text \<open>
  The configuration file (\<open>src/crates/mqtt-controller/src/config/mod.rs\<close>, \<open>room.rs\<close>, \<open>motion.rs\<close>,
  \<open>bindings.rs\<close>, \<open>catalog.rs\<close>): rooms, motion rules, bindings and the device catalog, as
  \<open>serde_json\<close> delivers them, with the accessors the topology builder uses.
\<close>

section \<open>Device catalog\<close>

record common_fields =
  cf_ieee_address :: string
  cf_display_name :: "string option"
  cf_room :: "string option"
  cf_description :: "string option"
  cf_options :: "(string, json) btree_map"

datatype catalog_entry =
    LightEntry common_fields
  | SwitchEntry common_fields string
  | MotionSensorEntry common_fields u32
  | TrvEntry common_fields string
  | WallThermostatEntry common_fields
  | PowerMeterEntry common_fields
  | PlugEntry common_fields string "string list" bool plug_protocol "u16 option"

fun entry_common :: "catalog_entry \<Rightarrow> common_fields" where
  "entry_common (LightEntry c) = c"
| "entry_common (WallThermostatEntry c) = c"
| "entry_common (PowerMeterEntry c) = c"
| "entry_common (TrvEntry c v) = c"
| "entry_common (SwitchEntry c m) = c"
| "entry_common (MotionSensorEntry c s) = c"
| "entry_common (PlugEntry c v caps ex pr nid) = c"

definition entry_options :: "catalog_entry \<Rightarrow> (string, json) btree_map" where
  "entry_options e = cf_options (entry_common e)"

definition is_switch :: "catalog_entry \<Rightarrow> bool" where
  "is_switch e = (case e of SwitchEntry _ _ \<Rightarrow> True | _ \<Rightarrow> False)"

definition entry_switch_model :: "catalog_entry \<Rightarrow> string option" where
  "entry_switch_model e = (case e of SwitchEntry _ m \<Rightarrow> Some m | _ \<Rightarrow> None)"

definition is_plug :: "catalog_entry \<Rightarrow> bool" where
  "is_plug e = (case e of PlugEntry _ _ _ _ _ _ \<Rightarrow> True | _ \<Rightarrow> False)"

definition exclude_from_totals :: "catalog_entry \<Rightarrow> bool" where
  "exclude_from_totals e = (case e of PlugEntry _ _ _ ex _ _ \<Rightarrow> ex | _ \<Rightarrow> False)"

definition entry_trv_variant :: "catalog_entry \<Rightarrow> string option" where
  "entry_trv_variant e = (case e of TrvEntry _ v \<Rightarrow> Some v | _ \<Rightarrow> None)"

definition entry_plug_protocol :: "catalog_entry \<Rightarrow> plug_protocol option" where
  "entry_plug_protocol e = (case e of PlugEntry _ _ _ _ pr _ \<Rightarrow> Some pr | _ \<Rightarrow> None)"

definition zwave_node_id :: "catalog_entry \<Rightarrow> u16 option" where
  "zwave_node_id e = (case e of PlugEntry _ _ _ _ Zwave nid \<Rightarrow> nid | _ \<Rightarrow> None)"

definition has_capability :: "string \<Rightarrow> catalog_entry \<Rightarrow> bool" where
  "has_capability cap e = (case e of PlugEntry _ _ caps _ _ _ \<Rightarrow> cap \<in> set caps | _ \<Rightarrow> False)"

fun kind_label :: "catalog_entry \<Rightarrow> string" where
  "kind_label (LightEntry c) = ''light''"
| "kind_label (SwitchEntry c m) = ''switch''"
| "kind_label (MotionSensorEntry c s) = ''motion-sensor''"
| "kind_label (TrvEntry c v) = ''trv''"
| "kind_label (WallThermostatEntry c) = ''wall-thermostat''"
| "kind_label (PowerMeterEntry c) = ''power-meter''"
| "kind_label (PlugEntry c v caps ex pr nid) = ''plug''"

fun kind_from_entry :: "catalog_entry \<Rightarrow> device_kind" where
  "kind_from_entry (LightEntry c) = KLight"
| "kind_from_entry (SwitchEntry c m) = KSwitch"
| "kind_from_entry (MotionSensorEntry c s) = KMotionSensor"
| "kind_from_entry (PlugEntry c v caps ex pr nid) = KPlug"
| "kind_from_entry (TrvEntry c v) = KTrv"
| "kind_from_entry (WallThermostatEntry c) = KWallThermostat"
| "kind_from_entry (PowerMeterEntry c) = KPowerMeter"

section \<open>Rooms, motion rules and bindings\<close>

record room_config =
  rc_name :: string
  rc_group_name :: string
  rc_room :: string
  rc_id :: u8
  rc_members :: "string list"
  rc_parent :: "string option"
  rc_scenes :: scene_schedule
  rc_switch_steps :: "(string, switch_step list) btree_map"
  rc_off_transition_seconds :: f64

datatype motion_target = TargetGroup string | TargetLights "string list"

record motion_rule_config =
  mc_name :: string
  mc_sensors :: "string list"
  mc_mode :: motion_mode
  mc_scenes :: scene_schedule
  mc_targets_by_slot :: "(string, motion_target) btree_map"
  mc_off_transition_seconds :: f64
  mc_off_cooldown_seconds :: u32
  mc_max_illuminance :: "u32 option"

datatype config_trigger =
    TriggerButton string string gesture
  | TriggerPowerBelow string f64 u64
  | TriggerAt time_expr

fun config_trigger_device :: "config_trigger \<Rightarrow> string option" where
  "config_trigger_device (TriggerButton d b g) = Some d"
| "config_trigger_device (TriggerPowerBelow d w s) = Some d"
| "config_trigger_device (TriggerAt t) = None"

datatype config_effect =
    CSceneCycle string
  | CGroupSceneCycle string
  | CSceneStepDown string
  | CSceneToggle string
  | CSceneToggleCycle string
  | CTurnOffRoom string
  | CBrightnessStep string i16 f64
  | CBrightnessMove string i16
  | CBrightnessStop string
  | CToggle string "f64 option"
  | CTurnOn string
  | CTurnOff string
  | CTurnOffAllZones

fun config_effect_room :: "config_effect \<Rightarrow> string option" where
  "config_effect_room (CSceneCycle r) = Some r"
| "config_effect_room (CGroupSceneCycle r) = Some r"
| "config_effect_room (CSceneStepDown r) = Some r"
| "config_effect_room (CSceneToggle r) = Some r"
| "config_effect_room (CSceneToggleCycle r) = Some r"
| "config_effect_room (CTurnOffRoom r) = Some r"
| "config_effect_room (CBrightnessStep r s t) = Some r"
| "config_effect_room (CBrightnessMove r s) = Some r"
| "config_effect_room (CBrightnessStop r) = Some r"
| "config_effect_room _ = None"

fun config_effect_target :: "config_effect \<Rightarrow> string option" where
  "config_effect_target (CToggle d c) = Some d"
| "config_effect_target (CTurnOn d) = Some d"
| "config_effect_target (CTurnOff d) = Some d"
| "config_effect_target _ = None"

fun config_effect_confirm_off :: "config_effect \<Rightarrow> f64 option" where
  "config_effect_confirm_off (CToggle d c) = c"
| "config_effect_confirm_off _ = None"

record binding_config =
  bc_name :: string
  bc_trigger :: config_trigger
  bc_effect :: config_effect

record config =
  conf_devices :: "(string, catalog_entry) btree_map"
  conf_switch_models :: "(string, switch_model) btree_map"
  conf_rooms :: "room_config list"
  conf_motion_rules :: "motion_rule_config list"
  conf_bindings :: "binding_config list"
  conf_defaults :: defaults
  conf_heating :: "heating_config option"
  conf_location :: "location option"

section \<open>Member keys\<close>

text \<open>\<open>str::rsplit_once\<close> of a one-character separator.\<close>

definition rsplit_once :: "char \<Rightarrow> string \<Rightarrow> (string \<times> string) option" where
  "rsplit_once c s =
     (if c \<in> set s
      then Some (rev (tl (dropWhile (\<lambda>x. x \<noteq> c) (rev s))), rev (takeWhile (\<lambda>x. x \<noteq> c) (rev s)))
      else None)"

definition parse_member_key :: "string \<Rightarrow> (string \<times> u32) option" where
  "parse_member_key member =
     do { (n, endpoint) \<leftarrow> rsplit_once (CHR ''/'') member;
          e \<leftarrow> parse_unsigned (2 ^ 32 - 1) endpoint;
          Some (n, e) }"

lemma rsplit_once_Some:
  assumes "rsplit_once c s = Some (a, b)"
  shows "s = a @ c # b \<and> c \<notin> set b"
proof -
  let ?r = "dropWhile (\<lambda>x. x \<noteq> c) (rev s)"
  have "c \<in> set s" and ab: "a = rev (tl ?r)" "b = rev (takeWhile (\<lambda>x. x \<noteq> c) (rev s))"
    using assms by (auto simp: rsplit_once_def split: if_splits)
  then have "?r \<noteq> []" by (simp add: dropWhile_eq_Nil_conv)
  then have "?r = c # tl ?r" using hd_dropWhile [of "\<lambda>x. x \<noteq> c" "rev s"] by (cases ?r) auto
  then have "rev s = takeWhile (\<lambda>x. x \<noteq> c) (rev s) @ c # tl ?r" by (metis takeWhile_dropWhile_id)
  then have "s = a @ c # b" unfolding ab by (metis rev.simps(2) rev_append rev_rev_ident append.assoc append_Cons append_Nil)
  moreover have "c \<notin> set b" unfolding ab by (auto dest: set_takeWhileD)
  ultimately show ?thesis by blast
qed

text \<open>\<open>parse_member_key\<close> inverts the rendering of a key: the last slash separates name and endpoint.\<close>

lemma parse_member_key_render:
  assumes "parse_unsigned (2 ^ 32 - 1) b = Some e" and "CHR ''/'' \<notin> set b"
  shows "parse_member_key (a @ CHR ''/'' # b) = Some (a, e)"
proof -
  have "takeWhile (\<lambda>x. x \<noteq> CHR ''/'') (rev b @ CHR ''/'' # rev a) = rev b"
    and "dropWhile (\<lambda>x. x \<noteq> CHR ''/'') (rev b @ CHR ''/'' # rev a) = CHR ''/'' # rev a"
    using assms(2) by (simp_all add: takeWhile_append dropWhile_append takeWhile_eq_all_conv dropWhile_eq_Nil_conv)
  then show ?thesis using assms(1) by (simp add: parse_member_key_def rsplit_once_def)
qed

end
