(* ===== verification/Builder.thy ===== *)
theory Builder
  imports Catalog
begin

text \<open>
  Building and validating the topology (\<open>src/crates/mqtt-controller/src/topology/build.rs\<close>): the
  one-shot pipeline that turns a configuration into the indexed runtime view or the first error.
  The stages are in the order of the code. Positional and key indexing (\<open>xs[i]\<close>, \<open>map[key]\<close>) and
  \<open>expect\<close> panic when they miss; \<open>andthen\<close> is \<open>?\<close>.
\<close>

section \<open>Loops that check\<close>

definition forE :: "('a \<Rightarrow> ('e, unit) result) \<Rightarrow> 'a list \<Rightarrow> ('e, unit) result" where
  "forE f xs = foldE (\<lambda>x _. f x) xs ()"

text \<open>\<open>if let Some(other) = m.insert(k, v) { return Err(e(other)) }\<close>\<close>

definition insert_new :: "('v \<Rightarrow> 'e) \<Rightarrow> 'k::linorder \<Rightarrow> 'v \<Rightarrow> ('k, 'v) btree_map \<Rightarrow> ('e, ('k, 'v) btree_map) result" where
  "insert_new e k v m = (case bt_get m k of None \<Rightarrow> Some (Inr (bt_insert k v m)) | Some other \<Rightarrow> Some (Inl (e other)))"

text \<open>\<open>m.entry(k).or_default().push(v)\<close>\<close>

definition push_entry :: "'k::linorder \<Rightarrow> 'v \<Rightarrow> ('k, 'v list) btree_map \<Rightarrow> ('k, 'v list) btree_map" where
  "push_entry k v m = bt_insert k (bt_get_or [] m k @ [v]) m"

section \<open>Rooms: names, parents, schedules, members\<close>

definition rooms_by_name :: "room_config list \<Rightarrow> (topology_error, (string, room_config) btree_map) result" where
  "rooms_by_name rooms =
     foldE (\<lambda>r. insert_new (\<lambda>_. DuplicateRoomName (rc_name r)) (rc_name r) r) rooms []"

definition check_groups :: "room_config list \<Rightarrow> (topology_error, unit) result" where
  "check_groups rooms =
     andthen (foldE (\<lambda>r (ids, names).
        andthen (insert_new (\<lambda>prev. DuplicateGroupId (rc_id r) prev (rc_name r)) (rc_id r) (rc_name r) ids)
          (\<lambda>ids'. andthen (insert_new (\<lambda>prev. DuplicateGroupName (rc_group_name r) prev (rc_name r))
                              (rc_group_name r) (rc_name r) names)
          (\<lambda>names'. Some (Inr (ids', names'))))) rooms ([], []))
       (\<lambda>_. Some (Inr ()))"

definition check_namespace :: "config \<Rightarrow> (topology_error, unit) result" where
  "check_namespace c =
     forE (\<lambda>r. case bt_get (conf_devices c) (rc_group_name r) of
                 None \<Rightarrow> Some (Inr ())
               | Some entry \<Rightarrow> Some (Inl (GroupNameDeviceCollision (rc_group_name r) (rc_name r) (kind_label entry))))
       (conf_rooms c)"

definition check_parent :: "(string, room_config) btree_map \<Rightarrow> room_config \<Rightarrow> (topology_error, unit) result" where
  "check_parent m r =
     (case rc_parent r of
        None \<Rightarrow> Some (Inr ())
      | Some parent \<Rightarrow>
          andthen (ensure (parent \<noteq> rc_name r) (SelfParent (rc_name r)))
            (\<lambda>_. ensure (bt_contains_key m parent) (UnknownParent (rc_name r) parent)))"

text \<open>
  The walk up the parents of one room: the chain it has visited when it meets a room again,
  or \<^const>\<open>None\<close> when it reaches a room without parent.
\<close>

function parent_chain_cycle :: "(string, room_config) btree_map \<Rightarrow> string list \<Rightarrow> string option \<Rightarrow> string list option" where
  "parent_chain_cycle m visited None = None"
| "parent_chain_cycle m visited (Some n) =
     (if n \<in> set visited then Some (visited @ [n])
      else parent_chain_cycle m (visited @ [n]) (Option.bind (bt_get m n) rc_parent))"
  by pat_completeness auto

text \<open>
  Every turn either visits another room of the configuration or steps off it, after which the
  walk ends.
\<close>

termination
proof (relation "measure (\<lambda>(m, visited, current). 2 * card (set (map fst m) - set visited) + (case current of None \<Rightarrow> 0 | Some _ \<Rightarrow> 1))")
  fix m :: "(string, room_config) btree_map" and visited :: "string list" and n
  assume new: "n \<notin> set visited"
  let ?K = "set (map fst m)"
  have sub: "card (?K - set (visited @ [n])) \<le> card (?K - set visited)" by (rule card_mono) auto
  show "((m, visited @ [n], Option.bind (bt_get m n) rc_parent), m, visited, Some n)
      \<in> measure (\<lambda>(m, visited, current). 2 * card (set (map fst m) - set visited) + (case current of None \<Rightarrow> 0 | Some _ \<Rightarrow> 1))"
  proof (cases "bt_get m n")
    case None
    with sub show ?thesis by simp
  next
    case (Some r)
    then have "n \<in> ?K" by (force dest: bt_get_in_set)
    with new have "card (?K - set (visited @ [n])) < card (?K - set visited)" by (intro psubset_card_mono) auto
    then show ?thesis by (auto split: option.splits)
  qed
qed simp

definition join_chain :: "string list \<Rightarrow> string" where
  "join_chain ns = (case ns of [] \<Rightarrow> [] | n # rest \<Rightarrow> n @ concat (map (\<lambda>x. '' -> '' @ x) rest))"

definition check_parents :: "(string, room_config) btree_map \<Rightarrow> room_config list \<Rightarrow> (topology_error, unit) result" where
  "check_parents m rooms =
     andthen (forE (check_parent m) rooms)
       (\<lambda>_. forE (\<lambda>r. case parent_chain_cycle m [rc_name r] (rc_parent r) of
                        None \<Rightarrow> Some (Inr ())
                      | Some chain \<Rightarrow> Some (Inl (ParentChainCycle (join_chain chain)))) rooms)"

text \<open>The result says whether a schedule refers to the sun.\<close>

definition check_scenes :: "room_config list \<Rightarrow> (topology_error, bool) result" where
  "check_scenes rooms =
     foldE (\<lambda>r needs_location.
        andthen (map_err (InvalidSceneSchedule (rc_name r)) (scene_schedule_validate (rc_scenes r)))
          (\<lambda>_. Some (Inr (needs_location \<or> uses_sun_expressions (rc_scenes r))))) rooms False"

definition check_timing :: "config \<Rightarrow> (topology_error, unit) result" where
  "check_timing c =
     (let d = conf_defaults c in
      andthen (ensure (\<not> cycle_window_seconds d < 0) (NegativeCycleWindow (cycle_window_seconds d)))
        (\<lambda>_. andthen (ensure (\<not> double_tap_suppression_seconds d < 0)
                         (NegativeDoubleTapSuppression (double_tap_suppression_seconds d)))
        (\<lambda>_. forE (\<lambda>r. ensure (\<not> rc_off_transition_seconds r < 0)
                         (NegativeTransition (rc_name r) (rc_off_transition_seconds r))) (conf_rooms c))))"

definition check_member :: "config \<Rightarrow> room_config \<Rightarrow> string \<Rightarrow> (topology_error, unit) result" where
  "check_member c r member =
     andthen (ok_or (MalformedMember (rc_name r) member) (parse_member_key member))
       (\<lambda>(bulb, _). case bt_get (conf_devices c) bulb of
          Some (LightEntry _) \<Rightarrow> Some (Inr ())
        | Some other \<Rightarrow> Some (Inl (UnknownMemberLight (rc_name r) member
                          (bulb @ '' (catalog kind: '' @ kind_label other @ '')'')))
        | None \<Rightarrow> Some (Inl (UnknownMemberLight (rc_name r) member bulb)))"

definition check_members :: "config \<Rightarrow> (topology_error, unit) result" where
  "check_members c = forE (\<lambda>r. forE (check_member c r) (rc_members r)) (conf_rooms c)"

section \<open>Devices\<close>

definition device_of_entry :: "string \<times> catalog_entry \<Rightarrow> device_info" where
  "device_of_entry ne =
     (case ne of (n, e) \<Rightarrow>
        \<lparr>di_name = n, di_kind = kind_from_entry e, di_display_name = cf_display_name (entry_common e),
         di_room = cf_room (entry_common e), di_exclude_from_totals = exclude_from_totals e,
         di_power_metered = has_capability ''power'' e, di_plug_protocol = entry_plug_protocol e,
         di_switch_model = entry_switch_model e, di_trv_variant = entry_trv_variant e\<rparr>)"

definition build_devices :: "config \<Rightarrow> device_info list" where
  "build_devices c = map device_of_entry (sort_key fst (conf_devices c))"

text \<open>\<open>device_by_name\<close>, \<open>room_by_name\<close>, \<open>room_by_group_name\<close>: positions by name.\<close>

definition index_by :: "('a \<Rightarrow> 'k::linorder) \<Rightarrow> 'a list \<Rightarrow> ('k, nat) btree_map" where
  "index_by key xs = fold (\<lambda>(i, x). bt_insert (key x) i) (enumerate 0 xs) []"

definition has_mapping :: "switch_model \<Rightarrow> string \<Rightarrow> gesture \<Rightarrow> bool" where
  "has_mapping sm button g =
     list_ex (\<lambda>a. am_button a = button \<and> am_gesture a = g) (bt_values (sm_z2m_action_map sm))"

definition hw_double_taps_of ::
  "config \<Rightarrow> (string, device_idx) btree_map \<Rightarrow> string \<times> catalog_entry \<Rightarrow>
   (device_idx \<times> string) btree_set \<Rightarrow> (topology_error, (device_idx \<times> string) btree_set) result" where
  "hw_double_taps_of c by_name ne hw =
     (case ne of
        (n, SwitchEntry _ model) \<Rightarrow>
          andthen (ok_or (UnknownSwitchModel n model) (bt_get (conf_switch_models c) model))
            (\<lambda>sm. do { i \<leftarrow> bt_get by_name n;
                       Some (Inr (fold (\<lambda>b s. if has_mapping sm b Press \<and> has_mapping sm b DoubleTap
                                              then bs_insert (i, b) s else s) (sm_buttons sm) hw)) })
      | _ \<Rightarrow> Some (Inr hw))"

definition hw_double_taps ::
  "config \<Rightarrow> (string, device_idx) btree_map \<Rightarrow> (topology_error, (device_idx \<times> string) btree_set) result" where
  "hw_double_taps c by_name = foldE (hw_double_taps_of c by_name) (conf_devices c) []"

text \<open>The loop that sorts device positions into one vector per kind.\<close>

definition devices_where :: "(device_info \<Rightarrow> bool) \<Rightarrow> device_info list \<Rightarrow> device_idx list" where
  "devices_where P ds = map fst (filter (\<lambda>(i, d). P d) (enumerate 0 ds))"

definition is_plug_of :: "plug_protocol \<Rightarrow> device_info \<Rightarrow> bool" where
  "is_plug_of pr d =
     (di_kind d = KPlug \<and> (case di_plug_protocol d of None \<Rightarrow> Zigbee | Some x \<Rightarrow> x) = pr)"

definition zwave_nodes ::
  "config \<Rightarrow> device_info list \<Rightarrow> (topology_error, (u16, device_idx) btree_map) result" where
  "zwave_nodes c ds =
     foldE (\<lambda>i m. do { info \<leftarrow> index ds i;
                       entry \<leftarrow> bt_get (conf_devices c) (di_name info);
                       andthen (ok_or (ZwavePlugMissingNodeId (di_name info)) (zwave_node_id entry))
                         (\<lambda>node. case bt_get m node of
                            Some existing \<Rightarrow>
                              do { first \<leftarrow> index ds existing;
                                   Some (Inl (DuplicateZwaveNodeId node (di_name first) (di_name info))) }
                          | None \<Rightarrow> Some (Inr (bt_insert node i m))) })
       (devices_where (is_plug_of Zwave) ds) []"

section \<open>Bindings\<close>

record binding_state =
  bs_names :: "string btree_set"
  bs_resolved :: "resolved_binding list"
  bs_button_index :: "(device_idx \<times> string \<times> gesture, binding_idx list) btree_map"
  bs_power_below_index :: "(device_idx, binding_idx list) btree_map"
  bs_soft_double_taps :: "(device_idx \<times> string) btree_set"
  bs_rooms_bound :: "room_idx btree_set"
  bs_needs_location :: bool

definition resolve_trigger ::
  "config \<Rightarrow> (string, device_idx) btree_map \<Rightarrow> string \<Rightarrow> config_effect \<Rightarrow> catalog_entry option \<Rightarrow>
   config_trigger \<Rightarrow> (topology_error, resolved_trigger) result" where
  "resolve_trigger c by_name n eff entry trig =
     (case trig of
        TriggerButton device button g \<Rightarrow>
          do { e \<leftarrow> entry;
               andthen (ensure (is_switch e) (BindingTriggerWrongDeviceKind n device (kind_label e)))
                 (\<lambda>_. andthen (case Option.bind (entry_switch_model e) (bt_get (conf_switch_models c)) of
                          None \<Rightarrow> Some (Inr ())
                        | Some sm \<Rightarrow> ensure (button \<in> set (sm_buttons sm))
                            (BindingButtonNotInModel n device (case entry_switch_model e of None \<Rightarrow> [] | Some mn \<Rightarrow> mn) button))
                 (\<lambda>_. do { i \<leftarrow> bt_get by_name device; Some (Inr (Button i button g)) })) }
      | TriggerPowerBelow device watts for_seconds \<Rightarrow>
          do { e \<leftarrow> entry;
               andthen (ensure (is_plug e) (BindingTriggerWrongDeviceKind n device (kind_label e)))
                 (\<lambda>_. andthen (ensure (has_capability ''power'' e)
                          (BindingPowerBelowWithoutCapability n device
                             (case e of PlugEntry _ variant _ _ _ _ \<Rightarrow> variant | _ \<Rightarrow> ''unknown'')))
                 (\<lambda>_. andthen (case config_effect_target eff of
                          None \<Rightarrow> Some (Inr ())
                        | Some t \<Rightarrow> ensure (t = device) (PowerBelowCrossTarget n device t))
                 (\<lambda>_. do { i \<leftarrow> bt_get by_name device; Some (Inr (PowerBelow i watts (from_secs for_seconds))) }))) }
      | TriggerAt time \<Rightarrow>
          andthen (ensure (is_valid_trigger_time time) (InvalidAtTime n (display time)))
            (\<lambda>_. Some (Inr (At time))))"

definition check_effect ::
  "config \<Rightarrow> (string, room_idx) btree_map \<Rightarrow> string \<Rightarrow> config_effect \<Rightarrow> (topology_error, unit) result" where
  "check_effect c rooms n eff =
     andthen (case config_effect_room eff of
                None \<Rightarrow> Some (Inr ())
              | Some r \<Rightarrow> ensure (bt_contains_key rooms r) (BindingRoomNotFound n r))
       (\<lambda>_. andthen (case config_effect_target eff of
                None \<Rightarrow> Some (Inr ())
              | Some t \<Rightarrow>
                  andthen (ok_or (BindingEffectUnknownDevice n t) (bt_get (conf_devices c) t))
                    (\<lambda>e. ensure (is_plug e) (BindingEffectNotPlug n t (kind_label e))))
       (\<lambda>_. case config_effect_confirm_off eff of
                None \<Rightarrow> Some (Inr ())
              | Some secs \<Rightarrow> ensure (\<not> secs < 0) (NegativeConfirmOffWindow n secs)))"

fun resolve_effect ::
  "(string, room_idx) btree_map \<Rightarrow> (string, device_idx) btree_map \<Rightarrow> config_effect \<Rightarrow> resolved_effect option" where
  "resolve_effect rooms ds (CSceneCycle r) = map_option SceneCycle (bt_get rooms r)"
| "resolve_effect rooms ds (CGroupSceneCycle r) = map_option GroupSceneCycle (bt_get rooms r)"
| "resolve_effect rooms ds (CSceneStepDown r) = map_option SceneStepDown (bt_get rooms r)"
| "resolve_effect rooms ds (CSceneToggle r) = map_option SceneToggle (bt_get rooms r)"
| "resolve_effect rooms ds (CSceneToggleCycle r) = map_option SceneToggleCycle (bt_get rooms r)"
| "resolve_effect rooms ds (CTurnOffRoom r) = map_option TurnOffRoom (bt_get rooms r)"
| "resolve_effect rooms ds (CBrightnessStep r st tr) = map_option (\<lambda>i. BrightnessStep i st tr) (bt_get rooms r)"
| "resolve_effect rooms ds (CBrightnessMove r rate) = map_option (\<lambda>i. BrightnessMove i rate) (bt_get rooms r)"
| "resolve_effect rooms ds (CBrightnessStop r) = map_option BrightnessStop (bt_get rooms r)"
| "resolve_effect rooms ds (CToggle d off) = map_option (\<lambda>i. Toggle i off) (bt_get ds d)"
| "resolve_effect rooms ds (CTurnOn d) = map_option TurnOn (bt_get ds d)"
| "resolve_effect rooms ds (CTurnOff d) = map_option TurnOff (bt_get ds d)"
| "resolve_effect rooms ds CTurnOffAllZones = Some TurnOffAllZones"

text \<open>The bookkeeping once trigger and effect are resolved.\<close>

definition add_binding :: "resolved_binding \<Rightarrow> binding_state \<Rightarrow> binding_state" where
  "add_binding b st =
     (let idx = length (bs_resolved st);
          st1 = (case effect_room (rb_effect b) of
                   None \<Rightarrow> st
                 | Some r \<Rightarrow> st\<lparr>bs_rooms_bound := bs_insert r (bs_rooms_bound st)\<rparr>);
          st2 = (case rb_trigger b of
                   Button d button g \<Rightarrow> st1\<lparr>bs_button_index := push_entry (d, button, g) idx (bs_button_index st1)\<rparr>
                 | PowerBelow pl w h \<Rightarrow> st1\<lparr>bs_power_below_index := push_entry pl idx (bs_power_below_index st1)\<rparr>
                 | At t \<Rightarrow> st1)
      in st2\<lparr>bs_resolved := bs_resolved st2 @ [b]\<rparr>)"

text \<open>\<open>soft_double_tap_buttons.insert\<close> and \<open>needs_location = true\<close> while the trigger is resolved.\<close>

definition note_trigger :: "resolved_trigger \<Rightarrow> binding_state \<Rightarrow> binding_state" where
  "note_trigger trig st =
     (case trig of
        Button d button g \<Rightarrow>
          if g = SoftDoubleTap then st\<lparr>bs_soft_double_taps := bs_insert (d, button) (bs_soft_double_taps st)\<rparr> else st
      | PowerBelow pl w h \<Rightarrow> st
      | At t \<Rightarrow> if uses_sun t then st\<lparr>bs_needs_location := True\<rparr> else st)"

definition resolve_binding ::
  "config \<Rightarrow> (string, device_idx) btree_map \<Rightarrow> (string, room_idx) btree_map \<Rightarrow>
   binding_config \<Rightarrow> binding_state \<Rightarrow> (topology_error, binding_state) result" where
  "resolve_binding c ds rooms rule st =
     (let n = bc_name rule; eff = bc_effect rule in
      andthen (ensure (\<not> bs_contains (bs_names st) n) (DuplicateBindingName n))
        (\<lambda>_. andthen (case config_trigger_device (bc_trigger rule) of
                        None \<Rightarrow> Some (Inr None)
                      | Some d \<Rightarrow> map_option (map_sum id Some)
                          (ok_or (BindingTriggerUnknownDevice n d) (bt_get (conf_devices c) d)))
        (\<lambda>entry. andthen (resolve_trigger c ds n eff entry (bc_trigger rule))
        (\<lambda>trig. andthen (check_effect c rooms n eff)
        (\<lambda>_. do { e \<leftarrow> resolve_effect rooms ds eff;
                  Some (Inr (add_binding \<lparr>rb_name = n, rb_trigger = trig, rb_effect = e\<rparr>
                    (note_trigger trig (st\<lparr>bs_names := bs_insert n (bs_names st)\<rparr>)))) })))))"

definition resolve_bindings ::
  "config \<Rightarrow> (string, device_idx) btree_map \<Rightarrow> (string, room_idx) btree_map \<Rightarrow> bool \<Rightarrow>
   (topology_error, binding_state) result" where
  "resolve_bindings c ds rooms needs_location =
     foldE (resolve_binding c ds rooms) (conf_bindings c)
       \<lparr>bs_names = [], bs_resolved = [], bs_button_index = [], bs_power_below_index = [],
        bs_soft_double_taps = [], bs_rooms_bound = [], bs_needs_location = needs_location\<rparr>"

section \<open>Rooms\<close>

definition resolve_member ::
  "(string, device_idx) btree_map \<Rightarrow> string \<Rightarrow> string \<Rightarrow> (topology_error, light_endpoint) result" where
  "resolve_member ds n member =
     do { (bulb, endpoint) \<leftarrow> parse_member_key member;
          andthen (ensure (endpoint \<le> 255 \<and> 1 \<le> endpoint \<and> endpoint \<le> 240) (MalformedMember n member))
            (\<lambda>_. do { d \<leftarrow> bt_get ds bulb; Some (Inr (LightEndpoint d endpoint)) }) }"

definition build_room :: "(string, device_idx) btree_map \<Rightarrow> room_config \<Rightarrow> (topology_error, resolved_room) result" where
  "build_room ds r =
     andthen (mapE (resolve_member ds (rc_name r)) (rc_members r))
       (\<lambda>lights. andthen (resolve_switch_steps (rc_name r) (rc_scenes r) (rc_switch_steps r) (rc_members r) lights)
       (\<lambda>steps. Some (Inr
          \<lparr>room_name = rc_name r, room_group_name = rc_group_name r, room_room = rc_room r, room_id = rc_id r,
           room_members = rc_members r, room_light_members = lights, room_parent = rc_parent r,
           room_scenes = rc_scenes r, room_switch_steps = steps,
           room_off_transition_seconds = rc_off_transition_seconds r, room_bound_motion = []\<rparr>)))"

section \<open>Heating\<close>

definition option_is :: "(string, json) btree_map \<Rightarrow> string \<Rightarrow> string \<Rightarrow> bool" where
  "option_is opts key val = (Option.bind (bt_get opts key) as_str = Some val)"

definition names_of :: "device_info list \<Rightarrow> device_kind \<Rightarrow> string btree_set" where
  "names_of ds k = bs_of_list (map di_name (filter (\<lambda>d. di_kind d = k) ds))"

text \<open>A device that is not in the catalog is not checked; the callers have found it there.\<close>

definition check_relay :: "config \<Rightarrow> string \<Rightarrow> string \<Rightarrow> (heating_config_error, unit) result" where
  "check_relay c zone relay =
     (case bt_get (conf_devices c) relay of
        None \<Rightarrow> Some (Inr ())
      | Some entry \<Rightarrow>
          let opts = entry_options entry in
          andthen (ensure (option_is opts ''heater_type'' ''manual_control'') (RelayMissingManualControl zone relay))
            (\<lambda>_. andthen (ensure (option_is opts ''operating_mode'' ''manual'')
                     (DeviceMissingRequiredMode zone relay ''relay'' ''options.operating_mode = \"manual\"''))
            (\<lambda>_. Some (validate_wall_thermostat_options relay opts))))"

definition check_trv :: "config \<Rightarrow> string \<Rightarrow> string \<Rightarrow> (heating_config_error, unit) result" where
  "check_trv c zone dev =
     (case bt_get (conf_devices c) dev of
        None \<Rightarrow> Some (Inr ())
      | Some entry \<Rightarrow>
          let opts = entry_options entry;
              variant = (case entry_trv_variant entry of None \<Rightarrow> TRV_VARIANT_BOSCH_BTH_RA | Some v \<Rightarrow> v)
          in andthen (if variant = TRV_VARIANT_SONOFF_TRVZB
                      then ensure (option_is opts ''system_mode'' ''heat'')
                        (DeviceMissingRequiredMode zone dev ''TRV'' ''options.system_mode = \"heat\"'')
                      else ensure (option_is opts ''operating_mode'' ''manual'')
                        (DeviceMissingRequiredMode zone dev ''TRV'' ''options.operating_mode = \"manual\"''))
               (\<lambda>_. Some (validate_trv_options dev opts)))"

text \<open>\<open>trv_to_zone\<close>, \<open>relay_to_zone\<close> and \<open>zone_names\<close>.\<close>

type_synonym zone_state =
  "(string, string) btree_map \<times> (string, string) btree_map \<times> string btree_set"

definition check_zone_trv ::
  "config \<Rightarrow> device_info list \<Rightarrow> heating_config \<Rightarrow> string \<Rightarrow> zone_trv \<Rightarrow>
   (string, string) btree_map \<Rightarrow> (heating_config_error, (string, string) btree_map) result" where
  "check_zone_trv c ds h zone zt trv_to_zone =
     andthen (ensure (bs_contains (names_of ds KTrv) (zt_device zt)) (TrvNotInCatalog zone (zt_device zt)))
       (\<lambda>_. andthen (check_trv c zone (zt_device zt))
       (\<lambda>_. andthen (ensure (bt_contains_key (hc_schedules h) (zt_schedule zt))
                        (UnknownSchedule zone (zt_device zt) (zt_schedule zt)))
       (\<lambda>_. insert_new (\<lambda>other. TrvInMultipleZones (zt_device zt) other zone) (zt_device zt) zone trv_to_zone)))"

definition check_zone ::
  "config \<Rightarrow> device_info list \<Rightarrow> heating_config \<Rightarrow> heating_zone_config \<Rightarrow> zone_state \<Rightarrow>
   (heating_config_error, zone_state) result" where
  "check_zone c ds h z st =
     (case st of (trv_to_zone, relay_to_zone, names) \<Rightarrow>
        andthen (ensure (\<not> bs_contains names (zone_name z)) (DuplicateZoneName (zone_name z)))
          (\<lambda>_. andthen (ensure (zone_trvs z \<noteq> []) (ZoneEmpty (zone_name z)))
          (\<lambda>_. andthen (ensure (bs_contains (names_of ds KWallThermostat) (zone_relay z))
                           (RelayNotWallThermostat (zone_name z) (zone_relay z)))
          (\<lambda>_. andthen (check_relay c (zone_name z) (zone_relay z))
          (\<lambda>_. andthen (insert_new (\<lambda>other. DuplicateRelay (zone_name z) (zone_relay z) other)
                           (zone_relay z) (zone_name z) relay_to_zone)
          (\<lambda>relay_to_zone'. andthen (foldE (check_zone_trv c ds h (zone_name z)) (zone_trvs z) trv_to_zone)
          (\<lambda>trv_to_zone'. Some (Inr (trv_to_zone', relay_to_zone', bs_insert (zone_name z) names)))))))))"

definition check_group_member ::
  "(string, string) btree_map \<Rightarrow> string \<Rightarrow> string \<Rightarrow> string option \<times> (string, string) btree_map \<Rightarrow>
   (heating_config_error, string option \<times> (string, string) btree_map) result" where
  "check_group_member trv_to_zone gn dev st =
     (case st of (group_zone, trv_to_group) \<Rightarrow>
        andthen (ok_or (PressureGroupTrvNotInZone gn dev) (bt_get trv_to_zone dev))
          (\<lambda>zone. andthen (case group_zone of
                      None \<Rightarrow> Some (Inr (Some zone))
                    | Some first \<Rightarrow> if first \<noteq> zone then Some (Inl (PressureGroupMultipleZones gn first zone))
                                   else Some (Inr (Some first)))
          (\<lambda>group_zone'. andthen (insert_new (\<lambda>other. TrvInMultiplePressureGroups dev other gn) dev gn trv_to_group)
          (\<lambda>trv_to_group'. Some (Inr (group_zone', trv_to_group'))))))"

definition check_pressure_group ::
  "(string, string) btree_map \<Rightarrow> pressure_group \<Rightarrow> (string, string) btree_map \<Rightarrow>
   (heating_config_error, (string, string) btree_map) result" where
  "check_pressure_group trv_to_zone g trv_to_group =
     andthen (ensure (\<not> length (pg_trvs g) < 2) (PressureGroupTooSmall (pg_name g)))
       (\<lambda>_. andthen (foldE (check_group_member trv_to_zone (pg_name g)) (pg_trvs g) (None, trv_to_group))
       (\<lambda>st. Some (Inr (snd st))))"

definition check_heating ::
  "config \<Rightarrow> device_info list \<Rightarrow> heating_config \<Rightarrow> (heating_config_error, unit) result" where
  "check_heating c ds h =
     andthen (case hc_energy_meter h of
                None \<Rightarrow> Some (Inr ())
              | Some meter \<Rightarrow> ensure (case bt_get (conf_devices c) meter of Some (PowerMeterEntry _) \<Rightarrow> True | _ \<Rightarrow> False)
                               (InvalidEnergyMeter meter))
       (\<lambda>_. andthen (Some (validate_schedules h))
       (\<lambda>_. andthen (foldE (check_zone c ds h) (hc_zones h) ([], [], []))
       (\<lambda>(trv_to_zone, _, _). andthen (foldE (check_pressure_group trv_to_zone) (hc_pressure_groups h) [])
       (\<lambda>_. Some (Inr ())))))"

section \<open>Motion rules\<close>

text \<open>\<open>names\<close>, \<open>owners\<close> and the topology under construction.\<close>

record motion_build =
  mb_names :: "string btree_set"
  mb_owners :: "(device_idx, string) btree_map"
  mb_topology :: topology

definition motion_sensor_of ::
  "config \<Rightarrow> string \<Rightarrow> string \<Rightarrow> (topology_error, motion_binding) result" where
  "motion_sensor_of c rule n =
     (case bt_get (conf_devices c) n of
        Some (MotionSensorEntry _ secs) \<Rightarrow> Some (Inr \<lparr>mb_sensor = n, mb_occupancy_timeout_seconds = secs\<rparr>)
      | _ \<Rightarrow> Some (Inl (InvalidMotionRule rule (SensorNotInCatalog n))))"

definition check_motion_scene ::
  "motion_rule_config \<Rightarrow> u8 \<Rightarrow> (topology_error, unit) result" where
  "check_motion_scene rule i =
     do { sc \<leftarrow> find (\<lambda>s. scene_id s = i) (ss_scenes (mc_scenes rule));
          ensure (scene_state sc = ''ON'' \<and> 0 \<le> scene_transition sc)
            (InvalidMotionRule (mc_name rule) (MotionSceneNotOn i)) }"

definition check_group_scene ::
  "motion_rule_config \<Rightarrow> string \<Rightarrow> resolved_room \<Rightarrow> u8 \<Rightarrow> (topology_error, unit) result" where
  "check_group_scene rule grp r i =
     do { sc \<leftarrow> find (\<lambda>s. scene_id s = i) (ss_scenes (mc_scenes rule));
          ensure (sc \<in> set (ss_scenes (room_scenes r)))
            (InvalidMotionRule (mc_name rule) (SceneNotProvisioned i grp)) }"

definition resolve_motion_light ::
  "topology \<Rightarrow> string \<Rightarrow> string \<Rightarrow> (topology_error, light_endpoint) result" where
  "resolve_motion_light t rule member =
     andthen (ok_or (InvalidMotionRule rule (InvalidLightEndpoint member)) (rsplit_once (CHR ''/'') member))
       (\<lambda>(n, endpoint). andthen (ok_or (InvalidMotionRule rule (UnknownMotionLight n)) (device_idx_of t n))
       (\<lambda>d. andthen (case parse_unsigned 255 endpoint of
                None \<Rightarrow> Some (Inl (InvalidMotionRule rule (InvalidLightEndpoint member)))
              | Some e \<Rightarrow> if 1 \<le> e \<and> e \<le> 240 then Some (Inr e)
                          else Some (Inl (InvalidMotionRule rule (InvalidLightEndpoint member))))
       (\<lambda>e. let l = LightEndpoint d e in
            andthen (ensure (list_ex (\<lambda>r. l \<in> set (room_light_members r)) (t_rooms t))
                       (InvalidMotionRule rule (EndpointNotGroupMember member)))
              (\<lambda>_. Some (Inr l)))))"

fun resolve_motion_target ::
  "topology \<Rightarrow> motion_rule_config \<Rightarrow> slot \<Rightarrow> motion_target \<Rightarrow> (topology_error, resolved_motion_target) result" where
  "resolve_motion_target t rule sl (TargetGroup grp) =
     andthen (ok_or (InvalidMotionRule (mc_name rule) (UnknownMotionGroup grp)) (room_idx_of t grp))
       (\<lambda>i. do { r \<leftarrow> room t i;
                 andthen (forE (check_group_scene rule grp r) (slot_scene_ids sl))
                   (\<lambda>_. Some (Inr \<lparr>mt_group = Some i, mt_lights = room_light_members r\<rparr>)) })"
| "resolve_motion_target t rule sl (TargetLights members) =
     andthen (mapE (resolve_motion_light t (mc_name rule)) members)
       (\<lambda>ls. Some (Inr \<lparr>mt_group = None, mt_lights = ls\<rparr>))"

definition resolve_slot_target ::
  "topology \<Rightarrow> motion_rule_config \<Rightarrow> string \<times> motion_target \<Rightarrow>
   (string, resolved_motion_target) btree_map \<times> light_endpoint btree_set \<Rightarrow>
   (topology_error, (string, resolved_motion_target) btree_map \<times> light_endpoint btree_set) result" where
  "resolve_slot_target t rule nt st =
     (case (nt, st) of ((n, target), (targets, lights)) \<Rightarrow>
        do { sl \<leftarrow> bt_get (ss_slots (mc_scenes rule)) n;
             andthen (ensure (slot_scene_ids sl \<noteq> []) (InvalidMotionRule (mc_name rule) (MotionSlotWithoutScenes n)))
               (\<lambda>_. andthen (forE (check_motion_scene rule) (slot_scene_ids sl))
               (\<lambda>_. andthen (resolve_motion_target t rule sl target)
               (\<lambda>mt. andthen (ensure (mt_lights mt \<noteq> [] \<and> length (bs_of_list (mt_lights mt)) = length (mt_lights mt))
                                (InvalidMotionRule (mc_name rule) (TargetLightsEmptyOrDuplicate n)))
               (\<lambda>_. Some (Inr (bt_insert n mt targets, fold bs_insert (mt_lights mt) lights)))))) })"

definition own_light ::
  "topology \<Rightarrow> string \<Rightarrow> light_endpoint \<Rightarrow> (device_idx, string) btree_map \<Rightarrow>
   (topology_error, (device_idx, string) btree_map) result" where
  "own_light t rule l owners =
     (case bt_get owners (le_device l) of
        Some other \<Rightarrow>
          do { n \<leftarrow> device_name t (le_device l); Some (Inl (InvalidMotionRule rule (LightTargetedTwice n other))) }
      | None \<Rightarrow>
          let endpoints = bs_of_list (map le_endpoint (filter (\<lambda>m. le_device m = le_device l)
                            (concat (map room_light_members (t_rooms t)))))
          in if length endpoints \<noteq> 1
             then do { n \<leftarrow> device_name t (le_device l); Some (Inl (InvalidMotionRule rule (LightHasSeveralEndpoints n))) }
             else Some (Inr (bt_insert (le_device l) rule owners)))"

text \<open>The room learns of the sensor, and the sensor of the room, once.\<close>

definition bind_room :: "motion_binding \<Rightarrow> device_idx \<Rightarrow> room_idx \<Rightarrow> topology \<Rightarrow> topology option" where
  "bind_room s d i t =
     do { r \<leftarrow> room t i;
          let known = bt_get_or [] (t_motion_index t) d;
          let bound = room_bound_motion r;
          Some (t\<lparr>t_motion_index := bt_insert d (if i \<in> set known then known else known @ [i]) (t_motion_index t),
                  t_rooms := (t_rooms t)[i := r\<lparr>room_bound_motion :=
                    (if list_ex (\<lambda>e. mb_sensor e = mb_sensor s) bound then bound else bound @ [s])\<rparr>]\<rparr>) }"

definition bind_sensor :: "motion_rule_idx \<Rightarrow> room_idx list \<Rightarrow> motion_binding \<Rightarrow> topology \<Rightarrow> topology option" where
  "bind_sensor idx related s t =
     do { d \<leftarrow> device_idx_of t (mb_sensor s);
          let t1 = t\<lparr>t_motion_rule_index := push_entry d idx (t_motion_rule_index t),
                     t_motion_index := bt_insert d (bt_get_or [] (t_motion_index t) d) (t_motion_index t)\<rparr>;
          foldM (bind_room s d) related t1 }"

definition build_motion_rule ::
  "config \<Rightarrow> motion_rule_config \<Rightarrow> motion_build \<Rightarrow> (topology_error, motion_build) result" where
  "build_motion_rule c rule st =
     (let n = mc_name rule; bad = InvalidMotionRule n; t = mb_topology st in
      andthen (ensure (n \<noteq> [] \<and> \<not> bs_contains (mb_names st) n) (bad NameEmptyOrDuplicate))
        (\<lambda>_. andthen (ensure (mc_sensors rule \<noteq> [] \<and> length (bs_of_list (mc_sensors rule)) = length (mc_sensors rule))
                         (bad SensorsEmptyOrDuplicate))
        (\<lambda>_. andthen (ensure (0 \<le> mc_off_transition_seconds rule) (bad NegativeOffTransition))
        (\<lambda>_. andthen (map_err (\<lambda>e. bad (BadMotionSchedule e)) (scene_schedule_validate (mc_scenes rule)))
        (\<lambda>_. andthen (ensure (\<not> (uses_sun_expressions (mc_scenes rule) \<and> conf_location c = None))
                         MissingLocationForSunExpressions)
        (\<lambda>_. andthen (ensure (ss_slots (mc_scenes rule) \<noteq> [] \<and>
                              bt_keys (mc_targets_by_slot rule) = bt_keys (ss_slots (mc_scenes rule)))
                         (bad TargetsDifferFromSlots))
        (\<lambda>_. andthen (mapE (motion_sensor_of c n) (mc_sensors rule))
        (\<lambda>sensors. andthen (foldE (resolve_slot_target t rule) (mc_targets_by_slot rule) ([], []))
        (\<lambda>(targets, lights). andthen (foldE (own_light t n) lights (mb_owners st))
        (\<lambda>owners.
           let related = map fst (filter (\<lambda>(i, r). list_ex (\<lambda>m. bs_contains lights m) (room_light_members r)) (rooms_with_idx t));
               idx = length (t_motion_rules t)
           in do { t1 \<leftarrow> foldM (bind_sensor idx related) sensors t;
                   Some (Inr \<lparr>mb_names = bs_insert n (mb_names st), mb_owners = owners,
                     mb_topology = t1\<lparr>t_motion_rules := t_motion_rules t1 @
                       [\<lparr>mr_name = n, mr_sensors = sensors, mr_mode = mc_mode rule, mr_scenes = mc_scenes rule,
                         mr_targets_by_slot = targets, mr_off_transition_seconds = mc_off_transition_seconds rule,
                         mr_off_cooldown_seconds = mc_off_cooldown_seconds rule,
                         mr_max_illuminance = mc_max_illuminance rule, mr_lights = lights, mr_rooms = related\<rparr>]\<rparr>\<rparr>) }))))))))))"

text \<open>
  Whether \<open>parent\<close> is met on the way up from \<open>ancestor\<close>. The loop ends only where the parents do;
  \<^const>\<open>None\<close> is a panic or a walk that goes round for ever.
\<close>

partial_function (option) has_ancestor :: "topology \<Rightarrow> room_idx \<Rightarrow> string option \<Rightarrow> bool option" where
  "has_ancestor t parent ancestor =
     (case ancestor of
        None \<Rightarrow> Some False
      | Some n \<Rightarrow>
          do { i \<leftarrow> room_idx_of t n;
               r \<leftarrow> room t i;
               above \<leftarrow> has_ancestor t parent (room_parent r);
               Some (i = parent \<or> above) })"

declare has_ancestor.simps [code]

definition is_descendant :: "topology \<Rightarrow> room_idx \<Rightarrow> room_idx \<times> resolved_room \<Rightarrow> bool option" where
  "is_descendant t parent ir =
     (case ir of (child, r) \<Rightarrow>
        do { unbound \<leftarrow> (if room_bound_motion r = [] then map_option Not (index (t_room_has_bindings t) child)
                        else Some False);
             if unbound then Some False else has_ancestor t parent (room_parent r) })"

definition descendants_for :: "topology \<Rightarrow> room_idx \<Rightarrow> room_idx list option" where
  "descendants_for t parent =
     do { found \<leftarrow> filterM (is_descendant t parent) (rooms_with_idx t);
          named \<leftarrow> mapM (\<lambda>(i, _). do { r \<leftarrow> room t i; Some (room_name r, i) }) found;
          Some (map snd (sort_key fst named)) }"

definition build_motion_rules :: "config \<Rightarrow> topology \<Rightarrow> (topology_error, topology) result" where
  "build_motion_rules c t =
     andthen (foldE (build_motion_rule c) (conf_motion_rules c)
                \<lparr>mb_names = [], mb_owners = [], mb_topology = t\<rparr>)
       (\<lambda>st. let t1 = mb_topology st in
             do { ds \<leftarrow> mapM (descendants_for t1) [0..<length (t_rooms t1)];
                  Some (Inr (t1\<lparr>t_descendants_by_room := t_descendants_by_room t1 @ ds\<rparr>)) })"

section \<open>The whole pipeline\<close>

definition base_topology ::
  "config \<Rightarrow> (device_idx \<times> string) btree_set \<Rightarrow> (u16, device_idx) btree_map \<Rightarrow> binding_state \<Rightarrow> resolved_room list \<Rightarrow> topology" where
  "base_topology c hw nodes bs rooms =
     (let ds = build_devices c in
      \<lparr>t_rooms = rooms, t_room_by_name = index_by rc_name (conf_rooms c),
       t_room_by_group_name = index_by rc_group_name (conf_rooms c), t_descendants_by_room = [],
       t_room_has_bindings = map (\<lambda>i. bs_contains (bs_rooms_bound bs) i) [0..<length rooms],
       t_devices = ds, t_device_by_name = index_by di_name ds,
       t_switch_devices = devices_where (\<lambda>d. di_kind d = KSwitch) ds,
       t_motion_sensor_devices = devices_where (\<lambda>d. di_kind d = KMotionSensor) ds,
       t_plug_devices = devices_where (\<lambda>d. di_kind d = KPlug) ds,
       t_zigbee_plug_devices = devices_where (is_plug_of Zigbee) ds,
       t_zwave_plug_devices = devices_where (is_plug_of Zwave) ds,
       t_trv_devices = devices_where (\<lambda>d. di_kind d = KTrv) ds,
       t_wall_thermostat_devices = devices_where (\<lambda>d. di_kind d = KWallThermostat) ds,
       t_zwave_node_id_to_device = nodes, t_switch_models = conf_switch_models c,
       t_soft_double_tap_buttons = bs_soft_double_taps bs, t_hw_double_tap_buttons = hw,
       t_bindings = bs_resolved bs, t_button_binding_index = bs_button_index bs,
       t_power_below_index = bs_power_below_index bs, t_motion_index = [], t_motion_rules = [],
       t_motion_rule_index = [], t_heating_config = conf_heating c\<rparr>)"

definition build_topology :: "config \<Rightarrow> (topology_error, topology) result" where
  "build_topology c =
     andthen (rooms_by_name (conf_rooms c))
       (\<lambda>by_name. andthen (check_groups (conf_rooms c))
       (\<lambda>_. andthen (check_namespace c)
       (\<lambda>_. andthen (check_parents by_name (conf_rooms c))
       (\<lambda>_. andthen (check_scenes (conf_rooms c))
       (\<lambda>needs_location. andthen (check_timing c)
       (\<lambda>_. andthen (check_members c)
       (\<lambda>_. andthen (hw_double_taps c (index_by di_name (build_devices c)))
       (\<lambda>hw. andthen (zwave_nodes c (build_devices c))
       (\<lambda>nodes. andthen (resolve_bindings c (index_by di_name (build_devices c)) (index_by rc_name (conf_rooms c)) needs_location)
       (\<lambda>bs. andthen (mapE (build_room (index_by di_name (build_devices c))) (conf_rooms c))
       (\<lambda>rooms. andthen (validate_endpoints rooms)
       (\<lambda>_. andthen (case conf_heating c of
                       None \<Rightarrow> Some (Inr ())
                     | Some h \<Rightarrow> map_err HeatingError (check_heating c (build_devices c) h))
       (\<lambda>_. andthen (ensure (\<not> (bs_needs_location bs \<and> conf_location c = None)) MissingLocationForSunExpressions)
       (\<lambda>_. build_motion_rules c (base_topology c hw nodes bs rooms)))))))))))))))"

end
