(* ===== verification/Controller.thy ===== *)
theory Controller
  imports Buttons HeatingLoop
begin

text \<open>
  The event processor as a whole (\<open>src/crates/mqtt-controller/src/logic/mod.rs\<close>): \<open>handle_event\<close>
  dispatches every event to the domain logic, \<open>handle_tick\<close> runs the periodic work, and the dashboard
  entry points act on lights. No handler panics in a state that satisfies the invariant, so the
  controller answers every sequence of events, clock readings and dashboard commands without a
  panic and never loses its invariant.
\<close>

section \<open>Staleness sweeps\<close>

definition HEATING_TARGET_STALE_THRESHOLD :: duration where
  "HEATING_TARGET_STALE_THRESHOLD = from_secs 60"

definition MOTION_SENSOR_STALE_THRESHOLD :: duration where
  "MOTION_SENSOR_STALE_THRESHOLD = from_secs 300"

definition PLUG_ACTUAL_STALE_THRESHOLD :: duration where
  "PLUG_ACTUAL_STALE_THRESHOLD = from_secs 600"

definition POWER_METER_STALE_THRESHOLD :: duration where
  "POWER_METER_STALE_THRESHOLD = from_secs (65 * 60)"

definition evaluate_target_staleness :: "instant \<Rightarrow> processor \<Rightarrow> processor" where
  "evaluate_target_staleness now = upd_world (\<lambda>w. w\<lparr>
     w_light_zones := bt_map_values (\<lambda>z. z\<lparr>lz_target :=
       snd (target_mark_stale_if_old now TARGET_STALE_THRESHOLD (lz_target z))\<rparr>) (w_light_zones w),
     w_lights := bt_map_values (\<lambda>l. l\<lparr>light_target :=
       snd (target_mark_stale_if_old now TARGET_STALE_THRESHOLD (light_target l))\<rparr>) (w_lights w),
     w_plugs := bt_map_values (\<lambda>pl. pl\<lparr>plug_target :=
       snd (target_mark_stale_if_old now TARGET_STALE_THRESHOLD (plug_target pl))\<rparr>) (w_plugs w),
     w_heating_zones := bt_map_values (\<lambda>hz. hz\<lparr>hz_target :=
       snd (target_mark_stale_if_old now HEATING_TARGET_STALE_THRESHOLD (hz_target hz))\<rparr>) (w_heating_zones w)\<rparr>)"

definition newly_stale_sensors :: "instant \<Rightarrow> processor \<Rightarrow> string list" where
  "newly_stale_sensors now p =
     map fst (filter (\<lambda>(n, s). fst (actual_mark_stale_if_old now MOTION_SENSOR_STALE_THRESHOLD (ms_actual s)))
       (w_motion_sensors (p_world p)))"

definition mark_actuals_stale :: "instant \<Rightarrow> processor \<Rightarrow> processor" where
  "mark_actuals_stale now = upd_world (\<lambda>w. w\<lparr>
     w_power_meters := bt_map_values (\<lambda>m. m\<lparr>
       pm_power := snd (actual_mark_stale_if_old now POWER_METER_STALE_THRESHOLD (pm_power m)),
       pm_energy := snd (actual_mark_stale_if_old now POWER_METER_STALE_THRESHOLD (pm_energy m))\<rparr>) (w_power_meters w),
     w_motion_sensors := bt_map_values (\<lambda>s. s\<lparr>ms_actual :=
       snd (actual_mark_stale_if_old now MOTION_SENSOR_STALE_THRESHOLD (ms_actual s))\<rparr>) (w_motion_sensors w),
     w_plugs := bt_map_values (\<lambda>pl. pl\<lparr>
       plug_actual := snd (actual_mark_stale_if_old now PLUG_ACTUAL_STALE_THRESHOLD (plug_actual pl)),
       plug_power := snd (actual_mark_stale_if_old now PLUG_ACTUAL_STALE_THRESHOLD (plug_power pl))\<rparr>) (w_plugs w)\<rparr>)"

definition evaluate_actual_staleness :: "instant \<Rightarrow> handler" where
  "evaluate_actual_staleness now p =
     (let stale = newly_stale_sensors now p;
          p1 = mark_actuals_stale now p;
          rules = filter (\<lambda>r. list_ex (\<lambda>s. mb_sensor s \<in> set stale) (mr_sensors r)) (t_motion_rules (p_topology p1))
      in for_each (\<lambda>r q. if \<not> motion_rule_occupied q r then finish_motion_session r now System q
                         else Some ([], q)) rules p1)"

section \<open>Ticks and events\<close>

definition handle_tick :: "instant \<Rightarrow> handler" where
  "handle_tick ts =
     seq (flush_pending_presses ts)
       (seq (evaluate_at_triggers ts)
         (seq (evaluate_kill_switch_ticks ts)
           (seq (\<lambda>p. Some ([], evaluate_target_staleness ts p))
             (seq (evaluate_actual_staleness ts)
               (\<lambda>p. if p_heating_config p \<noteq> None then handle_heating_tick p else Some ([], p))))))"

definition note_motion_event :: "string \<Rightarrow> bool \<Rightarrow> u64 option \<Rightarrow> processor \<Rightarrow> processor" where
  "note_motion_event sensor occupied received p =
     (case received of
        None \<Rightarrow> p
      | Some ms \<Rightarrow> upd_world (\<lambda>w. put_motion_sensor sensor ((motion_sensor w sensor)\<lparr>ms_last_event :=
          Some \<lparr>me_occupied = occupied, me_timestamp_epoch_ms = ms\<rparr>\<rparr>) w) p)"

definition power_meter_report :: "string \<Rightarrow> f64 option \<Rightarrow> f64 option \<Rightarrow> instant \<Rightarrow> processor \<Rightarrow> processor" where
  "power_meter_report device watts kwh ts = upd_world (\<lambda>w.
     let m = bt_get_or power_meter_default (w_power_meters w) device;
         m1 = (case watts of None \<Rightarrow> m | Some x \<Rightarrow> m\<lparr>pm_power := actual_update x ts (pm_power m)\<rparr>);
         m2 = (case kwh of None \<Rightarrow> m1 | Some x \<Rightarrow> m1\<lparr>pm_energy := actual_update x ts (pm_energy m1)\<rparr>)
     in w\<lparr>w_power_meters := bt_insert device m2 (w_power_meters w)\<rparr>)"

fun handle_event :: "event \<Rightarrow> handler" where
  "handle_event (ButtonPress device button g ts) = handle_button_press device button g ts"
| "handle_event (Occupancy sensor occupied illuminance received ts) =
     (\<lambda>p. handle_occupancy sensor occupied illuminance ts (note_motion_event sensor occupied received p))"
| "handle_event (GroupState grp on ts) = handle_group_state grp on ts"
| "handle_event (LightState device on b c xy ts) =
     (\<lambda>p. do { p1 \<leftarrow> handle_light_state device on b c xy ts p; Some ([], p1) })"
| "handle_event (PlugState device on power' ts) = handle_plug_state device (Some on) power' ts"
| "handle_event (PlugPowerUpdate device watts ts) = handle_plug_state device None (Some watts) ts"
| "handle_event (PowerMeterState device watts kwh ts) = (\<lambda>p. Some ([], power_meter_report device watts kwh ts p))"
| "handle_event (TrvState device t d r sp om sm batt ts) =
     (\<lambda>p. if p_heating_config p \<noteq> None then handle_heating_event (TrvState device t d r sp om sm batt ts) p
          else Some ([], p))"
| "handle_event (WallThermostatState device relay t m ts) =
     (\<lambda>p. if p_heating_config p \<noteq> None then handle_heating_event (WallThermostatState device relay t m ts) p
          else Some ([], p))"
| "handle_event (Tick ts) = handle_tick ts"

section \<open>Dashboard entry points\<close>

definition set_zone_actual :: "string \<Rightarrow> bool \<Rightarrow> instant \<Rightarrow> processor \<Rightarrow> processor" where
  "set_zone_actual n on ts =
     upd_light_zone n (\<lambda>z. z\<lparr>lz_actual := actual_update (if on then ZoneOn else ZoneOff) ts (lz_actual z)\<rparr>)"

definition web_recall_scene :: "string \<Rightarrow> u8 \<Rightarrow> instant \<Rightarrow> handler" where
  "web_recall_scene n sid ts p =
     do { (ids, p1) \<leftarrow> scenes_for_room n p;
          case room_idx_of (p_topology p1) n of
            None \<Rightarrow> Some ([], p1)
          | Some i \<Rightarrow>
              do { ro \<leftarrow> room (p_topology p1) i;
                   case find (\<lambda>s. scene_id s = sid) (ss_scenes (room_scenes ro)) of
                     None \<Rightarrow> Some ([], p1)
                   | Some sc \<Rightarrow>
                       let cycle_idx = (case position (\<lambda>x. x = sid) ids of None \<Rightarrow> 0 | Some k \<Rightarrow> k) in
                       do { ow \<leftarrow> resolve_zone_owner p1 n WebUI;
                            let p2 = upd_light_zone n (\<lambda>z. z\<lparr>
                              lz_target := set_and_command (LZOn sid cycle_idx) ow ts (lz_target z),
                              lz_last_press_at := Some ts\<rparr>) p1;
                            p3 \<leftarrow> record_group_light_command n (LTOn (scene_brightness sc) (scene_color_temp sc)) WebUI ts p2;
                            p4 \<leftarrow> propagate_to_descendants n True ts p3;
                            Some ([PublishGroupSet i (scene_recall sid)], p4) } } }"

definition web_set_room_off :: "string \<Rightarrow> instant \<Rightarrow> handler" where
  "web_set_room_off n ts p =
     (case room_idx_of (p_topology p) n of
        None \<Rightarrow> Some ([], p)
      | Some i \<Rightarrow>
          do { ro \<leftarrow> room (p_topology p) i;
               ow \<leftarrow> resolve_zone_owner p n WebUI;
               publish_off n i (room_off_transition_seconds ro) ts ow p })"

section \<open>No event panics\<close>

lemma stale_entities_ok:
  "light_zone_ok z \<Longrightarrow> light_zone_ok (z\<lparr>lz_target := snd (target_mark_stale_if_old now th (lz_target z))\<rparr>)"
  "light_ok l \<Longrightarrow> light_ok (l\<lparr>light_target := snd (target_mark_stale_if_old now th (light_target l))\<rparr>)"
  "plug_ok pl \<Longrightarrow> plug_ok (pl\<lparr>plug_target := snd (target_mark_stale_if_old now th (plug_target pl))\<rparr>)"
  "heating_zone_ok hz \<Longrightarrow> heating_zone_ok (hz\<lparr>hz_target := snd (target_mark_stale_if_old now th (hz_target hz))\<rparr>)"
  "switch_cycle_ok p n z \<Longrightarrow>
     switch_cycle_ok p n (z\<lparr>lz_target := snd (target_mark_stale_if_old now th (lz_target z))\<rparr>)"
  unfolding light_zone_ok_def light_ok_def plug_ok_def heating_zone_ok_def switch_cycle_ok_def
  by (auto simp: target_ok_def target_mark_stale_if_old_def split: option.splits)

lemma target_staleness_stays: "stays p q \<Longrightarrow> stays p (evaluate_target_staleness now q)"
  unfolding stays_def state_ok_def world_ok_def evaluate_target_staleness_def
  by (auto simp: bt_all_map_values [where P = "\<lambda>_. light_zone_ok" and Q = "\<lambda>_. light_zone_ok"]
      bt_all_map_values [where P = "\<lambda>_. light_ok" and Q = "\<lambda>_. light_ok"]
      bt_all_map_values [where P = "\<lambda>_. plug_ok" and Q = "\<lambda>_. plug_ok"]
      bt_all_map_values [where P = "\<lambda>_. heating_zone_ok" and Q = "\<lambda>_. heating_zone_ok"]
      stale_entities_ok cycles_ok_def)

lemma actual_stale_ok: "actual_ok a \<Longrightarrow> actual_ok (snd (actual_mark_stale_if_old now th a))"
  by (auto simp: actual_mark_stale_if_old_def actual_ok_def)

lemma mark_actuals_stale_stays: "stays p q \<Longrightarrow> stays p (mark_actuals_stale now q)"
  unfolding stays_def state_ok_def world_ok_def mark_actuals_stale_def
  by (auto intro!: bt_all_map_values [where P = "\<lambda>_. motion_sensor_ok"] bt_all_map_values [where P = "\<lambda>_. plug_ok"]
      simp: motion_sensor_ok_def plug_ok_def actual_stale_ok)

lemma finish_session_safe: "safe (finish_motion_session r ts ow)"
  by (rule safeI) (simp add: safe_at_def finish_motion_session_safe stays_refl)

lemma evaluate_actual_staleness_safe: "safe (evaluate_actual_staleness now)"
proof (rule safeI)
  fix p assume p: "proc_ok p"
  have s: "stays p (mark_actuals_stale now p)" using mark_actuals_stale_stays [OF stays_refl [OF p]] .
  have "safe (for_each (\<lambda>r q. if \<not> motion_rule_occupied q r then finish_motion_session r now System q else Some ([], q)) rs)" for rs
    by (rule safe_for_each_all, rule safeI) (simp add: stays_refl safeD [OF finish_session_safe])
  from safe_from [OF this p s] show "safe_at p (evaluate_actual_staleness now p)"
    by (simp add: evaluate_actual_staleness_def Let_def)
qed

lemma heating_guard_safe: "safe h \<Longrightarrow> safe (\<lambda>p. if p_heating_config p \<noteq> None then h p else Some ([], p))"
  by (simp add: safe_def stays_refl)

lemma handle_tick_safe: "safe (handle_tick ts)"
proof -
  have "safe (\<lambda>p. Some ([], evaluate_target_staleness ts p))"
    by (rule safeI) (simp add: target_staleness_stays stays_refl)
  then show ?thesis
    unfolding handle_tick_def
    by (intro safe_seq flush_pending_presses_safe evaluate_at_triggers_safe evaluate_kill_switch_ticks_safe
        evaluate_actual_staleness_safe heating_guard_safe handle_heating_tick_safe)
qed

lemma note_motion_event_stays: "stays p q \<Longrightarrow> stays p (note_motion_event s occ r q)"
  using state_ok_fetch(4) [of p "p_world q" s]
  by (simp add: note_motion_event_def stays_def state_ok_store motion_sensor_ok_def split: option.split)

lemma power_meter_stays: "stays p q \<Longrightarrow> stays p (power_meter_report d w k ts q)"
  by (simp add: stays_def power_meter_report_def Let_def)

lemma handle_event_safe: "safe (handle_event ev)"
proof (cases ev)
  case (Occupancy sensor occ ill rec ts)
  show ?thesis
    unfolding Occupancy handle_event.simps
    by (rule safeI) (simp add: safe_from [OF handle_occupancy_safe] note_motion_event_stays stays_refl)
next
  case (LightState d on b c xy ts)
  show ?thesis
    unfolding LightState handle_event.simps
    by (rule safeI) (use handle_light_state_safe [where d = d and on = on and b = b and c = c and xy = xy and ts = ts] in
      \<open>fastforce simp: safe_at_def wp_iff\<close>)
next
  case (PowerMeterState d w k ts)
  show ?thesis
    unfolding PowerMeterState handle_event.simps by (rule safeI) (simp add: power_meter_stays stays_refl)
qed (simp_all only: handle_event.simps handle_button_press_safe handle_group_state_safe
    safeI [OF handle_plug_state_safe] handle_tick_safe heating_guard_safe handle_heating_event_safe)

lemma set_zone_actual_stays: "stays p q \<Longrightarrow> stays p (set_zone_actual n on ts q)"
  unfolding set_zone_actual_def
  by (erule stays_upd_light_zone) (auto simp: zone_update_ok_def light_zone_ok_def)

lemma web_recall_scene_safe: "safe (web_recall_scene n sid ts)"
proof (rule safeI)
  fix p assume p: "proc_ok p"
  obtain ids c where sc: "scenes_for_room n p = Some (ids, p\<lparr>p_cached_sun := c\<rparr>)"
    using scenes_for_room_safe [OF p, of n] unfolding wp_iff by auto
  let ?p1 = "p\<lparr>p_cached_sun := c\<rparr>"
  have s1: "stays p ?p1" using p by (rule stays_cached_sun)
  show "safe_at p (web_recall_scene n sid ts p)"
  proof (cases "room_idx_of (p_topology p) n")
    case None
    with sc s1 show ?thesis by (simp add: web_recall_scene_def)
  next
    case (Some i)
    let ?r = "t_rooms (p_topology p) ! i"
    note r = room_at [OF p Some]
    show ?thesis
    proof (cases "find (\<lambda>s. scene_id s = sid) (ss_scenes (room_scenes ?r))")
      case None
      with sc s1 Some r show ?thesis by (simp add: web_recall_scene_def)
    next
      case found: (Some x)
      obtain ow where ow: "resolve_zone_owner ?p1 n WebUI = Some ow"
        using owner_total [of ?p1 n WebUI] proc_ok_topology [OF p] by auto
      define k where "k = (case position (\<lambda>x. x = sid) ids of None \<Rightarrow> 0 | Some k \<Rightarrow> k)"
      define p2 where "p2 = upd_light_zone n (\<lambda>z. z\<lparr>lz_target := set_and_command (LZOn sid k) ow ts (lz_target z),
        lz_last_press_at := Some ts\<rparr>) ?p1"
      have "stays p p2" unfolding p2_def using s1 by (simp add: stays_upd_light_zone)
      then obtain p3 where 3: "record_group_light_command n (LTOn (scene_brightness x) (scene_color_temp x)) WebUI ts p2 = Some p3"
          "stays p p3"
        using record_group_light_command_safe [OF p, of p2 n] unfolding wp_iff by blast
      then obtain p4 where 4: "propagate_to_descendants n True ts p3 = Some p4" "stays p p4"
        using propagate_to_descendants_safe [OF p, of p3 n True ts] unfolding wp_iff by blast
      show ?thesis
        using sc Some r found ow 3(1) 4
        by (simp add: web_recall_scene_def k_def [symmetric] p2_def [symmetric])
    qed
  qed
qed

lemma web_set_room_off_safe: "safe (web_set_room_off n ts)"
proof (rule safeI)
  fix p assume p: "proc_ok p"
  obtain ow where "resolve_zone_owner p n WebUI = Some ow"
    using owner_total [OF proc_ok_topology [OF p]] by metis
  then show "safe_at p (web_set_room_off n ts p)"
    using room_at [OF p] publish_off_safe [OF p stays_refl [OF p]] p
    by (auto simp: web_set_room_off_def stays_refl split: option.splits)
qed

end
