(* ===== verification/Overrides.thy ===== *)
theory Overrides
  imports Controller StepsConfig
begin

text \<open>
  Dashboard overrides of the deployed automation
  (\<open>src/crates/mqtt-controller/src/logic/automation_overrides.rs\<close>, \<open>settings.rs\<close>,
  \<open>settings/automation_override.rs\<close>, \<open>settings/boost.rs\<close>, \<open>settings/schedule_override.rs\<close>): an
  override is parsed, validated against the topology, stored, and only then applied. Shown: applying a
  validated override, taking one back, or restoring whatever the database holds keeps the
  processor's invariant, and a change that fails leaves the processor as it was.

  The settings repository is a parameter: the record of the functions of the trait
  \<open>SettingsRepository\<close> that the changes call, each returning the outcome of the write. The
  conversion of a wire schedule by \<open>serde_json\<close> is an argument too. Error messages are the
  constructors of \<open>override_error\<close>.
\<close>

section \<open>Plans, errors and the repository\<close>

record slot_plan =
  sp_name :: string
  sp_from :: string
  sp_to :: string
  sp_scene_ids :: "u8 list"

record room_schedule_plan =
  rsp_slots :: "slot_plan list"
  rsp_switch_steps :: "(string, switch_step list) btree_map"

record plug_timed_action_plan =
  ptp_time :: string
  ptp_action :: plug_action

record plug_schedule_plan =
  psp_timed_actions :: "plug_timed_action_plan list"
  psp_kill_switch :: "kill_switch_override option"

datatype override_error =
    UnknownLightGroup string
  | UnknownMotionRule string
  | NoSlots
  | BlankSlotName string
  | ScheduleRejected scene_schedule_error
  | SunWithoutLocation
  | StepsRejected topology_error
  | MotionSlotEmpty string
  | UnknownPlug string
  | CannotRunAt time_expr
  | KillSwitchThreshold
  | KillSwitchHoldoff
  | NoPowerReport string
  | TimesAPlug string
  | NotATimedAction string
  | UnknownBinding string
  | SlotTime string parse_time_expr_error
  | SlotListedTwice string
  | ActionTime parse_time_expr_error
  | OtherMessage string
  | BoostTarget
  | BoostDuration
  | BoostAlreadyActive
  | BoostDeadlineRange
  | BoostNotActive
  | InvalidValveSchedule string
  | ValveScheduleRejected heating_config_error
  | NotSaved string string

datatype boost_change = BoostStart u16 f64 | BoostTargetChange f64 | BoostCancel

record settings_repository =
  repo_set_valve_boost :: "string \<Rightarrow> valve_boost option \<Rightarrow> string + unit"
  repo_set_valve_schedule :: "string \<Rightarrow> temperature_schedule option \<Rightarrow> string + unit"
  repo_set_room_schedule :: "string \<Rightarrow> room_schedule_override option \<Rightarrow> string + unit"
  repo_set_motion_schedule :: "string \<Rightarrow> slots option \<Rightarrow> string + unit"
  repo_set_timed_action_time :: "string \<Rightarrow> time_expr option \<Rightarrow> string + unit"
  repo_set_plug_schedule :: "string \<Rightarrow> plug_schedule_override option \<Rightarrow> string + unit"
  repo_set_motion_enabled :: "string \<Rightarrow> bool \<Rightarrow> string + unit"
  repo_set_heat_demand_enabled :: "string \<Rightarrow> bool \<Rightarrow> string + unit"

section \<open>Validation\<close>

fun deployed_schedule :: "processor \<Rightarrow> schedule_owner \<Rightarrow> (override_error, scene_schedule) result" where
  "deployed_schedule p (OwnerRoom n) =
     do { r \<leftarrow> room_by_name (p_topology p) n;
          ok_or (UnknownLightGroup n) (map_option room_scenes r) }"
| "deployed_schedule p (OwnerMotionRule n) =
     ok_or (UnknownMotionRule n) (map_option mr_scenes (find (\<lambda>r. mr_name r = n) (t_motion_rules (p_topology p))))"

definition validate_schedule_owner :: "processor \<Rightarrow> schedule_owner \<Rightarrow> (override_error, unit) result" where
  "validate_schedule_owner p ow = andthen (deployed_schedule p ow) (\<lambda>_. Some (Inr ()))"

definition sun_needs_location :: "processor \<Rightarrow> slots \<Rightarrow> bool" where
  "sun_needs_location p sl = (p_location p = None \<and> list_ex slot_uses_sun (bt_values sl))"

definition validate_override_slots :: "processor \<Rightarrow> scene_schedule \<Rightarrow> slots \<Rightarrow> (override_error, unit) result" where
  "validate_override_slots p deployed sl =
     andthen (ensure (sl \<noteq> []) NoSlots)
       (\<lambda>_. case find (\<lambda>n. trim n = []) (bt_keys sl) of
              Some n \<Rightarrow> Some (Inl (BlankSlotName n))
            | None \<Rightarrow>
                andthen (map_err ScheduleRejected (scene_schedule_validate \<lparr>ss_scenes = ss_scenes deployed, ss_slots = sl\<rparr>))
                  (\<lambda>_. ensure (\<not> sun_needs_location p sl) SunWithoutLocation))"

definition validate_room_override ::
  "processor \<Rightarrow> string \<Rightarrow> room_schedule_override \<Rightarrow> (override_error, resolved_switch_steps) result" where
  "validate_room_override p n v =
     do { r \<leftarrow> room_by_name (p_topology p) n;
          andthen (ok_or (UnknownLightGroup n) r)
            (\<lambda>ro. andthen (validate_override_slots p (room_scenes ro) (rso_slots v))
            (\<lambda>_. andthen (map_err StepsRejected (resolve_switch_steps n
                            \<lparr>ss_scenes = ss_scenes (room_scenes ro), ss_slots = rso_slots v\<rparr>
                            (rso_switch_steps v) (room_members ro) (room_light_members ro)))
            (\<lambda>steps. if steps \<noteq> []
                     then andthen (map_err StepsRejected (endpoints_observable ro (t_rooms (p_topology p))))
                            (\<lambda>_. Some (Inr steps))
                     else Some (Inr steps)))) }"

definition validate_motion_override :: "processor \<Rightarrow> string \<Rightarrow> slots \<Rightarrow> (override_error, unit) result" where
  "validate_motion_override p n sl =
     andthen (deployed_schedule p (OwnerMotionRule n))
       (\<lambda>deployed. andthen (map_err ScheduleRejected (validate_replacement_slots deployed sl))
       (\<lambda>_. andthen (ensure (\<not> sun_needs_location p sl) SunWithoutLocation)
       (\<lambda>_. case find (\<lambda>(_, s). slot_scene_ids s = []) sl of
              Some (slot_name, _) \<Rightarrow> Some (Inl (MotionSlotEmpty slot_name))
            | None \<Rightarrow> Some (Inr ()))))"

definition validate_timed_action_time :: "processor \<Rightarrow> time_expr \<Rightarrow> (override_error, unit) result" where
  "validate_timed_action_time p t =
     andthen (ensure (is_valid_trigger_time t) (CannotRunAt t))
       (\<lambda>_. ensure (\<not> (uses_sun t \<and> p_location p = None)) SunWithoutLocation)"

definition validate_timed_action :: "processor \<Rightarrow> string \<Rightarrow> (override_error, unit) result" where
  "validate_timed_action p n =
     (case find (\<lambda>b. rb_name b = n) (t_bindings (p_topology p)) of
        None \<Rightarrow> Some (Inl (UnknownBinding n))
      | Some b \<Rightarrow>
          (case rb_trigger b of
             At t \<Rightarrow> if effect_target_plug (rb_effect b) = None then Some (Inr ()) else Some (Inl (TimesAPlug n))
           | _ \<Rightarrow> Some (Inl (NotATimedAction n))))"

definition validate_plug :: "processor \<Rightarrow> string \<Rightarrow> (override_error, plug_idx) result" where
  "validate_plug p device =
     do { i \<leftarrow> plug_idx_by_name (p_topology p) device; ok_or (UnknownPlug device) i }"

definition kill_switch_validate :: "kill_switch_override \<Rightarrow> (override_error, unit) result" where
  "kill_switch_validate k =
     andthen (ensure (\<not> kso_threshold_watts k \<le> 0) KillSwitchThreshold)
       (\<lambda>_. ensure (kso_holdoff_secs k \<noteq> 0) KillSwitchHoldoff)"

fun plug_action_effect :: "plug_idx \<Rightarrow> plug_action \<Rightarrow> resolved_effect" where
  "plug_action_effect pl PaOn = TurnOn pl"
| "plug_action_effect pl PaOff = TurnOff pl"
| "plug_action_effect pl PaToggle = Toggle pl None"

definition plug_action_binding ::
  "processor \<Rightarrow> string \<Rightarrow> plug_idx \<Rightarrow> nat \<times> plug_timed_action \<Rightarrow> (override_error, resolved_binding) result" where
  "plug_action_binding p device pl = (\<lambda>(i, a).
     andthen (validate_timed_action_time p (pta_time a))
       (\<lambda>_. Some (Inr \<lparr>rb_name = ''plug-schedule:'' @ device @ '':'' @ show_nat (i + 1),
                       rb_trigger = At (pta_time a), rb_effect = plug_action_effect pl (pta_action a)\<rparr>)))"

definition power_metered :: "topology \<Rightarrow> device_idx \<Rightarrow> bool option" where
  "power_metered t d = map_option di_power_metered (index (t_devices t) d)"

definition validate_plug_override ::
  "processor \<Rightarrow> string \<Rightarrow> plug_schedule_override \<Rightarrow> (override_error, resolved_binding list) result" where
  "validate_plug_override p device v =
     andthen (validate_plug p device)
       (\<lambda>pl. andthen (mapE (plug_action_binding p device pl) (enumerate 0 (pso_timed_actions v)))
       (\<lambda>bs. case pso_kill_switch v of
               None \<Rightarrow> Some (Inr bs)
             | Some k \<Rightarrow>
                 andthen (kill_switch_validate k)
                   (\<lambda>_. do { metered \<leftarrow> power_metered (p_topology p) pl;
                             andthen (ensure metered (NoPowerReport device))
                               (\<lambda>_. Some (Inr (bs @ [\<lparr>rb_name = ''plug-schedule:'' @ device @ '':kill-switch'',
                                    rb_trigger = PowerBelow pl (kso_threshold_watts k) (from_secs (kso_holdoff_secs k)),
                                    rb_effect = TurnOff pl\<rparr>]))) })))"

section \<open>Application\<close>

definition upd_settings :: "(control_settings \<Rightarrow> control_settings) \<Rightarrow> processor \<Rightarrow> processor" where
  "upd_settings f p = p\<lparr>p_settings := f (p_settings p)\<rparr>"

definition set_entry :: "'k::linorder \<Rightarrow> 'v option \<Rightarrow> ('k, 'v) btree_map \<Rightarrow> ('k, 'v) btree_map" where
  "set_entry k v m = (case v of Some x \<Rightarrow> bt_insert k x m | None \<Rightarrow> bt_remove k m)"

definition forget_switch_cycle :: "string \<Rightarrow> world_state \<Rightarrow> world_state" where
  "forget_switch_cycle n w =
     (case bt_get (w_light_zones w) n of
        None \<Rightarrow> w
      | Some z \<Rightarrow> w\<lparr>w_light_zones := bt_insert n (z\<lparr>lz_switch_cycle := None\<rparr>) (w_light_zones w)\<rparr>)"

definition apply_room_override ::
  "string \<Rightarrow> (room_schedule_override \<times> resolved_switch_steps) option \<Rightarrow> processor \<Rightarrow> processor" where
  "apply_room_override n v p =
     (let p1 = (upd_settings (\<lambda>s. s\<lparr>room_schedule_overrides :=
                  set_entry n (map_option fst v) (room_schedule_overrides s)\<rparr>) p)
               \<lparr>p_resolved_switch_steps := set_entry n (map_option snd v) (p_resolved_switch_steps p)\<rparr>
      in upd_world (forget_switch_cycle n) p1)"

definition apply_motion_override :: "string \<Rightarrow> slots option \<Rightarrow> processor \<Rightarrow> processor" where
  "apply_motion_override n v =
     upd_settings (\<lambda>s. s\<lparr>motion_schedule_overrides := set_entry n v (motion_schedule_overrides s)\<rparr>)"

definition apply_timed_action_time :: "string \<Rightarrow> time_expr option \<Rightarrow> processor \<Rightarrow> processor" where
  "apply_timed_action_time n v =
     upd_settings (\<lambda>s. s\<lparr>timed_action_overrides := set_entry n v (timed_action_overrides s)\<rparr>)"

definition apply_plug_override ::
  "string \<Rightarrow> (plug_schedule_override \<times> resolved_binding list) option \<Rightarrow> processor \<Rightarrow> processor option" where
  "apply_plug_override device v p =
     (let now = ck_now (p_clock p);
          p1 = (upd_settings (\<lambda>s. s\<lparr>plug_schedule_overrides :=
                  set_entry device (map_option fst v) (plug_schedule_overrides s)\<rparr>) p)
               \<lparr>p_resolved_plug_bindings := set_entry device (map_option snd v) (p_resolved_plug_bindings p)\<rparr>
      in case bt_get (w_plugs (p_world p1)) device of
           None \<Rightarrow> Some p1
         | Some pl \<Rightarrow>
             let p2 = upd_world (put_plug device (pl\<lparr>kill_switch_rules := []\<rparr>)) p1
             in if plug_is_on pl then arm_kill_switch_rules device (plug_power_reading pl) now p2
                else Some p2)"

definition apply_valve_schedule :: "string \<Rightarrow> temperature_schedule option \<Rightarrow> processor \<Rightarrow> processor" where
  "apply_valve_schedule device v =
     upd_settings (\<lambda>s. s\<lparr>schedule_overrides := set_entry device v (schedule_overrides s)\<rparr>)"

section \<open>Restoring stored settings\<close>

definition discard_room :: "string \<times> room_schedule_override \<Rightarrow> processor \<Rightarrow> processor option" where
  "discard_room = (\<lambda>(n, v) p.
     do { r \<leftarrow> validate_room_override p n v;
          Some (case r of Inr steps \<Rightarrow> apply_room_override n (Some (v, steps)) p | Inl _ \<Rightarrow> p) })"

definition discard_plug :: "string \<times> plug_schedule_override \<Rightarrow> processor \<Rightarrow> processor option" where
  "discard_plug = (\<lambda>(device, v) p.
     do { r \<leftarrow> validate_plug_override p device v;
          case r of Inr bs \<Rightarrow> apply_plug_override device (Some (v, bs)) p | Inl _ \<Rightarrow> Some p })"

definition accepted :: "('e, 'a) result \<Rightarrow> bool option" where
  "accepted m = map_option (\<lambda>r. \<not> isl r) m"

definition discard_inapplicable_overrides :: "processor \<Rightarrow> processor option" where
  "discard_inapplicable_overrides p =
     do { p1 \<leftarrow> foldM discard_room (room_schedule_overrides (p_settings p))
                 ((upd_settings (\<lambda>s. s\<lparr>room_schedule_overrides := []\<rparr>) p)\<lparr>p_resolved_switch_steps := []\<rparr>);
          rules \<leftarrow> filterM (\<lambda>(n, sl). accepted (validate_motion_override p1 n sl)) (motion_schedule_overrides (p_settings p1));
          let p2 = upd_settings (\<lambda>s. s\<lparr>motion_schedule_overrides := rules\<rparr>) p1;
          times \<leftarrow> filterM (\<lambda>(n, t). accepted (andthen (validate_timed_action p2 n) (\<lambda>_. validate_timed_action_time p2 t)))
                     (timed_action_overrides (p_settings p2));
          let p3 = upd_settings (\<lambda>s. s\<lparr>timed_action_overrides := times\<rparr>) p2;
          foldM discard_plug (plug_schedule_overrides (p_settings p3))
            ((upd_settings (\<lambda>s. s\<lparr>plug_schedule_overrides := []\<rparr>) p3)\<lparr>p_resolved_plug_bindings := []\<rparr>) }"

definition restore_settings :: "control_settings \<Rightarrow> processor \<Rightarrow> processor option" where
  "restore_settings s p =
     do { p1 \<leftarrow> discard_inapplicable_overrides (p\<lparr>p_settings := s\<rparr>);
          Some (restore_boost_deadlines p1) }"

section \<open>Changes from the dashboard\<close>

definition saved :: "string \<Rightarrow> string + unit \<Rightarrow> (override_error, unit) result" where
  "saved what r = Some (map_sum (NotSaved what) id r)"

definition parse_slot :: "slot_plan \<Rightarrow> override_error + slot" where
  "parse_slot plan =
     (case from_str (sp_from plan) of
        Inl e \<Rightarrow> Inl (SlotTime (sp_name plan) e)
      | Inr f \<Rightarrow>
          (case from_str (sp_to plan) of
             Inl e \<Rightarrow> Inl (SlotTime (sp_name plan) e)
           | Inr t \<Rightarrow> Inr \<lparr>slot_from = f, slot_to = t, slot_scene_ids = sp_scene_ids plan\<rparr>))"

definition parse_slots :: "slot_plan list \<Rightarrow> (override_error, slots) result" where
  "parse_slots plans =
     foldE (\<lambda>plan m. andthen (Some (parse_slot plan))
       (\<lambda>s. andthen (ensure (\<not> bt_contains_key m (sp_name plan)) (SlotListedTwice (sp_name plan)))
       (\<lambda>_. Some (Inr (bt_insert (sp_name plan) s m))))) plans []"

definition parse_room_plan :: "room_schedule_plan \<Rightarrow> (override_error, room_schedule_override) result" where
  "parse_room_plan plan =
     andthen (parse_slots (rsp_slots plan))
       (\<lambda>sl. Some (Inr \<lparr>rso_slots = sl, rso_switch_steps = rsp_switch_steps plan\<rparr>))"

definition parse_plug_plan :: "plug_schedule_plan \<Rightarrow> (override_error, plug_schedule_override) result" where
  "parse_plug_plan plan =
     andthen (mapE (\<lambda>a. andthen (map_err ActionTime (Some (from_str (ptp_time a))))
                     (\<lambda>t. Some (Inr \<lparr>pta_time = t, pta_action = ptp_action a\<rparr>))) (psp_timed_actions plan))
       (\<lambda>acts. Some (Inr \<lparr>pso_timed_actions = acts, pso_kill_switch = psp_kill_switch plan\<rparr>))"

text \<open>\<open>Option::map(f).transpose()?\<close>\<close>

definition traverse :: "('a \<Rightarrow> ('e, 'b) result) \<Rightarrow> 'a option \<Rightarrow> ('e, 'b option) result" where
  "traverse f x = (case x of None \<Rightarrow> Some (Inr None) | Some a \<Rightarrow> andthen (f a) (\<lambda>b. Some (Inr (Some b))))"

text \<open>The outcome and the processor after the change: a failed change keeps the old one.\<close>

definition commit :: "processor \<Rightarrow> (override_error, processor) result \<Rightarrow> ((override_error + unit) \<times> processor) option" where
  "commit p m = map_option (\<lambda>r. case r of Inl e \<Rightarrow> (Inl e, p) | Inr p' \<Rightarrow> (Inr (), p')) m"

definition zip_option :: "'a option \<Rightarrow> 'b option \<Rightarrow> ('a \<times> 'b) option" where
  "zip_option x y = do { a \<leftarrow> x; b \<leftarrow> y; Some (a, b) }"

definition change_room_schedule ::
  "settings_repository \<Rightarrow> string \<Rightarrow> room_schedule_plan option \<Rightarrow> processor \<Rightarrow> ((override_error + unit) \<times> processor) option" where
  "change_room_schedule repo n plan p = commit p
     (andthen (validate_schedule_owner p (OwnerRoom n))
       (\<lambda>_. andthen (traverse parse_room_plan plan)
       (\<lambda>v. andthen (traverse (validate_room_override p n) v)
       (\<lambda>resolved. andthen (saved n (repo_set_room_schedule repo n v))
       (\<lambda>_. Some (Inr (apply_room_override n (zip_option v resolved) p)))))))"

definition change_motion_schedule ::
  "settings_repository \<Rightarrow> string \<Rightarrow> slot_plan list option \<Rightarrow> processor \<Rightarrow> ((override_error + unit) \<times> processor) option" where
  "change_motion_schedule repo n plans p = commit p
     (andthen (validate_schedule_owner p (OwnerMotionRule n))
       (\<lambda>_. andthen (traverse parse_slots plans)
       (\<lambda>v. andthen (traverse (validate_motion_override p n) v)
       (\<lambda>_. andthen (saved n (repo_set_motion_schedule repo n v))
       (\<lambda>_. Some (Inr (apply_motion_override n v p)))))))"

definition change_timed_action_time ::
  "settings_repository \<Rightarrow> string \<Rightarrow> string option \<Rightarrow> processor \<Rightarrow> ((override_error + unit) \<times> processor) option" where
  "change_timed_action_time repo n time p = commit p
     (andthen (validate_timed_action p n)
       (\<lambda>_. andthen (traverse (\<lambda>t. map_err ActionTime (Some (from_str t))) time)
       (\<lambda>v. andthen (traverse (validate_timed_action_time p) v)
       (\<lambda>_. andthen (saved n (repo_set_timed_action_time repo n v))
       (\<lambda>_. Some (Inr (apply_timed_action_time n v p)))))))"

definition change_plug_schedule ::
  "settings_repository \<Rightarrow> string \<Rightarrow> plug_schedule_plan option \<Rightarrow> processor \<Rightarrow> ((override_error + unit) \<times> processor) option" where
  "change_plug_schedule repo device plan p = commit p
     (andthen (traverse parse_plug_plan plan)
       (\<lambda>v. andthen (case v of
                       Some x \<Rightarrow> andthen (validate_plug_override p device x) (\<lambda>bs. Some (Inr (Some bs)))
                     | None \<Rightarrow> andthen (validate_plug p device) (\<lambda>_. Some (Inr None)))
       (\<lambda>bs. andthen (saved device (repo_set_plug_schedule repo device v))
       (\<lambda>_. map_option Inr (apply_plug_override device (zip_option v bs) p)))))"

definition BOOST_DURATIONS_MINUTES :: "u16 list" where
  "BOOST_DURATIONS_MINUTES = [30, 60, 90, 120, 180, 240, 360]"

definition MILLIS_PER_MINUTE :: u64 where
  "MILLIS_PER_MINUTE = 60000"

definition validate_temperature :: "f64 \<Rightarrow> (override_error, unit) result" where
  "validate_temperature t =
     ensure (MIN_SETPOINT \<le> t \<and> t \<le> MAX_SETPOINT \<and> of_int \<lfloor>t * 2\<rfloor> = t * 2) BoostTarget"

definition boost_for :: "processor \<Rightarrow> string \<Rightarrow> boost_change \<Rightarrow> (override_error, valve_boost option) result" where
  "boost_for p device change =
     (case change of
        BoostStart minutes temp \<Rightarrow>
          andthen (validate_temperature temp)
            (\<lambda>_. andthen (ensure (minutes \<in> set BOOST_DURATIONS_MINUTES) BoostDuration)
            (\<lambda>_. do { act \<leftarrow> active_boost p device;
                      andthen (ensure (act = None) BoostAlreadyActive)
                        (\<lambda>_. let ends = ck_epoch_millis (p_clock p) + minutes * MILLIS_PER_MINUTE in
                             andthen (ensure (ends < 2 ^ 64 \<and> ends \<le> 2 ^ 63 - 1) BoostDeadlineRange)
                               (\<lambda>_. Some (Inr (Some \<lparr>vb_temperature = temp, vb_ends_at_epoch_ms = ends\<rparr>)))) }))
      | BoostTargetChange temp \<Rightarrow>
          andthen (validate_temperature temp)
            (\<lambda>_. do { act \<leftarrow> active_boost p device;
                      andthen (ok_or BoostNotActive act)
                        (\<lambda>b. Some (Inr (Some (b\<lparr>vb_temperature := temp\<rparr>)))) })
      | BoostCancel \<Rightarrow> Some (Inr None))"

definition change_valve_boost ::
  "settings_repository \<Rightarrow> string \<Rightarrow> boost_change \<Rightarrow> processor \<Rightarrow> ((override_error + unit) \<times> processor) option" where
  "change_valve_boost repo device change p = commit p
     (andthen (map_err OtherMessage (Some (validate_heat_demand_device p device)))
       (\<lambda>_. andthen (boost_for p device change)
       (\<lambda>b. andthen (saved device (repo_set_valve_boost repo device b))
       (\<lambda>_. Some (Inr (apply_valve_boost device b p))))))"

text \<open>\<open>serde_json\<close> turns the wire schedule into a \<open>TemperatureSchedule\<close> or an error; that outcome is
  the argument \<open>parsed\<close>.\<close>

definition change_valve_schedule ::
  "settings_repository \<Rightarrow> string \<Rightarrow> (string + temperature_schedule) option \<Rightarrow> processor \<Rightarrow> ((override_error + unit) \<times> processor) option" where
  "change_valve_schedule repo device parsed p = commit p
     (andthen (map_err OtherMessage (Some (validate_heat_demand_device p device)))
       (\<lambda>_. andthen (traverse (\<lambda>r. andthen (map_err InvalidValveSchedule (Some r))
                                     (\<lambda>s. andthen (map_err ValveScheduleRejected (Some (temperature_schedule_validate device s)))
                                            (\<lambda>_. Some (Inr s)))) parsed)
       (\<lambda>v. andthen (saved device (repo_set_valve_schedule repo device v))
       (\<lambda>_. Some (Inr (apply_valve_schedule device v p))))))"

definition change_heat_demand_enabled ::
  "settings_repository \<Rightarrow> string \<Rightarrow> bool \<Rightarrow> processor \<Rightarrow> ((override_error + unit) \<times> processor) option" where
  "change_heat_demand_enabled repo device enabled p =
     (case andthen (map_err OtherMessage (Some (validate_heat_demand_device p device)))
             (\<lambda>_. saved device (repo_set_heat_demand_enabled repo device enabled)) of
        None \<Rightarrow> None
      | Some (Inl e) \<Rightarrow> Some (Inl e, p)
      | Some (Inr _) \<Rightarrow> (case set_heat_demand_enabled device enabled p of (r, p') \<Rightarrow> Some (map_sum OtherMessage id r, p')))"

definition change_motion_enabled ::
  "settings_repository \<Rightarrow> string \<Rightarrow> bool \<Rightarrow> instant \<Rightarrow> processor \<Rightarrow> ((override_error + unit) \<times> processor) option" where
  "change_motion_enabled repo n enabled now p =
     (case andthen (map_err OtherMessage (validate_motion_zone p n))
             (\<lambda>_. saved n (repo_set_motion_enabled repo n enabled)) of
        None \<Rightarrow> None
      | Some (Inl e) \<Rightarrow> Some (Inl e, p)
      | Some (Inr _) \<Rightarrow> do { (r, p') \<leftarrow> set_motion_enabled n enabled now p; Some (map_sum OtherMessage id r, p') })"

section \<open>What validation guarantees\<close>

lemma scene_schedule_validate_safe:
  "wpr (scene_schedule_validate sc) (\<lambda>_. bt_all (\<lambda>_ s. list_all (scene_known sc) (slot_scene_ids s)) (ss_slots sc))"
proof (cases "validate_slots (bs_of_list (map scene_id (ss_scenes sc))) (ss_slots sc)")
  case (Inr u)
  then have "bt_all (\<lambda>_ s. list_all (scene_known sc) (slot_scene_ids s)) (ss_slots sc)"
    by (fastforce simp: validate_slots_iff bt_all_def list_all_iff scene_known_def list_ex_iff)
  moreover have "\<exists>r. validate_coverage sc None = Some r" if "\<not> uses_sun_expressions sc"
    using that coverage_owners_eq [of "ss_slots sc" None]
    by (auto simp: validate_coverage_def uses_sun_expressions_values)
  ultimately show ?thesis by (auto simp: scene_schedule_validate_def Inr wpr_def)
qed (simp add: scene_schedule_validate_def)

lemma scene_known_update [simp]: "scene_known \<lparr>ss_scenes = ss_scenes sc, ss_slots = sl\<rparr> = scene_known sc"
  by (rule ext) (simp add: scene_known_def)

lemma slots_sun_ok_iff: "slots_sun_ok p sl \<longleftrightarrow> \<not> sun_needs_location p sl"
  by (auto simp: slots_sun_ok_def sun_needs_location_def list_ex_iff)

lemma validate_override_slots_safe:
  "wpr (validate_override_slots p (room_scenes r) sl) (\<lambda>_. room_schedule_ok p r sl)"
  using scene_schedule_validate_safe [of "\<lparr>ss_scenes = ss_scenes (room_scenes r), ss_slots = sl\<rparr>"]
  by (auto simp: validate_override_slots_def room_schedule_ok_def slots_sun_ok_iff split: option.split elim!: wpr_mono)

lemma validate_room_override_safe:
  assumes t: "topology_ok (p_topology p)"
  shows "wpr (validate_room_override p n v) (\<lambda>steps. \<exists>i. room_idx_of (p_topology p) n = Some i \<and>
           room_schedule_ok p (t_rooms (p_topology p) ! i) (rso_slots v) \<and> steps_ok (p_topology p) steps)"
proof (rule room_by_nameE [OF t, of n])
  fix i assume i: "room_by_name (p_topology p) n = Some (Some (t_rooms (p_topology p) ! i))"
    "room_idx_of (p_topology p) n = Some i" "room_ok (p_topology p) (t_rooms (p_topology p) ! i)"
  let ?r = "t_rooms (p_topology p) ! i"
  have obs: "wpr (endpoints_observable ?r (t_rooms (p_topology p))) (\<lambda>_. True)"
    by (simp add: endpoints_observable_def Let_def)
  have "length (room_light_members ?r) = length (room_members ?r)" using i(3) by (simp add: room_ok_def)
  from resolve_switch_steps_safe [OF this, of n "\<lparr>ss_scenes = ss_scenes (room_scenes ?r), ss_slots = rso_slots v\<rparr>" "rso_switch_steps v"]
  have "wpr (resolve_switch_steps n \<lparr>ss_scenes = ss_scenes (room_scenes ?r), ss_slots = rso_slots v\<rparr>
      (rso_switch_steps v) (room_members ?r) (room_light_members ?r)) (steps_ok (p_topology p))"
    by (rule wpr_mono) (use i(3) in \<open>fastforce simp: steps_ok_def bt_all_def list_all_iff room_ok_def step_resolved_def\<close>)
  with validate_override_slots_safe [of p ?r "rso_slots v"] i(1,2) obs show ?thesis
    by (auto simp: validate_room_override_def elim!: wpr_mono)
qed (simp add: validate_room_override_def)

lemma validate_motion_override_safe:
  "wpr (validate_motion_override p n sl) (\<lambda>_. \<exists>r \<in> set (t_motion_rules (p_topology p)). mr_name r = n \<and>
     (motion_schedule_ok p r (ss_slots (mr_scenes r)) \<longrightarrow> motion_schedule_ok p r sl))"
proof (cases "find (\<lambda>r. mr_name r = n) (t_motion_rules (p_topology p))")
  case (Some r)
  then have r: "r \<in> set (t_motion_rules (p_topology p))" "mr_name r = n" by (auto simp: find_Some_iff)
  have "wpr (validate_replacement_slots (mr_scenes r) sl) (\<lambda>_. bt_keys sl = bt_keys (ss_slots (mr_scenes r)) \<and>
      bt_all (\<lambda>_ s. list_all (scene_known (mr_scenes r)) (slot_scene_ids s)) sl)"
    using scene_schedule_validate_safe [of "\<lparr>ss_scenes = ss_scenes (mr_scenes r), ss_slots = sl\<rparr>"]
    by (auto simp: validate_replacement_slots_def elim!: wpr_mono)
  moreover have "motion_schedule_ok p r sl"
    if "bt_keys sl = bt_keys (ss_slots (mr_scenes r))" "slots_sun_ok p sl" "find (\<lambda>(_, s). slot_scene_ids s = []) sl = None"
      "bt_all (\<lambda>_ s. list_all (scene_known (mr_scenes r)) (slot_scene_ids s)) sl"
      "motion_schedule_ok p r (ss_slots (mr_scenes r))"
  proof -
    have "bt_contains_key (mr_targets_by_slot r) k" if "(k, s) \<in> set sl" for k s
    proof -
      have "k \<in> set (bt_keys sl)" using that by (force simp: bt_keys_def)
      then have "k \<in> set (bt_keys (ss_slots (mr_scenes r)))" unfolding \<open>bt_keys sl = _\<close> .
      then show ?thesis using \<open>motion_schedule_ok p r (ss_slots (mr_scenes r))\<close>
        by (auto simp: motion_schedule_ok_def bt_all_def list_all_iff bt_keys_def)
    qed
    moreover have "slot_scene_ids s \<noteq> [] \<and> scene_known (mr_scenes r) (hd (slot_scene_ids s))" if "(k, s) \<in> set sl" for k s
      using that \<open>find _ sl = None\<close> \<open>bt_all _ sl\<close> hd_in_set [of "slot_scene_ids s"]
      by (auto simp: find_None_iff bt_all_def list_all_iff)
    ultimately show ?thesis using that(2) by (auto simp: motion_schedule_ok_def bt_all_def list_all_iff)
  qed
  ultimately show ?thesis
    using Some r by (auto simp: validate_motion_override_def slots_sun_ok_iff split: option.split elim!: wpr_mono)
qed (simp add: validate_motion_override_def)

lemma validate_timed_action_time_safe:
  "wpr (validate_timed_action_time p t) (\<lambda>_. p_location p = None \<longrightarrow> \<not> uses_sun t)"
  by (auto simp: validate_timed_action_time_def)

lemma validate_timed_action_total: "\<exists>r. validate_timed_action p n = Some r"
  by (auto simp: validate_timed_action_def split: option.split resolved_trigger.split)

text \<open>The bindings an override resolves to fit the topology.\<close>

definition plug_binding_ok :: "processor \<Rightarrow> resolved_binding \<Rightarrow> bool" where
  "plug_binding_ok p b = (binding_ok (p_topology p) b \<and>
     (\<forall>t. rb_trigger b = At t \<longrightarrow> p_location p = None \<longrightarrow> \<not> uses_sun t))"

lemma validate_plug_safe:
  assumes t: "topology_ok (p_topology p)"
  shows "wpr (validate_plug p device) (\<lambda>pl. pl < length (t_devices (p_topology p)))"
  using device_idx_of_bound [OF t]
  by (auto simp: validate_plug_def plug_idx_by_name_def plug_idx_of_def is_plug_idx_def device_kind_of_def index_def
      split: option.splits)

lemma validate_plug_override_safe:
  assumes t: "topology_ok (p_topology p)"
  shows "wpr (validate_plug_override p device v) (list_all (plug_binding_ok p))"
proof -
  have "wpr (mapE (plug_action_binding p device pl) xs) (list_all (plug_binding_ok p))"
    if pl: "pl < length (t_devices (p_topology p))" for pl xs
  proof (rule wpr_mapE)
    fix x :: "nat \<times> plug_timed_action" assume "x \<in> set xs"
    have "binding_ok (p_topology p) \<lparr>rb_name = nm, rb_trigger = At tm, rb_effect = plug_action_effect pl a\<rparr>" for nm tm a
      using pl by (cases a) (simp_all add: binding_ok_def)
    then show "wpr (plug_action_binding p device pl x) (plug_binding_ok p)"
      using validate_timed_action_time_safe [of p "pta_time (snd x)"]
      by (cases x) (auto simp: plug_action_binding_def plug_binding_ok_def elim!: wpr_mono)
  qed
  then show ?thesis
    unfolding validate_plug_override_def
    by (auto intro!: wpr_mono [OF validate_plug_safe [OF t]] intro: wpr_mono split: option.split
        simp: kill_switch_validate_def power_metered_def index_def plug_binding_ok_def binding_ok_def)
qed

section \<open>Applying keeps the invariant\<close>

lemma schedule_ok_location:
  assumes "p_location q = p_location p"
  shows "room_schedule_ok q = room_schedule_ok p" and "motion_schedule_ok q = motion_schedule_ok p"
  by (intro ext, simp add: room_schedule_ok_def motion_schedule_ok_def slots_sun_ok_def assms)+

text \<open>What has to be re-established when only settings and resolved overrides change.\<close>

lemma config_ok_change:
  assumes "config_ok p" and "p_topology q = p_topology p" and "p_location q = p_location p"
    and "p_sunrise q = p_sunrise p" and "p_heating_config q = p_heating_config p" and "p_defaults q = p_defaults p"
    and "boosts_ok q" and "times_sun_ok q"
    and "\<And>r. r \<in> set (t_rooms (p_topology p)) \<Longrightarrow> room_schedule_ok p r (room_slots q r)"
    and "\<And>r. r \<in> set (t_motion_rules (p_topology p)) \<Longrightarrow> motion_schedule_ok p r (motion_slots q r)"
    and "bt_all (\<lambda>_. steps_ok (p_topology p)) (p_resolved_switch_steps q)"
    and "bt_all (\<lambda>_. list_all (binding_ok (p_topology p))) (p_resolved_plug_bindings q)"
  shows "config_ok q"
  using assms schedule_ok_location [OF assms(3)]
  unfolding config_ok_def room_slots_ok_def motion_slots_ok_def sunrise_ok_def by auto

lemma config_ok_parts:
  assumes "config_ok p"
  shows "boosts_ok p" and "times_sun_ok p"
    and "\<And>r. r \<in> set (t_rooms (p_topology p)) \<Longrightarrow> room_schedule_ok p r (room_slots p r)"
    and "\<And>r. r \<in> set (t_rooms (p_topology p)) \<Longrightarrow> room_schedule_ok p r (ss_slots (room_scenes r))"
    and "\<And>r. r \<in> set (t_motion_rules (p_topology p)) \<Longrightarrow> motion_schedule_ok p r (motion_slots p r)"
    and "\<And>r. r \<in> set (t_motion_rules (p_topology p)) \<Longrightarrow> motion_schedule_ok p r (ss_slots (mr_scenes r))"
    and "bt_all (\<lambda>_. steps_ok (p_topology p)) (p_resolved_switch_steps p)"
    and "bt_all (\<lambda>_. list_all (binding_ok (p_topology p))) (p_resolved_plug_bindings p)"
    and "topology_ok (p_topology p)"
  using assms by (auto simp: config_ok_def room_slots_ok_def motion_slots_ok_def)

lemma bt_all_set_entry: "bt_all P m \<Longrightarrow> (\<And>x. v = Some x \<Longrightarrow> P k x) \<Longrightarrow> bt_all P (set_entry k v m)"
  by (auto simp: set_entry_def bt_all_insert bt_all_remove split: option.split)

lemma bt_get_set_entry [simp]: "bt_get (set_entry k v m) k' = (if k' = k then v else bt_get m k')"
  by (auto simp: set_entry_def split: option.split)

lemma upd_settings_fields [simp]:
  "p_topology (upd_settings f p) = p_topology p" "p_location (upd_settings f p) = p_location p"
  "p_sunrise (upd_settings f p) = p_sunrise p" "p_heating_config (upd_settings f p) = p_heating_config p"
  "p_defaults (upd_settings f p) = p_defaults p" "p_settings (upd_settings f p) = f (p_settings p)"
  "p_world (upd_settings f p) = p_world p" "p_clock (upd_settings f p) = p_clock p"
  "p_resolved_switch_steps (upd_settings f p) = p_resolved_switch_steps p"
  "p_resolved_plug_bindings (upd_settings f p) = p_resolved_plug_bindings p"
  "p_boost_deadlines (upd_settings f p) = p_boost_deadlines p"
  by (simp_all add: upd_settings_def)

lemma switch_cycle_ok_same:
  assumes "p_topology q = p_topology p" and "p_resolved_switch_steps q = p_resolved_switch_steps p"
  shows "switch_cycle_ok q = switch_cycle_ok p"
  by (intro ext) (simp add: switch_cycle_ok_def room_switch_steps_of_def assms)

lemma state_ok_same:
  assumes "p_topology q = p_topology p" and "p_resolved_switch_steps q = p_resolved_switch_steps p"
  shows "state_ok q = state_ok p"
  by (intro ext) (simp add: state_ok_def cycles_ok_def assms switch_cycle_ok_same [OF assms])

lemma times_sun_ok_entry:
  assumes "times_sun_ok p" and "\<And>t. v = Some t \<Longrightarrow> p_location p = None \<Longrightarrow> \<not> uses_sun t"
  shows "times_sun_ok (apply_timed_action_time n v p)"
  using assms by (auto simp: times_sun_ok_def apply_timed_action_time_def intro!: bt_all_set_entry)

lemma apply_timed_action_ok:
  assumes "proc_ok p" and "\<And>t. v = Some t \<Longrightarrow> p_location p = None \<Longrightarrow> \<not> uses_sun t"
  shows "proc_ok (apply_timed_action_time n v p)"
proof -
  let ?q = "apply_timed_action_time n v p"
  have c: "config_ok p" using assms(1) by (simp add: proc_ok_def)
  have "config_ok ?q"
    by (rule config_ok_change [OF c])
      (use config_ok_parts [OF c] times_sun_ok_entry [of p v n, OF _ assms(2)] in
        \<open>simp_all add: apply_timed_action_time_def boosts_ok_def room_slots_def motion_slots_def\<close>)
  then show ?thesis
    using assms(1) state_ok_same [of ?q p] by (simp add: proc_ok_def apply_timed_action_time_def)
qed

lemma apply_motion_override_ok:
  assumes "proc_ok p"
    and "\<And>sl. v = Some sl \<Longrightarrow> \<exists>r \<in> set (t_motion_rules (p_topology p)). mr_name r = n \<and>
           (motion_schedule_ok p r (ss_slots (mr_scenes r)) \<longrightarrow> motion_schedule_ok p r sl)"
  shows "proc_ok (apply_motion_override n v p)"
proof -
  let ?q = "apply_motion_override n v p"
  have c: "config_ok p" using assms(1) by (simp add: proc_ok_def)
  have "motion_schedule_ok p r (motion_slots ?q r)" if r: "r \<in> set (t_motion_rules (p_topology p))" for r
  proof (cases "mr_name r = n")
    case True
    have "motion_schedule_ok p r sl" if "v = Some sl" for sl
      using assms(2) [OF that] motion_rule_name_unique [OF config_ok_parts(9) [OF c] r] True config_ok_parts(6) [OF c r] by metis
    with True show ?thesis
      using config_ok_parts(6) [OF c r] by (simp add: motion_slots_def apply_motion_override_def split: option.split)
  next
    case False
    then show ?thesis
      using config_ok_parts(5) [OF c r] by (simp add: motion_slots_def apply_motion_override_def)
  qed
  then have "config_ok ?q"
    by (intro config_ok_change [OF c])
      (use config_ok_parts [OF c] in \<open>simp_all add: apply_motion_override_def boosts_ok_def room_slots_def times_sun_ok_def\<close>)
  then show ?thesis
    using assms(1) state_ok_same [of ?q p] by (simp add: proc_ok_def apply_motion_override_def)
qed

lemma apply_room_override_fields:
  assumes "q = apply_room_override n v p"
  shows "p_topology q = p_topology p" and "p_location q = p_location p" and "p_sunrise q = p_sunrise p"
    and "p_heating_config q = p_heating_config p" and "p_defaults q = p_defaults p"
    and "p_resolved_plug_bindings q = p_resolved_plug_bindings p" and "p_boost_deadlines q = p_boost_deadlines p"
    and "p_resolved_switch_steps q = set_entry n (map_option snd v) (p_resolved_switch_steps p)"
    and "p_settings q = (p_settings p)\<lparr>room_schedule_overrides := set_entry n (map_option fst v) (room_schedule_overrides (p_settings p))\<rparr>"
    and "p_world q = forget_switch_cycle n (p_world p)" and "p_clock q = p_clock p"
  by (simp_all add: assms apply_room_override_def Let_def upd_world_def)

lemma forget_switch_cycle_ok:
  assumes "state_ok p w" and "p_topology q = p_topology p" and "topology_ok (p_topology p)"
    and "\<And>m. m \<noteq> n \<Longrightarrow> bt_get (p_resolved_switch_steps q) m = bt_get (p_resolved_switch_steps p) m"
  shows "state_ok q (forget_switch_cycle n w)"
proof -
  have same: "switch_cycle_ok q m z" if "m \<noteq> n" "switch_cycle_ok p m z" for m z
    using that assms(2,4) room_idx_of_name [OF assms(3), of m]
    by (fastforce simp: switch_cycle_ok_def room_switch_steps_of_def)
  have "world_ok (forget_switch_cycle n w)" "w_motion_rules (forget_switch_cycle n w) = w_motion_rules w"
    using assms(1) bt_all_get [of "\<lambda>_. light_zone_ok" "w_light_zones w" n]
    by (auto simp: forget_switch_cycle_def state_ok_def world_ok_def light_zone_ok_def split: option.split intro!: bt_all_insert)
  moreover have "cycles_ok q (w_light_zones (forget_switch_cycle n w))"
  proof (unfold cycles_ok_def, intro allI impI)
    fix m z assume "bt_get (w_light_zones (forget_switch_cycle n w)) m = Some z"
    with assms(1) same show "switch_cycle_ok q m z"
      by (cases "m = n") (auto simp: cycles_ok_def state_ok_def forget_switch_cycle_def split: option.splits)
  qed
  ultimately show ?thesis using assms(1,2) by (simp add: state_ok_def)
qed

lemma apply_room_override_ok:
  assumes "proc_ok p"
    and "\<And>x steps. v = Some (x, steps) \<Longrightarrow> \<exists>i. room_idx_of (p_topology p) n = Some i \<and>
           room_schedule_ok p (t_rooms (p_topology p) ! i) (rso_slots x) \<and> steps_ok (p_topology p) steps"
  shows "proc_ok (apply_room_override n v p)"
proof -
  define q where "q = apply_room_override n v p"
  note f = apply_room_override_fields [OF q_def]
  have c: "config_ok p" using assms(1) by (simp add: proc_ok_def)
  note parts = config_ok_parts [OF c]
  have "room_schedule_ok p r (room_slots q r)" if r: "r \<in> set (t_rooms (p_topology p))" for r
  proof (cases "room_name r = n")
    case True
    have "room_schedule_ok p r (rso_slots x)" if v: "v = Some (x, steps)" for x steps
    proof -
      obtain i where i: "room_idx_of (p_topology p) n = Some i" "room_schedule_ok p (t_rooms (p_topology p) ! i) (rso_slots x)"
        using assms(2) [OF v] by blast
      then have "t_rooms (p_topology p) ! i = r"
        using room_name_unique [OF parts(9) _ r] room_idx_of_name [OF parts(9)] room_idx_of_bound [OF parts(9)] True by simp
      with i show ?thesis by simp
    qed
    with True show ?thesis
      using parts(4) [OF r] by (auto simp: room_slots_def f split: option.split)
  next
    case False
    then show ?thesis using parts(3) [OF r] by (simp add: room_slots_def f)
  qed
  moreover have "bt_all (\<lambda>_. steps_ok (p_topology p)) (p_resolved_switch_steps q)"
    unfolding f using parts(7) assms(2) by (auto intro!: bt_all_set_entry)
  ultimately have "config_ok q"
    by (intro config_ok_change [OF c])
      (use parts in \<open>simp_all add: f boosts_ok_def motion_slots_def times_sun_ok_def\<close>)
  moreover have "state_ok q (p_world q)"
    unfolding f(10) by (rule forget_switch_cycle_ok) (use assms(1) parts(9) f in \<open>simp_all add: proc_ok_def\<close>)
  ultimately show ?thesis by (simp add: proc_ok_def q_def)
qed

lemma concat_values: "(\<forall>b \<in> set (concat (bt_values m)). P b) \<longleftrightarrow> bt_all (\<lambda>_. list_all P) m"
  by (auto simp: bt_values_def bt_all_def list_all_iff)

lemma apply_plug_override_ok:
  assumes p: "proc_ok p" and "\<And>x bs. v = Some (x, bs) \<Longrightarrow> list_all (plug_binding_ok p) bs"
  shows "wp (apply_plug_override device v p) (\<lambda>p'. proc_ok p' \<and> p_topology p' = p_topology p)"
proof -
  define q where "q = (upd_settings (\<lambda>s. s\<lparr>plug_schedule_overrides :=
      set_entry device (map_option fst v) (plug_schedule_overrides s)\<rparr>) p)
    \<lparr>p_resolved_plug_bindings := set_entry device (map_option snd v) (p_resolved_plug_bindings p)\<rparr>"
  have c: "config_ok p" using p by (simp add: proc_ok_def)
  note parts = config_ok_parts [OF c]
  have "times_sun_ok q"
    using parts(2) assms(2) unfolding times_sun_ok_def ball_Un concat_values
    by (auto simp: q_def plug_binding_ok_def list_all_iff intro!: bt_all_set_entry)
  moreover have "bt_all (\<lambda>_. list_all (binding_ok (p_topology p))) (p_resolved_plug_bindings q)"
    using parts(8) assms(2) by (auto simp: q_def plug_binding_ok_def list_all_iff intro!: bt_all_set_entry)
  ultimately have "config_ok q"
    by (intro config_ok_change [OF c])
      (use parts in \<open>simp_all add: q_def boosts_ok_def motion_slots_def room_slots_def\<close>)
  then have q: "proc_ok q" using p state_ok_same [of q p] by (simp add: proc_ok_def q_def)
  have "proc_ok (upd_world (put_plug device (pl\<lparr>kill_switch_rules := []\<rparr>)) q)"
    if "bt_get (w_plugs (p_world q)) device = Some pl" for pl
  proof -
    have "plug_ok pl" using q that by (auto simp: proc_ok_def state_ok_def world_ok_def dest: bt_all_get)
    then show ?thesis using q by (simp add: proc_ok_put_plug plug_ok_def)
  qed
  moreover have "wp (arm_kill_switch_rules device w ts r) (\<lambda>p'. proc_ok p' \<and> p_topology p' = p_topology p)"
    if "proc_ok r" "p_topology r = p_topology p" for w ts r
    using arm_kill_switch_safe [OF that(1)] by (rule wp_mono) (simp add: stays_proc_ok [OF that(1)] stays_topology that(2))
  moreover have "p_topology q = p_topology p" by (simp add: q_def)
  ultimately show ?thesis
    using q by (auto simp: apply_plug_override_def Let_def q_def [symmetric] upd_world_def split: option.split)
qed

lemma settings_only_ok:
  assumes "proc_ok p" and "boosts_ok q" and "q = p\<lparr>p_settings := s, p_boost_deadlines := d\<rparr>"
    and "room_schedule_overrides s = room_schedule_overrides (p_settings p)"
    and "motion_schedule_overrides s = motion_schedule_overrides (p_settings p)"
    and "timed_action_overrides s = timed_action_overrides (p_settings p)"
  shows "proc_ok q"
proof -
  have c: "config_ok p" using assms(1) by (simp add: proc_ok_def)
  have "config_ok q"
    by (rule config_ok_change [OF c])
      (use config_ok_parts [OF c] assms in \<open>simp_all add: room_slots_def motion_slots_def times_sun_ok_def\<close>)
  then show ?thesis using assms state_ok_same [of q p] by (simp add: proc_ok_def)
qed

lemma apply_valve_boost_ok:
  assumes "proc_ok p"
  shows "proc_ok (apply_valve_boost device b p)"
proof (rule settings_only_ok [OF assms])
  show "boosts_ok (apply_valve_boost device b p)" using assms by (simp add: boosts_ok_apply proc_ok_boosts)
  show "apply_valve_boost device b p = p\<lparr>p_settings := p_settings (apply_valve_boost device b p),
      p_boost_deadlines := p_boost_deadlines (apply_valve_boost device b p)\<rparr>"
    by (simp add: apply_valve_boost_def Let_def split: option.split)
qed (simp_all add: apply_valve_boost_def Let_def split: option.split)

lemma apply_valve_schedule_ok: "proc_ok p \<Longrightarrow> proc_ok (apply_valve_schedule device v p)"
  by (rule settings_only_ok [where s = "p_settings (apply_valve_schedule device v p)" and d = "p_boost_deadlines p"])
    (use proc_ok_boosts [of p] in \<open>auto simp: apply_valve_schedule_def upd_settings_def boosts_ok_def\<close>)

lemma disabled_heat_demand_ok:
  assumes "proc_ok p"
  shows "proc_ok (p\<lparr>p_settings := (p_settings p)\<lparr>disabled_heat_demand := d\<rparr>\<rparr>)"
  by (rule settings_only_ok [OF assms, where s = "(p_settings p)\<lparr>disabled_heat_demand := d\<rparr>" and d = "p_boost_deadlines p"])
    (use proc_ok_boosts [OF assms] in \<open>simp_all add: boosts_ok_def\<close>)

lemma set_heat_demand_ok: "proc_ok p \<Longrightarrow> proc_ok (snd (set_heat_demand_enabled device en p))"
  using disabled_heat_demand_ok [of p] by (simp add: set_heat_demand_enabled_def split: sum.split)

section \<open>Changes keep the invariant\<close>

text \<open>A change that succeeds ends in a good state; one that fails leaves the processor as it was.\<close>

definition change_ok :: "processor \<Rightarrow> ((override_error + unit) \<times> processor) option \<Rightarrow> bool" where
  "change_ok p m = wp m (\<lambda>(r, p'). proc_ok p' \<and> p_topology p' = p_topology p \<and> (isl r \<longrightarrow> p' = p))"

definition good :: "processor \<Rightarrow> processor \<Rightarrow> bool" where
  "good p q = (proc_ok q \<and> p_topology q = p_topology p)"

lemma commit_ok: "proc_ok p \<Longrightarrow> wpr m (good p) \<Longrightarrow> change_ok p (commit p m)"
  by (cases m) (auto simp: change_ok_def commit_def wpr_def good_def split: sum.splits)

lemma good_apply:
  "proc_ok (apply_room_override n v p) \<Longrightarrow> good p (apply_room_override n v p)"
  "proc_ok (apply_motion_override n w p) \<Longrightarrow> good p (apply_motion_override n w p)"
  "proc_ok (apply_timed_action_time n t p) \<Longrightarrow> good p (apply_timed_action_time n t p)"
  "proc_ok (apply_valve_schedule n s p) \<Longrightarrow> good p (apply_valve_schedule n s p)"
  "proc_ok (apply_valve_boost n b p) \<Longrightarrow> good p (apply_valve_boost n b p)"
  by (simp_all add: good_def apply_room_override_fields [OF refl] apply_motion_override_def apply_timed_action_time_def
      apply_valve_schedule_def apply_valve_boost_def Let_def split: option.split)

lemma wpr_saved [simp]: "wpr (saved what r) Q = (r = Inr () \<longrightarrow> Q ())"
  by (cases r) (auto simp: saved_def)

lemma wpr_traverse: "(\<And>x. v = Some x \<Longrightarrow> wpr (f x) (\<lambda>y. Q (Some y))) \<Longrightarrow> (v = None \<Longrightarrow> Q None) \<Longrightarrow> wpr (traverse f v) Q"
  by (cases v) (simp_all add: traverse_def)

lemma wpr_pure: "(\<And>x. r = Inr x \<Longrightarrow> Q x) \<Longrightarrow> wpr (Some r) Q"
  by (simp add: wpr_def)

lemma parse_slots_total: "wpr (parse_slots plans) (\<lambda>_. True)"
  unfolding parse_slots_def by (rule wpr_foldE) (auto intro!: wpr_pure)

lemma parse_room_plan_total: "wpr (parse_room_plan plan) (\<lambda>_. True)"
  using parse_slots_total by (simp add: parse_room_plan_def)

lemma parse_plug_plan_total: "wpr (parse_plug_plan plan) (\<lambda>_. True)"
proof -
  have "wpr (mapE (\<lambda>a. andthen (map_err ActionTime (Some (from_str (ptp_time a))))
      (\<lambda>t. Some (Inr \<lparr>pta_time = t, pta_action = ptp_action a\<rparr>))) xs) (list_all (\<lambda>_. True))" for xs
    by (rule wpr_mapE) (auto intro!: wpr_pure)
  then show ?thesis unfolding parse_plug_plan_def wpr_andthen by (rule wpr_mono) simp
qed

lemma validate_schedule_owner_total:
  assumes "topology_ok (p_topology p)"
  shows "wpr (validate_schedule_owner p ow) (\<lambda>_. True)"
proof (cases ow)
  case (OwnerRoom n)
  show ?thesis by (rule room_by_nameE [OF assms, of n]) (simp_all add: OwnerRoom validate_schedule_owner_def)
qed (simp add: validate_schedule_owner_def)

lemma traverse_total:
  assumes "\<And>x. wpr (f x) (\<lambda>_. True)"
  shows "wpr (traverse f v) (\<lambda>_. True)"
  using assms by (intro wpr_traverse) simp_all

lemma change_room_schedule_ok:
  assumes p: "proc_ok p"
  shows "change_ok p (change_room_schedule repo n plan p)"
proof -
  note t = proc_ok_topology [OF p]
  have v: "wpr (traverse (validate_room_override p n) v) (\<lambda>resolved. good p (apply_room_override n (zip_option v resolved) p))" for v
    by (rule wpr_traverse) (auto simp: zip_option_def intro!: wpr_mono [OF validate_room_override_safe [OF t]] good_apply apply_room_override_ok [OF p])
  show ?thesis
    unfolding change_room_schedule_def
    by (rule commit_ok [OF p], simp only: wpr_andthen, rule wpr_mono [OF validate_schedule_owner_total [OF t]],
        rule wpr_mono [OF traverse_total [OF parse_room_plan_total]], rule wpr_mono [OF v], simp)
qed

lemma change_motion_schedule_ok:
  assumes p: "proc_ok p"
  shows "change_ok p (change_motion_schedule repo n plans p)"
proof -
  note t = proc_ok_topology [OF p]
  have v: "wpr (traverse (validate_motion_override p n) v) (\<lambda>_. good p (apply_motion_override n v p))" for v
    by (rule wpr_traverse) (auto intro!: wpr_mono [OF validate_motion_override_safe] good_apply apply_motion_override_ok [OF p])
  show ?thesis
    unfolding change_motion_schedule_def
    by (rule commit_ok [OF p], simp only: wpr_andthen, rule wpr_mono [OF validate_schedule_owner_total [OF t]],
        rule wpr_mono [OF traverse_total [OF parse_slots_total]], rule wpr_mono [OF v], simp)
qed

lemma change_timed_action_time_ok:
  assumes p: "proc_ok p"
  shows "change_ok p (change_timed_action_time repo n time p)"
proof -
  have v: "wpr (traverse (validate_timed_action_time p) v) (\<lambda>_. good p (apply_timed_action_time n v p))" for v
    by (rule wpr_traverse) (auto intro!: wpr_mono [OF validate_timed_action_time_safe] good_apply apply_timed_action_ok [OF p])
  have n: "wpr (validate_timed_action p n) (\<lambda>_. True)"
    using validate_timed_action_total [of p n] by (auto simp: wpr_def)
  have parse: "wpr (map_err ActionTime (Some (from_str s))) (\<lambda>_. True)" for s
    by (simp add: wpr_pure)
  show ?thesis
    unfolding change_timed_action_time_def
    by (rule commit_ok [OF p], simp only: wpr_andthen, rule wpr_mono [OF n],
        rule wpr_mono [OF traverse_total [OF parse]], rule wpr_mono [OF v], simp)
qed

lemma change_plug_schedule_ok:
  assumes p: "proc_ok p"
  shows "change_ok p (change_plug_schedule repo device plan p)"
proof -
  note t = proc_ok_topology [OF p]
  have ap: "wpr (map_option Inr (apply_plug_override device v p) :: (override_error, processor) result) (good p)"
    if "\<And>x bs. v = Some (x, bs) \<Longrightarrow> list_all (plug_binding_ok p) bs" for v
  proof -
    have "wp (apply_plug_override device v p) (good p)"
      unfolding good_def using p that by (rule apply_plug_override_ok)
    then show ?thesis by (auto simp: wpr_def wp_iff)
  qed
  have v: "wpr (case v of Some x \<Rightarrow> andthen (validate_plug_override p device x) (\<lambda>bs. Some (Inr (Some bs)))
      | None \<Rightarrow> andthen (validate_plug p device) (\<lambda>_. Some (Inr None)))
      (\<lambda>bs. wpr (map_option Inr (apply_plug_override device (zip_option v bs) p) :: (override_error, processor) result) (good p))" for v
    by (cases v) (auto simp: zip_option_def intro!: ap wpr_mono [OF validate_plug_override_safe [OF t]] wpr_mono [OF validate_plug_safe [OF t]])
  show ?thesis
    unfolding change_plug_schedule_def
    by (rule commit_ok [OF p], simp only: wpr_andthen,
        rule wpr_mono [OF traverse_total [OF parse_plug_plan_total]], rule wpr_mono [OF v], simp)
qed

lemma heat_device_total: "wpr (map_err OtherMessage (Some (validate_heat_demand_device p device))) (\<lambda>_. True)"
  by (simp add: wpr_pure)

lemma change_valve_boost_ok:
  assumes p: "proc_ok p"
  shows "change_ok p (change_valve_boost repo device change p)"
proof -
  obtain act where "active_boost p device = Some act"
    using active_boost_total [OF proc_ok_boosts [OF p]] by metis
  then have b: "wpr (boost_for p device change) (\<lambda>_. True)"
    by (cases change) (auto simp: boost_for_def validate_temperature_def Let_def)
  show ?thesis
    unfolding change_valve_boost_def
    by (rule commit_ok [OF p], simp only: wpr_andthen, rule wpr_mono [OF heat_device_total],
        rule wpr_mono [OF b], simp add: good_apply apply_valve_boost_ok [OF p])
qed

lemma change_valve_schedule_ok:
  assumes p: "proc_ok p"
  shows "change_ok p (change_valve_schedule repo device parsed p)"
proof -
  have v: "wpr (andthen (map_err InvalidValveSchedule (Some r))
      (\<lambda>s. andthen (map_err ValveScheduleRejected (Some (temperature_schedule_validate device s))) (\<lambda>_. Some (Inr s)))) (\<lambda>_. True)" for r
    by (simp add: wpr_pure)
  show ?thesis
    unfolding change_valve_schedule_def
    by (rule commit_ok [OF p], simp only: wpr_andthen, rule wpr_mono [OF heat_device_total],
        rule wpr_mono [OF traverse_total], simp add: wpr_pure, simp add: good_apply apply_valve_schedule_ok [OF p])
qed

lemma change_heat_demand_enabled_ok:
  assumes p: "proc_ok p"
  shows "change_ok p (change_heat_demand_enabled repo device enabled p)"
proof (cases "validate_heat_demand_device p device")
  case (Inl e)
  then show ?thesis using p by (simp add: change_heat_demand_enabled_def change_ok_def)
next
  case (Inr u)
  then show ?thesis
    using set_heat_demand_ok [OF p, of device enabled] p
    by (cases "repo_set_heat_demand_enabled repo device enabled")
      (simp_all add: change_heat_demand_enabled_def change_ok_def set_heat_demand_enabled_def saved_def)
qed

lemma change_motion_enabled_ok:
  assumes p: "proc_ok p"
  shows "change_ok p (change_motion_enabled repo n enabled now p)"
proof -
  obtain v where v: "validate_motion_zone p n = Some v"
    by (rule room_by_nameE [OF proc_ok_topology [OF p], of n]) (simp_all add: validate_motion_zone_def)
  obtain r p' where r: "set_motion_enabled n enabled now p = Some (r, p')" "proc_ok p'" "p_topology p' = p_topology p"
    using set_motion_enabled_safe [OF p, of n enabled now] unfolding wp_iff by auto
  show ?thesis
  proof (cases v)
    case (Inl e)
    then show ?thesis using p v by (simp add: change_motion_enabled_def change_ok_def)
  next
    case (Inr u)
    have "r = Inr ()"
      using r(1) v Inr by (auto simp: set_motion_enabled_def Let_def split: if_splits Option.bind_splits)
    then show ?thesis
      using p v r Inr by (cases "repo_set_motion_enabled repo n enabled")
        (simp_all add: change_motion_enabled_def change_ok_def saved_def)
  qed
qed

end
