(* ===== verification/BuilderStages.thy ===== *)
theory BuilderStages
  imports Builder Overrides
begin

text \<open>
  What each stage of \<open>Topology::build\<close> guarantees when it accepts: names are unique, parents
  are known and acyclic, members and bindings resolve to positions in range, validated schedules
  name scenes that exist. No stage panics once the stages before it have accepted.
\<close>

section \<open>Loops that check\<close>

lemma wpr_foldE_prefix:
  assumes "I [] s" and "\<And>ys x zs s. xs = ys @ x # zs \<Longrightarrow> I ys s \<Longrightarrow> wpr (f x s) (I (ys @ [x]))"
  shows "wpr (foldE f xs s) (I xs)"
proof -
  have "wpr (foldE f zs s) (I xs)" if "xs = ys @ zs" "I ys s" for ys zs s
    using that
  proof (induction zs arbitrary: ys s)
    case (Cons x zs)
    have "wpr (f x s) (I (ys @ [x]))" using assms(2) Cons.prems by blast
    then show ?case using Cons.IH [of "ys @ [x]"] Cons.prems(1) by (auto elim!: wpr_mono)
  qed simp
  from this [of "[]" xs s] assms(1) show ?thesis by simp
qed

lemma wpr_forE:
  assumes "\<And>x. x \<in> set xs \<Longrightarrow> wpr (f x) (\<lambda>_. P x)"
  shows "wpr (forE f xs) (\<lambda>_. \<forall>x \<in> set xs. P x)"
proof -
  have "wpr (foldE (\<lambda>x _. f x) xs ()) (\<lambda>_. \<forall>x \<in> set xs. P x)"
    by (rule wpr_foldE_prefix [where I = "\<lambda>ys _. \<forall>x \<in> set ys. P x"]) (use assms in \<open>auto elim!: wpr_mono\<close>)
  then show ?thesis by (simp add: forE_def)
qed

lemma wpr_mapE2:
  assumes "\<And>x. x \<in> set xs \<Longrightarrow> wpr (f x) (R x)"
  shows "wpr (mapE f xs) (list_all2 R xs)"
  using assms
proof (induction xs)
  case (Cons x xs)
  have "wpr (f x) (R x)" and "wpr (mapE f xs) (list_all2 R xs)" using Cons by simp_all
  then show ?case by (auto elim!: wpr_mono)
qed simp

lemma wpr_conj: "wpr m P \<Longrightarrow> wpr m Q \<Longrightarrow> wpr m (\<lambda>x. P x \<and> Q x)"
  unfolding wpr_def by (cases m) auto

lemma wpr_insert_new [simp]: "wpr (insert_new e k v m) Q = (bt_get m k = None \<longrightarrow> Q (bt_insert k v m))"
  by (auto simp: insert_new_def split: option.splits)

lemma wpr_Some_sum [simp]: "wpr (Some r) Q = (\<forall>x. r = Inr x \<longrightarrow> Q x)"
  by (cases r) simp_all

lemma wpr_triv: "m \<noteq> None \<Longrightarrow> wpr m (\<lambda>_. True)"
  by (cases m) (auto simp: wpr_def)

section \<open>Positions by name\<close>

lemma index_by_fold:
  "bt_get (fold (\<lambda>(i, x). bt_insert (key x) i) (enumerate n xs) m) k =
     (if k \<in> key ` set xs then (let j = GREATEST j. j < length xs \<and> key (xs ! j) = k in Some (n + j)) else bt_get m k)"
proof (induction xs arbitrary: n m rule: rev_induct)
  case (snoc x xs)
  have e: "enumerate n (xs @ [x]) = enumerate n xs @ [(n + length xs, x)]" by (simp add: enumerate_append_eq)
  show ?case
  proof (cases "key x = k")
    case True
    have "(GREATEST j. j < length (xs @ [x]) \<and> key ((xs @ [x]) ! j) = k) = length xs"
      by (rule Greatest_equality) (use True in \<open>auto simp: nth_append split: if_splits\<close>)
    with True show ?thesis by (simp add: e Let_def)
  next
    case False
    have "(j < length (xs @ [x]) \<and> key ((xs @ [x]) ! j) = k) \<longleftrightarrow> (j < length xs \<and> key (xs ! j) = k)" for j
      using False by (auto simp: nth_append less_Suc_eq)
    with False snoc show ?thesis by (simp add: e)
  qed
qed simp

lemma index_by_Some:
  assumes "bt_get (index_by key xs) k = Some i"
  shows "i < length xs \<and> key (xs ! i) = k"
proof -
  have k: "k \<in> key ` set xs" using assms by (auto simp: index_by_def index_by_fold split: if_splits)
  then obtain j where j: "j < length xs \<and> key (xs ! j) = k" by (metis image_iff in_set_conv_nth)
  have "(GREATEST j. j < length xs \<and> key (xs ! j) = k) < length xs \<and>
      key (xs ! (GREATEST j. j < length xs \<and> key (xs ! j) = k)) = k"
    by (rule GreatestI_nat [where b = "length xs"]) (use j in auto)
  then show ?thesis using assms k by (auto simp: index_by_def index_by_fold Let_def)
qed

lemma index_by_in: "k \<in> key ` set xs \<Longrightarrow> \<exists>i. bt_get (index_by key xs) k = Some i"
  by (auto simp: index_by_def index_by_fold Let_def)

lemma index_by_nth:
  assumes "distinct (map key xs)" and "i < length xs"
  shows "bt_get (index_by key xs) (key (xs ! i)) = Some i"
proof -
  obtain j where j: "bt_get (index_by key xs) (key (xs ! i)) = Some j"
    using index_by_in [of "key (xs ! i)" key xs] assms(2) by auto
  from index_by_Some [OF this] assms have "j = i"
    by (metis distinct_conv_nth length_map nth_map)
  with j show ?thesis by simp
qed

lemma index_by_bound: "bt_all (\<lambda>n i. i < length xs \<and> key (xs ! i) = n) (index_by key xs)"
proof -
  have "bt_all (\<lambda>n i. i < length xs \<and> key (xs ! i) = n) (fold (\<lambda>(i, x). bt_insert (key x) i) es m)"
    if "\<forall>(i, x) \<in> set es. i < length xs \<and> x = xs ! i" "bt_all (\<lambda>n i. i < length xs \<and> key (xs ! i) = n) m" for es m
    using that by (induction es arbitrary: m) (auto intro: bt_all_insert)
  moreover have "\<forall>(i, x) \<in> set (enumerate 0 xs). i < length xs \<and> x = xs ! i"
    unfolding Ball_def by (auto simp: in_set_enumerate_eq)
  ultimately show ?thesis unfolding index_by_def by simp
qed

section \<open>Rooms\<close>

definition room_map :: "room_config list \<Rightarrow> string \<Rightarrow> room_config option" where
  "room_map rooms = map_of (map (\<lambda>r. (rc_name r, r)) rooms)"

lemma rooms_by_name_ok:
  "wpr (rooms_by_name rooms) (\<lambda>m. distinct (map rc_name rooms) \<and> (\<forall>n. bt_get m n = room_map rooms n))"
  unfolding rooms_by_name_def
proof (rule wpr_foldE_prefix [where I = "\<lambda>ys m. distinct (map rc_name ys) \<and> (\<forall>n. bt_get m n = room_map ys n)"])
  fix ys :: "room_config list" and r :: room_config and zs and m :: "(string, room_config) btree_map"
  assume *: "distinct (map rc_name ys) \<and> (\<forall>n. bt_get m n = room_map ys n)"
  have "room_map ys (rc_name r) = None \<longleftrightarrow> rc_name r \<notin> rc_name ` set ys"
    by (simp add: room_map_def map_of_eq_None_iff image_image)
  with * show "wpr (insert_new (\<lambda>_. DuplicateRoomName (rc_name r)) (rc_name r) r m)
      (\<lambda>m. distinct (map rc_name (ys @ [r])) \<and> (\<forall>n. bt_get m n = room_map (ys @ [r]) n))"
    by (auto simp: room_map_def map_add_def split: option.splits)
qed (simp add: room_map_def)

lemma room_map_in:
  assumes "distinct (map rc_name rooms)" and "r \<in> set rooms"
  shows "room_map rooms (rc_name r) = Some r"
  unfolding room_map_def by (rule map_of_is_SomeI) (use assms in \<open>auto simp: comp_def\<close>)

lemma check_groups_safe: "wpr (check_groups rooms) (\<lambda>_. distinct (map rc_group_name rooms) \<and> distinct (map rc_id rooms))"
proof -
  let ?I = "\<lambda>ys (ids, names). distinct (map rc_group_name ys) \<and> distinct (map rc_id ys) \<and>
      (\<forall>k. bt_get ids k = None \<longleftrightarrow> k \<notin> rc_id ` set ys) \<and> (\<forall>k. bt_get names k = None \<longleftrightarrow> k \<notin> rc_group_name ` set ys)"
  have "wpr (foldE (\<lambda>r (ids, names).
        andthen (insert_new (\<lambda>prev. DuplicateGroupId (rc_id r) prev (rc_name r)) (rc_id r) (rc_name r) ids)
          (\<lambda>ids'. andthen (insert_new (\<lambda>prev. DuplicateGroupName (rc_group_name r) prev (rc_name r))
                              (rc_group_name r) (rc_name r) names)
          (\<lambda>names'. Some (Inr (ids', names'))))) rooms ([], [])) (?I rooms)"
    by (rule wpr_foldE_prefix) auto
  then show ?thesis unfolding check_groups_def by (auto elim!: wpr_mono)
qed

lemma check_namespace_safe: "wpr (check_namespace c) (\<lambda>_. \<forall>r \<in> set (conf_rooms c). bt_get (conf_devices c) (rc_group_name r) = None)"
  unfolding check_namespace_def by (rule wpr_forE) (simp split: option.splits)

lemma check_parents_safe:
  "wpr (check_parents m rooms)
     (\<lambda>_. \<forall>r \<in> set rooms. (\<forall>n. rc_parent r = Some n \<longrightarrow> n \<noteq> rc_name r \<and> bt_get m n \<noteq> None) \<and>
            parent_chain_cycle m [rc_name r] (rc_parent r) = None)"
proof -
  have 1: "wpr (forE (check_parent m) rooms) (\<lambda>_. \<forall>r \<in> set rooms. \<forall>n. rc_parent r = Some n \<longrightarrow> n \<noteq> rc_name r \<and> bt_get m n \<noteq> None)"
    by (rule wpr_forE) (auto simp: check_parent_def bt_contains_key_def split: option.splits)
  have 2: "wpr (forE (\<lambda>r. case parent_chain_cycle m [rc_name r] (rc_parent r) of
                        None \<Rightarrow> Some (Inr ())
                      | Some chain \<Rightarrow> Some (Inl (ParentChainCycle (join_chain chain)))) rooms)
      (\<lambda>_. \<forall>r \<in> set rooms. parent_chain_cycle m [rc_name r] (rc_parent r) = None)"
    by (rule wpr_forE) (auto split: option.splits)
  show ?thesis unfolding check_parents_def
    using 1 2 by (auto elim!: wpr_mono)
qed

text \<open>What the builder knows of a validated schedule.\<close>

definition schedule_valid :: "scene_schedule \<Rightarrow> bool" where
  "schedule_valid sc = bt_all (\<lambda>_ s. list_all (scene_known sc) (slot_scene_ids s)) (ss_slots sc)"

lemma check_scenes_safe:
  "wpr (check_scenes rooms) (\<lambda>nl. \<forall>r \<in> set rooms. schedule_valid (rc_scenes r) \<and> (\<not> nl \<longrightarrow> \<not> uses_sun_expressions (rc_scenes r)))"
  unfolding check_scenes_def
proof (rule wpr_foldE_prefix [where I = "\<lambda>ys nl. \<forall>r \<in> set ys. schedule_valid (rc_scenes r) \<and> (\<not> nl \<longrightarrow> \<not> uses_sun_expressions (rc_scenes r))"])
  fix ys :: "room_config list" and r :: room_config and zs nl
  assume *: "\<forall>r \<in> set ys. schedule_valid (rc_scenes r) \<and> (\<not> nl \<longrightarrow> \<not> uses_sun_expressions (rc_scenes r))"
  have "wpr (scene_schedule_validate (rc_scenes r)) (\<lambda>_. schedule_valid (rc_scenes r))"
    unfolding schedule_valid_def by (rule scene_schedule_validate_safe)
  with * show "wpr (andthen (map_err (InvalidSceneSchedule (rc_name r)) (scene_schedule_validate (rc_scenes r)))
          (\<lambda>_. Some (Inr (nl \<or> uses_sun_expressions (rc_scenes r)))))
      (\<lambda>nl. \<forall>r \<in> set (ys @ [r]). schedule_valid (rc_scenes r) \<and> (\<not> nl \<longrightarrow> \<not> uses_sun_expressions (rc_scenes r)))"
    by (auto elim!: wpr_mono)
qed simp

lemma check_timing_safe:
  "wpr (check_timing c) (\<lambda>_. 0 \<le> cycle_window_seconds (conf_defaults c) \<and> 0 \<le> double_tap_suppression_seconds (conf_defaults c) \<and>
     (\<forall>r \<in> set (conf_rooms c). 0 \<le> rc_off_transition_seconds r))"
proof -
  have "wpr (forE (\<lambda>r. ensure (\<not> rc_off_transition_seconds r < 0) (NegativeTransition (rc_name r) (rc_off_transition_seconds r))) (conf_rooms c))
     (\<lambda>_. \<forall>r \<in> set (conf_rooms c). 0 \<le> rc_off_transition_seconds r)"
    by (rule wpr_forE) auto
  then show ?thesis unfolding check_timing_def Let_def by (auto elim!: wpr_mono)
qed

definition member_known :: "config \<Rightarrow> string \<Rightarrow> bool" where
  "member_known c member = (\<exists>bulb e common. parse_member_key member = Some (bulb, e) \<and> bt_get (conf_devices c) bulb = Some (LightEntry common))"

lemma check_members_safe: "wpr (check_members c) (\<lambda>_. \<forall>r \<in> set (conf_rooms c). \<forall>m \<in> set (rc_members r). member_known c m)"
proof -
  have "wpr (check_member c r m) (\<lambda>_. member_known c m)" for r m
    by (auto simp: check_member_def member_known_def split: option.splits catalog_entry.splits)
  then show ?thesis unfolding check_members_def by (intro wpr_forE)
qed

section \<open>Devices\<close>

lemma length_build_devices [simp]: "length (build_devices c) = length (conf_devices c)"
  by (simp add: build_devices_def)

lemma set_build_devices: "set (build_devices c) = device_of_entry ` set (conf_devices c)"
  by (simp add: build_devices_def)

lemma device_of_entry_name [simp]: "di_name (device_of_entry e) = fst e"
  by (cases e) (simp add: device_of_entry_def)

lemma device_named: "d \<in> set (build_devices c) \<Longrightarrow> \<exists>e. bt_get (conf_devices c) (di_name d) = Some e"
  by (auto simp: set_build_devices bt_get_def) (meson not_None_eq weak_map_of_SomeI)

lemma device_indexed:
  "bt_get (conf_devices c) n = Some e \<Longrightarrow> \<exists>i. bt_get (index_by di_name (build_devices c)) n = Some i"
  by (rule index_by_in) (force simp: set_build_devices dest: bt_get_in_set)

lemma entry_indexed:
  "(n, e) \<in> set (conf_devices c) \<Longrightarrow> \<exists>i. bt_get (index_by di_name (build_devices c)) n = Some i"
  by (rule index_by_in) (force simp: set_build_devices)

lemma device_index_bound: "bt_get (index_by di_name (build_devices c)) n = Some i \<Longrightarrow> i < length (conf_devices c)"
  by (auto dest: index_by_Some)

lemma hw_double_taps_safe: "wpr (hw_double_taps c (index_by di_name (build_devices c))) (\<lambda>_. True)"
  unfolding hw_double_taps_def
proof (rule wpr_foldE)
  fix ne :: "string \<times> catalog_entry" and hw
  assume ne: "ne \<in> set (conf_devices c)"
  obtain n e where e: "ne = (n, e)" by (cases ne)
  with ne obtain i where "bt_get (index_by di_name (build_devices c)) n = Some i" using entry_indexed by blast
  then show "wpr (hw_double_taps_of c (index_by di_name (build_devices c)) ne hw) (\<lambda>_. True)"
    by (simp add: hw_double_taps_of_def e split: catalog_entry.split)
qed simp

lemma devices_where_bound: "i \<in> set (devices_where P ds) \<Longrightarrow> i < length ds \<and> P (ds ! i)"
  by (auto simp: devices_where_def in_set_enumerate_eq)

lemma zwave_nodes_safe: "wpr (zwave_nodes c (build_devices c)) (bt_all (\<lambda>_ i. i < length (conf_devices c)))"
  unfolding zwave_nodes_def
proof (rule wpr_foldE)
  fix i and m :: "(u16, device_idx) btree_map"
  let ?ds = "build_devices c"
  assume i: "i \<in> set (devices_where (is_plug_of Zwave) ?ds)" and m: "bt_all (\<lambda>_ i. i < length (conf_devices c)) m"
  have less: "i < length (conf_devices c)" using devices_where_bound [OF i] by simp
  then obtain e where "bt_get (conf_devices c) (di_name (?ds ! i)) = Some e"
    using device_named [of "?ds ! i" c] by auto
  with less m show "wpr (do { info \<leftarrow> index ?ds i;
                       entry \<leftarrow> bt_get (conf_devices c) (di_name info);
                       andthen (ok_or (ZwavePlugMissingNodeId (di_name info)) (zwave_node_id entry))
                         (\<lambda>node. case bt_get m node of
                            Some existing \<Rightarrow>
                              do { first \<leftarrow> index ?ds existing;
                                   Some (Inl (DuplicateZwaveNodeId node (di_name first) (di_name info))) }
                          | None \<Rightarrow> Some (Inr (bt_insert node i m))) }) (bt_all (\<lambda>_ i. i < length (conf_devices c)))"
    by (auto intro: bt_all_insert dest: bt_all_get split: option.split)
qed simp

section \<open>Bindings\<close>

text \<open>
  A binding that resolves one of the configuration: its indexes are in range, its confirmation window
  is the configured one, and a kill switch guards the plug it switches.
\<close>

definition binding_fits :: "config \<Rightarrow> resolved_binding \<Rightarrow> bool" where
  "binding_fits c b =
     ((\<forall>d. trigger_device (rb_trigger b) = Some d \<longrightarrow> d < length (conf_devices c)) \<and>
      (\<forall>r. effect_room (rb_effect b) = Some r \<longrightarrow> r < length (conf_rooms c)) \<and>
      (\<forall>d. effect_target_plug (rb_effect b) = Some d \<longrightarrow> d < length (conf_devices c)) \<and>
      (\<forall>w. effect_confirm_off_seconds (rb_effect b) = Some w \<longrightarrow>
         0 \<le> w \<and> (\<exists>rule \<in> set (conf_bindings c). config_effect_confirm_off (bc_effect rule) = Some w)) \<and>
      (\<forall>p w h d. rb_trigger b = PowerBelow p w h \<longrightarrow> effect_target_plug (rb_effect b) = Some d \<longrightarrow> d = p))"

definition bindings_inv :: "config \<Rightarrow> binding_state \<Rightarrow> bool" where
  "bindings_inv c st =
     (list_all (binding_fits c) (bs_resolved st) \<and>
      distinct (map rb_name (bs_resolved st)) \<and> set (bs_names st) = rb_name ` set (bs_resolved st) \<and>
      bt_all (\<lambda>k is. \<forall>i \<in> set is. i < length (bs_resolved st) \<and>
                 rb_trigger (bs_resolved st ! i) = Button (fst k) (fst (snd k)) (snd (snd k))) (bs_button_index st) \<and>
      bt_all (\<lambda>d is. \<forall>i \<in> set is. i < length (bs_resolved st) \<and> is_power_below (bs_resolved st ! i) \<and>
                 trigger_device (rb_trigger (bs_resolved st ! i)) = Some d) (bs_power_below_index st) \<and>
      (\<not> bs_needs_location st \<longrightarrow> (\<forall>b \<in> set (bs_resolved st). \<forall>t. rb_trigger b = At t \<longrightarrow> \<not> uses_sun t)))"

lemma bt_all_push_entry:
  assumes "bt_all (\<lambda>k vs. \<forall>v \<in> set vs. P k v) m" and "\<And>k v. P k v \<Longrightarrow> Q k v" and "Q k v"
  shows "bt_all (\<lambda>k vs. \<forall>v \<in> set vs. Q k v) (push_entry k v m)"
proof -
  have "\<forall>v \<in> set (bt_get_or [] m k). Q k v"
    using bt_all_get [OF assms(1), of k] assms(2) by (cases "bt_get m k") (simp_all add: bt_get_or_def)
  moreover have "bt_all (\<lambda>k vs. \<forall>v \<in> set vs. Q k v) m" using assms(1,2) by (elim bt_all_mono) blast
  ultimately show ?thesis unfolding push_entry_def using assms(3) by (intro bt_all_insert) auto
qed

lemma bindings_inv_add:
  assumes "bindings_inv c st" and "binding_fits c b"
    and "rb_name b \<notin> set (bs_names st)"
  shows "bindings_inv c
     (add_binding b (note_trigger (rb_trigger b) (st\<lparr>bs_names := bs_insert (rb_name b) (bs_names st)\<rparr>)))"
proof -
  define s1 where "s1 = note_trigger (rb_trigger b) (st\<lparr>bs_names := bs_insert (rb_name b) (bs_names st)\<rparr>)"
  define s2 where "s2 = add_binding b s1"
  let ?R = "bs_resolved st" and ?R' = "bs_resolved st @ [b]"
  have s1: "bs_resolved s1 = ?R" "bs_button_index s1 = bs_button_index st" "bs_power_below_index s1 = bs_power_below_index st"
      "bs_names s1 = bs_insert (rb_name b) (bs_names st)"
      "\<not> bs_needs_location s1 \<longleftrightarrow> \<not> bs_needs_location st \<and> (\<forall>t. rb_trigger b = At t \<longrightarrow> \<not> uses_sun t)"
    by (auto simp: s1_def note_trigger_def split: resolved_trigger.splits)
  have s2: "bs_resolved s2 = ?R'" "bs_names s2 = bs_names s1" "bs_needs_location s2 = bs_needs_location s1"
      "bs_button_index s2 = (case rb_trigger b of Button d button g \<Rightarrow> push_entry (d, button, g) (length ?R) (bs_button_index st)
                             | _ \<Rightarrow> bs_button_index st)"
      "bs_power_below_index s2 = (case rb_trigger b of PowerBelow pl w h \<Rightarrow> push_entry pl (length ?R) (bs_power_below_index st)
                             | _ \<Rightarrow> bs_power_below_index st)"
    by (simp_all add: s2_def add_binding_def s1 Let_def split: resolved_trigger.split option.split)
  have old: "?R' ! i = ?R ! i" if "i < length ?R" for i using that by (simp add: nth_append)
  let ?B = "\<lambda>R k i. i < length R \<and> rb_trigger (R ! i) = Button (fst k) (fst (snd k)) (snd (snd k))"
  let ?P = "\<lambda>R d i. i < length R \<and> is_power_below (R ! i) \<and> trigger_device (rb_trigger (R ! i)) = Some d"
  have B: "bt_all (\<lambda>k vs. \<forall>v \<in> set vs. ?B ?R k v) (bs_button_index st)"
    and P: "bt_all (\<lambda>k vs. \<forall>v \<in> set vs. ?P ?R k v) (bs_power_below_index st)"
    using assms(1) by (simp_all add: bindings_inv_def)
  have upB: "?B ?R k v \<Longrightarrow> ?B ?R' k v" for k v using old by auto
  have upP: "?P ?R k v \<Longrightarrow> ?P ?R' k v" for k v using old by auto
  have keepB: "bt_all (\<lambda>k vs. \<forall>v \<in> set vs. ?B ?R' k v) (bs_button_index st)"
    using B upB by (elim bt_all_mono) blast
  have keepP: "bt_all (\<lambda>k vs. \<forall>v \<in> set vs. ?P ?R' k v) (bs_power_below_index st)"
    using P upP by (elim bt_all_mono) blast
  have B': "bt_all (\<lambda>k vs. \<forall>v \<in> set vs. ?B ?R' k v) (bs_button_index s2)"
    using bt_all_push_entry [OF B, of "?B ?R'"] upB keepB by (auto simp: s2 split: resolved_trigger.split)
  have P': "bt_all (\<lambda>k vs. \<forall>v \<in> set vs. ?P ?R' k v) (bs_power_below_index s2)"
    using bt_all_push_entry [OF P, of "?P ?R'"] upP keepP by (auto simp: s2 is_power_below_def split: resolved_trigger.split)
  have "bindings_inv c s2"
    using assms B' P' s1 s2(1,2,3) unfolding bindings_inv_def by auto
  then show ?thesis unfolding s1_def s2_def .
qed

abbreviation device_index :: "config \<Rightarrow> (string, device_idx) btree_map" where
  "device_index c \<equiv> index_by di_name (build_devices c)"

abbreviation room_index :: "config \<Rightarrow> (string, room_idx) btree_map" where
  "room_index c \<equiv> index_by rc_name (conf_rooms c)"

text \<open>How a resolved trigger matches the configured one.\<close>

definition trigger_resolved :: "config \<Rightarrow> config_effect \<Rightarrow> config_trigger \<Rightarrow> resolved_trigger \<Rightarrow> bool" where
  "trigger_resolved c eff ct rt =
     (case ct of
        TriggerButton d b g \<Rightarrow> (\<exists>i. bt_get (device_index c) d = Some i \<and> rt = Button i b g)
      | TriggerPowerBelow d w s \<Rightarrow> (\<exists>i. bt_get (device_index c) d = Some i \<and> rt = PowerBelow i w (from_secs s)) \<and>
          (\<forall>t. config_effect_target eff = Some t \<longrightarrow> t = d)
      | TriggerAt t \<Rightarrow> rt = At t \<and> is_valid_trigger_time t)"

lemma resolve_trigger_safe:
  assumes "config_trigger_device ct = None \<and> entry = None \<or>
    (\<exists>d e. config_trigger_device ct = Some d \<and> bt_get (conf_devices c) d = Some e \<and> entry = Some e)"
  shows "wpr (resolve_trigger c (device_index c) n eff entry ct) (trigger_resolved c eff ct)"
proof (cases "config_trigger_device ct")
  case None
  then show ?thesis by (cases ct) (simp_all add: resolve_trigger_def trigger_resolved_def)
next
  case (Some d)
  with assms obtain e where e: "bt_get (conf_devices c) d = Some e" "entry = Some e" by auto
  obtain i where "bt_get (device_index c) d = Some i" using device_indexed [OF e(1)] by blast
  with Some e show ?thesis
    by (cases ct) (auto simp: resolve_trigger_def trigger_resolved_def split: option.split)
qed

lemma check_effect_safe:
  "wpr (check_effect c (room_index c) n eff) (\<lambda>_.
     (\<forall>r. config_effect_room eff = Some r \<longrightarrow> bt_get (room_index c) r \<noteq> None) \<and>
     (\<forall>t. config_effect_target eff = Some t \<longrightarrow> bt_get (device_index c) t \<noteq> None) \<and>
     (\<forall>w. config_effect_confirm_off eff = Some w \<longrightarrow> 0 \<le> w))"
  by (auto simp: check_effect_def bt_contains_key_def dest: device_indexed split: option.splits)

lemma resolve_effect_safe:
  assumes "\<And>r. config_effect_room eff = Some r \<Longrightarrow> bt_get rooms r \<noteq> None"
    and "\<And>t. config_effect_target eff = Some t \<Longrightarrow> bt_get ds t \<noteq> None"
  shows "wp (resolve_effect rooms ds eff) (\<lambda>e.
     effect_room e = Option.bind (config_effect_room eff) (bt_get rooms) \<and>
     effect_target_plug e = Option.bind (config_effect_target eff) (bt_get ds) \<and>
     effect_confirm_off_seconds e = config_effect_confirm_off eff)"
  using assms by (cases eff) (auto simp: wp_iff)

lemma resolve_binding_safe:
  assumes "bindings_inv c st"
    and "rule \<in> set (conf_bindings c)"
  shows "wpr (resolve_binding c (device_index c) (room_index c) rule st)
           (bindings_inv c)"
proof -
  let ?n = "bc_name rule" and ?eff = "bc_effect rule"
  have entry: "wpr (case config_trigger_device (bc_trigger rule) of
                        None \<Rightarrow> Some (Inr None)
                      | Some d \<Rightarrow> map_option (map_sum id Some)
                          (ok_or (BindingTriggerUnknownDevice ?n d) (bt_get (conf_devices c) d)))
     (\<lambda>entry. config_trigger_device (bc_trigger rule) = None \<and> entry = None \<or>
        (\<exists>d e. config_trigger_device (bc_trigger rule) = Some d \<and> bt_get (conf_devices c) d = Some e \<and> entry = Some e))"
    by (auto simp: ok_or_def split: option.splits)
  have fits: "binding_fits c \<lparr>rb_name = ?n, rb_trigger = trig, rb_effect = e\<rparr>"
    if "trigger_resolved c ?eff (bc_trigger rule) trig" "\<forall>w. config_effect_confirm_off ?eff = Some w \<longrightarrow> 0 \<le> w"
      "effect_room e = Option.bind (config_effect_room ?eff) (bt_get (room_index c))"
      "effect_target_plug e = Option.bind (config_effect_target ?eff) (bt_get (device_index c))"
      "effect_confirm_off_seconds e = config_effect_confirm_off ?eff" for trig e
    using that assms(2)
    by (auto simp: binding_fits_def trigger_resolved_def bind_eq_Some_conv dest: index_by_Some
        split: config_trigger.splits)
  have "wpr (do { e \<leftarrow> resolve_effect (room_index c) (device_index c) ?eff;
                  Some (Inr (add_binding \<lparr>rb_name = ?n, rb_trigger = trig, rb_effect = e\<rparr>
                    (note_trigger trig (st\<lparr>bs_names := bs_insert ?n (bs_names st)\<rparr>)))) })
      (bindings_inv c)"
    if "trigger_resolved c ?eff (bc_trigger rule) trig" "?n \<notin> set (bs_names st)"
      "(\<forall>r. config_effect_room ?eff = Some r \<longrightarrow> bt_get (room_index c) r \<noteq> None) \<and>
       (\<forall>t. config_effect_target ?eff = Some t \<longrightarrow> bt_get (device_index c) t \<noteq> None) \<and>
       (\<forall>w. config_effect_confirm_off ?eff = Some w \<longrightarrow> 0 \<le> w)" for trig
    unfolding wpr_bind
  proof (rule wp_mono [OF resolve_effect_safe [of ?eff "room_index c" "device_index c"]])
    fix e
    assume e: "effect_room e = Option.bind (config_effect_room ?eff) (bt_get (room_index c)) \<and>
     effect_target_plug e = Option.bind (config_effect_target ?eff) (bt_get (device_index c)) \<and>
     effect_confirm_off_seconds e = config_effect_confirm_off ?eff"
    show "wpr (Some (Inr (add_binding \<lparr>rb_name = ?n, rb_trigger = trig, rb_effect = e\<rparr>
                    (note_trigger trig (st\<lparr>bs_names := bs_insert ?n (bs_names st)\<rparr>)))))
      (bindings_inv c)"
      using bindings_inv_add [OF assms(1) fits [of trig e]] that e by simp
  qed (use that in auto)
  note step = this
  show ?thesis
    unfolding resolve_binding_def Let_def wpr_andthen wpr_ensure
  proof (intro impI)
    assume new: "\<not> bs_contains (bs_names st) ?n"
    show "wpr (case config_trigger_device (bc_trigger rule) of
                        None \<Rightarrow> Some (Inr None)
                      | Some d \<Rightarrow> map_option (map_sum id Some)
                          (ok_or (BindingTriggerUnknownDevice ?n d) (bt_get (conf_devices c) d)))
       (\<lambda>entry. wpr (resolve_trigger c (device_index c) ?n ?eff entry (bc_trigger rule))
         (\<lambda>trig. wpr (check_effect c (room_index c) ?n ?eff)
            (\<lambda>_. wpr (do { e \<leftarrow> resolve_effect (room_index c) (device_index c) ?eff;
                  Some (Inr (add_binding \<lparr>rb_name = ?n, rb_trigger = trig, rb_effect = e\<rparr>
                    (note_trigger trig (st\<lparr>bs_names := bs_insert ?n (bs_names st)\<rparr>)))) })
      (bindings_inv c))))"
      using new by (intro wpr_mono [OF entry] wpr_mono [OF resolve_trigger_safe] wpr_mono [OF check_effect_safe] step) auto
  qed
qed

lemma resolve_bindings_safe:
  "wpr (resolve_bindings c (device_index c) (room_index c) nl)
           (\<lambda>st. bindings_inv c st \<and> (nl \<longrightarrow> bs_needs_location st))"
proof -
  have mono: "bs_needs_location st' \<or> \<not> bs_needs_location st"
    if "resolve_binding c ds rooms rule st = Some (Inr st')" for ds rooms rule st st'
    using that by (auto simp: resolve_binding_def Let_def andthen_Inr add_binding_def note_trigger_def
        split: Option.bind_splits resolved_trigger.splits option.splits if_splits)
  have "wpr (foldE (resolve_binding c (device_index c) (room_index c)) (conf_bindings c) s0)
      (\<lambda>st. bindings_inv c st \<and> (nl \<longrightarrow> bs_needs_location st))"
    if "bindings_inv c s0 \<and> (nl \<longrightarrow> bs_needs_location s0)" for s0
  proof (rule wpr_foldE [where I = "\<lambda>st. bindings_inv c st \<and> (nl \<longrightarrow> bs_needs_location st)"])
    fix rule st
    assume r: "rule \<in> set (conf_bindings c)"
      and st: "bindings_inv c st \<and> (nl \<longrightarrow> bs_needs_location st)"
    have "wpr (resolve_binding c (device_index c) (room_index c) rule st)
        (bindings_inv c)"
      using st r by (intro resolve_binding_safe) auto
    moreover have "wpr (resolve_binding c (device_index c) (room_index c) rule st) (\<lambda>st'. nl \<longrightarrow> bs_needs_location st')"
      using wpr_total [OF calculation] st by (auto simp: wpr_def wp_iff dest: mono)
    ultimately show "wpr (resolve_binding c (device_index c) (room_index c) rule st)
        (\<lambda>st. bindings_inv c st \<and> (nl \<longrightarrow> bs_needs_location st))"
      by (rule wpr_conj)
  qed (rule that)
  then show ?thesis unfolding resolve_bindings_def by (simp add: bindings_inv_def)
qed

section \<open>Resolved rooms\<close>

definition room_resolved :: "config \<Rightarrow> room_config \<Rightarrow> resolved_room \<Rightarrow> bool" where
  "room_resolved c rc r =
     (room_name r = rc_name rc \<and> room_group_name r = rc_group_name rc \<and> room_parent r = rc_parent rc \<and>
      room_scenes r = rc_scenes rc \<and> room_members r = rc_members rc \<and>
      room_off_transition_seconds r = rc_off_transition_seconds rc \<and>
      length (room_light_members r) = length (room_members r) \<and>
      list_all (\<lambda>l. le_device l < length (conf_devices c) \<and> 1 \<le> le_endpoint l \<and> le_endpoint l \<le> 240) (room_light_members r) \<and>
      bt_all (\<lambda>n steps. bt_contains_key (ss_slots (rc_scenes rc)) n \<and> steps \<noteq> [] \<and>
        list_all (step_resolved (ss_scenes (rc_scenes rc)) (room_light_members r)) steps) (room_switch_steps r))"

lemma resolve_member_safe:
  assumes "member_known c m"
  shows "wpr (resolve_member (device_index c) n m)
           (\<lambda>l. le_device l < length (conf_devices c) \<and> 1 \<le> le_endpoint l \<and> le_endpoint l \<le> 240)"
proof -
  obtain bulb e common where m: "parse_member_key m = Some (bulb, e)" "bt_get (conf_devices c) bulb = Some (LightEntry common)"
    using assms by (auto simp: member_known_def)
  then obtain i where i: "bt_get (device_index c) bulb = Some i" using device_indexed by blast
  with m show ?thesis using device_index_bound [OF i] by (simp add: resolve_member_def)
qed

lemma build_room_safe:
  assumes "\<forall>m \<in> set (rc_members rc). member_known c m"
  shows "wpr (build_room (device_index c) rc) (room_resolved c rc)"
proof -
  let ?P = "\<lambda>l. le_device l < length (conf_devices c) \<and> 1 \<le> le_endpoint l \<and> le_endpoint l \<le> 240"
  have lights: "wpr (mapE (resolve_member (device_index c) (rc_name rc)) (rc_members rc))
      (\<lambda>ls. length ls = length (rc_members rc) \<and> list_all ?P ls)"
    by (rule wpr_mapE_length) (use assms resolve_member_safe in blast)
  show ?thesis
    unfolding build_room_def wpr_andthen
  proof (rule wpr_mono [OF lights])
    fix ls :: "light_endpoint list" assume ls: "length ls = length (rc_members rc) \<and> list_all ?P ls"
    show "wpr (resolve_switch_steps (rc_name rc) (rc_scenes rc) (rc_switch_steps rc) (rc_members rc) ls)
       (\<lambda>steps. wpr (Some (Inr
          \<lparr>room_name = rc_name rc, room_group_name = rc_group_name rc, room_room = rc_room rc, room_id = rc_id rc,
           room_members = rc_members rc, room_light_members = ls, room_parent = rc_parent rc,
           room_scenes = rc_scenes rc, room_switch_steps = steps,
           room_off_transition_seconds = rc_off_transition_seconds rc, room_bound_motion = []\<rparr>)) (room_resolved c rc))"
      by (rule wpr_mono [OF resolve_switch_steps_safe]) (use ls in \<open>auto simp: room_resolved_def bt_all_def list_all_iff\<close>)
  qed
qed

lemma build_rooms_safe:
  assumes "\<forall>r \<in> set (conf_rooms c). \<forall>m \<in> set (rc_members r). member_known c m"
  shows "wpr (mapE (build_room (device_index c)) (conf_rooms c)) (list_all2 (room_resolved c) (conf_rooms c))"
  by (rule wpr_mapE2) (use assms build_room_safe in blast)

lemma validate_endpoints_total: "wpr (validate_endpoints rooms) (\<lambda>_. True)"
  unfolding validate_endpoints_def by (rule wpr_foldE) (simp_all add: endpoints_observable_def Let_def)

end
