(* ===== verification/BuilderMotion.thy ===== *)
theory BuilderMotion
  imports BuilderStages
begin

text \<open>
  What building the motion rules (\<open>src/crates/mqtt-controller/src/topology/motion.rs\<close>) guarantees:
  every rule resolves to known lights and rooms, no light serves two rules, and the index of
  descendants is the transitive closure of the parent relation, whose walk ends because the
  parents were found acyclic.
\<close>

section \<open>Topologies but for their bindings\<close>

definition topology_shape :: "topology \<Rightarrow> bool" where
  "topology_shape t =
     (names_ok t \<and> list_all (room_ok t) (t_rooms t) \<and>
      bt_all (\<lambda>_ i. i < length (t_rooms t)) (t_room_by_name t) \<and>
      bt_all (\<lambda>_ i. i < length (t_rooms t)) (t_room_by_group_name t) \<and>
      list_all (list_all (\<lambda>i. i < length (t_rooms t))) (t_descendants_by_room t) \<and>
      length (t_room_has_bindings t) = length (t_rooms t) \<and>
      bt_all (\<lambda>_ i. i < length (t_devices t)) (t_device_by_name t) \<and>
      bt_all (\<lambda>_. list_all (\<lambda>i. i < length (t_rooms t))) (t_motion_index t) \<and>
      list_all (motion_rule_ok t) (t_motion_rules t) \<and>
      bt_all (\<lambda>_. list_all (\<lambda>i. i < length (t_motion_rules t))) (t_motion_rule_index t))"

lemma topology_ok_shape:
  "topology_ok t \<longleftrightarrow> topology_shape t \<and> list_all (binding_ok t) (t_bindings t) \<and>
      bt_all (\<lambda>_. list_all (\<lambda>i. i < length (t_bindings t))) (t_button_binding_index t) \<and>
      bt_all (\<lambda>_. list_all (\<lambda>i. i < length (t_bindings t))) (t_power_below_index t)"
  by (auto simp: topology_ok_def topology_shape_def)

lemma topology_shape_room: "topology_shape t \<Longrightarrow> i < length (t_rooms t) \<Longrightarrow> room_ok t (t_rooms t ! i)"
  by (simp add: topology_shape_def list_all_length)

lemma shape_room_bound: "topology_shape t \<Longrightarrow> room_idx_of t n = Some i \<Longrightarrow> i < length (t_rooms t)"
  unfolding topology_shape_def room_idx_of_def by (blast dest: bt_all_get)

lemma shape_device_bound: "topology_shape t \<Longrightarrow> device_idx_of t n = Some i \<Longrightarrow> i < length (t_devices t)"
  unfolding topology_shape_def device_idx_of_def by (blast dest: bt_all_get)

section \<open>The part of a topology that motion rules change\<close>

definition strip :: "topology \<Rightarrow> topology" where
  "strip t = t\<lparr>t_rooms := map (\<lambda>r. r\<lparr>room_bound_motion := []\<rparr>) (t_rooms t),
     t_motion_index := [], t_motion_rules := [], t_motion_rule_index := []\<rparr>"

lemma strip_simps [simp]:
  "t_device_by_name (strip t) = t_device_by_name t" "t_devices (strip t) = t_devices t"
  "t_room_by_name (strip t) = t_room_by_name t" "t_room_by_group_name (strip t) = t_room_by_group_name t"
  "t_descendants_by_room (strip t) = t_descendants_by_room t" "t_room_has_bindings (strip t) = t_room_has_bindings t"
  "t_bindings (strip t) = t_bindings t" "t_button_binding_index (strip t) = t_button_binding_index t"
  "t_power_below_index (strip t) = t_power_below_index t" "t_heating_config (strip t) = t_heating_config t"
  "length (t_rooms (strip t)) = length (t_rooms t)"
  by (simp_all add: strip_def)

lemma strip_eqD:
  assumes "strip t = strip t0"
  shows "t_device_by_name t = t_device_by_name t0" and "t_devices t = t_devices t0"
    and "t_room_by_name t = t_room_by_name t0" and "t_room_by_group_name t = t_room_by_group_name t0"
    and "t_descendants_by_room t = t_descendants_by_room t0" and "t_room_has_bindings t = t_room_has_bindings t0"
    and "t_bindings t = t_bindings t0" and "t_button_binding_index t = t_button_binding_index t0"
    and "t_power_below_index t = t_power_below_index t0" and "t_heating_config t = t_heating_config t0"
    and "length (t_rooms t) = length (t_rooms t0)"
    and "map (\<lambda>r. r\<lparr>room_bound_motion := []\<rparr>) (t_rooms t) = map (\<lambda>r. r\<lparr>room_bound_motion := []\<rparr>) (t_rooms t0)"
  using arg_cong [OF assms, of t_device_by_name] arg_cong [OF assms, of t_devices]
    arg_cong [OF assms, of t_room_by_name] arg_cong [OF assms, of t_room_by_group_name]
    arg_cong [OF assms, of t_descendants_by_room] arg_cong [OF assms, of t_room_has_bindings]
    arg_cong [OF assms, of t_bindings] arg_cong [OF assms, of t_button_binding_index]
    arg_cong [OF assms, of t_power_below_index] arg_cong [OF assms, of t_heating_config]
    arg_cong [OF assms, of "\<lambda>t. length (t_rooms t)"] arg_cong [OF assms, of t_rooms]
  by (simp_all add: strip_def)

lemma strip_room:
  assumes "strip t = strip t0" and "i < length (t_rooms t0)"
  shows "\<exists>b. t_rooms t ! i = (t_rooms t0 ! i)\<lparr>room_bound_motion := b\<rparr>"
proof -
  have "map (\<lambda>r. r\<lparr>room_bound_motion := []\<rparr>) (t_rooms t) ! i = map (\<lambda>r. r\<lparr>room_bound_motion := []\<rparr>) (t_rooms t0) ! i"
    using strip_eqD(12) [OF assms(1)] by simp
  then have "(t_rooms t ! i)\<lparr>room_bound_motion := []\<rparr> = (t_rooms t0 ! i)\<lparr>room_bound_motion := []\<rparr>"
    using assms(2) strip_eqD(11) [OF assms(1)] by simp
  then show ?thesis by (metis resolved_room.surjective resolved_room.update_convs(11))
qed

lemma strip_room_fields:
  assumes "strip t = strip t0" and "i < length (t_rooms t0)"
  shows "room_name (t_rooms t ! i) = room_name (t_rooms t0 ! i)"
    and "room_parent (t_rooms t ! i) = room_parent (t_rooms t0 ! i)"
    and "room_scenes (t_rooms t ! i) = room_scenes (t_rooms t0 ! i)"
    and "room_light_members (t_rooms t ! i) = room_light_members (t_rooms t0 ! i)"
    and "room_members (t_rooms t ! i) = room_members (t_rooms t0 ! i)"
    and "room_switch_steps (t_rooms t ! i) = room_switch_steps (t_rooms t0 ! i)"
  using strip_room [OF assms] by auto

lemma strip_members:
  assumes "strip t = strip t0"
  shows "map room_light_members (t_rooms t) = map room_light_members (t_rooms t0)"
    and "map room_name (t_rooms t) = map room_name (t_rooms t0)"
  using strip_room_fields [OF assms] strip_eqD(11) [OF assms] by (auto intro: nth_equalityI)

lemma strip_ok_fields:
  assumes "strip t = strip t0"
  shows "endpoint_ok t = endpoint_ok t0" and "motion_target_ok t = motion_target_ok t0"
    and "motion_rule_ok t = motion_rule_ok t0" and "binding_ok t = binding_ok t0" and "room_ok t = room_ok t0"
proof -
  note eqs = strip_eqD(1-11) [OF assms]
  show e: "endpoint_ok t = endpoint_ok t0" by (rule ext) (simp add: endpoint_ok_def eqs)
  show m: "motion_target_ok t = motion_target_ok t0" by (rule ext) (simp add: motion_target_ok_def eqs e)
  show "motion_rule_ok t = motion_rule_ok t0" by (rule ext) (simp add: motion_rule_ok_def eqs e m)
  show "binding_ok t = binding_ok t0" by (rule ext) (simp add: binding_ok_def eqs)
  show "room_ok t = room_ok t0" by (rule ext) (simp add: room_ok_def e)
qed

text \<open>The well-formedness of a topology from that of its motion-free part.\<close>

lemma topology_shape_from_strip:
  assumes "topology_shape t0" and "strip t = strip t0" and "distinct (map mr_name (t_motion_rules t))"
    and "bt_all (\<lambda>_. list_all (\<lambda>i. i < length (t_rooms t0))) (t_motion_index t)"
    and "list_all (motion_rule_ok t0) (t_motion_rules t)"
    and "bt_all (\<lambda>_. list_all (\<lambda>i. i < length (t_motion_rules t))) (t_motion_rule_index t)"
  shows "topology_shape t"
proof -
  note eqs = strip_eqD(1-11) [OF assms(2)] and oks = strip_ok_fields [OF assms(2)]
  have rooms: "list_all (room_ok t0) (t_rooms t)"
  proof -
    have "room_ok t0 (t_rooms t ! i)" if "i < length (t_rooms t0)" for i
      using topology_shape_room [OF assms(1) that] strip_room [OF assms(2) that] by (auto simp: room_ok_def)
    then show ?thesis by (simp add: list_all_length eqs)
  qed
  have "bt_all (\<lambda>n i. room_name (t_rooms t ! i) = n) (t_room_by_name t0)"
    using assms(1) strip_room_fields(1) [OF assms(2)]
    by (auto simp: topology_shape_def names_ok_def bt_all_def list_all_iff) force
  then have "names_ok t" using assms(1,3) strip_members(2) [OF assms(2)] by (simp add: names_ok_def topology_shape_def eqs)
  then show ?thesis using assms rooms by (simp add: topology_shape_def eqs oks)
qed

section \<open>One rule\<close>

text \<open>What is known of a resolved rule beyond its indexes.\<close>

definition rule_built :: "config \<Rightarrow> resolved_motion_rule \<Rightarrow> bool" where
  "rule_built c r =
     (schedule_valid (mr_scenes r) \<and> (conf_location c = None \<longrightarrow> \<not> uses_sun_expressions (mr_scenes r)) \<and>
      (bt_ok (ss_slots (mr_scenes r)) \<longrightarrow>
         bt_all (\<lambda>n s. bt_contains_key (mr_targets_by_slot r) n \<and> slot_scene_ids s \<noteq> []) (ss_slots (mr_scenes r))) \<and>
      (\<exists>rule \<in> set (conf_motion_rules c). mc_name rule = mr_name r \<and> mc_scenes rule = mr_scenes r) \<and>
      bt_all (\<lambda>_ mt. set (mt_lights mt) \<subseteq> set (mr_lights r)) (mr_targets_by_slot r))"

text \<open>All members of one device are the same endpoint.\<close>

definition one_endpoint :: "topology \<Rightarrow> device_idx \<Rightarrow> bool" where
  "one_endpoint t d =
     (\<exists>e. \<forall>r \<in> set (t_rooms t). \<forall>m \<in> set (room_light_members r). le_device m = d \<longrightarrow> le_endpoint m = e)"

lemma motion_sensor_of_safe: "wpr (motion_sensor_of c rule n) (\<lambda>b. mb_sensor b = n \<and> bt_get (conf_devices c) n \<noteq> None)"
  by (simp add: motion_sensor_of_def split: option.split catalog_entry.split)

lemma scene_id_found: "scene_known sc i \<Longrightarrow> \<exists>s. find (\<lambda>s. scene_id s = i) (ss_scenes sc) = Some s"
  by (cases "find (\<lambda>s. scene_id s = i) (ss_scenes sc)") (auto simp: scene_known_def find_None_iff list_ex_iff)

lemma scenes_checked_total:
  assumes "list_all (scene_known (mc_scenes rule)) ids"
  shows "wpr (forE (check_motion_scene rule) ids) (\<lambda>_. True)" and "wpr (forE (check_group_scene rule grp r) ids) (\<lambda>_. True)"
proof -
  have s: "\<exists>s. find (\<lambda>s. scene_id s = i) (ss_scenes (mc_scenes rule)) = Some s" if "i \<in> set ids" for i
    using assms that scene_id_found by (auto simp: list_all_iff)
  have "wpr (forE (check_motion_scene rule) ids) (\<lambda>_. \<forall>i \<in> set ids. True)"
    by (rule wpr_forE) (use s in \<open>force simp: check_motion_scene_def\<close>)
  then show "wpr (forE (check_motion_scene rule) ids) (\<lambda>_. True)" by simp
  have "wpr (forE (check_group_scene rule grp r) ids) (\<lambda>_. \<forall>i \<in> set ids. True)"
    by (rule wpr_forE) (use s in \<open>force simp: check_group_scene_def\<close>)
  then show "wpr (forE (check_group_scene rule grp r) ids) (\<lambda>_. True)" by simp
qed

lemma resolve_motion_light_safe:
  "topology_shape t \<Longrightarrow> wpr (resolve_motion_light t rule m) (endpoint_ok t)"
  by (auto simp: resolve_motion_light_def Let_def endpoint_ok_def dest: shape_device_bound split: option.split)

lemma resolve_motion_target_safe:
  assumes "topology_shape t" and "list_all (scene_known (mc_scenes rule)) (slot_scene_ids sl)"
  shows "wpr (resolve_motion_target t rule sl target) (motion_target_ok t)"
proof (cases target)
  case (TargetGroup grp)
  have "wp (room t i) (\<lambda>r. wpr (forE (check_group_scene rule grp r) (slot_scene_ids sl))
      (\<lambda>_. motion_target_ok t \<lparr>mt_group = Some i, mt_lights = room_light_members r\<rparr>))" if "room_idx_of t grp = Some i" for i
    using shape_room_bound [OF assms(1) that] topology_shape_room [OF assms(1)] scenes_checked_total(2) [OF assms(2)]
    by (auto simp: motion_target_ok_def room_ok_def elim!: wpr_mono)
  with TargetGroup show ?thesis by simp
next
  case (TargetLights members)
  have "wpr (mapE (resolve_motion_light t (mc_name rule)) members) (list_all (endpoint_ok t))"
    by (rule wpr_mapE) (rule resolve_motion_light_safe [OF assms(1)])
  with TargetLights show ?thesis by (auto simp: motion_target_ok_def elim!: wpr_mono)
qed

text \<open>What holds once the targets of the slots \<open>ys\<close> are resolved.\<close>

definition targets_inv ::
  "topology \<Rightarrow> motion_rule_config \<Rightarrow> (string \<times> motion_target) list \<Rightarrow>
   (string, resolved_motion_target) btree_map \<times> light_endpoint btree_set \<Rightarrow> bool" where
  "targets_inv t rule ys st =
     (case st of (targets, lights) \<Rightarrow>
        bt_all (\<lambda>_ mt. motion_target_ok t mt \<and> set (mt_lights mt) \<subseteq> set lights) targets \<and>
        list_all (endpoint_ok t) lights \<and>
        (\<forall>n \<in> fst ` set ys. bt_contains_key targets n \<and>
           (\<exists>sl. bt_get (ss_slots (mc_scenes rule)) n = Some sl \<and> slot_scene_ids sl \<noteq> [])))"

lemma resolve_targets_safe:
  assumes "topology_shape t" and "schedule_valid (mc_scenes rule)"
    and "bt_keys (mc_targets_by_slot rule) = bt_keys (ss_slots (mc_scenes rule))"
  shows "wpr (foldE (resolve_slot_target t rule) (mc_targets_by_slot rule) ([], []))
           (targets_inv t rule (mc_targets_by_slot rule))"
proof (rule wpr_foldE_prefix)
  show "targets_inv t rule [] ([], [])" by (simp add: targets_inv_def)
next
  fix ys x zs st
  assume split: "mc_targets_by_slot rule = ys @ x # zs" and inv: "targets_inv t rule ys st"
  obtain n target where x: "x = (n, target)" by (cases x)
  obtain targets lights where st: "st = (targets, lights)" by (cases st)
  have "n \<in> set (bt_keys (ss_slots (mc_scenes rule)))" using assms(3) [symmetric] split x by (simp add: bt_keys_def)
  then obtain sl where sl: "bt_get (ss_slots (mc_scenes rule)) n = Some sl"
    by (auto simp: bt_keys_def bt_get_def dest: weak_map_of_SomeI)
  have known: "list_all (scene_known (mc_scenes rule)) (slot_scene_ids sl)"
    using bt_all_get [OF _ sl] assms(2) by (auto simp: schedule_valid_def)
  have add: "targets_inv t rule (ys @ [x]) (bt_insert n mt targets, fold bs_insert (mt_lights mt) lights)"
    if "motion_target_ok t mt" "slot_scene_ids sl \<noteq> []" for mt
  proof -
    have "bt_all (\<lambda>_ mt'. motion_target_ok t mt' \<and> set (mt_lights mt') \<subseteq> set (fold bs_insert (mt_lights mt) lights)) targets"
      using inv unfolding targets_inv_def st by (auto simp: set_fold_bs_insert elim!: bt_all_mono)
    then show ?thesis using inv that sl
      by (auto simp: targets_inv_def st x bt_contains_key_def set_fold_bs_insert motion_target_ok_def list_all_iff intro!: bt_all_insert)
  qed
  show "wpr (resolve_slot_target t rule x st) (targets_inv t rule (ys @ [x]))"
    unfolding resolve_slot_target_def x st using sl
    by (auto intro!: wpr_mono [OF scenes_checked_total(1) [OF known]]
        wpr_mono [OF resolve_motion_target_safe [OF assms(1) known]] dest: add simp: x)
qed

text \<open>A light enters the table of owners once, for ever, and only with a single endpoint.\<close>

definition owners_extended ::
  "topology \<Rightarrow> string \<Rightarrow> (device_idx, string) btree_map \<Rightarrow> light_endpoint list \<Rightarrow> (device_idx, string) btree_map \<Rightarrow> bool" where
  "owners_extended t rule before ls owners =
     ((\<forall>d n. bt_get before d = Some n \<longrightarrow> bt_get owners d = Some n) \<and>
      (\<forall>l \<in> set ls. bt_get owners (le_device l) = Some rule \<and> bt_get before (le_device l) = None \<and> one_endpoint t (le_device l)) \<and>
      distinct (map le_device ls))"

lemma bs_single: "length (bs_of_list xs) = 1 \<Longrightarrow> \<exists>e. set xs = {e}"
  by (metis One_nat_def Suc_length_conv length_0_conv list.set(1) list.simps(15) set_bs_of_list)

lemma own_lights_safe:
  assumes "list_all (endpoint_ok t) lights"
  shows "wpr (foldE (own_light t rule) lights owners) (owners_extended t rule owners lights)"
proof (rule wpr_foldE_prefix [where I = "owners_extended t rule owners"])
  show "owners_extended t rule owners [] owners" by (simp add: owners_extended_def)
next
  fix ys l zs o1
  assume split: "lights = ys @ l # zs" and inv: "owners_extended t rule owners ys o1"
  have "endpoint_ok t l" using assms split by simp
  then have name: "wp (device_name t (le_device l)) (\<lambda>_. True)" by (simp add: endpoint_ok_def)
  let ?es = "map le_endpoint (filter (\<lambda>m. le_device m = le_device l) (concat (map room_light_members (t_rooms t))))"
  have one: "one_endpoint t (le_device l)" if es: "length (bs_of_list ?es) = 1"
  proof -
    obtain e where "set ?es = {e}" using bs_single [OF es] by blast
    then have "\<forall>m \<in> {m. \<exists>r \<in> set (t_rooms t). m \<in> set (room_light_members r)}. le_device m = le_device l \<longrightarrow> le_endpoint m = e"
      by auto
    then show ?thesis unfolding one_endpoint_def by blast
  qed
  have "owners_extended t rule owners (ys @ [l]) (bt_insert (le_device l) rule o1)"
    if "bt_get o1 (le_device l) = None" "length (bs_of_list ?es) = 1"
  proof -
    have "bt_get owners (le_device l) = None" using inv that(1) by (cases "bt_get owners (le_device l)") (auto simp: owners_extended_def)
    then show ?thesis using inv that one by (auto simp: owners_extended_def)
  qed
  then show "wpr (own_light t rule l o1) (owners_extended t rule owners (ys @ [l]))"
    using name by (auto simp: own_light_def Let_def split: option.split)
qed

definition binding_inv :: "topology \<Rightarrow> topology \<Rightarrow> topology \<Rightarrow> bool" where
  "binding_inv t0 t t' =
     (strip t' = strip t0 \<and> t_motion_rules t' = t_motion_rules t \<and>
      bt_all (\<lambda>_. list_all (\<lambda>i. i < length (t_rooms t0))) (t_motion_index t') \<and>
      bt_all (\<lambda>_. list_all (\<lambda>i. i < Suc (length (t_motion_rules t)))) (t_motion_rule_index t'))"

lemma bt_get_or_all: "bt_all (\<lambda>_. list_all P) m \<Longrightarrow> list_all P (bt_get_or [] m k)"
  by (cases "bt_get m k") (auto simp: bt_get_or_def dest: bt_all_get)

lemma bind_room_safe:
  assumes "binding_inv t0 t t'" and "i < length (t_rooms t0)"
  shows "wp (bind_room s d i t') (binding_inv t0 t)"
proof -
  have len: "length (t_rooms t') = length (t_rooms t0)" using strip_eqD(11) [of t' t0] assms(1) by (simp add: binding_inv_def)
  let ?f = "\<lambda>r. r\<lparr>room_bound_motion := []\<rparr> :: resolved_room"
  have "map ?f ((t_rooms t')[i := (t_rooms t' ! i)\<lparr>room_bound_motion := b\<rparr>]) = (map ?f (t_rooms t'))[i := map ?f (t_rooms t') ! i]" for b
    using assms(2) len by (simp add: map_update)
  then have "map ?f ((t_rooms t')[i := (t_rooms t' ! i)\<lparr>room_bound_motion := b\<rparr>]) = map ?f (t_rooms t')" for b
    by simp
  then have "strip (t'\<lparr>t_motion_index := mi, t_rooms := (t_rooms t')[i := (t_rooms t' ! i)\<lparr>room_bound_motion := b\<rparr>]\<rparr>) = strip t'" for mi b
    by (simp add: strip_def)
  note upd = this
  let ?known = "bt_get_or [] (t_motion_index t') d"
  have idx: "bt_all (\<lambda>_. list_all (\<lambda>i. i < length (t_rooms t0))) (t_motion_index t')"
    using assms(1) by (simp add: binding_inv_def)
  have "bt_all (\<lambda>_. list_all (\<lambda>i. i < length (t_rooms t0)))
      (bt_insert d (if i \<in> set ?known then ?known else ?known @ [i]) (t_motion_index t'))"
    by (rule bt_all_insert [OF idx]) (use bt_get_or_all [OF idx, of d] assms(2) in auto)
  then show ?thesis
    using assms len upd unfolding bind_room_def Let_def wp_bind wp_room binding_inv_def by simp
qed

lemma bind_sensor_safe:
  assumes "binding_inv t0 t t'" and "device_idx_of t0 (mb_sensor s) \<noteq> None"
    and "\<forall>i \<in> set related. i < length (t_rooms t0)"
  shows "wp (bind_sensor (length (t_motion_rules t)) related s t') (binding_inv t0 t)"
proof -
  obtain d where d: "device_idx_of t' (mb_sensor s) = Some d"
    using assms(1,2) strip_eqD(1) [of t' t0] by (auto simp: binding_inv_def device_idx_of_def)
  let ?t1 = "t'\<lparr>t_motion_rule_index := push_entry d (length (t_motion_rules t)) (t_motion_rule_index t'),
                t_motion_index := bt_insert d (bt_get_or [] (t_motion_index t') d) (t_motion_index t')\<rparr>"
  have rules: "bt_all (\<lambda>_. list_all (\<lambda>i. i < Suc (length (t_motion_rules t)))) (t_motion_rule_index t')"
    and idx: "bt_all (\<lambda>_. list_all (\<lambda>i. i < length (t_rooms t0))) (t_motion_index t')"
    using assms(1) by (simp_all add: binding_inv_def)
  have "binding_inv t0 t ?t1"
  proof -
    have "list_all (\<lambda>i. i < Suc (length (t_motion_rules t))) (bt_get_or [] (t_motion_rule_index t') d @ [length (t_motion_rules t)])"
      using bt_get_or_all [OF rules, of d] by simp
    from bt_all_insert [OF rules this] bt_all_insert [OF idx bt_get_or_all [OF idx, of d]]
    show ?thesis using assms(1) by (simp add: binding_inv_def strip_def push_entry_def)
  qed
  then have "wp (foldM (bind_room s d) related ?t1) (binding_inv t0 t)"
    by (rule wp_foldM) (use assms(3) bind_room_safe in blast)
  with d show ?thesis by (simp add: bind_sensor_def)
qed

section \<open>All rules\<close>

text \<open>
  \<open>owned\<close>: every light of every rule belongs to that rule alone, and only under one endpoint.
\<close>

definition owned :: "topology \<Rightarrow> (device_idx, string) btree_map \<Rightarrow> resolved_motion_rule \<Rightarrow> bool" where
  "owned t owners r =
     ((\<forall>l \<in> set (mr_lights r). bt_get owners (le_device l) = Some (mr_name r) \<and> one_endpoint t (le_device l)) \<and>
      distinct (map le_device (mr_lights r)))"

definition motion_inv :: "config \<Rightarrow> topology \<Rightarrow> motion_build \<Rightarrow> bool" where
  "motion_inv c t0 st =
     (let t = mb_topology st in
      strip t = strip t0 \<and> topology_shape t \<and> set (mb_names st) = mr_name ` set (t_motion_rules t) \<and>
      (\<forall>r \<in> set (t_motion_rules t). rule_built c r \<and> owned t0 (mb_owners st) r))"

lemma one_endpoint_strip: "strip t = strip t0 \<Longrightarrow> one_endpoint t = one_endpoint t0"
proof (rule ext)
  fix d
  assume s: "strip t = strip t0"
  have eq: "one_endpoint t d = (\<exists>e. \<forall>ms \<in> set (map room_light_members (t_rooms t)). \<forall>m \<in> set ms. le_device m = d \<longrightarrow> le_endpoint m = e)" for t
    by (simp add: one_endpoint_def)
  show "one_endpoint t d = one_endpoint t0 d" unfolding eq strip_members(1) [OF s] ..
qed

lemma rule_built_new:
  assumes "targets_inv t rule (mc_targets_by_slot rule) (targets, lights)" and "schedule_valid (mc_scenes rule)"
    and "bt_keys (mc_targets_by_slot rule) = bt_keys (ss_slots (mc_scenes rule))" and "rule \<in> set (conf_motion_rules c)"
    and "\<not> (uses_sun_expressions (mc_scenes rule) \<and> conf_location c = None)"
    and "mr_scenes r = mc_scenes rule" and "mr_targets_by_slot r = targets" and "mr_lights r = lights" and "mr_name r = mc_name rule"
  shows "rule_built c r"
proof -
  have "bt_contains_key targets n \<and> slot_scene_ids s \<noteq> []" if "bt_ok (ss_slots (mc_scenes rule))" "(n, s) \<in> set (ss_slots (mc_scenes rule))" for n s
  proof -
    have "n \<in> fst ` set (mc_targets_by_slot rule)"
      using that(2) arg_cong [OF assms(3), of set] by (force simp: bt_keys_def)
    moreover have "bt_get (ss_slots (mc_scenes rule)) n = Some s" using bt_ok_get [OF that] .
    ultimately show ?thesis using assms(1) by (auto simp: targets_inv_def)
  qed
  then have "bt_ok (ss_slots (mc_scenes rule)) \<longrightarrow>
      bt_all (\<lambda>n s. bt_contains_key targets n \<and> slot_scene_ids s \<noteq> []) (ss_slots (mc_scenes rule))"
    by (auto simp: bt_all_def list_all_iff)
  moreover have "bt_all (\<lambda>_ mt. set (mt_lights mt) \<subseteq> set lights) targets"
    using assms(1) unfolding targets_inv_def by (auto elim!: bt_all_mono)
  ultimately show ?thesis using assms(2,4-9) unfolding rule_built_def by auto
qed

lemma add_motion_rule:
  assumes "topology_shape t0" and "motion_inv c t0 st" and "rule_built c r"
    and "mr_name r \<notin> set (mb_names st)" and "motion_rule_ok t0 r"
    and "\<forall>s \<in> set sensors. device_idx_of t0 (mb_sensor s) \<noteq> None"
    and "\<forall>i \<in> set related. i < length (t_rooms t0)"
    and "owners_extended (mb_topology st) (mr_name r) (mb_owners st) (mr_lights r) owners"
  shows "wp (foldM (bind_sensor (length (t_motion_rules (mb_topology st))) related) sensors (mb_topology st))
     (\<lambda>t1. motion_inv c t0 \<lparr>mb_names = bs_insert (mr_name r) (mb_names st), mb_owners = owners,
        mb_topology = t1\<lparr>t_motion_rules := t_motion_rules t1 @ [r]\<rparr>\<rparr>)"
proof -
  define t where "t = mb_topology st"
  have st: "strip t = strip t0" "topology_shape t" "set (mb_names st) = mr_name ` set (t_motion_rules t)"
      "\<forall>r \<in> set (t_motion_rules t). rule_built c r \<and> owned t0 (mb_owners st) r"
    using assms(2) by (simp_all add: motion_inv_def Let_def t_def)
  note len = strip_eqD(11) [OF st(1)] and oks = strip_ok_fields [OF st(1)]
  have "binding_inv t0 t t"
  proof -
    have "bt_all (\<lambda>_. list_all (\<lambda>i. i < length (t_motion_rules t))) (t_motion_rule_index t)"
      using st(2) by (simp add: topology_shape_def)
    then have "bt_all (\<lambda>_. list_all (\<lambda>i. i < Suc (length (t_motion_rules t)))) (t_motion_rule_index t)"
      by (rule bt_all_mono) (auto simp: list_all_iff less_SucI)
    then show ?thesis using st(1,2) by (simp add: binding_inv_def topology_shape_def len)
  qed
  then have "wp (foldM (bind_sensor (length (t_motion_rules t)) related) sensors t) (binding_inv t0 t)"
    by (rule wp_foldM) (use assms(6,7) bind_sensor_safe in blast)
  then show ?thesis
    unfolding t_def [symmetric]
  proof (rule wp_mono)
    fix t1 assume b: "binding_inv t0 t t1"
    let ?t2 = "t1\<lparr>t_motion_rules := t_motion_rules t1 @ [r]\<rparr>"
    have s2: "strip ?t2 = strip t0" using b by (simp add: binding_inv_def strip_def)
    have rules: "t_motion_rules ?t2 = t_motion_rules t @ [r]" using b by (simp add: binding_inv_def)
    have "topology_shape ?t2"
    proof (rule topology_shape_from_strip [OF assms(1) s2])
      have "distinct (map mr_name (t_motion_rules t))" using st(2) by (simp add: topology_shape_def names_ok_def)
      then show "distinct (map mr_name (t_motion_rules ?t2))" using assms(4) st(3) by (simp add: rules)
      show "list_all (motion_rule_ok t0) (t_motion_rules ?t2)"
        using st(2) assms(5) by (simp add: rules topology_shape_def oks)
      show "bt_all (\<lambda>_. list_all (\<lambda>i. i < length (t_rooms t0))) (t_motion_index ?t2)"
        and "bt_all (\<lambda>_. list_all (\<lambda>i. i < length (t_motion_rules ?t2))) (t_motion_rule_index ?t2)"
        using b by (simp_all add: binding_inv_def)
    qed
    moreover have "owned t0 owners r'" if "r' \<in> set (t_motion_rules t) \<or> r' = r" for r'
      using that st(4) assms(8) one_endpoint_strip [OF st(1)]
      by (auto simp: owned_def owners_extended_def t_def)
    ultimately show "motion_inv c t0 \<lparr>mb_names = bs_insert (mr_name r) (mb_names st), mb_owners = owners, mb_topology = ?t2\<rparr>"
      using s2 st(3,4) assms(3) unfolding motion_inv_def Let_def by (auto simp: rules)
  qed
qed

lemma build_motion_rule_safe:
  assumes "topology_shape t0" and "t_device_by_name t0 = device_index c" and "motion_inv c t0 st"
    and "rule \<in> set (conf_motion_rules c)"
  shows "wpr (build_motion_rule c rule st) (motion_inv c t0)"
proof -
  define t where "t = mb_topology st"
  have t: "strip t = strip t0" "topology_shape t" using assms(3) by (simp_all add: motion_inv_def Let_def t_def)
  note len = strip_eqD(11) [OF t(1)] and oks = strip_ok_fields [OF t(1)]
  have sensors: "wpr (mapE (motion_sensor_of c (mc_name rule)) (mc_sensors rule))
      (list_all (\<lambda>s. device_idx_of t0 (mb_sensor s) \<noteq> None))"
    by (rule wpr_mapE) (use device_indexed in \<open>fastforce simp: device_idx_of_def assms(2) intro: wpr_mono [OF motion_sensor_of_safe]\<close>)
  have scenes: "wpr (scene_schedule_validate (mc_scenes rule)) (\<lambda>_. schedule_valid (mc_scenes rule))"
    unfolding schedule_valid_def by (rule scene_schedule_validate_safe)
  let ?related = "\<lambda>lights. map fst (filter (\<lambda>(i, r). list_ex (\<lambda>m. bs_contains lights m) (room_light_members r)) (rooms_with_idx t))"
  have related: "\<forall>i \<in> set (?related lights). i < length (t_rooms t0)" for lights
    by (auto simp: rooms_with_idx_def in_set_enumerate_eq len)
  let ?r = "\<lambda>sensors targets lights. \<lparr>mr_name = mc_name rule, mr_sensors = sensors, mr_mode = mc_mode rule, mr_scenes = mc_scenes rule,
                         mr_targets_by_slot = targets, mr_off_transition_seconds = mc_off_transition_seconds rule,
                         mr_off_cooldown_seconds = mc_off_cooldown_seconds rule,
                         mr_max_illuminance = mc_max_illuminance rule, mr_lights = lights, mr_rooms = ?related lights\<rparr>"
  have step: "wpr (do { t1 \<leftarrow> foldM (bind_sensor (length (t_motion_rules t)) (?related lights)) sensors t;
                   Some (Inr \<lparr>mb_names = bs_insert (mc_name rule) (mb_names st), mb_owners = owners,
                     mb_topology = t1\<lparr>t_motion_rules := t_motion_rules t1 @ [?r sensors targets lights]\<rparr>\<rparr>) }) (motion_inv c t0)"
    if "mc_name rule \<notin> set (mb_names st)" "schedule_valid (mc_scenes rule)"
      "\<not> (uses_sun_expressions (mc_scenes rule) \<and> conf_location c = None)"
      "bt_keys (mc_targets_by_slot rule) = bt_keys (ss_slots (mc_scenes rule))"
      "list_all (\<lambda>s. device_idx_of t0 (mb_sensor s) \<noteq> None) sensors"
      "targets_inv t rule (mc_targets_by_slot rule) (targets, lights)"
      "owners_extended t (mc_name rule) (mb_owners st) lights owners" for sensors targets lights owners
  proof -
    have built: "rule_built c (?r sensors targets lights)"
      by (rule rule_built_new [OF that(6,2,4) assms(4) that(3)]) simp_all
    have "motion_rule_ok t0 (?r sensors targets lights)"
    proof -
      have "list_all (endpoint_ok t0) lights" using that(6) by (simp add: targets_inv_def oks)
      moreover have "bt_all (\<lambda>_. motion_target_ok t0) targets"
        using that(6) unfolding targets_inv_def by (auto simp: oks elim!: bt_all_mono)
      moreover have "list_all (\<lambda>i. i < length (t_rooms t0)) (?related lights)"
        using related [of lights] by (simp only: list_all_iff)
      ultimately show ?thesis by (simp add: motion_rule_ok_def)
    qed
    from add_motion_rule [OF assms(1,3) built _ this, of sensors "?related lights" owners] that related [of lights]
    show ?thesis by (simp add: t_def list_all_iff)
  qed
  have owners: "wpr (foldE (own_light t (mc_name rule)) lights (mb_owners st)) (owners_extended t (mc_name rule) (mb_owners st) lights)"
    if "targets_inv t rule (mc_targets_by_slot rule) (targets, lights)" for targets lights
    by (rule own_lights_safe) (use that in \<open>simp add: targets_inv_def\<close>)
  show ?thesis
    unfolding build_motion_rule_def Let_def wpr_andthen wpr_ensure wpr_map_err t_def [symmetric]
  proof (intro impI wpr_mono [OF scenes] wpr_mono [OF sensors])
    fix sensors :: "motion_binding list"
    assume hyps: "mc_name rule \<noteq> [] \<and> \<not> bs_contains (mb_names st) (mc_name rule)" "schedule_valid (mc_scenes rule)"
      "\<not> (uses_sun_expressions (mc_scenes rule) \<and> conf_location c = None)"
      "ss_slots (mc_scenes rule) \<noteq> [] \<and> bt_keys (mc_targets_by_slot rule) = bt_keys (ss_slots (mc_scenes rule))"
      "list_all (\<lambda>s. device_idx_of t0 (mb_sensor s) \<noteq> None) sensors"
    have targets: "wpr (foldE (resolve_slot_target t rule) (mc_targets_by_slot rule) ([], []))
        (targets_inv t rule (mc_targets_by_slot rule))"
      using hyps by (intro resolve_targets_safe [OF t(2)]) simp_all
    show "wpr (foldE (resolve_slot_target t rule) (mc_targets_by_slot rule) ([], []))
        (\<lambda>x. wpr (case x of (targets, lights) \<Rightarrow> andthen (foldE (own_light t (mc_name rule)) lights (mb_owners st))
          (\<lambda>owners. do { t1 \<leftarrow> foldM (bind_sensor (length (t_motion_rules t)) (?related lights)) sensors t;
                   Some (Inr \<lparr>mb_names = bs_insert (mc_name rule) (mb_names st), mb_owners = owners,
                     mb_topology = t1\<lparr>t_motion_rules := t_motion_rules t1 @ [?r sensors targets lights]\<rparr>\<rparr>) })) (motion_inv c t0))"
    proof (rule wpr_mono [OF targets], clarify)
      fix targets lights assume inv: "targets_inv t rule (mc_targets_by_slot rule) (targets, lights)"
      have new: "mc_name rule \<notin> set (mb_names st)" using hyps(1) by simp
      show "wpr (andthen (foldE (own_light t (mc_name rule)) lights (mb_owners st))
          (\<lambda>owners. do { t1 \<leftarrow> foldM (bind_sensor (length (t_motion_rules t)) (?related lights)) sensors t;
                   Some (Inr \<lparr>mb_names = bs_insert (mc_name rule) (mb_names st), mb_owners = owners,
                     mb_topology = t1\<lparr>t_motion_rules := t_motion_rules t1 @ [?r sensors targets lights]\<rparr>\<rparr>) })) (motion_inv c t0)"
        unfolding wpr_andthen
        by (rule wpr_mono [OF owners [OF inv]], rule step [OF new hyps(2,3) hyps(4) [THEN conjunct2] hyps(5) inv])
    qed
  qed
qed

section \<open>Parents and descendants\<close>

definition parent_rel :: "topology \<Rightarrow> (room_idx \<times> room_idx) set" where
  "parent_rel t =
     {(i, j). i < length (t_rooms t) \<and> (\<exists>n. room_parent (t_rooms t ! i) = Some n \<and> room_idx_of t n = Some j)}"

lemma parent_rel_step:
  assumes "i < length (t_rooms t)"
  shows "(i, p) \<in> (parent_rel t)\<^sup>* \<longleftrightarrow>
    i = p \<or> (\<exists>n j. room_parent (t_rooms t ! i) = Some n \<and> room_idx_of t n = Some j \<and> (j, p) \<in> (parent_rel t)\<^sup>*)"
  using assms by (auto simp: parent_rel_def intro: converse_rtrancl_into_rtrancl elim: converse_rtranclE)

text \<open>The configuration's rooms by name describe the parents of the topology.\<close>

definition parents_follow :: "topology \<Rightarrow> (string \<Rightarrow> room_config option) \<Rightarrow> bool" where
  "parents_follow t m =
     (\<forall>n rc. m n = Some rc \<longrightarrow>
        (\<exists>i. room_idx_of t n = Some i \<and> i < length (t_rooms t) \<and> room_parent (t_rooms t ! i) = rc_parent rc) \<and>
        (\<forall>n'. rc_parent rc = Some n' \<longrightarrow> m n' \<noteq> None))"

text \<open>The walk returns, it has met exactly the rooms above, and the parents above its start end.\<close>

lemma has_ancestor_correct:
  assumes "parents_follow t (bt_get m)" and "parent_chain_cycle m visited a = None" and "\<forall>n. a = Some n \<longrightarrow> bt_get m n \<noteq> None"
  shows "has_ancestor t p a = Some (\<exists>n j. a = Some n \<and> room_idx_of t n = Some j \<and> (j, p) \<in> (parent_rel t)\<^sup>*) \<and>
    (\<forall>n j. a = Some n \<longrightarrow> room_idx_of t n = Some j \<longrightarrow> j \<in> Wellfounded.acc ((parent_rel t)\<inverse>))"
  using assms
proof (induction m visited a rule: parent_chain_cycle.induct [case_names Top Up])
  case (Top m visited)
  then show ?case by (subst has_ancestor.simps) simp
next
  case (Up m visited n)
  obtain rc where rc: "bt_get m n = Some rc" using Up.prems(3) by auto
  with Up.prems(1) have f: "\<exists>i. room_idx_of t n = Some i \<and> i < length (t_rooms t) \<and> room_parent (t_rooms t ! i) = rc_parent rc"
    and known: "\<forall>n'. rc_parent rc = Some n' \<longrightarrow> bt_get m n' \<noteq> None"
    unfolding parents_follow_def by blast+
  from f obtain i where i: "room_idx_of t n = Some i" "i < length (t_rooms t)" "room_parent (t_rooms t ! i) = rc_parent rc"
    by blast
  have new: "n \<notin> set visited" and up: "parent_chain_cycle m (visited @ [n]) (rc_parent rc) = None"
    using Up.prems(2) rc by (auto split: if_splits)
  have IH: "has_ancestor t p (rc_parent rc) =
      Some (\<exists>n j. rc_parent rc = Some n \<and> room_idx_of t n = Some j \<and> (j, p) \<in> (parent_rel t)\<^sup>*)"
    "\<forall>n j. rc_parent rc = Some n \<longrightarrow> room_idx_of t n = Some j \<longrightarrow> j \<in> Wellfounded.acc ((parent_rel t)\<inverse>)"
    using Up.IH Up.prems(1) known rc new up by auto
  have "has_ancestor t p (Some n) = Some (i = p \<or> (\<exists>n j. rc_parent rc = Some n \<and> room_idx_of t n = Some j \<and> (j, p) \<in> (parent_rel t)\<^sup>*))"
    using i IH(1) by (subst has_ancestor.simps) (simp add: room_def index_def)
  then have "has_ancestor t p (Some n) = Some ((i, p) \<in> (parent_rel t)\<^sup>*)"
    using parent_rel_step [OF i(2), of p] by (simp add: i(3))
  moreover have "i \<in> Wellfounded.acc ((parent_rel t)\<inverse>)"
    by (rule acc.intros) (use IH(2) i(3) in \<open>auto simp: parent_rel_def\<close>)
  ultimately show ?case using i(1) by simp
qed

text \<open>The rooms a group's off command reaches: those below it that have a binding or a motion sensor.\<close>

definition descendants_exact :: "topology \<Rightarrow> bool" where
  "descendants_exact t =
     (length (t_descendants_by_room t) = length (t_rooms t) \<and>
      (\<forall>i < length (t_rooms t). distinct (t_descendants_by_room t ! i) \<and>
         set (t_descendants_by_room t ! i) =
           {j. j < length (t_rooms t) \<and> (j, i) \<in> (parent_rel t)\<^sup>+ \<and> room_has_rules t j = Some True}))"

text \<open>Every room's parent is known and the walk up from it ends.\<close>

definition chains_end :: "topology \<Rightarrow> bool" where
  "chains_end t = (\<exists>m. parents_follow t (bt_get m) \<and>
     (\<forall>r \<in> set (t_rooms t). parent_chain_cycle m [room_name r] (room_parent r) = None \<and>
        (\<forall>n. room_parent r = Some n \<longrightarrow> bt_get m n \<noteq> None)))"

lemma chains_end_walk:
  assumes "chains_end t" and "i < length (t_rooms t)"
  shows "has_ancestor t p (room_parent (t_rooms t ! i)) = Some ((i, p) \<in> (parent_rel t)\<^sup>+)"
    and "i \<in> Wellfounded.acc ((parent_rel t)\<inverse>)"
proof -
  obtain m where m: "parents_follow t (bt_get m)"
    "\<forall>r \<in> set (t_rooms t). parent_chain_cycle m [room_name r] (room_parent r) = None \<and>
        (\<forall>n. room_parent r = Some n \<longrightarrow> bt_get m n \<noteq> None)"
    using assms(1) by (auto simp: chains_end_def)
  have r: "t_rooms t ! i \<in> set (t_rooms t)" using assms(2) by simp
  note w = has_ancestor_correct [OF m(1), of "[room_name (t_rooms t ! i)]" "room_parent (t_rooms t ! i)" p]
  have "(\<exists>n j. room_parent (t_rooms t ! i) = Some n \<and> room_idx_of t n = Some j \<and> (j, p) \<in> (parent_rel t)\<^sup>*) \<longleftrightarrow>
      (i, p) \<in> (parent_rel t)\<^sup>+"
    using assms(2) by (auto simp: parent_rel_def intro: rtrancl_into_trancl2 dest: tranclD)
  with w m(2) r show "has_ancestor t p (room_parent (t_rooms t ! i)) = Some ((i, p) \<in> (parent_rel t)\<^sup>+)" by simp
  show "i \<in> Wellfounded.acc ((parent_rel t)\<inverse>)"
    by (rule acc.intros) (use w m(2) r in \<open>auto simp: parent_rel_def\<close>)
qed

lemma parents_acyclic:
  assumes "chains_end t"
  shows "acyclic (parent_rel t)"
proof -
  have acc: "i \<in> Wellfounded.acc ((parent_rel t)\<inverse>)" for i
  proof (cases "i < length (t_rooms t)")
    case True
    then show ?thesis by (rule chains_end_walk(2) [OF assms])
  next
    case False
    have "j \<notin> Collect (\<lambda>j. (j, i) \<in> (parent_rel t)\<inverse>)" for j using False by (simp add: parent_rel_def)
    then show ?thesis by (blast intro: acc.intros)
  qed
  have "wf ((parent_rel t)\<inverse>)" by (rule acc_wfI) (rule allI, rule acc)
  from wf_acyclic [OF this] show ?thesis by (simp only: acyclic_converse)
qed

lemma descendants_for_safe:
  assumes "chains_end t" and "length (t_room_has_bindings t) = length (t_rooms t)"
  shows "\<exists>ds. descendants_for t p = Some ds \<and> distinct ds \<and>
     set ds = {j. j < length (t_rooms t) \<and> (j, p) \<in> (parent_rel t)\<^sup>+ \<and> room_has_rules t j = Some True}"
proof -
  define g where "g = (\<lambda>(j, r :: resolved_room). room_has_rules t j = Some True \<and> (j, p) \<in> (parent_rel t)\<^sup>+)"
  have in_t: "j < length (t_rooms t) \<and> t_rooms t ! j = r" if "(j, r) \<in> set (rooms_with_idx t)" for j r
    using that by (auto simp: rooms_with_idx_def in_set_enumerate_eq)
  have "is_descendant t p x = Some (g x)" if "x \<in> set (rooms_with_idx t)" for x
    using that in_t [of "fst x" "snd x"] chains_end_walk(1) [OF assms(1), of "fst x" p] assms(2)
    by (auto simp: is_descendant_def g_def room_has_rules_def index_def split: prod.splits)
  then have f: "filterM (is_descendant t p) (rooms_with_idx t) = Some (filter g (rooms_with_idx t))"
    by (rule filterM_Some_filter)
  let ?found = "filter g (rooms_with_idx t)"
  have m: "mapM (\<lambda>(i, _). do { r \<leftarrow> room t i; Some (room_name r, i) }) ?found =
      Some (map (\<lambda>(i, _). (room_name (t_rooms t ! i), i)) ?found)"
    by (rule mapM_Some_map) (auto simp: room_def index_def dest: in_t)
  let ?ds = "map snd (sort_key fst (map (\<lambda>(i, _). (room_name (t_rooms t ! i), i)) ?found))"
  have "descendants_for t p = Some ?ds" using f m by (simp add: descendants_for_def)
  moreover have "set ?ds = fst ` set ?found" by (force simp: image_image)
  moreover have "fst ` set ?found = {j. j < length (t_rooms t) \<and> (j, p) \<in> (parent_rel t)\<^sup>+ \<and> room_has_rules t j = Some True}"
    by (force simp: g_def rooms_with_idx_def in_set_enumerate_eq image_iff)
  moreover have "distinct ?ds"
  proof -
    let ?named = "map (\<lambda>(i, _). (room_name (t_rooms t ! i), i)) ?found"
    have "distinct ?ds \<longleftrightarrow> distinct (map snd ?named)" by (simp only: distinct_map distinct_sort set_sort)
    also have "map snd ?named = map fst ?found" by (simp add: case_prod_beta)
    finally have "distinct ?ds \<longleftrightarrow> distinct (map fst ?found)" .
    moreover have "distinct (map fst ?found)"
      using distinct_map_filter [of fst "rooms_with_idx t" g] by (simp add: rooms_with_idx_def distinct_enumerate)
    ultimately show ?thesis by blast
  qed
  ultimately show ?thesis by blast
qed

end
