(* ===== verification/BuilderHeating.thy ===== *)
theory BuilderHeating
  imports BuilderStages
begin

text \<open>
  What \<open>validate_heating_config\<close> establishes (\<open>src/crates/mqtt-controller/src/topology/build.rs\<close>): zones
  and relays that are not shared, valves that belong to one zone with a schedule that exists, and
  pressure groups of at least two valves of one zone that share no valve.
\<close>

abbreviation zone_devices :: "heating_zone_config \<Rightarrow> string list" where
  "zone_devices z \<equiv> map zt_device (zone_trvs z)"

definition zone_checked :: "config \<Rightarrow> device_info list \<Rightarrow> heating_config \<Rightarrow> heating_zone_config \<Rightarrow> bool" where
  "zone_checked c ds h z =
     (zone_trvs z \<noteq> [] \<and> zone_relay z \<in> set (names_of ds KWallThermostat) \<and>
      set (zone_devices z) \<subseteq> set (names_of ds KTrv) \<and>
      (\<forall>zt \<in> set (zone_trvs z). bt_contains_key (hc_schedules h) (zt_schedule zt)))"

definition group_checked :: "heating_config \<Rightarrow> pressure_group \<Rightarrow> bool" where
  "group_checked h g = (2 \<le> length (pg_trvs g) \<and> (\<exists>z \<in> set (hc_zones h). set (pg_trvs g) \<subseteq> set (zone_devices z)))"

definition heating_checked :: "config \<Rightarrow> device_info list \<Rightarrow> heating_config \<Rightarrow> bool" where
  "heating_checked c ds h =
     (validate_schedules h = Inr () \<and>
      distinct (map zone_name (hc_zones h)) \<and> distinct (map zone_relay (hc_zones h)) \<and>
      distinct (concat (map zone_devices (hc_zones h))) \<and>
      list_all (zone_checked c ds h) (hc_zones h) \<and>
      list_all (group_checked h) (hc_pressure_groups h) \<and>
      distinct (concat (map pg_trvs (hc_pressure_groups h))))"

section \<open>Zones\<close>

text \<open>The map from valves to zones after some zones, and after some valves of the next one.\<close>

definition zones_mapped :: "heating_zone_config list \<Rightarrow> (string, string) btree_map \<Rightarrow> bool" where
  "zones_mapped zs m =
     (\<forall>d n. bt_get m d = Some n \<longleftrightarrow> (\<exists>z \<in> set zs. zone_name z = n \<and> d \<in> set (zone_devices z)))"

lemma check_trv_total: "wpr (check_trv c zone dev) (\<lambda>_. True)"
  by (simp add: check_trv_def Let_def split: option.split)

lemma check_relay_total: "wpr (check_relay c zone dev) (\<lambda>_. True)"
  by (simp add: check_relay_def Let_def split: option.split)

definition trvs_inv ::
  "device_info list \<Rightarrow> heating_config \<Rightarrow> string \<Rightarrow> (string, string) btree_map \<Rightarrow> zone_trv list \<Rightarrow>
   (string, string) btree_map \<Rightarrow> bool" where
  "trvs_inv ds h n m0 ys m =
     ((\<forall>d k. bt_get m d = Some k \<longleftrightarrow> bt_get m0 d = Some k \<or> k = n \<and> d \<in> zt_device ` set ys) \<and>
      distinct (map zt_device ys) \<and>
      (\<forall>zt \<in> set ys. bt_get m0 (zt_device zt) = None \<and> zt_device zt \<in> set (names_of ds KTrv) \<and>
         bt_contains_key (hc_schedules h) (zt_schedule zt)))"

lemma zone_trvs_safe: "wpr (foldE (check_zone_trv c ds h n) zts m0) (trvs_inv ds h n m0 zts)"
proof (rule wpr_foldE_prefix)
  show "trvs_inv ds h n m0 [] m0" by (simp add: trvs_inv_def)
next
  fix ys :: "zone_trv list" and x :: zone_trv and zs m
  assume inv: "trvs_inv ds h n m0 ys m"
  have "trvs_inv ds h n m0 (ys @ [x]) (bt_insert (zt_device x) n m)"
    if "zt_device x \<in> set (names_of ds KTrv)" "bt_contains_key (hc_schedules h) (zt_schedule x)" "bt_get m (zt_device x) = None"
  proof -
    have new: "bt_get m0 (zt_device x) = None" "zt_device x \<notin> zt_device ` set ys"
      using inv that(3) unfolding trvs_inv_def by (metis option.exhaust option.distinct(1))+
    show ?thesis using inv that new unfolding trvs_inv_def by auto
  qed
  then show "wpr (check_zone_trv c ds h n x m) (trvs_inv ds h n m0 (ys @ [x]))"
    unfolding check_zone_trv_def by (auto intro!: wpr_mono [OF check_trv_total])
qed

definition zones_inv ::
  "config \<Rightarrow> device_info list \<Rightarrow> heating_config \<Rightarrow> heating_zone_config list \<Rightarrow> zone_state \<Rightarrow> bool" where
  "zones_inv c ds h ys st =
     (case st of (tz, rz, names) \<Rightarrow>
        set names = zone_name ` set ys \<and> distinct (map zone_name ys) \<and> zones_mapped ys tz \<and>
        (\<forall>k. bt_get rz k = None \<longleftrightarrow> k \<notin> zone_relay ` set ys) \<and> distinct (map zone_relay ys) \<and>
        distinct (concat (map zone_devices ys)) \<and> list_all (zone_checked c ds h) ys)"

lemma zones_inv_add:
  assumes "zones_inv c ds h ys (tz, rz, names)" and "zone_name z \<notin> set names" and "zone_trvs z \<noteq> []"
    and "zone_relay z \<in> set (names_of ds KWallThermostat)" and "bt_get rz (zone_relay z) = None"
    and "trvs_inv ds h (zone_name z) tz (zone_trvs z) tz'"
  shows "zones_inv c ds h (ys @ [z]) (tz', bt_insert (zone_relay z) (zone_name z) rz, bs_insert (zone_name z) names)"
proof -
  have mapped: "zones_mapped ys tz" using assms(1) by (simp add: zones_inv_def)
  have t: "\<forall>d k. bt_get tz' d = Some k \<longleftrightarrow> bt_get tz d = Some k \<or> k = zone_name z \<and> d \<in> set (zone_devices z)"
    "distinct (zone_devices z)" "\<forall>zt \<in> set (zone_trvs z). bt_get tz (zt_device zt) = None"
    using assms(6) by (simp_all add: trvs_inv_def)
  have "zones_mapped (ys @ [z]) tz'" unfolding zones_mapped_def
  proof (intro allI)
    fix d n
    show "bt_get tz' d = Some n \<longleftrightarrow> (\<exists>z' \<in> set (ys @ [z]). zone_name z' = n \<and> d \<in> set (zone_devices z'))"
      using t(1) mapped unfolding zones_mapped_def by auto
  qed
  moreover have "set (zone_devices z) \<inter> set (concat (map zone_devices ys)) = {}"
  proof -
    have "bt_get tz d \<noteq> None" if "d \<in> set (concat (map zone_devices ys))" for d
    proof -
      obtain y where "y \<in> set ys" "d \<in> set (zone_devices y)" using \<open>d \<in> set (concat _)\<close> by auto
      then have "bt_get tz d = Some (zone_name y)" using mapped unfolding zones_mapped_def by blast
      then show ?thesis by simp
    qed
    moreover have "bt_get tz d = None" if "d \<in> set (zone_devices z)" for d
      using t(3) \<open>d \<in> set (zone_devices z)\<close> by auto
    ultimately show ?thesis by blast
  qed
  moreover have "zone_checked c ds h z" using assms(3,4,6) by (auto simp: zone_checked_def trvs_inv_def)
  moreover have "zone_relay z \<notin> zone_relay ` set ys" using assms(1,5) by (simp add: zones_inv_def)
  ultimately show ?thesis
    using assms(1,2) t(2) by (auto simp: zones_inv_def)
qed

lemma zones_safe: "wpr (foldE (check_zone c ds h) zs ([], [], [])) (zones_inv c ds h zs)"
proof (rule wpr_foldE_prefix)
  show "zones_inv c ds h [] ([], [], [])" by (simp add: zones_inv_def zones_mapped_def)
next
  fix ys :: "heating_zone_config list" and z :: heating_zone_config and rest st
  assume inv: "zones_inv c ds h ys st"
  obtain tz rz names where st: "st = (tz, rz, names)" by (cases st)
  show "wpr (check_zone c ds h z st) (zones_inv c ds h (ys @ [z]))"
    unfolding check_zone_def st prod.case wpr_andthen wpr_ensure wpr_insert_new
  proof (intro impI, rule wpr_mono [OF check_relay_total], rule impI, rule wpr_mono [OF zone_trvs_safe])
    fix tz'
    assume "\<not> bs_contains names (zone_name z)" "zone_trvs z \<noteq> []"
      "bs_contains (names_of ds KWallThermostat) (zone_relay z)" "bt_get rz (zone_relay z) = None"
      "trvs_inv ds h (zone_name z) tz (zone_trvs z) tz'"
    then show "wpr (Some (Inr (tz', bt_insert (zone_relay z) (zone_name z) rz, bs_insert (zone_name z) names))) (zones_inv c ds h (ys @ [z]))"
      using zones_inv_add inv [unfolded st] by simp
  qed
qed

section \<open>Pressure groups\<close>

definition members_inv ::
  "(string, string) btree_map \<Rightarrow> (string, string) btree_map \<Rightarrow> string list \<Rightarrow>
   string option \<times> (string, string) btree_map \<Rightarrow> bool" where
  "members_inv tz m0 ys st =
     (case st of (zone, m) \<Rightarrow>
        (\<forall>d. bt_get m d \<noteq> None \<longleftrightarrow> bt_get m0 d \<noteq> None \<or> d \<in> set ys) \<and> distinct ys \<and>
        (\<forall>d \<in> set ys. bt_get m0 d = None \<and> zone \<noteq> None \<and> bt_get tz d = zone))"

lemma group_members_safe: "wpr (foldE (check_group_member tz gn) trvs (None, m0)) (members_inv tz m0 trvs)"
proof (rule wpr_foldE_prefix)
  show "members_inv tz m0 [] (None, m0)" by (simp add: members_inv_def)
next
  fix ys d zs st
  assume inv: "members_inv tz m0 ys st"
  obtain zone m where st: "st = (zone, m)" by (cases st)
  have "members_inv tz m0 (ys @ [d]) (Some n, bt_insert d gn m)"
    if "bt_get tz d = Some n" "zone = None \<or> zone = Some n" "bt_get m d = None" for n
  proof -
    have new: "bt_get m0 d = None" "d \<notin> set ys" using inv that(3) unfolding members_inv_def st prod.case by metis+
    have "bt_get tz d' = Some n" if "d' \<in> set ys" for d'
      using inv that \<open>zone = None \<or> zone = Some n\<close> by (auto simp: members_inv_def st)
    then show ?thesis using inv that(1) new by (auto simp: members_inv_def st)
  qed
  then show "wpr (check_group_member tz gn d st) (members_inv tz m0 (ys @ [d]))"
    unfolding check_group_member_def st by (auto split: option.split)
qed

definition groups_inv ::
  "(string, string) btree_map \<Rightarrow> pressure_group list \<Rightarrow> (string, string) btree_map \<Rightarrow> bool" where
  "groups_inv tz ys m =
     ((\<forall>d. bt_get m d \<noteq> None \<longleftrightarrow> d \<in> set (concat (map pg_trvs ys))) \<and> distinct (concat (map pg_trvs ys)) \<and>
      (\<forall>g \<in> set ys. 2 \<le> length (pg_trvs g) \<and> (\<exists>n. \<forall>d \<in> set (pg_trvs g). bt_get tz d = Some n)))"

lemma groups_safe: "wpr (foldE (check_pressure_group tz) gs []) (groups_inv tz gs)"
proof (rule wpr_foldE_prefix)
  show "groups_inv tz [] []" by (simp add: groups_inv_def)
next
  fix ys :: "pressure_group list" and g :: pressure_group and zs m
  assume inv: "groups_inv tz ys m"
  have "groups_inv tz (ys @ [g]) (snd st)" if "2 \<le> length (pg_trvs g)" "members_inv tz m (pg_trvs g) st" for st
  proof -
    obtain zone m' where st: "st = (zone, m')" by (cases st)
    have fresh: "\<forall>d \<in> set (pg_trvs g). bt_get m d = None" using that(2) by (simp add: members_inv_def st)
    have "set (concat (map pg_trvs ys)) \<inter> set (pg_trvs g) = {}"
    proof -
      have "d \<notin> set (concat (map pg_trvs ys))" if "d \<in> set (pg_trvs g)" for d
        using inv fresh that unfolding groups_inv_def by metis
      then show ?thesis by blast
    qed
    moreover have "\<exists>n. \<forall>d \<in> set (pg_trvs g). bt_get tz d = Some n"
      using that(2) by (cases zone) (auto simp: members_inv_def st)
    moreover have "(bt_get m' d \<noteq> None) = (d \<in> set (concat (map pg_trvs (ys @ [g]))))" for d
      using inv that(2) unfolding groups_inv_def members_inv_def st by simp
    ultimately show ?thesis
      using inv that unfolding groups_inv_def st by (auto simp: members_inv_def)
  qed
  then show "wpr (check_pressure_group tz g m) (groups_inv tz (ys @ [g]))"
    unfolding check_pressure_group_def wpr_andthen by (auto intro!: wpr_mono [OF group_members_safe])
qed

section \<open>The whole check\<close>

text \<open>Members of a group are in zones of one name, and zone names are not shared.\<close>

lemma groups_checked:
  assumes "zones_mapped (hc_zones h) tz" and "distinct (map zone_name (hc_zones h))"
    and "groups_inv tz (hc_pressure_groups h) m"
  shows "list_all (group_checked h) (hc_pressure_groups h)"
  unfolding list_all_iff
proof (intro ballI)
  fix g assume "g \<in> set (hc_pressure_groups h)"
  then obtain n where g: "2 \<le> length (pg_trvs g)" "\<forall>d \<in> set (pg_trvs g). bt_get tz d = Some n"
    using assms(3) unfolding groups_inv_def by blast
  have at: "\<exists>z \<in> set (hc_zones h). zone_name z = n \<and> d \<in> set (zone_devices z)" if "d \<in> set (pg_trvs g)" for d
    using g(2) that assms(1) unfolding zones_mapped_def by blast
  have "pg_trvs g \<noteq> []" using g(1) by auto
  then obtain z where z: "z \<in> set (hc_zones h)" "zone_name z = n" using at [of "hd (pg_trvs g)"] by auto
  have "d \<in> set (zone_devices z)" if "d \<in> set (pg_trvs g)" for d
    using at [OF that] z assms(2) by (auto simp: distinct_map dest: inj_onD)
  then show "group_checked h g" using g(1) z(1) unfolding group_checked_def by blast
qed

lemma check_heating_safe: "wpr (check_heating c ds h) (\<lambda>_. heating_checked c ds h)"
proof -
  have groups: "wpr (foldE (check_pressure_group tz) (hc_pressure_groups h) []) (\<lambda>m. heating_checked c ds h)"
    if "zones_inv c ds h (hc_zones h) (tz, rz, names)" "validate_schedules h = Inr ()" for tz rz names
    by (rule wpr_mono [OF groups_safe])
      (use that groups_checked in \<open>auto simp: heating_checked_def zones_inv_def groups_inv_def\<close>)
  have "wpr (andthen (Some (validate_schedules h))
       (\<lambda>_. andthen (foldE (check_zone c ds h) (hc_zones h) ([], [], []))
       (\<lambda>(tz, _, _). andthen (foldE (check_pressure_group tz) (hc_pressure_groups h) [])
       (\<lambda>_. Some (Inr ()))))) (\<lambda>_. heating_checked c ds h)"
    unfolding wpr_andthen wpr_Some_sum by (auto intro!: wpr_mono [OF zones_safe] wpr_mono [OF groups])
  then show ?thesis unfolding check_heating_def wpr_andthen by (auto split: option.split)
qed

end
