(* ===== verification/Lifecycle.thy ===== *)
theory Lifecycle
  imports Overrides
begin

text \<open>
  The life of the controller: stored settings are restored, retained state is read, and then any
  interleaving of events, clock readings, dashboard commands and settings changes is processed.
  The step relation \<open>controller_step\<close> has one rule per entry point of \<open>EventProcessor\<close> and of
  \<open>settings.rs\<close> that the daemon calls. Shown: whatever the database holds, restoring it on a
  controller built from a valid configuration establishes the invariant; every reachable state
  satisfies it; and in a reachable state every entry point returns.
\<close>

section \<open>Restoring stored settings\<close>

definition no_cycles :: "world_state \<Rightarrow> bool" where
  "no_cycles w = (\<forall>n z. bt_get (w_light_zones w) n = Some z \<longrightarrow> lz_switch_cycle z = None)"

text \<open>The processor with the room overrides as its only settings.\<close>

definition only_rooms :: "processor \<Rightarrow> processor" where
  "only_rooms q = q\<lparr>p_settings := settings_default\<lparr>room_schedule_overrides := room_schedule_overrides (p_settings q)\<rparr>,
     p_resolved_plug_bindings := [], p_boost_deadlines := []\<rparr>"

lemma validate_same_house:
  assumes "p_topology q = p_topology p" and "p_location q = p_location p"
  shows "validate_room_override q = validate_room_override p"
    and "validate_motion_override q = validate_motion_override p"
    and "validate_timed_action q = validate_timed_action p"
    and "validate_timed_action_time q = validate_timed_action_time p"
    and "validate_plug_override q = validate_plug_override p"
proof -
  have s: "sun_needs_location q = sun_needs_location p" by (intro ext) (simp add: sun_needs_location_def assms)
  have d: "deployed_schedule q = deployed_schedule p"
    by (intro ext, rename_tac ow, case_tac ow) (simp_all add: assms)
  show "validate_room_override q = validate_room_override p"
    by (intro ext) (simp only: validate_room_override_def validate_override_slots_def s assms)
  show "validate_motion_override q = validate_motion_override p"
    by (intro ext) (simp only: validate_motion_override_def s d)
  show "validate_timed_action q = validate_timed_action p"
    by (intro ext) (simp only: validate_timed_action_def assms)
  show t: "validate_timed_action_time q = validate_timed_action_time p"
    by (intro ext) (simp only: validate_timed_action_time_def assms)
  have "plug_action_binding q = plug_action_binding p" by (intro ext) (simp only: plug_action_binding_def t)
  then show "validate_plug_override q = validate_plug_override p"
    by (intro ext) (simp only: validate_plug_override_def validate_plug_def assms)
qed

lemma apply_room_only_rooms: "only_rooms (apply_room_override n v q) = apply_room_override n v (only_rooms q)"
  by (simp add: only_rooms_def apply_room_override_def Let_def upd_settings_def upd_world_def)

lemma no_cycles_forget: "no_cycles w \<Longrightarrow> no_cycles (forget_switch_cycle n w)"
  by (auto simp: no_cycles_def forget_switch_cycle_def split: option.split)

lemma discard_room_safe:
  assumes "proc_ok (only_rooms q)"
  shows "wp (discard_room x q) (\<lambda>q'. proc_ok (only_rooms q'))"
proof -
  obtain n v where x: "x = (n, v)" by (cases x)
  have t: "topology_ok (p_topology (only_rooms q))" using assms by (rule proc_ok_topology)
  have "validate_room_override (only_rooms q) = validate_room_override q"
    by (rule validate_same_house) (simp_all add: only_rooms_def)
  then obtain r where r: "validate_room_override q n v = Some r"
    and ok: "\<And>steps. r = Inr steps \<Longrightarrow> \<exists>i. room_idx_of (p_topology (only_rooms q)) n = Some i \<and>
        room_schedule_ok (only_rooms q) (t_rooms (p_topology (only_rooms q)) ! i) (rso_slots v) \<and>
        steps_ok (p_topology (only_rooms q)) steps"
    using validate_room_override_safe [OF t, of n v] unfolding wpr_def wp_iff by auto
  have "proc_ok (apply_room_override n (Some (v, steps)) (only_rooms q))" if "r = Inr steps" for steps
    by (rule apply_room_override_ok [OF assms]) (use ok [OF that] in auto)
  then show ?thesis
    using assms r by (cases r) (simp_all add: x discard_room_def apply_room_only_rooms)
qed

text \<open>Arming and applying a plug override do not look at the boost deadlines.\<close>

lemma restore_deadlines_fields [simp]:
  "p_topology (restore_boost_deadlines q) = p_topology q" "p_location (restore_boost_deadlines q) = p_location q"
  "p_world (restore_boost_deadlines q) = p_world q" "p_clock (restore_boost_deadlines q) = p_clock q"
  "p_settings (restore_boost_deadlines q) = p_settings q"
  "p_resolved_plug_bindings (restore_boost_deadlines q) = p_resolved_plug_bindings q"
  "upd_world f (restore_boost_deadlines q) = restore_boost_deadlines (upd_world f q)"
  by (simp_all add: restore_boost_deadlines_def upd_world_def)

lemma arm_restore:
  "arm_kill_switch_rules device seed ts (restore_boost_deadlines q) =
   map_option restore_boost_deadlines (arm_kill_switch_rules device seed ts q)"
proof -
  have "power_below_bindings (restore_boost_deadlines q) = power_below_bindings q"
    by (intro ext) (simp only: power_below_bindings_def restore_deadlines_fields)
  then show ?thesis
    by (simp add: arm_kill_switch_rules_def map_option_bind Let_def comp_def split: option.split)
qed

lemma discard_plug_restore:
  "discard_plug x (restore_boost_deadlines q) = map_option restore_boost_deadlines (discard_plug x q)"
proof -
  define h where "h device v q = (upd_settings (\<lambda>s. s\<lparr>plug_schedule_overrides :=
      set_entry device (map_option fst v) (plug_schedule_overrides s)\<rparr>) q)
    \<lparr>p_resolved_plug_bindings := set_entry device (map_option snd v) (p_resolved_plug_bindings q)\<rparr>"
    for device q and v :: "(plug_schedule_override \<times> resolved_binding list) option"
  have h: "h device v (restore_boost_deadlines q) = restore_boost_deadlines (h device v q)" for device v q
    by (simp add: h_def restore_boost_deadlines_def upd_settings_def)
  have a: "apply_plug_override device v (restore_boost_deadlines q) =
      map_option restore_boost_deadlines (apply_plug_override device v q)" for device v q
    unfolding apply_plug_override_def Let_def h_def [symmetric] h
    by (simp add: arm_restore split: option.split)
  have "validate_plug_override (restore_boost_deadlines q) = validate_plug_override q"
    by (rule validate_same_house) simp_all
  then show ?thesis
    by (cases x; cases "validate_plug_override q (fst x) (snd x)") (simp_all add: discard_plug_def a split: sum.split)
qed

lemma discard_plugs_restore:
  "foldM discard_plug xs (restore_boost_deadlines q) = map_option restore_boost_deadlines (foldM discard_plug xs q)"
proof (induction xs arbitrary: q)
  case (Cons x xs)
  show ?case by (cases "discard_plug x q") (simp_all add: discard_plug_restore Cons.IH)
qed simp

lemma discard_plugs_safe:
  assumes "proc_ok q"
  shows "wp (foldM discard_plug xs q) proc_ok"
proof (rule wp_foldM)
  fix x q assume q: "proc_ok q"
  show "wp (discard_plug x q) proc_ok"
  proof (cases x)
    case (Pair device v)
    obtain r where r: "validate_plug_override q device v = Some r" "\<And>bs. r = Inr bs \<Longrightarrow> list_all (plug_binding_ok q) bs"
      using validate_plug_override_safe [OF proc_ok_topology [OF q], of device v] unfolding wpr_def wp_iff by blast
    have "wp (apply_plug_override device (Some (v, bs)) q) proc_ok" if "r = Inr bs" for bs
      using apply_plug_override_ok [OF q, of "Some (v, bs)" device] r(2) [OF that] by (auto elim!: wp_mono)
    then show ?thesis using q r(1) by (cases r) (simp_all add: Pair discard_plug_def)
  qed
qed (use assms in simp)

lemma filterM_in: "filterM f xs = Some ys \<Longrightarrow> set ys \<subseteq> {x \<in> set xs. f x = Some True}"
  by (induction xs arbitrary: ys) (auto split: Option.bind_splits if_splits)

lemma accepted_total: "wpr m Q \<Longrightarrow> \<exists>b. accepted m = Some b"
  by (auto simp: accepted_def wpr_def wp_iff)

lemma accepted_True: "accepted m = Some True \<Longrightarrow> wpr m Q \<Longrightarrow> \<exists>x. Q x"
  by (auto simp: accepted_def wpr_def wp_iff isl_def split: sum.splits) (metis sum.exhaust)

text \<open>From the room stage to the processor with all validated overrides but those of plugs.\<close>

lemma overrides_filtered_ok:
  assumes q: "proc_ok (only_rooms q)"
    and rules: "\<And>n sl. (n, sl) \<in> set rules \<Longrightarrow> accepted (validate_motion_override q n sl) = Some True"
    and tms: "\<And>n t. (n, t) \<in> set tms \<Longrightarrow> accepted (validate_timed_action_time q t) = Some True"
    and r: "r = restore_boost_deadlines (q\<lparr>p_settings := (p_settings q)\<lparr>motion_schedule_overrides := rules,
          timed_action_overrides := tms, plug_schedule_overrides := []\<rparr>, p_resolved_plug_bindings := []\<rparr>)"
  shows "proc_ok r"
proof -
  let ?o = "only_rooms q"
  have c: "config_ok ?o" using q by (simp add: proc_ok_def)
  note parts = config_ok_parts [OF c]
  have top: "p_topology ?o = p_topology q" "p_location ?o = p_location q" by (simp_all add: only_rooms_def)
  have "motion_schedule_ok ?o x (motion_slots r x)" if x: "x \<in> set (t_motion_rules (p_topology ?o))" for x
  proof (cases "bt_get rules (mr_name x)")
    case None
    then have "motion_slots r x = ss_slots (mr_scenes x)" by (simp add: motion_slots_def r restore_boost_deadlines_def)
    then show ?thesis using parts(6) [OF x] by simp
  next
    case (Some sl)
    have "accepted (validate_motion_override ?o (mr_name x) sl) = Some True"
      using rules [OF bt_get_in_set [OF Some]] validate_same_house(2) [OF top] by simp
    from accepted_True [OF this validate_motion_override_safe]
    obtain y where "y \<in> set (t_motion_rules (p_topology ?o))" "mr_name y = mr_name x"
      "motion_schedule_ok ?o y (ss_slots (mr_scenes y)) \<longrightarrow> motion_schedule_ok ?o y sl" by blast
    then have "motion_schedule_ok ?o x sl"
      using motion_rule_name_unique [OF parts(9) x] parts(6) [OF x] by metis
    with Some show ?thesis by (simp add: motion_slots_def r restore_boost_deadlines_def)
  qed
  moreover have "room_schedule_ok ?o x (room_slots r x)" if "x \<in> set (t_rooms (p_topology ?o))" for x
    using parts(3) [OF that] by (simp add: room_slots_def r restore_boost_deadlines_def only_rooms_def)
  moreover have "\<not> uses_sun t" if "(n, t) \<in> set tms" "p_location q = None" for n t
    using accepted_True [OF tms [OF that(1)] validate_timed_action_time_safe] that(2) by auto
  then have "times_sun_ok r"
    using parts(2) by (auto simp: times_sun_ok_def r restore_boost_deadlines_def only_rooms_def bt_all_def list_all_iff bt_values_def)
  moreover have "boosts_ok r" unfolding r by (rule boosts_ok_restore)
  ultimately have "config_ok r"
    using parts(7) by (intro config_ok_change [OF c]) (simp_all add: r restore_boost_deadlines_def only_rooms_def)
  moreover have "state_ok r (p_world r)"
    using q state_ok_same [of r ?o] by (simp add: proc_ok_def r restore_boost_deadlines_def only_rooms_def)
  ultimately show ?thesis by (simp add: proc_ok_def)
qed

lemma stripped_ok:
  assumes p: "proc_ok p" and c: "no_cycles (p_world p)"
  shows "proc_ok (only_rooms ((upd_settings (\<lambda>_. s\<lparr>room_schedule_overrides := []\<rparr>) p)\<lparr>p_resolved_switch_steps := []\<rparr>))"
    (is "proc_ok ?q")
proof -
  have cp: "config_ok p" using p by (simp add: proc_ok_def)
  note parts = config_ok_parts [OF cp]
  have "config_ok ?q"
    by (rule config_ok_change [OF cp])
      (use parts in \<open>auto simp: only_rooms_def upd_settings_def settings_default_def boosts_ok_def bt_contains_key_def
        times_sun_ok_def room_slots_def motion_slots_def bt_values_def\<close>)
  moreover have "state_ok ?q (p_world p)"
    using p c by (auto simp: proc_ok_def state_ok_def cycles_ok_def no_cycles_def only_rooms_def)
  ultimately show ?thesis by (simp add: proc_ok_def only_rooms_def)
qed

lemma restore_settings_safe:
  assumes p: "proc_ok p" and c: "no_cycles (p_world p)"
  shows "wp (restore_settings s p) proc_ok"
proof -
  define q0 where "q0 = (upd_settings (\<lambda>_. s\<lparr>room_schedule_overrides := []\<rparr>) p)\<lparr>p_resolved_switch_steps := []\<rparr>"
  have "wp (foldM discard_room (room_schedule_overrides s) q0) (\<lambda>q'. proc_ok (only_rooms q'))"
    by (rule wp_foldM) (use stripped_ok [OF p c, of s] discard_room_safe in \<open>simp_all add: q0_def\<close>)
  then obtain q1 where q1: "foldM discard_room (room_schedule_overrides s) q0 = Some q1" "proc_ok (only_rooms q1)"
    unfolding wp_iff by blast
  have m: "\<exists>b. accepted (validate_motion_override q1 n sl) = Some b" for n sl
    by (rule accepted_total [OF validate_motion_override_safe])
  obtain rules where rules: "filterM (\<lambda>(n, sl). accepted (validate_motion_override q1 n sl)) (motion_schedule_overrides (p_settings q1)) = Some rules"
    using filterM_total [of "motion_schedule_overrides (p_settings q1)" "\<lambda>(n, sl). accepted (validate_motion_override q1 n sl)"] m by auto
  define q2 where "q2 = upd_settings (\<lambda>s. s\<lparr>motion_schedule_overrides := rules\<rparr>) q1"
  let ?time = "\<lambda>(n, t). accepted (andthen (validate_timed_action q2 n) (\<lambda>_. validate_timed_action_time q2 t))"
  have "wpr (andthen (validate_timed_action q2 n) (\<lambda>_. validate_timed_action_time q2 t)) (\<lambda>_. True)" for n t
    using validate_timed_action_total [of q2 n] by (auto simp: wpr_def wp_iff andthen_def validate_timed_action_time_def
        ensure_def split: sum.split)
  from accepted_total [OF this] have "\<exists>b. ?time x = Some b" for x by (cases x) simp
  then obtain tms where tms: "filterM ?time (timed_action_overrides (p_settings q2)) = Some tms"
    using filterM_total [of "timed_action_overrides (p_settings q2)" ?time] by blast
  define q3 where "q3 = (upd_settings (\<lambda>s. s\<lparr>timed_action_overrides := tms, plug_schedule_overrides := []\<rparr>) q2)\<lparr>p_resolved_plug_bindings := []\<rparr>"
  have t2: "validate_timed_action_time q2 = validate_timed_action_time q1" by (rule validate_same_house) (simp_all add: q2_def)
  have "accepted (validate_timed_action_time q1 t) = Some True" if "(n, t) \<in> set tms" for n t
  proof -
    have "?time (n, t) = Some True" using filterM_in [OF tms] that by blast
    then show ?thesis by (auto simp: t2 accepted_def andthen_def split: option.splits sum.splits)
  qed
  moreover have "accepted (validate_motion_override q1 n sl) = Some True" if "(n, sl) \<in> set rules" for n sl
    using filterM_in [OF rules] that by auto
  ultimately have ok: "proc_ok (restore_boost_deadlines q3)"
    by (intro overrides_filtered_ok [OF q1(2)]) (auto simp: q3_def q2_def upd_settings_def)
  let ?plugs = "plug_schedule_overrides (p_settings (upd_settings (\<lambda>s. s\<lparr>timed_action_overrides := tms\<rparr>) q2))"
  have "wp (map_option restore_boost_deadlines (foldM discard_plug ?plugs q3)) proc_ok"
    using discard_plugs_safe [OF ok, of ?plugs] by (simp add: discard_plugs_restore)
  moreover have "restore_settings s p = map_option restore_boost_deadlines (foldM discard_plug ?plugs q3)"
    using q1(1) rules tms
    by (simp add: restore_settings_def discard_inapplicable_overrides_def q0_def q2_def q3_def upd_settings_def Let_def
        map_conv_bind_option comp_def)
  ultimately show ?thesis by simp
qed

section \<open>Everything the controller does\<close>

lemma proc_ok_clock: "proc_ok (p\<lparr>p_clock := c\<rparr>) = proc_ok p"
proof -
  let ?q = "p\<lparr>p_clock := c\<rparr>"
  have "config_ok ?q = config_ok p"
    by (simp add: config_ok_def room_slots_ok_def motion_slots_ok_def schedule_ok_location [of ?q p] room_slots_def motion_slots_def
        sunrise_ok_def boosts_ok_def times_sun_ok_def)
  then show ?thesis using state_ok_same [of ?q p] by (simp add: proc_ok_def)
qed

datatype input =
    Observe clock
  | Incoming event
  | SwitchOffUnoccupied instant
  | ArmActivePlugs instant
  | RetainedZone string bool instant
  | RetainedPlug string bool "f64 option" instant
  | RecallScene string u8 instant
  | RoomOff string instant
  | PlugPower string bool instant
  | MotionEnabled string bool instant
  | HeatDemandEnabled string bool
  | ValveBoostChange string boost_change
  | ValveScheduleChange string "(string + temperature_schedule) option"
  | RoomScheduleChange string "room_schedule_plan option"
  | MotionScheduleChange string "slot_plan list option"
  | TimedActionChange string "string option"
  | PlugScheduleChange string "plug_schedule_plan option"

text \<open>The outcome of a settings change is reported to the dashboard and publishes nothing.\<close>

definition silently :: "('r \<times> processor) option \<Rightarrow> (eff list \<times> processor) option" where
  "silently m = map_option (\<lambda>(_, p'). ([], p')) m"

fun on_input :: "settings_repository \<Rightarrow> input \<Rightarrow> handler" where
  "on_input repo (Observe c) = (\<lambda>p. Some ([], p\<lparr>p_clock := c\<rparr>))"
| "on_input repo (Incoming ev) = handle_event ev"
| "on_input repo (SwitchOffUnoccupied ts) = startup_turn_off_motion_zones ts"
| "on_input repo (ArmActivePlugs ts) = (\<lambda>p. map_option (Pair []) (arm_kill_switches_for_active_plugs ts p))"
| "on_input repo (RetainedZone n on ts) = (\<lambda>p. Some ([], set_zone_actual n on ts p))"
| "on_input repo (RetainedPlug d on w ts) = (\<lambda>p. Some ([], set_plug_actual d on w ts p))"
| "on_input repo (RecallScene n i ts) = web_recall_scene n i ts"
| "on_input repo (RoomOff n ts) = web_set_room_off n ts"
| "on_input repo (PlugPower d on ts) = web_set_plug_power d on ts"
| "on_input repo (MotionEnabled n en ts) = (\<lambda>p. silently (change_motion_enabled repo n en ts p))"
| "on_input repo (HeatDemandEnabled d en) = (\<lambda>p. silently (change_heat_demand_enabled repo d en p))"
| "on_input repo (ValveBoostChange d b) = (\<lambda>p. silently (change_valve_boost repo d b p))"
| "on_input repo (ValveScheduleChange d v) = (\<lambda>p. silently (change_valve_schedule repo d v p))"
| "on_input repo (RoomScheduleChange n v) = (\<lambda>p. silently (change_room_schedule repo n v p))"
| "on_input repo (MotionScheduleChange n v) = (\<lambda>p. silently (change_motion_schedule repo n v p))"
| "on_input repo (TimedActionChange n v) = (\<lambda>p. silently (change_timed_action_time repo n v p))"
| "on_input repo (PlugScheduleChange d v) = (\<lambda>p. silently (change_plug_schedule repo d v p))"

text \<open>The contract every entry point meets: the invariant is kept, the topology is the same, and all
  effects can be published.\<close>

definition serves :: "handler \<Rightarrow> bool" where
  "serves h = (\<forall>p. proc_ok p \<longrightarrow>
     wp (h p) (\<lambda>(effs, p'). list_all (eff_ok (p_topology p)) effs \<and> proc_ok p' \<and> p_topology p' = p_topology p))"

lemma serves_safe: "safe h \<Longrightarrow> serves h"
  unfolding serves_def safe_def safe_at_def by (auto elim!: wp_mono dest: stays_proc_ok stays_topology)

lemma serves_change:
  assumes "\<And>p. proc_ok p \<Longrightarrow> change_ok p (m p)"
  shows "serves (\<lambda>p. silently (m p))"
  unfolding serves_def
proof (intro allI impI)
  fix p assume "proc_ok p"
  then obtain r p' where "m p = Some (r, p')" "proc_ok p'" "p_topology p' = p_topology p"
    using assms(1) [of p] unfolding change_ok_def wp_iff by auto
  then show "wp (silently (m p)) (\<lambda>(effs, p'). list_all (eff_ok (p_topology p)) effs \<and> proc_ok p' \<and> p_topology p' = p_topology p)"
    by (simp add: silently_def)
qed

lemma serves_keep: "(\<And>p. proc_ok p \<Longrightarrow> stays p (f p)) \<Longrightarrow> serves (\<lambda>p. Some ([], f p))"
  by (auto simp: serves_def dest: stays_proc_ok stays_topology)

lemma arm_active_safe: "proc_ok p \<Longrightarrow> wp (arm_kill_switches_for_active_plugs ts p) (stays p)"
proof -
  assume p: "proc_ok p"
  have "wp (arm_kill_switch_rules d w ts q) (stays p)" if "stays p q" for d w q
    using arm_kill_switch_safe [OF stays_proc_ok [OF p that]] by (rule wp_mono) (rule stays_trans [OF that])
  then have "wp (foldM (\<lambda>(d, w). arm_kill_switch_rules d w ts) xs p) (stays p)" for xs
    by (intro wp_foldM) (auto simp: stays_refl [OF p])
  then show ?thesis by (simp add: arm_kill_switches_for_active_plugs_def)
qed

lemma on_input_serves: "serves (on_input repo i)"
proof (cases i)
  case (Observe c)
  then show ?thesis by (auto simp: serves_def proc_ok_clock)
next
  case (ArmActivePlugs ts)
  show ?thesis
    using arm_active_safe [of _ ts]
    unfolding ArmActivePlugs on_input.simps serves_def wp_iff by (fastforce dest: stays_proc_ok stays_topology)
next
  case (RetainedZone n on ts)
  then show ?thesis by (simp add: serves_keep set_zone_actual_stays stays_refl)
next
  case (RetainedPlug d on w ts)
  have "stays p (set_plug_actual d on w ts p)" if "proc_ok p" for p
    using that proc_ok_plug [OF that, of d]
    by (auto simp: set_plug_actual_def intro!: stays_upd_world state_ok_store plug_observe_ok proc_ok_state)
  with RetainedPlug show ?thesis by (simp add: serves_keep)
qed (simp_all add: serves_safe handle_event_safe startup_turn_off_motion_zones_safe web_recall_scene_safe
    web_set_room_off_safe web_set_plug_power_safe serves_change change_motion_enabled_ok change_heat_demand_enabled_ok
    change_valve_boost_ok change_valve_schedule_ok change_room_schedule_ok change_motion_schedule_ok
    change_timed_action_time_ok change_plug_schedule_ok)

section \<open>Traces\<close>

primrec run :: "('i \<Rightarrow> 's \<Rightarrow> ('o list \<times> 's) option) \<Rightarrow> 'i list \<Rightarrow> 's \<Rightarrow> ('o list \<times> 's) option" where
  "run step [] s = Some ([], s)"
| "run step (i # is) s = do { (out1, s1) \<leftarrow> step i s; (out2, s2) \<leftarrow> run step is s1; Some (out1 @ out2, s2) }"

text \<open>The interface of a machine that answers every input in every good state, and whose outputs fit
  the part of the state it never changes.\<close>

locale serving_machine =
  fixes step :: "'i \<Rightarrow> 's \<Rightarrow> ('o list \<times> 's) option" and inv :: "'s \<Rightarrow> bool" and frame :: "'s \<Rightarrow> 'f"
    and out_ok :: "'f \<Rightarrow> 'o \<Rightarrow> bool"
  assumes serve: "inv s \<Longrightarrow> wp (step i s) (\<lambda>(out, s'). list_all (out_ok (frame s)) out \<and> inv s' \<and> frame s' = frame s)"
begin

lemma run_serves:
  "inv s \<Longrightarrow> wp (run step is s) (\<lambda>(out, s'). list_all (out_ok (frame s)) out \<and> inv s' \<and> frame s' = frame s)"
proof (induction "is" arbitrary: s)
  case (Cons i "is")
  obtain o1 s1 where 1: "step i s = Some (o1, s1)" "list_all (out_ok (frame s)) o1" "inv s1" "frame s1 = frame s"
    using serve [OF Cons.prems, of i] unfolding wp_iff by auto
  show ?case
    using 1 Cons.IH [OF 1(3)] by (auto elim!: wp_mono)
qed simp

end

interpretation life: serving_machine "\<lambda>(repo, i). on_input repo i" proc_ok p_topology eff_ok
  by unfold_locales (use on_input_serves in \<open>auto simp: serves_def split: prod.split\<close>)

section \<open>The life of a controller\<close>

text \<open>The states of a controller built for \<open>p\<close>: it restores what the repository holds, then every entry
  point may be called with any argument, and every write may succeed or fail.\<close>

inductive reachable :: "processor \<Rightarrow> processor \<Rightarrow> bool" for p where
  restored: "restore_settings s p = Some q \<Longrightarrow> reachable p q"
| served: "reachable p q \<Longrightarrow> on_input repo i q = Some (effs, r) \<Longrightarrow> reachable p r"

lemma reachable_inv:
  assumes "proc_ok p" and "no_cycles (p_world p)" and "reachable p q"
  shows "proc_ok q"
  using assms(3)
proof (induction rule: reachable.induct)
  case (restored s q)
  then show ?case using restore_settings_safe [OF assms(1,2), of s] by (simp add: wp_iff)
next
  case (served q repo i effs r)
  then show ?case using on_input_serves [of repo i] by (fastforce simp: serves_def wp_iff)
qed

definition test_repository :: settings_repository where
  "test_repository = \<lparr>repo_set_valve_boost = (\<lambda>_ _. Inr ()), repo_set_valve_schedule = (\<lambda>_ _. Inr ()),
     repo_set_room_schedule = (\<lambda>_ _. Inr ()), repo_set_motion_schedule = (\<lambda>_ _. Inl ''disk full''),
     repo_set_timed_action_time = (\<lambda>_ _. Inr ()), repo_set_plug_schedule = (\<lambda>_ _. Inr ()),
     repo_set_motion_enabled = (\<lambda>_ _. Inr ()), repo_set_heat_demand_enabled = (\<lambda>_ _. Inr ())\<rparr>"

lemma home_no_cycles: "no_cycles (p_world home)"
  by (simp add: no_cycles_def home_def processor_new_def world_new_def)

text \<open>
  From a configuration that satisfies the invariant, restoring whatever the database holds succeeds
  and then any sequence of inputs is answered with publishable effects.
\<close>

lemma restored_run_serves:
  assumes "proc_ok p" and "no_cycles (p_world p)"
  shows "\<exists>q. restore_settings s p = Some q \<and>
     (\<exists>effs r. run (\<lambda>(repo, i). on_input repo i) inputs q = Some (effs, r) \<and> proc_ok r \<and>
        (\<forall>e \<in> set effs. \<exists>t. eff_topic (p_topology q) e = Some t))"
proof -
  obtain q where q: "restore_settings s p = Some q" "proc_ok q"
    using restore_settings_safe [OF assms] unfolding wp_iff by blast
  obtain effs r where "run (\<lambda>(repo, i). on_input repo i) inputs q = Some (effs, r)" "proc_ok r"
      "list_all (eff_ok (p_topology q)) effs"
    using life.run_serves [OF q(2), of inputs] unfolding wp_iff by auto
  with q(1) show ?thesis by (auto simp: list_all_iff eff_ok_topic)
qed

text \<open>C9: The invariant holds in every state the controller can reach, whatever was restored and in
  whatever order inputs arrived; in particular every target that is set has an owner and a time,
  every armed motion session names known lights, and a switch cycle always points at a step its
  room has now.\<close>

theorem reachable_invariant:
  assumes "proc_ok p" and "no_cycles (p_world p)" and "reachable p q"
  shows "world_ok (p_world q) \<and> cycles_ok q (w_light_zones (p_world q)) \<and>
    bt_all (\<lambda>_. session_ok (p_topology q)) (w_motion_rules (p_world q)) \<and> boosts_ok q"
  using reachable_inv [OF assms] proc_ok_boosts by (simp add: proc_ok_def state_ok_def)

theorem reachable_invariant_witness:
  "\<exists>q. reachable home q \<and> bt_get (w_plugs (p_world q)) ''kettle'' \<noteq> None \<and> world_ok (p_world q)"
proof -
  obtain q where "restore_settings settings_default home = Some q"
    using restore_settings_safe [OF home_ok home_no_cycles] unfolding wp_iff by blast
  from reachable.restored [OF this]
  have r: "reachable home (set_plug_actual ''kettle'' True (Some 3) 7 q)"
    by (rule reachable.served [where repo = test_repository and i = "RetainedPlug ''kettle'' True (Some 3) 7"]) simp
  from reachable_invariant [OF home_ok home_no_cycles r] r show ?thesis
    by (auto simp: set_plug_actual_def upd_world_def put_plug_def intro!: exI [of _ "set_plug_actual ''kettle'' True (Some 3) 7 q"])
qed



end
