(* ===== verification/Deployment.thy ===== *)
theory Deployment
  imports BuilderMotion BuilderHeating Lifecycle
begin

text \<open>
  From a configuration file to a running controller: \<open>Topology::build\<close> returns for every
  configuration, and what it accepts is a topology the controller runs on for ever without a panic.
\<close>

section \<open>Motion rules and descendants\<close>

lemma chains_end_strip:
  assumes "strip t = strip t0" and "chains_end t0"
  shows "chains_end t"
proof -
  note eqs = strip_eqD [OF assms(1)] and fields = strip_room_fields [OF assms(1)]
  obtain m where m: "parents_follow t0 (bt_get m)"
    "\<forall>r \<in> set (t_rooms t0). parent_chain_cycle m [room_name r] (room_parent r) = None \<and>
        (\<forall>n. room_parent r = Some n \<longrightarrow> bt_get m n \<noteq> None)"
    using assms(2) by (auto simp: chains_end_def)
  have "parents_follow t (bt_get m)"
    using m(1) unfolding parents_follow_def room_idx_of_def eqs(3,11) by (metis fields(2))
  moreover have "parent_chain_cycle m [room_name r] (room_parent r) = None \<and> (\<forall>n. room_parent r = Some n \<longrightarrow> bt_get m n \<noteq> None)"
    if "r \<in> set (t_rooms t)" for r
  proof -
    obtain i where i: "i < length (t_rooms t0)" "r = t_rooms t ! i" using \<open>r \<in> set (t_rooms t)\<close> eqs(11) by (auto simp: in_set_conv_nth)
    then have "t_rooms t0 ! i \<in> set (t_rooms t0)" by simp
    with m(2) show ?thesis by (simp add: i(2) fields(1,2) [OF i(1)])
  qed
  ultimately show ?thesis unfolding chains_end_def by blast
qed

lemma with_descendants_simps [simp]:
  "parent_rel (t\<lparr>t_descendants_by_room := ds\<rparr>) = parent_rel t"
  "room_has_rules (t\<lparr>t_descendants_by_room := ds\<rparr>) = room_has_rules t"
  "endpoint_ok (t\<lparr>t_descendants_by_room := ds\<rparr>) = endpoint_ok t"
  "room_ok (t\<lparr>t_descendants_by_room := ds\<rparr>) = room_ok t"
  "binding_ok (t\<lparr>t_descendants_by_room := ds\<rparr>) = binding_ok t"
  "motion_rule_ok (t\<lparr>t_descendants_by_room := ds\<rparr>) = motion_rule_ok t"
  "names_ok (t\<lparr>t_descendants_by_room := ds\<rparr>) = names_ok t"
  "one_endpoint (t\<lparr>t_descendants_by_room := ds\<rparr>) = one_endpoint t"
proof -
  let ?u = "t\<lparr>t_descendants_by_room := ds\<rparr>"
  show "parent_rel ?u = parent_rel t" by (simp add: parent_rel_def room_idx_of_def)
  show "room_has_rules ?u = room_has_rules t" by (rule ext) (simp add: room_has_rules_def cong: if_cong)
  show e: "endpoint_ok ?u = endpoint_ok t" by (rule ext) (simp add: endpoint_ok_def)
  show "room_ok ?u = room_ok t" by (rule ext) (simp add: room_ok_def e)
  show "binding_ok ?u = binding_ok t" by (rule ext) (simp add: binding_ok_def)
  have m: "motion_target_ok ?u = motion_target_ok t" by (rule ext) (simp add: motion_target_ok_def e)
  show "motion_rule_ok ?u = motion_rule_ok t" by (rule ext) (simp add: motion_rule_ok_def e m)
  show "names_ok ?u = names_ok t" by (simp add: names_ok_def)
  show "one_endpoint ?u = one_endpoint t" by (rule ext) (simp add: one_endpoint_def)
qed

text \<open>Everything the last stage guarantees.\<close>

definition motion_built :: "config \<Rightarrow> topology \<Rightarrow> topology \<Rightarrow> bool" where
  "motion_built c t0 t =
     (topology_shape t \<and> strip (t\<lparr>t_descendants_by_room := []\<rparr>) = strip t0 \<and>
      (\<exists>owners. \<forall>r \<in> set (t_motion_rules t). rule_built c r \<and> owned t owners r) \<and>
      descendants_exact t \<and> acyclic (parent_rel t))"

lemma build_motion_rules_safe:
  assumes "topology_shape t0" and "t_device_by_name t0 = device_index c" and "chains_end t0"
    and "t_motion_rules t0 = []" and "t_descendants_by_room t0 = []"
  shows "wpr (build_motion_rules c t0) (motion_built c t0)"
proof -
  have "wpr (foldE (build_motion_rule c) (conf_motion_rules c) \<lparr>mb_names = [], mb_owners = [], mb_topology = t0\<rparr>) (motion_inv c t0)"
    by (rule wpr_foldE) (use assms(1,4) build_motion_rule_safe [OF assms(1,2)] in \<open>simp_all add: motion_inv_def Let_def\<close>)
  then show ?thesis
    unfolding build_motion_rules_def Let_def wpr_andthen
  proof (rule wpr_mono)
    fix st assume inv: "motion_inv c t0 st"
    define t where "t = mb_topology st"
    have t: "strip t = strip t0" "topology_shape t" "\<forall>r \<in> set (t_motion_rules t). rule_built c r \<and> owned t0 (mb_owners st) r"
      using inv by (simp_all add: motion_inv_def Let_def t_def)
    note chains = chains_end_strip [OF t(1) assms(3)]
    have len: "length (t_room_has_bindings t) = length (t_rooms t)" using t(2) by (simp add: topology_shape_def)
    define D where "D i = the (descendants_for t i)" for i
    have D: "descendants_for t i = Some (D i)" "distinct (D i)"
      "set (D i) = {j. j < length (t_rooms t) \<and> (j, i) \<in> (parent_rel t)\<^sup>+ \<and> room_has_rules t j = Some True}" for i
    proof -
      obtain ds where ds: "descendants_for t i = Some ds" "distinct ds"
          "set ds = {j. j < length (t_rooms t) \<and> (j, i) \<in> (parent_rel t)\<^sup>+ \<and> room_has_rules t j = Some True}"
        using descendants_for_safe [OF chains len, of i] by blast
      have "D i = ds" by (simp add: D_def ds(1))
      with ds show "descendants_for t i = Some (D i)" "distinct (D i)"
          "set (D i) = {j. j < length (t_rooms t) \<and> (j, i) \<in> (parent_rel t)\<^sup>+ \<and> room_has_rules t j = Some True}"
        by (simp_all only:)
    qed
    have none: "t_descendants_by_room t = []" using strip_eqD(5) [OF t(1)] assms(5) by simp
    let ?ds = "map D [0..<length (t_rooms t)]"
    have m: "mapM (descendants_for t) [0..<length (t_rooms t)] = Some ?ds" by (rule mapM_Some_map) (rule D(1))
    let ?u = "t\<lparr>t_descendants_by_room := ?ds\<rparr>"
    have "list_all (list_all (\<lambda>i. i < length (t_rooms t))) ?ds" by (auto simp: list_all_iff D(3))
    then have "topology_shape ?u" using t(2) by (simp add: topology_shape_def)
    moreover have "strip (?u\<lparr>t_descendants_by_room := []\<rparr>) = strip t0"
    proof -
      have "?u\<lparr>t_descendants_by_room := []\<rparr> = t" using none by simp
      with t(1) show ?thesis by (simp only:)
    qed
    moreover have "\<forall>r \<in> set (t_motion_rules ?u). rule_built c r \<and> owned ?u (mb_owners st) r"
      using t(3) one_endpoint_strip [OF t(1)] by (simp add: owned_def)
    moreover have "descendants_exact ?u" by (simp add: descendants_exact_def D)
    moreover have "acyclic (parent_rel ?u)" using parents_acyclic [OF chains] by simp
    ultimately have "motion_built c t0 ?u" unfolding motion_built_def by blast
    then show "wpr (do { ds \<leftarrow> mapM (descendants_for (mb_topology st)) [0..<length (t_rooms (mb_topology st))];
                  Some (Inr ((mb_topology st)\<lparr>t_descendants_by_room := t_descendants_by_room (mb_topology st) @ ds\<rparr>)) }) (motion_built c t0)"
      by (simp add: t_def [symmetric] m none)
  qed
qed

section \<open>The whole pipeline\<close>

text \<open>What is known of a topology built from a configuration.\<close>

definition room_of :: "room_config \<Rightarrow> resolved_room \<Rightarrow> bool" where
  "room_of rc r = (room_name r = rc_name rc \<and> room_parent r = rc_parent rc \<and> room_scenes r = rc_scenes rc)"

definition bindings_built :: "config \<Rightarrow> topology \<Rightarrow> bool" where
  "bindings_built c t =
     (list_all (binding_fits c) (t_bindings t) \<and> distinct (map rb_name (t_bindings t)) \<and>
      (conf_location c = None \<longrightarrow> (\<forall>b \<in> set (t_bindings t). \<forall>e. rb_trigger b = At e \<longrightarrow> \<not> uses_sun e)) \<and>
      bt_all (\<lambda>_. list_all (\<lambda>i. i < length (t_bindings t))) (t_button_binding_index t) \<and>
      bt_all (\<lambda>_. list_all (\<lambda>i. i < length (t_bindings t))) (t_power_below_index t) \<and>
      bt_all (\<lambda>_. list_all (\<lambda>i. is_power_below (t_bindings t ! i))) (t_power_below_index t))"

definition windows_checked :: "config \<Rightarrow> bool" where
  "windows_checked c = (0 \<le> cycle_window_seconds (conf_defaults c) \<and> 0 \<le> double_tap_suppression_seconds (conf_defaults c))"

text \<open>Room names are not shared, every parent is a room, and the walk up from every room ends.\<close>

definition rooms_checked :: "config \<Rightarrow> bool" where
  "rooms_checked c =
     (distinct (map rc_name (conf_rooms c)) \<and>
      (\<forall>r \<in> set (conf_rooms c). \<forall>n. rc_parent r = Some n \<longrightarrow> room_map (conf_rooms c) n \<noteq> None) \<and>
      (\<exists>m. (\<forall>n. bt_get m n = room_map (conf_rooms c) n) \<and>
         (\<forall>r \<in> set (conf_rooms c). parent_chain_cycle m [rc_name r] (rc_parent r) = None)))"

text \<open>Every listed plug is a device, every Z-Wave node names one, and every device is found by its name.\<close>

definition inventory_ok :: "topology \<Rightarrow> bool" where
  "inventory_ok t =
     (bt_all (\<lambda>_ i. i < length (t_devices t)) (t_zwave_node_id_to_device t) \<and>
      (\<forall>i \<in> set (t_plug_devices t). i < length (t_devices t) \<and> di_kind (t_devices t ! i) = KPlug) \<and>
      (\<forall>d \<in> set (t_devices t). device_idx_of t (di_name d) \<noteq> None))"

definition built :: "config \<Rightarrow> topology \<Rightarrow> bool" where
  "built c t =
     (topology_shape t \<and> rooms_checked c \<and> list_all2 room_of (conf_rooms c) (t_rooms t) \<and>
      t_heating_config t = conf_heating c \<and>
      (\<forall>h. conf_heating c = Some h \<longrightarrow> heating_checked c (build_devices c) h) \<and>
      length (t_devices t) = length (conf_devices c) \<and>
      (\<forall>rc \<in> set (conf_rooms c). schedule_valid (rc_scenes rc) \<and>
         (conf_location c = None \<longrightarrow> \<not> uses_sun_expressions (rc_scenes rc))) \<and>
      bindings_built c t \<and> windows_checked c \<and>
      (\<exists>owners. \<forall>r \<in> set (t_motion_rules t). rule_built c r \<and> owned t owners r) \<and>
      descendants_exact t \<and> acyclic (parent_rel t) \<and> inventory_ok t)"

lemma base_topology_fields [simp]:
  "t_rooms (base_topology c hw nodes bs rooms) = rooms"
  "t_room_by_name (base_topology c hw nodes bs rooms) = room_index c"
  "t_room_by_group_name (base_topology c hw nodes bs rooms) = index_by rc_group_name (conf_rooms c)"
  "t_descendants_by_room (base_topology c hw nodes bs rooms) = []"
  "t_room_has_bindings (base_topology c hw nodes bs rooms) = map (\<lambda>i. bs_contains (bs_rooms_bound bs) i) [0..<length rooms]"
  "t_devices (base_topology c hw nodes bs rooms) = build_devices c"
  "t_device_by_name (base_topology c hw nodes bs rooms) = device_index c"
  "t_bindings (base_topology c hw nodes bs rooms) = bs_resolved bs"
  "t_button_binding_index (base_topology c hw nodes bs rooms) = bs_button_index bs"
  "t_power_below_index (base_topology c hw nodes bs rooms) = bs_power_below_index bs"
  "t_motion_index (base_topology c hw nodes bs rooms) = []" "t_motion_rules (base_topology c hw nodes bs rooms) = []"
  "t_motion_rule_index (base_topology c hw nodes bs rooms) = []"
  "t_heating_config (base_topology c hw nodes bs rooms) = conf_heating c"
  by (simp_all add: base_topology_def Let_def)

lemma base_rooms:
  assumes "list_all2 (room_resolved c) (conf_rooms c) rooms" and "i < length rooms"
  shows "room_resolved c (conf_rooms c ! i) (rooms ! i)" and "i < length (conf_rooms c)"
  using assms list_all2_lengthD [OF assms(1)] by (simp_all add: list_all2_conv_all_nth)

lemma base_chains_end:
  assumes "rooms_checked c" and "list_all2 (room_resolved c) (conf_rooms c) rooms"
  shows "chains_end (base_topology c hw nodes bs rooms)"
proof -
  let ?t = "base_topology c hw nodes bs rooms"
  obtain m where m: "\<forall>n. bt_get m n = room_map (conf_rooms c) n"
    "\<forall>r \<in> set (conf_rooms c). parent_chain_cycle m [rc_name r] (rc_parent r) = None"
    and names: "distinct (map rc_name (conf_rooms c))"
    and known: "\<forall>r \<in> set (conf_rooms c). \<forall>n. rc_parent r = Some n \<longrightarrow> room_map (conf_rooms c) n \<noteq> None"
    using assms(1) by (auto simp: rooms_checked_def)
  have "(\<exists>i. room_idx_of ?t n = Some i \<and> i < length (t_rooms ?t) \<and> room_parent (t_rooms ?t ! i) = rc_parent rc) \<and>
      (\<forall>n'. rc_parent rc = Some n' \<longrightarrow> bt_get m n' \<noteq> None)" if "bt_get m n = Some rc" for n rc
  proof -
    have rc: "rc \<in> set (conf_rooms c)" "rc_name rc = n"
      using that m(1) by (auto simp: room_map_def dest!: map_of_SomeD)
    then obtain i where i: "i < length (conf_rooms c)" "conf_rooms c ! i = rc" by (metis in_set_conv_nth)
    have "bt_get (room_index c) n = Some i" using index_by_nth [OF names i(1)] i(2) rc(2) by simp
    moreover have "i < length rooms" using i(1) list_all2_lengthD [OF assms(2)] by simp
    moreover from base_rooms(1) [OF assms(2) this] have "room_parent (rooms ! i) = rc_parent rc" by (simp add: room_resolved_def i(2))
    ultimately show ?thesis using known rc(1) m(1) by (auto simp: room_idx_of_def)
  qed
  then have "parents_follow ?t (bt_get m)" by (auto simp: parents_follow_def)
  moreover have "parent_chain_cycle m [room_name r] (room_parent r) = None \<and> (\<forall>n. room_parent r = Some n \<longrightarrow> bt_get m n \<noteq> None)"
    if "r \<in> set rooms" for r
  proof -
    obtain i where i: "i < length rooms" "rooms ! i = r" using \<open>r \<in> set rooms\<close> by (metis in_set_conv_nth)
    have "conf_rooms c ! i \<in> set (conf_rooms c)" using base_rooms(2) [OF assms(2) i(1)] by simp
    with base_rooms(1) [OF assms(2) i(1)] m known show ?thesis by (simp add: room_resolved_def i(2))
  qed
  ultimately show ?thesis unfolding chains_end_def by auto
qed

lemma base_topology_shape:
  assumes "rooms_checked c" and "list_all2 (room_resolved c) (conf_rooms c) rooms"
  shows "topology_shape (base_topology c hw nodes bs rooms)"
proof -
  let ?t = "base_topology c hw nodes bs rooms"
  have len: "length rooms = length (conf_rooms c)" using list_all2_lengthD [OF assms(2)] by simp
  have names: "distinct (map rc_name (conf_rooms c))" using assms(1) by (simp add: rooms_checked_def)
  have room_names: "map room_name rooms = map rc_name (conf_rooms c)"
    using base_rooms [OF assms(2)] len by (auto intro!: nth_equalityI simp: room_resolved_def)
  have bound: "bt_all (\<lambda>n i. i < length (conf_rooms c) \<and> key (conf_rooms c ! i) = n) (index_by key (conf_rooms c))" for key :: "room_config \<Rightarrow> string"
    by (rule index_by_bound)
  have rooms: "list_all (room_ok ?t) rooms"
    unfolding list_all_length
  proof (intro allI impI)
    fix i assume i: "i < length rooms"
    note r = base_rooms(1) [OF assms(2) this]
    have "list_all (endpoint_ok ?t) ls" if "set ls \<subseteq> set (room_light_members (rooms ! i))" for ls
      using r that by (auto simp: room_resolved_def endpoint_ok_def list_all_iff)
    then show "room_ok ?t (rooms ! i)"
      using r by (auto simp: room_ok_def room_resolved_def step_resolved_def list_all_iff elim!: bt_all_mono)
  qed
  have "bt_all (\<lambda>n i. room_name (rooms ! i) = n) (room_index c)"
    by (rule bt_all_mono [OF bound [of rc_name]]) (use base_rooms(1) [OF assms(2)] len in \<open>auto simp: room_resolved_def\<close>)
  then have "names_ok ?t" using names by (simp add: names_ok_def room_names)
  moreover have "bt_all (\<lambda>_ i. i < length rooms) (index_by key (conf_rooms c))" for key :: "room_config \<Rightarrow> string"
    by (rule bt_all_mono [OF bound]) (simp add: len)
  moreover have "bt_all (\<lambda>_ i. i < length (conf_devices c)) (device_index c)"
    by (rule bt_all_mono [OF index_by_bound]) simp
  ultimately show ?thesis using rooms by (simp add: topology_shape_def)
qed

lemma base_bindings_built:
  assumes "bindings_inv c bs" and "\<not> (bs_needs_location bs \<and> conf_location c = None)"
    and "t_bindings t = bs_resolved bs" and "t_button_binding_index t = bs_button_index bs"
    and "t_power_below_index t = bs_power_below_index bs"
  shows "bindings_built c t"
proof -
  have "bt_all (\<lambda>_. list_all (\<lambda>i. i < length (bs_resolved bs))) (bs_button_index bs)"
    and "bt_all (\<lambda>_. list_all (\<lambda>i. i < length (bs_resolved bs))) (bs_power_below_index bs)"
    and "bt_all (\<lambda>_. list_all (\<lambda>i. is_power_below (bs_resolved bs ! i))) (bs_power_below_index bs)"
    using assms(1) by (auto simp: bindings_inv_def list_all_iff elim!: bt_all_mono)
  then show ?thesis using assms by (auto simp: bindings_built_def bindings_inv_def)
qed

lemma base_inventory_ok:
  assumes "bt_all (\<lambda>_ i. i < length (conf_devices c)) nodes"
  shows "inventory_ok (base_topology c hw nodes bs rooms)"
  using assms index_by_in [of _ di_name "build_devices c"] devices_where_bound
  by (fastforce simp: inventory_ok_def base_topology_def Let_def device_idx_of_def)

lemma strip_inventory:
  assumes "strip t = strip t0"
  shows "inventory_ok t = inventory_ok t0"
proof -
  have "t_zwave_node_id_to_device t = t_zwave_node_id_to_device t0" "t_plug_devices t = t_plug_devices t0"
    using arg_cong [OF assms, of t_zwave_node_id_to_device] arg_cong [OF assms, of t_plug_devices] by (simp_all add: strip_def)
  then show ?thesis by (simp add: inventory_ok_def device_idx_of_def strip_eqD(1,2) [OF assms])
qed

lemma motion_built_built:
  assumes "motion_built c (base_topology c hw nodes bs rooms) t"
    and "list_all2 (room_resolved c) (conf_rooms c) rooms" and "bindings_inv c bs"
    and "\<not> (bs_needs_location bs \<and> conf_location c = None)" and "windows_checked c"
    and "rooms_checked c" and "\<forall>h. conf_heating c = Some h \<longrightarrow> heating_checked c (build_devices c) h"
    and "\<forall>rc \<in> set (conf_rooms c). schedule_valid (rc_scenes rc) \<and>
         (conf_location c = None \<longrightarrow> \<not> uses_sun_expressions (rc_scenes rc))"
    and "bt_all (\<lambda>_ i. i < length (conf_devices c)) nodes"
  shows "built c t"
proof -
  let ?b = "base_topology c hw nodes bs rooms" and ?u = "t\<lparr>t_descendants_by_room := []\<rparr>"
  have s: "strip ?u = strip ?b" using assms(1) by (simp add: motion_built_def)
  note eqs = strip_eqD(1-11) [OF s, simplified] and fields = strip_room_fields [OF s, simplified]
  have "room_of (conf_rooms c ! i) (t_rooms t ! i)" if "i < length rooms" for i
    using base_rooms(1) [OF assms(2) that] fields(1-3) [OF that] by (simp add: room_resolved_def room_of_def)
  then have "list_all2 room_of (conf_rooms c) (t_rooms t)"
    using list_all2_lengthD [OF assms(2)] by (simp add: list_all2_conv_all_nth eqs)
  moreover have "bindings_built c t"
    by (rule base_bindings_built [OF assms(3,4)]) (simp_all add: eqs)
  moreover have "inventory_ok t"
    using strip_inventory [OF s] base_inventory_ok [OF assms(9)] by (simp add: inventory_ok_def device_idx_of_def)
  ultimately show ?thesis
    using assms(1,5-8) unfolding built_def motion_built_def by (simp add: eqs)
qed

lemma build_topology_safe: "wpr (build_topology c) (built c)"
proof -
  let ?rs = "conf_rooms c"
  have parents: "wpr (check_parents m ?rs) (\<lambda>_. rooms_checked c)"
    if m: "distinct (map rc_name ?rs) \<and> (\<forall>n. bt_get m n = room_map ?rs n)" for m
    by (rule wpr_mono [OF check_parents_safe]) (use m in \<open>auto simp: rooms_checked_def\<close>)
  have heating: "wpr (case conf_heating c of None \<Rightarrow> Some (Inr ())
                     | Some h \<Rightarrow> map_err HeatingError (check_heating c (build_devices c) h))
       (\<lambda>_. \<forall>h. conf_heating c = Some h \<longrightarrow> heating_checked c (build_devices c) h)"
    by (auto simp: check_heating_safe split: option.split)
  have last: "wpr (build_motion_rules c (base_topology c hw nodes bs rooms)) (built c)"
    if "rooms_checked c" "list_all2 (room_resolved c) ?rs rooms" "bindings_inv c bs"
      "\<not> (bs_needs_location bs \<and> conf_location c = None)" "windows_checked c"
      "\<forall>h. conf_heating c = Some h \<longrightarrow> heating_checked c (build_devices c) h"
      "\<forall>rc \<in> set ?rs. schedule_valid (rc_scenes rc) \<and> (conf_location c = None \<longrightarrow> \<not> uses_sun_expressions (rc_scenes rc))"
      "bt_all (\<lambda>_ i. i < length (conf_devices c)) nodes"
    for hw nodes bs rooms
  proof (rule wpr_mono [OF build_motion_rules_safe])
    show "topology_shape (base_topology c hw nodes bs rooms)" by (rule base_topology_shape [OF that(1,2)])
    show "chains_end (base_topology c hw nodes bs rooms)" by (rule base_chains_end [OF that(1,2)])
    show "built c t" if "motion_built c (base_topology c hw nodes bs rooms) t" for t
      by (rule motion_built_built [OF that \<open>list_all2 (room_resolved c) ?rs rooms\<close> \<open>bindings_inv c bs\<close>
          \<open>\<not> (bs_needs_location bs \<and> conf_location c = None)\<close> \<open>windows_checked c\<close> \<open>rooms_checked c\<close>
          \<open>\<forall>h. conf_heating c = Some h \<longrightarrow> heating_checked c (build_devices c) h\<close> \<open>\<forall>rc \<in> set ?rs. _\<close>
          \<open>bt_all (\<lambda>_ i. i < length (conf_devices c)) nodes\<close>])
  qed simp_all
  have tail: "wpr (andthen (mapE (build_room (device_index c)) ?rs)
       (\<lambda>rooms. andthen (validate_endpoints rooms)
       (\<lambda>_. andthen (case conf_heating c of None \<Rightarrow> Some (Inr ())
                     | Some h \<Rightarrow> map_err HeatingError (check_heating c (build_devices c) h))
       (\<lambda>_. andthen (ensure (\<not> (bs_needs_location bs \<and> conf_location c = None)) MissingLocationForSunExpressions)
       (\<lambda>_. build_motion_rules c (base_topology c hw nodes bs rooms)))))) (built c)"
    if "rooms_checked c" "bindings_inv c bs" "windows_checked c" "nl \<longrightarrow> bs_needs_location bs"
      "\<forall>rc \<in> set ?rs. schedule_valid (rc_scenes rc) \<and> (\<not> nl \<longrightarrow> \<not> uses_sun_expressions (rc_scenes rc))"
      "\<forall>r \<in> set ?rs. \<forall>m \<in> set (rc_members r). member_known c m"
      "bt_all (\<lambda>_ i. i < length (conf_devices c)) nodes" for bs nl hw nodes
    unfolding wpr_andthen wpr_ensure
  proof (rule wpr_mono [OF build_rooms_safe [OF that(6)]], rule wpr_mono [OF validate_endpoints_total],
      rule wpr_mono [OF heating], rule impI)
    fix rooms assume r: "list_all2 (room_resolved c) ?rs rooms"
      and h: "\<forall>h. conf_heating c = Some h \<longrightarrow> heating_checked c (build_devices c) h"
      and l: "\<not> (bs_needs_location bs \<and> conf_location c = None)"
    show "wpr (build_motion_rules c (base_topology c hw nodes bs rooms)) (built c)"
      by (rule last [OF that(1) r that(2) l that(3) h _ that(7)]) (use that(4,5) l in blast)
  qed
  show ?thesis
    unfolding build_topology_def
    apply (subst wpr_andthen, rule wpr_mono [OF rooms_by_name_ok])
    apply (subst wpr_andthen, rule wpr_mono [OF check_groups_safe])
    apply (subst wpr_andthen, rule wpr_mono [OF check_namespace_safe])
    apply (subst wpr_andthen, rule wpr_mono [OF parents], assumption)
    apply (subst wpr_andthen, rule wpr_mono [OF check_scenes_safe])
    apply (subst wpr_andthen, rule wpr_mono [OF check_timing_safe])
    apply (subst wpr_andthen, rule wpr_mono [OF check_members_safe])
    apply (subst wpr_andthen, rule wpr_mono [OF hw_double_taps_safe])
    apply (subst wpr_andthen, rule wpr_mono [OF zwave_nodes_safe])
    apply (subst wpr_andthen, rule wpr_mono [OF resolve_bindings_safe])
    apply (rule tail)
         prefer 5 apply assumption
        apply (simp_all add: windows_checked_def)
    done
qed

section \<open>A built topology can be run\<close>

text \<open>
  What the builder leaves to the configuration: time spans that a \<open>Duration\<close> can hold (it checks two
  lower bounds only), and coordinates at which the sun rises. Maps are sorted because they are
  \<open>BTreeMap\<close>s.
\<close>

definition deployable :: "config \<Rightarrow> sunrise_crate \<Rightarrow> bool" where
  "deployable c sc =
     (cycle_window_seconds (conf_defaults c) < 2 ^ 64 \<and> double_tap_suppression_seconds (conf_defaults c) < 2 ^ 64 \<and>
      window_ok (soft_double_tap_window_seconds (conf_defaults c)) \<and>
      (\<forall>b \<in> set (conf_bindings c). \<forall>w. config_effect_confirm_off (bc_effect b) = Some w \<longrightarrow> w < 2 ^ 64) \<and>
      (\<forall>rule \<in> set (conf_motion_rules c). bt_ok (ss_slots (mc_scenes rule))) \<and>
      (\<forall>loc date off. conf_location c = Some loc \<longrightarrow> compute_sun_times sc loc date off \<noteq> None))"

lemma built_topology_ok:
  assumes "built c t" and "deployable c sc"
  shows "topology_ok t"
proof -
  have "length (t_rooms t) = length (conf_rooms c)" "length (t_devices t) = length (conf_devices c)"
    using assms(1) by (auto simp: built_def list_all2_lengthD)
  moreover have "list_all (binding_fits c) (t_bindings t)" using assms(1) by (simp add: built_def bindings_built_def)
  ultimately have "list_all (binding_ok t) (t_bindings t)"
    using assms(2) by (fastforce simp: list_all_iff binding_fits_def binding_ok_def deployable_def)
  then show ?thesis using assms(1) by (simp add: topology_ok_shape built_def bindings_built_def)
qed

lemma built_proc_ok:
  assumes "built c t" and "deployable c sc"
  shows "proc_ok (processor_new t clk (conf_defaults c) (conf_location c) sc)" (is "proc_ok ?p")
proof -
  note t = built_topology_ok [OF assms]
  have rooms: "room_slots_ok ?p r" if r: "r \<in> set (t_rooms t)" for r
  proof -
    obtain i where i: "i < length (t_rooms t)" "r = t_rooms t ! i" using r by (auto simp: in_set_conv_nth)
    have l: "list_all2 room_of (conf_rooms c) (t_rooms t)" using assms(1) by (simp add: built_def)
    then have "room_of (conf_rooms c ! i) r" and "conf_rooms c ! i \<in> set (conf_rooms c)"
      using i list_all2_lengthD [OF l] by (simp_all add: list_all2_conv_all_nth)
    then have "room_scenes r = rc_scenes (conf_rooms c ! i)" "schedule_valid (rc_scenes (conf_rooms c ! i))"
        "conf_location c = None \<longrightarrow> \<not> uses_sun_expressions (rc_scenes (conf_rooms c ! i))"
      using assms(1) by (auto simp: built_def room_of_def)
    then show ?thesis
      by (simp add: schedule_ok_defs room_slots_def processor_new_def settings_default_def slots_sun_ok_def schedule_valid_def
          uses_sun_expressions_def list_ex_iff)
  qed
  have rules: "motion_slots_ok ?p r" if r: "r \<in> set (t_motion_rules t)" for r
  proof -
    have b: "rule_built c r" using assms(1) r by (auto simp: built_def)
    then have ok: "bt_ok (ss_slots (mr_scenes r))" using assms(2) by (auto simp: rule_built_def deployable_def)
    have "bt_all (\<lambda>n s. slot_scene_ids s \<noteq> [] \<and> scene_known (mr_scenes r) (hd (slot_scene_ids s)) \<and>
                bt_contains_key (mr_targets_by_slot r) n) (ss_slots (mr_scenes r))"
    proof -
      have "bt_all (\<lambda>_ s. list_all (scene_known (mr_scenes r)) (slot_scene_ids s)) (ss_slots (mr_scenes r))"
        and "bt_all (\<lambda>n s. bt_contains_key (mr_targets_by_slot r) n \<and> slot_scene_ids s \<noteq> []) (ss_slots (mr_scenes r))"
        using b ok by (simp_all add: rule_built_def schedule_valid_def)
      then show ?thesis unfolding bt_all_def list_all_iff using hd_in_set by fastforce
    qed
    then show ?thesis using b
      by (simp add: schedule_ok_defs motion_slots_def processor_new_def settings_default_def slots_sun_ok_def rule_built_def
          uses_sun_expressions_def list_ex_iff)
  qed
  have times: "times_sun_ok ?p"
    using assms(1) by (auto simp: times_sun_ok_def processor_new_def settings_default_def built_def bindings_built_def bt_values_def)
  have power: "is_power_below (t_bindings t ! i)" if i: "i \<in> set (bindings_for_power_below t d)" for i d
  proof -
    obtain v where "bt_get (t_power_below_index t) d = Some v" "i \<in> set v"
      using i by (auto simp: bindings_for_power_below_def split: option.splits dest: sym)
    then show ?thesis using assms(1) unfolding built_def bindings_built_def list_all_iff by (blast dest: bt_all_get)
  qed
  have "state_ok ?p world_new"
    using home_ok by (simp add: proc_ok_def home_def processor_new_def state_ok_def world_new_def cycles_ok_def)
  then show ?thesis
    using t rooms rules times power assms
    by (simp add: proc_ok_def config_ok_def processor_new_def sunrise_ok_def boosts_ok_def settings_default_def bt_contains_key_def
        heating_config_of_def deployable_def window_ok_def built_def windows_checked_def)
qed

section \<open>A small configuration\<close>

text \<open>
  Two nested light groups, a wall switch, a motion sensor, a metered plug and a heating zone; the
  scene schedule follows the sun.
\<close>

definition fields :: "(string, json) btree_map \<Rightarrow> common_fields" where
  "fields opts = \<lparr>cf_ieee_address = ''0x1'', cf_display_name = None, cf_room = None, cf_description = None, cf_options = opts\<rparr>"

definition sun_scenes :: scene_schedule where
  "sun_scenes =
     \<lparr>ss_scenes = [house_scene 1, house_scene 2],
      ss_slots = [(''day'', \<lparr>slot_from = SunRelative Sunrise 0, slot_to = SunRelative Sunset 0, slot_scene_ids = [1, 2]\<rparr>),
                  (''night'', \<lparr>slot_from = SunRelative Sunset 0, slot_to = SunRelative Sunrise 0, slot_scene_ids = [2]\<rparr>)]\<rparr>"

definition cottage_room :: "string \<Rightarrow> u8 \<Rightarrow> string option \<Rightarrow> string list \<Rightarrow> room_config" where
  "cottage_room n i parent members =
     \<lparr>rc_name = n, rc_group_name = n @ ''-group'', rc_room = n, rc_id = i, rc_members = members, rc_parent = parent,
      rc_scenes = sun_scenes, rc_switch_steps = [], rc_off_transition_seconds = 1\<rparr>"

definition cottage_rule :: motion_rule_config where
  "cottage_rule =
     \<lparr>mc_name = ''hall-motion'', mc_sensors = [''pir''], mc_mode = OnOff, mc_scenes = sun_scenes,
      mc_targets_by_slot = [(''day'', TargetGroup ''hall''), (''night'', TargetLights [''lamp-a/11''])],
      mc_off_transition_seconds = 1, mc_off_cooldown_seconds = 30, mc_max_illuminance = None\<rparr>"

definition cottage :: config where
  "cottage =
     \<lparr>conf_devices =
        [(''kettle'', PlugEntry (fields []) ''sonoff'' [''power''] False Zigbee None),
         (''lamp-a'', LightEntry (fields [])), (''lamp-b'', LightEntry (fields [])),
         (''pir'', MotionSensorEntry (fields []) 60), (''switch'', SwitchEntry (fields []) ''dimmer''),
         (''trv'', TrvEntry (fields [(''operating_mode'', JString ''manual'')]) TRV_VARIANT_BOSCH_BTH_RA),
         (''wt'', WallThermostatEntry (fields [(''heater_type'', JString ''manual_control''), (''operating_mode'', JString ''manual'')]))],
      conf_switch_models = [(''dimmer'', \<lparr>sm_buttons = [''on'', ''off''],
         sm_z2m_action_map = [(''on_press'', \<lparr>am_button = ''on'', am_gesture = Press\<rparr>),
                              (''on_double'', \<lparr>am_button = ''on'', am_gesture = DoubleTap\<rparr>)]\<rparr>)],
      conf_rooms = [cottage_room ''downstairs'' 1 None [''lamp-a/11'', ''lamp-b/11''],
                    cottage_room ''hall'' 2 (Some ''downstairs'') [''lamp-a/11'']],
      conf_motion_rules = [cottage_rule],
      conf_bindings = [\<lparr>bc_name = ''hall-on'', bc_trigger = TriggerButton ''switch'' ''on'' Press, bc_effect = CSceneToggleCycle ''hall''\<rparr>,
                       \<lparr>bc_name = ''kettle-idle'', bc_trigger = TriggerPowerBelow ''kettle'' 2 60, bc_effect = CTurnOff ''kettle''\<rparr>],
      conf_defaults = defaults_default,
      conf_heating = Some \<lparr>hc_energy_meter = None,
         hc_zones = [\<lparr>zone_name = ''ground'', zone_relay = ''wt'', zone_trvs = [\<lparr>zt_device = ''trv'', zt_schedule = ''flat''\<rparr>]\<rparr>],
         hc_schedules = [(''flat'', flat_schedule 21)], hc_pressure_groups = [],
         hc_heat_pump = \<lparr>min_cycle_seconds = 300, min_pause_seconds = 600, min_demand_percent = 5, min_demand_percent_fallback = 80\<rparr>,
         hc_open_window = \<lparr>detection_minutes = 20, inhibit_minutes = 60\<rparr>\<rparr>,
      conf_location = Some \<lparr>loc_latitude = 53, loc_longitude = -6\<rparr>\<rparr>"

definition equinox :: sunrise_crate where
  "equinox = \<lparr>sc_coordinates_valid = (\<lambda>_ _. True), sc_event_time = (\<lambda>_ _ _ ev. Some (if ev = Sunrise then (6, 0) else (18, 0)))\<rparr>"

lemma cottage_builds:
  "\<exists>t. build_topology cottage = Some (Inr t) \<and> t_descendants_by_room t = [[1], []] \<and>
     map mr_lights (t_motion_rules t) = [[LightEndpoint 1 11]] \<and> t_hw_double_tap_buttons t = [(4, ''on'')]"
proof -
  have "(case build_topology cottage of Some (Inr t) \<Rightarrow> t_descendants_by_room t = [[1], []] \<and>
     map mr_lights (t_motion_rules t) = [[LightEndpoint 1 11]] \<and> t_hw_double_tap_buttons t = [(4, ''on'')] | _ \<Rightarrow> False)"
    by code_simp
  then show ?thesis by (auto split: option.splits sum.splits)
qed

lemma cottage_deployable: "deployable cottage equinox"
  by (auto simp: deployable_def cottage_def defaults_default_def window_ok_def cottage_rule_def sun_scenes_def bt_ok_def
      compute_sun_times_def equinox_def assert_that_def)

section \<open>What the builder guarantees\<close>

lemma accepted_built: "build_topology c = Some (Inr t) \<Longrightarrow> built c t"
  by (rule wprD [OF build_topology_safe])

text \<open>C3: Building returns. Whatever the configuration holds, the pipeline neither panics nor runs for
  ever: it ends with a topology or with an error.\<close>

theorem build_always_returns: "\<exists>r. build_topology c = Some r"
  by (rule wpr_total [OF build_topology_safe])

text \<open>From a configuration to an arbitrarily long run. When the builder accepts a configuration whose
  time spans a \<open>Duration\<close> can hold and at whose coordinates the sun rises, then restoring any
  stored settings and answering any sequence of commands, device reports and ticks, with any
  outcome of the database, never panics; every effect it asks for has a topic to be published on,
  and the invariant holds at the end.\<close>

theorem deployed_controller_never_stuck:
  assumes "build_topology c = Some (Inr t)" and "deployable c sc"
  shows "\<exists>q. restore_settings s (processor_new t clk (conf_defaults c) (conf_location c) sc) = Some q \<and>
     (\<exists>effs r. run (\<lambda>(repo, i). on_input repo i) inputs q = Some (effs, r) \<and> proc_ok r \<and>
        (\<forall>e \<in> set effs. \<exists>topic. eff_topic (p_topology q) e = Some topic))"
proof (rule restored_run_serves)
  show "proc_ok (processor_new t clk (conf_defaults c) (conf_location c) sc)"
    by (rule built_proc_ok [OF accepted_built [OF assms(1)] assms(2)])
qed (simp add: no_cycles_def processor_new_def world_new_def)

theorem deployed_controller_never_stuck_witness:
  "\<exists>t q. build_topology cottage = Some (Inr t) \<and>
     restore_settings settings_default (processor_new t noon (conf_defaults cottage) (conf_location cottage) equinox) = Some q \<and>
     (\<exists>effs r. run (\<lambda>(repo, i). on_input repo i) [(test_repository, Observe noon), (test_repository, Incoming (ButtonPress ''switch'' ''on'' Press 5)),
       (test_repository, Incoming (Tick 9))] q = Some (effs, r) \<and> proc_ok r)"
proof -
  obtain t where t: "build_topology cottage = Some (Inr t)" using cottage_builds by blast
  from deployed_controller_never_stuck [OF t cottage_deployable] t show ?thesis by blast
qed



lemma descendants_exact_of:
  assumes "build_topology c = Some (Inr t)" and "i < length (t_rooms t)"
  shows "set (descendants_of t i) =
    {j. j < length (t_rooms t) \<and> (j, i) \<in> (parent_rel t)\<^sup>+ \<and> room_has_rules t j = Some True}"
  using accepted_built [OF assms(1)] assms(2) by (simp add: built_def descendants_exact_def descendants_of_def)

text \<open>C4: The descendants index is exact. The precomputed list of a group holds, without repetition,
  precisely the rooms strictly below it in the parent hierarchy that have a binding or a motion
  sensor: those whose state an off command for the group has to update.\<close>

theorem descendants_index_exact:
  assumes "build_topology c = Some (Inr t)" and "i < length (t_rooms t)"
  shows "distinct (descendants_of t i) \<and>
     set (descendants_of t i) =
       {j. j < length (t_rooms t) \<and> (j, i) \<in> (parent_rel t)\<^sup>+ \<and> room_has_rules t j = Some True}"
proof -
  have "descendants_exact t" using accepted_built [OF assms(1)] by (simp add: built_def)
  with assms(2) show ?thesis by (simp add: descendants_exact_def descendants_of_def)
qed

theorem descendants_index_exact_witness:
  "\<exists>t. build_topology cottage = Some (Inr t) \<and> descendants_of t 0 = [1] \<and> (1, 0) \<in> (parent_rel t)\<^sup>+"
proof -
  obtain t where t: "build_topology cottage = Some (Inr t)" "t_descendants_by_room t = [[1], []]" using cottage_builds by blast
  have "descendants_exact t" using accepted_built [OF t(1)] by (simp add: built_def)
  then have n: "length (t_rooms t) = 2" using t(2) by (simp add: descendants_exact_def)
  have "descendants_of t 0 = [1]" using t(2) by (simp add: descendants_of_def)
  moreover have "(1, 0) \<in> (parent_rel t)\<^sup>+"
    using descendants_index_exact [OF t(1), of 0] \<open>descendants_of t 0 = [1]\<close> n by auto
  ultimately show ?thesis using t(1) by blast
qed

text \<open>C7: Motion rules never compete for a lamp. In an accepted topology a device belongs to at most one
  rule, through one endpoint, and this is the only endpoint of that device in any room.\<close>

theorem one_rule_per_light:
  assumes "build_topology c = Some (Inr t)"
    and "r1 \<in> set (t_motion_rules t)" and "r2 \<in> set (t_motion_rules t)"
    and "l1 \<in> set (mr_lights r1)" and "l2 \<in> set (mr_lights r2)" and "le_device l1 = le_device l2"
  shows "r1 = r2 \<and> l1 = l2 \<and> one_endpoint t (le_device l1)"
proof -
  note b = accepted_built [OF assms(1)]
  then obtain owners where o: "owned t owners r1" "owned t owners r2" using assms(2,3) unfolding built_def by blast
  then have "mr_name r1 = mr_name r2" using assms(4-6) unfolding owned_def by (metis option.inject)
  moreover have "distinct (map mr_name (t_motion_rules t))" using b by (simp add: built_def topology_shape_def names_ok_def)
  ultimately have r: "r1 = r2" using assms(2,3) by (auto simp: distinct_map dest: inj_onD)
  have "inj_on le_device (set (mr_lights r1))" using o(1) by (simp add: owned_def distinct_map)
  then have "l1 = l2" using assms(4-6) r by (simp add: inj_on_eq_iff)
  with r o(1) assms(4) show ?thesis by (simp add: owned_def)
qed

theorem one_rule_per_light_witness:
  "\<exists>t r. build_topology cottage = Some (Inr t) \<and> r \<in> set (t_motion_rules t) \<and>
     LightEndpoint 1 11 \<in> set (mr_lights r) \<and> one_endpoint t 1"
proof -
  obtain t where t: "build_topology cottage = Some (Inr t)" "map mr_lights (t_motion_rules t) = [[LightEndpoint 1 11]]"
    using cottage_builds by (elim exE conjE)
  obtain r where r: "t_motion_rules t = [r]" "mr_lights r = [LightEndpoint 1 11]"
    using t(2) unfolding map_eq_Cons_conv map_is_Nil_conv by blast
  then have r: "r \<in> set (t_motion_rules t)" "LightEndpoint 1 11 \<in> set (mr_lights r)" by simp_all
  from one_rule_per_light [OF t(1) r(1) r(1) r(2) r(2) refl] have "one_endpoint t 1" by simp
  with t(1) r show ?thesis by blast
qed

section \<open>What the builder rejects\<close>

text \<open>The parent relation of the configuration, by name.\<close>

definition parent_names :: "config \<Rightarrow> (string \<times> string) set" where
  "parent_names c = {(rc_name r, n) |r n. r \<in> set (conf_rooms c) \<and> rc_parent r = Some n}"

lemma parent_namesI: "r \<in> set (conf_rooms c) \<Longrightarrow> rc_parent r = Some n \<Longrightarrow> (rc_name r, n) \<in> parent_names c"
  by (auto simp: parent_names_def)

lemma walk_ends_acc:
  assumes "distinct (map rc_name (conf_rooms c))" and "\<forall>n. bt_get m n = room_map (conf_rooms c) n"
    and "parent_chain_cycle m visited a = None" and "a = Some n"
  shows "n \<in> Wellfounded.acc ((parent_names c)\<inverse>)"
  using assms
proof (induction m visited a arbitrary: n rule: parent_chain_cycle.induct [case_names Top Up])
  case (Up m visited n')
  have up: "parent_chain_cycle m (visited @ [n]) (Option.bind (bt_get m n) rc_parent) = None" "n \<notin> set visited" "n' = n"
    using Up.prems(3,4) by (auto split: if_splits)
  show ?case
  proof (rule acc.intros)
    fix y assume "(y, n) \<in> (parent_names c)\<inverse>"
    then obtain r where r: "r \<in> set (conf_rooms c)" "rc_name r = n" "rc_parent r = Some y" by (auto simp: parent_names_def)
    have "bt_get m n = Some r" using room_map_in [OF assms(1) r(1)] r(2) Up.prems(2) by simp
    then show "y \<in> Wellfounded.acc ((parent_names c)\<inverse>)"
      using Up.IH [of y] Up.prems(1,2) up r(3) by simp
  qed
qed simp

lemma rooms_checked_acyclic:
  assumes "rooms_checked c"
  shows "acyclic (parent_names c)"
proof -
  obtain m where m: "\<forall>n. bt_get m n = room_map (conf_rooms c) n"
    "\<forall>r \<in> set (conf_rooms c). parent_chain_cycle m [rc_name r] (rc_parent r) = None"
    and names: "distinct (map rc_name (conf_rooms c))"
    using assms by (auto simp: rooms_checked_def)
  have "n \<in> Wellfounded.acc ((parent_names c)\<inverse>)" for n
  proof (rule acc.intros)
    fix y assume "(y, n) \<in> (parent_names c)\<inverse>"
    then obtain r where "r \<in> set (conf_rooms c)" "rc_parent r = Some y" by (auto simp: parent_names_def)
    then show "y \<in> Wellfounded.acc ((parent_names c)\<inverse>)" using walk_ends_acc [OF names m(1)] m(2) by blast
  qed
  then have "wf ((parent_names c)\<inverse>)" by (intro acc_wfI) blast
  from wf_acyclic [OF this] show ?thesis by (simp only: acyclic_converse)
qed

text \<open>C5: Broken room hierarchies do not get through. Two rooms of one name, a parent that is not a room, or
  parents that go round in a circle end the build with an error.\<close>

theorem broken_hierarchy_rejected:
  assumes "\<not> distinct (map rc_name (conf_rooms c)) \<or> \<not> acyclic (parent_names c) \<or>
    (\<exists>r \<in> set (conf_rooms c). \<exists>n. rc_parent r = Some n \<and> n \<notin> rc_name ` set (conf_rooms c))"
  shows "\<exists>e. build_topology c = Some (Inl e)"
proof -
  obtain r where r: "build_topology c = Some r" using wpr_total [OF build_topology_safe] by blast
  have False if "r = Inr t" for t
  proof -
    have ok: "rooms_checked c" using accepted_built r that by (simp add: built_def)
    have "n \<in> rc_name ` set (conf_rooms c)" if "r \<in> set (conf_rooms c)" "rc_parent r = Some n" for r :: room_config and n
    proof -
      have "room_map (conf_rooms c) n \<noteq> None" using ok that unfolding rooms_checked_def by blast
      then obtain rc where "room_map (conf_rooms c) n = Some rc" by blast
      then show ?thesis by (auto simp: room_map_def dest!: map_of_SomeD)
    qed
    moreover have "distinct (map rc_name (conf_rooms c))" using ok by (simp add: rooms_checked_def)
    ultimately show False using assms rooms_checked_acyclic [OF ok] by blast
  qed
  then obtain e where "r = Inl e" by (cases r) blast+
  with r show ?thesis by blast
qed

definition ring :: config where
  "ring = cottage\<lparr>conf_rooms := [cottage_room ''a'' 1 (Some ''b'') [], cottage_room ''b'' 2 (Some ''a'') []]\<rparr>"

theorem broken_hierarchy_rejected_witness:
  "(\<exists>e. build_topology ring = Some (Inl e)) \<and> build_topology ring = Some (Inl (ParentChainCycle ''a -> b -> a''))"
proof -
  have "(rc_name (cottage_room ''a'' 1 (Some ''b'') []), ''b'') \<in> parent_names ring"
    and "(rc_name (cottage_room ''b'' 2 (Some ''a'') []), ''a'') \<in> parent_names ring"
    by (rule parent_namesI; simp add: ring_def cottage_room_def)+
  then have "(''a'', ''a'') \<in> (parent_names ring)\<^sup>+"
    unfolding cottage_room_def room_config.simps by (rule trancl_into_trancl [OF r_into_trancl])
  then have "\<not> acyclic (parent_names ring)" by (auto simp: acyclic_def)
  with broken_hierarchy_rejected [of ring] have "\<exists>e. build_topology ring = Some (Inl e)" by blast
  moreover have "build_topology ring = Some (Inl (ParentChainCycle ''a -> b -> a''))" by code_simp
  ultimately show ?thesis by blast
qed

text \<open>C8: The heating of an accepted configuration is consistent. Zones and relays are not shared, a valve
  is in one zone, every zone has valves, and each of them a schedule that covers every day with
  setpoints in range; a pressure group joins at least two valves of one zone, and no valve is in
  two groups. The topology carries that configuration.\<close>

theorem accepted_heating_consistent:
  assumes "build_topology c = Some (Inr t)" and "conf_heating c = Some h"
  shows "t_heating_config t = Some h \<and>
     distinct (map zone_name (hc_zones h)) \<and> distinct (map zone_relay (hc_zones h)) \<and>
     distinct (concat (map zone_devices (hc_zones h))) \<and>
     (\<forall>z \<in> set (hc_zones h). zone_trvs z \<noteq> [] \<and>
        (\<forall>zt \<in> set (zone_trvs z). \<exists>s. bt_get (hc_schedules h) (zt_schedule zt) = Some s \<and> schedule_ok s)) \<and>
     (\<forall>g \<in> set (hc_pressure_groups h). 2 \<le> length (pg_trvs g) \<and>
        (\<exists>z \<in> set (hc_zones h). set (pg_trvs g) \<subseteq> set (zone_devices z))) \<and>
     distinct (concat (map pg_trvs (hc_pressure_groups h)))"
proof -
  have b: "heating_checked c (build_devices c) h" "t_heating_config t = Some h"
    using accepted_built [OF assms(1)] assms(2) by (simp_all add: built_def)
  have valid: "schedule_ok s" if "bt_get (hc_schedules h) n = Some s" for n s
  proof -
    have "(n, s) \<in> set (hc_schedules h)" using that by (rule bt_get_in_set)
    then show ?thesis
      using b(1) by (force simp: heating_checked_def validate_schedules_def check_all_iff schedule_validate_ok split: sum.splits if_splits)
  qed
  have "\<exists>s. bt_get (hc_schedules h) (zt_schedule zt) = Some s \<and> schedule_ok s"
    if "z \<in> set (hc_zones h)" "zt \<in> set (zone_trvs z)" for z zt
    using b(1) that valid by (force simp: heating_checked_def zone_checked_def list_all_iff bt_contains_key_def)
  then show ?thesis using b by (auto simp: heating_checked_def zone_checked_def group_checked_def list_all_iff)
qed

theorem accepted_heating_consistent_witness:
  "\<exists>t h. build_topology cottage = Some (Inr t) \<and> t_heating_config t = Some h \<and> distinct (map zone_relay (hc_zones h))"
proof -
  obtain t where t: "build_topology cottage = Some (Inr t)" using cottage_builds by blast
  obtain h where h: "conf_heating cottage = Some h" by (simp add: cottage_def)
  from accepted_heating_consistent [OF t h] t show ?thesis by blast
qed

section \<open>A window that is not checked\<close>

definition with_soft_window :: "f64 \<Rightarrow> config \<Rightarrow> config" where
  "with_soft_window w c = c\<lparr>conf_defaults := (conf_defaults c)\<lparr>soft_double_tap_window_seconds := w\<rparr>\<rparr>"

lemma with_soft_window_fields [simp]:
  "conf_devices (with_soft_window w c) = conf_devices c" "conf_switch_models (with_soft_window w c) = conf_switch_models c"
  "conf_rooms (with_soft_window w c) = conf_rooms c" "conf_motion_rules (with_soft_window w c) = conf_motion_rules c"
  "conf_bindings (with_soft_window w c) = conf_bindings c" "conf_heating (with_soft_window w c) = conf_heating c"
  "conf_location (with_soft_window w c) = conf_location c"
  "cycle_window_seconds (conf_defaults (with_soft_window w c)) = cycle_window_seconds (conf_defaults c)"
  "double_tap_suppression_seconds (conf_defaults (with_soft_window w c)) = double_tap_suppression_seconds (conf_defaults c)"
  by (simp_all add: with_soft_window_def)

lemma build_topology_soft_window [simp]:
  "build_topology (with_soft_window w c) = build_topology c"
proof -
  let ?c = "with_soft_window w c"
  have "check_namespace ?c = check_namespace c" by (simp add: check_namespace_def)
  moreover have "check_timing ?c = check_timing c" by (simp add: check_timing_def Let_def)
  moreover have "check_members ?c = check_members c"
  proof -
    have "check_member ?c = check_member c" by (intro ext) (simp add: check_member_def)
    then show ?thesis by (simp add: check_members_def)
  qed
  moreover have "build_devices ?c = build_devices c" by (simp add: build_devices_def)
  moreover have "hw_double_taps ?c = hw_double_taps c"
  proof -
    have "hw_double_taps_of ?c = hw_double_taps_of c" unfolding hw_double_taps_of_def with_soft_window_fields ..
    then show ?thesis unfolding hw_double_taps_def with_soft_window_fields by simp
  qed
  moreover have "zwave_nodes ?c = zwave_nodes c" unfolding zwave_nodes_def with_soft_window_fields ..
  moreover have "resolve_bindings ?c = resolve_bindings c"
  proof -
    have "resolve_trigger ?c = resolve_trigger c" unfolding resolve_trigger_def with_soft_window_fields ..
    moreover have "check_effect ?c = check_effect c" unfolding check_effect_def with_soft_window_fields ..
    ultimately have "resolve_binding ?c = resolve_binding c" unfolding resolve_binding_def with_soft_window_fields by simp
    then show ?thesis unfolding resolve_bindings_def with_soft_window_fields by simp
  qed
  moreover have "check_heating ?c = check_heating c"
  proof -
    have "check_relay ?c = check_relay c" unfolding check_relay_def with_soft_window_fields ..
    moreover have "check_trv ?c = check_trv c" unfolding check_trv_def with_soft_window_fields ..
    ultimately have "check_zone ?c = check_zone c" unfolding check_zone_def check_zone_trv_def with_soft_window_fields by simp
    then show ?thesis unfolding check_heating_def with_soft_window_fields by simp
  qed
  moreover have "base_topology ?c = base_topology c" by (intro ext) (simp add: base_topology_def build_devices_def)
  moreover have "build_motion_rules ?c = build_motion_rules c"
  proof -
    have "motion_sensor_of ?c = motion_sensor_of c" unfolding motion_sensor_of_def with_soft_window_fields ..
    then have "build_motion_rule ?c = build_motion_rule c" unfolding build_motion_rule_def with_soft_window_fields by simp
    then show ?thesis unfolding build_motion_rules_def with_soft_window_fields by simp
  qed
  ultimately show ?thesis unfolding build_topology_def with_soft_window_fields by (simp cong: option.case_cong)
qed

text \<open>The window for soft double taps is not checked. Whatever configuration is accepted, it is accepted
  as well with a negative window, and the controller then panics at the first press of a button
  with a double tap.\<close>

theorem negative_soft_window_accepted:
  assumes "build_topology c = Some (Inr t)" and "w < 0" and "device_idx_of t device = Some d"
    and "is_hw_double_tap_button t d button \<or> is_soft_double_tap_button t d button"
  shows "build_topology (with_soft_window w c) = Some (Inr t) \<and>
     handle_event (ButtonPress device button Press ts)
       (processor_new t clk (conf_defaults (with_soft_window w c)) (conf_location c) sc) = None"
proof
  have "from_secs_f64 w = None" using assms(2) by (simp add: from_secs_f64_def)
  then show "handle_event (ButtonPress device button Press ts)
       (processor_new t clk (conf_defaults (with_soft_window w c)) (conf_location c) sc) = None"
    using assms(3,4)
    by (auto simp: handle_button_press_def handle_hw_double_tap_deferred_press_def handle_soft_double_tap_press_def
        press_suppressed_def processor_new_def world_new_def with_soft_window_def)
qed (simp add: assms(1))

theorem negative_soft_window_accepted_witness:
  "\<exists>t. build_topology (with_soft_window (-1) cottage) = Some (Inr t) \<and>
     handle_event (ButtonPress ''switch'' ''on'' Press 0)
       (processor_new t noon (conf_defaults (with_soft_window (-1) cottage)) (conf_location cottage) equinox) = None"
proof -
  have "(case build_topology cottage of Some (Inr t) \<Rightarrow>
      device_idx_of t ''switch'' = Some 4 \<and> is_hw_double_tap_button t 4 ''on'' | _ \<Rightarrow> False)"
    by code_simp
  then obtain t where t: "build_topology cottage = Some (Inr t)" "device_idx_of t ''switch'' = Some 4"
      "is_hw_double_tap_button t 4 ''on''"
    by (simp split: option.splits sum.splits)
  have "(-1 :: f64) < 0" by simp
  from negative_soft_window_accepted [OF t(1) this t(2), where button = "''on''" and ts = 0 and clk = noon and sc = equinox] t(3)
  show ?thesis by blast
qed

end
