(* ===== verification/RoomScenes.thy ===== *)
theory RoomScenes
  imports Deployment Vacancy
begin

text \<open>
  Rooms over several commands (\<open>src/crates/mqtt-controller/src/logic/lights.rs\<close>): presses of a wall switch
  go round the scenes of the slot, and switching a room off reaches everything below it.
\<close>

section \<open>What a light command changes\<close>

text \<open>Everything but the world.\<close>

definition setup_of :: "processor \<Rightarrow> processor" where
  "setup_of p = p\<lparr>p_world := world_new\<rparr>"

lemma setup_of_upd [simp]:
  "setup_of (upd_world h p) = setup_of p" "setup_of (upd_light n f p) = setup_of p" "setup_of (upd_light_zone n g p) = setup_of p"
  by (simp_all add: setup_of_def upd_light_def upd_light_zone_def upd_world_def)

lemma setup_of_fields:
  assumes "setup_of q = setup_of p"
  shows "p_topology q = p_topology p" and "p_settings q = p_settings p" and "p_clock q = p_clock p"
    and "p_location q = p_location p" and "p_cached_sun q = p_cached_sun p" and "p_sunrise q = p_sunrise p"
    and "p_resolved_switch_steps q = p_resolved_switch_steps p"
  using arg_cong [OF assms, of p_topology] arg_cong [OF assms, of p_settings] arg_cong [OF assms, of p_clock]
    arg_cong [OF assms, of p_location] arg_cong [OF assms, of p_cached_sun] arg_cong [OF assms, of p_sunrise]
    arg_cong [OF assms, of p_resolved_switch_steps]
  by (simp_all add: setup_of_def)

lemma setup_of_eq: "setup_of q = setup_of p \<Longrightarrow> q = p\<lparr>p_world := p_world q\<rparr>"
  by (cases q, cases p) (simp add: setup_of_def)

text \<open>A command for the lights of one room.\<close>

lemma command_members:
  assumes "foldM (\<lambda>l p. command_light v (f p l) ts (le_device l) p) ls p = Some p'"
  shows "setup_of p' = setup_of p \<and> w_light_zones (p_world p') = w_light_zones (p_world p) \<and>
    (\<forall>l \<in> set ls. \<forall>n. device_name (p_topology p) (le_device l) = Some n \<longrightarrow> tgt_value (light_target (light (p_world p') n)) = Some v)"
proof -
  let ?P = "\<lambda>l q. \<forall>n. device_name (p_topology p) (le_device l) = Some n \<longrightarrow> tgt_value (light_target (light (p_world q) n)) = Some v"
  let ?I = "\<lambda>q. setup_of q = setup_of p \<and> w_light_zones (p_world q) = w_light_zones (p_world p)"
  have "?I p' \<and> (\<forall>l \<in> set ls. ?P l p')"
    using assms
  proof (rule foldM_establish)
    fix l q q' assume I: "?I q" and s: "command_light v (f q l) ts (le_device l) q = Some q'"
    from s obtain m where "device_name (p_topology q) (le_device l) = Some m"
        "q' = upd_light m (\<lambda>e. e\<lparr>light_target := set_and_command v (f q l) ts (light_target e)\<rparr>) q"
      by (auto simp: command_light_def split: Option.bind_splits)
    then show "?I q' \<and> ?P l q' \<and> (\<forall>y. ?P y q \<longrightarrow> ?P y q')"
      using I setup_of_fields(1) [of q p] by (simp add: set_and_command_simps)
  qed simp
  then show ?thesis by blast
qed

lemma record_group_effect:
  assumes "record_group_light_command n v ow ts p = Some p'"
  shows "setup_of p' = setup_of p \<and> (\<forall>m. m \<noteq> n \<longrightarrow> light_zone (p_world p') m = light_zone (p_world p) m) \<and>
    lz_actual (light_zone (p_world p') n) = lz_actual (light_zone (p_world p) n)"
    and "room_by_name (p_topology p) n = Some (Some ro) \<Longrightarrow>
      lz_switch_cycle (light_zone (p_world p') n) = None \<and>
      (\<forall>l \<in> set (room_light_members ro). \<forall>m. device_name (p_topology p) (le_device l) = Some m \<longrightarrow>
         tgt_value (light_target (light (p_world p') m)) = Some v)"
proof -
  have zones: "light_zone (p_world q) = light_zone (p_world r)" if "w_light_zones (p_world q) = w_light_zones (p_world r)" for q r
    using that by (simp add: light_zone_def fun_eq_iff)
  show "setup_of p' = setup_of p \<and> (\<forall>m. m \<noteq> n \<longrightarrow> light_zone (p_world p') m = light_zone (p_world p) m) \<and>
    lz_actual (light_zone (p_world p') n) = lz_actual (light_zone (p_world p) n)"
    using assms by (auto simp: record_group_light_command_def split: Option.bind_splits option.splits dest!: command_members zones)
  show "room_by_name (p_topology p) n = Some (Some ro) \<Longrightarrow>
      lz_switch_cycle (light_zone (p_world p') n) = None \<and>
      (\<forall>l \<in> set (room_light_members ro). \<forall>m. device_name (p_topology p) (le_device l) = Some m \<longrightarrow>
         tgt_value (light_target (light (p_world p') m)) = Some v)"
    using assms by (auto simp: record_group_light_command_def split: Option.bind_splits option.splits dest!: command_members zones)
qed

text \<open>The descendants are recorded as on or off; no light and no other zone changes.\<close>

definition recorded :: "bool \<Rightarrow> light_zone_entity \<Rightarrow> bool" where
  "recorded on z = (target_is_on z = on \<and> actual_is_on z = on)"

lemma propagate_effect:
  assumes "propagate_to_descendants n on ts p = Some p'" and "room_idx_of (p_topology p) n = Some i"
    and "\<forall>j \<in> set (descendants_of (p_topology p) i). j < length (t_rooms (p_topology p))"
  shows "setup_of p' = setup_of p \<and> w_lights (p_world p') = w_lights (p_world p) \<and>
    (\<forall>j \<in> set (descendants_of (p_topology p) i). recorded on (light_zone (p_world p') (room_name (t_rooms (p_topology p) ! j)))) \<and>
    (\<forall>m. (\<forall>j \<in> set (descendants_of (p_topology p) i). room_name (t_rooms (p_topology p) ! j) \<noteq> m) \<longrightarrow>
       light_zone (p_world p') m = light_zone (p_world p) m)"
proof -
  let ?ns = "map (\<lambda>j. room_name (t_rooms (p_topology p) ! j)) (descendants_of (p_topology p) i)"
  have "mapM (\<lambda>j. map_option room_name (room (p_topology p) j)) (descendants_of (p_topology p) i) = Some ?ns"
    by (rule mapM_Some_map) (use assms(3) in \<open>simp add: room_def index_def\<close>)
  then have run: "foldM (propagate_zone on ts) ?ns p = Some p'" using assms(1,2) by (simp add: propagate_to_descendants_def)
  let ?I = "\<lambda>q. setup_of q = setup_of p \<and> w_lights (p_world q) = w_lights (p_world p) \<and>
      (\<forall>m. m \<notin> set ?ns \<longrightarrow> light_zone (p_world q) m = light_zone (p_world p) m)"
  have "?I p' \<and> (\<forall>m \<in> set ?ns. recorded on (light_zone (p_world p') m))"
    using run
  proof (rule foldM_establish)
    fix m q q' assume m: "m \<in> set ?ns" and I: "?I q" and s: "propagate_zone on ts m q = Some q'"
    then obtain f where f: "q' = upd_light_zone m f q" "\<And>z. recorded on (f z)"
      by (auto simp: propagate_zone_def recorded_def target_is_on_def actual_is_on_def split: Option.bind_splits)
    show "?I q' \<and> recorded on (light_zone (p_world q') m) \<and>
        (\<forall>y. recorded on (light_zone (p_world q) y) \<longrightarrow> recorded on (light_zone (p_world q') y))"
      using I m f by auto
  qed simp
  then show ?thesis by (simp add: image_iff) metis
qed

section \<open>Rooms of an accepted configuration\<close>

lemma below_is_other:
  assumes "build_topology c = Some (Inr t)" and "topology_ok t" and "room_idx_of t n = Some i"
  shows "j \<in> set (descendants_of t i) \<Longrightarrow> j < length (t_rooms t) \<and> room_name (t_rooms t ! j) \<noteq> n"
proof -
  assume j: "j \<in> set (descendants_of t i)"
  have b: "descendants_exact t" "acyclic (parent_rel t)" using accepted_built [OF assms(1)] by (simp_all add: built_def)
  have i: "i < length (t_rooms t)" using room_idx_of_bound [OF assms(2,3)] .
  have "j < length (t_rooms t)" "(j, i) \<in> (parent_rel t)\<^sup>+"
    using b(1) i j by (auto simp: descendants_exact_def descendants_of_def split: if_splits)
  moreover from this(2) have "j \<noteq> i" using b(2) by (auto simp: acyclic_def)
  ultimately show "j < length (t_rooms t) \<and> room_name (t_rooms t ! j) \<noteq> n"
    using room_idx_of_name [OF assms(2,3)] i assms(2)
    by (auto simp: topology_ok_def names_ok_def distinct_conv_nth)
qed

text \<open>C23: Off means off, all the way down. Switching a room of an accepted configuration off publishes one
  group command; afterwards the room and all its lights are meant to be off, every room below it
  that the controller tracks is recorded as off, and no other room is touched.\<close>

theorem turn_off_reaches_everything_below:
  assumes "build_topology c = Some (Inr t)" and "p_topology p = t" and "topology_ok t"
    and "room_idx_of t n = Some i" and "execute_turn_off_room n ts p = Some (e, p')"
  shows "e = [PublishGroupSet i (state_off (room_off_transition_seconds (t_rooms t ! i)))] \<and>
    tgt_value (lz_target (light_zone (p_world p') n)) = Some LZOff \<and>
    (\<forall>l \<in> set (room_light_members (t_rooms t ! i)). \<forall>m. device_name t (le_device l) = Some m \<longrightarrow>
       tgt_value (light_target (light (p_world p') m)) = Some LTOff) \<and>
    (\<forall>j. (j, i) \<in> (parent_rel t)\<^sup>+ \<and> room_has_rules t j = Some True \<longrightarrow>
       \<not> zone_is_on (light_zone (p_world p') (room_name (t_rooms t ! j)))) \<and>
    (\<forall>m. m \<noteq> n \<and> (\<forall>j. (j, i) \<in> (parent_rel t)\<^sup>+ \<longrightarrow> room_name (t_rooms t ! j) \<noteq> m) \<longrightarrow>
       light_zone (p_world p') m = light_zone (p_world p) m)"
proof -
  let ?r = "t_rooms t ! i"
  have i: "i < length (t_rooms t)" using room_idx_of_bound [OF assms(3,4)] .
  have exact: "set (descendants_of t i) = {j. j < length (t_rooms t) \<and> (j, i) \<in> (parent_rel t)\<^sup>+ \<and> room_has_rules t j = Some True}"
    using descendants_exact_of [OF assms(1) i] .
  note other = below_is_other [OF assms(1,3,4)]
  have rb: "room_by_name t n = Some (Some ?r)" using assms(4) i by (simp add: room_by_name_def room_def index_def)
  obtain ow where "publish_off n i (room_off_transition_seconds ?r) ts ow p = Some (e, p')"
    using assms(2,4,5) i by (auto simp: execute_turn_off_room_def room_def index_def split: Option.bind_splits)
  then obtain p0 p1 where p0: "record_group_light_command n LTOff ow ts p = Some p0"
    and p1: "p1 = upd_light_zone n (\<lambda>z. z\<lparr>lz_target := set_and_command LZOff ow ts (lz_target z),
                                        lz_last_press_at := Some ts, lz_last_off_at := Some ts\<rparr>) p0"
    and run: "propagate_to_descendants n False ts p1 = Some p'" and e: "e = [PublishGroupSet i (state_off (room_off_transition_seconds ?r))]"
    by (auto simp: publish_off_def write_after_off_def split: Option.bind_splits)
  note f = record_group_effect(1) [OF p0] record_group_effect(2) [OF p0, unfolded assms(2), OF rb]
  have t1: "p_topology p1 = t" using f(1) setup_of_fields(1) [of p1 p] assms(2) by (simp add: p1)
  note g = propagate_effect [OF run, unfolded t1, OF assms(4)]
  have g: "setup_of p' = setup_of p1" "w_lights (p_world p') = w_lights (p_world p1)"
    "\<forall>j \<in> set (descendants_of t i). recorded False (light_zone (p_world p') (room_name (t_rooms t ! j)))"
    "\<forall>m. (\<forall>j \<in> set (descendants_of t i). room_name (t_rooms t ! j) \<noteq> m) \<longrightarrow>
       light_zone (p_world p') m = light_zone (p_world p1) m"
    using g other by blast+
  have n: "light_zone (p_world p') n = light_zone (p_world p1) n" using g(4) other by blast
  have lights: "light (p_world p') m = light (p_world p0) m" for m using g(2) by (simp add: light_def p1)
  have "j < length (t_rooms t)" if "(j, i) \<in> (parent_rel t)\<^sup>+" for j
    using tranclD [OF that] by (auto simp: parent_rel_def)
  then have below: "j \<in> set (descendants_of t i)" if "(j, i) \<in> (parent_rel t)\<^sup>+" "room_has_rules t j = Some True" for j
    using that exact by blast
  have "light_zone (p_world p') m = light_zone (p_world p) m"
    if "m \<noteq> n" "\<forall>j. (j, i) \<in> (parent_rel t)\<^sup>+ \<longrightarrow> room_name (t_rooms t ! j) \<noteq> m" for m
    using g(4) exact that f(1) by (simp add: p1)
  moreover have "\<not> zone_is_on (light_zone (p_world p') (room_name (t_rooms t ! j)))"
    if "(j, i) \<in> (parent_rel t)\<^sup>+" "room_has_rules t j = Some True" for j
    using g(3) below [OF that] by (simp add: recorded_def zone_is_on_def)
  ultimately show ?thesis
    using e n f(2) lights by (simp add: p1 set_and_command_simps)
qed

text \<open>The cottage, freshly started.\<close>

definition cottage_run :: "topology \<Rightarrow> processor" where
  "cottage_run t = processor_new t noon (conf_defaults cottage) (conf_location cottage) equinox"

lemma cottage_topology:
  "\<exists>t. build_topology cottage = Some (Inr t) \<and> room_idx_of t ''downstairs'' = Some 0 \<and>
     map room_name (t_rooms t) = [''downstairs'', ''hall''] \<and> descendants_of t 0 = [1]"
proof -
  have "(case build_topology cottage of Some (Inr t) \<Rightarrow> room_idx_of t ''downstairs'' = Some 0 \<and>
     map room_name (t_rooms t) = [''downstairs'', ''hall''] \<and> descendants_of t 0 = [1] | _ \<Rightarrow> False)"
    by code_simp
  then show ?thesis by (simp split: option.splits sum.splits)
qed

lemma cottage_run_ok:
  assumes "build_topology cottage = Some (Inr t)"
  shows "topology_ok t" and "proc_ok (cottage_run t)" and "p_topology (cottage_run t) = t"
  using built_topology_ok built_proc_ok accepted_built [OF assms] cottage_deployable
  by (auto simp: cottage_run_def processor_new_def)

theorem turn_off_reaches_everything_below_witness:
  "\<exists>t e p'. build_topology cottage = Some (Inr t) \<and> execute_turn_off_room ''downstairs'' 5 (cottage_run t) = Some (e, p') \<and>
     \<not> zone_is_on (light_zone (p_world p') ''hall'')"
proof -
  obtain t where t: "build_topology cottage = Some (Inr t)" "room_idx_of t ''downstairs'' = Some 0"
    "map room_name (t_rooms t) = [''downstairs'', ''hall'']" "descendants_of t 0 = [1]"
    using cottage_topology by (elim exE conjE)
  note ok = cottage_run_ok [OF t(1)]
  obtain e p' where run: "execute_turn_off_room ''downstairs'' 5 (cottage_run t) = Some (e, p')"
    using execute_turn_off_room_safe [OF ok(2) stays_refl [OF ok(2)], of "''downstairs''" 5]
    by (auto simp: safe_at_def wp_iff)
  have n: "length (t_rooms t) = 2" "room_name (t_rooms t ! 1) = ''hall''"
    using arg_cong [OF t(3), of length] arg_cong [OF t(3), of "\<lambda>xs. xs ! 1"] by simp_all
  have "(1, 0) \<in> (parent_rel t)\<^sup>+ \<and> room_has_rules t 1 = Some True"
    using descendants_exact_of [OF t(1), of 0] t(4) n(1) by auto
  then have "\<not> zone_is_on (light_zone (p_world p') (room_name (t_rooms t ! 1)))"
    using turn_off_reaches_everything_below [OF t(1) ok(3,1) t(2) run] by blast
  with t(1) run n(2) show ?thesis by auto
qed

section \<open>Going round the scenes\<close>

lemma sun_times_again:
  assumes "sun_times_of p = Some (sun, p0)" and "setup_of q = setup_of p0"
  shows "sun_times_of q = Some (sun, q)"
proof -
  let ?secs = "\<lambda>p. if 0 \<le> ck_utc_offset_hours (p_clock p) then \<lfloor>ck_utc_offset_hours (p_clock p) * 3600\<rfloor>
    else \<lceil>ck_utc_offset_hours (p_clock p) * 3600\<rceil>"
  let ?cached = "\<lambda>p. p_location p = None \<and> sun = None \<or>
      (\<exists>loc t. p_location p = Some loc \<and> sun = Some t \<and> p_cached_sun p = Some (ck_date (p_clock p), ?secs p, t))"
  have "?cached p0"
  proof (cases "p_location p")
    case None
    with assms(1) show ?thesis by (simp add: sun_times_of_def)
  next
    case (Some loc)
    show ?thesis
    proof (cases "\<exists>t. p_cached_sun p = Some (ck_date (p_clock p), ?secs p, t)")
      case True
      with assms(1) Some show ?thesis by (auto simp: sun_times_of_def Let_def)
    next
      case False
      then have "(case p_cached_sun p of None \<Rightarrow> True | Some (d, s, _) \<Rightarrow> d \<noteq> ck_date (p_clock p) \<or> s \<noteq> ?secs p)"
        by (cases "p_cached_sun p") auto
      then obtain times where "p0 = p\<lparr>p_cached_sun := Some (ck_date (p_clock p), ?secs p, times)\<rparr>" "sun = Some times"
        using assms(1) Some unfolding sun_times_of_def Let_def by (cases "compute_sun_times (p_sunrise p) loc (ck_date (p_clock p)) (ck_utc_offset_hours (p_clock p))") auto
      with Some show ?thesis by simp
    qed
  qed
  then have "?cached q" by (simp only: setup_of_fields [OF assms(2)])
  then show ?thesis unfolding sun_times_of_def Let_def by (elim disjE conjE exE) simp_all
qed

lemma scenes_for_room_again:
  assumes "scenes_for_room n p = Some (ids, p0)" and "setup_of q = setup_of p0"
  shows "scenes_for_room n q = Some (ids, q)"
proof -
  obtain sun where s: "sun_times_of p = Some (sun, p0)"
    using assms(1) by (auto simp: scenes_for_room_def split: option.splits Option.bind_splits)
  note f = setup_of_fields [OF assms(2)]
  have "room_slots q = room_slots p0" by (rule ext) (simp add: room_slots_def f)
  then show ?thesis
    using assms(1) s sun_times_again [OF s assms(2)] f
    by (auto simp: scenes_for_room_def split: option.splits Option.bind_splits)
qed

text \<open>A room as the wall switch sees it: off, or on at a position of the slot's scenes.\<close>

definition abs_zone :: "light_zone_entity \<Rightarrow> nat option" where
  "abs_zone z = (if zone_is_on z then Some (zone_cycle_idx z) else None)"

definition cycle_spec :: "nat \<Rightarrow> nat option \<Rightarrow> nat" where
  "cycle_spec len pos = (case pos of None \<Rightarrow> 0 | Some k \<Rightarrow> (k + 1) mod len)"

lemma recall_scene_effect:
  assumes "recall_scene n i idx sid True ts p = Some (e, p')" and "room_idx_of (p_topology p) n = Some i"
    and "\<forall>j \<in> set (descendants_of (p_topology p) i). j < length (t_rooms (p_topology p)) \<and> room_name (t_rooms (p_topology p) ! j) \<noteq> n"
  shows "e = [PublishGroupSet i (scene_recall sid)] \<and> setup_of p' = setup_of p \<and>
    abs_zone (light_zone (p_world p') n) = Some idx \<and> lz_switch_cycle (light_zone (p_world p') n) = None"
proof -
  obtain ow v p0 where p0: "record_group_light_command n v ow ts p = Some p0"
    and run: "propagate_to_descendants n True ts (upd_light_zone n (\<lambda>z. z\<lparr>lz_switch_cycle := None\<rparr>)
       (upd_light_zone n (\<lambda>z. z\<lparr>lz_target := set_and_command (LZOn sid idx) ow ts (lz_target z), lz_last_press_at := Some ts\<rparr>) p0)) = Some p'"
    and e: "e = [PublishGroupSet i (scene_recall sid)]"
    using assms(1) by (auto simp: recall_scene_def write_after_on_def split: Option.bind_splits)
  note f = record_group_effect(1) [OF p0]
  have t: "p_topology p0 = p_topology p" using f setup_of_fields(1) [of p0 p] by simp
  note g = propagate_effect [OF run, unfolded upd_light_zone_world t, OF assms(2)]
  have "setup_of p' = setup_of p0" and "light_zone (p_world p') n =
      (light_zone (p_world p0) n)\<lparr>lz_target := set_and_command (LZOn sid idx) ow ts (lz_target (light_zone (p_world p0) n)),
         lz_last_press_at := Some ts, lz_switch_cycle := None\<rparr>"
    using g assms(3) by auto
  then show ?thesis
    using e f by (simp add: abs_zone_def zone_is_on_def target_is_on_def zone_cycle_idx_def set_and_command_simps)
qed

lemma scene_cycle_step:
  assumes "build_topology c = Some (Inr t)" and "p_topology p = t" and "proc_ok p"
    and "room_idx_of t n = Some i" and "scenes_for_room n p = Some (ids, p0)" and "ids \<noteq> []"
    and "room_switch_steps_of p (t_rooms t ! i) = []" and "lz_switch_cycle (light_zone (p_world p) n) = None"
  defines "k \<equiv> cycle_spec (length ids) (abs_zone (light_zone (p_world p) n))"
  shows "\<exists>p'. execute_scene_cycle n ts p = Some ([PublishGroupSet i (scene_recall (ids ! k))], p') \<and>
    setup_of p' = setup_of p0 \<and> proc_ok p' \<and> scenes_for_room n p' = Some (ids, p') \<and>
    room_switch_steps_of p' (t_rooms t ! i) = [] \<and>
    abs_zone (light_zone (p_world p') n) = Some k \<and> lz_switch_cycle (light_zone (p_world p') n) = None"
proof -
  have ok: "topology_ok t" using proc_ok_topology [OF assms(3)] assms(2) by simp
  note i = room_idx_of_bound [OF ok assms(4)]
  obtain e p' where run: "execute_scene_cycle n ts p = Some (e, p')" and s: "stays p p'"
    using safeD [OF execute_light_actions_safe(1) assms(3), of n ts] by (auto simp: safe_at_def wp_iff)
  have p0: "p_world p0 = p_world p" "p_topology p0 = t"
    using scenes_for_room_safe [OF assms(3), of n] assms(2,5) by auto
  have steps: "execute_switch_steps n Cycle ts p = Some (None, p)"
    using assms(2,4,7) i by (simp add: execute_switch_steps_def active_switch_steps_def room_by_name_def room_def index_def)
  have idx: "next_scene_index (light_zone (p_world p) n) ids = k"
    using assms(8) by (simp add: next_scene_index_def k_def cycle_spec_def abs_zone_def)
  have k: "k < length ids" using assms(6) by (auto simp: k_def cycle_spec_def split: option.split)
  have "recall_scene n i k (ids ! k) True ts p0 = Some (e, p')"
    using run steps assms(4-6) p0 i k
    by (simp add: execute_scene_cycle_def or_else_def execute_group_scene_cycle_def room_def index_def Let_def idx)
  note r = recall_scene_effect [OF this, unfolded p0, OF assms(4)]
  have r: "e = [PublishGroupSet i (scene_recall (ids ! k))]" "setup_of p' = setup_of p0"
      "abs_zone (light_zone (p_world p') n) = Some k" "lz_switch_cycle (light_zone (p_world p') n) = None"
    using r below_is_other [OF assms(1) ok assms(4)] by blast+
  moreover have "room_switch_steps_of p' = room_switch_steps_of p" by (rule stays_steps [OF s])
  ultimately show ?thesis
    using run assms(7) scenes_for_room_again [OF assms(5) r(2)] stays_proc_ok [OF assms(3) s] by simp
qed

lemma scene_cycle_presses:
  assumes "build_topology c = Some (Inr t)" and "p_topology p = t" and "proc_ok p"
    and "room_idx_of t n = Some i" and "scenes_for_room n p = Some (ids, p0)" and "ids \<noteq> []"
    and "room_switch_steps_of p (t_rooms t ! i) = []" and "lz_switch_cycle (light_zone (p_world p) n) = None"
  shows "\<exists>p'. for_each (execute_scene_cycle n) tss p =
    Some (map (\<lambda>j. PublishGroupSet i (scene_recall
      (ids ! ((cycle_spec (length ids) (abs_zone (light_zone (p_world p) n)) + j) mod length ids)))) [0..<length tss], p')"
  using assms(2-)
proof (induction tss arbitrary: p p0)
  case Nil
  then show ?case by simp
next
  case (Cons ts tss)
  let ?k = "cycle_spec (length ids) (abs_zone (light_zone (p_world p) n))"
  have k: "?k < length ids" using Cons.prems(5) by (auto simp: cycle_spec_def split: option.split)
  obtain p1 where one: "execute_scene_cycle n ts p = Some ([PublishGroupSet i (scene_recall (ids ! ?k))], p1)"
    and s: "setup_of p1 = setup_of p0" and ok: "proc_ok p1" "scenes_for_room n p1 = Some (ids, p1)"
      "room_switch_steps_of p1 (t_rooms t ! i) = []"
    and z: "abs_zone (light_zone (p_world p1) n) = Some ?k" "lz_switch_cycle (light_zone (p_world p1) n) = None"
    using scene_cycle_step [OF assms(1) Cons.prems] by blast
  have "p_topology p1 = t"
    using setup_of_fields(1) [OF s] scenes_for_room_safe [OF Cons.prems(2), of n] Cons.prems(1,4) by auto
  from Cons.IH [OF this ok(1) Cons.prems(3) ok(2) Cons.prems(5) ok(3) z(2)] obtain p2 where
    "for_each (execute_scene_cycle n) tss p1 = Some (map (\<lambda>j. PublishGroupSet i (scene_recall
      (ids ! ((cycle_spec (length ids) (Some ?k) + j) mod length ids)))) [0..<length tss], p2)"
    by (auto simp: z(1))
  moreover have "(cycle_spec (length ids) (Some ?k) + j) mod length ids = (?k + Suc j) mod length ids" for j
    by (simp add: cycle_spec_def mod_add_left_eq)
  ultimately show ?case
    using one k by (simp add: map_upt_Suc del: upt_Suc)
qed


lemma cottage_scenes:
  assumes "build_topology cottage = Some (Inr t)"
  shows "\<exists>p0. scenes_for_room ''downstairs'' (cottage_run t) = Some ([1, 2], p0)"
    and "room_switch_steps_of (cottage_run t) (t_rooms t ! 0) = []"
    and "light_zone (p_world (cottage_run t)) ''downstairs'' = light_zone world_new ''downstairs''"
proof -
  have "(case build_topology cottage of Some (Inr t) \<Rightarrow>
      map_option fst (scenes_for_room ''downstairs'' (cottage_run t)) = Some [1, 2] \<and>
      room_switch_steps_of (cottage_run t) (t_rooms t ! 0) = [] | _ \<Rightarrow> False)"
    by code_simp
  then show "\<exists>p0. scenes_for_room ''downstairs'' (cottage_run t) = Some ([1, 2], p0)"
    and "room_switch_steps_of (cottage_run t) (t_rooms t ! 0) = []"
    by (auto simp: assms)
qed (simp add: cottage_run_def processor_new_def)


end
