(* ===== verification/Messages.thy ===== *)
theory Messages
  imports Controller
begin

text \<open>
  The inbound half of the MQTT bridge (\<open>mqtt/parse.rs\<close>): one publish of the broker, translated
  into an event. The JSON parser (\<open>serde_json::from_slice\<close>) is the argument \<open>js\<close> of the
  definitions. The outer option is the panic of an index lookup, the inner one the function's own
  result. Payloads and topics are byte strings.
\<close>

section \<open>Byte strings\<close>

definition utf8_cont :: "nat \<Rightarrow> bool" where
  "utf8_cont b = (0x80 \<le> b \<and> b \<le> 0xBF)"

text \<open>\<open>str::from_utf8\<close>: the well-formed byte sequences of the Unicode standard.\<close>

fun utf8_valid :: "nat list \<Rightarrow> bool" where
  "utf8_valid [] = True"
| "utf8_valid (a # bs) =
     (if a < 0x80 then utf8_valid bs
      else case bs of
        [] \<Rightarrow> False
      | b # cs \<Rightarrow>
          (if 0xC2 \<le> a \<and> a \<le> 0xDF then utf8_cont b \<and> utf8_valid cs
           else case cs of
             [] \<Rightarrow> False
           | c # ds \<Rightarrow>
               (if 0xE0 \<le> a \<and> a \<le> 0xEF then
                  utf8_cont b \<and> (a = 0xE0 \<longrightarrow> 0xA0 \<le> b) \<and> (a = 0xED \<longrightarrow> b \<le> 0x9F) \<and>
                  utf8_cont c \<and> utf8_valid ds
                else case ds of
                  [] \<Rightarrow> False
                | d # es \<Rightarrow>
                    0xF0 \<le> a \<and> a \<le> 0xF4 \<and> utf8_cont b \<and> (a = 0xF0 \<longrightarrow> 0x90 \<le> b) \<and>
                    (a = 0xF4 \<longrightarrow> b \<le> 0x8F) \<and> utf8_cont c \<and> utf8_cont d \<and> utf8_valid es)))"

definition from_utf8 :: "string \<Rightarrow> string option" where
  "from_utf8 s = (if utf8_valid (map of_char s) then Some s else None)"

text \<open>\<open>str::trim_matches('"')\<close>, \<open>str::starts_with\<close>, \<open>str::ends_with\<close>, \<open>str::eq_ignore_ascii_case\<close>.\<close>

definition trim_quotes :: "string \<Rightarrow> string" where
  "trim_quotes s = rev (dropWhile (\<lambda>c. c = CHR 0x22) (rev (dropWhile (\<lambda>c. c = CHR 0x22) s)))"

definition starts_with :: "string \<Rightarrow> string \<Rightarrow> bool" where
  "starts_with s pat = (strip_prefix pat s \<noteq> None)"

definition ends_with :: "string \<Rightarrow> string \<Rightarrow> bool" where
  "ends_with s pat = (strip_suffix pat s \<noteq> None)"

definition ascii_lower :: "char \<Rightarrow> char" where
  "ascii_lower c = (if CHR ''A'' \<le> c \<and> c \<le> CHR ''Z'' then char_of (of_char c + 32 :: nat) else c)"

definition eq_ignore_ascii_case :: "string \<Rightarrow> string \<Rightarrow> bool" where
  "eq_ignore_ascii_case s r = (map ascii_lower s = map ascii_lower r)"

section \<open>Messages\<close>

text \<open>The fields of \<open>rumqttc::Publish\<close> the parser reads.\<close>

record publish =
  pub_topic :: string
  pub_payload :: string
  pub_dup :: bool
  pub_retain :: bool

type_synonym json_parser = "string \<Rightarrow> json option"

definition room_by_group_name :: "topology \<Rightarrow> string \<Rightarrow> resolved_room option option" where
  "room_by_group_name t g =
     (case room_idx_by_group t g of None \<Rightarrow> Some None | Some i \<Rightarrow> map_option Some (room t i))"

definition is_zwave_plug :: "topology \<Rightarrow> string \<Rightarrow> bool option" where
  "is_zwave_plug t name =
     (case device_idx_of t name of None \<Rightarrow> Some False | Some i \<Rightarrow> is_zwave_plug_idx t i)"

definition get_str :: "json \<Rightarrow> string \<Rightarrow> string option" where
  "get_str v k = do { x \<leftarrow> json_get v k; as_str x }"

definition get_f64 :: "json \<Rightarrow> string \<Rightarrow> f64 option" where
  "get_f64 v k = do { x \<leftarrow> json_get v k; as_f64 x }"

definition get_u64 :: "json \<Rightarrow> string \<Rightarrow> u64 option" where
  "get_u64 v k = do { x \<leftarrow> json_get v k; as_u64 x }"

definition get_bool :: "json \<Rightarrow> string \<Rightarrow> bool option" where
  "get_bool v k = do { x \<leftarrow> json_get v k; as_bool x }"

definition zwave_meter_suffix :: string where
  "zwave_meter_suffix = ''/meter/endpoint_0/value/'' @ show_nat POWER_W"

definition parse_zwave_event ::
  "json_parser \<Rightarrow> topology \<Rightarrow> string \<Rightarrow> string \<Rightarrow> instant \<Rightarrow> event option option" where
  "parse_zwave_event js t topic payload now =
     (case strip_prefix ''zwave/'' topic of
        None \<Rightarrow> Some None
      | Some rest \<Rightarrow>
          (case strip_suffix ''/switch_binary/endpoint_0/currentValue'' rest of
             Some name \<Rightarrow>
               do { z \<leftarrow> is_zwave_plug t name;
                    Some (if \<not> z then None
                          else do { v \<leftarrow> js payload; on \<leftarrow> get_bool v ''value'';
                                    Some (PlugState name on None now) }) }
           | None \<Rightarrow>
               (case strip_suffix zwave_meter_suffix rest of
                  Some name \<Rightarrow>
                    do { z \<leftarrow> is_zwave_plug t name;
                         Some (if \<not> z then None
                               else do { v \<leftarrow> js payload; watts \<leftarrow> get_f64 v ''value'';
                                         Some (PlugPowerUpdate name (max watts 0) now) }) }
                | None \<Rightarrow> Some None)))"

section \<open>State reports\<close>

text \<open>The branches of \<open>parse_event\<close>, each on the parsed payload.\<close>

definition state_is_on :: "json \<Rightarrow> bool option" where
  "state_is_on v = map_option (\<lambda>s. eq_ignore_ascii_case s ''ON'') (get_str v ''state'')"

definition parse_group_state :: "string \<Rightarrow> instant \<Rightarrow> json \<Rightarrow> event option" where
  "parse_group_state name now v = do { on \<leftarrow> state_is_on v; Some (GroupState name on now) }"

definition parse_plug_state :: "string \<Rightarrow> instant \<Rightarrow> json \<Rightarrow> event option" where
  "parse_plug_state name now v =
     do { on \<leftarrow> state_is_on v; Some (PlugState name on (get_f64 v ''power'') now) }"

text \<open>A JSON number is finite, so the code's \<open>is_finite\<close> filter passes every reading.\<close>

definition meter_reading :: "json \<Rightarrow> string \<Rightarrow> f64 option" where
  "meter_reading v k = (case get_f64 v k of Some x \<Rightarrow> if 0 \<le> x then Some x else None | None \<Rightarrow> None)"

definition parse_power_meter_state :: "string \<Rightarrow> instant \<Rightarrow> json \<Rightarrow> event option" where
  "parse_power_meter_state name now v =
     (let watts = meter_reading v ''power''; kwh = meter_reading v ''energy''
      in if watts = None \<and> kwh = None then None else Some (PowerMeterState name watts kwh now))"

definition parse_trv_state :: "string \<Rightarrow> instant \<Rightarrow> json \<Rightarrow> event option" where
  "parse_trv_state name now v =
     Some (TrvState name (get_f64 v ''local_temperature'')
       (map_option (\<lambda>n. min n 100) (get_u64 v ''pi_heating_demand''))
       (get_str v ''running_state'') (get_f64 v ''occupied_heating_setpoint'')
       (get_str v ''operating_mode'') (get_str v ''system_mode'')
       (map_option (\<lambda>n. min n 100) (get_u64 v ''battery'')) now)"

definition parse_wall_thermostat_state :: "string \<Rightarrow> instant \<Rightarrow> json \<Rightarrow> event option" where
  "parse_wall_thermostat_state name now v =
     Some (WallThermostatState name (state_is_on v) (get_f64 v ''local_temperature'')
       (get_str v ''operating_mode'') now)"

definition parse_occupancy :: "string \<Rightarrow> clock \<Rightarrow> bool \<Rightarrow> json \<Rightarrow> event option" where
  "parse_occupancy name clk retained v =
     do { occupied \<leftarrow> get_bool v ''occupancy'';
          Some (Occupancy name occupied (map_option (\<lambda>n. n mod 2 ^ 32) (get_u64 v ''illuminance''))
            (if retained then None else Some (ck_epoch_millis clk)) (ck_now clk)) }"

definition color_xy :: "json \<Rightarrow> (f64 \<times> f64) option" where
  "color_xy v = do { c \<leftarrow> json_get v ''color''; x \<leftarrow> get_f64 c ''x''; y \<leftarrow> get_f64 c ''y''; Some (x, y) }"

definition parse_light_state :: "string \<Rightarrow> instant \<Rightarrow> json \<Rightarrow> event option" where
  "parse_light_state name now v =
     do { on \<leftarrow> state_is_on v;
          Some (LightState name on (map_option (\<lambda>n. min n 255) (get_u64 v ''brightness''))
            (map_option (\<lambda>n. min n 65535) (get_u64 v ''color_temp'')) (color_xy v) now) }"

section \<open>The parser\<close>

definition ignored_topic :: "string \<Rightarrow> bool" where
  "ignored_topic rest =
     (starts_with rest ''bridge/'' \<or> ends_with rest ''/availability'' \<or>
      ends_with rest ''/set'' \<or> ends_with rest ''/get'')"

definition parse_action :: "topology \<Rightarrow> string \<Rightarrow> string \<Rightarrow> instant \<Rightarrow> event option option" where
  "parse_action t name payload now =
     (case from_utf8 payload of
        None \<Rightarrow> Some None
      | Some text \<Rightarrow>
          map_option (map_option (\<lambda>(_, button, g). ButtonPress name button g now))
            (resolve_button_event t name (trim_quotes text)))"

definition parse_state ::
  "json_parser \<Rightarrow> topology \<Rightarrow> clock \<Rightarrow> string \<Rightarrow> string \<Rightarrow> bool \<Rightarrow> event option option" where
  "parse_state js t clk name payload retained =
     (let now = ck_now clk; report = (\<lambda>f. Some (do { v \<leftarrow> js payload; f v })) in
      do { ro \<leftarrow> room_by_group_name t name;
           if ro \<noteq> None then report (parse_group_state name now)
           else do { pl \<leftarrow> is_kind t KPlug name;
           if pl then report (parse_plug_state name now)
           else do { meter \<leftarrow> is_kind t KPowerMeter name;
           if meter then report (parse_power_meter_state name now)
           else do { tv \<leftarrow> is_kind t KTrv name;
           if tv then report (parse_trv_state name now)
           else do { wt \<leftarrow> is_kind t KWallThermostat name;
           if wt then report (parse_wall_thermostat_state name now)
           else if rooms_for_motion t name \<noteq> [] then report (parse_occupancy name clk retained)
           else do { l \<leftarrow> is_kind t KLight name;
           if l then report (parse_light_state name now) else Some None } } } } } })"

definition parse_event :: "json_parser \<Rightarrow> topology \<Rightarrow> clock \<Rightarrow> publish \<Rightarrow> event option option" where
  "parse_event js t clk m =
     (if pub_dup m then Some None
      else do { zwave \<leftarrow> parse_zwave_event js t (pub_topic m) (pub_payload m) (ck_now clk);
        if zwave \<noteq> None then Some zwave
        else (case strip_prefix ''zigbee2mqtt/'' (pub_topic m) of
          None \<Rightarrow> Some None
        | Some rest \<Rightarrow>
            (case strip_suffix ''/action'' rest of
               Some name \<Rightarrow> parse_action t name (pub_payload m) (ck_now clk)
             | None \<Rightarrow>
                 if ignored_topic rest then Some None
                 else parse_state js t clk rest (pub_payload m) (pub_retain m))) })"

end
