(* ===== verification/Dispatch.thy ===== *)
theory Dispatch
  imports Messages
begin

text \<open>
  The outbound half of the bridge: the publish helpers of \<open>mqtt/mod.rs\<close>, the discovery
  configurations of \<open>domain/ha_discovery.rs\<close>, and \<open>effect_dispatch.rs\<close>, which turns a batch of
  effects into publishes and records which entities the dashboard has to be told about. The JSON
  printer (\<open>serde_json::to_vec\<close>) and the MQTT client (\<open>AsyncClient::publish\<close>, QoS 1) are the
  arguments \<open>tj\<close> and \<open>send\<close>; the client's own state is the type variable \<open>'c\<close>.
\<close>

section \<open>Publishing\<close>

datatype mqtt_error = ClientError string | SerializeError string

record outgoing =
  out_topic :: string
  out_retain :: bool
  out_bytes :: string

type_synonym json_printer = "json \<Rightarrow> mqtt_error + string"
type_synonym 'c sender = "outgoing \<Rightarrow> 'c \<Rightarrow> mqtt_error option \<times> 'c"

definition outgoing :: "string \<Rightarrow> bool \<Rightarrow> string \<Rightarrow> outgoing" where
  "outgoing topic retain bytes = \<lparr>out_topic = topic, out_retain = retain, out_bytes = bytes\<rparr>"

definition publish_json :: "json_printer \<Rightarrow> 'c sender \<Rightarrow> string \<Rightarrow> payload \<Rightarrow> 'c \<Rightarrow> mqtt_error option \<times> 'c" where
  "publish_json tj send topic p c =
     (case tj (payload_json p) of Inl e \<Rightarrow> (Some e, c) | Inr bytes \<Rightarrow> send (outgoing topic False bytes) c)"

definition publish_group_set :: "json_printer \<Rightarrow> 'c sender \<Rightarrow> string \<Rightarrow> payload \<Rightarrow> 'c \<Rightarrow> mqtt_error option \<times> 'c" where
  "publish_group_set tj send n p = publish_json tj send (set_topic n) p"

definition publish_device_set ::
  "json_printer \<Rightarrow> 'c sender \<Rightarrow> string \<Rightarrow> payload \<Rightarrow> bool \<Rightarrow> 'c \<Rightarrow> mqtt_error option \<times> 'c" where
  "publish_device_set tj send n p is_zwave c =
     (if is_zwave then
        (case p of
           PDeviceStateSet s \<Rightarrow>
             send (outgoing (zwave_switch_set_topic n) False (if s = ''ON'' then ''true'' else ''false'')) c
         | _ \<Rightarrow> (None, c))
      else publish_json tj send (set_topic n) p c)"

definition publish_raw :: "'c sender \<Rightarrow> string \<Rightarrow> string \<Rightarrow> bool \<Rightarrow> 'c \<Rightarrow> mqtt_error option \<times> 'c" where
  "publish_raw send topic bytes retain = send (outgoing topic retain bytes)"

definition quoted :: "string \<Rightarrow> string" where
  "quoted s = CHR 0x22 # s @ [CHR 0x22]"

definition publish_get :: "'c sender \<Rightarrow> string \<Rightarrow> 'c \<Rightarrow> mqtt_error option \<times> 'c" where
  "publish_get send n =
     send (outgoing (get_topic n) False (''{'' @ quoted ''state'' @ '':'' @ quoted [] @ ''}''))"

section \<open>Home Assistant discovery\<close>

fun split_at_char :: "char \<Rightarrow> string \<Rightarrow> string list" where
  "split_at_char c [] = [[]]"
| "split_at_char c (x # xs) =
     (let ws = split_at_char c xs in if x = c then [] # ws else (x # hd ws) # tl ws)"

fun join_words :: "string \<Rightarrow> string list \<Rightarrow> string" where
  "join_words sep [] = []"
| "join_words sep [w] = w"
| "join_words sep (w # ws) = w @ sep @ join_words sep ws"

text \<open>\<open>char::to_uppercase\<close> on ASCII, which device and zone names are.\<close>

definition ascii_upper :: "char \<Rightarrow> char" where
  "ascii_upper c = (if CHR ''a'' \<le> c \<and> c \<le> CHR ''z'' then char_of (of_char c - 32 :: nat) else c)"

definition display_name :: "string \<Rightarrow> string" where
  "display_name n =
     join_words '' '' (map (\<lambda>w. case w of [] \<Rightarrow> [] | c # cs \<Rightarrow> ascii_upper c # cs) (split_at_char CHR ''-'' n))"

definition trv_all_options :: "string list" where
  "trv_all_options = [''UNKNOWN'', ''OPEN_WINDOW'', ''PRESSURE_GROUP_OPEN'', ''PRESSURE_GROUP_RELEASE'',
     ''MIN_CYCLE_OPEN'', ''MIN_CYCLE_RELEASE'', ''STALE'', ''HEAT_DEMAND'', ''IDLE'']"

definition zone_all_options :: "string list" where
  "zone_all_options = [''UNKNOWN'', ''STALE'', ''HEAT_DEMAND'', ''MIN_RUNTIME'', ''MIN_PAUSE'', ''OFF'']"

definition ha_device_block :: json where
  "ha_device_block = JObject [(''identifiers'', JArray [JString ''mqtt_controller_heating'']),
     (''manufacturer'', JString ''mqtt-controller''), (''name'', JString ''Heating Controller'')]"

text \<open>The result is the topic and the payload; \<open>expect\<close> panics when printing fails.\<close>

definition discovery_publish ::
  "json_printer \<Rightarrow> string \<Rightarrow> string \<Rightarrow> string \<Rightarrow> string list \<Rightarrow> (string \<times> string) option" where
  "discovery_publish tj entity_type kind_label n options =
     (case tj (JObject [(''device'', ha_device_block), (''device_class'', JString ''enum''),
          (''name'', JString (kind_label @ '' '' @ display_name n @ '' State'')),
          (''options'', JArray (map JString options)),
          (''state_topic'', JString (ha_state_topic entity_type n)),
          (''unique_id'', JString (unique_id entity_type n))]) of
        Inl e \<Rightarrow> None
      | Inr bytes \<Rightarrow> Some (discovery_topic entity_type n, bytes))"

definition trv_discovery_publish :: "json_printer \<Rightarrow> string \<Rightarrow> (string \<times> string) option" where
  "trv_discovery_publish tj n = discovery_publish tj ''trv'' ''TRV'' n trv_all_options"

definition zone_discovery_publish :: "json_printer \<Rightarrow> string \<Rightarrow> (string \<times> string) option" where
  "zone_discovery_publish tj n = discovery_publish tj ''zone'' ''Zone'' n zone_all_options"

section \<open>Touched entities\<close>

record touched_entities =
  tc_rooms :: "room_idx btree_set"
  tc_plugs :: "plug_idx btree_set"
  tc_heating_zones :: "zone_idx btree_set"
  tc_lights :: "device_idx btree_set"

definition touched_none :: touched_entities where
  "touched_none = \<lparr>tc_rooms = [], tc_plugs = [], tc_heating_zones = [], tc_lights = []\<rparr>"

definition touch_room :: "room_idx \<Rightarrow> touched_entities \<Rightarrow> touched_entities" where
  "touch_room r tc = tc\<lparr>tc_rooms := bs_insert r (tc_rooms tc)\<rparr>"

definition touch_plug :: "plug_idx \<Rightarrow> touched_entities \<Rightarrow> touched_entities" where
  "touch_plug pl tc = tc\<lparr>tc_plugs := bs_insert pl (tc_plugs tc)\<rparr>"

definition touch_zone :: "zone_idx \<Rightarrow> touched_entities \<Rightarrow> touched_entities" where
  "touch_zone z tc = tc\<lparr>tc_heating_zones := bs_insert z (tc_heating_zones tc)\<rparr>"

definition touch_light :: "device_idx \<Rightarrow> touched_entities \<Rightarrow> touched_entities" where
  "touch_light d tc = tc\<lparr>tc_lights := bs_insert d (tc_lights tc)\<rparr>"

definition touch_device_as_plug :: "topology \<Rightarrow> device_idx \<Rightarrow> touched_entities \<Rightarrow> touched_entities option" where
  "touch_device_as_plug t d tc =
     do { pl \<leftarrow> plug_idx_of t d; Some (case pl of Some i \<Rightarrow> touch_plug i tc | None \<Rightarrow> tc) }"

definition touch_zones_where :: "topology \<Rightarrow> (heating_zone_config \<Rightarrow> bool) \<Rightarrow> touched_entities \<Rightarrow> touched_entities" where
  "touch_zones_where t pred tc =
     (case heating_config_of t of
        None \<Rightarrow> tc
      | Some hc \<Rightarrow> fold (\<lambda>(i, z) acc. if pred z then touch_zone i acc else acc) (List.enumerate 0 (hc_zones hc)) tc)"

definition touch_zone_for_trv :: "topology \<Rightarrow> device_idx \<Rightarrow> touched_entities \<Rightarrow> touched_entities option" where
  "touch_zone_for_trv t d tc =
     do { n \<leftarrow> device_name t d;
          Some (touch_zones_where t (\<lambda>z. list_ex (\<lambda>zt. zt_device zt = n) (zone_trvs z)) tc) }"

definition touch_zone_for_relay :: "topology \<Rightarrow> device_idx \<Rightarrow> touched_entities \<Rightarrow> touched_entities option" where
  "touch_zone_for_relay t d tc =
     do { n \<leftarrow> device_name t d; Some (touch_zones_where t (\<lambda>z. zone_relay z = n) tc) }"

definition touched_extend :: "touched_entities \<Rightarrow> touched_entities \<Rightarrow> touched_entities" where
  "touched_extend tc u =
     \<lparr>tc_rooms = fold bs_insert (tc_rooms u) (tc_rooms tc), tc_plugs = fold bs_insert (tc_plugs u) (tc_plugs tc),
      tc_heating_zones = fold bs_insert (tc_heating_zones u) (tc_heating_zones tc),
      tc_lights = fold bs_insert (tc_lights u) (tc_lights tc)\<rparr>"

text \<open>The loop \<open>touch_light(l); for r in light_rooms(l) { touch_room(r) }\<close>, and the group's share of it.\<close>

definition touch_light_and_rooms :: "topology \<Rightarrow> device_idx \<Rightarrow> touched_entities \<Rightarrow> touched_entities" where
  "touch_light_and_rooms t d tc = fold touch_room (light_rooms t d) (touch_light d tc)"

definition touch_group :: "topology \<Rightarrow> room_idx \<Rightarrow> touched_entities \<Rightarrow> touched_entities option" where
  "touch_group t r tc =
     do { ro \<leftarrow> room t r;
          Some (fold touch_room (descendants_of t r)
            (fold (\<lambda>l. touch_light_and_rooms t (le_device l)) (room_light_members ro) (touch_room r tc))) }"

fun touched_from_event :: "event \<Rightarrow> topology \<Rightarrow> touched_entities option" where
  "touched_from_event (Occupancy sensor on lux epoch ts) t =
     do { tc \<leftarrow> foldM (\<lambda>i tc. do { r \<leftarrow> motion_rule t i;
                                  Some (fold (\<lambda>l. touch_light (le_device l)) (mr_lights r) tc) })
                 (motion_rules_for_sensor t sensor) touched_none;
          Some (fold touch_room (rooms_for_motion t sensor) tc) }"
| "touched_from_event (GroupState g on ts) t =
     (case room_idx_by_group t g of None \<Rightarrow> Some touched_none | Some r \<Rightarrow> touch_group t r touched_none)"
| "touched_from_event (PlugState d on w ts) t =
     do { pl \<leftarrow> plug_idx_by_name t d; Some (case pl of None \<Rightarrow> touched_none | Some i \<Rightarrow> touch_plug i touched_none) }"
| "touched_from_event (PlugPowerUpdate d w ts) t =
     do { pl \<leftarrow> plug_idx_by_name t d; Some (case pl of None \<Rightarrow> touched_none | Some i \<Rightarrow> touch_plug i touched_none) }"
| "touched_from_event (LightState d on b ct xy ts) t =
     Some (case device_idx_of t d of None \<Rightarrow> touched_none | Some i \<Rightarrow> touch_light_and_rooms t i touched_none)"
| "touched_from_event (TrvState d lt dem rs sp om sm bat ts) t =
     (case device_idx_of t d of None \<Rightarrow> Some touched_none | Some i \<Rightarrow> touch_zone_for_trv t i touched_none)"
| "touched_from_event (WallThermostatState d on lt om ts) t =
     (case device_idx_of t d of None \<Rightarrow> Some touched_none | Some i \<Rightarrow> touch_zone_for_relay t i touched_none)"
| "touched_from_event (ButtonPress d b g ts) t = Some touched_none"
| "touched_from_event (Tick ts) t = Some touched_none"
| "touched_from_event (PowerMeterState d w kwh ts) t = Some touched_none"

section \<open>Dispatch\<close>

text \<open>\<open>cfg.zones[zone]\<close> after the \<open>expect\<close>.\<close>

definition dispatch_zone :: "topology \<Rightarrow> zone_idx \<Rightarrow> heating_zone_config option" where
  "dispatch_zone t z = do { hc \<leftarrow> heating_config_of t; index (hc_zones hc) z }"

fun dispatch_one ::
  "json_printer \<Rightarrow> 'c sender \<Rightarrow> topology \<Rightarrow> eff \<Rightarrow> touched_entities \<times> 'c \<Rightarrow> (mqtt_error option \<times> touched_entities \<times> 'c) option" where
  "dispatch_one tj send t (PublishLightSet l p) (tc, c) =
     do { n \<leftarrow> device_name t (le_device l);
          let tc' = touch_light_and_rooms t (le_device l) tc;
          let (e, c') = publish_device_set tj send (n @ ''/'' @ show_nat (le_endpoint l)) p False c;
          Some (e, tc', c') }"
| "dispatch_one tj send t (PublishGroupSet r p) (tc, c) =
     do { tc' \<leftarrow> touch_group t r tc;
          ro \<leftarrow> room t r;
          let (e, c') = publish_group_set tj send (room_group_name ro) p c;
          Some (e, tc', c') }"
| "dispatch_one tj send t (PublishDeviceSet d p) (tc, c) =
     do { tc1 \<leftarrow> touch_device_as_plug t d tc;
          tc2 \<leftarrow> touch_zone_for_trv t d tc1;
          tc3 \<leftarrow> touch_zone_for_relay t d tc2;
          n \<leftarrow> device_name t d;
          z \<leftarrow> is_zwave_plug_idx t d;
          let (e, c') = publish_device_set tj send n p z c;
          Some (e, tc3, c') }"
| "dispatch_one tj send t (PublishDeviceGet d) (tc, c) =
     do { n \<leftarrow> device_name t d; let (e, c') = publish_get send n c; Some (e, tc, c') }"
| "dispatch_one tj send t (PublishHaDiscoveryZone z) (tc, c) =
     do { zc \<leftarrow> dispatch_zone t z;
          (topic, bytes) \<leftarrow> zone_discovery_publish tj (zone_name zc);
          let (e, c') = publish_raw send topic bytes True c; Some (e, tc, c') }"
| "dispatch_one tj send t (PublishHaDiscoveryTrv d) (tc, c) =
     do { n \<leftarrow> device_name t d;
          (topic, bytes) \<leftarrow> trv_discovery_publish tj n;
          let (e, c') = publish_raw send topic bytes True c; Some (e, tc, c') }"
| "dispatch_one tj send t (PublishHaStateZone z s) (tc, c) =
     do { zc \<leftarrow> dispatch_zone t z;
          let (e, c') = publish_raw send (ha_state_topic ''zone'' (zone_name zc)) s True c;
          Some (e, touch_zone z tc, c') }"
| "dispatch_one tj send t (PublishHaStateTrv d s) (tc, c) =
     do { tc' \<leftarrow> touch_zone_for_trv t d tc;
          n \<leftarrow> device_name t d;
          let (e, c') = publish_raw send (ha_state_topic ''trv'' n) s True c;
          Some (e, tc', c') }"
| "dispatch_one tj send t (PublishRaw topic p r) (tc, c) =
     (let (e, c') = publish_raw send topic p r c in Some (e, tc, c'))"

text \<open>A failed publish is logged; the batch goes on.\<close>

definition dispatch :: "json_printer \<Rightarrow> 'c sender \<Rightarrow> topology \<Rightarrow> eff list \<Rightarrow> 'c \<Rightarrow> (touched_entities \<times> 'c) option" where
  "dispatch tj send t effs c =
     foldM (\<lambda>e s. map_option snd (dispatch_one tj send t e s)) effs (touched_none, c)"

end
