(* ===== verification/Bridge.thy ===== *)
theory Bridge
  imports Dispatch Deployment "HOL-Library.Sublist"
begin

text \<open>
  The MQTT event loop of \<open>mqtt/mod.rs\<close> and the facts about the whole bridge: the parser never
  panics, the controller's own publishes are never read back as events, dispatch of the effects a
  handler returns never panics, and the bounded channel between the event loop and the daemon.
\<close>

section \<open>The parser never panics\<close>

lemma is_kind_total: "topology_ok t \<Longrightarrow> wp (is_kind t k n) (\<lambda>_. True)"
  using device_idx_of_bound [of t n]
  by (auto simp: is_kind_def device_kind_of_def index_def split: option.split)

lemma is_zwave_plug_total: "topology_ok t \<Longrightarrow> wp (is_zwave_plug t n) (\<lambda>_. True)"
  using device_idx_of_bound [of t n]
  by (auto simp: is_zwave_plug_def is_zwave_plug_idx_def index_def split: option.split)

lemma room_by_group_name_total:
  assumes "topology_ok t"
  shows "wp (room_by_group_name t g) (\<lambda>_. True)"
proof -
  have "i < length (t_rooms t)" if "room_idx_by_group t g = Some i" for i
    using assms that by (auto simp: topology_ok_def room_idx_by_group_def dest: bt_all_get)
  then show ?thesis by (auto simp: room_by_group_name_def room_def index_def split: option.split)
qed

lemma resolve_button_event_total: "topology_ok t \<Longrightarrow> wp (resolve_button_event t d a) (\<lambda>_. True)"
  using device_idx_of_bound [of t d]
  by (auto simp: resolve_button_event_def index_def split: option.split)

lemma parse_zwave_total: "topology_ok t \<Longrightarrow> wp (parse_zwave_event js t topic payload now) (\<lambda>_. True)"
  using is_zwave_plug_total [of t]
  by (auto simp: parse_zwave_event_def split: option.split elim!: wp_mono)

lemma parse_total:
  assumes "topology_ok t"
  shows "wp (parse_event js t clk m) (\<lambda>_. True)"
proof -
  have "wp (parse_state js t clk n payload retained) (\<lambda>_. True)" for n payload retained
  proof -
    have "\<forall>k. \<exists>x. is_kind t k n = Some x" using is_kind_total [OF assms] by (simp add: wp_iff)
    then have "\<exists>f. \<forall>k. is_kind t k n = Some (f k)" by (rule choice)
    then obtain f where "\<forall>k. is_kind t k n = Some (f k)" ..
    moreover obtain ro where "room_by_group_name t n = Some ro"
      using room_by_group_name_total [OF assms] unfolding wp_iff by blast
    ultimately show ?thesis by (simp add: parse_state_def Let_def)
  qed
  moreover have "wp (parse_action t n payload now) (\<lambda>_. True)" for n payload now
    using resolve_button_event_total [OF assms] by (auto simp: parse_action_def wp_iff split: option.split)
  ultimately show ?thesis
    using parse_zwave_total [OF assms, of js "pub_topic m" "pub_payload m" "ck_now clk"]
    by (auto simp: parse_event_def wp_iff split: option.split)
qed

section \<open>The controller does not hear itself\<close>

lemma meter_suffix: "zwave_meter_suffix = ''/meter/endpoint_0/value/66049''"
  by code_simp

lemmas strip_simps = strip_suffix_def strip_prefix_def starts_with_def ends_with_def

lemma unheard:
  "\<not> pub_dup m \<Longrightarrow> pub_topic m = set_topic n \<Longrightarrow> parse_event js t clk m = Some None"
  "\<not> pub_dup m \<Longrightarrow> pub_topic m = get_topic n \<Longrightarrow> parse_event js t clk m = Some None"
  "\<not> pub_dup m \<Longrightarrow> pub_topic m = zwave_switch_set_topic n \<Longrightarrow> parse_event js t clk m = Some None"
  "\<not> pub_dup m \<Longrightarrow> pub_topic m = ha_state_topic ty n \<Longrightarrow> parse_event js t clk m = Some None"
  "\<not> pub_dup m \<Longrightarrow> pub_topic m = discovery_topic ty n \<Longrightarrow> parse_event js t clk m = Some None"
  by (simp_all add: parse_event_def parse_zwave_event_def ignored_topic_def strip_simps meter_suffix
      set_topic_def get_topic_def zwave_switch_set_topic_def ha_state_topic_def discovery_topic_def)

fun is_raw :: "eff \<Rightarrow> bool" where
  "is_raw (PublishRaw topic p r) = True"
| "is_raw _ = False"

lemma own_topic_unheard:
  assumes "eff_topic t e = Some topic" and "\<not> is_raw e" and "pub_topic m = topic"
  shows "parse_event js t' clk m = Some None"
proof (cases "pub_dup m")
  case True
  then show ?thesis by (simp add: parse_event_def)
next
  case False
  have "(\<exists>n. topic = set_topic n) \<or> (\<exists>n. topic = get_topic n) \<or> (\<exists>n. topic = zwave_switch_set_topic n) \<or>
     (\<exists>ty n. topic = ha_state_topic ty n) \<or> (\<exists>ty n. topic = discovery_topic ty n)"
    using assms(1,2) by (cases e) (auto split: Option.bind_splits if_splits)
  then show ?thesis using unheard [OF False] assms(3) by metis
qed

section \<open>Every effect is attempted\<close>

text \<open>A client that keeps what it is given and fails on the messages it is told to fail on.\<close>

definition flaky :: "(outgoing \<Rightarrow> bool) \<Rightarrow> outgoing list sender" where
  "flaky fails out c = (if fails out then Some (ClientError ''queue'') else None, c @ [out])"

definition plug_payload_ok :: "topology \<Rightarrow> eff \<Rightarrow> bool" where
  "plug_payload_ok t e = (case e of
     PublishDeviceSet d p \<Rightarrow> is_zwave_plug_idx t d \<noteq> Some True \<or> (\<exists>s. p = PDeviceStateSet s)
   | _ \<Rightarrow> True)"

definition carries :: "topology \<Rightarrow> eff \<Rightarrow> outgoing \<Rightarrow> bool" where
  "carries t e out = (eff_topic t e = Some (out_topic out) \<and> (out_retain out \<longrightarrow> eff_payload e = None))"

lemma touch_group_total: "r < length (t_rooms t) \<Longrightarrow> \<exists>tc'. touch_group t r tc = Some tc'"
  by (simp add: touch_group_def room_def index_def)

lemma dispatch_one_carries:
  assumes "eff_ok t e" and "\<And>j. \<exists>b. tj j = Inr b" and "plug_payload_ok t e"
  shows "\<exists>err tc' out. dispatch_one tj (flaky fails) t e (tc, c) = Some (err, tc', c @ [out]) \<and> carries t e out"
proof -
  obtain b where b: "\<And>j. tj j = Inr (b j)" using assms(2) by metis
  have d: "device_name t i = Some (di_name (t_devices t ! i))" "is_zwave_plug_idx t i = Some (di_plug_protocol (t_devices t ! i) = Some Zwave)"
      "\<exists>x. plug_idx_of t i = Some x" if "i < length (t_devices t)" for i
    using that by (simp_all add: device_name_def is_zwave_plug_idx_def plug_idx_of_def is_plug_idx_def device_kind_of_def index_def)
  show ?thesis
  proof (cases e)
    case (PublishGroupSet r p)
    with assms(1) obtain tc' where "touch_group t r tc = Some tc'" using touch_group_total by fastforce
    with PublishGroupSet assms(1) b show ?thesis
      by (simp add: publish_group_set_def publish_json_def flaky_def outgoing_def carries_def room_def index_def)
  next
    case (PublishDeviceSet i p)
    with assms(1) have i: "i < length (t_devices t)" by simp
    obtain x where "plug_idx_of t i = Some x" using d(3) [OF i] ..
    with PublishDeviceSet d(1,2) [OF i] assms(3) b show ?thesis
      by (auto simp: publish_device_set_def publish_json_def flaky_def outgoing_def carries_def plug_payload_ok_def
          touch_device_as_plug_def touch_zone_for_trv_def touch_zone_for_relay_def)
  next
    case (PublishLightSet l p)
    with assms(1) d(1) b show ?thesis
      by (simp add: publish_device_set_def publish_json_def flaky_def outgoing_def carries_def endpoint_ok_def)
  next
    case (PublishHaStateTrv i s)
    with assms(1) d(1) show ?thesis
      by (simp add: publish_raw_def touch_zone_for_trv_def flaky_def outgoing_def carries_def)
  next
    case (PublishHaDiscoveryZone z)
    with assms(1) b show ?thesis
      by (auto simp: dispatch_zone_def heating_config_of_def index_def zone_discovery_publish_def discovery_publish_def
          publish_raw_def flaky_def outgoing_def carries_def zone_name_of_def)
  next
    case (PublishHaStateZone z s)
    with assms(1) show ?thesis
      by (auto simp: dispatch_zone_def heating_config_of_def index_def publish_raw_def flaky_def outgoing_def carries_def zone_name_of_def)
  qed (use assms(1) d(1) b in \<open>auto simp: publish_get_def publish_raw_def trv_discovery_publish_def discovery_publish_def
      flaky_def outgoing_def carries_def\<close>)
qed

lemma dispatch_carries:
  assumes "list_all (eff_ok t) effs" and "\<And>j. \<exists>b. tj j = Inr b" and "list_all (plug_payload_ok t) effs"
  shows "\<exists>tc' msgs. foldM (\<lambda>e s. map_option snd (dispatch_one tj (flaky fails) t e s)) effs (tc, c) = Some (tc', c @ msgs) \<and>
    list_all2 (carries t) effs msgs"
  using assms(1,3)
proof (induction effs arbitrary: tc c)
  case (Cons e effs)
  obtain err tc1 out where "dispatch_one tj (flaky fails) t e (tc, c) = Some (err, tc1, c @ [out])" "carries t e out"
    using dispatch_one_carries [of t e tj fails tc c, OF _ assms(2)] Cons.prems by auto
  moreover obtain tc2 msgs where "foldM (\<lambda>e s. map_option snd (dispatch_one tj (flaky fails) t e s)) effs (tc1, c @ [out]) =
      Some (tc2, c @ [out] @ msgs)" "list_all2 (carries t) effs msgs"
    using Cons.IH [of tc1 "c @ [out]"] Cons.prems by auto
  ultimately show ?case by (auto intro!: exI [of _ "out # msgs"])
qed simp

section \<open>The event loop\<close>

text \<open>The bounded channel to the daemon (\<open>tokio::sync::mpsc\<close>) and what polling the client yields.\<close>

record channel =
  ch_queue :: "event list"
  ch_closed :: bool

definition CHANNEL_CAPACITY :: nat where
  "CHANNEL_CAPACITY = 512"

definition channel_new :: channel where
  "channel_new = \<lparr>ch_queue = [], ch_closed = False\<rparr>"

definition enqueue_parsed_event :: "event \<Rightarrow> channel \<Rightarrow> bool \<times> channel" where
  "enqueue_parsed_event ev ch =
     (if ch_closed ch then (False, ch)
      else if length (ch_queue ch) < CHANNEL_CAPACITY then (True, ch\<lparr>ch_queue := ch_queue ch @ [ev]\<rparr>)
      else (True, ch))"

datatype polled = ConnAck | Received publish | OtherPacket | PollError

type_synonym 'c subscriber = "string \<Rightarrow> 'c \<Rightarrow> mqtt_error option \<times> 'c"

definition subscribe_all_topics :: "'c subscriber \<Rightarrow> 'c \<Rightarrow> mqtt_error option \<times> 'c" where
  "subscribe_all_topics sub c =
     (case sub ''zigbee2mqtt/#'' c of (Some e, c') \<Rightarrow> (Some e, c') | (None, c') \<Rightarrow> sub ''zwave/#'' c')"

record 'c mqtt_loop =
  ml_initial_connect :: bool
  ml_channel :: channel
  ml_client :: 'c

definition mqtt_loop_new :: "'c \<Rightarrow> 'c mqtt_loop" where
  "mqtt_loop_new c = \<lparr>ml_initial_connect = True, ml_channel = channel_new, ml_client = c\<rparr>"

text \<open>One turn of the loop; the flag says whether it goes on. \<open>clk\<close> is the clock at that moment.\<close>

fun on_polled ::
  "json_parser \<Rightarrow> 'c subscriber \<Rightarrow> topology \<Rightarrow> clock \<Rightarrow> polled \<Rightarrow> 'c mqtt_loop \<Rightarrow> (bool \<times> 'c mqtt_loop) option" where
  "on_polled js sub t clk ConnAck s =
     (if ml_initial_connect s then Some (True, s\<lparr>ml_initial_connect := False\<rparr>)
      else Some (True, s\<lparr>ml_client := snd (subscribe_all_topics sub (ml_client s))\<rparr>))"
| "on_polled js sub t clk (Received m) s =
     do { ev \<leftarrow> parse_event js t clk m;
          Some (case ev of
            None \<Rightarrow> (True, s)
          | Some e \<Rightarrow> (let (go, ch) = enqueue_parsed_event e (ml_channel s) in (go, s\<lparr>ml_channel := ch\<rparr>))) }"
| "on_polled js sub t clk OtherPacket s = Some (True, s)"
| "on_polled js sub t clk PollError s = Some (True, s)"

fun run_eventloop ::
  "json_parser \<Rightarrow> 'c subscriber \<Rightarrow> topology \<Rightarrow> (clock \<times> polled) list \<Rightarrow> 'c mqtt_loop \<Rightarrow> (bool \<times> 'c mqtt_loop) option" where
  "run_eventloop js sub t [] s = Some (True, s)"
| "run_eventloop js sub t ((clk, x) # xs) s =
     do { (go, s') \<leftarrow> on_polled js sub t clk x s;
          if go then run_eventloop js sub t xs s' else Some (False, s') }"

text \<open>The loop and the daemon run concurrently: a turn of the loop, a receive, or the daemon going
  away. The last two components are the events parsed and the events received so far.\<close>

inductive bridged ::
  "json_parser \<Rightarrow> 'c subscriber \<Rightarrow> topology \<Rightarrow> 'c mqtt_loop \<Rightarrow> event list \<Rightarrow> event list \<Rightarrow> bool"
  for js sub t where
  started: "bridged js sub t (mqtt_loop_new c) [] []"
| quiet: "bridged js sub t s parsed got \<Longrightarrow> on_polled js sub t clk x s = Some (True, s') \<Longrightarrow>
    (\<forall>m. x = Received m \<longrightarrow> parse_event js t clk m = Some None) \<Longrightarrow> bridged js sub t s' parsed got"
| heard: "bridged js sub t s parsed got \<Longrightarrow> on_polled js sub t clk (Received m) s = Some (go, s') \<Longrightarrow>
    parse_event js t clk m = Some (Some ev) \<Longrightarrow> bridged js sub t s' (parsed @ [ev]) got"
| taken: "bridged js sub t s parsed got \<Longrightarrow> ch_queue (ml_channel s) = ev # rest \<Longrightarrow>
    bridged js sub t (s\<lparr>ml_channel := ml_channel s\<lparr>ch_queue := rest\<rparr>\<rparr>) parsed (got @ [ev])"
| closed: "bridged js sub t s parsed got \<Longrightarrow>
    bridged js sub t (s\<lparr>ml_channel := ml_channel s\<lparr>ch_closed := True\<rparr>\<rparr>) parsed got"

lemma quiet_channel:
  "on_polled js sub t clk x s = Some (go, s') \<Longrightarrow> (\<forall>m. x = Received m \<longrightarrow> parse_event js t clk m = Some None) \<Longrightarrow>
     go \<and> ml_channel s' = ml_channel s"
  by (cases x) (auto split: if_splits)

lemma heard_channel:
  "on_polled js sub t clk (Received m) s = Some (go, s') \<Longrightarrow> parse_event js t clk m = Some (Some ev) \<Longrightarrow>
     go = fst (enqueue_parsed_event ev (ml_channel s)) \<and> ml_channel s' = snd (enqueue_parsed_event ev (ml_channel s))"
  by (auto split: prod.splits)

lemma bridged_channel:
  assumes "bridged js sub t s parsed got"
  shows "subseq (got @ ch_queue (ml_channel s)) parsed \<and> length (ch_queue (ml_channel s)) \<le> CHANNEL_CAPACITY \<and>
    (length parsed \<le> CHANNEL_CAPACITY \<and> \<not> ch_closed (ml_channel s) \<longrightarrow> got @ ch_queue (ml_channel s) = parsed)"
  using assms
proof (induction rule: bridged.induct)
  case (heard s parsed got clk m go s' ev)
  note IH = heard.IH
  note e = heard_channel [OF heard.hyps(2,3), THEN conjunct2]
  have "subseq (got @ ch_queue (ml_channel s) @ [ev]) (parsed @ [ev])"
    using IH by (simp flip: append_assoc)
  moreover have "length got + length (ch_queue (ml_channel s)) \<le> length parsed"
    using IH list_emb_length [of "(=)" "got @ ch_queue (ml_channel s)" parsed] by simp
  ultimately show ?case
    using IH e by (auto simp: enqueue_parsed_event_def split: if_splits intro: list_emb_prefix)
next
  case (quiet s parsed got clk x s')
  then show ?case using quiet_channel [of js sub t clk x s True s'] by simp
qed (auto simp: mqtt_loop_new_def channel_new_def)

lemma open_loop_runs:
  assumes "topology_ok t" and "\<not> ch_closed (ml_channel s)"
  shows "\<exists>s'. run_eventloop js sub t xs s = Some (True, s') \<and> \<not> ch_closed (ml_channel s')"
  using assms(2)
proof (induction xs arbitrary: s)
  case (Cons cx xs)
  obtain clk x where cx: "cx = (clk, x)" by (cases cx)
  have "\<exists>s1. on_polled js sub t clk x s = Some (True, s1) \<and> \<not> ch_closed (ml_channel s1)"
  proof (cases x)
    case (Received m)
    obtain ev where "parse_event js t clk m = Some ev" using parse_total [OF assms(1)] unfolding wp_iff by blast
    with Received Cons.prems show ?thesis
      by (auto simp: enqueue_parsed_event_def split: option.split)
  qed (use Cons.prems in auto)
  with Cons.IH cx show ?case by fastforce
qed simp

section \<open>What the bridge promises\<close>

text \<open>C11: The broker cannot stop the bridge. On a topology the builder accepted, whatever sequence of
  messages, acknowledgements and connection errors the client yields, with any bytes as topic and
  payload and whatever the JSON parser makes of them, the event loop neither panics nor ends, as
  long as the daemon holds its end of the channel.\<close>

theorem broker_cannot_stop_the_loop:
  assumes "build_topology c = Some (Inr t)" and "deployable c sc"
  shows "\<exists>s. run_eventloop js sub t polls (mqtt_loop_new client) = Some (True, s)"
  using open_loop_runs [OF built_topology_ok [OF accepted_built [OF assms(1)] assms(2)], of "mqtt_loop_new client" js sub polls]
  by (auto simp: mqtt_loop_new_def channel_new_def)

definition no_subscriber :: "unit subscriber" where
  "no_subscriber topic c = (Some (ClientError ''offline''), c)"

text \<open>A parser that knows two texts.\<close>

definition two_texts :: json_parser where
  "two_texts s =
     (if s = ''on'' then Some (JObject [(''state'', JString ''on''), (''power'', JInt 7)])
      else if s = ''motion'' then Some (JObject [(''illuminance'', JInt (2 ^ 32 + 5)), (''occupancy'', JBool True)])
      else None)"

definition message :: "string \<Rightarrow> string \<Rightarrow> publish" where
  "message topic payload = \<lparr>pub_topic = topic, pub_payload = payload, pub_dup = False, pub_retain = False\<rparr>"

theorem broker_cannot_stop_the_loop_witness:
  "\<exists>t s. build_topology cottage = Some (Inr t) \<and>
     run_eventloop two_texts no_subscriber t
       [(noon, ConnAck), (noon, Received (message ''zigbee2mqtt/kettle'' ''on'')),
        (noon, Received (message ''zigbee2mqtt/pir'' ''garbage'')), (noon, PollError), (noon, ConnAck)] (mqtt_loop_new ()) = Some (True, s)"
proof -
  obtain t where t: "build_topology cottage = Some (Inr t)" using cottage_builds by (elim exE conjE)
  note runs = broker_cannot_stop_the_loop [OF t cottage_deployable, where js = two_texts and sub = no_subscriber and client = "()"]
  show ?thesis by (rule exI [of _ t]) (simp only: t runs simp_thms)
qed



text \<open>No side effect is lost. Dispatching a batch of publishable effects never panics and hands the
  client exactly one message per effect, in order, on the topic the effect names, even when the
  client fails on any of them; commands to devices and groups are never retained.\<close>

theorem dispatch_attempts_every_effect:
  assumes "list_all (eff_ok t) effs" and "\<forall>j. \<exists>b. tj j = Inr b" and "list_all (plug_payload_ok t) effs"
  shows "\<exists>tc msgs. dispatch tj (flaky fails) t effs [] = Some (tc, msgs) \<and>
    list_all2 (\<lambda>e out. eff_topic t e = Some (out_topic out) \<and> (out_retain out \<longrightarrow> eff_payload e = None)) effs msgs"
  using dispatch_carries [OF assms(1) _ assms(3), of tj fails touched_none "[]"] assms(2)
  by (simp add: dispatch_def carries_def [abs_def])

definition silent_printer :: json_printer where
  "silent_printer j = Inr ''{}''"

theorem dispatch_attempts_every_effect_witness:
  "\<exists>tc msgs. dispatch silent_printer (flaky (\<lambda>out. out_topic out = set_topic ''hall-group'')) house
      [PublishGroupSet 0 (state_off 1), PublishDeviceSet 0 device_off] [] = Some (tc, msgs) \<and> length msgs = 2"
proof -
  have "list_all (eff_ok house) [PublishGroupSet 0 (state_off 1), PublishDeviceSet 0 device_off]"
    and "list_all (plug_payload_ok house) [PublishGroupSet 0 (state_off 1), PublishDeviceSet 0 device_off]"
    by (simp_all add: house_def plug_payload_ok_def device_off_def)
  from dispatch_attempts_every_effect [OF this(1) _ this(2), of silent_printer] show ?thesis
    by (fastforce simp: silent_printer_def dest: list_all2_lengthD)
qed



section \<open>What a parsed event can hold\<close>

fun event_in_range :: "event \<Rightarrow> bool" where
  "event_in_range (Occupancy sensor on lux epoch ts) = pred_option (\<lambda>n. n < 2 ^ 32) lux"
| "event_in_range (LightState d on b ct xy ts) = (pred_option (\<lambda>n. n \<le> 255) b \<and> pred_option (\<lambda>n. n \<le> 65535) ct)"
| "event_in_range (PlugPowerUpdate d w ts) = (0 \<le> w)"
| "event_in_range (PowerMeterState d w kwh ts) =
     (pred_option (\<lambda>x. 0 \<le> x) w \<and> pred_option (\<lambda>x. 0 \<le> x) kwh \<and> (w \<noteq> None \<or> kwh \<noteq> None))"
| "event_in_range (TrvState d lt dem rs sp om sm bat ts) = (pred_option (\<lambda>n. n \<le> 100) dem \<and> pred_option (\<lambda>n. n \<le> 100) bat)"
| "event_in_range (Tick ts) = False"
| "event_in_range _ = True"

lemma pred_option_map [simp]: "pred_option P (map_option f x) = pred_option (\<lambda>y. P (f y)) x"
  by (cases x) simp_all

lemma pred_option_True [simp]: "pred_option (\<lambda>_. True) x"
  by (cases x) simp_all

lemma report_in_range:
  "parse_group_state n now v = Some ev \<Longrightarrow> event_in_range ev"
  "parse_plug_state n now v = Some ev \<Longrightarrow> event_in_range ev"
  "parse_power_meter_state n now v = Some ev \<Longrightarrow> event_in_range ev"
  "parse_trv_state n now v = Some ev \<Longrightarrow> event_in_range ev"
  "parse_wall_thermostat_state n now v = Some ev \<Longrightarrow> event_in_range ev"
  "parse_occupancy n clk retained v = Some ev \<Longrightarrow> event_in_range ev"
  "parse_light_state n now v = Some ev \<Longrightarrow> event_in_range ev"
  by (auto simp: parse_group_state_def parse_plug_state_def parse_power_meter_state_def parse_trv_state_def
      parse_wall_thermostat_state_def parse_occupancy_def parse_light_state_def meter_reading_def Let_def
      split: Option.bind_splits if_splits option.splits)

lemma zwave_in_range: "parse_zwave_event js t topic payload now = Some (Some ev) \<Longrightarrow> event_in_range ev"
  by (auto simp: parse_zwave_event_def split: option.splits Option.bind_splits if_splits)

lemma action_in_range: "parse_action t n payload now = Some (Some ev) \<Longrightarrow> event_in_range ev"
  by (auto simp: parse_action_def split: option.splits)

lemma state_in_range: "parse_state js t clk n payload retained = Some (Some ev) \<Longrightarrow> event_in_range ev"
  unfolding parse_state_def Let_def
  by (auto dest: report_in_range split: Option.bind_splits if_splits)

text \<open>C14: What the broker says is bounded before it is believed. A duplicate delivery is never an event; a
  parsed event is never a clock tick, its percentages are at most 100, brightness and colour
  temperature fit their bytes, illuminance fits 32 bits, meter and power-update readings are not
  negative, and a power-meter event carries at least one reading.\<close>

theorem parsed_events_in_range:
  assumes "parse_event js t clk m = Some (Some ev)"
  shows "\<not> pub_dup m \<and> event_in_range ev"
  using assms zwave_in_range action_in_range state_in_range
  by (auto simp: parse_event_def split: if_splits option.splits Option.bind_splits)

theorem parsed_events_in_range_witness:
  "parse_event two_texts house noon (message ''zigbee2mqtt/pir'' ''motion'') =
     Some (Some (Occupancy ''pir'' True (Some 5) (Some 0) (from_secs 1000))) \<and>
   event_in_range (Occupancy ''pir'' True (Some 5) (Some 0) (from_secs 1000))"
proof -
  have p: "parse_event two_texts house noon (message ''zigbee2mqtt/pir'' ''motion'') =
     Some (Some (Occupancy ''pir'' True (Some 5) (Some 0) (from_secs 1000)))" by code_simp
  from parsed_events_in_range [OF p] p show ?thesis by blast
qed

section \<open>Z-Wave topics\<close>

text \<open>The topics the code builds for a Z-Wave plug are the topics it reads: a report on the switch topic
  or on the power topic of a known Z-Wave plug, whatever its name, is an event of exactly that
  plug, a negative power reading counting as zero.\<close>

theorem zwave_topics_read_back:
  assumes "is_zwave_plug t n = Some True"
  shows "(js payload = Some v \<and> get_bool v ''value'' = Some on \<longrightarrow>
      parse_zwave_event js t (zwave_switch_state_topic n) payload now = Some (Some (PlugState n on None now))) \<and>
    (js payload = Some v \<and> get_f64 v ''value'' = Some w \<longrightarrow>
      parse_zwave_event js t (zwave_meter_power_topic n) payload now = Some (Some (PlugPowerUpdate n (max w 0) now)))"
proof -
  have "strip_suffix ''/switch_binary/endpoint_0/currentValue'' (n @ ''/meter/endpoint_0/value/66049'') = None"
    by (simp add: strip_simps)
  moreover have "show_nat POWER_W = ''66049''" by code_simp
  moreover have "strip_prefix ''zwave/'' (''zwave/'' @ s) = Some s" for s by (rule strip_prefix_append)
  ultimately show ?thesis
    using assms strip_suffix_append [of "''/switch_binary/endpoint_0/currentValue''" n]
      strip_suffix_append [of "''/meter/endpoint_0/value/66049''" n]
    by (simp add: parse_zwave_event_def zwave_switch_state_topic_def zwave_meter_power_topic_def meter_suffix)
qed

definition zwave_house :: topology where
  "zwave_house = house\<lparr>t_devices := map (\<lambda>d. d\<lparr>di_plug_protocol := Some Zwave\<rparr>) (t_devices house)\<rparr>"

theorem zwave_topics_read_back_witness:
  "parse_zwave_event (\<lambda>_. Some (JObject [(''value'', JInt (- 5))])) zwave_house (zwave_meter_power_topic ''kettle'') [] 7 =
     Some (Some (PlugPowerUpdate ''kettle'' 0 7))"
proof -
  have z: "is_zwave_plug zwave_house ''kettle'' = Some True" by code_simp
  have "get_f64 (JObject [(''value'', JInt (- 5))]) ''value'' = Some (- 5)" by code_simp
  with zwave_topics_read_back [OF z, of "\<lambda>_. Some (JObject [(''value'', JInt (- 5))])" "[]" _ _ 7 "- 5"] show ?thesis
    by simp
qed

end
