(* ===== verification/Daemon.thy ===== *)
theory Daemon
  imports Bridge
begin

text \<open>
  The daemon: its startup (\<open>daemon.rs\<close>, \<open>daemon/startup.rs\<close>, \<open>daemon/z2m_seed.rs\<close>,
  \<open>daemon/zwave_seed.rs\<close>), one turn of its event loop (\<open>daemon/event_loop.rs\<close>) and the dashboard's
  commands (\<open>daemon/web_bridge.rs\<close>). What the bridges' WebSocket servers answer is an argument of
  the definitions, as are the JSON printer and the MQTT client of the dispatcher.
\<close>

section \<open>Priming the state from Zigbee2MQTT\<close>

record seed_summary =
  sd_power_meters :: u32
  sd_groups :: u32
  sd_lights :: u32
  sd_plugs :: u32
  sd_trvs :: u32
  sd_wall_thermostats :: u32
  sd_motion_sensors :: u32
  sd_ignored :: u32

definition seed_summary_default :: seed_summary where
  "seed_summary_default = \<lparr>sd_power_meters = 0, sd_groups = 0, sd_lights = 0, sd_plugs = 0, sd_trvs = 0,
     sd_wall_thermostats = 0, sd_motion_sensors = 0, sd_ignored = 0\<rparr>"

definition read_on_off :: "json \<Rightarrow> bool option" where
  "read_on_off v = map_option (\<lambda>s. eq_ignore_ascii_case s ''ON'') (get_str v ''state'')"

definition group_event :: "string \<Rightarrow> json \<Rightarrow> instant \<Rightarrow> event option" where
  "group_event g v now = do { on \<leftarrow> read_on_off v; Some (GroupState g on now) }"

definition plug_event :: "string \<Rightarrow> json \<Rightarrow> instant \<Rightarrow> event option" where
  "plug_event d v now = do { on \<leftarrow> read_on_off v; Some (PlugState d on (get_f64 v ''power'') now) }"

definition power_meter_event :: "string \<Rightarrow> json \<Rightarrow> instant \<Rightarrow> event option" where
  "power_meter_event d v now =
     (let watts = meter_reading v ''power''; kwh = meter_reading v ''energy''
      in if watts \<noteq> None \<or> kwh \<noteq> None then Some (PowerMeterState d watts kwh now) else None)"

definition light_event :: "string \<Rightarrow> json \<Rightarrow> instant \<Rightarrow> event option" where
  "light_event d v now =
     do { on \<leftarrow> read_on_off v;
          Some (LightState d on (map_option (\<lambda>n. min n 255) (get_u64 v ''brightness''))
            (map_option (\<lambda>n. min n 65535) (get_u64 v ''color_temp'')) (color_xy v) now) }"

definition trv_event :: "string \<Rightarrow> json \<Rightarrow> instant \<Rightarrow> event option" where
  "trv_event d v now =
     (let temp = get_f64 v ''local_temperature'';
          demand = map_option (\<lambda>n. min n 100) (get_u64 v ''pi_heating_demand'');
          running = get_str v ''running_state'';
          setpoint = get_f64 v ''occupied_heating_setpoint'';
          operating = get_str v ''operating_mode'';
          system = get_str v ''system_mode'';
          battery = map_option (\<lambda>n. min n 100) (get_u64 v ''battery'')
      in if temp = None \<and> demand = None \<and> running = None \<and> setpoint = None \<and> operating = None \<and>
            system = None \<and> battery = None then None
         else Some (TrvState d temp demand running setpoint operating system battery now))"

definition wall_thermostat_event :: "string \<Rightarrow> json \<Rightarrow> instant \<Rightarrow> event option" where
  "wall_thermostat_event d v now =
     (let relay = map_option (\<lambda>s. eq_ignore_ascii_case s ''ON'') (get_str v ''state'');
          temp = get_f64 v ''local_temperature'';
          operating = get_str v ''operating_mode''
      in if relay = None \<and> temp = None \<and> operating = None then None
         else Some (WallThermostatState d relay temp operating now))"

definition occupancy_event :: "string \<Rightarrow> json \<Rightarrow> instant \<Rightarrow> event option" where
  "occupancy_event d v now =
     do { occupied \<leftarrow> get_bool v ''occupancy'';
          Some (Occupancy d occupied (map_option (\<lambda>n. n mod 2 ^ 32) (get_u64 v ''illuminance'')) None now) }"

text \<open>How one entry of the dump is classified: unknown to the topology, or the event it makes, if any, and
  the counter the event moves.\<close>

definition seed_event :: "topology \<Rightarrow> string \<Rightarrow> json \<Rightarrow> instant \<Rightarrow> (event option \<times> (seed_summary \<Rightarrow> seed_summary)) option option" where
  "seed_event t n v now =
     do { ro \<leftarrow> room_by_group_name t n;
          if ro \<noteq> None then Some (Some (group_event n v now, sd_groups_update Suc))
          else do { pl \<leftarrow> is_kind t KPlug n;
          zw \<leftarrow> (if pl then is_zwave_plug t n else Some False);
          if pl \<and> \<not> zw then Some (Some (plug_event n v now, sd_plugs_update Suc))
          else do { meter \<leftarrow> is_kind t KPowerMeter n;
          if meter then Some (Some (power_meter_event n v now, sd_power_meters_update Suc))
          else do { tv \<leftarrow> is_kind t KTrv n;
          if tv then Some (Some (trv_event n v now, sd_trvs_update Suc))
          else do { wt \<leftarrow> is_kind t KWallThermostat n;
          if wt then Some (Some (wall_thermostat_event n v now, sd_wall_thermostats_update Suc))
          else do { l \<leftarrow> is_kind t KLight n;
          if l then Some (Some (light_event n v now, sd_lights_update Suc))
          else if rooms_for_motion t n \<noteq> [] then Some (Some (occupancy_event n v now, sd_motion_sensors_update Suc))
          else Some None } } } } } }"

text \<open>The effects of the events are dropped.\<close>

definition seed_entry :: "string \<times> json \<Rightarrow> seed_summary \<times> processor \<Rightarrow> (seed_summary \<times> processor) option" where
  "seed_entry nv sp =
     (case nv of (n, v) \<Rightarrow> case sp of (s, p) \<Rightarrow>
        do { found \<leftarrow> seed_event (p_topology p) n v (ck_now (p_clock p));
             case found of
               None \<Rightarrow> Some (sd_ignored_update Suc s, p)
             | Some (None, count) \<Rightarrow> Some (s, p)
             | Some (Some e, count) \<Rightarrow> do { (_, p') \<leftarrow> handle_event e p; Some (count s, p') } })"

definition seed_z2m_state :: "(string \<times> json) list \<Rightarrow> processor \<Rightarrow> (seed_summary \<times> processor) option" where
  "seed_z2m_state states p = foldM seed_entry states (seed_summary_default, p)"

section \<open>Priming the state from Z-Wave\<close>

record zwave_node =
  zn_node_id :: u16
  zn_current_name :: string
  zn_current_location :: string
  zn_switch_on :: "bool option"
  zn_power_w :: "f64 option"

definition zwave_node_id_to_name :: "topology \<Rightarrow> (u16, string) btree_map option" where
  "zwave_node_id_to_name t =
     foldM (\<lambda>(i, d) m. do { n \<leftarrow> device_name t d; Some (bt_insert i n m) }) (t_zwave_node_id_to_device t) []"

definition seed_node :: "(u16, string) btree_map \<Rightarrow> zwave_node \<Rightarrow> nat \<times> processor \<Rightarrow> (nat \<times> processor) option" where
  "seed_node plugs node sp =
     (case sp of (seeded, p) \<Rightarrow>
        case bt_get plugs (zn_node_id node) of
          None \<Rightarrow> Some (seeded, p)
        | Some n \<Rightarrow>
            (case zn_switch_on node of
               None \<Rightarrow> Some (seeded, p)
             | Some on \<Rightarrow>
                 do { (_, p') \<leftarrow> handle_event (PlugState n on (zn_power_w node) (ck_now (p_clock p))) p;
                      Some (Suc seeded, p') }))"

text \<open>\<open>fetched\<close> is what \<open>fetch_nodes\<close> returns.\<close>

definition seed_zwave_state ::
  "(string + zwave_node list) \<Rightarrow> processor \<Rightarrow> ((string + nat) \<times> processor) option" where
  "seed_zwave_state fetched p =
     do { plugs \<leftarrow> zwave_node_id_to_name (p_topology p);
          if plugs = [] then Some (Inr 0, p)
          else (case fetched of
            Inl e \<Rightarrow> Some (Inl e, p)
          | Inr nodes \<Rightarrow> do { (k, p') \<leftarrow> foldM (seed_node plugs) nodes (0, p); Some (Inr k, p') }) }"

text \<open>\<open>None\<close> stands for a bridge without a URL, \<open>Inl\<close> for a failed fetch: both leave the state alone.\<close>

definition refresh_state ::
  "(string + (string \<times> json) list) option \<Rightarrow> (string + zwave_node list) option \<Rightarrow> processor \<Rightarrow> processor option" where
  "refresh_state z2m zwave p =
     do { p1 \<leftarrow> (case z2m of Some (Inr states) \<Rightarrow> map_option snd (seed_z2m_state states p) | _ \<Rightarrow> Some p);
          plugs \<leftarrow> zwave_node_id_to_name (p_topology p1);
          if plugs = [] then Some p1
          else (case zwave of Some fetched \<Rightarrow> map_option snd (seed_zwave_state fetched p1) | None \<Rightarrow> Some p1) }"

section \<open>Dashboard commands\<close>

datatype control_command =
    CmdRecallScene string u8
  | CmdSetRoomOff string
  | CmdSetMotionEnabled string bool
  | CmdSetHeatDemandEnabled string bool
  | CmdValveBoost string boost_change
  | CmdValveSchedule string "(string + temperature_schedule) option"
  | CmdRoomSchedule string "room_schedule_plan option"
  | CmdMotionSchedule string "slot_plan list option"
  | CmdTimedActionTime string "string option"
  | CmdPlugSchedule string "plug_schedule_plan option"
  | CmdSetPlugPower string bool

type_synonym command_result = "((override_error + eff list) \<times> processor) option"

definition accepted_with :: "(eff list \<times> processor) option \<Rightarrow> command_result" where
  "accepted_with m = map_option (\<lambda>(e, p'). (Inr e, p')) m"

text \<open>The settings commands are \<open>unreachable!\<close> here.\<close>

fun control_effects :: "control_command \<Rightarrow> instant \<Rightarrow> processor \<Rightarrow> command_result" where
  "control_effects (CmdRecallScene n sid) now p =
     (case room_idx_of (p_topology p) n of
        None \<Rightarrow> Some (Inl (OtherMessage (''Unknown light group: '' @ n)), p)
      | Some i \<Rightarrow>
          do { ro \<leftarrow> room (p_topology p) i;
               if \<not> list_ex (\<lambda>s. scene_id s = sid) (ss_scenes (room_scenes ro))
               then Some (Inl (OtherMessage (''Unknown scene '' @ show_nat sid @ '' for '' @ n)), p)
               else accepted_with (web_recall_scene n sid now p) })"
| "control_effects (CmdSetRoomOff n) now p =
     (case room_idx_of (p_topology p) n of
        None \<Rightarrow> Some (Inl (OtherMessage (''Unknown light group: '' @ n)), p)
      | Some i \<Rightarrow> accepted_with (web_set_room_off n now p))"
| "control_effects (CmdSetPlugPower d on) now p =
     (case device_idx_of (p_topology p) d of
        None \<Rightarrow> Some (Inl (OtherMessage (''Unknown plug: '' @ d)), p)
      | Some i \<Rightarrow>
          do { pl \<leftarrow> is_plug_idx (p_topology p) i;
               if \<not> pl then Some (Inl (OtherMessage (''Device is not a plug: '' @ d)), p)
               else accepted_with (web_set_plug_power d on now p) })"
| "control_effects _ now p = None"

definition without_effects :: "((override_error + unit) \<times> processor) option \<Rightarrow> command_result" where
  "without_effects m = map_option (\<lambda>(r, p'). (map_sum id (\<lambda>_. []) r, p')) m"

fun run_command :: "settings_repository \<Rightarrow> control_command \<Rightarrow> instant \<Rightarrow> processor \<Rightarrow> command_result" where
  "run_command repo (CmdValveBoost d b) now p = without_effects (change_valve_boost repo d b p)"
| "run_command repo (CmdValveSchedule d v) now p = without_effects (change_valve_schedule repo d v p)"
| "run_command repo (CmdRoomSchedule n v) now p = without_effects (change_room_schedule repo n v p)"
| "run_command repo (CmdMotionSchedule n v) now p = without_effects (change_motion_schedule repo n v p)"
| "run_command repo (CmdTimedActionTime n v) now p = without_effects (change_timed_action_time repo n v p)"
| "run_command repo (CmdPlugSchedule d v) now p = without_effects (change_plug_schedule repo d v p)"
| "run_command repo (CmdSetHeatDemandEnabled d en) now p = without_effects (change_heat_demand_enabled repo d en p)"
| "run_command repo (CmdSetMotionEnabled n en) now p = without_effects (change_motion_enabled repo n en now p)"
| "run_command repo cmd now p = control_effects cmd now p"

text \<open>The reply to the dashboard, and the state after dispatching the effects.\<close>

definition handle_ws_command ::
  "json_printer \<Rightarrow> 'c sender \<Rightarrow> settings_repository \<Rightarrow> control_command \<Rightarrow> processor \<times> 'c \<Rightarrow>
   ((override_error + unit) \<times> processor \<times> 'c) option" where
  "handle_ws_command tj send repo cmd s =
     (case s of (p, c) \<Rightarrow>
        do { (r, p') \<leftarrow> run_command repo cmd (ck_now (p_clock p)) p;
             case r of
               Inl e \<Rightarrow> Some (Inl e, p', c)
             | Inr effs \<Rightarrow> do { (_, c') \<leftarrow> dispatch tj send (p_topology p') effs c; Some (Inr (), p', c') } })"

section \<open>The event loop\<close>

text \<open>What one turn of \<open>select!\<close> yields. A tick and an elapsed press deadline both become a tick event.\<close>

datatype wake =
    EventReceived event
  | TickElapsed
  | DeadlineElapsed
  | CommandReceived control_command

definition process_event ::
  "json_printer \<Rightarrow> 'c sender \<Rightarrow> event \<Rightarrow> processor \<times> 'c \<Rightarrow> (touched_entities \<times> processor \<times> 'c) option" where
  "process_event tj send ev s =
     (case s of (p, c) \<Rightarrow>
        let t = p_topology p in
        do { touched \<leftarrow> touched_from_event ev t;
             (effs, p') \<leftarrow> handle_event ev p;
             (dispatched, c') \<leftarrow> dispatch tj send t effs c;
             Some (touched_extend touched dispatched, p', c') })"

definition event_loop_turn ::
  "json_printer \<Rightarrow> 'c sender \<Rightarrow> settings_repository \<times> clock \<times> wake \<Rightarrow> processor \<times> 'c \<Rightarrow> (processor \<times> 'c) option" where
  "event_loop_turn tj send turn s =
     (case turn of (repo, clk, w) \<Rightarrow> case s of (p0, c) \<Rightarrow>
        let p = p0\<lparr>p_clock := clk\<rparr>; ticked = Tick (ck_now clk) in
        (case w of
           EventReceived ev \<Rightarrow> map_option snd (process_event tj send ev (p, c))
         | TickElapsed \<Rightarrow> map_option snd (process_event tj send ticked (p, c))
         | DeadlineElapsed \<Rightarrow> map_option snd (process_event tj send ticked (p, c))
         | CommandReceived cmd \<Rightarrow> map_option snd (handle_ws_command tj send repo cmd (p, c))))"

text \<open>From the configuration to the loop: \<open>loaded\<close> is what the settings store returned, \<open>z2m\<close> and \<open>zwave\<close>
  what the bridges answered, \<open>turns\<close> what the loop wakes up for until its channel closes. Reading the
  store and connecting to the broker have succeeded; when one of them fails the daemon ends with
  that error before it has any state.\<close>

definition daemon_start ::
  "json_printer \<Rightarrow> 'c sender \<Rightarrow> sunrise_crate \<Rightarrow> config \<Rightarrow> clock \<Rightarrow> control_settings \<Rightarrow>
   (string + (string \<times> json) list) option \<Rightarrow> (string + zwave_node list) option \<Rightarrow> 'c \<Rightarrow>
   (topology_error + processor \<times> 'c) option" where
  "daemon_start tj send sc conf clk loaded z2m zwave c =
     do { built \<leftarrow> build_topology conf;
          case built of
            Inl e \<Rightarrow> Some (Inl e)
          | Inr t \<Rightarrow>
              do { p1 \<leftarrow> restore_settings loaded (processor_new t clk (conf_defaults conf) (conf_location conf) sc);
                   p2 \<leftarrow> refresh_state z2m zwave p1;
                   (effs, p3) \<leftarrow> startup_turn_off_motion_zones (ck_now clk) p2;
                   (_, c') \<leftarrow> dispatch tj send t effs c;
                   p4 \<leftarrow> arm_kill_switches_for_active_plugs (ck_now clk) p3;
                   Some (Inr (p4, c')) } }"

definition daemon_run ::
  "json_printer \<Rightarrow> 'c sender \<Rightarrow> (settings_repository \<times> clock \<times> wake) list \<Rightarrow> processor \<times> 'c \<Rightarrow> (processor \<times> 'c) option" where
  "daemon_run tj send turns s = foldM (event_loop_turn tj send) turns s"

section \<open>Nothing panics\<close>

lemma foldM_total: "(\<And>x s. x \<in> set xs \<Longrightarrow> \<exists>s'. f x s = Some s') \<Longrightarrow> \<exists>s'. foldM f xs s = Some s'"
proof (induction xs arbitrary: s)
  case (Cons x xs)
  then obtain s1 where "f x s = Some s1" by fastforce
  with Cons show ?case by simp
qed simp

lemma plug_idx_of_total: "i < length (t_devices t) \<Longrightarrow> \<exists>x. plug_idx_of t i = Some x"
  by (simp add: plug_idx_of_def is_plug_idx_def device_kind_of_def index_def)

lemma touched_total:
  assumes "topology_ok t"
  shows "\<exists>tc. touched_from_event ev t = Some tc"
proof -
  note d = device_idx_of_bound [OF assms]
  have plugs: "\<exists>x. plug_idx_by_name t n = Some x" for n
    using plug_idx_of_total d by (auto simp: plug_idx_by_name_def split: option.split)
  show ?thesis
  proof (cases ev)
    case (Occupancy sensor on lux epoch ts)
    have "\<exists>tc. foldM (\<lambda>i tc. do { r \<leftarrow> motion_rule t i; Some (fold (\<lambda>l. touch_light (le_device l)) (mr_lights r) tc) })
        (motion_rules_for_sensor t sensor) touched_none = Some tc"
      by (rule foldM_total) (use motion_rules_for_sensor_bound [OF assms] in \<open>simp add: motion_rule_def index_def\<close>)
    with Occupancy show ?thesis by auto
  next
    case (GroupState g on ts)
    have "i < length (t_rooms t)" if "room_idx_by_group t g = Some i" for i
      using assms that by (auto simp: topology_ok_def room_idx_by_group_def dest: bt_all_get)
    with GroupState touch_group_total show ?thesis by (auto split: option.split)
  next
    case (PlugState n on w ts)
    then show ?thesis using plugs [of n] by auto
  next
    case (PlugPowerUpdate n w ts)
    then show ?thesis using plugs [of n] by auto
  qed (use d in \<open>auto simp: touch_zone_for_trv_def touch_zone_for_relay_def device_name_def index_def split: option.split\<close>)
qed

lemma dispatch_one_total:
  fixes send :: "'c sender"
  assumes "eff_ok t e" and "\<And>j. \<exists>b. tj j = Inr b"
  shows "\<exists>r. dispatch_one tj send t e (tc, c) = Some r"
proof -
  obtain b where b: "\<And>j. tj j = Inr (b j)" using assms(2) by metis
  have d: "device_name t i = Some (di_name (t_devices t ! i))" "is_zwave_plug_idx t i = Some (di_plug_protocol (t_devices t ! i) = Some Zwave)"
    if "i < length (t_devices t)" for i
    using that by (simp_all add: device_name_def is_zwave_plug_idx_def index_def)
  show ?thesis
  proof (cases e)
    case (PublishGroupSet r p)
    with assms(1) obtain tc' where "touch_group t r tc = Some tc'" using touch_group_total by fastforce
    with PublishGroupSet assms(1) show ?thesis by (simp add: room_def index_def split: prod.split)
  next
    case (PublishDeviceSet i p)
    with assms(1) have i: "i < length (t_devices t)" by simp
    obtain x where "plug_idx_of t i = Some x" using plug_idx_of_total [OF i] ..
    with PublishDeviceSet d [OF i] show ?thesis
      by (auto simp: touch_device_as_plug_def touch_zone_for_trv_def touch_zone_for_relay_def split: prod.split)
  qed (use assms(1) d b in \<open>auto simp: endpoint_ok_def touch_zone_for_trv_def dispatch_zone_def heating_config_of_def index_def
      trv_discovery_publish_def zone_discovery_publish_def discovery_publish_def split: prod.split\<close>)
qed

lemma dispatch_total:
  assumes "list_all (eff_ok t) effs" and "\<And>j. \<exists>b. tj j = Inr b"
  shows "\<exists>tc c'. dispatch tj send t effs c = Some (tc, c')"
proof -
  have "\<exists>s'. foldM (\<lambda>e s. map_option snd (dispatch_one tj send t e s)) effs (touched_none, c) = Some s'"
    by (rule foldM_total) (use assms dispatch_one_total [OF _ assms(2)] in \<open>fastforce simp: list_all_iff\<close>)
  then show ?thesis by (simp add: dispatch_def)
qed

lemma foldM_frame:
  assumes "\<And>x s s'. f x s = Some s' \<Longrightarrow> g s' = g s" and "foldM f xs s = Some s'"
  shows "g s' = g s"
  using assms(2) by (induction xs arbitrary: s) (auto split: Option.bind_splits dest: assms(1))

lemma arm_topology: "arm_kill_switch_rules d w ts p = Some q \<Longrightarrow> p_topology q = p_topology p"
  by (auto simp: arm_kill_switch_rules_def Let_def split: option.splits Option.bind_splits)

lemma restore_topology:
  assumes "restore_settings s p = Some q"
  shows "p_topology q = p_topology p"
proof -
  have room: "p_topology q' = p_topology q" if "discard_room x q = Some q'" for x q q'
    using that by (cases x) (auto simp: discard_room_def apply_room_override_def Let_def upd_settings_def
        split: Option.bind_splits sum.splits)
  have plug: "p_topology q' = p_topology q" if "discard_plug x q = Some q'" for x q q'
    using that by (cases x) (auto simp: discard_plug_def apply_plug_override_def Let_def upd_settings_def
        split: Option.bind_splits sum.splits option.splits if_splits dest!: arm_topology)
  have rooms: "p_topology q' = p_topology q" if "foldM discard_room xs q = Some q'" for xs q q'
    by (rule foldM_frame [OF room that])
  have plugs: "p_topology q' = p_topology q" if "foldM discard_plug xs q = Some q'" for xs q q'
    by (rule foldM_frame [OF plug that])
  show ?thesis
    using assms
    by (auto simp: restore_settings_def discard_inapplicable_overrides_def Let_def upd_settings_def split: Option.bind_splits
        dest!: rooms plugs)
qed

text \<open>Every entry point answers, keeps the invariant and the topology, and asks for publishable effects.\<close>

definition answers :: "processor \<Rightarrow> eff list \<Rightarrow> processor \<Rightarrow> bool" where
  "answers p effs q = (list_all (eff_ok (p_topology p)) effs \<and> proc_ok q \<and> p_topology q = p_topology p)"

lemma servesE:
  assumes "serves h" and "proc_ok p"
  obtains effs q where "h p = Some (effs, q)" and "answers p effs q"
  using assms by (auto simp: serves_def wp_iff answers_def)

lemma event_serves: "serves (handle_event ev)"
  using on_input_serves [of test_repository "Incoming ev"] by simp

lemma process_event_ok:
  fixes send :: "'c sender"
  assumes "proc_ok p" and "\<And>j. \<exists>b. tj j = Inr b"
  shows "\<exists>tc q c'. process_event tj send ev (p, c) = Some (tc, q, c') \<and> proc_ok q \<and> p_topology q = p_topology p"
proof -
  obtain tc where tc: "touched_from_event ev (p_topology p) = Some tc"
    using touched_total [OF proc_ok_topology [OF assms(1)]] by blast
  obtain effs q where h: "handle_event ev p = Some (effs, q)" "answers p effs q"
    using servesE [OF event_serves assms(1)] by blast
  obtain tc' c' where "dispatch tj send (p_topology p) effs c = Some (tc', c')"
    using dispatch_total [OF _ assms(2)] h(2) by (fastforce simp: answers_def)
  with tc h show ?thesis by (simp add: process_event_def Let_def answers_def)
qed

definition result_ok :: "processor \<Rightarrow> (override_error + eff list) \<times> processor \<Rightarrow> bool" where
  "result_ok p = (\<lambda>(r, q). proc_ok q \<and> p_topology q = p_topology p \<and> (\<forall>effs. r = Inr effs \<longrightarrow> list_all (eff_ok (p_topology p)) effs))"

lemma accepted_with_ok: "serves h \<Longrightarrow> proc_ok p \<Longrightarrow> wp (accepted_with (h p)) (result_ok p)"
  by (auto simp: serves_def wp_iff accepted_with_def result_ok_def)

lemma without_effects_ok:
  assumes "serves (\<lambda>p. silently (m p))" and "proc_ok p"
  shows "wp (without_effects (m p)) (result_ok p)"
proof -
  obtain effs q where "silently (m p) = Some (effs, q)" and q: "answers p effs q" by (rule servesE [OF assms])
  then obtain r where "m p = Some (r, q)" by (auto simp: silently_def)
  with q have "m p = Some (r, q)" "proc_ok q" "p_topology q = p_topology p" by (simp_all add: answers_def)
  then show ?thesis by (cases r) (simp_all add: without_effects_def result_ok_def)
qed

lemma run_command_ok:
  assumes "proc_ok p"
  shows "wp (run_command repo cmd now p) (result_ok p)"
proof -
  note s = on_input_serves [where repo = repo]
  have w: "serves (\<lambda>p. web_recall_scene n sid now p)" "serves (\<lambda>p. web_set_room_off n now p)" "serves (\<lambda>p. web_set_plug_power d on now p)"
    for n sid d on
    using s [of "RecallScene n sid now"] s [of "RoomOff n now"] s [of "PlugPower d on now"] by (simp_all add: eta_contract_eq)
  have same: "result_ok p (Inl e, p)" for e using assms by (simp add: result_ok_def)
  note b = device_idx_of_bound [OF proc_ok_topology [OF assms]] room_idx_of_bound [OF proc_ok_topology [OF assms]]
  show ?thesis
  proof (cases cmd)
    case (CmdRecallScene n sid)
    then show ?thesis using same b accepted_with_ok [OF w(1) assms] by (auto simp: room_def index_def split: option.split)
  next
    case (CmdSetRoomOff n)
    then show ?thesis using same accepted_with_ok [OF w(2) assms] by (auto split: option.split)
  next
    case (CmdSetPlugPower d on)
    then show ?thesis using same b accepted_with_ok [OF w(3) assms]
      by (auto simp: is_plug_idx_def device_kind_of_def index_def split: option.split)
  next
    case (CmdValveBoost d v)
    then show ?thesis using without_effects_ok [OF _ assms] s [of "ValveBoostChange d v"] by simp
  next
    case (CmdValveSchedule d v)
    then show ?thesis using without_effects_ok [OF _ assms] s [of "ValveScheduleChange d v"] by simp
  next
    case (CmdRoomSchedule n v)
    then show ?thesis using without_effects_ok [OF _ assms] s [of "RoomScheduleChange n v"] by simp
  next
    case (CmdMotionSchedule n v)
    then show ?thesis using without_effects_ok [OF _ assms] s [of "MotionScheduleChange n v"] by simp
  next
    case (CmdTimedActionTime n v)
    then show ?thesis using without_effects_ok [OF _ assms] s [of "TimedActionChange n v"] by simp
  next
    case (CmdPlugSchedule d v)
    then show ?thesis using without_effects_ok [OF _ assms] s [of "PlugScheduleChange d v"] by simp
  next
    case (CmdSetMotionEnabled n en)
    then show ?thesis using without_effects_ok [OF _ assms] s [of "MotionEnabled n en now"] by simp
  next
    case (CmdSetHeatDemandEnabled d en)
    then show ?thesis using without_effects_ok [OF _ assms] s [of "HeatDemandEnabled d en"] by simp
  qed
qed

lemma turn_ok:
  fixes send :: "'c sender"
  assumes "proc_ok p" and "\<And>j. \<exists>b. tj j = Inr b"
  shows "\<exists>q c'. event_loop_turn tj send turn (p, c) = Some (q, c') \<and> proc_ok q \<and> p_topology q = p_topology p"
proof -
  obtain repo clk w where turn: "turn = (repo, clk, w)" by (cases turn)
  let ?p = "p\<lparr>p_clock := clk\<rparr>"
  have p: "proc_ok ?p" "p_topology ?p = p_topology p" using assms(1) by (simp_all add: proc_ok_clock)
  have ev: "\<exists>q c'. map_option snd (process_event tj send e (?p, c)) = Some (q, c') \<and> proc_ok q \<and> p_topology q = p_topology p" for e
    using process_event_ok [where tj = tj and send = send and c = c and ev = e, OF p(1) assms(2)] p(2) by auto
  have cmd: "\<exists>q c'. map_option snd (handle_ws_command tj send repo cmd (?p, c)) = Some (q, c') \<and> proc_ok q \<and> p_topology q = p_topology p" for cmd
  proof -
    obtain r q where r: "run_command repo cmd (ck_now clk) ?p = Some (r, q)" "proc_ok q" "p_topology q = p_topology p"
        "\<And>effs. r = Inr effs \<Longrightarrow> list_all (eff_ok (p_topology p)) effs"
      using run_command_ok [OF p(1), of repo cmd "ck_now clk"] p(2) by (auto simp: wp_iff result_ok_def)
    show ?thesis
    proof (cases r)
      case (Inr effs)
      obtain tc c' where "dispatch tj send (p_topology q) effs c = Some (tc, c')"
        using dispatch_total [where tj = tj and send = send and c = c, OF r(4) [OF Inr] assms(2)] r(3) by auto
      with r Inr show ?thesis by (simp add: handle_ws_command_def)
    qed (use r in \<open>simp add: handle_ws_command_def\<close>)
  qed
  note unfold = turn event_loop_turn_def prod.case Let_def wake.case
  show ?thesis
  proof (cases w)
    case (EventReceived e)
    show ?thesis unfolding unfold EventReceived by (rule ev)
  next
    case (CommandReceived cm)
    show ?thesis unfolding unfold CommandReceived by (rule cmd)
  next
    case TickElapsed
    show ?thesis unfolding unfold TickElapsed by (rule ev)
  next
    case DeadlineElapsed
    show ?thesis unfolding unfold DeadlineElapsed by (rule ev)
  qed
qed

lemma run_ok:
  fixes send :: "'c sender"
  assumes "proc_ok p" and "\<And>j. \<exists>b. tj j = Inr b"
  shows "\<exists>q c'. daemon_run tj send turns (p, c) = Some (q, c') \<and> proc_ok q \<and> p_topology q = p_topology p"
  using assms(1) unfolding daemon_run_def
proof (induction turns arbitrary: p c)
  case (Cons turn turns)
  obtain q c' where "event_loop_turn tj send turn (p, c) = Some (q, c')" "proc_ok q" "p_topology q = p_topology p"
    using turn_ok [where tj = tj and send = send and c = c, OF Cons.prems assms(2)] by blast
  with Cons.IH [of q c'] show ?case by auto
qed simp

section \<open>Startup does not panic\<close>

lemma seed_event_total:
  assumes "topology_ok t"
  shows "\<exists>r. seed_event t n v now = Some r"
proof -
  have "\<forall>k. \<exists>x. is_kind t k n = Some x" using is_kind_total [OF assms] by (simp add: wp_iff)
  then have "\<exists>f. \<forall>k. is_kind t k n = Some (f k)" by (rule choice)
  then obtain f where "\<forall>k. is_kind t k n = Some (f k)" ..
  moreover obtain ro where "room_by_group_name t n = Some ro"
    using room_by_group_name_total [OF assms] unfolding wp_iff by blast
  moreover obtain z where "is_zwave_plug t n = Some z" using is_zwave_plug_total [OF assms] unfolding wp_iff by blast
  ultimately show ?thesis by (simp add: seed_event_def)
qed

lemma event_ok: "proc_ok p \<Longrightarrow> wp (handle_event ev p) (\<lambda>(_, q). proc_ok q \<and> p_topology q = p_topology p)"
  using event_serves [of ev] by (auto simp: serves_def elim!: wp_mono)

lemma handled_ok:
  assumes "proc_ok p"
  shows "wp (do { (_, q) \<leftarrow> handle_event ev p; Some (k q) }) (\<lambda>r. \<exists>q. r = k q \<and> proc_ok q \<and> p_topology q = p_topology p)"
  using event_ok [OF assms, of ev] by (auto simp: wp_iff)

lemma seed_z2m_ok:
  assumes "proc_ok p"
  shows "wp (seed_z2m_state states p) (\<lambda>(_, q). proc_ok q \<and> p_topology q = p_topology p)"
  unfolding seed_z2m_state_def
proof (rule wp_foldM)
  fix nv :: "string \<times> json" and sp :: "seed_summary \<times> processor"
  assume i: "case sp of (_, q) \<Rightarrow> proc_ok q \<and> p_topology q = p_topology p"
  obtain n v s q where nv: "nv = (n, v)" "sp = (s, q)" by (cases nv, cases sp)
  with i have q: "proc_ok q" "p_topology q = p_topology p" by simp_all
  obtain r where "seed_event (p_topology q) n v (ck_now (p_clock q)) = Some r"
    using seed_event_total [OF proc_ok_topology [OF q(1)]] by blast
  moreover have "wp (do { (_, p') \<leftarrow> handle_event e q; Some (count s, p') }) (\<lambda>(_, q). proc_ok q \<and> p_topology q = p_topology p)"
    for e and count :: "seed_summary \<Rightarrow> seed_summary"
    using handled_ok [OF q(1), of e "\<lambda>p'. (count s, p')"] q(2) by (auto elim!: wp_mono)
  ultimately show "wp (seed_entry nv sp) (\<lambda>(_, q). proc_ok q \<and> p_topology q = p_topology p)"
    using nv q by (simp add: seed_entry_def split: option.split)
qed (use assms in simp)

lemma zwave_names_total: "inventory_ok t \<Longrightarrow> \<exists>m. zwave_node_id_to_name t = Some m"
  unfolding zwave_node_id_to_name_def
  by (rule foldM_total) (auto simp: inventory_ok_def bt_all_def list_all_iff device_name_def index_def)

lemma seed_zwave_ok:
  assumes "proc_ok p" and "inventory_ok (p_topology p)"
  shows "wp (seed_zwave_state fetched p) (\<lambda>(_, q). proc_ok q \<and> p_topology q = p_topology p)"
proof -
  obtain plugs where plugs: "zwave_node_id_to_name (p_topology p) = Some plugs" using zwave_names_total [OF assms(2)] ..
  have "wp (foldM (seed_node plugs) nodes (0, p)) (\<lambda>(_, q). proc_ok q \<and> p_topology q = p_topology p)" for nodes
  proof (rule wp_foldM)
    fix node and sp :: "nat \<times> processor"
    assume i: "case sp of (_, q) \<Rightarrow> proc_ok q \<and> p_topology q = p_topology p"
    obtain k q where sp: "sp = (k, q)" by (cases sp)
    with i have q: "proc_ok q" "p_topology q = p_topology p" by simp_all
    have "wp (do { (_, p') \<leftarrow> handle_event e q; Some (Suc k, p') }) (\<lambda>(_, q). proc_ok q \<and> p_topology q = p_topology p)" for e
      using handled_ok [OF q(1), of e "\<lambda>p'. (Suc k, p')"] q(2) by (auto elim!: wp_mono)
    then show "wp (seed_node plugs node sp) (\<lambda>(_, q). proc_ok q \<and> p_topology q = p_topology p)"
      using sp q by (simp add: seed_node_def del: handle_event.simps split: option.split)
  qed (use assms in simp)
  from this [of "projr fetched"] plugs assms(1) show ?thesis
    by (cases fetched) (auto simp: seed_zwave_state_def wp_iff)
qed

lemma refresh_ok:
  assumes "proc_ok p" and "inventory_ok (p_topology p)"
  shows "wp (refresh_state z2m zwave p) (\<lambda>q. proc_ok q \<and> p_topology q = p_topology p)"
proof -
  obtain p1 where p1: "(case z2m of Some (Inr states) \<Rightarrow> map_option snd (seed_z2m_state states p) | _ \<Rightarrow> Some p) = Some p1"
      "proc_ok p1" "p_topology p1 = p_topology p"
    using seed_z2m_ok [OF assms(1), of "projr (the z2m)"] assms(1) by (cases z2m; cases "the z2m") (auto simp: wp_iff)
  obtain plugs where plugs: "zwave_node_id_to_name (p_topology p1) = Some plugs" using zwave_names_total assms(2) p1(3) by metis
  have z: "wp (seed_zwave_state fetched p1) (\<lambda>(_, q). proc_ok q \<and> p_topology q = p_topology p)" for fetched
    using seed_zwave_ok [OF p1(2)] assms(2) p1(3) by simp
  from z [of "the zwave"] show ?thesis
    using p1 plugs by (auto simp: refresh_state_def wp_iff split: option.split)
qed

lemma start_ok:
  fixes send :: "'c sender"
  assumes t: "build_topology conf = Some (Inr t)" and d: "deployable conf sc" and tj: "\<And>j. \<exists>b. tj j = Inr b"
  shows "\<exists>q c'. daemon_start tj send sc conf clk loaded z2m zwave c = Some (Inr (q, c')) \<and> proc_ok q \<and> p_topology q = t"
proof -
  let ?p0 = "processor_new t clk (conf_defaults conf) (conf_location conf) sc"
  note b = accepted_built [OF t]
  have p0: "proc_ok ?p0" "no_cycles (p_world ?p0)" "p_topology ?p0 = t"
    using built_proc_ok [OF b d] by (simp_all add: no_cycles_def processor_new_def world_new_def)
  obtain p1 where p1: "restore_settings loaded ?p0 = Some p1" "proc_ok p1" "p_topology p1 = t"
    using restore_settings_safe [OF p0(1,2), of loaded] restore_topology [of loaded ?p0] p0(3) by (auto simp: wp_iff)
  obtain p2 where p2: "refresh_state z2m zwave p1 = Some p2" "proc_ok p2" "p_topology p2 = t"
    using refresh_ok [OF p1(2), of z2m zwave] b p1(3) by (auto simp: wp_iff built_def)
  obtain effs p3 where p3: "startup_turn_off_motion_zones (ck_now clk) p2 = Some (effs, p3)" "answers p2 effs p3"
    by (rule servesE [OF serves_safe [OF startup_turn_off_motion_zones_safe] p2(2)])
  obtain tc c' where c': "dispatch tj send t effs c = Some (tc, c')"
    using dispatch_total [where tj = tj and send = send and c = c, OF _ tj] p3(2) p2(3) by (fastforce simp: answers_def)
  obtain p4 where p4: "arm_kill_switches_for_active_plugs (ck_now clk) p3 = Some p4" "stays p3 p4"
    using arm_active_safe [of p3] p3(2) by (auto simp: answers_def wp_iff)
  then have "proc_ok p4" "p_topology p4 = t"
    using p3(2) p2(3) stays_proc_ok stays_topology [OF p4(2)] by (auto simp: answers_def)
  with t p1 p2 p3 c' p4 show ?thesis by (simp add: daemon_start_def)
qed



section \<open>Commands lost while priming\<close>

definition someone_in :: "(string \<times> json) list" where
  "someone_in = [(''pir'', JObject [(''occupancy'', JBool True)])]"


end
