(* ===== verification/Provision.thy ===== *)
theory Provision
  imports Catalog
begin

text \<open>
  The provisioning command (\<open>provision/\<close>): what it asks Zigbee2MQTT to change so that device names,
  descriptions and options match the configuration. The exchange with the bridge
  (connecting, a request with its transaction id and the wait for its reply, a publish, the retained
  inventories, the log lines since the last publish, the WebSocket dump of the device states) is the
  record \<open>z2m_link\<close>, an argument of the definitions, with the state \<open>'c\<close> of the other side. Waiting
  between requests, the time-out and trace output are left out.
\<close>

section \<open>The client\<close>

record existing_device =
  ed_ieee_address :: string
  ed_friendly_name :: string
  ed_description :: string

record existing_member =
  em_ieee_address :: string
  em_endpoint :: u32

record existing_group =
  eg_id :: u8
  eg_friendly_name :: string
  eg_members :: "existing_member list"
  eg_scene_ids :: "u8 list"

datatype z2m_client_error =
    Transport string
  | RequestRejected string string
  | BadPayload string string

text \<open>The fixed message of each broken invariant is the constructor, what it prints the arguments.\<close>

datatype provision_error =
    ClientFailed z2m_client_error
  | GroupNameTaken u8 string string u8
  | MalformedMember string string
  | SceneKeptFailing string u8 nat
  | GroupsMissing "string list"
  | RetriesExhausted string
  | ConnectFailed string
  | NoDeviceStates string
  | ZwaveFailed string

record z2m_response =
  zr_status :: string
  zr_error :: "string option"

record 'c z2m_link =
  zl_connect :: "'c \<Rightarrow> string option \<times> 'c"
  zl_request :: "string \<Rightarrow> json \<Rightarrow> 'c \<Rightarrow> (string + z2m_response) \<times> 'c"
  zl_publish :: "string \<Rightarrow> json \<Rightarrow> 'c \<Rightarrow> string option \<times> 'c"
  zl_devices :: "'c \<Rightarrow> (string + json) \<times> 'c"
  zl_groups :: "bool \<Rightarrow> 'c \<Rightarrow> (z2m_client_error + existing_group list) \<times> 'c"
  zl_log_lines :: "'c \<Rightarrow> json option list \<times> 'c"
  zl_states :: "'c \<Rightarrow> (string + (string \<rightharpoonup> json)) \<times> 'c"

record provision_options =
  po_dry_run :: bool
  po_force_options :: bool
  po_prune :: bool
  po_fetch_attempts :: u32

record reconcile_summary =
  rs_touched :: u32
  rs_skipped :: u32

definition reconcile_summary_default :: reconcile_summary where
  "reconcile_summary_default = \<lparr>rs_touched = 0, rs_skipped = 0\<rparr>"

definition summary_add :: "reconcile_summary \<Rightarrow> reconcile_summary \<Rightarrow> reconcile_summary" where
  "summary_add a b = \<lparr>rs_touched = rs_touched a + rs_touched b, rs_skipped = rs_skipped a + rs_skipped b\<rparr>"

text \<open>A step that may fail and changes the other side, and \<open>?\<close> on it.\<close>

type_synonym ('a, 'c) step = "'c \<Rightarrow> (provision_error + 'a) \<times> 'c"

definition done_with :: "'a \<Rightarrow> ('a, 'c) step" where
  "done_with x c = (Inr x, c)"

definition try_step :: "('a, 'c) step \<Rightarrow> ('a \<Rightarrow> ('b, 'c) step) \<Rightarrow> ('b, 'c) step" where
  "try_step m f c = (case m c of (Inl e, c') \<Rightarrow> (Inl e, c') | (Inr x, c') \<Rightarrow> f x c')"

primrec fold_steps :: "('x \<Rightarrow> 'a \<Rightarrow> ('a, 'c) step) \<Rightarrow> 'x list \<Rightarrow> 'a \<Rightarrow> ('a, 'c) step" where
  "fold_steps f [] a = done_with a"
| "fold_steps f (x # xs) a = try_step (f x a) (fold_steps f xs)"

definition fail_with :: "provision_error \<Rightarrow> ('a, 'c) step" where
  "fail_with e c = (Inl e, c)"

text \<open>A call of the client: its errors are wrapped.\<close>

definition client_call :: "('c \<Rightarrow> (z2m_client_error + 'a) \<times> 'c) \<Rightarrow> ('a, 'c) step" where
  "client_call m c = (case m c of (Inl e, c') \<Rightarrow> (Inl (ClientFailed e), c') | (Inr x, c') \<Rightarrow> (Inr x, c'))"

definition request :: "'c z2m_link \<Rightarrow> string \<Rightarrow> json \<Rightarrow> 'c \<Rightarrow> (z2m_client_error + unit) \<times> 'c" where
  "request link topic body c =
     (case zl_request link topic body c of
        (Inl e, c') \<Rightarrow> (Inl (Transport e), c')
      | (Inr resp, c') \<Rightarrow>
          if zr_status resp \<noteq> ''ok''
          then (Inl (RequestRejected topic (case zr_error resp of Some m \<Rightarrow> m | None \<Rightarrow> ''unknown error'')), c')
          else (Inr (), c'))"

definition publish_body :: "'c z2m_link \<Rightarrow> string \<Rightarrow> json \<Rightarrow> 'c \<Rightarrow> (z2m_client_error + unit) \<times> 'c" where
  "publish_body link topic body c =
     (case zl_publish link topic body c of (Some e, c') \<Rightarrow> (Inl (Transport e), c') | (None, c') \<Rightarrow> (Inr (), c'))"

text \<open>\<open>fetch_devices\<close>: incomplete entries of the inventory are left out.\<close>

definition parse_device :: "json \<Rightarrow> existing_device option" where
  "parse_device v =
     (case (Option.bind (json_get v ''ieee_address'') as_str, Option.bind (json_get v ''friendly_name'') as_str) of
        (Some ieee, Some n) \<Rightarrow>
          Some \<lparr>ed_ieee_address = ieee, ed_friendly_name = n,
                ed_description = (case Option.bind (json_get v ''description'') as_str of Some d \<Rightarrow> d | None \<Rightarrow> [])\<rparr>
      | _ \<Rightarrow> None)"

definition fetch_devices :: "'c z2m_link \<Rightarrow> 'c \<Rightarrow> (z2m_client_error + existing_device list) \<times> 'c" where
  "fetch_devices link c =
     (case zl_devices link c of
        (Inl e, c') \<Rightarrow> (Inl (Transport e), c')
      | (Inr raw, c') \<Rightarrow>
          (case raw of JArray entries \<Rightarrow> (Inr (List.map_filter parse_device entries), c')
           | _ \<Rightarrow> (Inl (BadPayload ''zigbee2mqtt/bridge/devices'' ''expected JSON array''), c')))"

definition rename_device :: "'c z2m_link \<Rightarrow> string \<Rightarrow> string \<Rightarrow> (unit, 'c) step" where
  "rename_device link current new = client_call (request link ''zigbee2mqtt/bridge/request/device/rename''
     (JObject [(''from'', JString current), (''homeassistant_rename'', JBool True), (''to'', JString new)]))"

definition set_device_bridge_options :: "'c z2m_link \<Rightarrow> string \<Rightarrow> json \<Rightarrow> (unit, 'c) step" where
  "set_device_bridge_options link i options = client_call (request link ''zigbee2mqtt/bridge/request/device/options''
     (JObject [(''id'', JString i), (''options'', options)]))"

definition set_device_options :: "'c z2m_link \<Rightarrow> string \<Rightarrow> json \<Rightarrow> (unit, 'c) step" where
  "set_device_options link n options = client_call (publish_body link (''zigbee2mqtt/'' @ n @ ''/set'') options)"

text \<open>A change is made and counted, or, in a dry run, only logged.\<close>

definition touch_unless_dry :: "provision_options \<Rightarrow> (unit, 'c) step \<Rightarrow> reconcile_summary \<Rightarrow> (reconcile_summary, 'c) step" where
  "touch_unless_dry opts m s =
     (if po_dry_run opts then done_with s else try_step m (\<lambda>_. done_with (rs_touched_update Suc s)))"

text \<open>\<open>collect()\<close> into a \<open>HashMap\<close>: a later entry replaces an earlier one of the same key.\<close>

definition hash_map :: "('k \<times> 'v) list \<Rightarrow> 'k \<rightharpoonup> 'v" where
  "hash_map kvs = map_of (rev kvs)"

section \<open>Device names\<close>

definition is_zwave_address :: "string \<Rightarrow> bool" where
  "is_zwave_address ieee = (strip_prefix ''zwave:'' ieee \<noteq> None)"

text \<open>The rename plan (address, current name, desired name) and the number of devices already named.\<close>

primrec rename_plan ::
  "(string \<rightharpoonup> existing_device) \<Rightarrow> (string \<times> string) list \<Rightarrow> (string \<times> string \<times> string) list \<times> nat" where
  "rename_plan by_address [] = ([], 0)"
| "rename_plan by_address (e # es) =
     (case e of (ieee, desired) \<Rightarrow> case rename_plan by_address es of (plan, skipped) \<Rightarrow>
        if is_zwave_address ieee then (plan, skipped)
        else (case by_address ieee of
          None \<Rightarrow> (plan, skipped)
        | Some found \<Rightarrow>
            if ed_friendly_name found = desired then (plan, Suc skipped)
            else ((ieee, ed_friendly_name found, desired) # plan, skipped)))"

definition tmp_name :: "string \<Rightarrow> string" where
  "tmp_name holder = ''__tmp_swap_'' @ holder"

definition unblock ::
  "'c z2m_link \<Rightarrow> provision_options \<Rightarrow> (string \<rightharpoonup> string) \<Rightarrow> string \<times> string \<times> string \<Rightarrow>
   string list \<times> reconcile_summary \<Rightarrow> (string list \<times> reconcile_summary, 'c) step" where
  "unblock link opts current_names entry st =
     (case entry of (ieee, _, desired) \<Rightarrow> case st of (moved, s) \<Rightarrow>
        case current_names desired of
          None \<Rightarrow> done_with st
        | Some holder \<Rightarrow>
            if holder \<noteq> ieee \<and> holder \<notin> set moved
            then try_step (touch_unless_dry opts (rename_device link holder (tmp_name holder)) s)
                   (\<lambda>s'. done_with (moved @ [holder], s'))
            else done_with st)"

definition reconcile_names ::
  "'c z2m_link \<Rightarrow> (string, string) btree_map \<Rightarrow> existing_device list \<Rightarrow> provision_options \<Rightarrow> (reconcile_summary, 'c) step" where
  "reconcile_names link name_by_address existing opts =
     (if name_by_address = [] then done_with reconcile_summary_default
      else
        let by_address = hash_map (map (\<lambda>d. (ed_ieee_address d, d)) existing);
            (plan, skipped) = rename_plan by_address name_by_address;
            current_names = hash_map (map (\<lambda>(ieee, current, _). (current, ieee)) plan)
        in try_step (fold_steps (unblock link opts current_names) plan ([], \<lparr>rs_touched = 0, rs_skipped = skipped\<rparr>))
             (\<lambda>(_, s). fold_steps (\<lambda>(ieee, _, desired). touch_unless_dry opts (rename_device link ieee desired)) plan s))"

section \<open>Device descriptions\<close>

definition entry_ieee_address :: "catalog_entry \<Rightarrow> string" where
  "entry_ieee_address e = cf_ieee_address (entry_common e)"

definition reconcile_description ::
  "'c z2m_link \<Rightarrow> provision_options \<Rightarrow> (string \<rightharpoonup> existing_device) \<Rightarrow> string \<times> catalog_entry \<Rightarrow>
   reconcile_summary \<Rightarrow> (reconcile_summary, 'c) step" where
  "reconcile_description link opts by_ieee ne s =
     (case ne of (_, e) \<Rightarrow>
        if is_zwave_address (entry_ieee_address e) then done_with s
        else (case cf_description (entry_common e) of
          None \<Rightarrow> done_with s
        | Some desired \<Rightarrow>
            (case by_ieee (entry_ieee_address e) of
               None \<Rightarrow> done_with s
             | Some found \<Rightarrow>
                 if ed_description found = desired then done_with (rs_skipped_update Suc s)
                 else touch_unless_dry opts
                   (set_device_bridge_options link (entry_ieee_address e) (JObject [(''description'', JString desired)])) s)))"

definition reconcile_descriptions ::
  "'c z2m_link \<Rightarrow> (string, catalog_entry) btree_map \<Rightarrow> existing_device list \<Rightarrow> provision_options \<Rightarrow> (reconcile_summary, 'c) step" where
  "reconcile_descriptions link devices existing opts =
     fold_steps (reconcile_description link opts (hash_map (map (\<lambda>d. (ed_ieee_address d, d)) existing))) devices
       reconcile_summary_default"

section \<open>Device options\<close>

definition is_zwave_plug_entry :: "catalog_entry \<Rightarrow> bool" where
  "is_zwave_plug_entry e = (case e of PlugEntry _ _ _ _ Zwave _ \<Rightarrow> True | _ \<Rightarrow> False)"

definition option_current :: "json option \<Rightarrow> string \<Rightarrow> json option" where
  "option_current state k = Option.bind state (\<lambda>v. case v of JObject kvs \<Rightarrow> map_of kvs k | _ \<Rightarrow> None)"

definition reconcile_option ::
  "'c z2m_link \<Rightarrow> provision_options \<Rightarrow> string \<Rightarrow> json option \<Rightarrow> string \<times> json \<Rightarrow>
   reconcile_summary \<Rightarrow> (reconcile_summary, 'c) step" where
  "reconcile_option link opts n state kv s =
     (case kv of (k, v) \<Rightarrow>
        if \<not> po_force_options opts \<and> option_current state k = Some v then done_with (rs_skipped_update Suc s)
        else touch_unless_dry opts (set_device_options link n (JObject [(k, v)])) s)"

definition reconcile_device ::
  "'c z2m_link \<Rightarrow> provision_options \<Rightarrow> (string \<rightharpoonup> json) \<Rightarrow> string \<times> catalog_entry \<Rightarrow>
   reconcile_summary \<Rightarrow> (reconcile_summary, 'c) step" where
  "reconcile_device link opts state_cache ne s =
     (case ne of (n, e) \<Rightarrow>
        if entry_options e = [] \<or> is_zwave_plug_entry e then done_with s
        else fold_steps (reconcile_option link opts n (state_cache n)) (entry_options e) s)"

definition reconcile_devices ::
  "'c z2m_link \<Rightarrow> (string, catalog_entry) btree_map \<Rightarrow> (string \<rightharpoonup> json) \<Rightarrow> provision_options \<Rightarrow> (reconcile_summary, 'c) step" where
  "reconcile_devices link devices state_cache opts =
     fold_steps (reconcile_device link opts state_cache) devices reconcile_summary_default"

section \<open>Renaming meets no name in use\<close>

text \<open>
  Zigbee2MQTT as the names phase sees it: the devices with their names. A rename of a device it does
  not have, or to a name another device has, is refused.
\<close>

type_synonym naming = "(string \<times> string) list"

definition rename_in :: "naming \<Rightarrow> string \<Rightarrow> string \<Rightarrow> naming option" where
  "rename_in st i to =
     (if i \<in> fst ` set st \<and> \<not> list_ex (\<lambda>(j, n). j \<noteq> i \<and> n = to) st
      then Some (map (\<lambda>(j, n). (j, if j = i then to else n)) st) else None)"

definition naming_server :: "naming z2m_link" where
  "naming_server =
     \<lparr>zl_connect = Pair None,
      zl_request = (\<lambda>topic body st.
        case (Option.bind (json_get body ''from'') as_str, Option.bind (json_get body ''to'') as_str) of
          (Some i, Some to) \<Rightarrow>
            (case rename_in st i to of
               Some st' \<Rightarrow> (Inr \<lparr>zr_status = ''ok'', zr_error = None\<rparr>, st')
             | None \<Rightarrow> (Inr \<lparr>zr_status = ''error'', zr_error = Some ''refused''\<rparr>, st))
        | _ \<Rightarrow> (Inl ''bad request'', st)),
      zl_publish = (\<lambda>_ _. Pair (Some ''not served'')), zl_devices = Pair (Inl ''not served''),
      zl_groups = (\<lambda>_. Pair (Inl (Transport ''not served''))), zl_log_lines = Pair [],
      zl_states = Pair (Inl ''not served'')\<rparr>"

definition named :: "(string \<Rightarrow> string \<Rightarrow> string) \<Rightarrow> naming \<Rightarrow> naming" where
  "named f st = map (\<lambda>(i, n). (i, f i n)) st"

lemma rename_named:
  assumes "i \<in> fst ` set st" and "\<And>j n. (j, n) \<in> set st \<Longrightarrow> j \<noteq> i \<Longrightarrow> f j n \<noteq> to"
  shows "rename_device naming_server i to (named f st) = (Inr (), named (f(i := \<lambda>_. to)) st)"
proof -
  have "rename_in (named f st) i to = Some (named (f(i := \<lambda>_. to)) st)"
    using assms by (force simp: rename_in_def named_def list_ex_iff)
  then show ?thesis by (simp add: rename_device_def naming_server_def client_call_def request_def json_get_def as_str_def)
qed

lemma named_cong: "(\<And>i n. (i, n) \<in> set st \<Longrightarrow> f i n = g i n) \<Longrightarrow> named f st = named g st"
  by (auto simp: named_def)

lemma named_same [simp]: "named (\<lambda>_ n. n) st = st"
  by (induction st) (auto simp: named_def)

lemma tmp_name_inj: "tmp_name i = tmp_name j \<longleftrightarrow> i = j"
  by (simp add: tmp_name_def)

text \<open>What the two phases start from.\<close>

definition plan_ok :: "naming \<Rightarrow> (string \<times> string \<times> string) list \<Rightarrow> (string \<Rightarrow> string) \<Rightarrow> bool" where
  "plan_ok st plan desired \<longleftrightarrow> distinct (map fst st) \<and> distinct (map snd st) \<and>
     (\<forall>i c d. (i, c, d) \<in> set plan \<longrightarrow> (i, c) \<in> set st \<and> d = desired i) \<and>
     (\<forall>i j n. i \<in> fst ` set plan \<longrightarrow> (j, n) \<in> set st \<longrightarrow> j \<noteq> i \<longrightarrow> j \<notin> fst ` set plan \<longrightarrow> n \<noteq> desired i) \<and>
     (\<forall>i j. i \<in> fst ` set plan \<longrightarrow> j \<in> fst ` set plan \<longrightarrow> desired i = desired j \<longrightarrow> i = j) \<and>
     (\<forall>i n h. (i, n) \<in> set st \<longrightarrow> n \<noteq> tmp_name h) \<and> (\<forall>i h. i \<in> fst ` set plan \<longrightarrow> desired i \<noteq> tmp_name h)"

lemma plan_okD:
  assumes "plan_ok st plan desired"
  shows "distinct (map fst st)" and "distinct (map snd st)"
    and "\<And>i c d. (i, c, d) \<in> set plan \<Longrightarrow> (i, c) \<in> set st \<and> d = desired i"
    and "\<And>i j n. i \<in> fst ` set plan \<Longrightarrow> (j, n) \<in> set st \<Longrightarrow> j \<noteq> i \<Longrightarrow> j \<notin> fst ` set plan \<Longrightarrow> n \<noteq> desired i"
    and "\<And>i j. i \<in> fst ` set plan \<Longrightarrow> j \<in> fst ` set plan \<Longrightarrow> desired i = desired j \<Longrightarrow> i = j"
    and "\<And>i n h. (i, n) \<in> set st \<Longrightarrow> n \<noteq> tmp_name h" and "\<And>i h. i \<in> fst ` set plan \<Longrightarrow> desired i \<noteq> tmp_name h"
  using assms unfolding plan_ok_def by auto

definition holders :: "(string \<times> string \<times> string) list \<Rightarrow> string \<rightharpoonup> string" where
  "holders plan = hash_map (map (\<lambda>(ieee, current, _). (current, ieee)) plan)"

definition parked :: "string list \<Rightarrow> string \<Rightarrow> string \<Rightarrow> string" where
  "parked moved i n = (if i \<in> set moved then tmp_name i else n)"

lemma known: "plan_ok st plan desired \<Longrightarrow> i \<in> fst ` set plan \<Longrightarrow> i \<in> fst ` set st"
  using plan_okD(3) by force

lemma holder_in:
  assumes "plan_ok st plan desired" and "holders plan n = Some h"
  shows "h \<in> fst ` set plan \<and> (h, n) \<in> set st"
proof -
  obtain d where "(h, n, d) \<in> set plan"
    using assms(2) by (auto simp: holders_def hash_map_def dest!: map_of_SomeD)
  then show ?thesis using plan_okD(3) [OF assms(1)] by force
qed

lemma holder_of:
  assumes ok: "plan_ok st plan desired" and "j \<in> fst ` set plan" and "(j, n) \<in> set st"
  shows "holders plan n = Some j"
proof -
  obtain c d where cd: "(j, c, d) \<in> set plan" using assms(2) by auto
  then have "(j, c) \<in> set st" using plan_okD(3) [OF ok] by blast
  then have "c = n" using eq_key_imp_eq_value [OF plan_okD(1) [OF ok] _ assms(3)] by blast
  with cd have "n \<in> fst ` set (rev (map (\<lambda>(ieee, current, _). (current, ieee)) plan))" by force
  then obtain h where h: "holders plan n = Some h"
    unfolding holders_def hash_map_def by (metis map_of_eq_None_iff not_Some_eq)
  then have "(h, n) \<in> set st" using holder_in [OF ok] by blast
  then have "h = j" using inj_onD [OF conjunct2 [OF plan_okD(2) [OF ok, unfolded distinct_map]], of "(h, n)" "(j, n)"] assms(3) by simp
  with h show ?thesis by simp
qed

lemma unblocked:
  assumes ok: "plan_ok st plan desired" and live: "\<not> po_dry_run opts" and "set moved \<subseteq> fst ` set plan" and "set es \<subseteq> set plan"
  shows "\<exists>moved' s'. fold_steps (unblock naming_server opts (holders plan)) es (moved, s) (named (parked moved) st) =
      (Inr (moved', s'), named (parked moved') st) \<and> set moved \<subseteq> set moved' \<and> set moved' \<subseteq> fst ` set plan \<and>
      (\<forall>(i, c, d) \<in> set es. \<forall>h. holders plan d = Some h \<longrightarrow> h \<noteq> i \<longrightarrow> h \<in> set moved')"
  using assms(3-)
proof (induction es arbitrary: moved s)
  case Nil
  then show ?case by (simp add: done_with_def)
next
  case (Cons e es)
  obtain i c d where e: "e = (i, c, d)" by (cases e)
  have es: "set es \<subseteq> set plan" using Cons.prems(2) by simp
  show ?case
  proof (cases "\<exists>h. holders plan d = Some h \<and> h \<noteq> i \<and> h \<notin> set moved")
    case True
    then obtain h where h: "holders plan d = Some h" "h \<noteq> i" "h \<notin> set moved" by blast
    have p: "h \<in> fst ` set plan" using holder_in [OF ok h(1)] by simp
    have apart: "\<And>j n. (j, n) \<in> set st \<Longrightarrow> j \<noteq> h \<Longrightarrow> parked moved j n \<noteq> tmp_name h"
      using plan_okD(6) [OF ok] by (auto simp: parked_def tmp_name_inj)
    from rename_named [where f = "parked moved", OF known [OF ok p] apart]
    have r: "rename_device naming_server h (tmp_name h) (named (parked moved) st) =
        (Inr (), named ((parked moved)(h := \<lambda>_. tmp_name h)) st)" by simp
    moreover have "(parked moved)(h := \<lambda>_. tmp_name h) = parked (moved @ [h])" by (rule ext)+ (simp add: parked_def)
    ultimately have r: "rename_device naming_server h (tmp_name h) (named (parked moved) st) = (Inr (), named (parked (moved @ [h])) st)"
      by simp
    have "set (moved @ [h]) \<subseteq> fst ` set plan" using Cons.prems(1) p by simp
    from Cons.IH [OF this es, of "rs_touched_update Suc s"] h r live show ?thesis
      by (fastforce simp: e unblock_def try_step_def touch_unless_dry_def done_with_def)
  next
    case False
    then have "unblock naming_server opts (holders plan) e (moved, s) = done_with (moved, s)"
      by (auto simp: e unblock_def split: option.split)
    with Cons.IH [OF Cons.prems(1) es, of s] False show ?thesis
      by (fastforce simp: e try_step_def done_with_def)
  qed
qed

definition assigned :: "(string \<Rightarrow> string) \<Rightarrow> string set \<Rightarrow> string list \<Rightarrow> string \<Rightarrow> string \<Rightarrow> string" where
  "assigned desired served moved i n = (if i \<in> served then desired i else parked moved i n)"

lemma renamed:
  assumes ok: "plan_ok st plan desired" and live: "\<not> po_dry_run opts"
    and moved: "\<forall>(i, c, d) \<in> set plan. \<forall>h. holders plan d = Some h \<longrightarrow> h \<noteq> i \<longrightarrow> h \<in> set moved" and "set moved \<subseteq> fst ` set plan"
    and "plan = xs @ es"
  shows "\<exists>s'. fold_steps (\<lambda>(ieee, _, d). touch_unless_dry opts (rename_device naming_server ieee d)) es s
      (named (assigned desired (fst ` set xs) moved) st) = (Inr s', named (assigned desired (fst ` set plan) moved) st)"
  using assms(5)
proof (induction es arbitrary: xs s)
  case Nil
  then show ?case by (simp add: done_with_def)
next
  case (Cons e es)
  obtain i c d where e: "e = (i, c, d)" by (cases e)
  have in_plan: "(i, c, d) \<in> set plan" "i \<in> fst ` set plan" and d: "d = desired i"
    using Cons.prems plan_okD(3) [OF ok, of i c d] by (auto simp: e)
  have apart: "assigned desired (fst ` set xs) moved j n \<noteq> d" if jn: "(j, n) \<in> set st" "j \<noteq> i" for j n
  proof (cases "j \<in> fst ` set xs")
    case True
    then have "j \<in> fst ` set plan" using Cons.prems by auto
    then have "desired i \<noteq> desired j" using plan_okD(5) [OF ok in_plan(2), of j] jn(2) by blast
    then show ?thesis using True by (simp add: assigned_def d)
  next
    case False
    have "n \<noteq> d" if "j \<notin> set moved"
    proof (cases "j \<in> fst ` set plan")
      case True
      then show ?thesis using holder_of [OF ok True jn(1)] moved in_plan(1) jn(2) that by blast
    next
      case False
      then show ?thesis using plan_okD(4) [OF ok in_plan(2) jn] by (simp add: d)
    qed
    with False plan_okD(7) [OF ok in_plan(2)] show ?thesis by (auto simp: assigned_def parked_def d eq_commute [of "desired i"])
  qed
  from rename_named [where f = "assigned desired (fst ` set xs) moved", OF known [OF ok in_plan(2)] apart]
  have "rename_device naming_server i d (named (assigned desired (fst ` set xs) moved) st) =
      (Inr (), named ((assigned desired (fst ` set xs) moved)(i := \<lambda>_. d)) st)" by blast
  moreover have "(assigned desired (fst ` set xs) moved)(i := \<lambda>_. d) = assigned desired (fst ` set (xs @ [e])) moved"
    by (rule ext)+ (auto simp: assigned_def e d)
  ultimately have "rename_device naming_server i d (named (assigned desired (fst ` set xs) moved) st) =
      (Inr (), named (assigned desired (fst ` set (xs @ [e])) moved) st)" by simp
  moreover have "plan = (xs @ [e]) @ es" using Cons.prems by simp
  note Cons.IH [OF this, of "rs_touched_update Suc s"]
  ultimately show ?case using live by (auto simp: e try_step_def touch_unless_dry_def done_with_def)
qed

lemma both_phases:
  assumes ok: "plan_ok st plan desired" and live: "\<not> po_dry_run opts"
  shows "\<exists>s'. try_step (fold_steps (unblock naming_server opts (holders plan)) plan ([], s))
      (\<lambda>(_, s). fold_steps (\<lambda>(ieee, _, d). touch_unless_dry opts (rename_device naming_server ieee d)) plan s) st =
    (Inr s', named (\<lambda>i n. if i \<in> fst ` set plan then desired i else n) st)"
proof -
  have "parked [] = (\<lambda>_ n. n)" by (rule ext)+ (simp add: parked_def)
  then have "named (parked []) st = st" by simp
  then obtain moved s1 where one: "fold_steps (unblock naming_server opts (holders plan)) plan ([], s) st = (Inr (moved, s1), named (parked moved) st)"
      and m: "set moved \<subseteq> fst ` set plan" "\<forall>(i, c, d) \<in> set plan. \<forall>h. holders plan d = Some h \<longrightarrow> h \<noteq> i \<longrightarrow> h \<in> set moved"
    using unblocked [OF ok live, of "[]" plan s] by auto
  have "assigned desired (fst ` set []) moved = parked moved" by (rule ext)+ (simp add: assigned_def)
  then obtain s2 where "fold_steps (\<lambda>(ieee, _, d). touch_unless_dry opts (rename_device naming_server ieee d)) plan s1
      (named (parked moved) st) = (Inr s2, named (assigned desired (fst ` set plan) moved) st)"
    using renamed [where moved = moved and xs = "[]" and es = plan and s = s1, OF ok live m(2,1)] by auto
  moreover have "named (assigned desired (fst ` set plan) moved) st = named (\<lambda>i n. if i \<in> fst ` set plan then desired i else n) st"
    using m(1) by (intro named_cong) (auto simp: assigned_def parked_def)
  ultimately show ?thesis using one by (auto simp: try_step_def)
qed

lemma rename_plan_mem:
  "(i, c, d) \<in> set (fst (rename_plan by es)) \<longleftrightarrow>
     (i, d) \<in> set es \<and> \<not> is_zwave_address i \<and> c \<noteq> d \<and> (\<exists>f. by i = Some f \<and> ed_friendly_name f = c)"
  by (induction es) (auto split: prod.splits option.splits)

lemma hash_map_distinct: "distinct (map fst kvs) \<Longrightarrow> hash_map kvs = map_of kvs"
  unfolding hash_map_def by (rule ext) (metis map_of_eq_Some_iff not_Some_eq rev_map distinct_rev set_rev)

text \<open>
  The inventory lists distinct devices under distinct names, no two addresses of the configuration
  want one name, no device outside the configuration holds a wanted name, and nothing looks like a
  temporary name.
\<close>

definition fresh_name :: "string \<Rightarrow> bool" where
  "fresh_name n = (strip_prefix ''__tmp_swap_'' n = None)"

definition nameable :: "naming \<Rightarrow> (string, string) btree_map \<Rightarrow> bool" where
  "nameable st nba \<longleftrightarrow> distinct (map fst st) \<and> distinct (map snd st) \<and> distinct (map fst nba) \<and> distinct (map snd nba) \<and>
     list_all (\<lambda>(i, n). \<not> is_zwave_address i \<and> fresh_name n \<and> (i \<in> fst ` set nba \<or> n \<notin> snd ` set nba)) st \<and>
     list_all (\<lambda>(i, d). fresh_name d) nba"

lemma fresh_name_tmp: "fresh_name n \<Longrightarrow> n \<noteq> tmp_name h"
  by (auto simp: fresh_name_def tmp_name_def simp del: append.simps)

definition wanted :: "(string, string) btree_map \<Rightarrow> string \<Rightarrow> string \<Rightarrow> string" where
  "wanted nba i n = (case map_of nba i of Some d \<Rightarrow> d | None \<Rightarrow> n)"

lemma nameable_by_address:
  assumes "nameable st nba" and "st = map (\<lambda>d. (ed_ieee_address d, ed_friendly_name d)) existing"
  shows "(\<exists>f. hash_map (map (\<lambda>d. (ed_ieee_address d, d)) existing) i = Some f \<and> ed_friendly_name f = n) \<longleftrightarrow> (i, n) \<in> set st"
proof -
  have d: "distinct (map fst (map (\<lambda>d. (ed_ieee_address d, d)) existing))"
    using assms by (simp add: nameable_def comp_def)
  show ?thesis unfolding hash_map_distinct [OF d] map_of_eq_Some_iff [OF d] using assms(2) by force
qed

lemma nameable_plan:
  assumes ok: "nameable st nba" and st: "st = map (\<lambda>d. (ed_ieee_address d, ed_friendly_name d)) existing"
  defines "plan \<equiv> fst (rename_plan (hash_map (map (\<lambda>d. (ed_ieee_address d, d)) existing)) nba)"
  shows "(i, c, d) \<in> set plan \<longleftrightarrow> (i, c) \<in> set st \<and> map_of nba i = Some d \<and> c \<noteq> d"
proof -
  have "distinct (map fst nba)" and "(i, c) \<in> set st \<Longrightarrow> \<not> is_zwave_address i"
    using ok by (auto simp: nameable_def list_all_iff)
  then show ?thesis unfolding plan_def rename_plan_mem nameable_by_address [OF ok st] by (auto simp: map_of_eq_Some_iff)
qed

lemma nameable_plan_ok:
  assumes ok: "nameable st nba" and st: "st = map (\<lambda>d. (ed_ieee_address d, ed_friendly_name d)) existing"
  shows "plan_ok st (fst (rename_plan (hash_map (map (\<lambda>d. (ed_ieee_address d, d)) existing)) nba)) (\<lambda>i. wanted nba i [])"
    (is "plan_ok st ?plan _")
proof -
  note mem = nameable_plan [OF ok st]
  have in_plan: "\<exists>c d. (i, c) \<in> set st \<and> (i, d) \<in> set nba \<and> map_of nba i = Some d" if "i \<in> fst ` set ?plan" for i
    using that mem by (fastforce dest: map_of_SomeD)
  have once: "i = j" if "(i, d) \<in> set nba" "(j, d) \<in> set nba" for i j d
  proof -
    have "inj_on snd (set nba)" using ok by (simp add: nameable_def distinct_map)
    from inj_onD [OF this _ that] show ?thesis by simp
  qed
  have outside: "n \<noteq> wanted nba i []" if h: "i \<in> fst ` set ?plan" "(j, n) \<in> set st" "j \<noteq> i" "j \<notin> fst ` set ?plan" for i j n
  proof
    assume n: "n = wanted nba i []"
    obtain d where d: "(i, d) \<in> set nba" "map_of nba i = Some d" using in_plan [OF h(1)] by blast
    then have "n = d" using n by (simp add: wanted_def)
    then have "n \<in> snd ` set nba" using d(1) by force
    then have "j \<in> fst ` set nba" using ok h(2) by (auto simp: nameable_def list_all_iff)
    then obtain e where e: "map_of nba j = Some e" by (metis map_of_eq_None_iff not_Some_eq)
    then have "(j, n, e) \<notin> set ?plan" using h(4) by force
    then have "n = e" using mem h(2) e by blast
    then show False using once [OF d(1)] map_of_SomeD [OF e] \<open>n = d\<close> h(3) by blast
  qed
  have differ: "i = j" if "i \<in> fst ` set ?plan" "j \<in> fst ` set ?plan" "wanted nba i [] = wanted nba j []" for i j
    using in_plan [OF that(1)] in_plan [OF that(2)] that(3) once by (auto simp: wanted_def)
  have fresh: "fresh_name (wanted nba i [])" if "i \<in> fst ` set ?plan" for i
    using in_plan [OF that] ok by (auto simp: wanted_def nameable_def list_all_iff)
  show ?thesis unfolding plan_ok_def
  proof (intro conjI allI impI)
    show "distinct (map fst st)" "distinct (map snd st)" using ok by (simp_all add: nameable_def)
  next
    fix i c d assume "(i, c, d) \<in> set ?plan"
    then show "(i, c) \<in> set st" "d = wanted nba i []" using mem by (simp_all add: wanted_def)
  next
    fix i n h assume "(i, n) \<in> set st"
    then show "n \<noteq> tmp_name h" using ok by (auto simp: nameable_def list_all_iff intro!: fresh_name_tmp)
  next
    fix i h assume "i \<in> fst ` set ?plan"
    then show "wanted nba i [] \<noteq> tmp_name h" using fresh fresh_name_tmp by blast
  qed (fact outside, fact differ)
qed



end
