(* ===== verification/Reconcile.thy ===== *)
theory Reconcile
  imports Provision Daemon
begin

text \<open>
  The rest of the provisioning command: groups and their members, scenes, Z-Wave nodes, and the
  sequence of the phases (\<open>provision/groups.rs\<close>, \<open>scenes.rs\<close>, \<open>zwave.rs\<close>, \<open>mod.rs\<close>). A \<open>HashSet\<close> of strings
  is the list of its elements without repetition; the order its iterator visits them in is the
  argument \<open>visit\<close>.
\<close>

section \<open>Client requests\<close>

definition add_group :: "'c z2m_link \<Rightarrow> string \<Rightarrow> u8 \<Rightarrow> (unit, 'c) step" where
  "add_group link n i = client_call (request link ''zigbee2mqtt/bridge/request/group/add''
     (JObject [(''friendly_name'', JString n), (''id'', JString (show_nat i))]))"

definition rename_group :: "'c z2m_link \<Rightarrow> string \<Rightarrow> string \<Rightarrow> (unit, 'c) step" where
  "rename_group link current new = client_call (request link ''zigbee2mqtt/bridge/request/group/rename''
     (JObject [(''from'', JString current), (''to'', JString new)]))"

definition remove_group :: "'c z2m_link \<Rightarrow> string \<Rightarrow> bool \<Rightarrow> (unit, 'c) step" where
  "remove_group link n force = client_call (request link ''zigbee2mqtt/bridge/request/group/remove''
     (JObject [(''force'', JBool force), (''id'', JString n)]))"

definition member_body :: "string \<Rightarrow> string \<Rightarrow> u32 \<Rightarrow> json" where
  "member_body g d endpoint =
     JObject [(''device'', JString d), (''endpoint'', JInt (int endpoint)), (''group'', JString g)]"

definition add_member :: "'c z2m_link \<Rightarrow> string \<Rightarrow> string \<Rightarrow> u32 \<Rightarrow> (unit, 'c) step" where
  "add_member link g d endpoint =
     client_call (request link ''zigbee2mqtt/bridge/request/group/members/add'' (member_body g d endpoint))"

definition remove_member :: "'c z2m_link \<Rightarrow> string \<Rightarrow> string \<Rightarrow> u32 \<Rightarrow> (unit, 'c) step" where
  "remove_member link g d endpoint =
     client_call (request link ''zigbee2mqtt/bridge/request/group/members/remove'' (member_body g d endpoint))"

text \<open>The body of \<open>scene_add\<close>: the transition is never a whole number.\<close>

definition optional_entry :: "string \<Rightarrow> nat option \<Rightarrow> (string \<times> json) list" where
  "optional_entry k v = (case v of None \<Rightarrow> [] | Some n \<Rightarrow> [(k, JInt (int n))])"

definition scene_add_payload :: "scene \<Rightarrow> json" where
  "scene_add_payload s = JObject
     ([(''ID'', JInt (int (scene_id s)))] @ optional_entry ''brightness'' (scene_brightness s) @
      optional_entry ''color_temp'' (scene_color_temp s) @
      [(''name'', JString (scene_name s)), (''state'', JString (scene_state s)),
       (''transition'', JFloat (scene_transition s + 1 / 10000))])"

definition add_scene :: "'c z2m_link \<Rightarrow> string \<Rightarrow> scene \<Rightarrow> (unit, 'c) step" where
  "add_scene link g s = client_call (publish_body link (''zigbee2mqtt/'' @ g @ ''/set'')
     (JObject [(''scene_add'', scene_add_payload s)]))"

definition contains_str :: "string \<Rightarrow> string \<Rightarrow> bool" where
  "contains_str s pat = (split_once pat s \<noteq> None)"

definition in_quotes :: "string \<Rightarrow> string" where
  "in_quotes s = CHR 0x27 # s @ [CHR 0x27]"

text \<open>The failures z2m logged for a group since the last publish.\<close>

definition scene_add_errors :: "string \<Rightarrow> json option list \<Rightarrow> string list" where
  "scene_add_errors g received =
     filter (\<lambda>m. contains_str m (in_quotes ''scene_add'') \<and> contains_str m (in_quotes g @ '' failed''))
       (List.map_filter (\<lambda>raw. Option.bind raw (\<lambda>v.
          if Option.bind (json_get v ''level'') as_str = Some ''error''
          then Option.bind (json_get v ''message'') as_str else None)) received)"

section \<open>Groups\<close>

text \<open>Summary and \<open>state_changed\<close>; a change is made, counted and noted, or only logged in a dry run.\<close>

type_synonym progress = "reconcile_summary \<times> bool"

definition change_unless_dry :: "provision_options \<Rightarrow> (unit, 'c) step \<Rightarrow> progress \<Rightarrow> (progress, 'c) step" where
  "change_unless_dry opts m st =
     (if po_dry_run opts then done_with st
      else try_step m (\<lambda>_. done_with (rs_touched_update Suc (fst st), True)))"

definition by_group_name :: "existing_group list \<Rightarrow> string \<rightharpoonup> existing_group" where
  "by_group_name existing = hash_map (map (\<lambda>g. (eg_friendly_name g, g)) existing)"

primrec group_rename_plan ::
  "(u8 \<rightharpoonup> existing_group) \<Rightarrow> (string \<rightharpoonup> existing_group) \<Rightarrow> room_config list \<Rightarrow> provision_error + (string \<times> string) list" where
  "group_rename_plan by_id by_name [] = Inr []"
| "group_rename_plan by_id by_name (r # rs) =
     (case by_id (rc_id r) of
        None \<Rightarrow> group_rename_plan by_id by_name rs
      | Some g \<Rightarrow>
          if eg_friendly_name g = rc_group_name r then group_rename_plan by_id by_name rs
          else (case by_name (rc_group_name r) of
            Some other \<Rightarrow>
              if eg_id other \<noteq> rc_id r
              then Inl (GroupNameTaken (rc_id r) (eg_friendly_name g) (rc_group_name r) (eg_id other))
              else map_sum id ((#) (eg_friendly_name g, rc_group_name r)) (group_rename_plan by_id by_name rs)
          | None \<Rightarrow> map_sum id ((#) (eg_friendly_name g, rc_group_name r)) (group_rename_plan by_id by_name rs)))"

definition fetch_groups :: "'c z2m_link \<Rightarrow> (existing_group list, 'c) step" where
  "fetch_groups link = client_call (zl_groups link False)"

definition fetch_groups_fresh :: "'c z2m_link \<Rightarrow> (existing_group list, 'c) step" where
  "fetch_groups_fresh link = client_call (zl_groups link True)"

definition patch_names :: "(string \<times> string) list \<Rightarrow> existing_group list \<Rightarrow> existing_group list" where
  "patch_names plan existing =
     map (\<lambda>g. case hash_map plan (eg_friendly_name g) of None \<Rightarrow> g | Some n \<Rightarrow> g\<lparr>eg_friendly_name := n\<rparr>) existing"

definition rename_groups ::
  "'c z2m_link \<Rightarrow> provision_options \<Rightarrow> (string \<times> string) list \<Rightarrow> existing_group list \<Rightarrow>
   (existing_group list \<times> progress, 'c) step" where
  "rename_groups link opts plan existing =
     try_step (fold_steps (\<lambda>(current, new). change_unless_dry opts (rename_group link current new)) plan
         (reconcile_summary_default, False))
       (\<lambda>st. if plan = [] then done_with (existing, st)
          else if \<not> po_dry_run opts then try_step (fetch_groups_fresh link) (\<lambda>gs. done_with (gs, st))
          else done_with (patch_names plan existing, st))"

definition prune_groups ::
  "'c z2m_link \<Rightarrow> provision_options \<Rightarrow> string set \<Rightarrow> existing_group list \<times> progress \<Rightarrow>
   (existing_group list \<times> progress, 'c) step" where
  "prune_groups link opts desired_names est =
     (case est of (existing, st) \<Rightarrow>
        if \<not> po_prune opts then done_with est
        else try_step
          (fold_steps (\<lambda>g. change_unless_dry opts (remove_group link (eg_friendly_name g) True))
             (filter (\<lambda>g. eg_friendly_name g \<notin> desired_names) existing) st)
          (\<lambda>st'. if snd st' \<and> \<not> po_dry_run opts
             then try_step (fetch_groups_fresh link) (\<lambda>gs. done_with (gs, st'))
             else done_with (existing, st')))"

definition create_group ::
  "'c z2m_link \<Rightarrow> provision_options \<Rightarrow> (string \<rightharpoonup> existing_group) \<Rightarrow> room_config \<Rightarrow> progress \<Rightarrow> (progress, 'c) step" where
  "create_group link opts by_name r st =
     (if by_name (rc_group_name r) \<noteq> None then done_with (rs_skipped_update Suc (fst st), snd st)
      else change_unless_dry opts (add_group link (rc_group_name r) (rc_id r)) st)"

section \<open>Members\<close>

definition as_key :: "existing_member \<Rightarrow> string" where
  "as_key m = em_ieee_address m @ ''/'' @ show_nat (em_endpoint m)"

definition normalize_member_key :: "(string, string) btree_map \<Rightarrow> string \<Rightarrow> string" where
  "normalize_member_key name_by_address member =
     (case rsplit_once (CHR ''/'') member of
        None \<Rightarrow> member
      | Some (d, endpoint) \<Rightarrow>
          if starts_with d ''0x''
          then (case bt_get name_by_address d of Some n \<Rightarrow> n @ ''/'' @ endpoint | None \<Rightarrow> member)
          else member)"

text \<open>The two directions of the difference, and one step for each element.\<close>

definition desired_members :: "(string, string) btree_map \<Rightarrow> room_config \<Rightarrow> string list" where
  "desired_members nba r = remdups (map (normalize_member_key nba) (rc_members r))"

definition current_members :: "(string, string) btree_map \<Rightarrow> existing_group \<Rightarrow> string list" where
  "current_members nba g = remdups (map (\<lambda>m. normalize_member_key nba (as_key m)) (eg_members g))"

definition set_difference :: "string list \<Rightarrow> string list \<Rightarrow> string list" where
  "set_difference xs ys = filter (\<lambda>x. x \<notin> set ys) xs"

definition add_missing ::
  "'c z2m_link \<Rightarrow> provision_options \<Rightarrow> room_config \<Rightarrow> string \<Rightarrow> progress \<Rightarrow> (progress, 'c) step" where
  "add_missing link opts r member st =
     (case parse_member_key member of
        None \<Rightarrow> fail_with (MalformedMember member (rc_name r))
      | Some (d, endpoint) \<Rightarrow> change_unless_dry opts (add_member link (rc_group_name r) d endpoint) st)"

definition settle_extra ::
  "'c z2m_link \<Rightarrow> provision_options \<Rightarrow> room_config \<Rightarrow> string \<Rightarrow> progress \<Rightarrow> (progress, 'c) step" where
  "settle_extra link opts r member st =
     (if po_prune opts
      then (case parse_member_key member of
          None \<Rightarrow> done_with st
        | Some (d, endpoint) \<Rightarrow> change_unless_dry opts (remove_member link (rc_group_name r) d endpoint) st)
      else done_with (rs_skipped_update Suc (fst st), snd st))"

definition reconcile_members ::
  "'c z2m_link \<Rightarrow> (string list \<Rightarrow> string list) \<Rightarrow> (string, string) btree_map \<Rightarrow> provision_options \<Rightarrow>
   (string \<rightharpoonup> existing_group) \<Rightarrow> room_config \<Rightarrow> progress \<Rightarrow> (progress, 'c) step" where
  "reconcile_members link visit nba opts by_name r st =
     (if rc_members r = [] \<and> \<not> po_prune opts then done_with st
      else (case by_name (rc_group_name r) of
          None \<Rightarrow> done_with st
        | Some g \<Rightarrow>
            let desired = desired_members nba r; current = current_members nba g
            in try_step (fold_steps (add_missing link opts r) (visit (set_difference desired current)) st)
                 (fold_steps (settle_extra link opts r) (visit (set_difference current desired)))))"

definition reconcile_groups ::
  "'c z2m_link \<Rightarrow> (string list \<Rightarrow> string list) \<Rightarrow> room_config list \<Rightarrow> (string, string) btree_map \<Rightarrow>
   existing_group list \<Rightarrow> provision_options \<Rightarrow> (progress, 'c) step" where
  "reconcile_groups link visit rooms nba existing opts =
     (case group_rename_plan (hash_map (map (\<lambda>g. (eg_id g, g)) existing)) (by_group_name existing) rooms of
        Inl e \<Rightarrow> fail_with e
      | Inr plan \<Rightarrow>
          try_step (rename_groups link opts plan existing) (\<lambda>renamed.
          try_step (prune_groups link opts (set (map rc_group_name rooms)) renamed) (\<lambda>(kept, st).
          try_step (fold_steps (create_group link opts (by_group_name kept)) rooms st) (\<lambda>st'.
          try_step (if snd st' \<and> \<not> po_dry_run opts then fetch_groups link else done_with kept) (\<lambda>final.
          fold_steps (reconcile_members link visit nba opts (by_group_name final)) rooms st')))))"

section \<open>Scenes\<close>

definition SCENE_MAX_ATTEMPTS :: nat where
  "SCENE_MAX_ATTEMPTS = 4"

definition recent_errors :: "'c z2m_link \<Rightarrow> string \<Rightarrow> (string list, 'c) step" where
  "recent_errors link g c = (case zl_log_lines link c of (received, c') \<Rightarrow> (Inr (scene_add_errors g received), c'))"

text \<open>\<open>deliver_scene n\<close>: whether one of \<open>n\<close> attempts went through.\<close>

primrec deliver_scene :: "'c z2m_link \<Rightarrow> string \<Rightarrow> scene \<Rightarrow> nat \<Rightarrow> (bool, 'c) step" where
  "deliver_scene link g s 0 = done_with False"
| "deliver_scene link g s (Suc n) =
     try_step (add_scene link g s) (\<lambda>_. try_step (recent_errors link g) (\<lambda>errors.
       if errors = [] then done_with True else deliver_scene link g s n))"

definition publish_scene ::
  "'c z2m_link \<Rightarrow> provision_options \<Rightarrow> string \<Rightarrow> scene \<Rightarrow> reconcile_summary \<Rightarrow> (reconcile_summary, 'c) step" where
  "publish_scene link opts g s summary =
     (if po_dry_run opts then done_with summary
      else try_step (deliver_scene link g s SCENE_MAX_ATTEMPTS) (\<lambda>delivered.
        if \<not> delivered then fail_with (SceneKeptFailing g (scene_id s) SCENE_MAX_ATTEMPTS)
        else done_with (rs_touched_update Suc summary)))"

definition room_scenes_step ::
  "'c z2m_link \<Rightarrow> provision_options \<Rightarrow> (string \<rightharpoonup> existing_group) \<Rightarrow> room_config \<Rightarrow>
   reconcile_summary \<times> string list \<Rightarrow> (reconcile_summary \<times> string list, 'c) step" where
  "room_scenes_step link opts by_name r st =
     (case st of (summary, absent) \<Rightarrow>
        if ss_scenes (rc_scenes r) = [] then done_with st
        else (case by_name (rc_group_name r) of
            None \<Rightarrow> done_with (summary, absent @ [rc_group_name r])
          | Some _ \<Rightarrow> try_step (fold_steps (publish_scene link opts (rc_group_name r)) (ss_scenes (rc_scenes r)) summary)
                (\<lambda>summary'. done_with (summary', absent))))"

definition reconcile_scenes ::
  "'c z2m_link \<Rightarrow> room_config list \<Rightarrow> existing_group list \<Rightarrow> provision_options \<Rightarrow> (reconcile_summary, 'c) step" where
  "reconcile_scenes link rooms existing opts =
     try_step (fold_steps (room_scenes_step link opts (by_group_name existing)) rooms (reconcile_summary_default, []))
       (\<lambda>(summary, absent). if absent \<noteq> [] then fail_with (GroupsMissing absent) else done_with summary)"

section \<open>Z-Wave nodes\<close>

text \<open>The Z-Wave gateway: connecting and listing the nodes, and the two writes.\<close>

record 'c zwave_link =
  zw_nodes :: "'c \<Rightarrow> (string + zwave_node list) \<times> 'c"
  zw_set_node_name :: "u16 \<Rightarrow> string \<Rightarrow> 'c \<Rightarrow> string option \<times> 'c"
  zw_set_node_location :: "u16 \<Rightarrow> string \<Rightarrow> 'c \<Rightarrow> string option \<times> 'c"

definition zwave_call :: "('c \<Rightarrow> string option \<times> 'c) \<Rightarrow> (unit, 'c) step" where
  "zwave_call m c = (case m c of (Some e, c') \<Rightarrow> (Inl (ZwaveFailed e), c') | (None, c') \<Rightarrow> (Inr (), c'))"

definition ZWAVE_FETCH_ATTEMPTS :: nat where
  "ZWAVE_FETCH_ATTEMPTS = 4"

definition is_transient_zwave_error :: "string \<Rightarrow> bool" where
  "is_transient_zwave_error full = (contains_str full ''timed out'' \<or> contains_str full ''not connected'')"

primrec fetch_zwave_nodes :: "'c zwave_link \<Rightarrow> nat \<Rightarrow> (zwave_node list, 'c) step" where
  "fetch_zwave_nodes zlink 0 c = (Inl (ZwaveFailed ''zwave inventory retry loop ended without an error''), c)"
| "fetch_zwave_nodes zlink (Suc n) c =
     (case zw_nodes zlink c of
        (Inr nodes, c') \<Rightarrow> (Inr nodes, c')
      | (Inl e, c') \<Rightarrow>
          if 0 < n \<and> is_transient_zwave_error e then fetch_zwave_nodes zlink n c'
          else (Inl (ZwaveFailed e), c'))"

primrec desired_nodes :: "(string \<times> catalog_entry) list \<Rightarrow> (u16, string \<times> string option) btree_map \<Rightarrow> (u16, string \<times> string option) btree_map" where
  "desired_nodes [] m = m"
| "desired_nodes (d # ds) m =
     (case d of (n, e) \<Rightarrow> desired_nodes ds
        (case zwave_node_id e of None \<Rightarrow> m | Some i \<Rightarrow> bt_insert i (n, cf_description (entry_common e)) m))"

definition reconcile_node ::
  "'c zwave_link \<Rightarrow> provision_options \<Rightarrow> (u16 \<rightharpoonup> zwave_node) \<Rightarrow> u16 \<times> string \<times> string option \<Rightarrow>
   reconcile_summary \<Rightarrow> (reconcile_summary, 'c) step" where
  "reconcile_node zlink opts nodes_by_id entry s =
     (case entry of (i, name, location) \<Rightarrow>
        case nodes_by_id i of
          None \<Rightarrow> done_with s
        | Some node \<Rightarrow>
            try_step
              (if zn_current_name node = name then done_with (rs_skipped_update Suc s)
               else touch_unless_dry opts (zwave_call (zw_set_node_name zlink i name)) s)
              (\<lambda>s'. case location of
                 None \<Rightarrow> done_with s'
               | Some l \<Rightarrow>
                   if zn_current_location node = l then done_with (rs_skipped_update Suc s')
                   else touch_unless_dry opts (zwave_call (zw_set_node_location zlink i l)) s'))"

definition reconcile_zwave_names ::
  "'c zwave_link \<Rightarrow> (string, catalog_entry) btree_map \<Rightarrow> provision_options \<Rightarrow> (reconcile_summary, 'c) step" where
  "reconcile_zwave_names zlink devices opts =
     (let desired = desired_nodes devices [] in
      if desired = [] then done_with reconcile_summary_default
      else try_step (fetch_zwave_nodes zlink ZWAVE_FETCH_ATTEMPTS) (\<lambda>nodes.
        fold_steps (reconcile_node zlink opts (hash_map (map (\<lambda>n. (zn_node_id n, n)) nodes))) desired
          reconcile_summary_default))"

section \<open>All phases\<close>

primrec retry_fetch :: "string \<Rightarrow> ('c \<Rightarrow> (z2m_client_error + 'a) \<times> 'c) \<Rightarrow> z2m_client_error option \<Rightarrow> nat \<Rightarrow> ('a, 'c) step" where
  "retry_fetch label f last_err 0 c =
     (Inl (case last_err of Some e \<Rightarrow> ClientFailed e | None \<Rightarrow> RetriesExhausted label), c)"
| "retry_fetch label f last_err (Suc n) c =
     (case f c of (Inr v, c') \<Rightarrow> (Inr v, c') | (Inl e, c') \<Rightarrow> retry_fetch label f (Some e) n c')"

definition connect_client :: "'c z2m_link \<Rightarrow> (unit, 'c) step" where
  "connect_client link c =
     (case zl_connect link c of (Some e, c') \<Rightarrow> (Inl (ConnectFailed e), c') | (None, c') \<Rightarrow> (Inr (), c'))"

definition fetch_states :: "'c z2m_link \<Rightarrow> (string \<rightharpoonup> json, 'c) step" where
  "fetch_states link c =
     (case zl_states link c of (Inl e, c') \<Rightarrow> (Inl (NoDeviceStates e), c') | (Inr m, c') \<Rightarrow> (Inr m, c'))"

text \<open>Phase 0 must not stop the others.\<close>

definition zwave_phase ::
  "'c zwave_link \<Rightarrow> (string, catalog_entry) btree_map \<Rightarrow> provision_options \<Rightarrow> (reconcile_summary, 'c) step" where
  "zwave_phase zlink devices opts c =
     (case reconcile_zwave_names zlink devices opts c of
        (Inr s, c') \<Rightarrow> (Inr s, c') | (Inl e, c') \<Rightarrow> (Inr reconcile_summary_default, c'))"

definition reconcile ::
  "'c z2m_link \<Rightarrow> 'c zwave_link \<Rightarrow> (string list \<Rightarrow> string list) \<Rightarrow> config \<Rightarrow> (string, string) btree_map \<Rightarrow>
   provision_options \<Rightarrow> (reconcile_summary, 'c) step" where
  "reconcile link zlink visit conf nba opts =
     try_step (zwave_phase zlink (conf_devices conf) opts) (\<lambda>s0.
     try_step (connect_client link) (\<lambda>_.
     try_step (retry_fetch ''fetch zigbee2mqtt/bridge/devices'' (fetch_devices link) None (po_fetch_attempts opts)) (\<lambda>existing.
     try_step (if nba = [] then done_with reconcile_summary_default else reconcile_names link nba existing opts) (\<lambda>s1.
     try_step (reconcile_descriptions link (conf_devices conf) existing opts) (\<lambda>s2.
     try_step (retry_fetch ''fetch zigbee2mqtt/bridge/groups'' (zl_groups link False) None (po_fetch_attempts opts)) (\<lambda>groups.
     try_step (reconcile_groups link visit (conf_rooms conf) nba groups opts) (\<lambda>(s3, state_changed).
     try_step (if state_changed \<and> \<not> po_dry_run opts then fetch_groups_fresh link else fetch_groups link) (\<lambda>final.
     try_step (reconcile_scenes link (conf_rooms conf) final opts) (\<lambda>s4.
     try_step (fetch_states link) (\<lambda>state_cache.
     try_step (reconcile_devices link (conf_devices conf) state_cache opts) (\<lambda>s5.
     done_with (summary_add (summary_add (summary_add (summary_add (summary_add s0 s1) s2) s3) s4) s5))))))))))))"

section \<open>A dry run changes nothing\<close>

text \<open>The same other side with its writes replaced.\<close>

definition with_writes ::
  "(string \<Rightarrow> json \<Rightarrow> 'c \<Rightarrow> (string + z2m_response) \<times> 'c) \<Rightarrow> (string \<Rightarrow> json \<Rightarrow> 'c \<Rightarrow> string option \<times> 'c) \<Rightarrow> 'c z2m_link \<Rightarrow> 'c z2m_link" where
  "with_writes rq pb link = link\<lparr>zl_request := rq, zl_publish := pb\<rparr>"

definition with_node_writes ::
  "(u16 \<Rightarrow> string \<Rightarrow> 'c \<Rightarrow> string option \<times> 'c) \<Rightarrow> (u16 \<Rightarrow> string \<Rightarrow> 'c \<Rightarrow> string option \<times> 'c) \<Rightarrow> 'c zwave_link \<Rightarrow> 'c zwave_link" where
  "with_node_writes sn sl zlink = zlink\<lparr>zw_set_node_name := sn, zw_set_node_location := sl\<rparr>"

named_theorems same_reads

lemma reads_of_with_writes [simp]:
  "zl_connect (with_writes rq pb link) = zl_connect link" "zl_devices (with_writes rq pb link) = zl_devices link"
  "zl_groups (with_writes rq pb link) = zl_groups link" "zl_log_lines (with_writes rq pb link) = zl_log_lines link"
  "zl_states (with_writes rq pb link) = zl_states link"
  by (simp_all add: with_writes_def)

lemma nodes_of_with_node_writes [simp]: "zw_nodes (with_node_writes sn sl zlink) = zw_nodes zlink"
  by (simp add: with_node_writes_def)

lemma fetches_same [same_reads]:
  "fetch_devices (with_writes rq pb link) = fetch_devices link" "fetch_groups (with_writes rq pb link) = fetch_groups link"
  "fetch_groups_fresh (with_writes rq pb link) = fetch_groups_fresh link"
  "connect_client (with_writes rq pb link) = connect_client link" "fetch_states (with_writes rq pb link) = fetch_states link"
  by (rule ext, simp add: fetch_devices_def, simp_all add: fetch_groups_def fetch_groups_fresh_def)
    (rule ext, simp add: connect_client_def fetch_states_def)+

lemma fetch_zwave_nodes_same [same_reads]: "fetch_zwave_nodes (with_node_writes sn sl zlink) n = fetch_zwave_nodes zlink n"
proof (induction n)
  case (Suc n)
  then show ?case by (intro ext) (simp split: prod.split sum.split)
qed (rule ext, simp)

lemma touch_dry [simp]: "po_dry_run opts \<Longrightarrow> touch_unless_dry opts m = done_with"
  by (rule ext) (simp add: touch_unless_dry_def)

lemma change_dry [simp]: "po_dry_run opts \<Longrightarrow> change_unless_dry opts m = done_with"
  by (rule ext) (simp add: change_unless_dry_def)

lemma zwave_phase_dry:
  assumes "po_dry_run opts"
  shows "zwave_phase (with_node_writes sn sl zlink) devices opts = zwave_phase zlink devices opts"
proof -
  have eq: "reconcile_node (with_node_writes sn sl zlink) opts = reconcile_node zlink opts"
    unfolding reconcile_node_def [abs_def] touch_dry [OF assms] ..
  show ?thesis unfolding zwave_phase_def [abs_def] reconcile_zwave_names_def [abs_def] eq same_reads ..
qed

lemma reconcile_groups_dry:
  assumes "po_dry_run opts"
  shows "reconcile_groups (with_writes rq pb link) visit rooms nba existing opts = reconcile_groups link visit rooms nba existing opts"
proof -
  note dry = change_dry [OF assms]
  have eq1: "create_group (with_writes rq pb link) opts = create_group link opts"
    unfolding create_group_def [abs_def] dry ..
  have eq2: "add_missing (with_writes rq pb link) opts = add_missing link opts"
    unfolding add_missing_def [abs_def] dry ..
  have eq3: "settle_extra (with_writes rq pb link) opts = settle_extra link opts"
    unfolding settle_extra_def [abs_def] dry ..
  show ?thesis
    unfolding reconcile_groups_def rename_groups_def prune_groups_def reconcile_members_def [abs_def] dry same_reads eq1 eq2 eq3 ..
qed

lemma reconcile_scenes_dry:
  assumes "po_dry_run opts"
  shows "reconcile_scenes (with_writes rq pb link) rooms existing opts = reconcile_scenes link rooms existing opts"
proof -
  have eq: "publish_scene (with_writes rq pb link) opts = publish_scene link opts"
    using assms by (intro ext) (simp add: publish_scene_def)
  show ?thesis unfolding reconcile_scenes_def room_scenes_step_def [abs_def] eq ..
qed

lemma device_phases_dry:
  assumes "po_dry_run opts"
  shows "reconcile_names (with_writes rq pb link) nba existing opts = reconcile_names link nba existing opts"
    and "reconcile_descriptions (with_writes rq pb link) devices existing opts = reconcile_descriptions link devices existing opts"
    and "reconcile_devices (with_writes rq pb link) devices states opts = reconcile_devices link devices states opts"
  unfolding reconcile_names_def unblock_def [abs_def] reconcile_descriptions_def reconcile_description_def [abs_def]
    reconcile_devices_def reconcile_device_def [abs_def] reconcile_option_def [abs_def] touch_dry [OF assms]
  by (rule refl)+

text \<open>C16: A dry run of the provisioning writes nothing, to Zigbee2MQTT or to a Z-Wave node: with any other writes in their place it goes the same way.\<close>

theorem dry_run_writes_nothing:
  assumes "po_dry_run opts"
  shows "reconcile (link\<lparr>zl_request := rq, zl_publish := pb\<rparr>) (zlink\<lparr>zw_set_node_name := sn, zw_set_node_location := sl\<rparr>)
      visit conf nba opts = reconcile link zlink visit conf nba opts"
  unfolding reconcile_def with_writes_def [symmetric] with_node_writes_def [symmetric]
  unfolding same_reads zwave_phase_dry [OF assms] reconcile_groups_dry [OF assms] reconcile_scenes_dry [OF assms]
    device_phases_dry [OF assms] reads_of_with_writes ..

definition quiet_gateway :: "naming zwave_link" where
  "quiet_gateway = \<lparr>zw_nodes = Pair (Inr []), zw_set_node_name = (\<lambda>_ _. Pair None), zw_set_node_location = (\<lambda>_ _. Pair None)\<rparr>"

definition dry_options :: provision_options where
  "dry_options = \<lparr>po_dry_run = True, po_force_options = False, po_prune = True, po_fetch_attempts = 12\<rparr>"

theorem dry_run_writes_nothing_witness:
  "po_dry_run dry_options \<and>
   reconcile (naming_server\<lparr>zl_request := \<lambda>_ _ _. (Inl ''written'', []), zl_publish := \<lambda>_ _ _. (Some ''written'', [])\<rparr>)
      (quiet_gateway\<lparr>zw_set_node_name := \<lambda>_ _ _. (Some ''written'', []), zw_set_node_location := \<lambda>_ _ _. (Some ''written'', [])\<rparr>)
      id cottage [(''0x1'', ''hall'')] dry_options [(''0x1'', ''attic'')] =
   reconcile naming_server quiet_gateway id cottage [(''0x1'', ''hall'')] dry_options [(''0x1'', ''attic'')]"
proof -
  have d: "po_dry_run dry_options" by (simp add: dry_options_def)
  from dry_run_writes_nothing [OF d, where link = naming_server and zlink = quiet_gateway] d show ?thesis by simp
qed

section \<open>Nothing is removed unasked\<close>

definition removals :: "string set" where
  "removals = {''zigbee2mqtt/bridge/request/group/remove'', ''zigbee2mqtt/bridge/request/group/members/remove''}"

text \<open>The same other side, answering the requests in another way.\<close>

definition with_requests :: "(string \<Rightarrow> json \<Rightarrow> 'c \<Rightarrow> (string + z2m_response) \<times> 'c) \<Rightarrow> 'c z2m_link \<Rightarrow> 'c z2m_link" where
  "with_requests rq link = link\<lparr>zl_request := rq\<rparr>"

lemma with_requests_others:
  "zl_groups (with_requests rq link) = zl_groups link" "fetch_devices (with_requests rq link) = fetch_devices link"
  "fetch_groups (with_requests rq link) = fetch_groups link" "fetch_groups_fresh (with_requests rq link) = fetch_groups_fresh link"
  "connect_client (with_requests rq link) = connect_client link" "fetch_states (with_requests rq link) = fetch_states link"
  "publish_body (with_requests rq link) = publish_body link" "recent_errors (with_requests rq link) = recent_errors link"
  unfolding with_requests_def fetch_devices_def [abs_def] fetch_groups_def fetch_groups_fresh_def connect_client_def [abs_def]
    fetch_states_def [abs_def] publish_body_def [abs_def] recent_errors_def [abs_def]
  by simp_all

lemma deliver_scene_others: "deliver_scene (with_requests rq link) g s n = deliver_scene link g s n"
proof (induction n)
  case (Suc n)
  show ?case unfolding deliver_scene.simps add_scene_def with_requests_others Suc ..
qed simp

lemma requests_same:
  assumes "\<forall>topic body. topic \<notin> removals \<longrightarrow> rq topic body = zl_request link topic body"
  shows "rename_device (with_requests rq link) = rename_device link"
    and "set_device_bridge_options (with_requests rq link) = set_device_bridge_options link"
    and "add_group (with_requests rq link) = add_group link" and "rename_group (with_requests rq link) = rename_group link"
    and "add_member (with_requests rq link) = add_member link"
proof -
  have rq: "request (with_requests rq link) topic = request link topic" if "topic \<notin> removals" for topic
    by (intro ext) (simp add: request_def with_requests_def assms that)
  show "rename_device (with_requests rq link) = rename_device link"
    "set_device_bridge_options (with_requests rq link) = set_device_bridge_options link"
    "add_group (with_requests rq link) = add_group link" "rename_group (with_requests rq link) = rename_group link"
    "add_member (with_requests rq link) = add_member link"
    by (intro ext, simp add: rename_device_def set_device_bridge_options_def add_group_def rename_group_def add_member_def
        rq removals_def)+
qed

lemma settle_extra_keeps: "\<not> po_prune opts \<Longrightarrow> settle_extra l opts r member st = done_with (rs_skipped_update Suc (fst st), snd st)"
  by (simp add: settle_extra_def)

lemma prune_groups_keeps: "\<not> po_prune opts \<Longrightarrow> prune_groups l opts names est = done_with est"
  by (cases est) (simp add: prune_groups_def)

text \<open>C17: Without \<open>--prune\<close> provisioning removes no group and no member: how such requests would be answered makes no difference.\<close>

theorem nothing_removed_without_prune:
  assumes "\<not> po_prune opts" and "\<And>topic body. topic \<notin> removals \<Longrightarrow> rq topic body = zl_request link topic body"
  shows "reconcile (link\<lparr>zl_request := rq\<rparr>) zlink visit conf nba opts = reconcile link zlink visit conf nba opts"
proof -
  have "\<forall>topic body. topic \<notin> removals \<longrightarrow> rq topic body = zl_request link topic body" using assms(2) by blast
  note same = requests_same [OF this] and keep = settle_extra_keeps [OF assms(1)] prune_groups_keeps [OF assms(1)]
  have names: "reconcile_names (with_requests rq link) nba existing opts = reconcile_names link nba existing opts" for existing
    unfolding reconcile_names_def unblock_def [abs_def] same ..
  have descriptions: "reconcile_descriptions (with_requests rq link) ds existing opts = reconcile_descriptions link ds existing opts" for ds existing
    unfolding reconcile_descriptions_def reconcile_description_def [abs_def] same ..
  have create: "create_group (with_requests rq link) opts = create_group link opts"
    unfolding create_group_def [abs_def] same ..
  have add: "add_missing (with_requests rq link) opts = add_missing link opts"
    unfolding add_missing_def [abs_def] same ..
  have settle: "settle_extra (with_requests rq link) opts = settle_extra link opts"
    by (intro ext) (simp only: keep)
  have groups: "reconcile_groups (with_requests rq link) visit rooms nba existing opts = reconcile_groups link visit rooms nba existing opts"
    for rooms existing
    unfolding reconcile_groups_def rename_groups_def keep reconcile_members_def [abs_def] same with_requests_others create add settle ..
  have scenes: "reconcile_scenes (with_requests rq link) rooms existing opts = reconcile_scenes link rooms existing opts" for rooms existing
    unfolding reconcile_scenes_def room_scenes_step_def [abs_def] publish_scene_def [abs_def] deliver_scene_others ..
  have devices: "reconcile_devices (with_requests rq link) ds states opts = reconcile_devices link ds states opts" for ds states
    unfolding reconcile_devices_def reconcile_device_def [abs_def] reconcile_option_def [abs_def] set_device_options_def with_requests_others ..
  show ?thesis
    unfolding reconcile_def with_requests_def [symmetric] with_requests_others names descriptions groups scenes devices ..
qed

definition additive_options :: provision_options where
  "additive_options = \<lparr>po_dry_run = False, po_force_options = True, po_prune = False, po_fetch_attempts = 12\<rparr>"

theorem nothing_removed_without_prune_witness:
  "\<not> po_prune additive_options \<and>
   reconcile (naming_server\<lparr>zl_request := \<lambda>topic body. if topic \<in> removals then Pair (Inl ''removed'') else zl_request naming_server topic body\<rparr>)
      quiet_gateway id cottage [(''0x1'', ''hall'')] additive_options [(''0x1'', ''attic'')] =
   reconcile naming_server quiet_gateway id cottage [(''0x1'', ''hall'')] additive_options [(''0x1'', ''attic'')]"
proof -
  have p: "\<not> po_prune additive_options" by (simp add: additive_options_def)
  from nothing_removed_without_prune [OF p, of "\<lambda>topic body. if topic \<in> removals then Pair (Inl ''removed'') else zl_request naming_server topic body"
      naming_server quiet_gateway id cottage] p
  show ?thesis by simp
qed

end
