(* ===== verification/Sql.thy ===== *)
theory Sql
  imports Prelude
begin

text \<open>
  What the code relies on of the embedded database (\<open>turso\<close>, which follows SQLite): a statement
  either fails and changes nothing, or takes effect at once; inside a transaction effects become
  visible when it commits; a transaction cannot be opened inside another; a failed \<open>COMMIT\<close>
  leaves the transaction open. Which statements fail is the argument \<open>fails\<close>, a function of how
  many were issued before. The tables are the type variable \<open>'db\<close>.
\<close>

record 'db connection =
  cn_committed :: 'db
  cn_pending :: "'db option"
  cn_issued :: nat

definition connect :: "'db \<Rightarrow> 'db connection" where
  "connect db = \<lparr>cn_committed = db, cn_pending = None, cn_issued = 0\<rparr>"

type_synonym ('a, 'db) sql = "'db connection \<Rightarrow> (string + 'a) \<times> 'db connection"

definition sql_return :: "'a \<Rightarrow> ('a, 'db) sql" where
  "sql_return x c = (Inr x, c)"

text \<open>\<open>m.await?\<close> followed by the rest.\<close>

definition sql_then :: "('a, 'db) sql \<Rightarrow> ('a \<Rightarrow> ('b, 'db) sql) \<Rightarrow> ('b, 'db) sql" where
  "sql_then m f c = (case m c of (Inl e, c') \<Rightarrow> (Inl e, c') | (Inr x, c') \<Rightarrow> f x c')"

primrec sql_each :: "('x \<Rightarrow> (unit, 'db) sql) \<Rightarrow> 'x list \<Rightarrow> (unit, 'db) sql" where
  "sql_each f [] = sql_return ()"
| "sql_each f (x # xs) = sql_then (f x) (\<lambda>_. sql_each f xs)"

definition visible_tables :: "'db connection \<Rightarrow> 'db" where
  "visible_tables c = (case cn_pending c of None \<Rightarrow> cn_committed c | Some db \<Rightarrow> db)"

definition store_tables :: "'db \<Rightarrow> 'db connection \<Rightarrow> 'db connection" where
  "store_tables db c = (case cn_pending c of None \<Rightarrow> c\<lparr>cn_committed := db\<rparr> | Some _ \<Rightarrow> c\<lparr>cn_pending := Some db\<rparr>)"

text \<open>One statement: \<open>f\<close> is its result and its effect on the tables.\<close>

definition sql_statement :: "(nat \<Rightarrow> string option) \<Rightarrow> ('db \<Rightarrow> 'a \<times> 'db) \<Rightarrow> ('a, 'db) sql" where
  "sql_statement fails f c =
     (let c' = c\<lparr>cn_issued := Suc (cn_issued c)\<rparr> in
      case fails (cn_issued c) of
        Some e \<Rightarrow> (Inl e, c')
      | None \<Rightarrow> (let (x, db) = f (visible_tables c) in (Inr x, store_tables db c')))"

definition sql_begin :: "(nat \<Rightarrow> string option) \<Rightarrow> (unit, 'db) sql" where
  "sql_begin fails c =
     (let c' = c\<lparr>cn_issued := Suc (cn_issued c)\<rparr> in
      case fails (cn_issued c) of
        Some e \<Rightarrow> (Inl e, c')
      | None \<Rightarrow> (case cn_pending c of
                  Some _ \<Rightarrow> (Inl ''cannot start a transaction within a transaction'', c')
                | None \<Rightarrow> (Inr (), c'\<lparr>cn_pending := Some (cn_committed c)\<rparr>)))"

definition sql_commit :: "(nat \<Rightarrow> string option) \<Rightarrow> (unit, 'db) sql" where
  "sql_commit fails c =
     (let c' = c\<lparr>cn_issued := Suc (cn_issued c)\<rparr> in
      case fails (cn_issued c) of
        Some e \<Rightarrow> (Inl e, c')
      | None \<Rightarrow> (case cn_pending c of
                  None \<Rightarrow> (Inl ''cannot commit - no transaction is active'', c')
                | Some db \<Rightarrow> (Inr (), c'\<lparr>cn_committed := db, cn_pending := None\<rparr>)))"

definition sql_rollback :: "(nat \<Rightarrow> string option) \<Rightarrow> (unit, 'db) sql" where
  "sql_rollback fails c =
     (let c' = c\<lparr>cn_issued := Suc (cn_issued c)\<rparr> in
      case fails (cn_issued c) of Some e \<Rightarrow> (Inl e, c') | None \<Rightarrow> (Inr (), c'\<lparr>cn_pending := None\<rparr>))"

section \<open>Laws\<close>

named_theorems sql_defs "definitions of the statements"

declare sql_return_def [sql_defs] sql_then_def [sql_defs] sql_statement_def [sql_defs] sql_begin_def [sql_defs]
  sql_commit_def [sql_defs] sql_rollback_def [sql_defs] visible_tables_def [sql_defs] store_tables_def [sql_defs]

text \<open>A piece of work inside a transaction leaves what is committed alone, and the transaction open.\<close>

definition inside :: "('a, 'db) sql \<Rightarrow> bool" where
  "inside m = (\<forall>c. cn_pending c \<noteq> None \<longrightarrow>
     cn_committed (snd (m c)) = cn_committed c \<and> cn_pending (snd (m c)) \<noteq> None)"

lemma inside_return [intro]: "inside (sql_return x)"
  by (simp add: inside_def sql_return_def)

lemma inside_statement [intro]: "inside (sql_statement fails f)"
  by (auto simp: inside_def sql_defs Let_def split: option.split prod.split)

lemma inside_then [intro]: "inside m \<Longrightarrow> (\<And>x. inside (f x)) \<Longrightarrow> inside (sql_then m f)"
  unfolding inside_def sql_then_def by (fastforce split: prod.split sum.split)

lemma inside_each [intro]: "(\<And>x. inside (f x)) \<Longrightarrow> inside (sql_each f xs)"
  by (induction xs) auto

text \<open>Without failures a statement is a function on the tables it sees.\<close>

lemma statement_works:
  "sql_statement (\<lambda>_. None) f c =
     (Inr (fst (f (visible_tables c))), store_tables (snd (f (visible_tables c))) (c\<lparr>cn_issued := Suc (cn_issued c)\<rparr>))"
  by (simp add: sql_statement_def Let_def case_prod_beta)

lemma visible_store [simp]: "visible_tables (store_tables db c) = db"
  by (simp add: visible_tables_def store_tables_def split: option.split)

lemma visible_issued [simp]: "visible_tables (c\<lparr>cn_issued := n\<rparr>) = visible_tables c"
  by (simp add: visible_tables_def split: option.split)

end
