(* ===== verification/Wire.thy ===== *)
theory Wire
  imports Overrides
begin

text \<open>
  The data of the dashboard protocol that the daemon produces
  (\<open>src/crates/mqtt-controller-wire/src/lib.rs\<close>): snapshots of rooms, plugs, heating zones and
  lights. The serde attributes fix how they are written as JSON and are not modelled. The slot,
  plug-action and command types the dashboard sends are in \<open>Overrides\<close> and \<open>Daemon\<close>.
\<close>

section \<open>Targets and readings\<close>

record tass_target_info =
  tti_phase :: string
  tti_owner :: string
  tti_since_ago_ms :: "u64 option"

record tass_actual_info =
  tai_freshness :: string
  tai_since_ago_ms :: "u64 option"

datatype room_target_value = RoomTargetOff | RoomTargetOn u8 nat

datatype room_actual_value = RoomActualOn | RoomActualOff

datatype plug_target_value = PlugTargetOn | PlugTargetOff

record plug_actual_value =
  pav_on :: bool
  pav_power :: "f64 option"

datatype heating_zone_target_value = ZoneTargetHeating | ZoneTargetOff

record heating_zone_actual_value =
  hzv_relay_on :: bool
  hzv_temperature :: "f64 option"

datatype light_target_value = LightTargetOff | LightTargetOn "u8 option" "u16 option"

record light_actual_value =
  lav_on :: bool
  lav_brightness :: "u8 option"
  lav_color_temp :: "u16 option"
  lav_color_xy :: "(f64 \<times> f64) option"

datatype trv_target_value = TrvTargetSetpoint f64 | TrvTargetInhibited | TrvTargetForcedOpen string

datatype trv_running_state = TrvUnknown | TrvIdle | TrvHeat

section \<open>Switches and sensors\<close>

record switch_action_info =
  sai_gesture :: string
  sai_description :: string

record switch_button_info =
  sbi_button :: string
  sbi_actions :: "switch_action_info list"

record switch_info =
  swi_device :: string
  swi_buttons :: "switch_button_info list"

datatype motion_event_kind = MotionSeen | MotionClear

record motion_event_info =
  mei_timestamp_epoch_ms :: u64
  mei_kind :: motion_event_kind

record motion_sensor_info =
  msi_device :: string
  msi_last_event :: "motion_event_info option"
  msi_occupied :: "bool option"
  msi_illuminance :: "u32 option"
  msi_freshness :: string
  msi_since_ago_ms :: "u64 option"
  msi_occupancy_timeout_secs :: u32

record light_info =
  li_device :: string

record light_snapshot =
  ls_target :: "tass_target_info option"
  ls_target_value :: "light_target_value option"
  ls_device :: string
  ls_room :: "string option"
  ls_actual :: "tass_actual_info option"
  ls_actual_value :: "light_actual_value option"

record kill_switch_rule_info =
  ksi_rule_name :: string
  ksi_state :: string
  ksi_threshold_watts :: f64
  ksi_holdoff_secs :: u64
  ksi_idle_since_ago_ms :: "u64 option"
  ksi_overridden :: bool

section \<open>Schedules\<close>

record scene_option =
  so_id :: u8
  so_name :: string

record scene_schedule_plan =
  ssp_slots :: "slot_plan list"
  ssp_available_scenes :: "scene_option list"
  ssp_overridden :: bool

record switch_step_plan =
  stp_scene_id :: u8
  stp_lights :: "string list"

record kill_switch_plan =
  ksp_threshold_watts :: f64
  ksp_holdoff_secs :: u64

record plug_schedule_view =
  psv_timed_actions :: "plug_timed_action_plan list"
  psv_kill_switch :: "kill_switch_plan option"
  psv_overridden :: bool
  psv_power_metered :: bool

record timed_action_info =
  tac_binding :: string
  tac_time :: string
  tac_action :: string
  tac_overridden :: bool

record schedule_range =
  srg_start :: string
  srg_end :: string
  srg_temperature :: f64

type_synonym valve_schedule_plan = "(weekday, schedule_range list) btree_map"

section \<open>Entities\<close>

datatype wire_motion_mode = WireOnOff | WireOnOnly | WireOffOnly

record motion_rule_info =
  mri_max_illuminance :: "u32 option"
  mri_name :: string
  mri_sensors :: "motion_sensor_info list"
  mri_mode :: wire_motion_mode
  mri_active_slot :: "string option"
  mri_targets :: "string list"
  mri_session_targets :: "string list"
  mri_off_cooldown_secs :: u32
  mri_cooldown_remaining_secs :: "u64 option"
  mri_schedule :: scene_schedule_plan

record room_snapshot =
  rsn_name :: string
  rsn_group_name :: string
  rsn_room :: string
  rsn_physically_on :: bool
  rsn_motion_owned :: bool
  rsn_motion_enabled :: bool
  rsn_cycle_idx :: nat
  rsn_last_press_ago_ms :: "u64 option"
  rsn_last_off_ago_ms :: "u64 option"
  rsn_motion_active_sensors :: "string list"
  rsn_active_slot :: "string option"
  rsn_scene_ids :: "u8 list"
  rsn_target :: "tass_target_info option"
  rsn_target_value :: "room_target_value option"
  rsn_actual :: "tass_actual_info option"
  rsn_actual_value :: "room_actual_value option"
  rsn_switches :: "switch_info list"
  rsn_motion_rules :: "motion_rule_info list"
  rsn_lights :: "light_info list"
  rsn_schedule :: scene_schedule_plan
  rsn_members :: "string list"
  rsn_switch_steps :: "(string, switch_step_plan list) btree_map"
  rsn_timed_actions :: "timed_action_info list"

record plug_snapshot =
  psn_exclude_from_totals :: bool
  psn_device :: string
  psn_display_name :: "string option"
  psn_room :: "string option"
  psn_on :: bool
  psn_idle_since_ago_ms :: "u64 option"
  psn_kill_switch_holdoff_secs :: "u64 option"
  psn_power_watts :: "f64 option"
  psn_power_actual :: "tass_actual_info option"
  psn_target :: "tass_target_info option"
  psn_target_value :: "plug_target_value option"
  psn_actual :: "tass_actual_info option"
  psn_actual_value :: "plug_actual_value option"
  psn_kill_switch_rules :: "kill_switch_rule_info list"
  psn_linked_switches :: "switch_info list"
  psn_schedule :: plug_schedule_view

record valve_boost_snapshot =
  vbs_temperature :: f64
  vbs_ends_at_epoch_ms :: u64
  vbs_remaining_ms :: u64

record trv_snapshot =
  tsn_boost :: "valve_boost_snapshot option"
  tsn_heat_demand_enabled :: bool
  tsn_device :: string
  tsn_local_temperature :: "f64 option"
  tsn_pi_heating_demand :: "u8 option"
  tsn_running_state :: trv_running_state
  tsn_setpoint :: "f64 option"
  tsn_battery :: "u8 option"
  tsn_inhibited :: bool
  tsn_forced :: bool
  tsn_schedule :: string
  tsn_schedule_summary :: string
  tsn_schedule_override :: bool
  tsn_schedule_plan :: "valve_schedule_plan option"
  tsn_target :: "tass_target_info option"
  tsn_target_value :: "trv_target_value option"
  tsn_actual :: "tass_actual_info option"

record heating_zone_snapshot =
  zsn_name :: string
  zsn_relay_device :: string
  zsn_relay_on :: bool
  zsn_relay_state_known :: bool
  zsn_relay_temperature :: "f64 option"
  zsn_trvs :: "trv_snapshot list"
  zsn_min_cycle_remaining_secs :: u64
  zsn_min_pause_remaining_secs :: u64
  zsn_relay_stale :: bool
  zsn_target :: "tass_target_info option"
  zsn_target_value :: "heating_zone_target_value option"
  zsn_actual :: "tass_actual_info option"
  zsn_actual_value :: "heating_zone_actual_value option"

record power_meter_reading =
  pmr_device :: string
  pmr_power_watts :: "f64 option"
  pmr_energy_kwh :: "f64 option"
  pmr_power_freshness :: string
  pmr_energy_freshness :: string

record full_state_snapshot =
  fss_heat_pump_meter :: "power_meter_reading option"
  fss_rooms :: "room_snapshot list"
  fss_plugs :: "plug_snapshot list"
  fss_heating_zones :: "heating_zone_snapshot list"
  fss_lights :: "light_snapshot list"
  fss_timestamp_epoch_ms :: u64

section \<open>Topology\<close>

record slot_info =
  sli_name :: string
  sli_from :: string
  sli_to :: string
  sli_scene_ids :: "u8 list"

record room_info =
  ri_name :: string
  ri_group_name :: string
  ri_parent :: "string option"
  ri_slots :: "slot_info list"
  ri_has_motion :: bool

record heating_zone_info =
  zi_name :: string
  zi_relay_device :: string
  zi_trv_devices :: "string list"

record topology_info =
  ti_rooms :: "room_info list"
  ti_plugs :: "string list"
  ti_heating_zones :: "heating_zone_info list"

end
