(* ===== verification/Snapshot.thy ===== *)
theory Snapshot
  imports Daemon Wire
begin

text \<open>
  The views of the state the dashboard is sent (\<open>web/snapshot.rs\<close>): one snapshot per room, plug,
  heating zone and light, the full snapshot, and the topology. A view that panics is \<^const>\<open>None\<close>:
  the lookups of the code (\<open>targets_by_slot[slot]\<close>, indexes of the topology, \<open>expect\<close>) are kept as
  such. How a float is written in decimal is the argument \<open>show_f64\<close>; the arrow, the dash and the
  degree sign are their UTF-8 bytes.
\<close>

section \<open>Targets, readings and lights\<close>

definition ago_ms :: "instant \<Rightarrow> instant \<Rightarrow> u64" where
  "ago_ms now since = as_millis (duration_since now since)"

definition tass_target_info_of :: "'a tass_target \<Rightarrow> instant \<Rightarrow> tass_target_info" where
  "tass_target_info_of t now =
     \<lparr>tti_phase = phase_str (tgt_phase t),
      tti_owner = (case tgt_owner t of None \<Rightarrow> [] | Some ow \<Rightarrow> owner_str ow),
      tti_since_ago_ms = map_option (ago_ms now) (tgt_since t)\<rparr>"

definition tass_actual_info_of :: "'a tass_actual \<Rightarrow> instant \<Rightarrow> tass_actual_info" where
  "tass_actual_info_of a now =
     \<lparr>tai_freshness = freshness_str (act_freshness a), tai_since_ago_ms = map_option (ago_ms now) (act_since a)\<rparr>"

fun room_target_value_of :: "light_zone_target \<Rightarrow> room_target_value" where
  "room_target_value_of LZOff = RoomTargetOff"
| "room_target_value_of (LZOn s c) = RoomTargetOn s c"

fun room_actual_value_of :: "light_zone_actual \<Rightarrow> room_actual_value" where
  "room_actual_value_of ZoneOn = RoomActualOn"
| "room_actual_value_of ZoneOff = RoomActualOff"

fun plug_target_value_of :: "plug_target \<Rightarrow> plug_target_value" where
  "plug_target_value_of PlugOn = PlugTargetOn"
| "plug_target_value_of PlugOff = PlugTargetOff"

fun heating_target_value_of :: "heating_zone_target \<Rightarrow> heating_zone_target_value" where
  "heating_target_value_of Heating = ZoneTargetHeating"
| "heating_target_value_of HeatOff = ZoneTargetOff"

definition heating_actual_value_of :: "heating_zone_actual \<Rightarrow> heating_zone_actual_value" where
  "heating_actual_value_of a = \<lparr>hzv_relay_on = hza_relay_on a, hzv_temperature = hza_temperature a\<rparr>"

definition light_actual_value_of :: "light_actual \<Rightarrow> light_actual_value" where
  "light_actual_value_of a =
     \<lparr>lav_on = la_on a, lav_brightness = la_brightness a, lav_color_temp = la_color_temp a, lav_color_xy = la_color_xy a\<rparr>"

fun light_target_value_of :: "light_target \<Rightarrow> light_target_value" where
  "light_target_value_of LTOff = LightTargetOff"
| "light_target_value_of (LTOn b c) = LightTargetOn b c"

fun trv_target_value_of :: "trv_target \<Rightarrow> trv_target_value" where
  "trv_target_value_of (Setpoint x) = TrvTargetSetpoint x"
| "trv_target_value_of (Inhibited until) = TrvTargetInhibited"
| "trv_target_value_of (ForcedOpen PressureGroup) = TrvTargetForcedOpen ''pressure_group''"
| "trv_target_value_of (ForcedOpen MinCycle) = TrvTargetForcedOpen ''min_cycle''"

definition light_snapshot_from :: "string \<Rightarrow> string option \<Rightarrow> light_entity option \<Rightarrow> instant \<Rightarrow> light_snapshot" where
  "light_snapshot_from device lroom entity now =
     \<lparr>ls_target = map_option (\<lambda>l. tass_target_info_of (light_target l) now) entity,
      ls_target_value = map_option light_target_value_of (Option.bind entity (\<lambda>l. tgt_value (light_target l))),
      ls_device = device, ls_room = lroom,
      ls_actual = map_option (\<lambda>l. tass_actual_info_of (light_actual l) now) entity,
      ls_actual_value = map_option light_actual_value_of (Option.bind entity (\<lambda>l. act_value (light_actual l)))\<rparr>"

text \<open>\<open>member.split('/').next()\<close>\<close>

definition member_device :: "string \<Rightarrow> string" where
  "member_device member = takeWhile (\<lambda>c. c \<noteq> CHR ''/'') member"

definition light_room_of :: "topology \<Rightarrow> string \<Rightarrow> string option" where
  "light_room_of t device =
     map_option room_name (find (\<lambda>r. list_ex (\<lambda>m. member_device m = device) (room_members r)) (t_rooms t))"

definition build_light_snapshot :: "processor \<Rightarrow> string \<Rightarrow> instant \<Rightarrow> light_snapshot option option" where
  "build_light_snapshot p device now =
     (case device_idx_of (p_topology p) device of
        None \<Rightarrow> Some None
      | Some d \<Rightarrow>
          do { kind \<leftarrow> device_kind_of (p_topology p) d;
               Some (if kind \<noteq> KLight then None
                     else Some (light_snapshot_from device (light_room_of (p_topology p) device)
                                  (bt_get (w_lights (p_world p)) device) now)) })"

definition add_member_light :: "processor \<Rightarrow> instant \<Rightarrow> resolved_room \<Rightarrow> string \<Rightarrow> light_snapshot list \<Rightarrow> light_snapshot list option" where
  "add_member_light p now r member out =
     (let device = member_device member in
      do { is_light \<leftarrow> is_kind (p_topology p) KLight device;
           Some (if \<not> is_light \<or> list_ex (\<lambda>l. ls_device l = device) out then out
                 else out @ [light_snapshot_from device (Some (room_name r)) (bt_get (w_lights (p_world p)) device) now]) })"

definition build_all_light_snapshots :: "processor \<Rightarrow> instant \<Rightarrow> light_snapshot list option" where
  "build_all_light_snapshots p now =
     foldM (\<lambda>r. foldM (add_member_light p now r) (room_members r)) (t_rooms (p_topology p)) []"

section \<open>Switches and effects\<close>

fun gesture_label :: "gesture \<Rightarrow> string" where
  "gesture_label Press = ''press''"
| "gesture_label Hold = ''hold''"
| "gesture_label HoldRelease = ''hold_release''"
| "gesture_label DoubleTap = ''double_tap''"
| "gesture_label SoftDoubleTap = ''soft_double_tap''"

definition ARROW :: string where
  "ARROW = [CHR '' '', CHR 0xE2, CHR 0x86, CHR 0x92, CHR '' '']"

definition show_signed :: "int \<Rightarrow> string" where
  "show_signed i = (if 0 \<le> i then CHR ''+'' else CHR ''-'') # show_nat (nat \<bar>i\<bar>)"

definition of_room :: "topology \<Rightarrow> string \<Rightarrow> room_idx \<Rightarrow> string option" where
  "of_room t label i = do { r \<leftarrow> room t i; Some (label @ ARROW @ room_name r) }"

definition of_plug :: "topology \<Rightarrow> string \<Rightarrow> plug_idx \<Rightarrow> string option" where
  "of_plug t label d = do { n \<leftarrow> device_name t d; Some (label @ ARROW @ n) }"

fun describe_effect :: "(f64 \<Rightarrow> string) \<Rightarrow> topology \<Rightarrow> resolved_effect \<Rightarrow> string option" where
  "describe_effect show_f64 t (SceneCycle r) = of_room t ''scene_cycle'' r"
| "describe_effect show_f64 t (GroupSceneCycle r) = of_room t ''group_scene_cycle'' r"
| "describe_effect show_f64 t (SceneStepDown r) = of_room t ''scene_step_down'' r"
| "describe_effect show_f64 t (SceneToggle r) = of_room t ''scene_toggle'' r"
| "describe_effect show_f64 t (SceneToggleCycle r) = of_room t ''scene_toggle_cycle'' r"
| "describe_effect show_f64 t (TurnOffRoom r) = of_room t ''turn_off'' r"
| "describe_effect show_f64 t (BrightnessStep r s tr) = of_room t (''brightness_step '' @ show_signed s) r"
| "describe_effect show_f64 t (BrightnessMove r s) = of_room t (''brightness_move '' @ show_signed s) r"
| "describe_effect show_f64 t (BrightnessStop r) = of_room t ''brightness_stop'' r"
| "describe_effect show_f64 t (Toggle d (Some s)) = of_plug t (''toggle (confirm '' @ show_f64 s @ ''s)'') d"
| "describe_effect show_f64 t (Toggle d None) = of_plug t ''toggle'' d"
| "describe_effect show_f64 t (TurnOn d) = of_plug t ''turn_on'' d"
| "describe_effect show_f64 t (TurnOff d) = of_plug t ''turn_off'' d"
| "describe_effect show_f64 t TurnOffAllZones = Some ''turn_off_all_zones''"

type_synonym grouped_switches = "(string, (string, switch_action_info list) btree_map) btree_map"

definition collect_switch :: "(f64 \<Rightarrow> string) \<Rightarrow> topology \<Rightarrow> (resolved_binding \<Rightarrow> bool) \<Rightarrow> resolved_binding \<Rightarrow> grouped_switches \<Rightarrow> grouped_switches option" where
  "collect_switch show_f64 t pred b grouped =
     (if \<not> pred b then Some grouped
      else (case rb_trigger b of
          Button d button gesture \<Rightarrow>
            do { n \<leftarrow> device_name t d;
                 description \<leftarrow> describe_effect show_f64 t (rb_effect b);
                 let buttons = bt_get_or [] grouped n;
                 let action = \<lparr>sai_gesture = gesture_label gesture, sai_description = description\<rparr>;
                 Some (bt_insert n (bt_insert button (bt_get_or [] buttons button @ [action]) buttons) grouped) }
        | _ \<Rightarrow> Some grouped))"

definition collect_switches :: "(f64 \<Rightarrow> string) \<Rightarrow> topology \<Rightarrow> (resolved_binding \<Rightarrow> bool) \<Rightarrow> switch_info list option" where
  "collect_switches show_f64 t pred =
     do { grouped \<leftarrow> foldM (collect_switch show_f64 t pred) (t_bindings t) [];
          Some (map (\<lambda>(device, buttons). \<lparr>swi_device = device,
             swi_buttons = map (\<lambda>(button, actions). \<lparr>sbi_button = button, sbi_actions = actions\<rparr>) buttons\<rparr>) grouped) }"

definition build_room_switches :: "(f64 \<Rightarrow> string) \<Rightarrow> topology \<Rightarrow> string \<Rightarrow> switch_info list option" where
  "build_room_switches show_f64 t n = collect_switches show_f64 t (\<lambda>b. effect_room (rb_effect b) = room_idx_of t n)"

definition build_linked_switches :: "(f64 \<Rightarrow> string) \<Rightarrow> topology \<Rightarrow> string \<Rightarrow> switch_info list option" where
  "build_linked_switches show_f64 t plug_device =
     do { idx \<leftarrow> plug_idx_by_name t plug_device;
          collect_switches show_f64 t (\<lambda>b. effect_target_plug (rb_effect b) = idx) }"

definition build_room_lights :: "topology \<Rightarrow> resolved_room \<Rightarrow> light_info list option" where
  "build_room_lights t r =
     do { lights \<leftarrow> foldM (\<lambda>member seen.
            let device = member_device member in
            if device \<in> set seen then Some seen
            else do { is_light \<leftarrow> is_kind t KLight device; Some (if is_light then seen @ [device] else seen) })
          (room_members r) [];
          Some (map (\<lambda>d. \<lparr>li_device = d\<rparr>) lights) }"

section \<open>Sensors\<close>

definition motion_event_info_of :: "motion_event \<Rightarrow> motion_event_info" where
  "motion_event_info_of ev =
     \<lparr>mei_timestamp_epoch_ms = me_timestamp_epoch_ms ev, mei_kind = (if me_occupied ev then MotionSeen else MotionClear)\<rparr>"

definition motion_sensor_info_of :: "world_state \<Rightarrow> instant \<Rightarrow> motion_binding \<Rightarrow> motion_sensor_info" where
  "motion_sensor_info_of w now mb =
     (let entity = bt_get (w_motion_sensors w) (mb_sensor mb) in
      \<lparr>msi_device = mb_sensor mb,
       msi_last_event = map_option motion_event_info_of (Option.bind entity ms_last_event),
       msi_occupied = map_option ma_occupied (Option.bind entity (\<lambda>e. act_value (ms_actual e))),
       msi_illuminance = Option.bind entity sensor_illuminance,
       msi_freshness = (case entity of None \<Rightarrow> [] | Some e \<Rightarrow> freshness_str (act_freshness (ms_actual e))),
       msi_since_ago_ms = map_option (ago_ms now) (Option.bind entity (\<lambda>e. act_since (ms_actual e))),
       msi_occupancy_timeout_secs = mb_occupancy_timeout_seconds mb\<rparr>)"

definition build_room_motion_sensors :: "motion_binding list \<Rightarrow> world_state \<Rightarrow> instant \<Rightarrow> motion_sensor_info list" where
  "build_room_motion_sensors bound w now = map (motion_sensor_info_of w now) bound"

definition active_motion_sensors_for_room :: "processor \<Rightarrow> string \<Rightarrow> string list option" where
  "active_motion_sensors_for_room p n =
     do { found \<leftarrow> room_by_name (p_topology p) n;
          Some (case found of
              None \<Rightarrow> []
            | Some r \<Rightarrow> map mb_sensor (filter (\<lambda>mb. case bt_get (w_motion_sensors (p_world p)) (mb_sensor mb) of
                            None \<Rightarrow> False | Some s \<Rightarrow> is_occupied s) (room_bound_motion r))) }"

section \<open>Schedules\<close>

definition slot_plans :: "slots \<Rightarrow> slot_plan list" where
  "slot_plans sl = map (\<lambda>(n, s). \<lparr>sp_name = n, sp_from = display (slot_from s), sp_to = display (slot_to s),
     sp_scene_ids = slot_scene_ids s\<rparr>) sl"

definition schedule_plan :: "slots \<Rightarrow> scene_schedule \<Rightarrow> bool \<Rightarrow> scene_schedule_plan" where
  "schedule_plan sl deployed overridden =
     \<lparr>ssp_slots = slot_plans sl,
      ssp_available_scenes = map (\<lambda>s. \<lparr>so_id = scene_id s, so_name = scene_name s\<rparr>) (ss_scenes deployed),
      ssp_overridden = overridden\<rparr>"

definition member_key :: "topology \<Rightarrow> light_endpoint \<Rightarrow> string option" where
  "member_key t l = do { n \<leftarrow> device_name t (le_device l); Some (n @ ''/'' @ show_nat (le_endpoint l)) }"

definition timed_action_info_of :: "(f64 \<Rightarrow> string) \<Rightarrow> processor \<Rightarrow> resolved_binding \<Rightarrow> timed_action_info option option" where
  "timed_action_info_of show_f64 p b =
     (case timed_action_time p b of
        None \<Rightarrow> Some None
      | Some time \<Rightarrow>
          do { action \<leftarrow> describe_effect show_f64 (p_topology p) (rb_effect b);
               Some (Some \<lparr>tac_binding = rb_name b, tac_time = display time, tac_action = action,
                           tac_overridden = timed_action_overridden p (rb_name b)\<rparr>) })"

definition build_timed_actions :: "(f64 \<Rightarrow> string) \<Rightarrow> processor \<Rightarrow> (resolved_effect \<Rightarrow> bool option) \<Rightarrow> timed_action_info list option" where
  "build_timed_actions show_f64 p applies =
     do { bs \<leftarrow> effective_bindings p;
          hits \<leftarrow> filterM (\<lambda>b. applies (rb_effect b)) bs;
          infos \<leftarrow> mapM (timed_action_info_of show_f64 p) hits;
          Some (List.map_filter id infos) }"

fun wire_motion_mode_of :: "motion_mode \<Rightarrow> wire_motion_mode" where
  "wire_motion_mode_of OnOff = WireOnOff"
| "wire_motion_mode_of OnOnly = WireOnOnly"
| "wire_motion_mode_of OffOnly = WireOffOnly"

definition range_into_raw :: "day_time_range \<Rightarrow> schedule_range" where
  "range_into_raw r =
     \<lparr>srg_start = pad2 (start_hour r) @ '':'' @ pad2 (start_minute r),
      srg_end = pad2 (end_hour r) @ '':'' @ pad2 (end_minute r), srg_temperature = temperature r\<rparr>"

definition schedule_to_wire :: "temperature_schedule \<Rightarrow> valve_schedule_plan" where
  "schedule_to_wire s = bt_map_values (\<lambda>rs. sort_key srg_start (map range_into_raw rs)) (days s)"

definition EN_DASH :: string where
  "EN_DASH = [CHR 0xE2, CHR 0x80, CHR 0x93]"

definition DEGREE :: string where
  "DEGREE = [CHR 0xC2, CHR 0xB0]"

definition show_range :: "(f64 \<Rightarrow> string) \<Rightarrow> day_time_range \<Rightarrow> string" where
  "show_range show_f64 r =
     pad2 (start_hour r) @ '':'' @ pad2 (start_minute r) @ EN_DASH @ pad2 (end_hour r) @ '':'' @ pad2 (end_minute r) @
     ARROW @ show_f64 (temperature r) @ DEGREE @ ''C''"

primrec join_comma :: "string list \<Rightarrow> string" where
  "join_comma [] = []"
| "join_comma (x # xs) = (if xs = [] then x else x @ '', '' @ join_comma xs)"

definition format_schedule_summary :: "(f64 \<Rightarrow> string) \<Rightarrow> temperature_schedule \<Rightarrow> weekday \<Rightarrow> string" where
  "format_schedule_summary show_f64 s day =
     (case bt_get (days s) day of
        None \<Rightarrow> []
      | Some rs \<Rightarrow> join_comma (map (show_range show_f64) (sort_key (\<lambda>r. (start_hour r, start_minute r)) rs)))"

section \<open>Rooms\<close>

definition snapshot_sun_times :: "processor \<Rightarrow> sun_times option option" where
  "snapshot_sun_times p =
     (case p_location p of
        None \<Rightarrow> Some None
      | Some loc \<Rightarrow> map_option Some (compute_sun_times (p_sunrise p) loc (ck_date (p_clock p)) (ck_utc_offset_hours (p_clock p))))"

text \<open>What is left of a time span that began at an instant; \<open>checked_sub\<close> has nothing once it is over.\<close>

definition remaining_secs :: "duration \<Rightarrow> instant \<Rightarrow> instant option \<Rightarrow> u64 option" where
  "remaining_secs whole now began =
     Option.bind began (\<lambda>since. let elapsed = duration_since now since in
        if elapsed \<le> whole then Some (as_secs (whole - elapsed)) else None)"

definition rule_acts_on :: "topology \<Rightarrow> string \<Rightarrow> resolved_motion_rule \<Rightarrow> bool option" where
  "rule_acts_on t n rule = anyM (\<lambda>i. do { r \<leftarrow> room t i; Some (room_name r = n) }) (mr_rooms rule)"

text \<open>Whether a light of the session is still claimed and owned by motion.\<close>

definition session_holds :: "processor \<Rightarrow> motion_session \<Rightarrow> light_endpoint \<Rightarrow> bool option" where
  "session_holds p session l =
     (if bs_contains (mse_claimed session) (le_device l)
      then do { entity \<leftarrow> light_at p (le_device l);
                Some (case entity of None \<Rightarrow> False | Some e \<Rightarrow> tgt_owner (light_target e) = Some Motion) }
      else Some False)"

definition motion_rule_info_of ::
  "processor \<Rightarrow> u8 \<Rightarrow> u8 \<Rightarrow> sun_times option \<Rightarrow> instant \<Rightarrow> resolved_motion_rule \<Rightarrow> motion_rule_info option" where
  "motion_rule_info_of p hour minute sun now rule =
     (let t = p_topology p; state = bt_get (w_motion_rules (p_world p)) (mr_name rule); sl = motion_slots p rule in
      do { found \<leftarrow> slot_for_time sl hour minute sun;
           targets \<leftarrow> (case found of
               None \<Rightarrow> Some []
             | Some (slot, _) \<Rightarrow> do { target \<leftarrow> bt_get (mr_targets_by_slot rule) slot; mapM (member_key t) (mt_lights target) });
           session_targets \<leftarrow> (case Option.bind state mrs_session of
               None \<Rightarrow> Some []
             | Some session \<Rightarrow>
                 do { kept \<leftarrow> filterM (session_holds p session) (mt_lights (mse_target session)); mapM (member_key t) kept });
           Some \<lparr>mri_max_illuminance = mr_max_illuminance rule, mri_name = mr_name rule,
             mri_sensors = build_room_motion_sensors (mr_sensors rule) (p_world p) now,
             mri_mode = wire_motion_mode_of (mr_mode rule), mri_active_slot = map_option fst found,
             mri_targets = targets, mri_session_targets = session_targets,
             mri_off_cooldown_secs = mr_off_cooldown_seconds rule,
             mri_cooldown_remaining_secs =
               Option.bind (remaining_secs (from_secs (mr_off_cooldown_seconds rule)) now (Option.bind state mrs_last_motion_off_at))
                 (\<lambda>s. if s > 0 then Some s else None),
             mri_schedule = schedule_plan sl (mr_scenes rule) (schedule_overridden p (OwnerMotionRule (mr_name rule)))\<rparr> })"

definition switch_step_plans :: "topology \<Rightarrow> resolved_switch_steps \<Rightarrow> (string, switch_step_plan list) btree_map option" where
  "switch_step_plans t steps =
     mapM (\<lambda>(slot, l).
        do { plans \<leftarrow> mapM (\<lambda>st. do { lights \<leftarrow> mapM (member_key t) (st_lights st);
                                     Some \<lparr>stp_scene_id = scene_id (st_scene st), stp_lights = lights\<rparr> }) l;
             Some (slot, plans) }) steps"

definition acts_on_room :: "topology \<Rightarrow> string \<Rightarrow> resolved_effect \<Rightarrow> bool option" where
  "acts_on_room t n e =
     (case e of
        TurnOffAllZones \<Rightarrow> Some True
      | _ \<Rightarrow> (case effect_room e of None \<Rightarrow> Some False
             | Some i \<Rightarrow> do { r \<leftarrow> room t i; Some (room_name r = n) }))"

definition room_snapshot_from ::
  "(f64 \<Rightarrow> string) \<Rightarrow> resolved_room \<Rightarrow> light_zone_entity option \<Rightarrow> string list \<Rightarrow> u8 \<Rightarrow> u8 \<Rightarrow> sun_times option \<Rightarrow>
   instant \<Rightarrow> processor \<Rightarrow> room_snapshot option" where
  "room_snapshot_from show_f64 r zone active_sensors hour minute sun now p =
     (let t = p_topology p; sl = room_slots p r in
      do { found \<leftarrow> slot_for_time sl hour minute sun;
           switches \<leftarrow> build_room_switches show_f64 t (room_name r);
           rules \<leftarrow> filterM (rule_acts_on t (room_name r)) (t_motion_rules t);
           motion_rules \<leftarrow> mapM (motion_rule_info_of p hour minute sun now) rules;
           lights \<leftarrow> build_room_lights t r;
           steps \<leftarrow> switch_step_plans t (room_switch_steps_of p r);
           timed \<leftarrow> build_timed_actions show_f64 p (acts_on_room t (room_name r));
           Some \<lparr>rsn_name = room_name r, rsn_group_name = room_group_name r, rsn_room = room_room r,
             rsn_physically_on = (case zone of None \<Rightarrow> False | Some z \<Rightarrow> zone_is_on z),
             rsn_motion_owned = list_ex (\<lambda>rule. list_ex (\<lambda>l. l \<in> set (room_members r)) (mri_session_targets rule)) motion_rules,
             rsn_motion_enabled = motion_enabled p (room_name r),
             rsn_cycle_idx = (case zone of None \<Rightarrow> 0 | Some z \<Rightarrow> zone_cycle_idx z),
             rsn_last_press_ago_ms = map_option (ago_ms now) (Option.bind zone lz_last_press_at),
             rsn_last_off_ago_ms = map_option (ago_ms now) (Option.bind zone lz_last_off_at),
             rsn_motion_active_sensors = active_sensors, rsn_active_slot = map_option fst found,
             rsn_scene_ids = (case found of None \<Rightarrow> [] | Some (_, s) \<Rightarrow> slot_scene_ids s),
             rsn_target = map_option (\<lambda>z. tass_target_info_of (lz_target z) now) zone,
             rsn_target_value = map_option room_target_value_of (Option.bind zone (\<lambda>z. tgt_value (lz_target z))),
             rsn_actual = map_option (\<lambda>z. tass_actual_info_of (lz_actual z) now) zone,
             rsn_actual_value = map_option room_actual_value_of (Option.bind zone (\<lambda>z. act_value (lz_actual z))),
             rsn_switches = switches, rsn_motion_rules = motion_rules, rsn_lights = lights,
             rsn_schedule = schedule_plan sl (room_scenes r) (schedule_overridden p (OwnerRoom (room_name r))),
             rsn_members = room_members r, rsn_switch_steps = steps, rsn_timed_actions = timed\<rparr> })"

definition build_room_snapshot :: "(f64 \<Rightarrow> string) \<Rightarrow> processor \<Rightarrow> string \<Rightarrow> instant \<Rightarrow> room_snapshot option option" where
  "build_room_snapshot show_f64 p n now =
     do { found \<leftarrow> room_by_name (p_topology p) n;
          case found of
            None \<Rightarrow> Some None
          | Some r \<Rightarrow>
              do { sun \<leftarrow> snapshot_sun_times p;
                   active_sensors \<leftarrow> active_motion_sensors_for_room p n;
                   map_option Some (room_snapshot_from show_f64 r (bt_get (w_light_zones (p_world p)) n) active_sensors
                     (ck_local_hour (p_clock p)) (ck_local_minute (p_clock p)) sun now p) } }"

section \<open>Plugs\<close>

fun plug_action_of :: "resolved_effect \<Rightarrow> plug_action option" where
  "plug_action_of (TurnOn d) = Some PaOn"
| "plug_action_of (TurnOff d) = Some PaOff"
| "plug_action_of (Toggle d c) = Some PaToggle"
| "plug_action_of _ = None"

definition build_plug_schedule :: "processor \<Rightarrow> device_idx \<Rightarrow> plug_schedule_view option" where
  "build_plug_schedule p d =
     do { bs \<leftarrow> effective_bindings p;
          let timed_actions = List.map_filter (\<lambda>b. do { action \<leftarrow> plug_action_of (rb_effect b);
                time \<leftarrow> timed_action_time p b; Some \<lparr>ptp_time = display time, ptp_action = action\<rparr> })
              (filter (\<lambda>b. effect_target_plug (rb_effect b) = Some d) bs);
          kills \<leftarrow> power_below_bindings p d;
          let kill_switch = (case kills of [] \<Rightarrow> None
             | b # _ \<Rightarrow> map_option (\<lambda>(watts, holdoff). \<lparr>ksp_threshold_watts = watts, ksp_holdoff_secs = as_secs holdoff\<rparr>)
                          (kill_switch_params b));
          name \<leftarrow> device_name (p_topology p) d;
          metered \<leftarrow> power_metered (p_topology p) d;
          Some \<lparr>psv_timed_actions = timed_actions, psv_kill_switch = kill_switch,
                psv_overridden = plug_schedule_overridden p name, psv_power_metered = metered\<rparr> }"

fun kill_switch_state_str :: "kill_switch_rule_state \<Rightarrow> string" where
  "kill_switch_state_str Inactive = ''inactive''"
| "kill_switch_state_str Armed = ''armed''"
| "kill_switch_state_str (KsIdle since) = ''idle''"
| "kill_switch_state_str Suppressed = ''suppressed''"

definition kill_switch_rule_info_of :: "plug_entity \<Rightarrow> string \<Rightarrow> processor \<Rightarrow> instant \<Rightarrow> resolved_binding \<Rightarrow> kill_switch_rule_info option" where
  "kill_switch_rule_info_of plug_e device p now b =
     (let state = bt_get_or Inactive (kill_switch_rules plug_e) (rb_name b) in
      do { (watts, holdoff) \<leftarrow> kill_switch_params b;
           Some \<lparr>ksi_rule_name = rb_name b, ksi_state = kill_switch_state_str state, ksi_threshold_watts = watts,
                 ksi_holdoff_secs = as_secs holdoff,
                 ksi_idle_since_ago_ms = (case state of KsIdle since \<Rightarrow> Some (ago_ms now since) | _ \<Rightarrow> None),
                 ksi_overridden = plug_schedule_overridden p device\<rparr> })"

definition build_kill_switch_rules :: "plug_entity option \<Rightarrow> string \<Rightarrow> processor \<Rightarrow> instant \<Rightarrow> kill_switch_rule_info list option" where
  "build_kill_switch_rules plug_o device p now =
     (case (plug_o, device_idx_of (p_topology p) device) of
        (Some plug_e, Some d) \<Rightarrow>
          do { bs \<leftarrow> power_below_bindings p d; mapM (kill_switch_rule_info_of plug_e device p now) bs }
      | _ \<Rightarrow> Some [])"

text \<open>The first \<open>expect\<close>: the device must exist.\<close>

definition plug_snapshot_from :: "(f64 \<Rightarrow> string) \<Rightarrow> plug_entity option \<Rightarrow> string \<Rightarrow> processor \<Rightarrow> instant \<Rightarrow> plug_snapshot option" where
  "plug_snapshot_from show_f64 plug_o device p now =
     do { d \<leftarrow> device_idx_of (p_topology p) device;
          info \<leftarrow> index (t_devices (p_topology p)) d;
          idle_since \<leftarrow> earliest_kill_switch_idle p device;
          holdoff \<leftarrow> kill_switch_holdoff_secs p device;
          rules \<leftarrow> build_kill_switch_rules plug_o device p now;
          linked \<leftarrow> build_linked_switches show_f64 (p_topology p) device;
          schedule \<leftarrow> build_plug_schedule p d;
          Some \<lparr>psn_exclude_from_totals = di_exclude_from_totals info, psn_device = device,
            psn_display_name = di_display_name info, psn_room = di_room info,
            psn_on = (case plug_o of None \<Rightarrow> False | Some e \<Rightarrow> plug_is_on e),
            psn_idle_since_ago_ms = map_option (ago_ms now) idle_since, psn_kill_switch_holdoff_secs = holdoff,
            psn_power_watts = Option.bind plug_o plug_power_reading,
            psn_power_actual = map_option (\<lambda>e. tass_actual_info_of (plug_power e) now) plug_o,
            psn_target = map_option (\<lambda>e. tass_target_info_of (plug_target e) now) plug_o,
            psn_target_value = map_option plug_target_value_of (Option.bind plug_o (\<lambda>e. tgt_value (plug_target e))),
            psn_actual = map_option (\<lambda>e. tass_actual_info_of (plug_actual e) now) plug_o,
            psn_actual_value = map_option (\<lambda>a. \<lparr>pav_on = pa_on a, pav_power = Option.bind plug_o plug_power_reading\<rparr>)
              (Option.bind plug_o (\<lambda>e. act_value (plug_actual e))),
            psn_kill_switch_rules = rules, psn_linked_switches = linked, psn_schedule = schedule\<rparr> }"

definition build_plug_snapshot :: "(f64 \<Rightarrow> string) \<Rightarrow> processor \<Rightarrow> string \<Rightarrow> instant \<Rightarrow> plug_snapshot option option" where
  "build_plug_snapshot show_f64 p device now =
     (case bt_get (w_plugs (p_world p)) device of
        None \<Rightarrow> Some None
      | Some e \<Rightarrow> map_option Some (plug_snapshot_from show_f64 (Some e) device p now))"

section \<open>Heating\<close>

definition running_state_of :: "trv_actual option \<Rightarrow> trv_running_state" where
  "running_state_of actual =
     (case actual of
        None \<Rightarrow> TrvUnknown
      | Some a \<Rightarrow> if \<not> ta_running_state_seen a then TrvUnknown
                  else if ta_running_state a = HrsHeat then TrvHeat else TrvIdle)"

definition trv_snapshot_from :: "(f64 \<Rightarrow> string) \<Rightarrow> heating_config \<Rightarrow> processor \<Rightarrow> instant \<Rightarrow> zone_trv \<Rightarrow> trv_snapshot option" where
  "trv_snapshot_from show_f64 hc p now zt =
     (let device = zt_device zt; trv_o = bt_get (w_trvs (p_world p)) device;
          schedule = valve_schedule p device (zt_schedule zt) hc;
          actual = Option.bind trv_o (\<lambda>e. act_value (trv_actual e))
      in do { boost \<leftarrow> active_boost p device;
              left \<leftarrow> (if boost = None then Some None else boost_remaining_ms p device);
              Some \<lparr>tsn_boost = map_option (\<lambda>b. \<lparr>vbs_temperature = vb_temperature b,
                  vbs_ends_at_epoch_ms = vb_ends_at_epoch_ms b,
                  vbs_remaining_ms = (case left of None \<Rightarrow> 0 | Some ms \<Rightarrow> ms)\<rparr>) boost,
                tsn_heat_demand_enabled = heat_demand_enabled p device, tsn_device = device,
                tsn_local_temperature = Option.bind actual ta_local_temperature,
                tsn_pi_heating_demand = Option.bind actual ta_pi_heating_demand,
                tsn_running_state = running_state_of actual, tsn_setpoint = Option.bind actual ta_setpoint,
                tsn_battery = Option.bind actual ta_battery,
                tsn_inhibited = (case trv_o of None \<Rightarrow> False | Some e \<Rightarrow> is_inhibited now e),
                tsn_forced = (case trv_o of None \<Rightarrow> False | Some e \<Rightarrow> is_forced_open e),
                tsn_schedule = zt_schedule zt,
                tsn_schedule_summary = (case schedule of None \<Rightarrow> []
                  | Some s \<Rightarrow> format_schedule_summary show_f64 s (ck_local_weekday (p_clock p))),
                tsn_schedule_override = valve_schedule_overridden p device,
                tsn_schedule_plan = map_option schedule_to_wire schedule,
                tsn_target = map_option (\<lambda>e. tass_target_info_of (trv_target e) now) trv_o,
                tsn_target_value = map_option trv_target_value_of (Option.bind trv_o (\<lambda>e. tgt_value (trv_target e))),
                tsn_actual = map_option (\<lambda>e. tass_actual_info_of (trv_actual e) now) trv_o\<rparr> })"

definition build_one_heating_zone ::
  "(f64 \<Rightarrow> string) \<Rightarrow> heating_config \<Rightarrow> processor \<Rightarrow> instant \<Rightarrow> heating_zone_config \<Rightarrow> heating_zone_snapshot option" where
  "build_one_heating_zone show_f64 hc p now zone =
     (let hz = bt_get (w_heating_zones (p_world p)) (zone_name zone) in
      do { trvs \<leftarrow> mapM (trv_snapshot_from show_f64 hc p now) (zone_trvs zone);
           Some \<lparr>zsn_name = zone_name zone, zsn_relay_device = zone_relay zone,
             zsn_relay_on = (case hz of None \<Rightarrow> False | Some h \<Rightarrow> is_relay_on h),
             zsn_relay_state_known = (case hz of None \<Rightarrow> False | Some h \<Rightarrow> hz_relay_state_known h),
             zsn_relay_temperature = Option.bind (Option.bind hz (\<lambda>h. act_value (hz_actual h))) hza_temperature,
             zsn_trvs = trvs,
             zsn_min_cycle_remaining_secs =
               (case remaining_secs (from_secs (min_cycle_seconds (hc_heat_pump hc))) now (effective_pump_on_since p) of
                  None \<Rightarrow> 0 | Some s \<Rightarrow> s),
             zsn_min_pause_remaining_secs =
               (case remaining_secs (from_secs (min_pause_seconds (hc_heat_pump hc))) now (effective_pump_off_since p) of
                  None \<Rightarrow> 0 | Some s \<Rightarrow> s),
             zsn_relay_stale = (case hz of None \<Rightarrow> False | Some h \<Rightarrow> is_wt_stale now h),
             zsn_target = map_option (\<lambda>h. tass_target_info_of (hz_target h) now) hz,
             zsn_target_value = map_option heating_target_value_of (Option.bind hz (\<lambda>h. tgt_value (hz_target h))),
             zsn_actual = map_option (\<lambda>h. tass_actual_info_of (hz_actual h) now) hz,
             zsn_actual_value = map_option heating_actual_value_of (Option.bind hz (\<lambda>h. act_value (hz_actual h)))\<rparr> })"

definition build_heating_zone_snapshots :: "(f64 \<Rightarrow> string) \<Rightarrow> processor \<Rightarrow> instant \<Rightarrow> heating_zone_snapshot list option" where
  "build_heating_zone_snapshots show_f64 p now =
     (case heating_config_of (p_topology p) of
        None \<Rightarrow> Some []
      | Some hc \<Rightarrow> mapM (build_one_heating_zone show_f64 hc p now) (hc_zones hc))"

definition build_heating_zone_snapshot ::
  "(f64 \<Rightarrow> string) \<Rightarrow> processor \<Rightarrow> string \<Rightarrow> instant \<Rightarrow> heating_zone_snapshot option option" where
  "build_heating_zone_snapshot show_f64 p n now =
     (case Option.bind (heating_config_of (p_topology p))
             (\<lambda>hc. map_option (Pair hc) (find (\<lambda>z. zone_name z = n) (hc_zones hc))) of
        None \<Rightarrow> Some None
      | Some (hc, zone) \<Rightarrow> map_option Some (build_one_heating_zone show_f64 hc p now zone))"

section \<open>Everything\<close>

definition all_plug_names :: "topology \<Rightarrow> string list option" where
  "all_plug_names t = mapM (device_name t) (t_plug_devices t)"

definition meter_reading_of :: "processor \<Rightarrow> instant \<Rightarrow> string \<Rightarrow> power_meter_reading" where
  "meter_reading_of p now device =
     (let meter = bt_get (w_power_meters (p_world p)) device in
      \<lparr>pmr_device = device,
       pmr_power_watts = Option.bind meter (\<lambda>m. act_value (pm_power m)),
       pmr_energy_kwh = Option.bind meter (\<lambda>m. act_value (pm_energy m)),
       pmr_power_freshness = (case meter of None \<Rightarrow> ''unknown'' | Some m \<Rightarrow> tai_freshness (tass_actual_info_of (pm_power m) now)),
       pmr_energy_freshness = (case meter of None \<Rightarrow> ''unknown'' | Some m \<Rightarrow> tai_freshness (tass_actual_info_of (pm_energy m) now))\<rparr>)"

definition build_full_snapshot :: "(f64 \<Rightarrow> string) \<Rightarrow> processor \<Rightarrow> instant \<Rightarrow> full_state_snapshot option" where
  "build_full_snapshot show_f64 p now =
     (let t = p_topology p in
      do { sun \<leftarrow> snapshot_sun_times p;
           room_views \<leftarrow> mapM (\<lambda>r. do { active_sensors \<leftarrow> active_motion_sensors_for_room p (room_name r);
               room_snapshot_from show_f64 r (bt_get (w_light_zones (p_world p)) (room_name r)) active_sensors
                 (ck_local_hour (p_clock p)) (ck_local_minute (p_clock p)) sun now p }) (t_rooms t);
           names \<leftarrow> all_plug_names t;
           plug_views \<leftarrow> mapM (\<lambda>n. plug_snapshot_from show_f64 (bt_get (w_plugs (p_world p)) n) n p now) names;
           zone_views \<leftarrow> build_heating_zone_snapshots show_f64 p now;
           lights \<leftarrow> build_all_light_snapshots p now;
           Some \<lparr>fss_heat_pump_meter = map_option (meter_reading_of p now) (Option.bind (heating_config_of t) hc_energy_meter),
             fss_rooms = room_views, fss_plugs = plug_views, fss_heating_zones = zone_views, fss_lights = lights,
             fss_timestamp_epoch_ms = ck_epoch_millis (p_clock p)\<rparr> })"

definition build_topology_info :: "topology \<Rightarrow> topology_info option" where
  "build_topology_info t =
     do { names \<leftarrow> all_plug_names t;
          Some \<lparr>ti_rooms = map (\<lambda>r. \<lparr>ri_name = room_name r, ri_group_name = room_group_name r, ri_parent = room_parent r,
                  ri_slots = map (\<lambda>(n, s). \<lparr>sli_name = n, sli_from = display (slot_from s), sli_to = display (slot_to s),
                                              sli_scene_ids = slot_scene_ids s\<rparr>) (ss_slots (room_scenes r)),
                  ri_has_motion = has_motion_sensor r\<rparr>) (t_rooms t),
                ti_plugs = names,
                ti_heating_zones = (case heating_config_of t of None \<Rightarrow> []
                  | Some hc \<Rightarrow> map (\<lambda>z. \<lparr>zi_name = zone_name z, zi_relay_device = zone_relay z,
                                          zi_trv_devices = map zt_device (zone_trvs z)\<rparr>) (hc_zones hc))\<rparr> }"

section \<open>Broadcasts\<close>

datatype entity_update =
    UpdateRoom room_snapshot
  | UpdatePlug plug_snapshot
  | UpdateHeatingZone heating_zone_snapshot
  | UpdateLight light_snapshot

text \<open>\<open>if let Some(snap) = view(x) { tx.send(update(snap)) }\<close>, for every \<open>x\<close>.\<close>

definition send_views :: "('v \<Rightarrow> entity_update) \<Rightarrow> ('x \<Rightarrow> 'v option option) \<Rightarrow> 'x list \<Rightarrow> entity_update list option" where
  "send_views update view xs = do { vs \<leftarrow> mapM view xs; Some (map update (List.map_filter id vs)) }"

definition zone_updates :: "(f64 \<Rightarrow> string) \<Rightarrow> processor \<Rightarrow> instant \<Rightarrow> entity_update list option" where
  "zone_updates show_f64 p now =
     send_views UpdateHeatingZone (\<lambda>z. build_heating_zone_snapshot show_f64 p (zone_name z) now)
       (case heating_config_of (p_topology p) of None \<Rightarrow> [] | Some hc \<Rightarrow> hc_zones hc)"

definition broadcast_state_updates :: "(f64 \<Rightarrow> string) \<Rightarrow> processor \<Rightarrow> instant \<Rightarrow> entity_update list option" where
  "broadcast_state_updates show_f64 p now =
     do { room_updates \<leftarrow> send_views UpdateRoom (\<lambda>r. build_room_snapshot show_f64 p (room_name r) now) (t_rooms (p_topology p));
          names \<leftarrow> all_plug_names (p_topology p);
          plug_updates \<leftarrow> send_views UpdatePlug (\<lambda>n. build_plug_snapshot show_f64 p n now) names;
          zones \<leftarrow> zone_updates show_f64 p now;
          Some (room_updates @ plug_updates @ zones) }"

definition broadcast_touched :: "(f64 \<Rightarrow> string) \<Rightarrow> processor \<Rightarrow> touched_entities \<Rightarrow> instant \<Rightarrow> entity_update list option" where
  "broadcast_touched show_f64 p touched now =
     (let t = p_topology p in
      do { room_updates \<leftarrow> send_views UpdateRoom (\<lambda>i. do { r \<leftarrow> room t i; build_room_snapshot show_f64 p (room_name r) now }) (tc_rooms touched);
           plug_updates \<leftarrow> send_views UpdatePlug (\<lambda>i. do { n \<leftarrow> device_name t i; build_plug_snapshot show_f64 p n now }) (tc_plugs touched);
           light_updates \<leftarrow> send_views UpdateLight (\<lambda>i. do { n \<leftarrow> device_name t i; build_light_snapshot p n now }) (tc_lights touched);
           zones \<leftarrow> (if tc_heating_zones touched = [] then Some [] else zone_updates show_f64 p now);
           Some (room_updates @ plug_updates @ light_updates @ zones) })"

text \<open>What the dashboards are sent after an event, and after a command that is not a setting.\<close>

definition broadcast_after_event :: "(f64 \<Rightarrow> string) \<Rightarrow> event \<Rightarrow> touched_entities \<Rightarrow> instant \<Rightarrow> processor \<Rightarrow> entity_update list option" where
  "broadcast_after_event show_f64 ev touched now p =
     (case ev of Tick _ \<Rightarrow> broadcast_state_updates show_f64 p now | _ \<Rightarrow> broadcast_touched show_f64 p touched now)"

end
