(* ===== verification/Dashboard.thy ===== *)
theory Dashboard
  imports Snapshot
begin

text \<open>
  What the dashboard is sent exists and is complete: no view of a state the daemon can be in panics,
  and the full snapshot shows every light of a room once.
\<close>

section \<open>Lookups\<close>

lemma mapM_total: "(\<And>x. x \<in> set xs \<Longrightarrow> \<exists>y. f x = Some y) \<Longrightarrow> \<exists>ys. mapM f xs = Some ys"
  using mapM_Some_map [of xs f "\<lambda>x. the (f x)"] by force

lemma bind_total: "\<exists>x. m = Some x \<Longrightarrow> (\<And>x. \<exists>y. f x = Some y) \<Longrightarrow> \<exists>y. Option.bind m f = Some y"
  by auto

lemma is_light_total: "topology_ok t \<Longrightarrow> \<exists>b. is_kind t k n = Some b"
  using is_kind_total by (auto simp: wp_iff)

lemma room_by_name_total: "topology_ok t \<Longrightarrow> \<exists>r. room_by_name t n = Some r"
  using room_idx_of_bound [of t n] by (auto simp: room_by_name_def room_def index_def split: option.split)

lemma member_key_total: "endpoint_ok t l \<Longrightarrow> \<exists>k. member_key t l = Some k"
  by (simp add: member_key_def endpoint_ok_def device_name_def index_def)

lemma describe_effect_total: "binding_ok t b \<Longrightarrow> \<exists>s. describe_effect sh t (rb_effect b) = Some s"
proof (cases "rb_effect b")
  case (Toggle d c)
  then show "binding_ok t b \<Longrightarrow> ?thesis" by (cases c) (auto simp: binding_ok_def of_plug_def device_name_def index_def)
qed (auto simp: binding_ok_def of_room_def of_plug_def room_def device_name_def index_def)

lemma collect_switches_total:
  assumes "topology_ok t"
  shows "\<exists>l. collect_switches sh t pred = Some l"
proof -
  have "\<exists>g'. collect_switch sh t pred b g = Some g'" if "b \<in> set (t_bindings t)" for b g
  proof -
    have b: "binding_ok t b" using assms that by (auto simp: topology_ok_def list_all_iff)
    obtain s where "describe_effect sh t (rb_effect b) = Some s" using describe_effect_total [OF b] by blast
    with b show ?thesis
      by (cases "rb_trigger b") (auto simp: collect_switch_def binding_ok_def device_name_def index_def Let_def)
  qed
  from foldM_total [where f = "collect_switch sh t pred" and xs = "t_bindings t" and s = "[]", OF this] show ?thesis by (auto simp: collect_switches_def)
qed

lemma build_room_lights_total:
  assumes "topology_ok t"
  shows "\<exists>l. build_room_lights t r = Some l"
  unfolding build_room_lights_def
proof (rule bind_total, rule foldM_total)
  fix member seen
  obtain b where "is_kind t KLight (member_device member) = Some b" using is_light_total [OF assms] by blast
  then show "\<exists>s'. (let device = member_device member in
      if device \<in> set seen then Some seen
      else do { is_light \<leftarrow> is_kind t KLight device; Some (if is_light then seen @ [device] else seen) }) = Some s'"
    by (simp add: Let_def)
qed simp

lemma sun_of_snapshot:
  assumes "proc_ok p"
  obtains sun where "snapshot_sun_times p = Some sun" and "sun = None \<longleftrightarrow> p_location p = None"
proof (cases "p_location p")
  case (Some loc)
  have "sunrise_ok p" using assms by (simp add: proc_ok_def config_ok_def)
  then obtain times where "compute_sun_times (p_sunrise p) loc (ck_date (p_clock p)) (ck_utc_offset_hours (p_clock p)) = Some times"
    using Some unfolding sunrise_ok_def by blast
  with Some that [of "Some times"] show thesis by (simp add: snapshot_sun_times_def)
qed (use that [of None] in \<open>simp add: snapshot_sun_times_def\<close>)

section \<open>Rooms\<close>

lemma rule_acts_on_total:
  assumes "topology_ok t" and "rule \<in> set (t_motion_rules t)"
  shows "\<exists>b. rule_acts_on t n rule = Some b"
  unfolding rule_acts_on_def
proof (rule anyM_total')
  fix i assume "i \<in> set (mr_rooms rule)"
  then have "i < length (t_rooms t)" using assms by (auto simp: topology_ok_def motion_rule_ok_def list_all_iff)
  then show "\<exists>b. (do { r \<leftarrow> room t i; Some (room_name r = n) }) = Some b" by (simp add: room_def index_def)
qed

lemma motion_rule_info_total:
  assumes p: "proc_ok p" and rule: "rule \<in> set (t_motion_rules (p_topology p))" and sun: "sun = None \<longleftrightarrow> p_location p = None"
  shows "\<exists>i. motion_rule_info_of p h m sun now rule = Some i"
proof -
  let ?t = "p_topology p"
  have sl: "motion_schedule_ok p rule (motion_slots p rule)" and rok: "motion_rule_ok ?t rule"
    using p rule by (auto simp: proc_ok_def config_ok_def motion_slots_ok_def topology_ok_def list_all_iff)
  then have "slots_sun_ok p (motion_slots p rule)" by (simp add: motion_schedule_ok_def)
  then obtain found where f: "slot_for_time (motion_slots p rule) h m sun = Some found"
      and in_slots: "\<And>e. found = Some e \<Longrightarrow> e \<in> set (motion_slots p rule)"
    using wp_slot_for_time [where Q = "\<lambda>r. \<forall>e. r = Some e \<longrightarrow> e \<in> set (motion_slots p rule)", OF _ sun] unfolding wp_iff by blast
  have keys: "\<exists>ks. mapM (member_key ?t) ls = Some ks" if "list_all (endpoint_ok ?t) ls" for ls
    using that by (intro mapM_total member_key_total) (simp add: list_all_iff)
  obtain targets where targets: "(case found of None \<Rightarrow> Some []
      | Some (slot, _) \<Rightarrow> do { target \<leftarrow> bt_get (mr_targets_by_slot rule) slot; mapM (member_key ?t) (mt_lights target) }) = Some targets"
  proof (cases found)
    case (Some e)
    obtain slot s where e: "e = (slot, s)" by (cases e)
    then have "bt_contains_key (mr_targets_by_slot rule) slot"
      using in_slots [OF Some] sl by (auto simp: motion_schedule_ok_def bt_all_def list_all_iff)
    then obtain target where target: "bt_get (mr_targets_by_slot rule) slot = Some target" by (auto simp: bt_contains_key_def)
    then have "motion_target_ok ?t target" using rok unfolding motion_rule_ok_def by (blast dest: bt_all_get)
    then obtain ks where "mapM (member_key ?t) (mt_lights target) = Some ks" using keys by (auto simp: motion_target_ok_def)
    then show thesis using that target Some e by simp
  qed (use that in simp)
  obtain session where session: "(case Option.bind (bt_get (w_motion_rules (p_world p)) (mr_name rule)) mrs_session of
      None \<Rightarrow> Some []
    | Some session \<Rightarrow> do { kept \<leftarrow> filterM (session_holds p session) (mt_lights (mse_target session)); mapM (member_key ?t) kept }) = Some session"
  proof (cases "Option.bind (bt_get (w_motion_rules (p_world p)) (mr_name rule)) mrs_session")
    case (Some s)
    then obtain st where st: "bt_get (w_motion_rules (p_world p)) (mr_name rule) = Some st" "mrs_session st = Some s"
      by (auto simp: bind_eq_Some_conv)
    have "bt_all (\<lambda>_. session_ok ?t) (w_motion_rules (p_world p))" using p by (simp add: proc_ok_def state_ok_def)
    from bt_all_get [OF this st(1)] st(2) have s: "motion_target_ok ?t (mse_target s)" "\<And>d. d \<in> set (mse_claimed s) \<Longrightarrow> d < length (t_devices ?t)"
      by (auto simp: session_ok_def)
    have "\<exists>b. session_holds p s l = Some b" if "l \<in> set (mt_lights (mse_target s))" for l
      using that s(1) by (auto simp: session_holds_def motion_target_ok_def list_all_iff endpoint_ok_def light_at_def device_name_def index_def)
    from filterM_total [where f = "session_holds p s" and xs = "mt_lights (mse_target s)", OF this] obtain kept where kept: "filterM (session_holds p s) (mt_lights (mse_target s)) = Some kept"
        "set kept \<subseteq> set (mt_lights (mse_target s))" by blast
    then have "list_all (endpoint_ok ?t) kept" using s(1) by (auto simp: motion_target_ok_def list_all_iff)
    then obtain ks where "mapM (member_key ?t) kept = Some ks" using keys by blast
    then show thesis using that Some kept(1) by simp
  qed (use that in simp)
  show ?thesis unfolding motion_rule_info_of_def Let_def f targets session by (simp add: f targets session)
qed

lemma switch_step_plans_total:
  assumes "steps_ok t steps"
  shows "\<exists>l. switch_step_plans t steps = Some l"
  unfolding switch_step_plans_def
proof (rule mapM_total)
  fix e assume e: "e \<in> set steps"
  obtain slot l where sl: "e = (slot, l)" by (cases e)
  have "\<exists>ks. mapM (member_key t) (st_lights s) = Some ks" if "s \<in> set l" for s
    using that e sl assms by (intro mapM_total member_key_total) (auto simp: steps_ok_def bt_all_def list_all_iff)
  then have "\<exists>plans. mapM (\<lambda>st. do { lights \<leftarrow> mapM (member_key t) (st_lights st);
      Some \<lparr>stp_scene_id = scene_id (st_scene st), stp_lights = lights\<rparr> }) l = Some plans"
    by (intro mapM_total) fastforce
  then show "\<exists>y. (case e of (slot, l) \<Rightarrow> do { plans \<leftarrow> mapM (\<lambda>st. do { lights \<leftarrow> mapM (member_key t) (st_lights st);
      Some \<lparr>stp_scene_id = scene_id (st_scene st), stp_lights = lights\<rparr> }) l; Some (slot, plans) }) = Some y"
    using sl by auto
qed

lemma build_timed_actions_total:
  assumes "proc_ok p" and "\<And>b. binding_ok (p_topology p) b \<Longrightarrow> \<exists>x. applies (rb_effect b) = Some x"
  shows "\<exists>l. build_timed_actions sh p applies = Some l"
proof -
  obtain bs where bs: "effective_bindings p = Some bs" "list_all (binding_ok (p_topology p)) bs"
    using effective_bindings_safe [OF assms(1)] by (auto simp: wp_iff)
  have "\<exists>x. applies (rb_effect b) = Some x" if "b \<in> set bs" for b using assms(2) bs(2) that by (auto simp: list_all_iff)
  from filterM_total [where f = "\<lambda>b. applies (rb_effect b)" and xs = bs, OF this] obtain hits where hits: "filterM (\<lambda>b. applies (rb_effect b)) bs = Some hits" "set hits \<subseteq> set bs" by blast
  have "\<exists>i. timed_action_info_of sh p b = Some i" if "b \<in> set hits" for b
  proof -
    have "binding_ok (p_topology p) b" using that hits(2) bs(2) by (auto simp: list_all_iff)
    then show ?thesis using describe_effect_total [of "p_topology p" b sh] by (auto simp: timed_action_info_of_def split: option.split)
  qed
  then obtain infos where "mapM (timed_action_info_of sh p) hits = Some infos" using mapM_total by blast
  with bs(1) hits(1) show ?thesis by (simp add: build_timed_actions_def)
qed

lemma room_snapshot_total:
  assumes p: "proc_ok p" and r: "r \<in> set (t_rooms (p_topology p))" and sun: "sun = None \<longleftrightarrow> p_location p = None"
  shows "\<exists>s. room_snapshot_from sh r zone sensors h m sun now p = Some s"
proof -
  let ?t = "p_topology p"
  have t: "topology_ok ?t" using p by (rule proc_ok_topology)
  have "slots_sun_ok p (room_slots p r)" using p r by (auto simp: proc_ok_def config_ok_def room_slots_ok_def room_schedule_ok_def)
  then obtain found where f: "slot_for_time (room_slots p r) h m sun = Some found"
    using wp_slot_for_time [where Q = "\<lambda>_. True", OF _ sun] unfolding wp_iff by blast
  obtain switches where s: "build_room_switches sh ?t (room_name r) = Some switches"
    using collect_switches_total [OF t] by (auto simp: build_room_switches_def)
  obtain rules where rules: "filterM (rule_acts_on ?t (room_name r)) (t_motion_rules ?t) = Some rules" "set rules \<subseteq> set (t_motion_rules ?t)"
    using filterM_total [where f = "rule_acts_on ?t (room_name r)" and xs = "t_motion_rules ?t"] rule_acts_on_total [OF t] by blast
  obtain infos where infos: "mapM (motion_rule_info_of p h m sun now) rules = Some infos"
    using mapM_total [where f = "motion_rule_info_of p h m sun now" and xs = rules] motion_rule_info_total [OF p _ sun] rules(2) by blast
  obtain lights where lights: "build_room_lights ?t r = Some lights" using build_room_lights_total [OF t] by blast
  have "steps_ok ?t (room_switch_steps_of p r)"
  proof (cases "bt_get (p_resolved_switch_steps p) (room_name r)")
    case None
    have "room_ok ?t r" using t r by (auto simp: topology_ok_def list_all_iff)
    with None show ?thesis by (simp add: room_switch_steps_of_def room_ok_def steps_ok_def)
  next
    case (Some st)
    have "bt_all (\<lambda>_. steps_ok ?t) (p_resolved_switch_steps p)" using p by (simp add: proc_ok_def config_ok_def)
    from bt_all_get [OF this Some] Some show ?thesis by (simp add: room_switch_steps_of_def)
  qed
  then obtain steps where steps: "switch_step_plans ?t (room_switch_steps_of p r) = Some steps" using switch_step_plans_total by blast
  have "\<exists>x. acts_on_room ?t n (rb_effect b) = Some x" if "binding_ok ?t b" for n b
    using that by (cases "rb_effect b") (auto simp: acts_on_room_def binding_ok_def room_def index_def)
  then obtain timed where timed: "build_timed_actions sh p (acts_on_room ?t (room_name r)) = Some timed"
    using build_timed_actions_total [OF p] by blast
  show ?thesis by (simp add: room_snapshot_from_def Let_def f s rules(1) infos lights steps timed)
qed

section \<open>Plugs\<close>

lemma idle_rules_total:
  assumes "proc_ok p"
  shows "\<exists>l. idle_rules p device = Some l"
proof -
  have "\<exists>bs. power_below_bindings p d = Some bs" if "device_idx_of (p_topology p) device = Some d" for d
    using power_below_bindings_safe [OF assms device_idx_of_bound [OF proc_ok_topology [OF assms] that]] by (auto simp: wp_iff)
  then show ?thesis by (auto simp: idle_rules_def split: option.split)
qed

lemma kill_switch_rules_total:
  assumes "proc_ok p"
  shows "\<exists>l. build_kill_switch_rules plug_o device p now = Some l"
proof (cases "device_idx_of (p_topology p) device")
  case (Some d)
  obtain bs where bs: "power_below_bindings p d = Some bs" "list_all is_power_below bs"
    using power_below_bindings_safe [OF assms device_idx_of_bound [OF proc_ok_topology [OF assms] Some]] by (auto simp: wp_iff list_all_iff)
  have "\<exists>i. kill_switch_rule_info_of e device p now b = Some i" if "b \<in> set bs" for e b
    using bs(2) that by (auto simp: kill_switch_rule_info_of_def kill_switch_params_def is_power_below_def list_all_iff Let_def
        split: resolved_trigger.splits)
  then have "\<exists>l. mapM (kill_switch_rule_info_of e device p now) bs = Some l" for e by (intro mapM_total)
  with Some bs(1) show ?thesis by (auto simp: build_kill_switch_rules_def split: option.split)
qed (auto simp: build_kill_switch_rules_def split: option.split)

lemma plug_schedule_total:
  assumes p: "proc_ok p" and d: "d < length (t_devices (p_topology p))"
  shows "\<exists>s. build_plug_schedule p d = Some s"
proof -
  obtain bs where "effective_bindings p = Some bs" using effective_bindings_safe [OF p] by (auto simp: wp_iff)
  moreover obtain ks where "power_below_bindings p d = Some ks" using power_below_bindings_safe [OF p d] by (auto simp: wp_iff)
  ultimately show ?thesis using d by (simp add: build_plug_schedule_def power_metered_def device_name_def index_def)
qed

lemma plug_snapshot_total:
  assumes p: "proc_ok p" and "device_idx_of (p_topology p) device \<noteq> None"
  shows "\<exists>s. plug_snapshot_from sh plug_o device p now = Some s"
proof -
  let ?t = "p_topology p"
  have t: "topology_ok ?t" using p by (rule proc_ok_topology)
  obtain d where d: "device_idx_of ?t device = Some d" using assms(2) by blast
  have b: "d < length (t_devices ?t)" using device_idx_of_bound [OF t d] .
  obtain idle where "idle_rules p device = Some idle" using idle_rules_total [OF p] by blast
  moreover obtain rules where "build_kill_switch_rules plug_o device p now = Some rules" using kill_switch_rules_total [OF p] by blast
  moreover obtain x where x: "plug_idx_by_name ?t device = Some x" using plug_idx_of_total [OF b] d by (auto simp: plug_idx_by_name_def)
  moreover obtain linked where "collect_switches sh ?t (\<lambda>b. effect_target_plug (rb_effect b) = x) = Some linked"
    using collect_switches_total [OF t] by blast
  moreover obtain schedule where "build_plug_schedule p d = Some schedule" using plug_schedule_total [OF p b] by blast
  ultimately show ?thesis using d b
    by (simp add: plug_snapshot_from_def earliest_kill_switch_idle_def kill_switch_holdoff_secs_def build_linked_switches_def index_def)
qed

lemma plug_names_total:
  assumes "inventory_ok t"
  shows "\<exists>names. all_plug_names t = Some names \<and> (\<forall>n \<in> set names. device_idx_of t n \<noteq> None)"
proof -
  have "all_plug_names t = Some (map (\<lambda>i. di_name (t_devices t ! i)) (t_plug_devices t))"
    unfolding all_plug_names_def using assms
    by (intro mapM_Some_map) (simp add: inventory_ok_def device_name_def index_def)
  then show ?thesis using assms by (auto simp: inventory_ok_def)
qed

section \<open>Heating zones\<close>

lemma trv_snapshot_total:
  assumes "proc_ok p"
  shows "\<exists>s. trv_snapshot_from sh hc p now zt = Some s"
proof -
  have b: "boosts_ok p" using assms by (rule proc_ok_boosts)
  obtain boost where boost: "active_boost p (zt_device zt) = Some boost" using active_boost_total [OF b] by blast
  have "\<exists>ms. boost_remaining_ms p (zt_device zt) = Some ms"
    using boost by (auto simp: boost_remaining_ms_def active_boost_def split: option.splits Option.bind_splits)
  with boost show ?thesis by (auto simp: trv_snapshot_from_def Let_def)
qed

lemma heating_zone_total:
  assumes "proc_ok p"
  shows "\<exists>s. build_one_heating_zone sh hc p now zone = Some s"
proof -
  obtain trvs where "mapM (trv_snapshot_from sh hc p now) (zone_trvs zone) = Some trvs"
    using mapM_total [where f = "trv_snapshot_from sh hc p now" and xs = "zone_trvs zone"] trv_snapshot_total [OF assms] by blast
  then show ?thesis by (simp add: build_one_heating_zone_def Let_def)
qed

lemma heating_zones_total:
  assumes "proc_ok p"
  shows "\<exists>l. build_heating_zone_snapshots sh p now = Some l"
proof (cases "heating_config_of (p_topology p)")
  case (Some hc)
  have "\<exists>l. mapM (build_one_heating_zone sh hc p now) (hc_zones hc) = Some l" by (rule mapM_total) (rule heating_zone_total [OF assms])
  with Some show ?thesis by (simp add: build_heating_zone_snapshots_def)
qed (simp add: build_heating_zone_snapshots_def)

section \<open>Lights\<close>

text \<open>The lights of some members, as the loop has collected them.\<close>

definition shown :: "topology \<Rightarrow> string set \<Rightarrow> light_snapshot list \<Rightarrow> bool" where
  "shown t members out \<longleftrightarrow> distinct (map ls_device out) \<and>
     ls_device ` set out = {member_device m |m. m \<in> members \<and> is_kind t KLight (member_device m) = Some True}"

lemma add_member_light_shown:
  assumes "topology_ok (p_topology p)" and "shown (p_topology p) M out"
  shows "wp (add_member_light p now r member out) (shown (p_topology p) (insert member M))"
proof -
  obtain b where b: "is_kind (p_topology p) KLight (member_device member) = Some b" using is_light_total [OF assms(1)] by blast
  have split: "{member_device m |m. m \<in> insert member M \<and> is_kind (p_topology p) KLight (member_device m) = Some True} =
      ls_device ` set out \<union> (if b then {member_device member} else {})"
    using assms(2) b by (auto simp: shown_def)
  have "distinct (map ls_device out)" using assms(2) by (simp add: shown_def)
  moreover have "list_ex (\<lambda>l. ls_device l = member_device member) out \<longleftrightarrow> member_device member \<in> ls_device ` set out"
    by (induction out) auto
  ultimately show ?thesis using b unfolding add_member_light_def shown_def split
    by (auto simp: Let_def light_snapshot_from_def)
qed

lemma add_members_shown:
  assumes "topology_ok (p_topology p)" and "shown (p_topology p) M out"
  shows "wp (foldM (add_member_light p now r) ms out) (shown (p_topology p) (M \<union> set ms))"
  using assms(2)
proof (induction ms arbitrary: M out)
  case (Cons m ms)
  obtain out' where "add_member_light p now r m out = Some out'" "shown (p_topology p) (insert m M) out'"
    using add_member_light_shown [OF assms(1) Cons.prems] unfolding wp_iff by blast
  with Cons.IH [of "insert m M" out'] show ?case by simp
qed simp

lemma all_lights_shown:
  assumes "topology_ok (p_topology p)" and "shown (p_topology p) M out"
  shows "wp (foldM (\<lambda>r. foldM (add_member_light p now r) (room_members r)) rs out)
    (shown (p_topology p) (M \<union> (\<Union>r \<in> set rs. set (room_members r))))"
  using assms(2)
proof (induction rs arbitrary: M out)
  case (Cons r rs)
  obtain out' where "foldM (add_member_light p now r) (room_members r) out = Some out'" "shown (p_topology p) (M \<union> set (room_members r)) out'"
    using add_members_shown [OF assms(1) Cons.prems] unfolding wp_iff by blast
  with Cons.IH [of "M \<union> set (room_members r)" out'] show ?case by (simp add: Un_assoc)
qed simp

lemma light_snapshots:
  assumes "topology_ok (p_topology p)"
  shows "wp (build_all_light_snapshots p now) (shown (p_topology p) (\<Union>r \<in> set (t_rooms (p_topology p)). set (room_members r)))"
  using all_lights_shown [OF assms, of "{}" "[]"] by (simp add: build_all_light_snapshots_def shown_def)

section \<open>Everything\<close>

lemma active_sensors_total: "topology_ok (p_topology p) \<Longrightarrow> \<exists>l. active_motion_sensors_for_room p n = Some l"
  using room_by_name_total [of "p_topology p" n] by (auto simp: active_motion_sensors_for_room_def)

lemma full_snapshot_total:
  assumes p: "proc_ok p" and inv: "inventory_ok (p_topology p)"
  shows "\<exists>s. build_full_snapshot sh p now = Some s"
proof -
  let ?t = "p_topology p"
  have t: "topology_ok ?t" using p by (rule proc_ok_topology)
  obtain sun where sun: "snapshot_sun_times p = Some sun" "sun = None \<longleftrightarrow> p_location p = None" by (rule sun_of_snapshot [OF p])
  let ?view = "\<lambda>r. do { active_sensors \<leftarrow> active_motion_sensors_for_room p (room_name r);
      room_snapshot_from sh r (bt_get (w_light_zones (p_world p)) (room_name r)) active_sensors
        (ck_local_hour (p_clock p)) (ck_local_minute (p_clock p)) sun now p }"
  have views: "\<exists>v. ?view r = Some v" if "r \<in> set (t_rooms ?t)" for r
    by (rule bind_total [OF active_sensors_total [OF t] room_snapshot_total [OF p that sun(2)]])
  then obtain room_views where rooms: "mapM ?view (t_rooms ?t) = Some room_views"
    using mapM_total [where f = ?view and xs = "t_rooms ?t"] views by blast
  obtain names where names: "all_plug_names ?t = Some names" "\<And>n. n \<in> set names \<Longrightarrow> device_idx_of ?t n \<noteq> None"
    using plug_names_total [OF inv] by blast
  obtain plugs where plugs: "mapM (\<lambda>n. plug_snapshot_from sh (bt_get (w_plugs (p_world p)) n) n p now) names = Some plugs"
    using mapM_total [where f = "\<lambda>n. plug_snapshot_from sh (bt_get (w_plugs (p_world p)) n) n p now" and xs = names]
      plug_snapshot_total [OF p names(2)] by blast
  obtain zones where zones: "build_heating_zone_snapshots sh p now = Some zones" using heating_zones_total [OF p] by blast
  obtain lights where lights: "build_all_light_snapshots p now = Some lights" using light_snapshots [OF t] by (auto simp: wp_iff)
  show ?thesis by (simp add: build_full_snapshot_def Let_def sun(1) rooms names(1) plugs zones lights)
qed

section \<open>Broadcasts\<close>

lemma send_views_total: "(\<And>x. x \<in> set xs \<Longrightarrow> \<exists>v. view x = Some v) \<Longrightarrow> \<exists>us. send_views update view xs = Some us"
  unfolding send_views_def by (rule bind_total [OF mapM_total]) auto

lemma zone_view_total: "proc_ok p \<Longrightarrow> \<exists>v. build_heating_zone_snapshot sh p n now = Some v"
  using heating_zone_total by (fastforce simp: build_heating_zone_snapshot_def split: option.split)

lemma zone_updates_total: "proc_ok p \<Longrightarrow> \<exists>us. zone_updates sh p now = Some us"
  unfolding zone_updates_def by (rule send_views_total) (rule zone_view_total)

lemma room_view_total:
  assumes p: "proc_ok p"
  shows "\<exists>v. build_room_snapshot sh p n now = Some v"
proof (cases "room_idx_of (p_topology p) n")
  case (Some i)
  have t: "topology_ok (p_topology p)" using p by (rule proc_ok_topology)
  have i: "i < length (t_rooms (p_topology p))" using room_idx_of_bound [OF t Some] .
  obtain sun where sun: "snapshot_sun_times p = Some sun" "sun = None \<longleftrightarrow> p_location p = None" by (rule sun_of_snapshot [OF p])
  obtain sensors where "active_motion_sensors_for_room p n = Some sensors" using active_sensors_total [OF t] by blast
  moreover obtain v where "room_snapshot_from sh (t_rooms (p_topology p) ! i) (bt_get (w_light_zones (p_world p)) n) sensors
      (ck_local_hour (p_clock p)) (ck_local_minute (p_clock p)) sun now p = Some v"
    using room_snapshot_total [OF p nth_mem [OF i] sun(2)] by blast
  ultimately show ?thesis using Some i sun(1) by (simp add: build_room_snapshot_def room_by_name_def room_def index_def)
qed (simp add: build_room_snapshot_def room_by_name_def)

lemma plug_view_total: "proc_ok p \<Longrightarrow> device_idx_of (p_topology p) n \<noteq> None \<Longrightarrow> \<exists>v. build_plug_snapshot sh p n now = Some v"
  using plug_snapshot_total by (fastforce simp: build_plug_snapshot_def split: option.split)

lemma light_view_total: "proc_ok p \<Longrightarrow> \<exists>v. build_light_snapshot p n now = Some v"
  using device_idx_of_bound [OF proc_ok_topology] by (fastforce simp: build_light_snapshot_def device_kind_of_def index_def split: option.split)

lemma state_updates_total:
  assumes "proc_ok p" and "inventory_ok (p_topology p)"
  shows "\<exists>us. broadcast_state_updates sh p now = Some us"
proof -
  obtain rs where "send_views UpdateRoom (\<lambda>r. build_room_snapshot sh p (room_name r) now) (t_rooms (p_topology p)) = Some rs"
    using send_views_total room_view_total [OF assms(1)] by metis
  moreover obtain names where names: "all_plug_names (p_topology p) = Some names" "\<forall>n \<in> set names. device_idx_of (p_topology p) n \<noteq> None"
    using plug_names_total [OF assms(2)] by blast
  moreover have "\<exists>ps. send_views UpdatePlug (\<lambda>n. build_plug_snapshot sh p n now) names = Some ps"
    using names(2) by (intro send_views_total plug_view_total [OF assms(1)]) simp
  moreover obtain zs where "zone_updates sh p now = Some zs" using zone_updates_total [OF assms(1)] by blast
  ultimately show ?thesis by (auto simp: broadcast_state_updates_def)
qed

text \<open>The touched entities exist.\<close>

definition touched_ok :: "topology \<Rightarrow> touched_entities \<Rightarrow> bool" where
  "touched_ok t tc \<longleftrightarrow> (\<forall>i \<in> set (tc_rooms tc). i < length (t_rooms t)) \<and>
     (\<forall>i \<in> set (tc_plugs tc) \<union> set (tc_lights tc). i < length (t_devices t))"

lemma touched_updates_total:
  assumes p: "proc_ok p" and inv: "inventory_ok (p_topology p)" and tc: "touched_ok (p_topology p) tc"
  shows "\<exists>us. broadcast_touched sh p tc now = Some us"
proof -
  let ?t = "p_topology p"
  have named: "\<exists>n. device_name ?t i = Some n \<and> device_idx_of ?t n \<noteq> None" if "i < length (t_devices ?t)" for i
    using inv that by (auto simp: inventory_ok_def device_name_def index_def)
  have bounds: "\<And>i. i \<in> set (tc_rooms tc) \<Longrightarrow> i < length (t_rooms ?t)" "\<And>i. i \<in> set (tc_plugs tc) \<Longrightarrow> i < length (t_devices ?t)"
      "\<And>i. i \<in> set (tc_lights tc) \<Longrightarrow> i < length (t_devices ?t)"
    using tc by (auto simp: touched_ok_def)
  have "\<exists>v. (do { r \<leftarrow> room ?t i; build_room_snapshot sh p (room_name r) now }) = Some v" if "i \<in> set (tc_rooms tc)" for i
    using bounds(1) [OF that] room_view_total [OF p] by (simp add: room_def index_def)
  then obtain rs where rs: "send_views UpdateRoom (\<lambda>i. do { r \<leftarrow> room ?t i; build_room_snapshot sh p (room_name r) now }) (tc_rooms tc) = Some rs"
    using send_views_total [where view = "\<lambda>i. do { r \<leftarrow> room ?t i; build_room_snapshot sh p (room_name r) now }" and xs = "tc_rooms tc"] by blast
  have "\<exists>v. (do { n \<leftarrow> device_name ?t i; build_plug_snapshot sh p n now }) = Some v" if "i \<in> set (tc_plugs tc)" for i
    using named [OF bounds(2) [OF that]] plug_view_total [OF p] by auto
  then obtain ps where ps: "send_views UpdatePlug (\<lambda>i. do { n \<leftarrow> device_name ?t i; build_plug_snapshot sh p n now }) (tc_plugs tc) = Some ps"
    using send_views_total [where view = "\<lambda>i. do { n \<leftarrow> device_name ?t i; build_plug_snapshot sh p n now }" and xs = "tc_plugs tc"] by blast
  have "\<exists>v. (do { n \<leftarrow> device_name ?t i; build_light_snapshot p n now }) = Some v" if "i \<in> set (tc_lights tc)" for i
    using named [OF bounds(3) [OF that]] light_view_total [OF p] by auto
  then obtain ls where ls: "send_views UpdateLight (\<lambda>i. do { n \<leftarrow> device_name ?t i; build_light_snapshot p n now }) (tc_lights tc) = Some ls"
    using send_views_total [where view = "\<lambda>i. do { n \<leftarrow> device_name ?t i; build_light_snapshot p n now }" and xs = "tc_lights tc"] by blast
  obtain zs where "(if tc_heating_zones tc = [] then Some [] else zone_updates sh p now) = Some zs"
    using zone_updates_total [OF p] by fastforce
  with rs ps ls show ?thesis by (simp add: broadcast_touched_def Let_def)
qed

lemma touched_ok_simps [simp]:
  "touched_ok t touched_none" "touched_ok t (touch_zone z tc) = touched_ok t tc"
  "touched_ok t (touch_room r tc) \<longleftrightarrow> r < length (t_rooms t) \<and> touched_ok t tc"
  "touched_ok t (touch_plug d tc) \<longleftrightarrow> d < length (t_devices t) \<and> touched_ok t tc"
  "touched_ok t (touch_light d tc) \<longleftrightarrow> d < length (t_devices t) \<and> touched_ok t tc"
  "touched_ok t (touched_extend tc u) \<longleftrightarrow> touched_ok t tc \<and> touched_ok t u"
  by (auto simp: touched_ok_def touched_none_def touch_zone_def touch_room_def touch_plug_def touch_light_def touched_extend_def set_fold_bs_insert)

lemma touched_ok_fold: "(\<And>x tc. x \<in> set xs \<Longrightarrow> touched_ok t tc \<Longrightarrow> touched_ok t (f x tc)) \<Longrightarrow> touched_ok t tc \<Longrightarrow> touched_ok t (fold f xs tc)"
  by (induction xs arbitrary: tc) auto

lemma touched_ok_zones [simp]: "touched_ok t tc \<Longrightarrow> touched_ok t (touch_zones_where t pred tc)"
  by (auto simp: touch_zones_where_def split: option.split intro!: touched_ok_fold)

lemma touched_ok_light: "d < length (t_devices t) \<Longrightarrow> touched_ok t tc \<Longrightarrow> touched_ok t (touch_light_and_rooms t d tc)"
  unfolding touch_light_and_rooms_def
  by (rule touched_ok_fold) (auto simp: light_rooms_def rooms_with_idx_def in_set_enumerate_eq)

lemma touched_ok_group:
  assumes "topology_ok t" and "touch_group t r tc = Some tc'" and "touched_ok t tc"
  shows "touched_ok t tc'"
proof -
  have r: "r < length (t_rooms t)" using assms(2) by (auto simp: touch_group_def room_def index_def split: if_splits)
  then have tc': "tc' = fold touch_room (descendants_of t r)
      (fold (\<lambda>l. touch_light_and_rooms t (le_device l)) (room_light_members (t_rooms t ! r)) (touch_room r tc))"
    using assms(2) by (simp add: touch_group_def room_def index_def)
  have "room_ok t (t_rooms t ! r)" using topology_ok_room [OF assms(1) r] .
  then have lights: "touched_ok t (fold (\<lambda>l. touch_light_and_rooms t (le_device l)) (room_light_members (t_rooms t ! r)) (touch_room r tc))"
    using r assms(3) by (intro touched_ok_fold touched_ok_light) (auto simp: room_ok_def endpoint_ok_def list_all_iff)
  show ?thesis unfolding tc'
    by (rule touched_ok_fold [OF _ lights]) (use descendants_bound [OF assms(1)] in simp)
qed

lemma touched_ok_device:
  "touch_device_as_plug t d tc = Some tc' \<Longrightarrow> touched_ok t tc \<Longrightarrow> touched_ok t tc'"
  "touch_zone_for_trv t d tc = Some tc' \<Longrightarrow> touched_ok t tc \<Longrightarrow> touched_ok t tc'"
  "touch_zone_for_relay t d tc = Some tc' \<Longrightarrow> touched_ok t tc \<Longrightarrow> touched_ok t tc'"
  by (auto simp: touch_device_as_plug_def touch_zone_for_trv_def touch_zone_for_relay_def plug_idx_of_def is_plug_idx_def
      device_kind_of_def device_name_def index_def split: Option.bind_splits option.splits if_splits)

lemma touched_ok_dispatch_one:
  fixes send :: "'c sender"
  assumes "topology_ok t" and "dispatch_one tj send t e (tc, c) = Some (r, tc', c')" and "touched_ok t tc"
  shows "touched_ok t tc'"
proof (cases e)
  case (PublishLightSet l p)
  then have "le_device l < length (t_devices t)" "tc' = touch_light_and_rooms t (le_device l) tc"
    using assms(2) by (auto simp: device_name_def index_def split: Option.bind_splits prod.splits if_splits)
  then show ?thesis using touched_ok_light assms(3) by simp
next
  case (PublishGroupSet i p)
  then have "touch_group t i tc = Some tc'" using assms(2) by (auto split: Option.bind_splits prod.splits)
  then show ?thesis using touched_ok_group [OF assms(1) _ assms(3)] by blast
next
  case (PublishDeviceSet d p)
  then obtain tc1 tc2 where "touch_device_as_plug t d tc = Some tc1" "touch_zone_for_trv t d tc1 = Some tc2" "touch_zone_for_relay t d tc2 = Some tc'"
    using assms(2) by (auto split: Option.bind_splits prod.splits)
  then show ?thesis using touched_ok_device assms(3) by blast
next
  case (PublishHaStateTrv d st)
  then have "touch_zone_for_trv t d tc = Some tc'" using assms(2) by (auto split: Option.bind_splits prod.splits)
  then show ?thesis using touched_ok_device(2) assms(3) by blast
qed (use assms(2,3) in \<open>auto split: Option.bind_splits prod.splits\<close>)

lemma touched_ok_dispatch:
  fixes send :: "'c sender"
  assumes "topology_ok t" and "dispatch tj send t effs c = Some (tc, c')"
  shows "touched_ok t tc"
proof -
  have "case (tc, c') of (tc, _) \<Rightarrow> touched_ok t tc"
    using assms(2) unfolding dispatch_def
  proof (rule foldM_invariant)
    fix e and s s' :: "touched_entities \<times> 'c"
    assume "case s of (tc, _) \<Rightarrow> touched_ok t tc" "map_option snd (dispatch_one tj send t e s) = Some s'"
    then show "case s' of (tc, _) \<Rightarrow> touched_ok t tc" using touched_ok_dispatch_one [OF assms(1)] by (cases s) auto
  qed simp
  then show ?thesis by simp
qed

lemma touched_ok_rule_lights:
  assumes "topology_ok t" and "r \<in> set (t_motion_rules t)" and "touched_ok t tc"
  shows "touched_ok t (fold (\<lambda>l. touch_light (le_device l)) (mr_lights r) tc)"
  using assms(1,2) by (intro touched_ok_fold assms(3)) (auto simp: topology_ok_def motion_rule_ok_def endpoint_ok_def list_all_iff)

lemma touched_ok_event:
  assumes t: "topology_ok t" and "touched_from_event ev t = Some tc"
  shows "touched_ok t tc"
proof (cases ev)
  case (Occupancy sensor on lux epoch ts)
  obtain tc0 where tc0: "foldM (\<lambda>i tc. do { r \<leftarrow> motion_rule t i; Some (fold (\<lambda>l. touch_light (le_device l)) (mr_lights r) tc) })
      (motion_rules_for_sensor t sensor) touched_none = Some tc0" "tc = fold touch_room (rooms_for_motion t sensor) tc0"
    using assms(2) Occupancy by (auto split: Option.bind_splits)
  have "touched_ok t tc0"
    using tc0(1)
  proof (rule foldM_invariant)
    fix i and q q' :: touched_entities
    assume q: "touched_ok t q" and "do { r \<leftarrow> motion_rule t i; Some (fold (\<lambda>l. touch_light (le_device l)) (mr_lights r) q) } = Some q'"
    then obtain r where "motion_rule t i = Some r" "q' = fold (\<lambda>l. touch_light (le_device l)) (mr_lights r) q" by (auto split: Option.bind_splits)
    then show "touched_ok t q'" using touched_ok_rule_lights [OF t _ q] by (auto simp: motion_rule_def index_def split: if_splits)
  qed simp
  moreover have "i < length (t_rooms t)" if "i \<in> set (rooms_for_motion t sensor)" for i
    using that t by (auto simp: rooms_for_motion_def rooms_for_motion_idx_def topology_ok_def list_all_iff dest!: bt_all_get split: option.splits)
  ultimately show ?thesis unfolding tc0(2) by (intro touched_ok_fold) auto
next
  case (GroupState g on ts)
  then show ?thesis using assms(2) touched_ok_group [OF t] by (auto split: option.splits)
next
  case (LightState d on b ct xy ts)
  then show ?thesis using assms(2) touched_ok_light device_idx_of_bound [OF t] by (auto split: option.splits)
qed (use assms(2) touched_ok_device device_idx_of_bound [OF t] in \<open>auto simp: plug_idx_by_name_def plug_idx_of_def is_plug_idx_def device_kind_of_def
    index_def split: option.splits Option.bind_splits if_splits\<close>)

section \<open>The dashboard is always answered\<close>

lemma process_event_touched:
  fixes send :: "'c sender"
  assumes "topology_ok (p_topology p)" and "process_event tj send ev (p, c) = Some (tc, q, c')"
  shows "touched_ok (p_topology p) tc"
proof -
  obtain a b where "touched_from_event ev (p_topology p) = Some a" "\<exists>effs. dispatch tj send (p_topology p) effs c = Some (b, c')" "tc = touched_extend a b"
    using assms(2) by (auto simp: process_event_def Let_def simp del: handle_event.simps split: Option.bind_splits prod.splits)
  then show ?thesis using touched_ok_event [OF assms(1)] touched_ok_dispatch [OF assms(1)] by auto
qed

lemma broadcast_total:
  assumes "proc_ok p" and "inventory_ok (p_topology p)" and "touched_ok (p_topology p) tc"
  shows "\<exists>us. broadcast_after_event sh ev tc now p = Some us"
  using state_updates_total [OF assms(1,2)] touched_updates_total [OF assms] by (simp add: broadcast_after_event_def split: event.split)

text \<open>C18: The full snapshot shows every light that is a member of a room exactly once. A light of the catalog in no
  room is left out.\<close>

theorem snapshot_shows_each_light_once:
  assumes "topology_ok (p_topology p)" and "build_full_snapshot sh p now = Some s"
  shows "distinct (map ls_device (fss_lights s)) \<and>
    ls_device ` set (fss_lights s) = {d. is_kind (p_topology p) KLight d = Some True \<and>
      (\<exists>r \<in> set (t_rooms (p_topology p)). d \<in> member_device ` set (room_members r))}"
proof -
  have "build_all_light_snapshots p now = Some (fss_lights s)"
    using assms(2) by (auto simp: build_full_snapshot_def Let_def split: Option.bind_splits)
  with light_snapshots [OF assms(1), of now]
  have "shown (p_topology p) (\<Union>r \<in> set (t_rooms (p_topology p)). set (room_members r)) (fss_lights s)" by simp
  then show ?thesis unfolding shown_def by auto
qed

lemma house_inventory: "inventory_ok house"
  by (simp add: inventory_ok_def house_def house_device_def device_idx_of_def bt_get_def bt_all_def)

lemma home_topology: "p_topology home = house"
  by (simp add: home_def processor_new_def)

theorem snapshot_shows_each_light_once_witness:
  "\<exists>s. build_full_snapshot (\<lambda>_. []) home 5 = Some s \<and> distinct (map ls_device (fss_lights s)) \<and>
    ls_device ` set (fss_lights s) = {d. is_kind (p_topology home) KLight d = Some True \<and>
      (\<exists>r \<in> set (t_rooms (p_topology home)). d \<in> member_device ` set (room_members r))}"
proof -
  obtain s where s: "build_full_snapshot (\<lambda>_. []) home 5 = Some s"
    using full_snapshot_total [OF home_ok] house_inventory home_topology by metis
  moreover have "topology_ok (p_topology home)" using house_ok home_topology by simp
  ultimately show ?thesis using snapshot_shows_each_light_once [OF _ s] by blast
qed

section \<open>Light changes a tick keeps to itself\<close>

definition lamp_commanded :: processor where
  "lamp_commanded = upd_light ''lamp'' (\<lambda>l. l\<lparr>light_target := set_and_command LTOff System 0 (light_target l)\<rparr>) home"

definition next_day :: instant where
  "next_day = from_secs 90000"

lemma send_views_updates: "send_views update view xs = Some us \<Longrightarrow> u \<in> set us \<Longrightarrow> \<exists>v. u = update v"
  by (auto simp: send_views_def split: Option.bind_splits)

lemma tick_sends_no_light:
  assumes "broadcast_after_event sh (Tick ts) tc now p = Some us"
  shows "UpdateLight l \<notin> set us"
  using assms by (auto simp: broadcast_after_event_def broadcast_state_updates_def zone_updates_def split: Option.bind_splits dest!: send_views_updates)

lemma lamp_commanded_ok: "proc_ok lamp_commanded" "p_topology lamp_commanded = house"
proof -
  have "light_ok (light (p_world home) ''lamp'' \<lparr>light_target := set_and_command LTOff System 0 (light_target (light (p_world home) ''lamp''))\<rparr>)"
    by code_simp
  then show "proc_ok lamp_commanded" unfolding lamp_commanded_def
    by (intro stays_proc_ok [OF home_ok] stays_upd_light [OF stays_refl [OF home_ok]])
  show "p_topology lamp_commanded = house" by (simp add: lamp_commanded_def upd_light_def home_topology)
qed

lemma lamp_goes_stale:
  "wp (handle_event (Tick next_day) lamp_commanded) (\<lambda>(_, q). tgt_phase (light_target (light (p_world q) ''lamp'')) = StaleTarget)"
  by code_simp

text \<open>A tick changes lights and does not show it: the command of a lamp that never answered goes stale, and the
  broadcast after the tick, described as a full sweep, holds no light.\<close>

theorem stale_light_not_broadcast:
  "tgt_phase (light_target (light (p_world lamp_commanded) ''lamp'')) = Commanded \<and>
   (\<exists>effs q us. handle_event (Tick next_day) lamp_commanded = Some (effs, q) \<and>
      tgt_phase (light_target (light (p_world q) ''lamp'')) = StaleTarget \<and>
      broadcast_after_event sh (Tick next_day) tc next_day q = Some us \<and> (\<forall>l. UpdateLight l \<notin> set us))"
proof -
  have before: "tgt_phase (light_target (light (p_world lamp_commanded) ''lamp'')) = Commanded" by code_simp
  obtain effs q where q: "handle_event (Tick next_day) lamp_commanded = Some (effs, q)" "proc_ok q" "p_topology q = house"
    using event_ok [OF lamp_commanded_ok(1), of "Tick next_day"] lamp_commanded_ok(2) by (auto simp: wp_iff simp del: handle_event.simps)
  have stale: "tgt_phase (light_target (light (p_world q) ''lamp'')) = StaleTarget"
    using wpD [OF lamp_goes_stale q(1)] by simp
  obtain us where us: "broadcast_after_event sh (Tick next_day) tc next_day q = Some us"
    using state_updates_total [OF q(2)] house_inventory q(3) by (auto simp: broadcast_after_event_def)
  with before q(1) stale tick_sends_no_light [OF us] show ?thesis by blast
qed

end
