(* ===== verification/EventLog.thy ===== *)
theory EventLog
  imports Dashboard
begin

text \<open>
  The decision log (\<open>web/event_log.rs\<close>, \<open>web/decision_capture.rs\<close>) and the event loop with its
  dashboard (\<open>daemon/event_loop.rs\<close>, \<open>daemon/web_bridge.rs\<close>): every event is summarised, the trace
  lines of its handling are captured, and what the controller did is numbered and sent to the
  dashboards and to the audit log. The trace lines themselves are an argument of a turn. The
  theorem is that the dashboard only observes: with it the daemon does exactly what it does
  without it. How floats are written is the record \<open>float_text\<close>.
\<close>

section \<open>Capturing trace lines\<close>

record float_text =
  ft_display :: "f64 \<Rightarrow> string"
  ft_debug :: "f64 \<Rightarrow> string"
  ft_fixed1 :: "f64 \<Rightarrow> string"

datatype trace_level = LevelError | LevelWarn | LevelInfo | LevelDebug | LevelTrace

fun level_rank :: "trace_level \<Rightarrow> nat" where
  "level_rank LevelError = 0"
| "level_rank LevelWarn = 1"
| "level_rank LevelInfo = 2"
| "level_rank LevelDebug = 3"
| "level_rank LevelTrace = 4"

text \<open>What a trace event reports a field with; \<open>FieldDebug\<close> is the printed \<open>Debug\<close> form.\<close>

datatype field_value =
    FieldDebug string
  | FieldStr string
  | FieldI64 int
  | FieldU64 u64
  | FieldBool bool
  | FieldF64 f64

record trace_event =
  te_level :: trace_level
  te_target :: string
  te_fields :: "(string \<times> field_value) list"

record message_visitor =
  mv_message :: string
  mv_fields :: "(string \<times> string) list"

definition show_int :: "int \<Rightarrow> string" where
  "show_int i = (if i < 0 then CHR ''-'' # show_nat (nat (- i)) else show_nat (nat i))"

definition add_field :: "string \<Rightarrow> string \<Rightarrow> message_visitor \<Rightarrow> message_visitor" where
  "add_field n s v = v\<lparr>mv_fields := mv_fields v @ [(n, s)]\<rparr>"

text \<open>Only text and \<open>Debug\<close> values can be the message.\<close>

fun record_field :: "float_text \<Rightarrow> string \<times> field_value \<Rightarrow> message_visitor \<Rightarrow> message_visitor" where
  "record_field ft (n, FieldDebug s) v = (if n = ''message'' then v\<lparr>mv_message := s\<rparr> else add_field n s v)"
| "record_field ft (n, FieldStr s) v = (if n = ''message'' then v\<lparr>mv_message := s\<rparr> else add_field n s v)"
| "record_field ft (n, FieldI64 i) v = add_field n (show_int i) v"
| "record_field ft (n, FieldU64 i) v = add_field n (show_nat i) v"
| "record_field ft (n, FieldBool b) v = add_field n (if b then ''true'' else ''false'') v"
| "record_field ft (n, FieldF64 x) v = add_field n (ft_display ft x) v"

definition into_formatted :: "message_visitor \<Rightarrow> string" where
  "into_formatted v =
     (if mv_fields v = [] then mv_message v
      else let pairs = join_words '', '' (map (\<lambda>(k, s). k @ ''='' @ s) (mv_fields v))
           in if mv_message v = [] then pairs else mv_message v @ '' ('' @ pairs @ '')'')"

record capture_buffer =
  cb_buffer :: "string list"
  cb_capturing :: bool

definition start_capture :: "capture_buffer \<Rightarrow> capture_buffer" where
  "start_capture cb = cb\<lparr>cb_buffer := [], cb_capturing := True\<rparr>"

definition drain_capture :: "capture_buffer \<Rightarrow> string list \<times> capture_buffer" where
  "drain_capture cb = (cb_buffer cb, cb\<lparr>cb_buffer := [], cb_capturing := False\<rparr>)"

definition on_trace :: "float_text \<Rightarrow> trace_event \<Rightarrow> capture_buffer \<Rightarrow> capture_buffer" where
  "on_trace ft te cb =
     (if \<not> cb_capturing cb then cb
      else if level_rank (te_level te) > level_rank LevelInfo then cb
      else if \<not> starts_with (te_target te) ''mqtt_controller'' then cb
      else cb\<lparr>cb_buffer := cb_buffer cb @
             [into_formatted (fold (record_field ft) (te_fields te) \<lparr>mv_message = [], mv_fields = []\<rparr>)]\<rparr>)"

section \<open>Log entries\<close>

record action_dto =
  ad_target :: string
  ad_target_kind :: string
  ad_payload_json :: string

record decision_log_entry =
  dle_seq :: "64 word"
  dle_timestamp_epoch_ms :: u64
  dle_event_summary :: string
  dle_decisions :: "string list"
  dle_actions_emitted :: "action_dto list"
  dle_involved_entities :: "string list"

definition action_dto :: "string \<Rightarrow> string \<Rightarrow> string \<Rightarrow> action_dto" where
  "action_dto target kind payload = \<lparr>ad_target = target, ad_target_kind = kind, ad_payload_json = payload\<rparr>"

text \<open>\<open>serde_json::to_string(payload).unwrap_or_default()\<close>.\<close>

definition payload_text :: "json_printer \<Rightarrow> payload \<Rightarrow> string" where
  "payload_text tj p = (case tj (payload_json p) of Inl e \<Rightarrow> [] | Inr s \<Rightarrow> s)"

fun effect_to_dto :: "json_printer \<Rightarrow> topology \<Rightarrow> eff \<Rightarrow> action_dto option" where
  "effect_to_dto tj t (PublishLightSet l p) =
     do { n \<leftarrow> device_name t (le_device l);
          case tj (payload_json p) of
            Inl e \<Rightarrow> None
          | Inr s \<Rightarrow> Some (action_dto (n @ ''/'' @ show_nat (le_endpoint l)) ''device'' s) }"
| "effect_to_dto tj t (PublishGroupSet r p) =
     do { ro \<leftarrow> room t r; Some (action_dto (room_group_name ro) ''group'' (payload_text tj p)) }"
| "effect_to_dto tj t (PublishDeviceSet d p) =
     do { n \<leftarrow> device_name t d; Some (action_dto n ''device'' (payload_text tj p)) }"
| "effect_to_dto tj t (PublishDeviceGet d) =
     do { n \<leftarrow> device_name t d;
          Some (action_dto n ''device_get'' (''{'' @ quoted ''state'' @ '':'' @ quoted [] @ ''}'')) }"
| "effect_to_dto tj t (PublishHaDiscoveryZone z) =
     do { n \<leftarrow> zone_name_of t z; Some (action_dto n ''raw'' ''<discovery>'') }"
| "effect_to_dto tj t (PublishHaDiscoveryTrv d) =
     do { n \<leftarrow> device_name t d; Some (action_dto n ''raw'' ''<discovery>'') }"
| "effect_to_dto tj t (PublishHaStateZone z s) =
     do { n \<leftarrow> zone_name_of t z; Some (action_dto n ''raw'' s) }"
| "effect_to_dto tj t (PublishHaStateTrv d s) =
     do { n \<leftarrow> device_name t d; Some (action_dto n ''raw'' s) }"
| "effect_to_dto tj t (PublishRaw topic p r) = Some (action_dto topic ''raw'' p)"

fun gesture_debug :: "gesture \<Rightarrow> string" where
  "gesture_debug Press = ''Press''"
| "gesture_debug Hold = ''Hold''"
| "gesture_debug HoldRelease = ''HoldRelease''"
| "gesture_debug DoubleTap = ''DoubleTap''"
| "gesture_debug SoftDoubleTap = ''SoftDoubleTap''"

definition on_off :: "bool \<Rightarrow> string" where
  "on_off b = (if b then ''ON'' else ''OFF'')"

definition option_debug :: "('a \<Rightarrow> string) \<Rightarrow> 'a option \<Rightarrow> string" where
  "option_debug sh x = (case x of None \<Rightarrow> ''None'' | Some v \<Rightarrow> ''Some('' @ sh v @ '')'')"

definition opt_text :: "('a \<Rightarrow> string) \<Rightarrow> string \<Rightarrow> 'a option \<Rightarrow> string" where
  "opt_text sh other x = (case x of None \<Rightarrow> other | Some v \<Rightarrow> sh v)"

fun summarize_event :: "float_text \<Rightarrow> event \<Rightarrow> string" where
  "summarize_event ft (ButtonPress d b g ts) = ''button '' @ gesture_debug g @ '' '' @ b @ '' on '' @ d"
| "summarize_event ft (Occupancy s occupied lux epoch ts) =
     ''motion '' @ (if occupied then ''active'' else ''inactive'') @ '' on '' @ s @ opt_text (\<lambda>l. '', lux='' @ show_nat l) [] lux"
| "summarize_event ft (GroupState g on ts) = ''group state '' @ on_off on @ '' for '' @ g"
| "summarize_event ft (PlugState d on w ts) =
     ''plug state '' @ on_off on @ '' for '' @ d @ opt_text (\<lambda>x. '', '' @ ft_fixed1 ft x @ ''W'') [] w"
| "summarize_event ft (PlugPowerUpdate d w ts) = ''plug power '' @ ft_fixed1 ft w @ ''W for '' @ d"
| "summarize_event ft (TrvState d lt dem rs sp om sm bat ts) =
     ''trv '' @ d @ '': '' @ opt_text (\<lambda>x. ft_fixed1 ft x @ DEGREE @ ''C'') ''?'' lt @
       '', demand '' @ opt_text (\<lambda>x. show_nat x @ ''%'') ''?'' dem @ '', '' @ opt_text id ''?'' rs"
| "summarize_event ft (WallThermostatState d relay lt om ts) =
     ''wall thermostat '' @ d @ '': relay '' @ opt_text on_off ''?'' relay"
| "summarize_event ft (PowerMeterState d w kwh ts) =
     ''meter '' @ d @ '': power='' @ option_debug (ft_debug ft) w @ '' W, energy='' @ option_debug (ft_debug ft) kwh @ '' kWh''"
| "summarize_event ft (Tick ts) = ''tick''"
| "summarize_event ft (LightState d on b ct xy ts) =
     ''light '' @ d @ '': '' @ on_off on @ opt_text (\<lambda>x. '' bri='' @ show_nat x) [] b"

definition zones_where :: "topology \<Rightarrow> (heating_zone_config \<Rightarrow> bool) \<Rightarrow> string list" where
  "zones_where t pred = (case heating_config_of t of None \<Rightarrow> [] | Some hc \<Rightarrow> map zone_name (filter pred (hc_zones hc)))"

fun extract_event_entities :: "event \<Rightarrow> topology \<Rightarrow> string list option" where
  "extract_event_entities (ButtonPress d b g ts) t =
     (case device_idx_of t d of
        None \<Rightarrow> Some [d]
      | Some i \<Rightarrow>
          foldM (\<lambda>bi out. do { rb \<leftarrow> binding t bi;
                               case effect_room (rb_effect rb) of
                                 None \<Rightarrow> Some out
                               | Some r \<Rightarrow> do { ro \<leftarrow> room t r; Some (out @ [room_name ro]) } })
            (bindings_for_button t i b g) [d])"
| "extract_event_entities (Occupancy s occupied lux epoch ts) t =
     do { names \<leftarrow> mapM (\<lambda>r. map_option room_name (room t r)) (rooms_for_motion t s); Some (s # names) }"
| "extract_event_entities (GroupState g on ts) t =
     do { ro \<leftarrow> room_by_group_name t g; Some (g # (case ro of None \<Rightarrow> [] | Some r \<Rightarrow> [room_name r])) }"
| "extract_event_entities (PlugState d on w ts) t = Some [d]"
| "extract_event_entities (PlugPowerUpdate d w ts) t = Some [d]"
| "extract_event_entities (PowerMeterState d w kwh ts) t = Some [d]"
| "extract_event_entities (TrvState d lt dem rs sp om sm bat ts) t =
     Some (d # zones_where t (\<lambda>z. list_ex (\<lambda>zt. zt_device zt = d) (zone_trvs z)))"
| "extract_event_entities (WallThermostatState d relay lt om ts) t = Some (d # zones_where t (\<lambda>z. zone_relay z = d))"
| "extract_event_entities (Tick ts) t = Some []"
| "extract_event_entities (LightState d on b ct xy ts) t =
     Some (d # map room_name (filter (\<lambda>r. list_ex (\<lambda>m. member_device m = d) (room_members r)) (t_rooms t)))"

fun effect_entities :: "topology \<Rightarrow> eff \<Rightarrow> string list option" where
  "effect_entities t (PublishLightSet l p) = do { n \<leftarrow> device_name t (le_device l); Some [n] }"
| "effect_entities t (PublishGroupSet r p) = do { ro \<leftarrow> room t r; Some [room_group_name ro, room_name ro] }"
| "effect_entities t (PublishDeviceSet d p) = do { n \<leftarrow> device_name t d; Some [n] }"
| "effect_entities t (PublishDeviceGet d) = do { n \<leftarrow> device_name t d; Some [n] }"
| "effect_entities t _ = Some []"

definition finish_involved_entities :: "string list \<Rightarrow> eff list \<Rightarrow> topology \<Rightarrow> string list option" where
  "finish_involved_entities entities effs t =
     do { added \<leftarrow> mapM (effect_entities t) effs; Some (remdups_adj (sort (entities @ concat added))) }"

section \<open>The event loop with a dashboard\<close>

datatype server_message =
    EventLogMessage decision_log_entry
  | EntityMessage entity_update
  | StateSnapshotMessage full_state_snapshot

fun discovery_or_raw :: "eff \<Rightarrow> bool" where
  "discovery_or_raw (PublishRaw topic p r) = True"
| "discovery_or_raw (PublishHaDiscoveryZone z) = True"
| "discovery_or_raw (PublishHaDiscoveryTrv d) = True"
| "discovery_or_raw (PublishHaStateZone z s) = True"
| "discovery_or_raw (PublishHaStateTrv d s) = True"
| "discovery_or_raw _ = False"

fun is_user_action :: "event \<Rightarrow> bool" where
  "is_user_action (ButtonPress d b g ts) = True"
| "is_user_action _ = False"

text \<open>The entry of an event, if it is interesting enough for one, and the sequence number after it.\<close>

definition log_event ::
  "json_printer \<Rightarrow> topology \<Rightarrow> event \<Rightarrow> string \<Rightarrow> string list \<Rightarrow> eff list \<Rightarrow> string list \<Rightarrow> u64 \<Rightarrow> 64 word \<Rightarrow>
   (decision_log_entry option \<times> 64 word) option" where
  "log_event tj t ev summary event_entities effs decisions epoch event_seq =
     (if is_user_action ev \<or> effs \<noteq> [] \<or> decisions \<noteq> [] then
        do { visible \<leftarrow> mapM (effect_to_dto tj t) (filter (\<lambda>e. \<not> discovery_or_raw e) effs);
             if is_user_action ev \<or> visible \<noteq> [] \<or> decisions \<noteq> [] then
               do { involved \<leftarrow> finish_involved_entities event_entities effs t;
                    Some (Some \<lparr>dle_seq = event_seq + 1, dle_timestamp_epoch_ms = epoch, dle_event_summary = summary,
                      dle_decisions = decisions, dle_actions_emitted = visible, dle_involved_entities = involved\<rparr>,
                      event_seq + 1) }
             else Some (None, event_seq) }
      else Some (None, event_seq))"

text \<open>What the loop keeps for its dashboards.\<close>

record web_state =
  ws_event_seq :: "64 word"
  ws_capture :: capture_buffer

definition web_state_new :: web_state where
  "web_state_new = \<lparr>ws_event_seq = 0, ws_capture = \<lparr>cb_buffer = [], cb_capturing = False\<rparr>\<rparr>"

datatype ws_reply =
    SnapshotReply full_state_snapshot
  | TopologyReply topology_info
  | ControlReply "override_error + unit"

record web_output =
  wo_reply :: "ws_reply option"
  wo_entry :: "decision_log_entry option"
  wo_messages :: "server_message list"

text \<open>One event, with \<open>traces\<close> the lines its handling traced. The entry also goes to the audit writer.\<close>

definition process_event_web ::
  "float_text \<Rightarrow> json_printer \<Rightarrow> 'c sender \<Rightarrow> trace_event list \<Rightarrow> event \<Rightarrow> web_state \<Rightarrow> processor \<times> 'c \<Rightarrow>
   (web_output \<times> web_state \<times> processor \<times> 'c) option" where
  "process_event_web ft tj send traces ev ws s =
     (case s of (p, c) \<Rightarrow>
        let now = ck_now (p_clock p); cb = start_capture (ws_capture ws); summary = summarize_event ft ev;
            t = p_topology p
        in do { event_entities \<leftarrow> extract_event_entities ev t;
                touched \<leftarrow> touched_from_event ev t;
                (effs, p') \<leftarrow> handle_event ev p;
                (dispatched, c') \<leftarrow> dispatch tj send t effs c;
                let (decisions, cb') = drain_capture (fold (on_trace ft) traces cb);
                (entry, n) \<leftarrow> log_event tj t ev summary event_entities effs decisions (ck_epoch_millis (p_clock p))
                  (ws_event_seq ws);
                updates \<leftarrow> broadcast_after_event (ft_display ft) ev (touched_extend touched dispatched) now p';
                Some (\<lparr>wo_reply = None, wo_entry = entry,
                        wo_messages = (case entry of None \<Rightarrow> [] | Some e \<Rightarrow> [EventLogMessage e]) @ map EntityMessage updates\<rparr>,
                      \<lparr>ws_event_seq = n, ws_capture = cb'\<rparr>, p', c') })"

datatype ws_command =
    RequestSnapshot
  | RequestTopology
  | Control control_command

fun settings_command :: "control_command \<Rightarrow> bool" where
  "settings_command (CmdRecallScene n sid) = False"
| "settings_command (CmdSetRoomOff n) = False"
| "settings_command (CmdSetPlugPower d on) = False"
| "settings_command _ = True"

definition broadcast_sweep :: "float_text \<Rightarrow> processor \<Rightarrow> server_message list option" where
  "broadcast_sweep ft p = map_option (map EntityMessage) (broadcast_state_updates (ft_display ft) p (ck_now (p_clock p)))"

fun handle_ws_command_web ::
  "float_text \<Rightarrow> json_printer \<Rightarrow> 'c sender \<Rightarrow> settings_repository \<Rightarrow> ws_command \<Rightarrow> processor \<times> 'c \<Rightarrow>
   (ws_reply \<times> server_message list \<times> processor \<times> 'c) option" where
  "handle_ws_command_web ft tj send repo RequestSnapshot (p, c) =
     do { snap \<leftarrow> build_full_snapshot (ft_display ft) p (ck_now (p_clock p));
          msgs \<leftarrow> broadcast_sweep ft p;
          Some (SnapshotReply snap, msgs, p, c) }"
| "handle_ws_command_web ft tj send repo RequestTopology (p, c) =
     do { topo \<leftarrow> build_topology_info (p_topology p);
          msgs \<leftarrow> broadcast_sweep ft p;
          Some (TopologyReply topo, msgs, p, c) }"
| "handle_ws_command_web ft tj send repo (Control cmd) (p, c) =
     do { (r, p', c') \<leftarrow> handle_ws_command tj send repo cmd (p, c);
          msgs \<leftarrow> (if settings_command cmd
                   then map_option (\<lambda>snap. [StateSnapshotMessage snap]) (build_full_snapshot (ft_display ft) p' (ck_now (p_clock p')))
                   else broadcast_sweep ft p');
          Some (ControlReply r, msgs, p', c') }"

text \<open>A turn of the loop wakes up for an event, with the lines its handling traces, or for a command.\<close>

datatype web_wake =
    WebEvent event "trace_event list"
  | WebTick "trace_event list"
  | WebDeadline "trace_event list"
  | WebCommand ws_command

definition web_turn ::
  "float_text \<Rightarrow> json_printer \<Rightarrow> 'c sender \<Rightarrow> settings_repository \<times> clock \<times> web_wake \<Rightarrow>
   web_state \<times> processor \<times> 'c \<Rightarrow> (web_output \<times> web_state \<times> processor \<times> 'c) option" where
  "web_turn ft tj send turn s =
     (case turn of (repo, clk, w) \<Rightarrow> case s of (ws, p0, c) \<Rightarrow>
        let p = p0\<lparr>p_clock := clk\<rparr>; ticked = Tick (ck_now clk) in
        (case w of
           WebEvent ev traces \<Rightarrow> process_event_web ft tj send traces ev ws (p, c)
         | WebTick traces \<Rightarrow> process_event_web ft tj send traces ticked ws (p, c)
         | WebDeadline traces \<Rightarrow> process_event_web ft tj send traces ticked ws (p, c)
         | WebCommand cmd \<Rightarrow>
             map_option (\<lambda>(r, msgs, s'). (\<lparr>wo_reply = Some r, wo_entry = None, wo_messages = msgs\<rparr>, ws, s'))
               (handle_ws_command_web ft tj send repo cmd (p, c))))"

fun web_run ::
  "float_text \<Rightarrow> json_printer \<Rightarrow> 'c sender \<Rightarrow> (settings_repository \<times> clock \<times> web_wake) list \<Rightarrow>
   web_state \<times> processor \<times> 'c \<Rightarrow> (web_output list \<times> web_state \<times> processor \<times> 'c) option" where
  "web_run ft tj send [] s = Some ([], s)"
| "web_run ft tj send (turn # turns) s =
     do { (out, s') \<leftarrow> web_turn ft tj send turn s;
          (outs, s'') \<leftarrow> web_run ft tj send turns s';
          Some (out # outs, s'') }"

section \<open>Every entry can be made\<close>

lemma effect_to_dto_total:
  assumes "eff_ok t e" and "\<And>j. \<exists>b. tj j = Inr b"
  shows "\<exists>d. effect_to_dto tj t e = Some d"
proof (cases e)
  case (PublishLightSet l p)
  obtain b where "tj (payload_json p) = Inr b" using assms(2) by blast
  with PublishLightSet assms(1) show ?thesis by (simp add: endpoint_ok_def device_name_def index_def)
qed (use assms(1) in \<open>auto simp: device_name_def room_def index_def zone_name_of_def heating_config_of_def\<close>)

lemma effect_entities_total: "eff_ok t e \<Longrightarrow> \<exists>l. effect_entities t e = Some l"
  by (cases e) (auto simp: endpoint_ok_def device_name_def room_def index_def)

lemma event_entities_total:
  assumes t: "topology_ok t"
  shows "\<exists>l. extract_event_entities ev t = Some l"
proof (cases ev)
  case (ButtonPress d b g ts)
  have step: "\<exists>out'. (do { rb \<leftarrow> binding t bi; case effect_room (rb_effect rb) of None \<Rightarrow> Some out
      | Some r \<Rightarrow> do { ro \<leftarrow> room t r; Some (out @ [room_name ro]) } }) = Some out'"
    if bi: "bi \<in> set (bindings_for_button t i b g)" for bi i and out :: "string list"
  proof -
    from bindings_for_button_bound [OF t bi] obtain rb where rb: "binding t bi = Some rb" "rb \<in> set (t_bindings t)"
      by (auto simp: binding_def index_def)
    then have "binding_ok t rb" using t by (simp add: topology_ok_def list_all_iff)
    then show ?thesis using rb(1) by (cases "rb_effect rb") (auto simp: binding_ok_def of_room_def room_def index_def)
  qed
  have "\<exists>l. foldM (\<lambda>bi out. do { rb \<leftarrow> binding t bi; case effect_room (rb_effect rb) of None \<Rightarrow> Some out
      | Some r \<Rightarrow> do { ro \<leftarrow> room t r; Some (out @ [room_name ro]) } }) (bindings_for_button t i b g) [d] = Some l" for i
    by (rule foldM_total) (rule step)
  then show ?thesis unfolding ButtonPress by (simp split: option.split)
next
  case (Occupancy s occupied lux epoch ts)
  have "i < length (t_rooms t)" if "i \<in> set (rooms_for_motion t s)" for i
    using that t by (auto simp: rooms_for_motion_def rooms_for_motion_idx_def topology_ok_def list_all_iff dest!: bt_all_get split: option.splits)
  then obtain ns where "mapM (\<lambda>r. map_option room_name (room t r)) (rooms_for_motion t s) = Some ns"
    using mapM_total [where f = "\<lambda>r. map_option room_name (room t r)" and xs = "rooms_for_motion t s"] by (auto simp: room_def index_def)
  then show ?thesis using Occupancy by simp
next
  case (GroupState g on ts)
  obtain ro where "room_by_group_name t g = Some ro" using room_by_group_name_total [OF t] unfolding wp_iff by blast
  then show ?thesis using GroupState by simp
qed simp_all

lemma log_event_total:
  assumes "list_all (eff_ok t) effs" and "\<And>j. \<exists>b. tj j = Inr b"
  shows "\<exists>entry n. log_event tj t ev summary es effs decisions epoch sq = Some (entry, n)"
proof -
  obtain vs where "mapM (effect_to_dto tj t) (filter (\<lambda>e. \<not> discovery_or_raw e) effs) = Some vs"
    using mapM_total [where f = "effect_to_dto tj t" and xs = "filter (\<lambda>e. \<not> discovery_or_raw e) effs"]
      effect_to_dto_total [OF _ assms(2)] assms(1) by (auto simp: list_all_iff)
  moreover obtain as where "mapM (effect_entities t) effs = Some as"
    using mapM_total [where f = "effect_entities t" and xs = effs] effect_entities_total assms(1) by (auto simp: list_all_iff)
  ultimately show ?thesis by (simp add: log_event_def finish_involved_entities_def)
qed

section \<open>The dashboard only observes\<close>

definition same_but_clock :: "processor \<Rightarrow> processor \<Rightarrow> bool" where
  "same_but_clock p q = (\<exists>k. q = p\<lparr>p_clock := k\<rparr>)"

lemma same_but_clock_refl [simp]: "same_but_clock p p"
  unfolding same_but_clock_def by (rule exI [of _ "p_clock p"]) simp

lemma same_but_clock_set [simp]: "same_but_clock p (p\<lparr>p_clock := k\<rparr>)"
  by (auto simp: same_but_clock_def)

lemma turn_sets_clock:
  assumes "same_but_clock p q"
  shows "event_loop_turn tj send turn (p, c) = event_loop_turn tj send turn (q, c)"
proof -
  have "p\<lparr>p_clock := k\<rparr> = q\<lparr>p_clock := k\<rparr>" for k using assms by (auto simp: same_but_clock_def)
  then show ?thesis by (simp add: event_loop_turn_def)
qed

lemma process_event_web_ok:
  fixes send :: "'c sender"
  assumes p: "proc_ok p" and inv: "inventory_ok (p_topology p)" and tj: "\<And>j. \<exists>b. tj j = Inr b"
  shows "\<exists>out ws' tc q c'. process_event_web ft tj send traces ev ws (p, c) = Some (out, ws', q, c') \<and>
    process_event tj send ev (p, c) = Some (tc, q, c')"
proof -
  let ?t = "p_topology p"
  obtain es where es: "extract_event_entities ev ?t = Some es" using event_entities_total [OF proc_ok_topology [OF p]] by blast
  obtain tc where tc: "touched_from_event ev ?t = Some tc" using touched_total [OF proc_ok_topology [OF p]] by blast
  obtain effs q where h: "handle_event ev p = Some (effs, q)" "answers p effs q" using servesE [OF event_serves p] by blast
  have effs: "list_all (eff_ok ?t) effs" and q: "proc_ok q" "p_topology q = ?t" using h(2) by (simp_all add: answers_def)
  obtain tc' c' where d: "dispatch tj send ?t effs c = Some (tc', c')" using dispatch_total [where tj = tj and send = send and c = c, OF effs tj] by blast
  have "process_event tj send ev (p, c) = Some (touched_extend tc tc', q, c')"
    using tc h(1) d by (simp add: process_event_def Let_def del: handle_event.simps)
  moreover from process_event_touched [OF proc_ok_topology [OF p] this] have "touched_ok ?t (touched_extend tc tc')" .
  then obtain us where us: "broadcast_after_event (ft_display ft) ev (touched_extend tc tc') (ck_now (p_clock p)) q = Some us"
    using broadcast_total [OF q(1)] inv q(2) by metis
  obtain ds cb where ds: "drain_capture (fold (on_trace ft) traces (start_capture (ws_capture ws))) = (ds, cb)" by fastforce
  obtain entry n where "log_event tj ?t ev (summarize_event ft ev) es effs ds (ck_epoch_millis (p_clock p)) (ws_event_seq ws) = Some (entry, n)"
    using log_event_total [where tj = tj, OF effs tj] by blast
  with es tc h(1) d us ds have "\<exists>out ws'. process_event_web ft tj send traces ev ws (p, c) = Some (out, ws', q, c')"
    by (simp add: process_event_web_def Let_def del: handle_event.simps)
  ultimately show ?thesis by blast
qed

lemma sweep_total: "proc_ok p \<Longrightarrow> inventory_ok (p_topology p) \<Longrightarrow> \<exists>msgs. broadcast_sweep ft p = Some msgs"
  using state_updates_total by (auto simp: broadcast_sweep_def)

lemma topology_info_total: "inventory_ok t \<Longrightarrow> topology_ok t \<Longrightarrow> \<exists>i. build_topology_info t = Some i"
  using plug_names_total by (fastforce simp: build_topology_info_def)

lemma command_web_ok:
  fixes send :: "'c sender"
  assumes p: "proc_ok p" and inv: "inventory_ok (p_topology p)" and tj: "\<And>j. \<exists>b. tj j = Inr b"
  shows "\<exists>r msgs q c'. handle_ws_command_web ft tj send repo cmd (p, c) = Some (r, msgs, q, c') \<and>
    (case cmd of Control cm \<Rightarrow> map_option snd (handle_ws_command tj send repo cm (p, c)) = Some (q, c') | _ \<Rightarrow> q = p \<and> c' = c)"
proof (cases cmd)
  case RequestSnapshot
  obtain snap msgs where "build_full_snapshot (ft_display ft) p (ck_now (p_clock p)) = Some snap" "broadcast_sweep ft p = Some msgs"
    using full_snapshot_total [OF p inv] sweep_total [OF p inv] by blast
  then show ?thesis using RequestSnapshot by simp
next
  case RequestTopology
  obtain info msgs where "build_topology_info (p_topology p) = Some info" "broadcast_sweep ft p = Some msgs"
    using topology_info_total [OF inv proc_ok_topology [OF p]] sweep_total [OF p inv] by blast
  then show ?thesis using RequestTopology by simp
next
  case (Control cm)
  obtain q c' where t: "event_loop_turn tj send (repo, p_clock p, CommandReceived cm) (p, c) = Some (q, c')"
      and q: "proc_ok q" "p_topology q = p_topology p"
    using turn_ok [where tj = tj and send = send and c = c, OF p tj] by blast
  from t have "map_option snd (handle_ws_command tj send repo cm (p, c)) = Some (q, c')" by (simp add: event_loop_turn_def)
  moreover obtain snap where "build_full_snapshot (ft_display ft) q (ck_now (p_clock q)) = Some snap"
    using full_snapshot_total [OF q(1)] inv q(2) by metis
  moreover obtain msgs where "broadcast_sweep ft q = Some msgs" using sweep_total [OF q(1)] inv q(2) by metis
  ultimately show ?thesis using Control by (cases "settings_command cm") auto
qed

text \<open>The turn of the loop without a dashboard that a turn with one corresponds to, if any.\<close>

fun plain_turn :: "settings_repository \<times> clock \<times> web_wake \<Rightarrow> (settings_repository \<times> clock \<times> wake) option" where
  "plain_turn (repo, clk, WebEvent ev traces) = Some (repo, clk, EventReceived ev)"
| "plain_turn (repo, clk, WebTick traces) = Some (repo, clk, TickElapsed)"
| "plain_turn (repo, clk, WebDeadline traces) = Some (repo, clk, DeadlineElapsed)"
| "plain_turn (repo, clk, WebCommand (Control cmd)) = Some (repo, clk, CommandReceived cmd)"
| "plain_turn (repo, clk, WebCommand _) = None"

lemma web_turn_ok:
  fixes send :: "'c sender"
  assumes p: "proc_ok p" and inv: "inventory_ok (p_topology p)" and tj: "\<And>j. \<exists>b. tj j = Inr b"
  shows "\<exists>out ws' q c'. web_turn ft tj send turn (ws, p, c) = Some (out, ws', q, c') \<and> proc_ok q \<and> p_topology q = p_topology p \<and>
    (case plain_turn turn of None \<Rightarrow> same_but_clock p q \<and> c' = c | Some turn' \<Rightarrow> event_loop_turn tj send turn' (p, c) = Some (q, c'))"
proof -
  obtain repo clk w where turn: "turn = (repo, clk, w)" by (cases turn)
  let ?p = "p\<lparr>p_clock := clk\<rparr>"
  have p': "proc_ok ?p" "inventory_ok (p_topology ?p)" "p_topology ?p = p_topology p" using p inv by (simp_all add: proc_ok_clock)
  have ev: "\<exists>out ws' q c'. process_event_web ft tj send traces e ws (?p, c) = Some (out, ws', q, c') \<and> proc_ok q \<and> p_topology q = p_topology p \<and>
      map_option snd (process_event tj send e (?p, c)) = Some (q, c')" for traces e
  proof -
    obtain out ws' tc q c' where w: "process_event_web ft tj send traces e ws (?p, c) = Some (out, ws', q, c')"
        "process_event tj send e (?p, c) = Some (tc, q, c')"
      using process_event_web_ok [where tj = tj and send = send and c = c, OF p'(1,2) tj] by blast
    moreover have "proc_ok q" "p_topology q = p_topology p"
      using process_event_ok [where tj = tj and send = send and c = c and ev = e, OF p'(1) tj] w(2) p'(3) by auto
    ultimately show ?thesis by simp
  qed
  have cmd: "\<exists>r msgs q c'. handle_ws_command_web ft tj send repo cmd (?p, c) = Some (r, msgs, q, c') \<and> proc_ok q \<and> p_topology q = p_topology p \<and>
      (case cmd of Control cm \<Rightarrow> map_option snd (handle_ws_command tj send repo cm (?p, c)) = Some (q, c') | _ \<Rightarrow> q = ?p \<and> c' = c)" for cmd
  proof -
    obtain r msgs q c' where h: "handle_ws_command_web ft tj send repo cmd (?p, c) = Some (r, msgs, q, c')"
        "case cmd of Control cm \<Rightarrow> map_option snd (handle_ws_command tj send repo cm (?p, c)) = Some (q, c') | _ \<Rightarrow> q = ?p \<and> c' = c"
      using command_web_ok [where tj = tj and send = send and c = c, OF p'(1,2) tj] by blast
    have "proc_ok q \<and> p_topology q = p_topology p"
    proof (cases cmd)
      case (Control cm)
      then have "event_loop_turn tj send (repo, clk, CommandReceived cm) (p, c) = Some (q, c')" using h(2) by (simp add: event_loop_turn_def)
      then show ?thesis using turn_ok [where tj = tj and send = send and c = c and turn = "(repo, clk, CommandReceived cm)", OF p tj] by auto
    qed (use h(2) p' in simp_all)
    with h show ?thesis by blast
  qed
  show ?thesis
  proof (cases w)
    case (WebEvent e traces)
    then show ?thesis using ev [of traces e] turn by (auto simp: web_turn_def event_loop_turn_def)
  next
    case (WebTick traces)
    then show ?thesis using ev [of traces "Tick (ck_now clk)"] turn by (auto simp: web_turn_def event_loop_turn_def)
  next
    case (WebDeadline traces)
    then show ?thesis using ev [of traces "Tick (ck_now clk)"] turn by (auto simp: web_turn_def event_loop_turn_def)
  next
    case (WebCommand cm)
    then show ?thesis using cmd [of cm] turn
      by (cases cm) (auto simp: web_turn_def event_loop_turn_def simp del: handle_ws_command_web.simps)
  qed
qed

lemma web_run_ok:
  fixes send :: "'c sender"
  assumes "proc_ok q" and "inventory_ok (p_topology q)" and tj: "\<And>j. \<exists>b. tj j = Inr b" and "same_but_clock p q"
  shows "\<exists>outs ws' q' p' c'. web_run ft tj send turns (ws, q, c) = Some (outs, ws', q', c') \<and>
    daemon_run tj send (List.map_filter plain_turn turns) (p, c) = Some (p', c') \<and> same_but_clock p' q'"
  using assms(1,2,4)
proof (induction turns arbitrary: p q c ws)
  case Nil
  then show ?case by (simp add: daemon_run_def)
next
  case (Cons turn turns)
  obtain out ws1 q1 c1 where t: "web_turn ft tj send turn (ws, q, c) = Some (out, ws1, q1, c1)" "proc_ok q1" "p_topology q1 = p_topology q"
      "case plain_turn turn of None \<Rightarrow> same_but_clock q q1 \<and> c1 = c | Some turn' \<Rightarrow> event_loop_turn tj send turn' (q, c) = Some (q1, c1)"
    using web_turn_ok [where tj = tj and send = send and c = c, OF Cons.prems(1,2) tj] by blast
  have inv: "inventory_ok (p_topology q1)" using Cons.prems(2) t(3) by simp
  show ?case
  proof (cases "plain_turn turn")
    case None
    then have "same_but_clock p q1" "c1 = c" using t(4) Cons.prems(3) by (auto simp: same_but_clock_def)
    with Cons.IH [where p = p and c = c and ws = ws1, OF t(2) inv] t(1) None show ?thesis by (auto simp: List.map_filter_simps)
  next
    case (Some turn')
    then have "event_loop_turn tj send turn' (p, c) = Some (q1, c1)" using t(4) turn_sets_clock [where send = send, OF Cons.prems(3)] by simp
    with Cons.IH [where c = c1 and ws = ws1, OF t(2) inv same_but_clock_refl] t(1) Some show ?thesis by (auto simp: List.map_filter_simps daemon_run_def)
  qed
qed


definition plain_text :: float_text where
  "plain_text = \<lparr>ft_display = \<lambda>_. [], ft_debug = \<lambda>_. [], ft_fixed1 = \<lambda>_. []\<rparr>"


section \<open>Numbering\<close>

text \<open>An entry takes the next number; a turn without one keeps the counter.\<close>

definition numbered :: "web_state \<Rightarrow> web_output \<Rightarrow> web_state \<Rightarrow> bool" where
  "numbered ws out ws' =
     (case wo_entry out of
        None \<Rightarrow> ws_event_seq ws' = ws_event_seq ws
      | Some e \<Rightarrow> dle_seq e = ws_event_seq ws + 1 \<and> ws_event_seq ws' = ws_event_seq ws + 1)"

lemma log_event_numbered:
  "log_event tj t ev summary es effs decisions epoch n = Some (entry, n') \<Longrightarrow>
   (case entry of None \<Rightarrow> n' = n | Some e \<Rightarrow> dle_seq e = n + 1 \<and> n' = n + 1)"
  by (auto simp: log_event_def split: if_splits Option.bind_splits)

lemma process_event_web_numbered:
  "process_event_web ft tj send traces ev ws s = Some (out, ws', s') \<Longrightarrow> numbered ws out ws'"
  by (auto simp: process_event_web_def Let_def numbered_def simp del: handle_event.simps
      split: Option.bind_splits prod.splits option.splits dest!: log_event_numbered)

lemma reply_numbered [simp]: "numbered ws \<lparr>wo_reply = r, wo_entry = None, wo_messages = m\<rparr> ws"
  by (simp add: numbered_def)

lemma web_turn_numbered: "web_turn ft tj send turn (ws, s) = Some (out, ws', s') \<Longrightarrow> numbered ws out ws'"
  by (cases turn; cases s)
    (auto simp: web_turn_def Let_def simp del: handle_ws_command_web.simps split: web_wake.splits dest: process_event_web_numbered)

definition logged :: "web_output list \<Rightarrow> decision_log_entry list" where
  "logged outs = List.map_filter wo_entry outs"

text \<open>The entries of the decision log are numbered one after the other, without a gap or a repetition: the
  \<open>i\<close>-th entry of a run carries the number \<open>i\<close> after the counter the run started with.\<close>

theorem log_entries_numbered:
  assumes "web_run ft tj send turns (ws, s) = Some (outs, ws', s')"
  shows "map dle_seq (logged outs) = map (\<lambda>i. ws_event_seq ws + of_nat (Suc i)) [0..<length (logged outs)] \<and>
    ws_event_seq ws' = ws_event_seq ws + of_nat (length (logged outs))"
  using assms
proof (induction turns arbitrary: ws s outs)
  case (Cons turn turns)
  obtain out ws1 s1 outs1 where t: "web_turn ft tj send turn (ws, s) = Some (out, ws1, s1)"
      "web_run ft tj send turns (ws1, s1) = Some (outs1, ws', s')" "outs = out # outs1"
    using Cons.prems by (auto split: Option.bind_splits)
  note IH = Cons.IH [OF t(2)]
  note n = web_turn_numbered [OF t(1)]
  show ?case
  proof (cases "wo_entry out")
    case None
    then show ?thesis using IH n t(3) by (simp add: logged_def numbered_def List.map_filter_simps)
  next
    case (Some e)
    then have "logged outs = e # logged outs1" using t(3) by (simp add: logged_def List.map_filter_simps)
    then show ?thesis using IH n Some
      by (simp add: numbered_def upt_conv_Cons map_Suc_upt [symmetric] comp_def add.assoc del: upt_Suc)
  qed
qed (simp add: logged_def List.map_filter_simps)

end
