(* ===== verification/AuditLog.thy ===== *)
theory AuditLog
  imports Sql EventLog "HOL-Library.Multiset"
begin

text \<open>
  The audit log (\<open>audit/\<close>): the writer task that batches decision-log entries into transactions, the
  retention sweep, and the query behind the history popup. The JSON columns are printed and read
  by the record \<open>audit_json\<close>. \<open>ORDER BY ts_ms DESC\<close> leaves rows of the same time in an order of the
  database's choice, the argument \<open>order\<close>.
\<close>

section \<open>Tables and configuration\<close>

record audit_config =
  ac_path :: string
  ac_retention_days :: u32
  ac_per_entity_max_rows :: u32
  ac_flush_interval_ms :: u64
  ac_flush_max_rows :: nat
  ac_sweep_interval_secs :: u64

record audit_row =
  ar_id :: int
  ar_ts_ms :: int
  ar_event_summary :: string
  ar_decisions_json :: string
  ar_actions_json :: string

record index_row =
  ix_entity :: string
  ix_log_id :: int
  ix_ts_ms :: int

text \<open>\<open>at_next_id\<close> is the counter of \<open>AUTOINCREMENT\<close>.\<close>

record audit_tables =
  at_log :: "audit_row list"
  at_index :: "index_row list"
  at_next_id :: int

definition audit_new :: audit_tables where
  "audit_new = \<lparr>at_log = [], at_index = [], at_next_id = 1\<rparr>"

record audit_json =
  aj_print_decisions :: "string list \<Rightarrow> string option"
  aj_print_actions :: "action_dto list \<Rightarrow> string option"
  aj_read_decisions :: "string \<Rightarrow> string list option"
  aj_read_actions :: "string \<Rightarrow> action_dto list option"

text \<open>\<open>as i64\<close> of an unsigned 64-bit value wraps.\<close>

definition as_i64 :: "u64 \<Rightarrow> int" where
  "as_i64 n = signed_take_bit 63 (int n)"

section \<open>The writer\<close>

definition AUDIT_CHANNEL_CAPACITY :: nat where
  "AUDIT_CHANNEL_CAPACITY = 4096"

text \<open>A full queue drops the entry.\<close>

definition audit_try_send :: "decision_log_entry \<Rightarrow> decision_log_entry list \<Rightarrow> decision_log_entry list" where
  "audit_try_send e queue = (if length queue < AUDIT_CHANNEL_CAPACITY then queue @ [e] else queue)"

definition insert_log :: "int \<Rightarrow> string \<Rightarrow> string \<Rightarrow> string \<Rightarrow> audit_tables \<Rightarrow> int option \<times> audit_tables" where
  "insert_log ts summary decisions actions t =
     (Some (at_next_id t),
      t\<lparr>at_log := at_log t @ [\<lparr>ar_id = at_next_id t, ar_ts_ms = ts, ar_event_summary = summary,
                                ar_decisions_json = decisions, ar_actions_json = actions\<rparr>],
        at_next_id := at_next_id t + 1\<rparr>)"

text \<open>\<open>INSERT OR IGNORE\<close> under the primary key \<open>(entity, log_id)\<close>.\<close>

definition insert_entity :: "string \<Rightarrow> int \<Rightarrow> int \<Rightarrow> audit_tables \<Rightarrow> unit \<times> audit_tables" where
  "insert_entity entity log_id ts t =
     ((), if list_ex (\<lambda>ix. ix_entity ix = entity \<and> ix_log_id ix = log_id) (at_index t) then t
          else t\<lparr>at_index := at_index t @ [\<lparr>ix_entity = entity, ix_log_id = log_id, ix_ts_ms = ts\<rparr>]\<rparr>)"

definition or_brackets :: "string option \<Rightarrow> string" where
  "or_brackets s = (case s of None \<Rightarrow> ''[]'' | Some x \<Rightarrow> x)"

definition insert_entry :: "audit_json \<Rightarrow> (nat \<Rightarrow> string option) \<Rightarrow> decision_log_entry \<Rightarrow> (unit, audit_tables) sql" where
  "insert_entry aj fails e =
     (let ts = as_i64 (dle_timestamp_epoch_ms e) in
      sql_then (sql_statement fails (insert_log ts (dle_event_summary e) (or_brackets (aj_print_decisions aj (dle_decisions e)))
                  (or_brackets (aj_print_actions aj (dle_actions_emitted e)))))
        (\<lambda>row. case row of
            None \<Rightarrow> sql_return ()
          | Some log_id \<Rightarrow> sql_each (\<lambda>entity. sql_statement fails (insert_entity entity log_id ts)) (dle_involved_entities e)))"

definition insert_batch :: "audit_json \<Rightarrow> (nat \<Rightarrow> string option) \<Rightarrow> decision_log_entry list \<Rightarrow> (unit, audit_tables) sql" where
  "insert_batch aj fails batch = sql_each (insert_entry aj fails) batch"

definition flush_batch :: "audit_json \<Rightarrow> (nat \<Rightarrow> string option) \<Rightarrow> decision_log_entry list \<Rightarrow> (unit, audit_tables) sql" where
  "flush_batch aj fails batch =
     (if batch = [] then sql_return ()
      else sql_then (sql_begin fails)
             (\<lambda>_ c. case insert_batch aj fails batch c of
                (Inl e, c') \<Rightarrow> (Inl e, snd (sql_rollback fails c'))
              | (Inr _, c') \<Rightarrow> sql_commit fails c'))"

text \<open>The writer's loop: what it waits for, and what it does with it. An interval runs from the first
  entry of a batch.\<close>

datatype writer_input =
    EntryReceived decision_log_entry
  | IntervalElapsed
  | QueueClosed

record writer =
  wr_buf :: "decision_log_entry list"
  wr_conn :: "audit_tables connection"
  wr_stopped :: bool

definition flush_buffer :: "audit_json \<Rightarrow> (nat \<Rightarrow> string option) \<Rightarrow> writer \<Rightarrow> writer" where
  "flush_buffer aj fails w = w\<lparr>wr_conn := snd (flush_batch aj fails (wr_buf w) (wr_conn w)), wr_buf := []\<rparr>"

definition writer_step :: "audit_json \<Rightarrow> (nat \<Rightarrow> string option) \<Rightarrow> audit_config \<Rightarrow> writer_input \<Rightarrow> writer \<Rightarrow> writer" where
  "writer_step aj fails conf i w =
     (if wr_stopped w then w
      else (case i of
          EntryReceived e \<Rightarrow>
            (let w' = w\<lparr>wr_buf := wr_buf w @ [e]\<rparr> in
             if length (wr_buf w') < max (ac_flush_max_rows conf) 1 then w' else flush_buffer aj fails w')
        | IntervalElapsed \<Rightarrow> (if wr_buf w = [] then w else flush_buffer aj fails w)
        | QueueClosed \<Rightarrow> (flush_buffer aj fails w)\<lparr>wr_stopped := True\<rparr>))"

definition writer_new :: "audit_tables \<Rightarrow> writer" where
  "writer_new t = \<lparr>wr_buf = [], wr_conn = connect t, wr_stopped = False\<rparr>"

definition writer_run :: "audit_json \<Rightarrow> (nat \<Rightarrow> string option) \<Rightarrow> audit_config \<Rightarrow> writer_input list \<Rightarrow> writer \<Rightarrow> writer" where
  "writer_run aj fails conf = fold (writer_step aj fails conf)"

section \<open>Retention\<close>

definition DAY_MS :: int where
  "DAY_MS = 86400 * 1000"

type_synonym row_order = "index_row list \<Rightarrow> index_row list"

text \<open>\<open>DELETE FROM decision_log WHERE ts_ms < ?\<close>; the index rows of a deleted row go with it.\<close>

definition delete_old_logs :: "int \<Rightarrow> audit_tables \<Rightarrow> unit \<times> audit_tables" where
  "delete_old_logs cutoff t =
     (let gone = map ar_id (filter (\<lambda>r. ar_ts_ms r < cutoff) (at_log t)) in
      ((), t\<lparr>at_log := filter (\<lambda>r. \<not> ar_ts_ms r < cutoff) (at_log t),
             at_index := filter (\<lambda>ix. ix_log_id ix \<notin> set gone) (at_index t)\<rparr>))"

definition list_entities :: "audit_tables \<Rightarrow> string list \<times> audit_tables" where
  "list_entities t = (remdups (map ix_entity (at_index t)), t)"

definition trim_entity_index :: "row_order \<Rightarrow> nat \<Rightarrow> string \<Rightarrow> audit_tables \<Rightarrow> unit \<times> audit_tables" where
  "trim_entity_index order cap entity t =
     (let kept = map ix_log_id (take cap (order (filter (\<lambda>ix. ix_entity ix = entity) (at_index t)))) in
      ((), t\<lparr>at_index := filter (\<lambda>ix. \<not> (ix_entity ix = entity \<and> ix_log_id ix \<notin> set kept)) (at_index t)\<rparr>))"

definition sweep_audit :: "row_order \<Rightarrow> (nat \<Rightarrow> string option) \<Rightarrow> audit_config \<Rightarrow> int \<Rightarrow> (unit, audit_tables) sql" where
  "sweep_audit order fails conf now_ms =
     (let cutoff = now_ms - int (ac_retention_days conf) * DAY_MS in
      sql_then (sql_statement fails (delete_old_logs cutoff))
        (\<lambda>_. sql_then (sql_statement fails list_entities)
          (sql_each (\<lambda>entity. sql_statement fails (trim_entity_index order (ac_per_entity_max_rows conf) entity)))))"

section \<open>The query\<close>

definition DEFAULT_LIMIT :: u32 where
  "DEFAULT_LIMIT = 50"

definition MAX_LIMIT :: u32 where
  "MAX_LIMIT = 500"

definition I64_MAX :: int where
  "I64_MAX = 2 ^ 63 - 1"

record log_entry_dto =
  led_id :: int
  led_timestamp_epoch_ms :: int
  led_event_summary :: string
  led_decisions :: "string list"
  led_actions_emitted :: "action_dto list"

definition clamp_limit :: "u32 \<Rightarrow> u32" where
  "clamp_limit n = (if n < 1 then 1 else if n > MAX_LIMIT then MAX_LIMIT else n)"

text \<open>The join: \<open>id\<close> is the primary key of the log, so an index row has at most one row there.\<close>

definition query_by_entity :: "row_order \<Rightarrow> string \<Rightarrow> int \<Rightarrow> nat \<Rightarrow> audit_tables \<Rightarrow> audit_row list \<times> audit_tables" where
  "query_by_entity order entity before limit t =
     (take limit (List.map_filter (\<lambda>ix. find (\<lambda>r. ar_id r = ix_log_id ix) (at_log t))
        (order (filter (\<lambda>ix. ix_entity ix = entity \<and> ix_ts_ms ix < before) (at_index t)))), t)"

definition dto_of_row :: "audit_json \<Rightarrow> audit_row \<Rightarrow> log_entry_dto" where
  "dto_of_row aj r =
     \<lparr>led_id = ar_id r, led_timestamp_epoch_ms = ar_ts_ms r, led_event_summary = ar_event_summary r,
      led_decisions = (case aj_read_decisions aj (ar_decisions_json r) of None \<Rightarrow> [] | Some d \<Rightarrow> d),
      led_actions_emitted = (case aj_read_actions aj (ar_actions_json r) of None \<Rightarrow> [] | Some a \<Rightarrow> a)\<rparr>"

definition fetch_log ::
  "audit_json \<Rightarrow> row_order \<Rightarrow> (nat \<Rightarrow> string option) \<Rightarrow> string \<Rightarrow> int option \<Rightarrow> u32 option \<Rightarrow> (log_entry_dto list, audit_tables) sql" where
  "fetch_log aj order fails entity before_ts_ms limit =
     sql_then (sql_statement fails (query_by_entity order entity
         (case before_ts_ms of None \<Rightarrow> I64_MAX | Some ts \<Rightarrow> ts)
         (clamp_limit (case limit of None \<Rightarrow> DEFAULT_LIMIT | Some n \<Rightarrow> n))))
       (\<lambda>found. sql_return (map (dto_of_row aj) found))"

section \<open>Writing without failures\<close>

abbreviation never_fails :: "nat \<Rightarrow> string option" where
  "never_fails \<equiv> \<lambda>_. None"

text \<open>What an entry adds to the tables.\<close>

definition row_of_entry :: "audit_json \<Rightarrow> int \<Rightarrow> decision_log_entry \<Rightarrow> audit_row" where
  "row_of_entry aj i e =
     \<lparr>ar_id = i, ar_ts_ms = as_i64 (dle_timestamp_epoch_ms e), ar_event_summary = dle_event_summary e,
      ar_decisions_json = or_brackets (aj_print_decisions aj (dle_decisions e)),
      ar_actions_json = or_brackets (aj_print_actions aj (dle_actions_emitted e))\<rparr>"

definition write_names :: "string list \<Rightarrow> int \<Rightarrow> int \<Rightarrow> audit_tables \<Rightarrow> audit_tables" where
  "write_names ns i ts = fold (\<lambda>n t. snd (insert_entity n i ts t)) ns"

definition write_entry :: "audit_json \<Rightarrow> decision_log_entry \<Rightarrow> audit_tables \<Rightarrow> audit_tables" where
  "write_entry aj e t =
     write_names (dle_involved_entities e) (at_next_id t) (as_i64 (dle_timestamp_epoch_ms e))
       (t\<lparr>at_log := at_log t @ [row_of_entry aj (at_next_id t) e], at_next_id := at_next_id t + 1\<rparr>)"

text \<open>Inside a transaction \<open>m\<close> succeeds and changes its tables by \<open>f\<close>.\<close>

definition does :: "(unit, 'db) sql \<Rightarrow> ('db \<Rightarrow> 'db) \<Rightarrow> bool" where
  "does m f = (\<forall>c db. cn_pending c = Some db \<longrightarrow>
     (\<exists>c'. m c = (Inr (), c') \<and> cn_pending c' = Some (f db) \<and> cn_committed c' = cn_committed c))"

lemma doesE:
  assumes "does m f" and "cn_pending c = Some db"
  obtains c' where "m c = (Inr (), c')" "cn_pending c' = Some (f db)" "cn_committed c' = cn_committed c"
  using assms by (auto simp: does_def)

lemma does_return: "does (sql_return ()) id"
  by (simp add: does_def sql_return_def)

lemma does_statement: "does (sql_statement never_fails g) (\<lambda>db. snd (g db))"
  by (simp add: does_def sql_statement_def visible_tables_def store_tables_def Let_def case_prod_beta)

lemma does_then: "does m f \<Longrightarrow> does k g \<Longrightarrow> does (sql_then m (\<lambda>_. k)) (\<lambda>db. g (f db))"
  unfolding does_def sql_then_def by (auto split: prod.split) fastforce

lemma does_each: "(\<And>x. does (m x) (f x)) \<Longrightarrow> does (sql_each m xs) (fold f xs)"
proof (induction xs)
  case Nil
  then show ?case using does_return by (simp add: id_def)
next
  case (Cons x xs)
  have "does (sql_then (m x) (\<lambda>_. sql_each m xs)) (\<lambda>db. fold f xs (f x db))"
    by (rule does_then) (use Cons in auto)
  then show ?case by (simp add: comp_def)
qed

lemma does_insert_entry: "does (insert_entry aj never_fails e) (write_entry aj e)"
  unfolding does_def
proof (intro allI impI)
  fix c :: "audit_tables connection" and db
  assume p: "cn_pending c = Some db"
  let ?ts = "as_i64 (dle_timestamp_epoch_ms e)"
  let ?db = "db\<lparr>at_log := at_log db @ [row_of_entry aj (at_next_id db) e], at_next_id := at_next_id db + 1\<rparr>"
  let ?c = "c\<lparr>cn_issued := Suc (cn_issued c), cn_pending := Some ?db\<rparr>"
  have "does (sql_each (\<lambda>n. sql_statement never_fails (insert_entity n (at_next_id db) ?ts)) (dle_involved_entities e))
      (write_names (dle_involved_entities e) (at_next_id db) ?ts)"
    unfolding write_names_def by (rule does_each) (rule does_statement)
  then obtain c' where c': "sql_each (\<lambda>n. sql_statement never_fails (insert_entity n (at_next_id db) ?ts)) (dle_involved_entities e) ?c = (Inr (), c')"
      "cn_pending c' = Some (write_names (dle_involved_entities e) (at_next_id db) ?ts ?db)" "cn_committed c' = cn_committed ?c"
    by (rule doesE [where c = ?c and db = ?db]) simp_all
  have "sql_statement never_fails (insert_log ?ts (dle_event_summary e) (or_brackets (aj_print_decisions aj (dle_decisions e)))
      (or_brackets (aj_print_actions aj (dle_actions_emitted e)))) c = (Inr (Some (at_next_id db)), ?c)"
    using p by (simp add: sql_statement_def visible_tables_def store_tables_def insert_log_def row_of_entry_def)
  with c' show "\<exists>c'. insert_entry aj never_fails e c = (Inr (), c') \<and> cn_pending c' = Some (write_entry aj e db) \<and> cn_committed c' = cn_committed c"
    by (simp add: insert_entry_def Let_def sql_then_def write_entry_def)
qed

lemma flush_works:
  assumes "cn_pending c = None"
  obtains c' where "flush_batch aj never_fails batch c = (Inr (), c')" "cn_pending c' = None"
    "cn_committed c' = fold (write_entry aj) batch (cn_committed c)"
proof (cases "batch = []")
  case True
  then show ?thesis using that [of c] assms by (simp add: flush_batch_def sql_return_def)
next
  case False
  let ?c = "c\<lparr>cn_issued := Suc (cn_issued c), cn_pending := Some (cn_committed c)\<rparr>"
  have b: "sql_begin never_fails c = (Inr (), ?c)" using assms by (simp add: sql_begin_def)
  have "does (insert_batch aj never_fails batch) (fold (write_entry aj) batch)"
    unfolding insert_batch_def by (rule does_each) (rule does_insert_entry)
  then obtain c1 where c1: "insert_batch aj never_fails batch ?c = (Inr (), c1)"
      "cn_pending c1 = Some (fold (write_entry aj) batch (cn_committed c))"
    by (rule doesE [where c = ?c and db = "cn_committed c"]) simp_all
  show ?thesis
    by (rule that [of "c1\<lparr>cn_issued := Suc (cn_issued c1), cn_committed := fold (write_entry aj) batch (cn_committed c), cn_pending := None\<rparr>"])
      (use False b c1 in \<open>simp_all add: flush_batch_def sql_then_def sql_commit_def\<close>)
qed

fun received :: "writer_input list \<Rightarrow> decision_log_entry list" where
  "received [] = []"
| "received (EntryReceived e # is) = e # received is"
| "received (_ # is) = received is"

lemma received_append: "received (is @ js) = received is @ received js"
  by (induction "is" rule: received.induct) auto

text \<open>What the writer has committed, followed by what it still buffers, is what it received.\<close>

definition writer_holds :: "audit_json \<Rightarrow> audit_tables \<Rightarrow> decision_log_entry list \<Rightarrow> writer \<Rightarrow> bool" where
  "writer_holds aj t es w =
     (\<not> wr_stopped w \<and> cn_pending (wr_conn w) = None \<and>
      fold (write_entry aj) (wr_buf w) (cn_committed (wr_conn w)) = fold (write_entry aj) es t)"

lemma flush_holds:
  assumes "writer_holds aj t es w"
  shows "writer_holds aj t es (flush_buffer aj never_fails w) \<and> wr_buf (flush_buffer aj never_fails w) = []"
proof -
  obtain c' where "flush_batch aj never_fails (wr_buf w) (wr_conn w) = (Inr (), c')" "cn_pending c' = None"
      "cn_committed c' = fold (write_entry aj) (wr_buf w) (cn_committed (wr_conn w))"
    using flush_works assms unfolding writer_holds_def by blast
  with assms show ?thesis by (simp add: writer_holds_def flush_buffer_def)
qed

lemma step_holds:
  assumes "writer_holds aj t es w" and "i \<noteq> QueueClosed"
  shows "writer_holds aj t (es @ received [i]) (writer_step aj never_fails conf i w)"
proof (cases i)
  case (EntryReceived e)
  let ?w = "w\<lparr>wr_buf := wr_buf w @ [e]\<rparr>"
  have "writer_holds aj t (es @ [e]) ?w" using assms(1) by (simp add: writer_holds_def)
  with flush_holds [OF this] EntryReceived assms(1) show ?thesis
    by (auto simp: writer_step_def Let_def writer_holds_def)
next
  case IntervalElapsed
  then show ?thesis using assms(1) flush_holds [OF assms(1)] by (auto simp: writer_step_def writer_holds_def)
qed (use assms(2) in simp)

lemma run_holds:
  "writer_holds aj t es w \<Longrightarrow> QueueClosed \<notin> set is \<Longrightarrow> writer_holds aj t (es @ received is) (writer_run aj never_fails conf is w)"
proof (induction "is" arbitrary: es w)
  case (Cons i "is")
  have "writer_holds aj t (es @ received [i]) (writer_step aj never_fails conf i w)"
    using step_holds Cons.prems by fastforce
  from Cons.IH [OF this] Cons.prems received_append [of "[i]" "is"] show ?case by (simp add: writer_run_def)
qed (simp add: writer_run_def)

text \<open>Batching is invisible: when the queue closes, the tables hold every entry as if each had been
  written on its own, in order.\<close>

lemma writer_commits_everything:
  assumes "QueueClosed \<notin> set is"
  shows "cn_committed (wr_conn (writer_run aj never_fails conf (is @ [QueueClosed]) (writer_new t))) = fold (write_entry aj) (received is) t"
proof -
  have "writer_holds aj t [] (writer_new t)" by (simp add: writer_holds_def writer_new_def connect_def)
  from run_holds [OF this assms, of conf] have h: "writer_holds aj t (received is) (writer_run aj never_fails conf is (writer_new t))" by simp
  let ?w = "flush_buffer aj never_fails (writer_run aj never_fails conf is (writer_new t))"
  have a: "fold (write_entry aj) (wr_buf ?w) (cn_committed (wr_conn ?w)) = fold (write_entry aj) (received is) t" and b: "wr_buf ?w = []"
    using flush_holds [OF h] unfolding writer_holds_def by blast+
  have "cn_committed (wr_conn ?w) = fold (write_entry aj) (received is) t" using a unfolding b by simp
  moreover have "writer_run aj never_fails conf (is @ [QueueClosed]) (writer_new t) = ?w\<lparr>wr_stopped := True\<rparr>"
    using h by (simp add: writer_run_def writer_step_def writer_holds_def)
  ultimately show ?thesis by simp
qed

section \<open>What the tables hold\<close>

definition entity_rows :: "string \<Rightarrow> audit_tables \<Rightarrow> index_row list" where
  "entity_rows n t = filter (\<lambda>ix. ix_entity ix = n) (at_index t)"

lemma insert_entity_simps [simp]:
  "at_log (snd (insert_entity n i ts t)) = at_log t"
  "at_next_id (snd (insert_entity n i ts t)) = at_next_id t"
  by (simp_all add: insert_entity_def)

lemma write_names_simps [simp]:
  "at_log (write_names ns i ts t) = at_log t" "at_next_id (write_names ns i ts t) = at_next_id t"
  unfolding write_names_def by (induction ns arbitrary: t) simp_all

lemma insert_entity_rows:
  "entity_rows m (snd (insert_entity n i ts t)) =
     entity_rows m t @ (if m = n \<and> i \<notin> ix_log_id ` set (entity_rows n t) then [\<lparr>ix_entity = n, ix_log_id = i, ix_ts_ms = ts\<rparr>] else [])"
  by (auto simp: insert_entity_def entity_rows_def list_ex_iff)

lemma write_names_rows:
  "entity_rows m (write_names ns i ts t) =
     entity_rows m t @ (if m \<in> set ns \<and> i \<notin> ix_log_id ` set (entity_rows m t) then [\<lparr>ix_entity = m, ix_log_id = i, ix_ts_ms = ts\<rparr>] else [])"
proof (induction ns arbitrary: t)
  case (Cons n ns)
  have "write_names (n # ns) i ts t = write_names ns i ts (snd (insert_entity n i ts t))" by (simp add: write_names_def)
  then show ?case using Cons [of "snd (insert_entity n i ts t)"] by (auto simp: insert_entity_rows)
qed (simp add: write_names_def)

lemma write_entry_simps [simp]:
  "at_log (write_entry aj e t) = at_log t @ [row_of_entry aj (at_next_id t) e]"
  "at_next_id (write_entry aj e t) = at_next_id t + 1"
  by (simp_all add: write_entry_def)

lemma write_entry_rows:
  assumes "at_next_id t \<notin> ix_log_id ` set (entity_rows n t)"
  shows "entity_rows n (write_entry aj e t) = entity_rows n t @ (if n \<in> set (dle_involved_entities e)
    then [\<lparr>ix_entity = n, ix_log_id = at_next_id t, ix_ts_ms = as_i64 (dle_timestamp_epoch_ms e)\<rparr>] else [])"
proof -
  let ?t = "t\<lparr>at_log := at_log t @ [row_of_entry aj (at_next_id t) e], at_next_id := at_next_id t + 1\<rparr>"
  have "entity_rows n ?t = entity_rows n t" by (simp add: entity_rows_def)
  then show ?thesis using assms by (simp add: write_entry_def write_names_rows)
qed

text \<open>The entries with the ids they get, and what the index holds for a name.\<close>

definition numbered_entries :: "decision_log_entry list \<Rightarrow> (int \<times> decision_log_entry) list" where
  "numbered_entries es = map (\<lambda>(k, e). (int k + 1, e)) (List.enumerate 0 es)"

definition index_row_of :: "string \<Rightarrow> int \<times> decision_log_entry \<Rightarrow> index_row" where
  "index_row_of n ie = \<lparr>ix_entity = n, ix_log_id = fst ie, ix_ts_ms = as_i64 (dle_timestamp_epoch_ms (snd ie))\<rparr>"

definition involving :: "string \<Rightarrow> decision_log_entry list \<Rightarrow> (int \<times> decision_log_entry) list" where
  "involving n es = filter (\<lambda>(_, e). n \<in> set (dle_involved_entities e)) (numbered_entries es)"

lemma numbered_snoc: "numbered_entries (es @ [e]) = numbered_entries es @ [(int (length es) + 1, e)]"
  by (simp add: numbered_entries_def enumerate_append_eq)

lemma numbered_ids: "ie \<in> set (numbered_entries es) \<Longrightarrow> fst ie < int (length es) + 1"
  by (auto simp: numbered_entries_def in_set_enumerate_eq)

lemma written_tables:
  "let t = fold (write_entry aj) es audit_new in
   at_next_id t = int (length es) + 1 \<and> at_log t = map (\<lambda>(i, e). row_of_entry aj i e) (numbered_entries es) \<and>
   (\<forall>n. entity_rows n t = map (index_row_of n) (involving n es))"
proof (induction es rule: rev_induct)
  case Nil
  then show ?case by (simp add: audit_new_def numbered_entries_def entity_rows_def involving_def)
next
  case (snoc e es)
  let ?t = "fold (write_entry aj) es audit_new"
  have IH: "at_next_id ?t = int (length es) + 1" "at_log ?t = map (\<lambda>(i, e). row_of_entry aj i e) (numbered_entries es)"
      "\<And>n. entity_rows n ?t = map (index_row_of n) (involving n es)"
    using snoc by (simp_all add: Let_def)
  have fresh: "int (length es) + 1 \<notin> ix_log_id ` set (entity_rows n ?t)" for n
  proof
    assume "int (length es) + 1 \<in> ix_log_id ` set (entity_rows n ?t)"
    then obtain ie where "ie \<in> set (involving n es)" "fst ie = int (length es) + 1" by (auto simp: IH(3) index_row_of_def)
    then show False using numbered_ids [of ie es] by (auto simp: involving_def)
  qed
  have "entity_rows n (write_entry aj e ?t) = map (index_row_of n) (involving n (es @ [e]))" for n
    using write_entry_rows [of ?t n aj e] fresh [of n] by (simp add: IH involving_def numbered_snoc index_row_of_def)
  then show ?case using IH by (simp add: numbered_snoc)
qed

section \<open>The query finds what was written\<close>

text \<open>\<open>ORDER BY ts_ms DESC\<close>.\<close>

definition newest_first :: "row_order \<Rightarrow> bool" where
  "newest_first order = (\<forall>xs. mset (order xs) = mset xs \<and> sorted_wrt (\<lambda>a b. ix_ts_ms a \<ge> ix_ts_ms b) (order xs))"

text \<open>What the popup shows of an entry.\<close>

definition shown_dto :: "log_entry_dto \<Rightarrow> int \<times> string \<times> string list \<times> action_dto list" where
  "shown_dto d = (led_timestamp_epoch_ms d, led_event_summary d, led_decisions d, led_actions_emitted d)"

definition shown_entry :: "decision_log_entry \<Rightarrow> int \<times> string \<times> string list \<times> action_dto list" where
  "shown_entry e = (as_i64 (dle_timestamp_epoch_ms e), dle_event_summary e, dle_decisions e, dle_actions_emitted e)"

definition json_keeps :: "audit_json \<Rightarrow> decision_log_entry \<Rightarrow> bool" where
  "json_keeps aj e =
     (aj_read_decisions aj (or_brackets (aj_print_decisions aj (dle_decisions e))) = Some (dle_decisions e) \<and>
      aj_read_actions aj (or_brackets (aj_print_actions aj (dle_actions_emitted e))) = Some (dle_actions_emitted e))"

lemma find_row:
  assumes "(i, e) \<in> set (numbered_entries es)"
  shows "find (\<lambda>r. ar_id r = i) (map (\<lambda>(i, e). row_of_entry aj i e) (numbered_entries es)) = Some (row_of_entry aj i e)"
proof -
  have unique: "e' = e" if "(i, e') \<in> set (numbered_entries es)" for e'
    using that assms by (auto simp: numbered_entries_def in_set_enumerate_eq)
  have "find (\<lambda>r. ar_id r = i) (map (\<lambda>(i, e). row_of_entry aj i e) xs) = Some (row_of_entry aj i e)"
    if "(i, e) \<in> set xs" "set xs \<subseteq> set (numbered_entries es)" for xs
    using that by (induction xs) (auto simp: row_of_entry_def dest: unique)
  then show ?thesis using assms by blast
qed

lemma as_i64_small: "n < 2 ^ 63 \<Longrightarrow> as_i64 n = int n"
  by (simp add: as_i64_def signed_take_bit_int_eq_self)

lemma map_filter_map: "(\<And>x. x \<in> set xs \<Longrightarrow> f x = Some (g x)) \<Longrightarrow> List.map_filter f xs = map g xs"
  by (induction xs) (simp_all add: List.map_filter_simps)

lemma snd_numbered: "map snd (numbered_entries es) = es"
  by (simp add: numbered_entries_def comp_def case_prod_beta)

lemma involving_entries: "map snd (involving n es) = filter (\<lambda>e. n \<in> set (dle_involved_entities e)) es"
proof -
  have "map snd (involving n es) = filter (\<lambda>e. n \<in> set (dle_involved_entities e)) (map snd (numbered_entries es))"
    by (simp add: involving_def filter_map comp_def split_def)
  then show ?thesis by (simp add: snd_numbered)
qed

text \<open>The log row of an index row, and entries that survive the trip through JSON and the 64-bit clock.\<close>

definition joined_row :: "audit_tables \<Rightarrow> index_row \<Rightarrow> audit_row" where
  "joined_row t ix = the (find (\<lambda>r. ar_id r = ix_log_id ix) (at_log t))"

definition entry_kept :: "audit_json \<Rightarrow> decision_log_entry \<Rightarrow> bool" where
  "entry_kept aj e = (json_keeps aj e \<and> dle_timestamp_epoch_ms e < 2 ^ 63 - 1)"

lemma written_index:
  assumes "t = fold (write_entry aj) es audit_new"
  shows "entity_rows n t = map (index_row_of n) (involving n es)"
  using written_tables [of aj es] assms by (simp add: Let_def)

lemma written_join:
  assumes "t = fold (write_entry aj) es audit_new" and "(i, e) \<in> set (involving n es)"
  shows "find (\<lambda>r. ar_id r = i) (at_log t) = Some (row_of_entry aj i e)"
  using written_tables [of aj es] find_row [of i e es aj] assms by (simp add: Let_def involving_def)

lemma involving_kept:
  assumes "\<forall>e \<in> set es. entry_kept aj e" and ie: "(i, e) \<in> set (involving n es)"
  shows "json_keeps aj e \<and> as_i64 (dle_timestamp_epoch_ms e) < I64_MAX"
proof -
  have "e \<in> set es" using imageI [OF ie, of snd] involving_entries [of n es] by (auto simp flip: set_map)
  then show ?thesis using assms(1) by (auto simp: entry_kept_def as_i64_small I64_MAX_def)
qed

lemma written_rows:
  assumes t: "t = fold (write_entry aj) es audit_new" and kept: "\<forall>e \<in> set es. entry_kept aj e" and ix: "ix \<in> set (entity_rows n t)"
  shows "find (\<lambda>r. ar_id r = ix_log_id ix) (at_log t) = Some (joined_row t ix) \<and> ix_ts_ms ix < I64_MAX \<and>
    led_timestamp_epoch_ms (dto_of_row aj (joined_row t ix)) = ix_ts_ms ix"
proof -
  obtain i e where ie: "(i, e) \<in> set (involving n es)" "ix = index_row_of n (i, e)" using ix by (auto simp: written_index [OF t])
  then show ?thesis using written_join [OF t ie(1)] involving_kept [OF kept ie(1)]
    by (simp add: joined_row_def index_row_of_def dto_of_row_def row_of_entry_def)
qed

lemma written_shown:
  assumes t: "t = fold (write_entry aj) es audit_new" and kept: "\<forall>e \<in> set es. entry_kept aj e"
  shows "image_mset (\<lambda>ix. shown_dto (dto_of_row aj (joined_row t ix))) (mset (entity_rows n t)) =
    mset (map shown_entry (filter (\<lambda>e. n \<in> set (dle_involved_entities e)) es))"
proof -
  have "shown_dto (dto_of_row aj (joined_row t (index_row_of n ie))) = shown_entry (snd ie)" if "ie \<in> set (involving n es)" for ie
    using written_join [OF t, of "fst ie" "snd ie" n] involving_kept [OF kept, of "fst ie" "snd ie" n] that
    by (simp add: joined_row_def index_row_of_def shown_dto_def shown_entry_def dto_of_row_def row_of_entry_def json_keeps_def)
  then have "image_mset (\<lambda>ix. shown_dto (dto_of_row aj (joined_row t ix))) (mset (entity_rows n t)) = mset (map shown_entry (map snd (involving n es)))"
    unfolding written_index [OF t] by (auto simp: multiset.map_comp comp_def intro!: image_mset_cong)
  then show ?thesis by (simp only: involving_entries)
qed

lemma fetch_written:
  assumes t: "t = fold (write_entry aj) es audit_new" and kept: "\<forall>e \<in> set es. entry_kept aj e" and order: "newest_first order"
  shows "fst (fetch_log aj order never_fails n None limit (connect t)) =
    Inr (take (clamp_limit (case limit of None \<Rightarrow> DEFAULT_LIMIT | Some k \<Rightarrow> k))
      (map (\<lambda>ix. dto_of_row aj (joined_row t ix)) (order (entity_rows n t))))"
proof -
  note row = written_rows [OF t kept, of _ n]
  have "set (order (entity_rows n t)) = set (entity_rows n t)" using order unfolding newest_first_def by (blast dest: mset_eq_setD)
  then have "List.map_filter (\<lambda>ix. find (\<lambda>r. ar_id r = ix_log_id ix) (at_log t)) (order (entity_rows n t)) = map (joined_row t) (order (entity_rows n t))"
    by (intro map_filter_map) (use row in blast)
  moreover have "filter (\<lambda>ix. ix_entity ix = n \<and> ix_ts_ms ix < I64_MAX) (at_index t) = entity_rows n t"
    unfolding entity_rows_def using row by (intro filter_cong) (auto simp: entity_rows_def)
  ultimately show ?thesis
    by (simp add: fetch_log_def sql_then_def sql_statement_def sql_return_def query_by_entity_def visible_tables_def connect_def take_map comp_def)
qed


text \<open>An evening with two entries in one transaction, on a database that keeps equal times as they were.\<close>

definition stable_order :: row_order where
  "stable_order = sort_key (\<lambda>ix. - ix_ts_ms ix)"

lemma stable_newest_first: "newest_first stable_order"
proof -
  have "sorted_wrt (\<lambda>a b. ix_ts_ms a \<ge> ix_ts_ms b) (stable_order xs)" for xs
    using sorted_sort_key [of "\<lambda>ix. - ix_ts_ms ix" xs] by (simp add: stable_order_def sorted_map)
  then show ?thesis by (simp add: newest_first_def stable_order_def)
qed

definition plain_json :: audit_json where
  "plain_json = \<lparr>aj_print_decisions = \<lambda>_. None, aj_print_actions = \<lambda>_. None, aj_read_decisions = \<lambda>_. Some [], aj_read_actions = \<lambda>_. Some []\<rparr>"

definition evening_entry :: "64 word \<Rightarrow> u64 \<Rightarrow> decision_log_entry" where
  "evening_entry k ts = \<lparr>dle_seq = k, dle_timestamp_epoch_ms = ts, dle_event_summary = ''tick'', dle_decisions = [],
     dle_actions_emitted = [], dle_involved_entities = [''hall'', ''lamp'']\<rparr>"

definition small_batches :: audit_config where
  "small_batches = \<lparr>ac_path = ''audit.db'', ac_retention_days = 30, ac_per_entity_max_rows = 2000, ac_flush_interval_ms = 5000,
     ac_flush_max_rows = 2, ac_sweep_interval_secs = 3600\<rparr>"


section \<open>Pages\<close>

definition hall_log :: audit_tables where
  "hall_log = fold (write_entry plain_json) [evening_entry 1 1000, evening_entry 2 1000] audit_new"

text \<open>Two entries of one millisecond: the first page of size one shows one of them, and the page that the
  protocol asks for next, with the time of the oldest entry shown, is empty. The other is never shown.\<close>

lemma page_cursor_skips_entry:
  "map_sum id (map led_id) (fst (fetch_log plain_json stable_order never_fails ''hall'' None (Some 1) (connect hall_log))) = Inr [1] \<and>
   fst (fetch_log plain_json stable_order never_fails ''hall'' (Some 1000) (Some 1) (connect hall_log)) = Inr [] \<and>
   map ar_id (at_log hall_log) = [1, 2]"
  by code_simp

section \<open>Retention\<close>

text \<open>The primary keys of the two tables.\<close>

definition audit_keys_ok :: "audit_tables \<Rightarrow> bool" where
  "audit_keys_ok t = distinct (map (\<lambda>ix. (ix_entity ix, ix_log_id ix)) (at_index t))"

lemma entity_ids_distinct: "audit_keys_ok t \<Longrightarrow> distinct (map ix_log_id (entity_rows n t))"
proof -
  assume "audit_keys_ok t"
  then have "inj_on (\<lambda>ix. (ix_entity ix, ix_log_id ix)) (set (at_index t))" and d: "distinct (at_index t)"
    by (simp_all add: audit_keys_ok_def distinct_map)
  then have "inj_on ix_log_id (set (entity_rows n t))" by (auto simp: entity_rows_def inj_on_def)
  then show ?thesis using d by (simp add: distinct_map entity_rows_def)
qed

definition trimmed :: "row_order \<Rightarrow> nat \<Rightarrow> string \<Rightarrow> audit_tables \<Rightarrow> audit_tables" where
  "trimmed order cap n t = snd (trim_entity_index order cap n t)"

lemma trimmed_log [simp]: "at_log (trimmed order cap n t) = at_log t"
  by (simp add: trimmed_def trim_entity_index_def Let_def)

lemma trimmed_other: "m \<noteq> n \<Longrightarrow> entity_rows m (trimmed order cap n t) = entity_rows m t"
  by (auto simp: trimmed_def trim_entity_index_def Let_def entity_rows_def intro!: filter_cong)

lemma trimmed_rows:
  "entity_rows n (trimmed order cap n t) = filter (\<lambda>ix. ix_log_id ix \<in> ix_log_id ` set (take cap (order (entity_rows n t)))) (entity_rows n t)"
  by (auto simp: trimmed_def trim_entity_index_def Let_def entity_rows_def intro!: filter_cong)

lemma trimmed_keys: "audit_keys_ok t \<Longrightarrow> audit_keys_ok (trimmed order cap n t)"
  by (simp add: trimmed_def trim_entity_index_def Let_def audit_keys_ok_def distinct_map_filter)

text \<open>At most \<open>cap\<close> rows stay, and every row that goes is older than every row that stays.\<close>

definition kept_newest :: "nat \<Rightarrow> index_row list \<Rightarrow> index_row list \<Rightarrow> bool" where
  "kept_newest cap before after =
     (length after \<le> cap \<and> (length before \<le> cap \<longrightarrow> after = before) \<and> set after \<subseteq> set before \<and>
      (\<forall>a \<in> set after. \<forall>b \<in> set before - set after. ix_ts_ms b \<le> ix_ts_ms a))"

lemma trimmed_newest:
  assumes "newest_first order" and "audit_keys_ok t"
  shows "kept_newest cap (entity_rows n t) (entity_rows n (trimmed order cap n t))"
proof -
  let ?rows = "entity_rows n t"
  let ?top = "take cap (order ?rows)"
  have m: "mset (order ?rows) = mset ?rows" and s: "sorted_wrt (\<lambda>a b. ix_ts_ms a \<ge> ix_ts_ms b) (order ?rows)"
    using assms(1) by (simp_all add: newest_first_def)
  have rows: "set (order ?rows) = set ?rows" "length (order ?rows) = length ?rows" using m mset_eq_setD mset_eq_length by blast+
  have d: "distinct (map ix_log_id ?rows)" using entity_ids_distinct [OF assms(2)] .
  have top: "set ?top \<subseteq> set ?rows" using set_take_subset [of cap "order ?rows"] rows(1) by simp
  have kept: "ix_log_id ix \<in> ix_log_id ` set ?top \<longleftrightarrow> ix \<in> set ?top" if "ix \<in> set ?rows" for ix
    using d that top by (auto simp: distinct_map inj_on_def)
  then have after: "entity_rows n (trimmed order cap n t) = filter (\<lambda>ix. ix \<in> set ?top) ?rows"
    unfolding trimmed_rows by (auto intro: filter_cong)
  have "distinct ?rows" using d by (simp add: distinct_map)
  then have "length (filter (\<lambda>ix. ix \<in> set ?top) ?rows) = card (set ?rows \<inter> set ?top)"
    by (simp add: distinct_length_filter Int_commute)
  also have "\<dots> \<le> length ?top" by (meson card_length card_mono finite_set Int_lower2 le_trans)
  finally have "length (filter (\<lambda>ix. ix \<in> set ?top) ?rows) \<le> cap" by simp
  moreover have "filter (\<lambda>ix. ix \<in> set ?top) ?rows = ?rows" if "length ?rows \<le> cap"
    using that rows by (simp add: filter_id_conv)
  moreover have "ix_ts_ms b \<le> ix_ts_ms a" if a: "a \<in> set ?top" and b: "b \<in> set ?rows" "b \<notin> set ?top" for a b
  proof -
    have "b \<in> set (drop cap (order ?rows))" using b rows(1) set_append [of ?top "drop cap (order ?rows)"] by (auto simp del: set_append)
    moreover have "sorted_wrt (\<lambda>a b. ix_ts_ms a \<ge> ix_ts_ms b) (?top @ drop cap (order ?rows))" using s by simp
    ultimately show ?thesis using a unfolding sorted_wrt_append by blast
  qed
  ultimately show ?thesis unfolding kept_newest_def after by auto
qed

lemma statement_succeeds:
  assumes "sql_statement fails f c = (Inr x, c')" and "cn_pending c = None"
  shows "x = fst (f (cn_committed c)) \<and> cn_committed c' = snd (f (cn_committed c)) \<and> cn_pending c' = None"
  using assms by (auto simp: sql_statement_def visible_tables_def store_tables_def Let_def case_prod_beta split: option.splits)

lemma thenE:
  assumes "sql_then m k c = (Inr x, c')"
  obtains y c1 where "m c = (Inr y, c1)" "k y c1 = (Inr x, c')"
  using assms by (auto simp: sql_then_def split: prod.splits sum.splits)

lemma each_succeeds:
  assumes "sql_each (\<lambda>x. sql_statement fails (f x)) xs c = (Inr (), c')" and "cn_pending c = None"
  shows "cn_committed c' = fold (\<lambda>x t. snd (f x t)) xs (cn_committed c) \<and> cn_pending c' = None"
  using assms
proof (induction xs arbitrary: c)
  case (Cons x xs)
  then obtain y c1 where c1: "sql_statement fails (f x) c = (Inr y, c1)" "sql_each (\<lambda>x. sql_statement fails (f x)) xs c1 = (Inr (), c')"
    by (auto elim: thenE)
  then show ?case using statement_succeeds [OF c1(1) Cons.prems(2)] Cons.IH [OF c1(2)] by simp
qed (simp add: sql_return_def)

lemma trim_fold:
  "distinct ns \<Longrightarrow> at_log (fold (trimmed order cap) ns t) = at_log t \<and>
   entity_rows m (fold (trimmed order cap) ns t) = (if m \<in> set ns then entity_rows m (trimmed order cap m t) else entity_rows m t)"
proof (induction ns arbitrary: t)
  case (Cons n ns)
  have "entity_rows m (trimmed order cap m (trimmed order cap n t)) = entity_rows m (trimmed order cap m t)" if "m \<noteq> n"
    unfolding trimmed_rows trimmed_other [OF that] ..
  with Cons show ?case by (auto simp: trimmed_other)
qed simp

definition outlived :: "int \<Rightarrow> audit_tables \<Rightarrow> index_row \<Rightarrow> bool" where
  "outlived cutoff t ix = (\<exists>r \<in> set (at_log t). ar_id r = ix_log_id ix \<and> ar_ts_ms r < cutoff)"

lemma outlived_ids: "outlived cutoff t ix \<longleftrightarrow> ix_log_id ix \<in> set (map ar_id (filter (\<lambda>r. ar_ts_ms r < cutoff) (at_log t)))"
  by (auto simp: outlived_def image_iff eq_commute)

lemma delete_old_effect:
  "at_log (snd (delete_old_logs cutoff t)) = filter (\<lambda>r. cutoff \<le> ar_ts_ms r) (at_log t)"
  "entity_rows n (snd (delete_old_logs cutoff t)) = filter (\<lambda>ix. \<not> outlived cutoff t ix) (entity_rows n t)"
  "audit_keys_ok t \<Longrightarrow> audit_keys_ok (snd (delete_old_logs cutoff t))"
  unfolding delete_old_logs_def Let_def entity_rows_def outlived_ids audit_keys_ok_def
  by (simp_all add: not_less distinct_map_filter conj_commute del: set_map set_filter)

text \<open>C20: A completed retention sweep leaves exactly the log rows inside the time window, and for every name at most the
  configured number of index rows. Among those of a name that are inside the window only the oldest are given up, and
  none when they fit.\<close>

theorem retention_keeps_the_newest:
  assumes "newest_first order" and "audit_keys_ok t" and "sweep_audit order fails conf now_ms (connect t) = (Inr (), c')"
    and "cutoff = now_ms - int (ac_retention_days conf) * DAY_MS"
  shows "at_log (cn_committed c') = filter (\<lambda>r. cutoff \<le> ar_ts_ms r) (at_log t) \<and>
    kept_newest (ac_per_entity_max_rows conf) (filter (\<lambda>ix. \<not> outlived cutoff t ix) (entity_rows n t)) (entity_rows n (cn_committed c'))"
proof -
  let ?cap = "ac_per_entity_max_rows conf"
  let ?young = "snd (delete_old_logs cutoff t)"
  have p: "cn_pending (connect t) = None" "cn_committed (connect t) = t" by (simp_all add: connect_def)
  obtain u c1 where c1: "sql_statement fails (delete_old_logs cutoff) (connect t) = (Inr u, c1)"
      "sql_then (sql_statement fails list_entities) (sql_each (\<lambda>n. sql_statement fails (trim_entity_index order ?cap n))) c1 = (Inr (), c')"
    using assms(3) unfolding sweep_audit_def Let_def assms(4) [symmetric] by (rule thenE)
  have t1: "cn_committed c1 = ?young" "cn_pending c1 = None" using statement_succeeds [OF c1(1) p(1)] p(2) by simp_all
  obtain ns c2 where c2: "sql_statement fails list_entities c1 = (Inr ns, c2)"
      "sql_each (\<lambda>n. sql_statement fails (trim_entity_index order ?cap n)) ns c2 = (Inr (), c')"
    using c1(2) by (rule thenE)
  have t2: "ns = remdups (map ix_entity (at_index ?young))" "cn_committed c2 = ?young" "cn_pending c2 = None"
    using statement_succeeds [OF c2(1) t1(2)] t1(1) by (simp_all add: list_entities_def)
  have "cn_committed c' = fold (trimmed order ?cap) ns ?young"
    using each_succeeds [OF c2(2) t2(3)] t2(2) unfolding trimmed_def by simp
  then have final: "at_log (cn_committed c') = at_log ?young"
      "entity_rows n (cn_committed c') = (if n \<in> set ns then entity_rows n (trimmed order ?cap n ?young) else entity_rows n ?young)"
    using trim_fold [of ns order ?cap ?young n] t2(1) by simp_all
  have "entity_rows n ?young = []" if "n \<notin> set ns"
    using that by (auto simp: t2(1) entity_rows_def filter_empty_conv)
  then have "kept_newest ?cap (entity_rows n ?young) (entity_rows n (cn_committed c'))"
    using final(2) trimmed_newest [OF assms(1) delete_old_effect(3) [OF assms(2)]] by (auto simp: kept_newest_def)
  then show ?thesis using final(1) by (simp add: delete_old_effect)
qed

definition keep_one :: audit_config where
  "keep_one = small_batches\<lparr>ac_retention_days := 0, ac_per_entity_max_rows := 1\<rparr>"

theorem retention_keeps_the_newest_witness:
  "at_log (cn_committed (snd (sweep_audit stable_order never_fails keep_one 1000 (connect hall_log)))) =
     filter (\<lambda>r. 1000 \<le> ar_ts_ms r) (at_log hall_log) \<and>
   kept_newest (ac_per_entity_max_rows keep_one) (filter (\<lambda>ix. \<not> outlived 1000 hall_log ix) (entity_rows ''hall'' hall_log))
     (entity_rows ''hall'' (cn_committed (snd (sweep_audit stable_order never_fails keep_one 1000 (connect hall_log)))))"
proof (rule retention_keeps_the_newest [OF stable_newest_first])
  show "audit_keys_ok hall_log" by code_simp
  show "sweep_audit stable_order never_fails keep_one 1000 (connect hall_log) =
      (Inr (), snd (sweep_audit stable_order never_fails keep_one 1000 (connect hall_log)))"
    by code_simp
  show "1000 = 1000 - int (ac_retention_days keep_one) * DAY_MS" by (simp add: keep_one_def)
qed

section \<open>A commit that fails\<close>

text \<open>A batch whose statements fail is rolled back; a failed \<open>COMMIT\<close> is not. It leaves the transaction
  open, and on the same connection every later batch fails to begin one, so that nothing is
  written any more.\<close>

lemma failed_commit_blocks_the_writer:
  assumes "cn_pending c = Some db" and "batch \<noteq> []" and "fails (cn_issued c) = None"
  shows "\<exists>e. flush_batch aj fails batch c = (Inl e, c\<lparr>cn_issued := Suc (cn_issued c)\<rparr>)"
  using assms by (simp add: flush_batch_def sql_then_def sql_begin_def)

lemma commit_failure_stays_open:
  "fst (flush_batch plain_json (\<lambda>k. if k = 4 then Some ''disk full'' else None) [evening_entry 1 1000] (connect audit_new)) = Inl ''disk full'' \<and>
   cn_pending (snd (flush_batch plain_json (\<lambda>k. if k = 4 then Some ''disk full'' else None) [evening_entry 1 1000] (connect audit_new))) \<noteq> None"
  by code_simp

end
