(* ===== verification/History.thy ===== *)
theory History
  imports AuditLog Snapshot
begin

text \<open>
  The telemetry history (\<open>web/history.rs\<close>): once a minute the sampler takes a snapshot and stores a
  point per relay set, valve and plug, keeping a day; dashboards fetch the points of a device and
  the energy estimated from them. A table is the ordered map from its primary key to the JSON text
  of the point. How points are printed and read is the record \<open>point_json\<close>.
\<close>

section \<open>Points\<close>

record valve_history_point =
  vhp_timestamp_epoch_ms :: int
  vhp_observed_at_epoch_ms :: "int option"
  vhp_local_temperature :: "f64 option"
  vhp_reported_setpoint :: "f64 option"
  vhp_target :: "trv_target_value option"
  vhp_heating_demand :: "u8 option"
  vhp_running_state :: trv_running_state
  vhp_battery :: "u8 option"
  vhp_freshness :: string

record plug_power_history_point =
  php_timestamp_epoch_ms :: int
  php_power_watts :: "f64 option"
  php_freshness :: string

record relay_reading =
  rr_zone :: string
  rr_device :: string
  rr_on :: "bool option"
  rr_freshness :: string

record heating_energy_point =
  hep_timestamp_epoch_ms :: int
  hep_relays :: "relay_reading list"
  hep_heat_pump :: "power_meter_reading option"

text \<open>\<open>ValveSample\<close> and \<open>PlugPowerSample\<close>: a device and its point.\<close>

type_synonym 'p device_sample = "string \<times> 'p"

definition HISTORY_WINDOW_MS :: int where
  "HISTORY_WINDOW_MS = 24 * 60 * 60 * 1000"

definition SAMPLE_INTERVAL_SECS :: int where
  "SAMPLE_INTERVAL_SECS = 60"

definition MAX_ENERGY_SAMPLE_GAP_MS :: int where
  "MAX_ENERGY_SAMPLE_GAP_MS = 90000"

definition WATT_MILLISECONDS_PER_KWH :: f64 where
  "WATT_MILLISECONDS_PER_KWH = 3600000000"

section \<open>Sampling a snapshot\<close>

text \<open>64-bit arithmetic: wrapping, and saturating.\<close>

definition wrap_i64 :: "int \<Rightarrow> int" where
  "wrap_i64 i = signed_take_bit 63 i"

definition saturate_i64 :: "int \<Rightarrow> int" where
  "saturate_i64 i = max (- (2 ^ 63)) (min I64_MAX i)"

definition sample_bucket :: "int \<Rightarrow> int" where
  "sample_bucket timestamp = wrap_i64 (timestamp div (SAMPLE_INTERVAL_SECS * 1000) * SAMPLE_INTERVAL_SECS * 1000)"

definition relay_reading_of :: "heating_zone_snapshot \<Rightarrow> relay_reading" where
  "relay_reading_of z =
     \<lparr>rr_zone = zsn_name z, rr_device = zsn_relay_device z,
      rr_on = (if zsn_relay_state_known z then Some (zsn_relay_on z) else None),
      rr_freshness = (if \<not> zsn_relay_state_known z then ''unknown'' else if zsn_relay_stale z then ''stale'' else ''fresh'')\<rparr>"

definition heating_energy_sample :: "full_state_snapshot \<Rightarrow> heating_energy_point" where
  "heating_energy_sample snap =
     \<lparr>hep_timestamp_epoch_ms = sample_bucket (as_i64 (fss_timestamp_epoch_ms snap)),
      hep_relays = map relay_reading_of (fss_heating_zones snap), hep_heat_pump = fss_heat_pump_meter snap\<rparr>"

definition freshness_of :: "tass_actual_info option \<Rightarrow> string" where
  "freshness_of a = (case a of None \<Rightarrow> ''unknown'' | Some i \<Rightarrow> tai_freshness i)"

definition valve_sample :: "int \<Rightarrow> trv_snapshot \<Rightarrow> valve_history_point device_sample" where
  "valve_sample timestamp v =
     (tsn_device v,
      \<lparr>vhp_timestamp_epoch_ms = sample_bucket timestamp,
       vhp_observed_at_epoch_ms = map_option (\<lambda>age. saturate_i64 (timestamp - as_i64 age))
         (Option.bind (tsn_actual v) tai_since_ago_ms),
       vhp_local_temperature = tsn_local_temperature v, vhp_reported_setpoint = tsn_setpoint v,
       vhp_target = tsn_target_value v, vhp_heating_demand = tsn_pi_heating_demand v,
       vhp_running_state = tsn_running_state v, vhp_battery = tsn_battery v,
       vhp_freshness = freshness_of (tsn_actual v)\<rparr>)"

definition samples :: "full_state_snapshot \<Rightarrow> valve_history_point device_sample list" where
  "samples snap =
     map (valve_sample (as_i64 (fss_timestamp_epoch_ms snap))) (concat (map zsn_trvs (fss_heating_zones snap)))"

definition plug_power_samples :: "full_state_snapshot \<Rightarrow> plug_power_history_point device_sample list" where
  "plug_power_samples snap =
     map (\<lambda>pl. (psn_device pl,
       \<lparr>php_timestamp_epoch_ms = sample_bucket (as_i64 (fss_timestamp_epoch_ms snap)), php_power_watts = psn_power_watts pl,
        php_freshness = freshness_of (psn_power_actual pl)\<rparr>)) (fss_plugs snap)"

section \<open>Energy\<close>

record energy_estimate =
  ee_kwh :: f64
  ee_observed_ms :: int

definition estimate_pair :: "plug_power_history_point \<times> plug_power_history_point \<Rightarrow> energy_estimate \<Rightarrow> energy_estimate" where
  "estimate_pair pair est =
     (case pair of (previous, current) \<Rightarrow>
        let elapsed_ms = wrap_i64 (php_timestamp_epoch_ms current - php_timestamp_epoch_ms previous) in
        if elapsed_ms \<le> 0 \<or> elapsed_ms > MAX_ENERGY_SAMPLE_GAP_MS \<or> php_freshness previous \<noteq> ''fresh'' \<or>
           php_freshness current \<noteq> ''fresh'' then est
        else (case (php_power_watts previous, php_power_watts current) of
            (Some previous_watts, Some current_watts) \<Rightarrow>
              est\<lparr>ee_kwh := ee_kwh est + (previous_watts + current_watts) / 2 * of_int elapsed_ms / WATT_MILLISECONDS_PER_KWH,
                  ee_observed_ms := ee_observed_ms est + elapsed_ms\<rparr>
          | _ \<Rightarrow> est))"

definition estimate_energy :: "plug_power_history_point list \<Rightarrow> energy_estimate option" where
  "estimate_energy points =
     (let est = fold estimate_pair (zip points (tl points)) \<lparr>ee_kwh = 0, ee_observed_ms = 0\<rparr>
      in if ee_observed_ms est > 0 then Some est else None)"

section \<open>The tables\<close>

record history_tables =
  ht_energy :: "(int, string) btree_map"
  ht_valves :: "(string \<times> int, string) btree_map"
  ht_plugs :: "(string \<times> int, string) btree_map"

definition history_new :: history_tables where
  "history_new = \<lparr>ht_energy = [], ht_valves = [], ht_plugs = []\<rparr>"

record 'p point_json =
  pj_print :: "'p \<Rightarrow> string + string"
  pj_read :: "string \<Rightarrow> string + 'p"

text \<open>A table of the database: how it is changed and read, and the time in its key.\<close>

record 'k history_table =
  tb_update :: "(('k, string) btree_map \<Rightarrow> ('k, string) btree_map) \<Rightarrow> history_tables \<Rightarrow> history_tables"
  tb_rows :: "history_tables \<Rightarrow> ('k, string) btree_map"
  tb_time :: "'k \<Rightarrow> int"

definition energy_table :: "int history_table" where
  "energy_table = \<lparr>tb_update = ht_energy_update, tb_rows = ht_energy, tb_time = id\<rparr>"

definition valve_table :: "(string \<times> int) history_table" where
  "valve_table = \<lparr>tb_update = ht_valves_update, tb_rows = ht_valves, tb_time = snd\<rparr>"

definition plug_table :: "(string \<times> int) history_table" where
  "plug_table = \<lparr>tb_update = ht_plugs_update, tb_rows = ht_plugs, tb_time = snd\<rparr>"

text \<open>\<open>INSERT ... ON CONFLICT DO UPDATE\<close>, \<open>DELETE ... WHERE ts_ms < ?\<close> and the selection in time order.\<close>

definition upsert_point :: "('k::linorder) history_table \<Rightarrow> 'k \<Rightarrow> string \<Rightarrow> history_tables \<Rightarrow> unit \<times> history_tables" where
  "upsert_point tb k data t = ((), tb_update tb (bt_insert k data) t)"

definition prune_points :: "'k history_table \<Rightarrow> int \<Rightarrow> history_tables \<Rightarrow> unit \<times> history_tables" where
  "prune_points tb cutoff t = ((), tb_update tb (filter (\<lambda>(k, _). \<not> tb_time tb k < cutoff)) t)"

definition select_points :: "'k history_table \<Rightarrow> ('k \<Rightarrow> bool) \<Rightarrow> int \<Rightarrow> int \<Rightarrow> history_tables \<Rightarrow> string list \<times> history_tables" where
  "select_points tb wanted from to t =
     (map snd (sort_key (\<lambda>(k, _). tb_time tb k)
        (filter (\<lambda>(k, _). wanted k \<and> tb_time tb k \<ge> from \<and> tb_time tb k \<le> to) (tb_rows tb t))), t)"

section \<open>The repository\<close>

text \<open>An operation opens a connection of its own; a transaction it does not commit is dropped with it.\<close>

definition on_connection :: "('a, 'db) sql \<Rightarrow> 'db \<Rightarrow> (string + 'a) \<times> 'db" where
  "on_connection m db = (let (r, c) = m (connect db) in (r, cn_committed c))"

definition write_point ::
  "(nat \<Rightarrow> string option) \<Rightarrow> ('k::linorder) history_table \<Rightarrow> 'p point_json \<Rightarrow> 'k \<times> 'p \<Rightarrow> (unit, history_tables) sql" where
  "write_point fails tb pj kp c =
     (case pj_print pj (snd kp) of Inl e \<Rightarrow> (Inl e, c) | Inr data \<Rightarrow> sql_statement fails (upsert_point tb (fst kp) data) c)"

definition record_points ::
  "(nat \<Rightarrow> string option) \<Rightarrow> ('k::linorder) history_table \<Rightarrow> 'p point_json \<Rightarrow> ('k \<times> 'p) list \<Rightarrow> int \<Rightarrow> (unit, history_tables) sql" where
  "record_points fails tb pj rows now_ms =
     sql_then (sql_begin fails)
       (\<lambda>_. sql_then (sql_each (write_point fails tb pj) rows)
         (\<lambda>_. sql_then (sql_statement fails (prune_points tb (now_ms - HISTORY_WINDOW_MS)))
           (\<lambda>_. sql_commit fails)))"

primrec read_points :: "'p point_json \<Rightarrow> string list \<Rightarrow> string + 'p list" where
  "read_points pj [] = Inr []"
| "read_points pj (s # ss) =
     (case pj_read pj s of
        Inl e \<Rightarrow> Inl e
      | Inr p \<Rightarrow> (case read_points pj ss of Inl e \<Rightarrow> Inl e | Inr ps \<Rightarrow> Inr (p # ps)))"

definition fetch_points ::
  "(nat \<Rightarrow> string option) \<Rightarrow> 'k history_table \<Rightarrow> 'p point_json \<Rightarrow> ('k \<Rightarrow> bool) \<Rightarrow> int \<Rightarrow> ('p list, history_tables) sql" where
  "fetch_points fails tb pj wanted now_ms =
     sql_then (sql_statement fails (select_points tb wanted (now_ms - HISTORY_WINDOW_MS) now_ms))
       (\<lambda>found c. (read_points pj found, c))"

definition record_heating_energy ::
  "(nat \<Rightarrow> string option) \<Rightarrow> heating_energy_point point_json \<Rightarrow> heating_energy_point \<Rightarrow> int \<Rightarrow> history_tables \<Rightarrow> (string + unit) \<times> history_tables" where
  "record_heating_energy fails pj p now_ms = on_connection (record_points fails energy_table pj [(hep_timestamp_epoch_ms p, p)] now_ms)"

definition record_valves ::
  "(nat \<Rightarrow> string option) \<Rightarrow> valve_history_point point_json \<Rightarrow> valve_history_point device_sample list \<Rightarrow> int \<Rightarrow> history_tables \<Rightarrow> (string + unit) \<times> history_tables" where
  "record_valves fails pj ss now_ms =
     on_connection (record_points fails valve_table pj (map (\<lambda>(d, p). ((d, vhp_timestamp_epoch_ms p), p)) ss) now_ms)"

definition record_power ::
  "(nat \<Rightarrow> string option) \<Rightarrow> plug_power_history_point point_json \<Rightarrow> plug_power_history_point device_sample list \<Rightarrow> int \<Rightarrow> history_tables \<Rightarrow> (string + unit) \<times> history_tables" where
  "record_power fails pj ss now_ms =
     on_connection (record_points fails plug_table pj (map (\<lambda>(d, p). ((d, php_timestamp_epoch_ms p), p)) ss) now_ms)"

definition fetch_heating_energy ::
  "(nat \<Rightarrow> string option) \<Rightarrow> heating_energy_point point_json \<Rightarrow> int \<Rightarrow> history_tables \<Rightarrow> (string + heating_energy_point list) \<times> history_tables" where
  "fetch_heating_energy fails pj now_ms = on_connection (fetch_points fails energy_table pj (\<lambda>_. True) now_ms)"

definition fetch_valves ::
  "(nat \<Rightarrow> string option) \<Rightarrow> valve_history_point point_json \<Rightarrow> string \<Rightarrow> int \<Rightarrow> history_tables \<Rightarrow> (string + valve_history_point list) \<times> history_tables" where
  "fetch_valves fails pj device now_ms = on_connection (fetch_points fails valve_table pj (\<lambda>k. fst k = device) now_ms)"

definition fetch_power ::
  "(nat \<Rightarrow> string option) \<Rightarrow> plug_power_history_point point_json \<Rightarrow> string \<Rightarrow> int \<Rightarrow> history_tables \<Rightarrow> (string + plug_power_history_point list) \<times> history_tables" where
  "fetch_power fails pj device now_ms = on_connection (fetch_points fails plug_table pj (\<lambda>k. fst k = device) now_ms)"

section \<open>The sampler\<close>

record history_jsons =
  hj_energy :: "heating_energy_point point_json"
  hj_valves :: "valve_history_point point_json"
  hj_plugs :: "plug_power_history_point point_json"

text \<open>One tick: the snapshot the loop answered with, or why it did not; \<open>fails\<close> for each of the three
  operations. The error status replaces the last one.\<close>

definition sampler_tick ::
  "history_jsons \<Rightarrow> (nat \<Rightarrow> nat \<Rightarrow> string option) \<Rightarrow> string + full_state_snapshot \<Rightarrow>
   history_tables \<times> string option \<Rightarrow> history_tables \<times> string option" where
  "sampler_tick hj fails answer st =
     (case answer of
        Inl e \<Rightarrow> (fst st, Some e)
      | Inr snap \<Rightarrow>
          let now_ms = as_i64 (fss_timestamp_epoch_ms snap) in
          (case record_heating_energy (fails 0) (hj_energy hj) (heating_energy_sample snap) now_ms (fst st) of
             (Inl e, db) \<Rightarrow> (db, Some e)
           | (Inr _, db) \<Rightarrow>
               (case record_valves (fails 1) (hj_valves hj) (samples snap) now_ms db of
                  (Inl e, db) \<Rightarrow> (db, Some e)
                | (Inr _, db) \<Rightarrow>
                    (case record_power (fails 2) (hj_plugs hj) (plug_power_samples snap) now_ms db of
                       (Inl e, db) \<Rightarrow> (db, Some e)
                     | (Inr _, db) \<Rightarrow> (db, None)))))"

definition history_start :: "history_tables \<Rightarrow> history_tables \<times> string option" where
  "history_start db = (db, Some ''Waiting for the first history sample'')"

section \<open>The estimate lies between the readings\<close>

definition estimate_between :: "f64 \<Rightarrow> f64 \<Rightarrow> energy_estimate \<Rightarrow> bool" where
  "estimate_between lo hi est =
     (0 \<le> ee_observed_ms est \<and> lo * of_int (ee_observed_ms est) \<le> ee_kwh est * WATT_MILLISECONDS_PER_KWH \<and>
      ee_kwh est * WATT_MILLISECONDS_PER_KWH \<le> hi * of_int (ee_observed_ms est))"

lemma estimate_pair_between:
  assumes "estimate_between lo hi est"
    and "\<And>w. php_power_watts a = Some w \<or> php_power_watts b = Some w \<Longrightarrow> lo \<le> w \<and> w \<le> hi"
  shows "estimate_between lo hi (estimate_pair (a, b) est)"
proof -
  define ms where "ms = wrap_i64 (php_timestamp_epoch_ms b - php_timestamp_epoch_ms a)"
  have "estimate_between lo hi (est\<lparr>ee_kwh := ee_kwh est + (wa + wb) / 2 * of_int ms / WATT_MILLISECONDS_PER_KWH,
      ee_observed_ms := ee_observed_ms est + ms\<rparr>)"
    if w: "php_power_watts a = Some wa" "php_power_watts b = Some wb" "0 < ms" for wa wb
  proof -
    have "lo \<le> (wa + wb) / 2" "(wa + wb) / 2 \<le> hi" using assms(2) [of wa] assms(2) [of wb] w by (simp_all add: field_simps)
    then have "lo * of_int ms \<le> (wa + wb) / 2 * of_int ms" "(wa + wb) / 2 * of_int ms \<le> hi * of_int ms"
      using w(3) by (simp_all add: mult_right_mono)
    then show ?thesis using assms(1) w(3) by (simp add: estimate_between_def WATT_MILLISECONDS_PER_KWH_def field_simps)
  qed
  then show ?thesis using assms(1)
    by (simp add: estimate_pair_def Let_def ms_def [symmetric] split: option.split)
qed

lemma estimate_fold_between:
  assumes "\<And>p w. p \<in> set ps \<Longrightarrow> php_power_watts p = Some w \<Longrightarrow> lo \<le> w \<and> w \<le> hi" and "set qs \<subseteq> set ps \<times> set ps" and "estimate_between lo hi est"
  shows "estimate_between lo hi (fold estimate_pair qs est)"
  using assms(2,3)
proof (induction qs arbitrary: est)
  case (Cons q qs)
  obtain a b where q: "q = (a, b)" "a \<in> set ps" "b \<in> set ps" using Cons.prems(1) by (cases q) auto
  have "estimate_between lo hi (estimate_pair (a, b) est)"
    by (rule estimate_pair_between [OF Cons.prems(2)]) (use q assms(1) in blast)
  with Cons q show ?case by simp
qed simp

lemma set_pairs: "set (zip ps (tl ps)) \<subseteq> set ps \<times> set ps"
  by (cases ps) (auto dest: set_zip_leftD set_zip_rightD)

text \<open>The energy estimated from a history lies between what its smallest and its largest reading would have used
  over the time that was observed. Gaps, stale points and points without a reading add nothing.\<close>

theorem estimate_within_readings:
  assumes "estimate_energy ps = Some est" and "\<forall>p \<in> set ps. \<forall>w. php_power_watts p = Some w \<longrightarrow> lo \<le> w \<and> w \<le> hi"
  shows "0 < ee_observed_ms est \<and> lo * of_int (ee_observed_ms est) \<le> ee_kwh est * WATT_MILLISECONDS_PER_KWH \<and>
    ee_kwh est * WATT_MILLISECONDS_PER_KWH \<le> hi * of_int (ee_observed_ms est)"
proof -
  have "estimate_between lo hi (fold estimate_pair (zip ps (tl ps)) \<lparr>ee_kwh = 0, ee_observed_ms = 0\<rparr>)"
    by (rule estimate_fold_between [OF _ set_pairs]) (use assms(2) in \<open>auto simp: estimate_between_def\<close>)
  then show ?thesis using assms(1) by (auto simp: estimate_energy_def estimate_between_def Let_def split: if_splits)
qed

section \<open>What is recorded is fetched\<close>

definition table_ok :: "'k history_table \<Rightarrow> bool" where
  "table_ok tb = (\<forall>f t. tb_rows tb (tb_update tb f t) = f (tb_rows tb t))"

lemma tables_ok: "table_ok energy_table" "table_ok valve_table" "table_ok plug_table"
  by (simp_all add: table_ok_def energy_table_def valve_table_def plug_table_def)

text \<open>The rows after recording \<open>rows\<close>, each printed by \<open>text\<close>.\<close>

definition recorded_rows :: "('k::linorder) history_table \<Rightarrow> ('p \<Rightarrow> string) \<Rightarrow> ('k \<times> 'p) list \<Rightarrow> int \<Rightarrow> ('k, string) btree_map \<Rightarrow> ('k, string) btree_map" where
  "recorded_rows tb prn rows now_ms m =
     filter (\<lambda>(k, _). \<not> tb_time tb k < now_ms - HISTORY_WINDOW_MS) (fold (\<lambda>(k, p). bt_insert k (prn p)) rows m)"

lemma write_point_does:
  assumes "pj_print pj (snd kp) = Inr data"
  shows "does (write_point never_fails tb pj kp) (tb_update tb (bt_insert (fst kp) data))"
  using does_statement [of "upsert_point tb (fst kp) data"] assms
  by (simp add: does_def write_point_def upsert_point_def)

lemma fold_update:
  assumes "table_ok tb"
  shows "tb_rows tb (fold (\<lambda>(k, p). tb_update tb (bt_insert k (prn p))) rows t) = fold (\<lambda>(k, p). bt_insert k (prn p)) rows (tb_rows tb t)"
  using assms by (induction rows arbitrary: t) (auto simp: table_ok_def)

lemma record_points_works:
  assumes "table_ok tb" and "\<forall>kp \<in> set rows. pj_print pj (snd kp) = Inr (prn (snd kp))"
  shows "\<exists>db'. on_connection (record_points never_fails tb pj rows now_ms) db = (Inr (), db') \<and>
    tb_rows tb db' = recorded_rows tb prn rows now_ms (tb_rows tb db)"
proof -
  have each: "does (sql_each (write_point never_fails tb pj) rows) (fold (\<lambda>(k, p). tb_update tb (bt_insert k (prn p))) rows)"
    using assms(2)
  proof (induction rows)
    case Nil
    then show ?case using does_return by (simp add: id_def)
  next
    case (Cons kp rows)
    have "does (write_point never_fails tb pj kp) (tb_update tb (bt_insert (fst kp) (prn (snd kp))))"
      by (rule write_point_does) (use Cons.prems in simp)
    from does_then [OF this Cons.IH] Cons.prems show ?case by (simp add: comp_def case_prod_beta)
  qed
  let ?prune = "\<lambda>t. snd (prune_points tb (now_ms - HISTORY_WINDOW_MS) t)"
  let ?t = "?prune (fold (\<lambda>(k, p). tb_update tb (bt_insert k (prn p))) rows db)"
  let ?begun = "\<lparr>cn_committed = db, cn_pending = Some db, cn_issued = 1\<rparr>"
  have "does (sql_then (sql_each (write_point never_fails tb pj) rows)
      (\<lambda>_. sql_statement never_fails (prune_points tb (now_ms - HISTORY_WINDOW_MS))))
      (\<lambda>t. ?prune (fold (\<lambda>(k, p). tb_update tb (bt_insert k (prn p))) rows t))"
    by (rule does_then [OF each does_statement])
  then obtain c where c: "sql_then (sql_each (write_point never_fails tb pj) rows)
      (\<lambda>_. sql_statement never_fails (prune_points tb (now_ms - HISTORY_WINDOW_MS))) ?begun = (Inr (), c)" "cn_pending c = Some ?t"
    by (rule doesE [where c = ?begun and db = db]) simp_all
  then have "on_connection (record_points never_fails tb pj rows now_ms) db = (Inr (), ?t)"
    by (auto simp: on_connection_def record_points_def sql_then_def sql_begin_def sql_commit_def connect_def split: prod.splits sum.splits)
  moreover have "tb_rows tb ?t = recorded_rows tb prn rows now_ms (tb_rows tb db)"
    using assms(1) fold_update [OF assms(1), of prn rows db] by (simp add: prune_points_def recorded_rows_def table_ok_def)
  ultimately show ?thesis by blast
qed

lemma fetch_points_works:
  "on_connection (fetch_points never_fails tb pj wanted now_ms) db =
     (read_points pj (fst (select_points tb wanted (now_ms - HISTORY_WINDOW_MS) now_ms db)), db)"
  by (simp add: on_connection_def fetch_points_def sql_then_def sql_statement_def visible_tables_def store_tables_def connect_def select_points_def)

lemma read_points_all:
  assumes "\<forall>s \<in> set ss. pj_read pj s = Inr (val s)"
  shows "read_points pj ss = Inr (map val ss)"
  using assms by (induction ss) simp_all

lemma fold_insert_get:
  assumes "distinct (map fst rows)"
  shows "bt_get (fold (\<lambda>(k, p). bt_insert k (prn p)) rows m) k = (case map_of rows k of Some p \<Rightarrow> Some (prn p) | None \<Rightarrow> bt_get m k)"
  using assms
proof (induction rows arbitrary: m)
  case (Cons kp rows)
  obtain k' p where kp: "kp = (k', p)" by (cases kp)
  then have "map_of rows k' = None" and "distinct (map fst rows)" using Cons.prems by (simp_all add: map_of_eq_None_iff)
  with Cons.IH [OF this(2), of "bt_insert k' (prn p) m"] kp show ?case by (cases "k = k'") (simp_all split: option.split)
qed simp

lemma fold_insert_set: "set (fold (\<lambda>(k, p). bt_insert k (prn p)) rows m) \<subseteq> (\<lambda>(k, p). (k, prn p)) ` set rows \<union> set m"
proof (induction rows arbitrary: m)
  case (Cons kp rows)
  obtain k p where "kp = (k, p)" by (cases kp)
  then show ?case using Cons [of "bt_insert k (prn p) m"] set_bt_insert [of k "prn p" m] by auto
qed simp

text \<open>A recorded minute is there when it is asked for: if the points survive the trip through JSON and the database
  does not fail, then after one recording the fetch of a device succeeds and returns every point of it just
  recorded that lies in the last day, and the database holds nothing older.\<close>

theorem recorded_points_are_fetched:
  assumes json: "\<forall>(d, p) \<in> set ss. \<exists>data. pj_print pj p = Inr data \<and> pj_read pj data = Inr p"
    and stored: "\<forall>(k, data) \<in> set (ht_valves db). \<exists>p. pj_read pj data = Inr p"
    and keys: "distinct (map (\<lambda>(d, p). (d, vhp_timestamp_epoch_ms p)) ss)"
    and point: "(d, p) \<in> set ss" "now_ms - HISTORY_WINDOW_MS \<le> vhp_timestamp_epoch_ms p" "vhp_timestamp_epoch_ms p \<le> now_ms"
  shows "\<exists>db' ps. record_valves never_fails pj ss now_ms db = (Inr (), db') \<and>
    fst (fetch_valves never_fails pj d now_ms db') = Inr ps \<and> p \<in> set ps \<and>
    (\<forall>(k, _) \<in> set (ht_valves db'). now_ms - HISTORY_WINDOW_MS \<le> snd k)"
proof -
  let ?rows = "map (\<lambda>(d, p). ((d, vhp_timestamp_epoch_ms p), p)) ss"
  define prn where "prn p = (case pj_print pj p of Inr data \<Rightarrow> data | Inl e \<Rightarrow> e)" for p
  have prn: "pj_print pj q = Inr (prn q) \<and> pj_read pj (prn q) = Inr q" if "(e, q) \<in> set ss" for e q
    using json that by (auto simp: prn_def)
  obtain db' where db': "record_valves never_fails pj ss now_ms db = (Inr (), db')"
      "tb_rows valve_table db' = recorded_rows valve_table prn ?rows now_ms (tb_rows valve_table db)"
    using record_points_works [OF tables_ok(2), of ?rows pj prn now_ms db] prn unfolding record_valves_def by fastforce
  then have rows: "ht_valves db' = recorded_rows valve_table prn ?rows now_ms (ht_valves db)" by (simp add: valve_table_def)
  let ?k = "(d, vhp_timestamp_epoch_ms p)"
  have "distinct (map fst ?rows)" using keys by (simp add: comp_def split_def)
  moreover have "(?k, p) \<in> set ?rows" using point(1) by force
  ultimately have "map_of ?rows ?k = Some p" by (rule map_of_is_SomeI)
  then have "bt_get (fold (\<lambda>(k, p). bt_insert k (prn p)) ?rows (ht_valves db)) ?k = Some (prn p)"
    using fold_insert_get [OF \<open>distinct (map fst ?rows)\<close>, of prn "ht_valves db" ?k] by simp
  then have "(?k, prn p) \<in> set (fold (\<lambda>(k, p). bt_insert k (prn p)) ?rows (ht_valves db))" by (rule bt_get_in_set)
  then have there: "(?k, prn p) \<in> set (ht_valves db')" using point(2) by (simp add: rows recorded_rows_def valve_table_def)
  have readable: "\<exists>q. pj_read pj data = Inr q" if "(k, data) \<in> set (ht_valves db')" for k data
  proof -
    have "(k, data) \<in> (\<lambda>(k, p). (k, prn p)) ` set ?rows \<union> set (ht_valves db)"
      using that fold_insert_set [of prn ?rows "ht_valves db"] by (auto simp: rows recorded_rows_def)
    then show ?thesis using prn stored by auto
  qed
  let ?found = "fst (select_points valve_table (\<lambda>k. fst k = d) (now_ms - HISTORY_WINDOW_MS) now_ms db')"
  define val where "val s = (case pj_read pj s of Inr q \<Rightarrow> q)" for s
  have "\<forall>s \<in> set ?found. pj_read pj s = Inr (val s)"
    using readable by (fastforce simp: select_points_def valve_table_def val_def)
  then have "read_points pj ?found = Inr (map val ?found)" by (rule read_points_all)
  then have fetched: "fst (fetch_valves never_fails pj d now_ms db') = Inr (map val ?found)"
    unfolding fetch_valves_def fetch_points_works by simp
  have "prn p \<in> set ?found" using there point by (force simp: select_points_def valve_table_def)
  then have "p \<in> set (map val ?found)" using prn [OF point(1)] by (force simp: val_def)
  moreover have "\<forall>(k, _) \<in> set (ht_valves db'). now_ms - HISTORY_WINDOW_MS \<le> snd k"
    by (auto simp: rows recorded_rows_def valve_table_def not_less)
  ultimately show ?thesis using db'(1) fetched by blast
qed

end
