(* ===== verification/Spec2Isabelle.thy ===== *)
theory Spec2Isabelle
  imports Tass Scenes Plugs HeatingLoop PumpProtection Valves Presses Vacancy RoomScenes Daemon Reconcile History
begin

text \<open>
  A verification development of the MQTT home controller: the Rust program under
  \<open>src/crates/mqtt-controller/src\<close> (paths below are relative to it) that reads device reports from
  an MQTT broker, decides what lights, plugs and radiator valves should do, and publishes
  commands.

  \<^bold>\<open>The program and its parts.\<close> A configuration file is checked and indexed once by
  \<open>Topology::build\<close>. The event processor holds the world state: for every entity a \<^emph>\<open>target\<close> (what
  the controller wants, who asked, and how far the wish has got) and an \<^emph>\<open>actual\<close> (what the device
  last said, and how fresh that is). An MQTT publish is parsed into an event and queued for the
  daemon; the daemon hands it to the processor, which answers with effects; the dispatcher turns
  effects into publishes and notes which entities the dashboard must be told about. Periodic
  ticks run timers, kill switches and the heating loop. Dashboard commands act on the processor
  directly or change stored settings.

  \<^bold>\<open>Conventions.\<close> A function that may panic returns an option whose \<^const>\<open>None\<close> is the panic; \<open>wp m Q\<close>
  says that \<open>m\<close> does not panic and its result satisfies \<open>Q\<close>. An error result is \<open>Inl\<close>, a success
  \<open>Inr\<close>, and \<open>andthen\<close> is \<open>?\<close>. A handler takes the processor to a list of effects and a new
  processor. \<open>BTreeMap\<close> and \<open>BTreeSet\<close> are sorted association lists and lists, so iteration order
  is the code's. Instants and durations are nanoseconds as natural numbers, whose subtraction
  saturates as \<open>Instant::duration_since\<close> does; numbers read from JSON are rationals; the tick
  generation, the one counter that is incremented for ever, is a 64-bit word. Loops are folds over
  lists or structural recursion; the check for circular parents and the parser of time expressions
  have termination proofs, and \<open>has_ancestor\<close>, which a circular configuration would send round
  for ever, is a partial function whose \<^const>\<open>None\<close> also stands for not returning, so that the
  theorem that the builder returns says that the walk ends. No fuel is used anywhere.

  \<^bold>\<open>Code outside the repository\<close> is an argument of the definitions: the sunrise library (the record
  \<open>sunrise_crate\<close>), the JSON parser and printer, the MQTT client (a function that may fail and has
  a state of its own), the settings database (the record \<open>settings_repository\<close>, whose writes may
  fail), the embedded database of the logs (theory \<open>Sql\<close>, whose statements may fail), the wall
  clock (the record \<open>clock\<close>, which changes between inputs), and what the bridges' WebSocket servers
  answer.

  \<^bold>\<open>Theories, in the order of the imports.\<close>
  \<^item> \<open>Prelude\<close>: scalars, panics, ordered maps and sets with the locale of their laws.
  \<^item> \<open>Tass\<close> (\<open>tass.rs\<close>): the target and actual life cycle and its invariant.
  \<^item> \<open>TimeExpr\<close>, \<open>Scenes\<close>, \<open>Json\<close>, \<open>HeatingConfig\<close>, \<open>StepsConfig\<close>, \<open>Catalog\<close> (\<open>config/\<close>): time expressions
    with their parser and printer, scene slots and their validation, weekly temperature
    schedules and the sweep that checks them, switch steps, and the configuration file.
  \<^item> \<open>Topology\<close> (\<open>topology.rs\<close>, \<open>topology/resolved.rs\<close>): the indexed view and its lookups;
    \<open>Entities\<close>, \<open>Domain\<close> (\<open>entities/\<close>, \<open>domain/\<close>, \<open>mqtt/topics.rs\<close>): the world state, events, payloads,
    effects and topics.
  \<^item> \<open>Processor\<close>, \<open>House\<close>: the processor's state, clock and sun times, and a small house to run it on.
  \<^item> \<open>Lights\<close>, \<open>Motion\<close>, \<open>Buttons\<close>, \<open>Plugs\<close>, \<open>HeatingBase\<close>, \<open>HeatingLoop\<close>, \<open>Controller\<close> (\<open>logic/\<close>): one handler
    per function of the code, composed as the code composes them; \<open>Controller\<close> has
    \<open>handle_event\<close>, \<open>handle_tick\<close> and the dashboard entry points.
  \<^item> \<open>Overrides\<close>, \<open>Lifecycle\<close> (\<open>settings.rs\<close>, \<open>settings/\<close>, \<open>logic/automation_overrides.rs\<close>): dashboard
    overrides with their validation and persistence, restoring them at start, and the
    controller's life as a step relation.
  \<^item> \<open>Builder\<close>, \<open>BuilderStages\<close>, \<open>BuilderMotion\<close>, \<open>BuilderHeating\<close>, \<open>Deployment\<close> (\<open>topology/build.rs\<close>,
    \<open>topology/motion.rs\<close>, \<open>topology/switch_steps.rs\<close>): the builder stage by stage, and what a
    topology it accepts satisfies.
  \<^item> \<open>Messages\<close>, \<open>Dispatch\<close>, \<open>Bridge\<close>, \<open>Daemon\<close> (\<open>mqtt/parse.rs\<close>, \<open>effect_dispatch.rs\<close>, \<open>mqtt/mod.rs\<close>,
    \<open>daemon.rs\<close>, \<open>daemon/\<close>): parsing, dispatch, the event loop with its bounded channel, and the daemon
    from its start to its last turn.
  \<^item> \<open>Wire\<close>, \<open>Snapshot\<close>, \<open>Dashboard\<close> (the wire crate, \<open>web/snapshot.rs\<close>): what dashboards are sent after
    an event and on request, with proofs that every view can be built and shows what it should.
  \<^item> \<open>EventLog\<close> (\<open>web/event_log.rs\<close>, \<open>web/decision_capture.rs\<close>, \<open>daemon/\<close>): the decision log, and the event
    loop with a dashboard attached, which is proved to behave as the one without.
  \<^item> \<open>Sql\<close>, \<open>AuditLog\<close> (\<open>audit/\<close>): the embedded database as statements and transactions that may fail,
    and the audit log on it: the batching writer, the retention sweep and the query.
  \<^item> \<open>History\<close> (\<open>web/history.rs\<close>): the minute samples, their tables and the energy estimate.
  \<^item> \<open>Provision\<close>, \<open>Reconcile\<close> (\<open>provision/\<close>): the one-shot command that makes the bridges' names,
    groups, scenes and options match the configuration.
  \<^item> \<open>Valves\<close>, \<open>PumpProtection\<close>, \<open>Presses\<close>, \<open>Vacancy\<close>, \<open>RoomScenes\<close>: the deeper properties of the heating
    loop, of buttons and timed actions, of motion sessions and of room scenes.

  \<^bold>\<open>What the lemmas show.\<close> For every handler a lemma named \<open>..._safe\<close> says that in a state that
  satisfies the invariant it does not panic, keeps the invariant and the configuration, and
  returns effects whose indexes exist; they compose, through the locale
  \<open>serving_machine\<close> and its interpretation on the model, to the theorem that the daemon never
  panics. The builder's stages each have a lemma for what they guarantee when they accept, which
  give the invariant of the first state. On top of these stand the properties: equivalence of
  the schedule checks and of the descendant index with their specifications, round trips of
  time expressions and of Z-Wave topics, refinement of the wall switch and of the confirmed
  toggle to small specifications, protection of the heat pump and of the valves, kill switches,
  motion sessions that never touch what is not theirs, a dashboard that only observes, an audit log
  that loses nothing, commands that are never read back, events
  that keep their order, and bounds on what a parsed report can hold.

  \<^bold>\<open>What the configuration must provide\<close> beyond what the builder checks is the predicate \<open>deployable\<close>:
  time spans below the 64-bit range of a \<open>Duration\<close> and not negative where the builder does not look
  (a finding), and coordinates at which the sun rises on every day.

  \<^bold>\<open>Not modelled.\<close> The network itself: sockets, TLS, the rumqttc client's own protocol, the WebSocket
  clients (\<open>mqtt/z2m_api.rs\<close>, \<open>mqtt/zwave_api.rs\<close>, \<open>daemon/zwave_server.rs\<close>) and the HTTP server
  (\<open>web/server.rs\<close>). The SQL of the settings store. The waits, transaction ids and retained-topic
  cache of the provisioning client. Derived serde code, command line parsing (\<open>main.rs\<close>) and the
  frontend. Tracing output is left out of the handlers; the decision log takes the traced lines as
  an argument. Floating-point rounding is not modelled: the code compares, clamps and multiplies
  such values, and the rationals do so exactly.
\<close>

end
